(* ===== verification/Go_Base.thy ===== *)
theory Go_Base
  imports Main "HOL-Library.Word"
begin

text \<open>
  The part of the Go language and of its standard library that the modelled packages use.
  A Go string or byte slice is a \<^typ>\<open>string\<close>, a list of 8-bit characters, so lengths and
  indices count bytes as they do in Go; a rune is the list of bytes that encodes it, so the
  conversion \<^verbatim>\<open>[]rune(s)\<close> is the function \<open>runes\<close> below and \<^verbatim>\<open>string(rs)\<close> is \<^const>\<open>concat\<close>.
  The theory also declares the collections of simplification rules the component theories
  share.
\<close>

named_theorems go_defs \<open>definitions of the small Go library functions\<close>
named_theorems utf8_simps \<open>facts about decoded runes\<close>

type_synonym gostring = string
type_synonym rune = string

section \<open>Bytes and UTF-8\<close>

definition byte :: "char \<Rightarrow> nat" where
  "byte c = of_char c"

text \<open>
  \<open>unicode/utf8\<close>: the table \<^verbatim>\<open>first\<close> gives, for the first byte of a multi-byte rune, the size of
  the encoding and the range its second byte must lie in; every other first byte at or above
  \<^verbatim>\<open>RuneSelf\<close> is invalid.
\<close>

definition runeSelf :: nat where
  "runeSelf = 0x80"

definition acceptRange :: "nat \<Rightarrow> (nat \<times> nat \<times> nat) option" where
  "acceptRange b =
     (if b < 0xC2 then None
      else if b < 0xE0 then Some (2, 0x80, 0xBF)
      else if b = 0xE0 then Some (3, 0xA0, 0xBF)
      else if b = 0xED then Some (3, 0x80, 0x9F)
      else if b < 0xF0 then Some (3, 0x80, 0xBF)
      else if b = 0xF0 then Some (4, 0x90, 0xBF)
      else if b < 0xF4 then Some (4, 0x80, 0xBF)
      else if b = 0xF4 then Some (4, 0x80, 0x8F)
      else None)"

definition isCont :: "char \<Rightarrow> bool" where
  "isCont c \<longleftrightarrow> 0x80 \<le> byte c \<and> byte c \<le> 0xBF"

text \<open>The second result of \<^verbatim>\<open>utf8.DecodeRune\<close>: 0 for an empty slice, 1 for an ASCII byte and for
  an invalid or incomplete encoding.\<close>

fun decodeRuneSize :: "gostring \<Rightarrow> nat" where
  "decodeRuneSize [] = 0"
| "decodeRuneSize (c # cs) =
     (case acceptRange (byte c) of
        None \<Rightarrow> 1
      | Some (n, lo, hi) \<Rightarrow>
          if n \<le> Suc (length cs) \<and> lo \<le> byte (cs ! 0) \<and> byte (cs ! 0) \<le> hi
             \<and> list_all isCont (take (n - 2) (drop 1 cs))
          then n else 1)"

definition runeError :: rune where
  "runeError = [CHR 0xEF, CHR 0xBF, CHR 0xBD]"

lemma acceptRange_size: "acceptRange b = Some (n, lo, hi) \<Longrightarrow> 2 \<le> n \<and> n \<le> 4 \<and> 0xC2 \<le> b"
  by (auto simp: acceptRange_def split: if_splits)

lemma decodeRuneSize_pos [simp]: "0 < decodeRuneSize (c # cs)"
  by (auto split: option.splits dest: acceptRange_size)

lemma decodeRuneSize_le: "decodeRuneSize s \<le> length s"
  by (cases s) (auto split: option.splits)

text \<open>\<^verbatim>\<open>[]rune(s)\<close>, and the runes a \<^verbatim>\<open>range\<close> over the string visits: an invalid byte becomes the
  replacement character.\<close>

function runes :: "gostring \<Rightarrow> rune list" where
  "runes [] = []"
| "runes (c # cs) =
     (let n = decodeRuneSize (c # cs) in
      (if n = 1 \<and> runeSelf \<le> byte c then runeError else take n (c # cs))
      # runes (drop n (c # cs)))"
  by pat_completeness auto
termination
proof (relation "measure length")
  fix c :: char and cs x
  assume "x = decodeRuneSize (c # cs)"
  then have "0 < x" by (simp only: decodeRuneSize_pos)
  then show "(drop x (c # cs), c # cs) \<in> measure length" by simp
qed simp

declare runes.simps(2) [simp del]

definition runeCount :: "gostring \<Rightarrow> nat" where
  "runeCount s = length (runes s)"

text \<open>The byte strings that encode exactly one rune.\<close>

definition isRune :: "rune \<Rightarrow> bool" where
  "isRune r \<longleftrightarrow> r \<noteq> [] \<and> decodeRuneSize r = length r
     \<and> (length r = 1 \<longrightarrow> byte (hd r) < runeSelf)"

lemma decodeRuneSize_append:
  assumes "1 < decodeRuneSize s"
  shows "decodeRuneSize (s @ t) = decodeRuneSize s"
proof (cases s)
  case Nil
  with assms show ?thesis by simp
next
  case (Cons c cs)
  with assms obtain n lo hi where a: "acceptRange (byte c) = Some (n, lo, hi)"
    and n: "n \<le> Suc (length cs)" "lo \<le> byte (cs ! 0)" "byte (cs ! 0) \<le> hi"
    and ct: "list_all isCont (take (n - 2) (drop 1 cs))"
    by (auto split: option.splits if_splits)
  have n2: "2 \<le> n" using acceptRange_size [OF a] by simp
  have ne: "0 < length cs" using n n2 by linarith
  then have nth: "(cs @ t) ! 0 = cs ! 0" by (simp add: nth_append)
  have "take (n - 2) (drop 1 (cs @ t)) = take (n - 2) (drop 1 cs)"
    using n n2 ne by (simp)
  with a n ct nth Cons show ?thesis by simp
qed

lemma decodeRuneSize_take:
  assumes "1 < decodeRuneSize s"
  shows "decodeRuneSize (take (decodeRuneSize s) s) = decodeRuneSize s"
proof (cases s)
  case Nil
  with assms show ?thesis by simp
next
  case (Cons c cs)
  with assms obtain n lo hi where a: "acceptRange (byte c) = Some (n, lo, hi)"
    and n: "n \<le> Suc (length cs)" "lo \<le> byte (cs ! 0)" "byte (cs ! 0) \<le> hi"
    and ct: "list_all isCont (take (n - 2) (drop 1 cs))"
    by (auto split: option.splits if_splits)
  have n2: "2 \<le> n" using acceptRange_size [OF a] by simp
  then obtain m where m: "n = Suc (Suc m)" by (metis add_2_eq_Suc le_Suc_ex)
  have d: "decodeRuneSize s = n" using a n ct Cons by simp
  obtain d' ds where cs: "cs = d' # ds" using n m by (cases cs) auto
  show ?thesis using a n ct by (simp add: d Cons m cs)
qed

lemma isRune_append:
  assumes "isRune r"
  shows "decodeRuneSize (r @ t) = length r"
proof (cases "length r = 1")
  case True
  with assms obtain c where r: "r = [c]" and c: "byte c < runeSelf"
    by (cases r) (auto simp: isRune_def)
  then have "acceptRange (byte c) = None" by (simp add: acceptRange_def runeSelf_def)
  then show ?thesis using r by simp
next
  case False
  with assms have "1 < decodeRuneSize r"
    by (cases r) (auto simp: isRune_def)
  then show ?thesis using assms decodeRuneSize_append by (simp add: isRune_def)
qed

lemma isRune_ascii [utf8_simps]: "byte c < runeSelf \<Longrightarrow> isRune [c]"
  by (auto simp: isRune_def acceptRange_def runeSelf_def)

lemma isRune_bytes:
  assumes "isRune r" and "\<nexists>c. r = [c]"
  shows "\<forall>c \<in> set r. runeSelf \<le> byte c"
proof -
  obtain c cs where r: "r = c # cs" using assms(1) by (cases r) (auto simp: isRune_def)
  then have "cs \<noteq> []" using assms(2) by auto
  have size: "decodeRuneSize (c # cs) = Suc (length cs)" using assms(1) r by (simp add: isRune_def)
  then obtain n lo hi where a: "acceptRange (byte c) = Some (n, lo, hi)"
    using \<open>cs \<noteq> []\<close> by (cases "acceptRange (byte c)") auto
  then have n: "n = Suc (length cs)" "lo \<le> byte (cs ! 0)" "list_all isCont (take (n - 2) (drop 1 cs))"
    using size \<open>cs \<noteq> []\<close> by (auto split: if_splits)
  have lo: "0x80 \<le> lo" "0xC2 \<le> byte c" using a by (auto simp: acceptRange_def split: if_splits)
  obtain d ds where cs: "cs = d # ds" using \<open>cs \<noteq> []\<close> by (cases cs) auto
  then have "list_all isCont ds" using n by simp
  then show ?thesis using lo n(2) cs r by (auto simp: runeSelf_def list_all_iff isCont_def)
qed

lemma isRune_runeError [simp, utf8_simps]: "isRune runeError"
  by (simp add: isRune_def runeError_def byte_def acceptRange_def isCont_def)

lemma isRune_take:
  assumes "s \<noteq> []" and "\<not> (decodeRuneSize s = 1 \<and> runeSelf \<le> byte (hd s))"
  shows "isRune (take (decodeRuneSize s) s)"
proof (cases "decodeRuneSize s = 1")
  case True
  with assms obtain c cs where "s = c # cs" "byte c < runeSelf"
    by (cases s) auto
  then show ?thesis using True isRune_ascii by simp
next
  case False
  with assms(1) have gt: "1 < decodeRuneSize s"
    by (metis decodeRuneSize_pos less_one linorder_neqE_nat neq_Nil_conv not_less_zero)
  then show ?thesis
    using assms(1) decodeRuneSize_take [OF gt] decodeRuneSize_le [of s]
    by (auto simp: isRune_def)
qed

lemma runes_isRune: "r \<in> set (runes s) \<Longrightarrow> isRune r"
proof (induction s rule: runes.induct)
  case 1
  then show ?case by simp
next
  case (2 c cs)
  let ?s = "c # cs"
  have step: "runes ?s =
     (if decodeRuneSize ?s = 1 \<and> runeSelf \<le> byte c then runeError
      else take (decodeRuneSize ?s) ?s) # runes (drop (decodeRuneSize ?s) ?s)"
    by (simp add: runes.simps(2) Let_def)
  from "2.prems" consider
      "r = runeError" | "\<not> (decodeRuneSize ?s = 1 \<and> runeSelf \<le> byte (hd ?s))"
        "r = take (decodeRuneSize ?s) ?s"
    | "r \<in> set (runes (drop (decodeRuneSize ?s) ?s))"
    unfolding step by (auto split: if_splits)
  then show ?case
  proof cases
    case 1
    then show ?thesis by simp
  next
    case 2
    then show ?thesis using isRune_take [of ?s] by blast
  next
    case 3
    then show ?thesis using "2.IH" by blast
  qed
qed

lemma runes_cons_rune:
  assumes "isRune r"
  shows "runes (r @ t) = r # runes t"
proof -
  obtain c cs where r: "r = c # cs" using assms by (cases r) (auto simp: isRune_def)
  have n: "decodeRuneSize (c # (cs @ t)) = length r"
    using isRune_append [OF assms, of t] r by simp
  have "\<not> (length r = 1 \<and> runeSelf \<le> byte c)"
    using assms r by (auto simp: isRune_def)
  then show ?thesis
    using n r by (auto simp: runes.simps(2) Let_def simp del: decodeRuneSize.simps)
qed

lemma runes_concat: "list_all isRune rs \<Longrightarrow> runes (concat rs) = rs"
  by (induction rs) (auto simp: runes_cons_rune)

lemma runes_sub [simp]: "set rs \<subseteq> set (runes s) \<Longrightarrow> runes (concat rs) = rs"
  by (rule runes_concat) (auto simp: list_all_iff dest: runes_isRune)

lemma runes_concat_runes [simp]: "runes (concat (runes s)) = runes s"
  by (rule runes_sub [of _ s]) simp

lemma decodeRuneSize_append_ascii:
  assumes "a \<noteq> []" and "byte c < runeSelf"
  shows "decodeRuneSize (a @ c # b) = decodeRuneSize a"
proof (cases "1 < decodeRuneSize a")
  case True
  then show ?thesis by (rule decodeRuneSize_append)
next
  case False
  obtain x xs where a: "a = x # xs" using assms(1) by (cases a) auto
  have one: "decodeRuneSize (x # xs) = 1"
    using False decodeRuneSize_pos [of x xs] unfolding a by linarith
  have "decodeRuneSize (x # xs @ c # b) = 1"
  proof (cases "acceptRange (byte x)")
    case (Some r)
    obtain n lo hi where r: "acceptRange (byte x) = Some (n, lo, hi)" using Some by (cases r) auto
    have n: "2 \<le> n" "0x80 \<le> lo" using r by (auto simp: acceptRange_def split: if_splits)
    have "\<not> (lo \<le> byte ((xs @ c # b) ! 0) \<and> byte ((xs @ c # b) ! 0) \<le> hi
        \<and> list_all isCont (take (n - 2) (drop 1 (xs @ c # b))))" (is "\<not> ?ok")
    proof
      assume ok: ?ok
      show False
      proof (cases "n \<le> Suc (length xs)")
        case True
        then have "lo \<le> byte (xs ! 0) \<and> byte (xs ! 0) \<le> hi \<and> list_all isCont (take (n - 2) (drop 1 xs))"
          using ok n by (cases xs) auto
        then show False using one r n True by simp
      next
        case False
        then have short: "length xs < n - 1" by simp
        show False
        proof (cases xs)
          case Nil
          then show False using ok n(2) assms(2) by (simp add: runeSelf_def)
        next
          case (Cons y ys)
          then have "c \<in> set (take (n - 2) (ys @ c # b))"
            using short by (auto simp: take_Cons' split: if_splits)
          then have "isCont c" using ok Cons by (simp add: list_all_iff del: take_append)
          then show False using assms(2) by (simp add: isCont_def runeSelf_def)
        qed
      qed
    qed
    then show ?thesis using r by auto
  qed simp
  then show ?thesis using one a by simp
qed

lemma runes_append_ascii: "byte c < runeSelf \<Longrightarrow> runes (a @ c # b) = runes a @ runes (c # b)"
proof (induction a rule: runes.induct)
  case (2 x xs)
  let ?n = "decodeRuneSize (x # xs)"
  have n: "decodeRuneSize (x # xs @ c # b) = ?n" "?n \<le> length (x # xs)"
    using decodeRuneSize_append_ascii [of "x # xs" c b] 2(2) decodeRuneSize_le [of "x # xs"]
    by (simp_all del: decodeRuneSize.simps)
  have "take ?n (x # xs @ c # b) = take ?n (x # xs)" "drop ?n (x # xs @ c # b) = drop ?n (x # xs) @ c # b"
    using n(2) by (metis append_Cons take_append diff_is_0_eq take_0 append_Nil2)
      (metis n(2) append_Cons drop_append diff_is_0_eq drop_0)
  then show ?case
    using 2(1) [OF refl 2(2)] n(1)
    by (subst append_Cons, subst (1 2) runes.simps(2))
      (simp add: Let_def del: decodeRuneSize.simps take_Suc_Cons drop_Suc_Cons)
qed simp

lemma ascii_in_runes:
  assumes "byte c < runeSelf" and "c \<in> set s"
  shows "[c] \<in> set (runes s)"
proof -
  obtain a b where "s = a @ c # b" using assms(2) by (auto simp: in_set_conv_decomp)
  moreover have "runes (c # b) = [c] # runes b"
    using runes_cons_rune [OF isRune_ascii [OF assms(1)], of b] by simp
  ultimately show ?thesis using runes_append_ascii [OF assms(1), of a b] by simp
qed

lemma runes_ascii: "list_all (\<lambda>c. byte c < runeSelf) s \<Longrightarrow> runes s = map (\<lambda>c. [c]) s"
proof (induction s)
  case Nil
  then show ?case by simp
next
  case (Cons c s)
  then have "runes ([c] @ s) = [c] # runes s"
    by (intro runes_cons_rune isRune_ascii) simp
  with Cons show ?case by simp
qed

section \<open>Slicing\<close>

text \<open>\<^verbatim>\<open>xs[i:j]\<close> on a list: \<^const>\<open>None\<close> is the run-time panic of bounds out of range.\<close>

definition slice :: "'a list \<Rightarrow> int \<Rightarrow> int \<Rightarrow> 'a list option" where
  "slice xs i j =
     (if 0 \<le> i \<and> i \<le> j \<and> j \<le> int (length xs)
      then Some (take (nat (j - i)) (drop (nat i) xs)) else None)"

lemma slice_Some: "0 \<le> i \<Longrightarrow> i \<le> j \<Longrightarrow> j \<le> int (length xs) \<Longrightarrow>
    slice xs i j = Some (take (nat (j - i)) (drop (nat i) xs))"
  by (simp add: slice_def)

lemma slice_length: "slice xs i j = Some ys \<Longrightarrow> int (length ys) = j - i"
  by (auto simp: slice_def split: if_splits)

lemma slice_append: "slice xs i j = Some ys \<Longrightarrow> xs = take (nat i) xs @ ys @ drop (nat j) xs"
proof -
  assume "slice xs i j = Some ys"
  then have ij: "0 \<le> i" "i \<le> j" and ys: "ys = take (nat (j - i)) (drop (nat i) xs)"
    by (auto simp: slice_def split: if_splits)
  have "nat j = nat (j - i) + nat i" using ij by simp
  then have "drop (nat j) xs = drop (nat (j - i)) (drop (nat i) xs)" by simp
  then show ?thesis unfolding ys by (simp only: append_take_drop_id)
qed

end
