(* ===== verification/Go_Strings.thy ===== *)
theory Go_Strings
  imports Go_Base
begin

text \<open>
  The functions of Go's \<open>strings\<close>, \<open>bytes\<close> and \<open>strconv\<close> packages that the modelled code
  calls, on byte strings: prefixes, \<^verbatim>\<open>Cut\<close>, \<^verbatim>\<open>Split\<close> and \<^verbatim>\<open>Join\<close> on a one-byte separator,
  \<^verbatim>\<open>Fields\<close> and \<^verbatim>\<open>TrimSpace\<close> over Unicode white space, decimal rendering of integers, and the
  rounding of \<^verbatim>\<open>time.Duration\<close>. The lemmas state the round trips the components rely on.
\<close>

section \<open>Prefixes, cutting, splitting and joining\<close>

definition hasPrefix :: "gostring \<Rightarrow> gostring \<Rightarrow> bool" where
  "hasPrefix s p \<longleftrightarrow> take (length p) s = p"

definition hasSuffix :: "gostring \<Rightarrow> gostring \<Rightarrow> bool" where
  "hasSuffix s p \<longleftrightarrow> hasPrefix (rev s) (rev p)"

definition trimPrefix :: "gostring \<Rightarrow> gostring \<Rightarrow> gostring" where
  "trimPrefix s p = (if hasPrefix s p then drop (length p) s else s)"

definition cutPrefix :: "gostring \<Rightarrow> gostring \<Rightarrow> gostring option" where
  "cutPrefix s p = (if hasPrefix s p then Some (drop (length p) s) else None)"

definition trimSuffix :: "gostring \<Rightarrow> gostring \<Rightarrow> gostring" where
  "trimSuffix s p = (if hasSuffix s p then take (length s - length p) s else s)"

definition cutSuffix :: "gostring \<Rightarrow> gostring \<Rightarrow> gostring option" where
  "cutSuffix s p = (if hasSuffix s p then Some (take (length s - length p) s) else None)"

text \<open>\<^verbatim>\<open>strings.IndexByte\<close>, with \<^const>\<open>None\<close> for -1.\<close>

fun indexByte :: "gostring \<Rightarrow> char \<Rightarrow> nat option" where
  "indexByte [] c = None"
| "indexByte (x # xs) c = (if x = c then Some 0 else map_option Suc (indexByte xs c))"

text \<open>\<^verbatim>\<open>strings.Cut\<close> for a one-byte separator: before, after, found.\<close>

definition cut :: "gostring \<Rightarrow> char \<Rightarrow> gostring \<times> gostring \<times> bool" where
  "cut s c = (takeWhile (\<lambda>x. x \<noteq> c) s, drop 1 (dropWhile (\<lambda>x. x \<noteq> c) s), c \<in> set s)"

text \<open>\<^verbatim>\<open>strings.Split\<close> for a one-byte separator: always at least one field.\<close>

fun splitOn :: "char \<Rightarrow> gostring \<Rightarrow> gostring list" where
  "splitOn c [] = [[]]"
| "splitOn c (x # xs) =
     (if x = c then [] # splitOn c xs
      else (x # hd (splitOn c xs)) # tl (splitOn c xs))"

fun joinWith :: "gostring \<Rightarrow> gostring list \<Rightarrow> gostring" where
  "joinWith sep [] = []"
| "joinWith sep [s] = s"
| "joinWith sep (s # t # ts) = s @ sep @ joinWith sep (t # ts)"

text \<open>\<^verbatim>\<open>strings.TrimRight(s, c)\<close> and \<^verbatim>\<open>strings.TrimLeft(s, c)\<close> for a one-byte cutset.\<close>

definition trimRightByte :: "gostring \<Rightarrow> char \<Rightarrow> gostring" where
  "trimRightByte s c = rev (dropWhile (\<lambda>x. x = c) (rev s))"

definition trimLeftByte :: "gostring \<Rightarrow> char \<Rightarrow> gostring" where
  "trimLeftByte s c = dropWhile (\<lambda>x. x = c) s"

text \<open>\<^verbatim>\<open>strings.ReplaceAll\<close> of a one-byte pattern, and \<^verbatim>\<open>strings.Repeat\<close>.\<close>

definition replaceByte :: "gostring \<Rightarrow> char \<Rightarrow> gostring \<Rightarrow> gostring" where
  "replaceByte s c r = concat (map (\<lambda>x. if x = c then r else [x]) s)"

definition repeatByte :: "char \<Rightarrow> nat \<Rightarrow> gostring" where
  "repeatByte c n = replicate n c"

lemma splitOn_not_Nil [simp]: "splitOn c s \<noteq> []"
  by (cases s) auto

lemma splitOn_no_sep: "c \<notin> set s \<Longrightarrow> splitOn c s = [s]"
  by (induction s) auto

lemma splitOn_fields: "f \<in> set (splitOn c s) \<Longrightarrow> c \<notin> set f"
proof (induction s arbitrary: f)
  case Nil
  then show ?case by simp
next
  case (Cons x s)
  show ?case
  proof (cases "x = c")
    case True
    with Cons show ?thesis by auto
  next
    case False
    with Cons.prems consider "f = x # hd (splitOn c s)" | "f \<in> set (tl (splitOn c s))"
      by auto
    then show ?thesis
      by cases (use False Cons.IH in \<open>auto dest: list.set_sel(2) [rotated] intro: list.set_sel(1)\<close>)
  qed
qed

lemma splitOn_append_sep: "c \<notin> set a \<Longrightarrow> splitOn c (a @ c # s) = a # splitOn c s"
  by (induction a) auto

lemma joinWith_Cons: "ss \<noteq> [] \<Longrightarrow> joinWith sep (s # ss) = s @ sep @ joinWith sep ss"
  by (cases ss) auto

lemma join_splitOn: "joinWith [c] (splitOn c s) = s"
proof (induction s)
  case Nil
  then show ?case by simp
next
  case (Cons x s)
  obtain h t where ht: "splitOn c s = h # t"
    by (cases "splitOn c s") auto
  show ?case
    using Cons ht by (cases t) (auto simp: joinWith_Cons)
qed

lemma splitOn_join:
  "ss \<noteq> [] \<Longrightarrow> (\<And>s. s \<in> set ss \<Longrightarrow> c \<notin> set s) \<Longrightarrow> splitOn c (joinWith [c] ss) = ss"
proof (induction ss rule: induct_list012)
  case (3 s t ts)
  then show ?case by (simp add: splitOn_append_sep)
qed (auto simp: splitOn_no_sep)

lemma cut_none: "c \<notin> set s \<Longrightarrow> cut s c = (s, [], False)"
proof -
  assume c: "c \<notin> set s"
  have "takeWhile (\<lambda>x. x \<noteq> c) s = s" unfolding takeWhile_eq_all_conv using c by auto
  moreover have "dropWhile (\<lambda>x. x \<noteq> c) s = []" unfolding dropWhile_eq_Nil_conv using c by auto
  ultimately show ?thesis using c unfolding cut_def by (metis drop_Nil)
qed

lemma cut_at: "c \<notin> set a \<Longrightarrow> cut (a @ c # b) c = (a, b, True)"
proof -
  assume "c \<notin> set a"
  then have "takeWhile (\<lambda>x. x \<noteq> c) (a @ c # b) = a" "dropWhile (\<lambda>x. x \<noteq> c) (a @ c # b) = c # b"
    by (auto simp: takeWhile_append dropWhile_append)
  then show ?thesis by (simp add: cut_def)
qed

lemma hasPrefix_append [simp]: "hasPrefix (p @ s) p"
  by (simp add: hasPrefix_def)

lemma hasPrefix_iff: "hasPrefix s p \<longleftrightarrow> (\<exists>t. s = p @ t)"
  by (metis append_eq_conv_conj append_take_drop_id hasPrefix_def)

lemma hasPrefix_Nil [simp]: "hasPrefix s []"
  by (simp add: hasPrefix_def)

lemma hasSuffix_iff: "hasSuffix s p \<longleftrightarrow> (\<exists>t. s = t @ p)"
  by (metis hasPrefix_iff hasSuffix_def rev_append rev_rev_ident)

lemma trimSuffix_append [simp]: "trimSuffix (s @ p) p = s"
  by (simp add: trimSuffix_def hasSuffix_iff)

lemma cutSuffix_Some: "cutSuffix s p = Some a \<longleftrightarrow> s = a @ p"
  by (auto simp: cutSuffix_def hasSuffix_iff)

lemma trimPrefix_append [simp]: "trimPrefix (p @ s) p = s"
  by (simp add: trimPrefix_def)

lemma indexByte_None: "indexByte s c = None \<longleftrightarrow> c \<notin> set s"
  by (induction s) auto

lemma indexByte_Some: "indexByte s c = Some i \<Longrightarrow> i < length s \<and> s ! i = c \<and> c \<notin> set (take i s)"
proof (induction s arbitrary: i)
  case Nil
  then show ?case by simp
next
  case (Cons x s)
  then show ?case by (cases i) (auto split: if_splits)
qed

section \<open>White space\<close>

text \<open>\<^verbatim>\<open>unicode.IsSpace\<close>, by the UTF-8 encodings of its code points.\<close>

definition isSpaceRune :: "rune \<Rightarrow> bool" where
  "isSpaceRune r \<longleftrightarrow> r \<in>
     {[CHR 0x09], [CHR 0x0A], [CHR 0x0B], [CHR 0x0C], [CHR 0x0D], [CHR 0x20],
      [CHR 0xC2, CHR 0x85], [CHR 0xC2, CHR 0xA0], [CHR 0xE1, CHR 0x9A, CHR 0x80],
      [CHR 0xE2, CHR 0x80, CHR 0xA8], [CHR 0xE2, CHR 0x80, CHR 0xA9],
      [CHR 0xE2, CHR 0x80, CHR 0xAF], [CHR 0xE2, CHR 0x81, CHR 0x9F],
      [CHR 0xE3, CHR 0x80, CHR 0x80]}
     \<or> (length r = 3 \<and> r ! 0 = CHR 0xE2 \<and> r ! 1 = CHR 0x80 \<and> byte (r ! 2) \<le> 0x8A)"

text \<open>\<^verbatim>\<open>strings.Fields\<close>: the maximal runs of non-space runes.\<close>

fun fieldsGo :: "rune list \<Rightarrow> rune list \<Rightarrow> rune list list" where
  "fieldsGo cur [] = (if cur = [] then [] else [cur])"
| "fieldsGo cur (r # rs) =
     (if isSpaceRune r
      then (if cur = [] then fieldsGo [] rs else cur # fieldsGo [] rs)
      else fieldsGo (cur @ [r]) rs)"

definition fields :: "gostring \<Rightarrow> gostring list" where
  "fields s = map concat (fieldsGo [] (runes s))"

definition trimSpace :: "gostring \<Rightarrow> gostring" where
  "trimSpace s = concat (rev (dropWhile isSpaceRune (rev (dropWhile isSpaceRune (runes s)))))"

abbreviation noSpace :: "rune list \<Rightarrow> bool" where
  "noSpace \<equiv> list_all (\<lambda>r. \<not> isSpaceRune r)"

lemma fieldsGo_sound: "noSpace cur \<Longrightarrow> list_all (\<lambda>f. f \<noteq> [] \<and> noSpace f) (fieldsGo cur rs)"
  by (induction cur rs rule: fieldsGo.induct) simp_all

lemma fieldsGo_concat:
  "noSpace cur \<Longrightarrow> concat (fieldsGo cur rs) = cur @ filter (\<lambda>r. \<not> isSpaceRune r) rs"
  by (induction cur rs rule: fieldsGo.induct) simp_all

section \<open>Integers\<close>

text \<open>\<^verbatim>\<open>strconv.Itoa\<close> and \<^verbatim>\<open>%d\<close>.\<close>

definition digitChar :: "nat \<Rightarrow> char" where
  "digitChar d = char_of (48 + d)"

fun natDigits :: "nat \<Rightarrow> gostring" where
  "natDigits n = (if n < 10 then [digitChar n] else natDigits (n div 10) @ [digitChar (n mod 10)])"

declare natDigits.simps [simp del]

definition itoa :: "int \<Rightarrow> gostring" where
  "itoa i = (if i < 0 then CHR ''-'' # natDigits (nat (- i)) else natDigits (nat i))"

definition digitVal :: "char \<Rightarrow> nat" where
  "digitVal c = byte c - 48"

definition digitsVal :: "gostring \<Rightarrow> nat" where
  "digitsVal s = foldl (\<lambda>a c. a * 10 + digitVal c) 0 s"

lemma digitVal_digitChar: "d < 10 \<Longrightarrow> digitVal (digitChar d) = d"
  by (simp add: digitVal_def digitChar_def byte_def of_char_of)

lemma digitsVal_natDigits [simp]: "digitsVal (natDigits n) = n"
proof (induction n rule: natDigits.induct)
  case (1 n)
  show ?case
  proof (cases "n < 10")
    case True
    then show ?thesis
      by (simp add: natDigits.simps [of n] digitsVal_def digitVal_digitChar)
  next
    case False
    then have "digitsVal (natDigits n) = digitsVal (natDigits (n div 10)) * 10 + n mod 10"
      by (simp add: natDigits.simps [of n] digitsVal_def digitVal_digitChar)
    with 1 False show ?thesis by simp
  qed
qed

lemma natDigits_inject [simp]: "natDigits m = natDigits n \<longleftrightarrow> m = n"
  by (metis digitsVal_natDigits)

lemma natDigits_not_Nil [simp]: "natDigits n \<noteq> []"
  by (subst natDigits.simps) simp

lemma natDigits_chars: "c \<in> set (natDigits n) \<Longrightarrow> 48 \<le> byte c \<and> byte c \<le> 57"
proof (induction n rule: natDigits.induct)
  case (1 n)
  have d: "d < 10 \<Longrightarrow> 48 \<le> byte (digitChar d) \<and> byte (digitChar d) \<le> 57" for d
    by (simp add: digitChar_def byte_def of_char_of)
  show ?case
    using 1 d by (cases "n < 10") (auto simp: natDigits.simps [of n])
qed

text \<open>Go's integer division truncates towards zero.\<close>

definition goQuot :: "int \<Rightarrow> int \<Rightarrow> int" where
  "goQuot a b = (if (a < 0) = (b < 0) then \<bar>a\<bar> div \<bar>b\<bar> else - (\<bar>a\<bar> div \<bar>b\<bar>))"

section \<open>Durations\<close>

text \<open>A \<^verbatim>\<open>time.Duration\<close> counts nanoseconds; \<^verbatim>\<open>Round\<close> rounds half away from zero.\<close>

type_synonym duration = int

definition millisecond :: duration where
  "millisecond = 1000000"

definition second :: duration where
  "second = 1000 * millisecond"

definition minute :: duration where
  "minute = 60 * second"

definition hour :: duration where
  "hour = 60 * minute"

lemmas duration_units = millisecond_def second_def minute_def hour_def

definition roundNat :: "int \<Rightarrow> int \<Rightarrow> int" where
  "roundNat d m = (let r = d mod m in if r + r < m then d - r else d + (m - r))"

definition roundDuration :: "duration \<Rightarrow> duration \<Rightarrow> duration" where
  "roundDuration d m = (if m \<le> 0 then d else if d < 0 then - roundNat (- d) m else roundNat d m)"

text \<open>\<^verbatim>\<open>Duration.String\<close> for a whole number of seconds of at least one minute.\<close>

definition durationString :: "duration \<Rightarrow> gostring" where
  "durationString d =
     (let s = d div second; h = s div 3600; m = s div 60
      in if h > 0 then itoa h @ ''h'' @ itoa (m mod 60) @ ''m'' @ itoa (s mod 60) @ ''s''
         else itoa m @ ''m'' @ itoa (s mod 60) @ ''s'')"

lemma roundNat_dvd: "m dvd roundNat d m"
proof -
  have "m dvd d - d mod m" by (simp add: minus_mod_eq_mult_div)
  moreover from this have "m dvd d + (m - d mod m)"
    by (metis add_diff_eq add.commute dvd_add dvd_refl)
  ultimately show ?thesis by (simp add: roundNat_def Let_def dvd_add)
qed

lemma roundNat_near:
  assumes "0 < m"
  shows "2 * \<bar>roundNat d m - d\<bar> \<le> m"
  using pos_mod_bound [OF assms, of d] pos_mod_sign [OF assms, of d]
  by (auto simp: roundNat_def Let_def)

end
