(* ===== verification/Watch_Keycode.thy ===== *)
theory Watch_Keycode
  imports Go_Strings
begin

text \<open>
  \<^verbatim>\<open>src/internal/watch/keycode.go\<close>: decoding raw terminal input into keypresses. A key code is
  an ordinary byte value or a synthetic code at or above \<^verbatim>\<open>0x100\<close>; the decoder returns the keys of
  the complete sequences in a buffer together with the bytes of a sequence that is still
  incomplete, and the reader goroutine prepends those to the next read. The theory shows that
  the keys do not depend on how the input is split into reads, that every key's own encoding is
  read back, and that an invalid byte stops the reader for good.
\<close>

section \<open>Key codes\<close>

type_synonym keyCode = int

definition keyUp :: keyCode where "keyUp = 0x100"
definition keyDown :: keyCode where "keyDown = 0x101"
definition keyRight :: keyCode where "keyRight = 0x102"
definition keyLeft :: keyCode where "keyLeft = 0x103"
definition keyPageUp :: keyCode where "keyPageUp = 0x104"
definition keyPageDown :: keyCode where "keyPageDown = 0x105"
definition keyHome :: keyCode where "keyHome = 0x106"
definition keyEnd :: keyCode where "keyEnd = 0x107"
definition keyEscape :: keyCode where "keyEscape = 0x108"
definition keyUnknown :: keyCode where "keyUnknown = 0x109"

lemmas key_defs = keyUp_def keyDown_def keyRight_def keyLeft_def keyPageUp_def keyPageDown_def
  keyHome_def keyEnd_def keyEscape_def keyUnknown_def

definition ESC :: char where
  "ESC = CHR 0x1B"

definition csiKeys :: "char \<Rightarrow> keyCode option" where
  "csiKeys c =
     (if c = CHR ''A'' then Some keyUp
      else if c = CHR ''B'' then Some keyDown
      else if c = CHR ''C'' then Some keyRight
      else if c = CHR ''D'' then Some keyLeft
      else if c = CHR ''H'' then Some keyHome
      else if c = CHR ''F'' then Some keyEnd
      else None)"

definition tildeKeys :: "64 word \<Rightarrow> keyCode option" where
  "tildeKeys n =
     (if n = 1 then Some keyHome
      else if n = 4 then Some keyEnd
      else if n = 5 then Some keyPageUp
      else if n = 6 then Some keyPageDown
      else if n = 7 then Some keyHome
      else if n = 8 then Some keyEnd
      else None)"

section \<open>The decoder\<close>

text \<open>
  The loop of \<^verbatim>\<open>decodeCSI\<close> from index \<open>i\<close> on. The numeric parameter is a Go \<^verbatim>\<open>int\<close>, so it is a
  64-bit word and wraps. \<^const>\<open>None\<close> is the result \<^verbatim>\<open>0, 0, false\<close>: the sequence is still being read.
\<close>

fun csiLoop :: "64 word \<Rightarrow> bool \<Rightarrow> bool \<Rightarrow> nat \<Rightarrow> gostring \<Rightarrow> (keyCode \<times> nat) option" where
  "csiLoop param haveParam sawSemi i [] = None"
| "csiLoop param haveParam sawSemi i (c # cs) =
     (if 48 \<le> byte c \<and> byte c \<le> 57 then
        (if \<not> sawSemi
         then csiLoop (param * 10 + of_nat (byte c - 48)) True sawSemi (Suc i) cs
         else csiLoop param haveParam sawSemi (Suc i) cs)
      else if c = CHR '';'' then csiLoop param haveParam True (Suc i) cs
      else if c = CHR 0x7E then
        (case tildeKeys param of
           Some k \<Rightarrow> Some (if haveParam then k else keyUnknown, Suc i)
         | None \<Rightarrow> Some (keyUnknown, Suc i))
      else if 64 \<le> byte c \<and> byte c \<le> 126 then
        (case csiKeys c of
           Some k \<Rightarrow> Some (k, Suc i)
         | None \<Rightarrow> Some (keyUnknown, Suc i))
      else csiLoop param haveParam sawSemi (Suc i) cs)"

definition decodeCSI :: "gostring \<Rightarrow> (keyCode \<times> nat) option" where
  "decodeCSI buf = csiLoop 0 False False 2 (drop 2 buf)"

text \<open>\<^verbatim>\<open>decodeEscape\<close> is called on a buffer that starts with ESC, so it is never empty.\<close>

fun decodeEscape :: "gostring \<Rightarrow> (keyCode \<times> nat) option" where
  "decodeEscape (e # b # cs) =
     (if b = CHR ''['' then decodeCSI (e # b # cs)
      else if b = CHR ''O'' then
        (case cs of
           [] \<Rightarrow> None
         | c # _ \<Rightarrow> (case csiKeys c of Some k \<Rightarrow> Some (k, 3) | None \<Rightarrow> Some (keyUnknown, 3)))
      else Some (keyEscape, 1))"
| "decodeEscape _ = None"

lemma csiLoop_pos: "csiLoop p h s i cs = Some (k, n) \<Longrightarrow> i < n \<and> n \<le> i + length cs"
  by (induction p h s i cs arbitrary: k n rule: csiLoop.induct)
    (fastforce split: if_splits option.splits)+

lemma decodeEscape_pos: "decodeEscape buf = Some (k, n) \<Longrightarrow> 0 < n \<and> n \<le> length buf"
  by (cases buf rule: decodeEscape.cases)
    (auto simp: decodeCSI_def dest: csiLoop_pos split: if_splits list.splits option.splits)

function decodeKeys :: "gostring \<Rightarrow> keyCode list \<times> gostring" where
  "decodeKeys [] = ([], [])"
| "decodeKeys (b # bs) =
     (if b \<noteq> ESC then
        (if byte b < runeSelf then
           (let (keys, rest) = decodeKeys bs in (int (byte b) # keys, rest))
         else
           (let size = decodeRuneSize (b # bs) in
            if size = 1 then ([], b # bs)
            else (let (keys, rest) = decodeKeys (drop size (b # bs))
                  in (keyUnknown # keys, rest))))
      else
        (case decodeEscape (b # bs) of
           None \<Rightarrow> ([], b # bs)
         | Some (key, n) \<Rightarrow>
             (let (keys, rest) = decodeKeys (drop n (b # bs)) in (key # keys, rest))))"
  by pat_completeness auto
termination
proof (relation "measure length")
  fix b :: char and bs x
  assume "x = decodeRuneSize (b # bs)"
  then have "0 < x" by (simp only: decodeRuneSize_pos)
  then show "(drop x (b # bs), b # bs) \<in> measure length" by simp
next
  fix b :: char and bs p key n
  assume "decodeEscape (b # bs) = Some p" "(key, n) = p"
  then have "0 < n" using decodeEscape_pos by blast
  then show "(drop n (b # bs), b # bs) \<in> measure length" by simp
qed simp_all

declare decodeKeys.simps(2) [simp del]

text \<open>
  The goroutine of \<^verbatim>\<open>readKeys\<close>: the list holds what the successive calls of \<^verbatim>\<open>src.Read\<close> return,
  and its end is the read that fails. The result is the sequence of keys sent on the channel.
\<close>

fun readLoop :: "gostring \<Rightarrow> gostring list \<Rightarrow> keyCode list" where
  "readLoop held [] = (if held = [ESC] then [keyEscape] else [])"
| "readLoop held (buf # reads) =
     (if buf = [] then readLoop held reads
      else (let (keys, rest) = decodeKeys (held @ buf) in keys @ readLoop rest reads))"

definition readKeys :: "gostring list \<Rightarrow> keyCode list" where
  "readKeys reads = readLoop [] reads"

section \<open>What an incremental decoder promises\<close>

text \<open>
  A decoder that returns decoded items and the undecoded rest is incremental when more input
  only extends what it returned, and when the rest alone decodes to nothing. A reader that
  prepends the rest to the next chunk then produces the same items for every chunking.
\<close>

locale incremental_decoder =
  fixes dec :: "'b list \<Rightarrow> 'k list \<times> 'b list"
  assumes dec_extend: "dec s = (ks, r) \<Longrightarrow>
      dec (s @ t) = (ks @ fst (dec (r @ t)), snd (dec (r @ t)))"
    and dec_rest: "dec s = (ks, r) \<Longrightarrow> dec r = ([], r)"
    and dec_Nil: "dec [] = ([], [])"
begin

fun feed :: "'b list \<Rightarrow> 'b list list \<Rightarrow> 'k list \<times> 'b list" where
  "feed held [] = ([], held)"
| "feed held (c # cs) =
     (let (ks, r) = dec (held @ c); (ks', r') = feed r cs in (ks @ ks', r'))"

lemma feed_concat: "dec held = ([], held) \<Longrightarrow> feed held cs = dec (held @ concat cs)"
proof (induction cs arbitrary: held)
  case Nil
  then show ?case by simp
next
  case (Cons c cs)
  obtain ks r where kr: "dec (held @ c) = (ks, r)" by (cases "dec (held @ c)")
  have "feed r cs = dec (r @ concat cs)" using Cons.IH dec_rest [OF kr] by blast
  moreover have "dec ((held @ c) @ concat cs) =
      (ks @ fst (dec (r @ concat cs)), snd (dec (r @ concat cs)))"
    using dec_extend [OF kr] .
  ultimately show ?case using kr by (simp add: split_beta Let_def)
qed

lemma feed_chunks: "feed [] cs = dec (concat cs)"
  using feed_concat [OF dec_Nil] by simp

end

section \<open>The decoder is incremental\<close>

lemma csiLoop_append:
  "csiLoop p h s i cs = Some (k, n) \<Longrightarrow> csiLoop p h s i (cs @ t) = Some (k, n)"
  by (induction p h s i cs arbitrary: k n rule: csiLoop.induct)
    (fastforce split: if_splits option.splits)+

lemma decodeEscape_append:
  "decodeEscape buf = Some (k, n) \<Longrightarrow> decodeEscape (buf @ t) = Some (k, n)"
  by (cases buf rule: decodeEscape.cases)
    (auto simp: decodeCSI_def dest: csiLoop_append split: if_splits list.splits)

text \<open>
  One iteration of the loop either finds the front of the buffer incomplete and returns it, or
  consumes a key from it, and then consumes the same key whatever follows the buffer.
\<close>

lemma decodeKeys_step:
  assumes "s \<noteq> []"
  obtains (stuck) "decodeKeys s = ([], s)"
  | (key) k n where "0 < n" "n \<le> length s"
      "\<And>t. decodeKeys (s @ t) =
         (k # fst (decodeKeys (drop n s @ t)), snd (decodeKeys (drop n s @ t)))"
proof -
  obtain b bs where s: "s = b # bs" using assms by (cases s) auto
  consider (ascii) "b \<noteq> ESC" "byte b < runeSelf"
    | (short) "b \<noteq> ESC" "\<not> byte b < runeSelf" "decodeRuneSize s = 1"
    | (rune) "b \<noteq> ESC" "\<not> byte b < runeSelf" "decodeRuneSize s \<noteq> 1"
    | (partial) "b = ESC" "decodeEscape s = None"
    | (seq) k n where "b = ESC" "decodeEscape s = Some (k, n)"
    by (cases "decodeEscape s") auto
  then show thesis
  proof cases
    case ascii
    then have "decodeKeys (s @ t) =
        (int (byte b) # fst (decodeKeys (drop 1 s @ t)), snd (decodeKeys (drop 1 s @ t)))" for t
      by (simp add: s decodeKeys.simps(2) split_beta)
    then show ?thesis using key [of 1] s by simp
  next
    case short
    then show ?thesis using stuck s by (simp add: decodeKeys.simps(2) del: decodeRuneSize.simps)
  next
    case rune
    let ?n = "decodeRuneSize s"
    have "0 < ?n" unfolding s by (rule decodeRuneSize_pos)
    with rune have gt: "1 < ?n" by linarith
    have le: "?n \<le> length s" by (rule decodeRuneSize_le)
    have "decodeKeys (s @ t) =
        (keyUnknown # fst (decodeKeys (drop ?n s @ t)), snd (decodeKeys (drop ?n s @ t)))" for t
    proof -
      have "decodeRuneSize (b # (bs @ t)) = ?n"
        using decodeRuneSize_append [OF gt, of t] s by simp
      moreover have "drop ?n (b # (bs @ t)) = drop ?n s @ t"
        using le s by (metis append_Cons drop_append drop_0 diff_is_0_eq')
      ultimately show ?thesis
        using rune gt s
        by (simp add: decodeKeys.simps(2) Let_def split_beta del: decodeRuneSize.simps drop_append)
    qed
    then show ?thesis using key [of ?n] gt le by simp
  next
    case partial
    then show ?thesis using stuck s by (simp add: decodeKeys.simps(2) del: decodeEscape.simps)
  next
    case (seq k n)
    have n: "0 < n" "n \<le> length s" using decodeEscape_pos [OF seq(2)] by auto
    have "decodeKeys (s @ t) =
        (k # fst (decodeKeys (drop n s @ t)), snd (decodeKeys (drop n s @ t)))" for t
    proof -
      have "decodeEscape (b # (bs @ t)) = Some (k, n)"
        using decodeEscape_append [OF seq(2), of t] s by simp
      moreover have "drop n (b # (bs @ t)) = drop n s @ t"
        using n s by (metis append_Cons drop_append drop_0 diff_is_0_eq')
      ultimately show ?thesis
        using seq s
        by (simp add: decodeKeys.simps(2) Let_def split_beta del: decodeEscape.simps drop_append)
    qed
    then show ?thesis using key n by blast
  qed
qed

lemma decodeKeys_incremental:
  "decodeKeys (s @ t) =
     (fst (decodeKeys s) @ fst (decodeKeys (snd (decodeKeys s) @ t)),
      snd (decodeKeys (snd (decodeKeys s) @ t)))
   \<and> decodeKeys (snd (decodeKeys s)) = ([], snd (decodeKeys s))"
proof (induction s rule: length_induct)
  case (1 s)
  show ?case
  proof (cases "s = []")
    case True
    then show ?thesis by simp
  next
    case False
    then show ?thesis
    proof (cases rule: decodeKeys_step)
      case stuck
      then show ?thesis by simp
    next
      case (key k n)
      have "length (drop n s) < length s" using key False by simp
      with 1 have IH: "decodeKeys (drop n s @ t) =
           (fst (decodeKeys (drop n s)) @ fst (decodeKeys (snd (decodeKeys (drop n s)) @ t)),
            snd (decodeKeys (snd (decodeKeys (drop n s)) @ t)))"
        "decodeKeys (snd (decodeKeys (drop n s))) = ([], snd (decodeKeys (drop n s)))"
        by blast+
      have "decodeKeys s = (k # fst (decodeKeys (drop n s)), snd (decodeKeys (drop n s)))"
        using key(3) [of "[]"] by simp
      then show ?thesis using key(3) [of t] IH by simp
    qed
  qed
qed

lemma decodeKeys_extend:
  "decodeKeys s = (ks, r) \<Longrightarrow>
     decodeKeys (s @ t) = (ks @ fst (decodeKeys (r @ t)), snd (decodeKeys (r @ t)))"
  using decodeKeys_incremental [of s t] by simp

lemma decodeKeys_rest: "decodeKeys s = (ks, r) \<Longrightarrow> decodeKeys r = ([], r)"
  using decodeKeys_incremental [of s "[]"] by simp

interpretation keys: incremental_decoder decodeKeys
  by unfold_locales (rule decodeKeys_extend, assumption, rule decodeKeys_rest, assumption, simp)

lemma readLoop_feed:
  "decodeKeys held = ([], held) \<Longrightarrow>
     readLoop held reads =
       fst (keys.feed held reads) @ (if snd (keys.feed held reads) = [ESC] then [keyEscape] else [])"
proof (induction reads arbitrary: held)
  case Nil
  then show ?case by simp
next
  case (Cons buf reads)
  obtain ks r where kr: "decodeKeys (held @ buf) = (ks, r)" by (cases "decodeKeys (held @ buf)")
  have IH: "readLoop r reads =
      fst (keys.feed r reads) @ (if snd (keys.feed r reads) = [ESC] then [keyEscape] else [])"
    using Cons.IH decodeKeys_rest [OF kr] by blast
  show ?case
    using Cons kr IH by (cases "buf = []") (simp_all add: split_beta Let_def)
qed

lemma readKeys_decode:
  "readKeys reads =
     fst (decodeKeys (concat reads))
     @ (if snd (decodeKeys (concat reads)) = [ESC] then [keyEscape] else [])"
  unfolding readKeys_def by (subst readLoop_feed) (simp_all add: keys.feed_chunks)

text \<open>
  C24. The keypresses the reader delivers depend only on the bytes the terminal sent and not on
  how the kernel splits them into reads: any two chunkings of the same input produce the same
  keys, so an escape sequence cut in half never turns into the keys its bytes spell.
\<close>

theorem readKeys_chunking_irrelevant:
  assumes "concat reads = concat reads'"
  shows "readKeys reads = readKeys reads'"
  using assms by (simp add: readKeys_decode)

theorem readKeys_chunking_irrelevant_witness:
  "readKeys [[ESC], ''['', ''6;2'', [CHR 0x7E, CHR ''q'']]
     = readKeys [[ESC, CHR ''['', CHR ''6'', CHR '';'', CHR ''2'', CHR 0x7E, CHR ''q'']]"
  using readKeys_chunking_irrelevant
    [of "[[ESC], ''['', ''6;2'', [CHR 0x7E, CHR ''q'']]"
        "[[ESC, CHR ''['', CHR ''6'', CHR '';'', CHR ''2'', CHR 0x7E, CHR ''q'']]"]
  by simp

section \<open>Every key is read back\<close>

text \<open>What an xterm-family terminal sends for a key: the byte itself, or the CSI sequence.\<close>

definition sequenceOf :: "keyCode \<Rightarrow> gostring option" where
  "sequenceOf k =
     (if k = keyUp then Some ''A'' else if k = keyDown then Some ''B''
      else if k = keyRight then Some ''C'' else if k = keyLeft then Some ''D''
      else if k = keyHome then Some ''H'' else if k = keyEnd then Some ''F''
      else if k = keyPageUp then Some [CHR ''5'', CHR 0x7E]
      else if k = keyPageDown then Some [CHR ''6'', CHR 0x7E]
      else None)"

definition encodeKey :: "keyCode \<Rightarrow> gostring" where
  "encodeKey k =
     (case sequenceOf k of Some q \<Rightarrow> ESC # CHR ''['' # q | None \<Rightarrow> [char_of (nat k)])"

definition sendable :: "keyCode \<Rightarrow> bool" where
  "sendable k \<longleftrightarrow> sequenceOf k \<noteq> None \<or> 0 \<le> k \<and> k < 128 \<and> k \<noteq> 27"

lemma decodeKeys_ascii:
  "b \<noteq> ESC \<Longrightarrow> byte b < runeSelf \<Longrightarrow>
     decodeKeys (b # t) = (int (byte b) # fst (decodeKeys t), snd (decodeKeys t))"
  by (simp add: decodeKeys.simps(2) split_beta)

lemma decodeKeys_csi:
  "csiLoop 0 False False 2 (q @ t) = Some (k, 2 + length q) \<Longrightarrow>
     decodeKeys (ESC # CHR ''['' # q @ t) = (k # fst (decodeKeys t), snd (decodeKeys t))"
  by (simp add: decodeKeys.simps(2) [of ESC] decodeCSI_def split_beta)

lemma csiLoop_sequenceOf:
  "sequenceOf k = Some q \<Longrightarrow> csiLoop 0 False False 2 (q @ t) = Some (k, 2 + length q)"
  by (auto simp: sequenceOf_def byte_def csiKeys_def tildeKeys_def split: if_splits)

lemma decodeKeys_encodeKey:
  assumes "sendable k"
  shows "decodeKeys (encodeKey k @ t) = (k # fst (decodeKeys t), snd (decodeKeys t))"
proof (cases "sequenceOf k")
  case None
  with assms have k: "0 \<le> k" "k < 128" "k \<noteq> 27" by (auto simp: sendable_def)
  have b: "byte (char_of (nat k)) = nat k"
    using k by (simp add: byte_def of_char_of)
  have "char_of (nat k) \<noteq> ESC"
  proof
    assume "char_of (nat k) = ESC"
    then have "byte (char_of (nat k)) = byte ESC" by simp
    with b k show False by (simp add: ESC_def byte_def)
  qed
  then show ?thesis
    using None k b decodeKeys_ascii [of "char_of (nat k)" t] by (simp add: encodeKey_def runeSelf_def)
next
  case (Some q)
  then show ?thesis
    using decodeKeys_csi [OF csiLoop_sequenceOf [OF Some, of t]] by (simp add: encodeKey_def)
qed

lemma decodeKeys_encoded:
  "list_all sendable ks \<Longrightarrow> decodeKeys (concat (map encodeKey ks)) = (ks, [])"
  by (induction ks) (simp_all add: decodeKeys_encodeKey)

text \<open>
  The decoder is a left inverse of what the terminal sends: a sequence of ordinary keys,
  arrows, Home, End, PgUp and PgDn is delivered key for key, with nothing held back, however
  the reads split it.
\<close>

lemma readKeys_encodeKey_roundtrip:
  assumes "list_all sendable ks" and "concat reads = concat (map encodeKey ks)"
  shows "readKeys reads = ks"
  using assms by (simp add: readKeys_decode decodeKeys_encoded)

lemma readKeys_encodeKey_roundtrip_witness:
  "readKeys [[ESC], ''['', [CHR ''5'', CHR 0x7E, CHR ''q'']] = [keyPageUp, 113]"
  by (rule readKeys_encodeKey_roundtrip)
    (simp_all add: sendable_def encodeKey_def sequenceOf_def key_defs char_of_def bit_0)

section \<open>An invalid byte stops the reader\<close>

lemma decodeKeys_invalid:
  "runeSelf \<le> byte b \<Longrightarrow> acceptRange (byte b) = None \<Longrightarrow> decodeKeys (b # s) = ([], b # s)"
  by (auto simp: decodeKeys.simps(2) ESC_def byte_def runeSelf_def)

text \<open>
  A byte that no UTF-8 encoding can start with is taken for the beginning of an incomplete
  rune and held for the next read, in front of everything that is typed later. From then on the
  reader delivers no key at all, neither \<^verbatim>\<open>q\<close> nor Ctrl-C, until the terminal is closed: the keys
  before the byte are all the keys there are.
\<close>

lemma readKeys_invalid_byte_blocks_input:
  assumes "decodeKeys (concat before) = (ks, [])"
    and "runeSelf \<le> byte b" and "acceptRange (byte b) = None"
  shows "readKeys (before @ [b # s] @ later) = ks"
proof -
  have "decodeKeys (concat before @ b # s @ concat later) = (ks, b # s @ concat later)"
    using decodeKeys_extend [OF assms(1)] decodeKeys_invalid [OF assms(2,3)] by simp
  moreover have "b \<noteq> ESC" using assms(2) by (auto simp: ESC_def byte_def runeSelf_def)
  ultimately show ?thesis by (simp add: readKeys_decode)
qed

lemma readKeys_invalid_byte_blocks_input_witness:
  "readKeys ([''p''] @ [CHR 0xFF # ''q''] @ [[CHR 0x03], ''qqq'']) = [112]"
  by (rule readKeys_invalid_byte_blocks_input)
    (simp_all add: decodeKeys.simps(2) ESC_def byte_def runeSelf_def acceptRange_def)

end
