(* ===== verification/Go_Values.thy ===== *)
theory Go_Values
  imports Go_Strings "HOL-Library.Char_ord" "HOL-Library.List_Lexorder"
begin

text \<open>
  The values a command hands to the output layer as \<^verbatim>\<open>any\<close>, with the cases the type switches of
  \<^verbatim>\<open>src/internal/output/output.go\<close> tell apart, and Go's \<^verbatim>\<open>fmt\<close> verb \<^verbatim>\<open>%v\<close> on them. Byte strings are
  ordered lexicographically by byte, which is the order of \<^verbatim>\<open>sort.Strings\<close>.
\<close>

text \<open>
  \<^item> \<open>VFloat t\<close> is a floating-point number by the text \<^verbatim>\<open>%v\<close> prints for it;
  \<^item> \<open>VStringer None\<close> is a nil pointer whose type has a \<^verbatim>\<open>String\<close> method, \<open>VStringer (Some s)\<close>
    a value whose \<^verbatim>\<open>String\<close> returns \<open>s\<close>;
  \<^item> \<open>VStrMap\<close> lists the entries of a \<^verbatim>\<open>map[string]string\<close>;
  \<^item> \<open>VTime t s\<close> is a \<^verbatim>\<open>time.Time\<close>: \<open>t\<close> is its rendering in the layout \<^verbatim>\<open>timeLayout\<close>, \<^const>\<open>None\<close>
    for the zero time, and \<open>s\<close> what its \<^verbatim>\<open>String\<close> method returns; \<open>VTimePtr\<close> a pointer to one;
  \<^item> \<open>VNamed s\<close> is a value of a named string type;
  \<^item> \<open>VOther v j\<close> is any other value: \<open>v\<close> is what \<^verbatim>\<open>%v\<close> prints and \<open>j\<close> what \<^verbatim>\<open>json.Marshal\<close>
    returns, \<^const>\<open>None\<close> for an error.
\<close>

datatype anyval =
    VNil
  | VBool bool
  | VInt int
  | VFloat gostring
  | VStr gostring
  | VStrs "gostring list"
  | VStrMap "(gostring \<times> gostring) list"
  | VStringer "gostring option"
  | VTime "gostring option" gostring
  | VTimePtr "(gostring option \<times> gostring) option"
  | VNamed gostring
  | VOther gostring "gostring option"

definition boolText :: "bool \<Rightarrow> gostring" where
  "boolText b = (if b then ''true'' else ''false'')"

text \<open>The entries of a map in the order of its sorted keys.\<close>

definition sortedEntries :: "(gostring \<times> gostring) list \<Rightarrow> (gostring \<times> gostring) list" where
  "sortedEntries m = map (\<lambda>k. (k, the (map_of m k))) (sort (map fst m))"

fun fmtV :: "anyval \<Rightarrow> gostring" where
  "fmtV VNil = ''<nil>''"
| "fmtV (VBool b) = boolText b"
| "fmtV (VInt i) = itoa i"
| "fmtV (VFloat t) = t"
| "fmtV (VStr s) = s"
| "fmtV (VStrs ss) = ''['' @ joinWith '' '' ss @ '']''"
| "fmtV (VStrMap m) =
     ''map['' @ joinWith '' '' (map (\<lambda>(k, v). k @ '':'' @ v) (sortedEntries m)) @ '']''"
| "fmtV (VStringer None) = ''<nil>''"
| "fmtV (VStringer (Some s)) = s"
| "fmtV (VTime t s) = s"
| "fmtV (VTimePtr None) = ''<nil>''"
| "fmtV (VTimePtr (Some (t, s))) = s"
| "fmtV (VNamed s) = s"
| "fmtV (VOther v j) = v"

text \<open>
  \<^verbatim>\<open>strings.EqualFold\<close> against one of the ASCII words \<^verbatim>\<open>ID\<close>, \<^verbatim>\<open>UUID\<close>, \<^verbatim>\<open>Name\<close> and \<^verbatim>\<open>Field\<close>: none of
  their letters has a non-ASCII case variant, so folding the ASCII letters is exact.
\<close>

definition lowerByte :: "char \<Rightarrow> char" where
  "lowerByte c = (if 65 \<le> byte c \<and> byte c \<le> 90 then char_of (byte c + 32) else c)"

definition equalFoldAscii :: "gostring \<Rightarrow> gostring \<Rightarrow> bool" where
  "equalFoldAscii s w \<longleftrightarrow> map lowerByte s = map lowerByte w"

end
