(* ===== verification/Watch_Diff.thy ===== *)
theory Watch_Diff
  imports Go_Values "HOL-Library.Multiset"
begin

text \<open>
  \<^verbatim>\<open>src/internal/watch/diff.go\<close>: the \<^verbatim>\<open>Differ\<close>, which compares the tables of one frame with those of
  the frame before and styles the cells that changed. Rows are matched by identity (the ID
  column, else Name, else the position). The theory shows that the identities of a snapshot are
  distinct, that the two paths which decide whether anything changed agree, that a listing
  which only comes back in another order is reported as unchanged, and that a frame that is
  rolled back leaves the baseline alone.
\<close>

section \<open>State\<close>

datatype cellStyle = CellPlain | CellChanged | CellAdded | CellRemoved

record tableState =
  ts_signature :: gostring
  ts_order :: "gostring list"
  ts_cells :: "gostring \<rightharpoonup> gostring list"

record differ =
  d_enabled :: bool
  d_prev :: "tableState list"
  d_cur :: "tableState list"
  d_idx :: nat
  d_rows :: nat
  d_tables :: nat
  d_changed :: bool

definition NewDiffer :: "bool \<Rightarrow> differ" where
  "NewDiffer on =
     \<lparr>d_enabled = on, d_prev = [], d_cur = [], d_idx = 0, d_rows = 0, d_tables = 0,
      d_changed = False\<rparr>"

definition SetEnabled :: "differ \<Rightarrow> bool \<Rightarrow> differ" where
  "SetEnabled d on = d\<lparr>d_enabled := on\<rparr>"

definition BeginFrame :: "differ \<Rightarrow> differ" where
  "BeginFrame d = d\<lparr>d_cur := [], d_idx := 0, d_changed := False\<rparr>"

definition Commit :: "differ \<Rightarrow> differ" where
  "Commit d =
     d\<lparr>d_prev := d_cur d, d_tables := length (d_cur d),
       d_rows := foldl (\<lambda>n t. n + length (ts_order t)) 0 (d_cur d)\<rparr>"

definition Rollback :: "differ \<Rightarrow> differ" where
  "Rollback d = d\<lparr>d_cur := []\<rparr>"

section \<open>Snapshots\<close>

definition at :: "gostring list \<Rightarrow> nat \<Rightarrow> gostring" where
  "at cells i = (if i < length cells then cells ! i else [])"

definition uniform :: "nat \<Rightarrow> cellStyle \<Rightarrow> cellStyle list" where
  "uniform n s = replicate n s"

definition render :: "anyval \<Rightarrow> gostring" where
  "render v = (if v = VNil then [] else fmtV v)"

definition positionKey :: "nat \<Rightarrow> gostring" where
  "positionKey pos = ''#'' @ itoa (int pos)"

text \<open>The column that identifies a row; \<^const>\<open>None\<close> is the result -1.\<close>

fun findFold :: "gostring \<Rightarrow> nat \<Rightarrow> gostring list \<Rightarrow> nat option" where
  "findFold want i [] = None"
| "findFold want i (c # cs) = (if equalFoldAscii c want then Some i else findFold want (Suc i) cs)"

definition keyColumn :: "gostring list \<Rightarrow> nat option" where
  "keyColumn cols =
     (case findFold ''ID'' 0 cols of
        Some i \<Rightarrow> Some i
      | None \<Rightarrow>
         (case findFold ''Name'' 0 cols of
            Some i \<Rightarrow> Some i
          | None \<Rightarrow>
              if length cols = 2 \<and> equalFoldAscii (cols ! 0) ''Field'' then Some 0 else None))"

definition rowKey :: "gostring list \<Rightarrow> nat option \<Rightarrow> nat \<Rightarrow> gostring" where
  "rowKey cells key pos =
     (case key of
        None \<Rightarrow> positionKey pos
      | Some k \<Rightarrow>
          if k \<ge> length cells \<or> cells ! k = [] then positionKey pos else ''k:'' @ cells ! k)"

definition rowCells :: "gostring list \<Rightarrow> anyval list \<Rightarrow> gostring list" where
  "rowCells cols row = map (\<lambda>j. if j < length row then render (row ! j) else []) [0..<length cols]"

fun snapLoop :: "gostring list \<Rightarrow> nat option \<Rightarrow> nat \<Rightarrow> tableState \<Rightarrow> anyval list list \<Rightarrow> tableState" where
  "snapLoop cols key i st [] = st"
| "snapLoop cols key i st (row # rows) =
     (let cells = rowCells cols row;
          id = rowKey cells key i;
          id = (if ts_cells st id \<noteq> None then positionKey i else id)
      in snapLoop cols key (Suc i)
           (st\<lparr>ts_order := ts_order st @ [id], ts_cells := (ts_cells st)(id \<mapsto> cells)\<rparr>) rows)"

definition snapshot :: "gostring list \<Rightarrow> anyval list list \<Rightarrow> tableState" where
  "snapshot cols rows =
     snapLoop cols (keyColumn cols) 0
       \<lparr>ts_signature = joinWith [CHR 0x00] cols, ts_order = [], ts_cells = Map.empty\<rparr> rows"

section \<open>Comparing\<close>

definition equalCells :: "gostring list \<Rightarrow> gostring list \<Rightarrow> bool" where
  "equalCells a b \<longleftrightarrow> length a = length b \<and> (\<forall>i < length a. a ! i = b ! i)"

text \<open>The iteration over the map \<^verbatim>\<open>cur.cells\<close> visits its keys, which \<^verbatim>\<open>cur.order\<close> lists.\<close>

definition differs :: "tableState \<Rightarrow> tableState \<Rightarrow> bool" where
  "differs prev cur \<longleftrightarrow>
     length (ts_order prev) \<noteq> length (ts_order cur)
     \<or> list_ex (\<lambda>key. case ts_cells prev key of
                        None \<Rightarrow> True
                      | Some old \<Rightarrow> \<not> equalCells (the (ts_cells cur key)) old) (ts_order cur)"

definition changedCells :: "gostring list \<Rightarrow> gostring list \<Rightarrow> gostring list \<Rightarrow> cellStyle list \<times> bool" where
  "changedCells cols now old =
     (map (\<lambda>i. if at now i \<noteq> at old i then CellChanged else CellPlain) [0..<length cols],
      list_ex (\<lambda>i. at now i \<noteq> at old i) [0..<length cols])"

definition ghostRow :: "gostring list \<Rightarrow> gostring list \<Rightarrow> anyval list" where
  "ghostRow cols cells = map (\<lambda>i. VStr (at cells i)) [0..<length cols]"

fun styleLoop :: "gostring list \<Rightarrow> tableState \<Rightarrow> tableState \<Rightarrow> gostring list \<Rightarrow> bool
    \<Rightarrow> cellStyle list list \<times> bool" where
  "styleLoop cols prev state [] changed = ([], changed)"
| "styleLoop cols prev state (key # order) changed =
     (case ts_cells prev key of
        None \<Rightarrow>
          (let (styles, ch) = styleLoop cols prev state order True
           in (uniform (length cols) CellAdded # styles, ch))
      | Some old \<Rightarrow>
          (let (row, moved) = changedCells cols (the (ts_cells state key)) old;
               (styles, ch) = styleLoop cols prev state order (changed \<or> moved)
           in (row # styles, ch)))"

fun ghostLoop :: "gostring list \<Rightarrow> tableState \<Rightarrow> tableState \<Rightarrow> gostring list \<Rightarrow> bool
    \<Rightarrow> anyval list list \<times> cellStyle list list \<times> bool" where
  "ghostLoop cols prev state [] changed = ([], [], changed)"
| "ghostLoop cols prev state (key # order) changed =
     (case ts_cells state key of
        Some _ \<Rightarrow> ghostLoop cols prev state order changed
      | None \<Rightarrow>
          (let (frame, styles, ch) = ghostLoop cols prev state order True
           in (ghostRow cols (the (ts_cells prev key)) # frame,
               uniform (length cols) CellRemoved # styles, ch)))"

definition decorate :: "differ \<Rightarrow> gostring list \<Rightarrow> anyval list list \<Rightarrow> tableState \<Rightarrow> tableState
    \<Rightarrow> differ \<times> anyval list list \<times> cellStyle list list" where
  "decorate d cols rows prev state =
     (let (styles, ch) = styleLoop cols prev state (ts_order state) (d_changed d);
          (ghosts, gstyles, ch) = ghostLoop cols prev state (ts_order prev) ch
      in (d\<lparr>d_changed := ch\<rparr>, rows @ ghosts, styles @ gstyles))"

definition previous :: "differ \<Rightarrow> nat \<Rightarrow> gostring \<Rightarrow> tableState option" where
  "previous d ordinal signature =
     (if ordinal \<ge> length (d_prev d) then None
      else if ts_signature (d_prev d ! ordinal) \<noteq> signature then None
      else Some (d_prev d ! ordinal))"

text \<open>\<^verbatim>\<open>Highlight\<close> returns the rows and the style matrix, \<^const>\<open>None\<close> for a nil matrix.\<close>

definition Highlight :: "differ \<Rightarrow> gostring list \<Rightarrow> anyval list list
    \<Rightarrow> differ \<times> anyval list list \<times> cellStyle list list option" where
  "Highlight d cols rows =
     (let ordinal = d_idx d;
          state = snapshot cols rows;
          d = d\<lparr>d_idx := Suc ordinal, d_cur := d_cur d @ [state]\<rparr>
      in case previous d ordinal (ts_signature state) of
           None \<Rightarrow> (d, rows, None)
         | Some prev \<Rightarrow>
             if \<not> d_enabled d
             then (d\<lparr>d_changed := d_changed d \<or> differs prev state\<rparr>, rows, None)
             else (let (d, frame, styles) = decorate d cols rows prev state
                   in (d, frame, Some styles)))"

section \<open>Snapshots are well formed\<close>

text \<open>The identities of a table are distinct and are exactly the keys of its cell map, and every row
  has one rendered cell per column.\<close>

definition wfTable :: "nat \<Rightarrow> tableState \<Rightarrow> bool" where
  "wfTable n t \<longleftrightarrow> distinct (ts_order t) \<and> dom (ts_cells t) = set (ts_order t)
     \<and> (\<forall>k c. ts_cells t k = Some c \<longrightarrow> length c = n)"

definition snapInv :: "nat \<Rightarrow> nat \<Rightarrow> tableState \<Rightarrow> bool" where
  "snapInv n i t \<longleftrightarrow> wfTable n t \<and> length (ts_order t) = i
     \<and> (\<forall>k \<in> set (ts_order t). hasPrefix k ''k:'' \<or> (\<exists>j < i. k = positionKey j))"

lemma positionKey_inject [simp]: "positionKey i = positionKey j \<longleftrightarrow> i = j"
  by (simp add: positionKey_def itoa_def)

lemma positionKey_not_key [simp]: "\<not> hasPrefix (positionKey i) ''k:''"
  by (simp add: positionKey_def hasPrefix_def)

lemma rowKey_form: "rowKey cells key i = positionKey i \<or> hasPrefix (rowKey cells key i) ''k:''"
  by (simp add: rowKey_def hasPrefix_def split: option.split)

lemma rowCells_length [simp]: "length (rowCells cols row) = length cols"
  by (simp add: rowCells_def)

lemma snapInv_step:
  assumes "snapInv n i st" and "length cells = n"
    and "rid = (if ts_cells st (rowKey cells key i) \<noteq> None then positionKey i else rowKey cells key i)"
  shows "snapInv n (Suc i)
    (st\<lparr>ts_order := ts_order st @ [rid], ts_cells := (ts_cells st)(rid \<mapsto> cells)\<rparr>)"
proof -
  have pos: "positionKey i \<notin> set (ts_order st)"
    using assms(1) positionKey_not_key [of i] unfolding snapInv_def by (metis less_irrefl positionKey_inject)
  have dom: "ts_cells st k \<noteq> None \<longleftrightarrow> k \<in> set (ts_order st)" for k
    using assms(1) by (auto simp: snapInv_def wfTable_def)
  have new: "rid \<notin> set (ts_order st)" using assms(3) pos dom by auto
  have form: "hasPrefix rid ''k:'' \<or> rid = positionKey i"
    using assms(3) rowKey_form by metis
  show ?thesis
    using assms(1,2) new form unfolding snapInv_def wfTable_def
    by (auto simp: less_Suc_eq)
qed

lemma snapLoop_inv:
  "snapInv (length cols) i st \<Longrightarrow>
     snapInv (length cols) (i + length rows) (snapLoop cols key i st rows)"
proof (induction rows arbitrary: i st)
  case Nil
  then show ?case by simp
next
  case (Cons row rows)
  define cells where "cells = rowCells cols row"
  define rid where "rid = (if ts_cells st (rowKey cells key i) \<noteq> None then positionKey i
      else rowKey cells key i)"
  have "snapInv (length cols) (Suc i)
      (st\<lparr>ts_order := ts_order st @ [rid], ts_cells := (ts_cells st)(rid \<mapsto> cells)\<rparr>)"
    by (rule snapInv_step [OF Cons.prems _ rid_def]) (simp add: cells_def)
  then have "snapInv (length cols) (Suc i + length rows) (snapLoop cols key (Suc i)
      (st\<lparr>ts_order := ts_order st @ [rid], ts_cells := (ts_cells st)(rid \<mapsto> cells)\<rparr>) rows)"
    by (rule Cons.IH)
  moreover have "snapLoop cols key i st (row # rows) = snapLoop cols key (Suc i)
      (st\<lparr>ts_order := ts_order st @ [rid], ts_cells := (ts_cells st)(rid \<mapsto> cells)\<rparr>) rows"
    by (simp only: snapLoop.simps Let_def cells_def rid_def)
  ultimately show ?case by simp
qed

lemma snapLoop_signature: "ts_signature (snapLoop cols key i st rows) = ts_signature st"
  by (induction rows arbitrary: i st) (simp_all add: Let_def)

lemma snapshot_inv: "snapInv (length cols) (length rows) (snapshot cols rows)"
proof -
  have "snapInv (length cols) 0
      \<lparr>ts_signature = joinWith [CHR 0x00] cols, ts_order = [], ts_cells = Map.empty\<rparr>"
    by (simp add: snapInv_def wfTable_def)
  from snapLoop_inv [OF this] show ?thesis by (simp add: snapshot_def)
qed

lemma snapshot_signature: "ts_signature (snapshot cols rows) = joinWith [CHR 0x00] cols"
  by (simp add: snapshot_def snapLoop_signature)

text \<open>
  A snapshot gives every row an identity of its own: the identities are distinct even when
  the ID column repeats or is empty, they are the keys of the cell map, there is one per row,
  and each has one rendered cell per column.
\<close>

lemma snapshot_identities:
  "distinct (ts_order (snapshot cols rows))
   \<and> length (ts_order (snapshot cols rows)) = length rows
   \<and> dom (ts_cells (snapshot cols rows)) = set (ts_order (snapshot cols rows))
   \<and> (\<lambda>c. length (the c)) ` (ts_cells (snapshot cols rows) ` set (ts_order (snapshot cols rows)))
       \<subseteq> {length cols}"
proof -
  have w: "wfTable (length cols) (snapshot cols rows)"
    "length (ts_order (snapshot cols rows)) = length rows"
    using snapshot_inv [of cols rows] by (simp_all add: snapInv_def)
  have "length (the (ts_cells (snapshot cols rows) k)) = length cols"
    if "k \<in> set (ts_order (snapshot cols rows))" for k
    using that w(1) unfolding wfTable_def by (metis domD option.sel)
  then show ?thesis using w by (auto simp: wfTable_def)
qed

lemma snapshot_wf: "wfTable (length cols) (snapshot cols rows)"
  using snapshot_inv by (simp add: snapInv_def)

section \<open>The two change tests agree\<close>

lemma equalCells_iff: "equalCells a b \<longleftrightarrow> a = b"
  by (auto simp: equalCells_def list_eq_iff_nth_eq)

lemma changedCells_moved:
  assumes "length now = length cols" and "length old = length cols"
  shows "snd (changedCells cols now old) \<longleftrightarrow> now \<noteq> old"
proof -
  have "snd (changedCells cols now old) \<longleftrightarrow> (\<exists>i < length now. at now i \<noteq> at old i)"
    using assms(1) by (auto simp: changedCells_def list_ex_iff)
  also have "\<dots> \<longleftrightarrow> (\<exists>i < length now. now ! i \<noteq> old ! i)"
    using assms by (simp add: at_def cong: conj_cong)
  also have "\<dots> \<longleftrightarrow> now \<noteq> old"
    using assms list_eq_iff_nth_eq [of now old] by simp
  finally show ?thesis .
qed

lemma styleLoop_changed:
  "snd (styleLoop cols prev st order ch) \<longleftrightarrow>
     ch \<or> list_ex (\<lambda>key. case ts_cells prev key of None \<Rightarrow> True
              | Some old \<Rightarrow> snd (changedCells cols (the (ts_cells st key)) old)) order"
  by (induction order arbitrary: ch) (auto simp: split_beta split: option.splits)

lemma ghostLoop_changed:
  "snd (snd (ghostLoop cols prev st order ch)) \<longleftrightarrow> ch \<or> list_ex (\<lambda>key. ts_cells st key = None) order"
  by (induction order arbitrary: ch) (auto simp: split_beta split: option.splits)

lemma decorate_changed:
  "d_changed (fst (decorate d cols rows prev st)) \<longleftrightarrow>
     d_changed d
     \<or> list_ex (\<lambda>key. case ts_cells prev key of None \<Rightarrow> True
              | Some old \<Rightarrow> snd (changedCells cols (the (ts_cells st key)) old)) (ts_order st)
     \<or> list_ex (\<lambda>key. ts_cells st key = None) (ts_order prev)"
  by (simp add: decorate_def split_beta Let_def styleLoop_changed ghostLoop_changed)

lemma differs_decorate:
  assumes p: "wfTable (length cols) prev" and c: "wfTable (length cols) cur"
  shows "d_changed (fst (decorate d cols rows prev cur)) \<longleftrightarrow> d_changed d \<or> differs prev cur"
proof -
  let ?new = "list_ex (\<lambda>key. case ts_cells prev key of None \<Rightarrow> True
      | Some old \<Rightarrow> the (ts_cells cur key) \<noteq> old) (ts_order cur)"
  have new: "list_ex (\<lambda>key. case ts_cells prev key of None \<Rightarrow> True
        | Some old \<Rightarrow> snd (changedCells cols (the (ts_cells cur key)) old)) (ts_order cur) = ?new"
  proof (rule list_ex_cong [OF refl])
    fix key assume "key \<in> set (ts_order cur)"
    then obtain now where now: "ts_cells cur key = Some now" "length now = length cols"
      using c unfolding wfTable_def by blast
    then show "(case ts_cells prev key of None \<Rightarrow> True
        | Some old \<Rightarrow> snd (changedCells cols (the (ts_cells cur key)) old)) =
      (case ts_cells prev key of None \<Rightarrow> True | Some old \<Rightarrow> the (ts_cells cur key) \<noteq> old)"
      using p by (auto simp: wfTable_def changedCells_moved split: option.splits)
  qed
  have gone: "list_ex (\<lambda>key. ts_cells cur key = None) (ts_order prev) \<longleftrightarrow>
      \<not> set (ts_order prev) \<subseteq> set (ts_order cur)"
    using c unfolding wfTable_def list_ex_iff by (metis (no_types, lifting) domIff subset_iff)
  have cards: "card (set (ts_order prev)) = length (ts_order prev)"
    "card (set (ts_order cur)) = length (ts_order cur)"
    using p c by (simp_all add: wfTable_def distinct_card)
  have "?new \<or> \<not> set (ts_order prev) \<subseteq> set (ts_order cur) \<longleftrightarrow>
      length (ts_order prev) \<noteq> length (ts_order cur) \<or> ?new"
  proof (cases ?new)
    case False
    then have "set (ts_order cur) \<subseteq> set (ts_order prev)"
      using p unfolding wfTable_def by (fastforce simp: list_ex_iff split: option.splits)
    then have "set (ts_order prev) \<subseteq> set (ts_order cur) \<longleftrightarrow>
        card (set (ts_order prev)) = card (set (ts_order cur))"
      by (metis card_subset_eq finite_set set_eq_subset)
    with False cards show ?thesis by simp
  qed simp
  then show ?thesis
    unfolding decorate_changed differs_def new gone equalCells_iff by blast
qed

section \<open>Frames as transactions\<close>

text \<open>
  A frame is begun, rendered step by step, and either committed or rolled back. What the loop
  relies on is that an attempt that is rolled back leaves no trace: beginning again after it is
  beginning from the state before it.
\<close>

locale transaction =
  fixes start :: "'s \<Rightarrow> 's" and step :: "'a \<Rightarrow> 's \<Rightarrow> 's" and undo :: "'s \<Rightarrow> 's"
    and base :: "'s \<Rightarrow> 'b"
  assumes undo_step: "start (undo (fold step xs (start s))) = start s"
    and base_start: "base (start s) = base s"
    and base_step: "base (step x s) = base s"
    and base_undo: "base (undo s) = base s"
begin

lemma base_fold: "base (fold step xs s) = base s"
  by (induction xs arbitrary: s) (simp_all add: base_step)

lemma base_rolled_back: "base (undo (fold step xs (start s))) = base s"
  by (simp add: base_undo base_fold base_start)

lemma start_after_failures:
  "start (fold (\<lambda>xs s. undo (fold step xs (start s))) attempts s) = start s"
proof (induction attempts arbitrary: s)
  case Nil
  then show ?case by simp
next
  case (Cons xs attempts)
  then show ?case using undo_step [of xs s] by simp
qed

end

definition highlightTable :: "gostring list \<times> anyval list list \<Rightarrow> differ \<Rightarrow> differ" where
  "highlightTable t d = fst (Highlight d (fst t) (snd t))"

definition failedFrame :: "(gostring list \<times> anyval list list) list \<Rightarrow> differ \<Rightarrow> differ" where
  "failedFrame tables d = Rollback (fold highlightTable tables (BeginFrame d))"

text \<open>What rendering a table may change: the frame in progress and the verdict, nothing else.\<close>

definition sameBase :: "differ \<Rightarrow> differ \<Rightarrow> bool" where
  "sameBase d d' \<longleftrightarrow> d_enabled d' = d_enabled d \<and> d_prev d' = d_prev d \<and> d_rows d' = d_rows d
     \<and> d_tables d' = d_tables d"

lemma sameBase_Highlight: "sameBase d (fst (Highlight d cols rows))"
  by (simp add: sameBase_def Highlight_def decorate_def Let_def split_beta split: option.split)

lemma sameBase_fold: "sameBase d (fold highlightTable tables (BeginFrame d))"
proof -
  have "sameBase d (fold highlightTable tables e)" if "sameBase d e" for e
    using that
  proof (induction tables arbitrary: e)
    case Nil
    then show ?case by simp
  next
    case (Cons t tables)
    then have "sameBase d (highlightTable t e)"
      using sameBase_Highlight [of e "fst t" "snd t"] by (simp add: sameBase_def highlightTable_def)
    then show ?case using Cons.IH by simp
  qed
  then show ?thesis by (simp add: sameBase_def BeginFrame_def)
qed

lemma BeginFrame_sameBase: "sameBase d d' \<Longrightarrow> BeginFrame (Rollback d') = BeginFrame d"
  by (cases d; cases d') (simp add: sameBase_def BeginFrame_def Rollback_def)

interpretation frames: transaction BeginFrame highlightTable Rollback d_prev
proof
  show "BeginFrame (Rollback (fold highlightTable xs (BeginFrame s))) = BeginFrame s" for xs s
    by (rule BeginFrame_sameBase [OF sameBase_fold])
  show "d_prev (highlightTable x s) = d_prev s" for x s
    using sameBase_Highlight by (simp add: highlightTable_def sameBase_def)
qed (simp_all add: BeginFrame_def Rollback_def)

text \<open>
  Frames that fail leave no trace in the differ: after any number of failed refreshes, each
  having rendered any tables before it failed, the next frame begins exactly as if they had
  not happened, against the last frame that was committed.
\<close>

lemma failed_frames_leave_no_trace:
  "BeginFrame (fold failedFrame attempts d) = BeginFrame d
   \<and> d_prev (fold failedFrame attempts d) = d_prev d"
proof -
  have "(\<lambda>xs s. Rollback (fold highlightTable xs (BeginFrame s))) = failedFrame"
    by (simp add: fun_eq_iff failedFrame_def)
  then have "BeginFrame (fold failedFrame attempts d) = BeginFrame d"
    using frames.start_after_failures [of attempts d] by simp
  moreover have "d_prev (BeginFrame e) = d_prev e" for e by (simp add: BeginFrame_def)
  ultimately show ?thesis by metis
qed

section \<open>Rows are matched by identity\<close>

lemma findFold_bounds: "findFold want i cols = Some k \<Longrightarrow> i \<le> k \<and> k < i + length cols"
  by (induction want i cols rule: findFold.induct) (auto split: if_splits)

lemma keyColumn_bound: "keyColumn cols = Some k \<Longrightarrow> k < length cols"
  by (auto simp: keyColumn_def dest!: findFold_bounds split: option.splits if_splits)

definition rowId :: "gostring list \<Rightarrow> nat \<Rightarrow> anyval list \<Rightarrow> gostring" where
  "rowId cols k row = rowCells cols row ! k"

text \<open>A table whose identifying column holds a different, non-empty value in every row.\<close>

definition keyed :: "gostring list \<Rightarrow> nat \<Rightarrow> anyval list list \<Rightarrow> bool" where
  "keyed cols k rows \<longleftrightarrow> keyColumn cols = Some k \<and> distinct (map (rowId cols k) rows)
     \<and> [] \<notin> set (map (rowId cols k) rows)"

lemma snapLoop_keyed:
  assumes "k < length cols"
  shows "distinct (map (rowId cols k) rows) \<Longrightarrow> [] \<notin> set (map (rowId cols k) rows) \<Longrightarrow>
    (\<And>row. row \<in> set rows \<Longrightarrow> ts_cells st (''k:'' @ rowId cols k row) = None) \<Longrightarrow>
    ts_order (snapLoop cols (Some k) i st rows) =
      ts_order st @ map (\<lambda>r. ''k:'' @ rowId cols k r) rows
    \<and> ts_cells (snapLoop cols (Some k) i st rows) =
      ts_cells st ++ map_of (map (\<lambda>r. (''k:'' @ rowId cols k r, rowCells cols r)) rows)"
proof (induction rows arbitrary: i st)
  case Nil
  then show ?case by simp
next
  case (Cons row rows)
  let ?rid = "''k:'' @ rowId cols k row"
  let ?st = "st\<lparr>ts_order := ts_order st @ [?rid],
    ts_cells := (ts_cells st)(?rid \<mapsto> rowCells cols row)\<rparr>"
  have rk: "rowKey (rowCells cols row) (Some k) i = ?rid"
    using Cons.prems(2) assms by (auto simp: rowKey_def rowId_def)
  have free: "ts_cells st ?rid = None" using Cons.prems(3) by simp
  have step: "snapLoop cols (Some k) i st (row # rows) = snapLoop cols (Some k) (Suc i) ?st rows"
    using rk free by (simp only: snapLoop.simps Let_def) simp
  have "ts_cells ?st (''k:'' @ rowId cols k r) = None" if "r \<in> set rows" for r
  proof -
    have "rowId cols k r \<in> set (map (rowId cols k) rows)" using that by simp
    then have "rowId cols k r \<noteq> rowId cols k row" using Cons.prems(1) by auto
    then show ?thesis using Cons.prems(3) [of r] that by simp
  qed
  moreover have "distinct (map (rowId cols k) rows)" "[] \<notin> set (map (rowId cols k) rows)"
    using Cons.prems(1,2) by simp_all
  ultimately have IH: "ts_order (snapLoop cols (Some k) (Suc i) ?st rows) =
      ts_order ?st @ map (\<lambda>r. ''k:'' @ rowId cols k r) rows"
    "ts_cells (snapLoop cols (Some k) (Suc i) ?st rows) =
      ts_cells ?st ++ map_of (map (\<lambda>r. (''k:'' @ rowId cols k r, rowCells cols r)) rows)"
    using Cons.IH [of ?st "Suc i"] by blast+
  let ?M = "map_of (map (\<lambda>r. (''k:'' @ rowId cols k r, rowCells cols r)) rows)"
  have "?rid \<notin> dom ?M"
    using Cons.prems(1) by (auto simp: dom_map_of_conv_image_fst)
  then have "(ts_cells st)(?rid \<mapsto> rowCells cols row) ++ ?M = ts_cells st ++ ?M(?rid \<mapsto> rowCells cols row)"
    by (simp only: map_add_upd_left map_add_upd not_False_eq_True)
  moreover have "ts_cells ?st = (ts_cells st)(?rid \<mapsto> rowCells cols row)" by simp
  ultimately have "ts_cells ?st ++ ?M = ts_cells st ++ ?M(?rid \<mapsto> rowCells cols row)"
    by (simp only:)
  with IH(2) have "ts_cells (snapLoop cols (Some k) i st (row # rows)) =
      ts_cells st ++ ?M(?rid \<mapsto> rowCells cols row)"
    unfolding step by (rule trans)
  moreover have "ts_order (snapLoop cols (Some k) i st (row # rows)) =
      ts_order st @ map (\<lambda>r. ''k:'' @ rowId cols k r) (row # rows)"
    using IH(1) step by (simp del: snapLoop.simps)
  ultimately show ?case by (simp only: list.map map_of.simps fst_conv snd_conv)
qed

lemma snapshot_keyed:
  assumes "keyed cols k rows"
  shows "ts_order (snapshot cols rows) = map (\<lambda>r. ''k:'' @ rowId cols k r) rows"
    and "ts_cells (snapshot cols rows) =
      map_of (map (\<lambda>r. (''k:'' @ rowId cols k r, rowCells cols r)) rows)"
  using assms keyColumn_bound snapLoop_keyed [of k cols rows]
  by (simp_all add: snapshot_def keyed_def)

lemma keyed_permuted: "keyed cols k rows \<Longrightarrow> mset rows' = mset rows \<Longrightarrow> keyed cols k rows'"
  unfolding keyed_def by (metis mset_eq_imp_distinct_iff mset_eq_setD mset_map set_map)

lemma snapshot_permuted:
  assumes "keyed cols k rows" and "mset rows' = mset rows"
  shows "ts_cells (snapshot cols rows') = ts_cells (snapshot cols rows)"
    and "set (ts_order (snapshot cols rows')) = set (ts_order (snapshot cols rows))"
    and "length (ts_order (snapshot cols rows')) = length (ts_order (snapshot cols rows))"
proof -
  let ?f = "\<lambda>r. (''k:'' @ rowId cols k r, rowCells cols r)"
  note k = snapshot_keyed [OF assms(1)] snapshot_keyed [OF keyed_permuted [OF assms]]
  have st: "set rows' = set rows" using assms(2) mset_eq_setD by blast
  have dist: "distinct (map fst (map ?f xs)) \<longleftrightarrow> distinct (map (rowId cols k) xs)" for xs
    by (auto simp: distinct_map inj_on_def)
  have "map_of (map ?f rows') = map_of (map ?f rows)"
    using assms keyed_permuted [OF assms] st dist
    by (intro map_of_inject_set [THEN iffD2]) (auto simp: keyed_def simp del: map_map)
  then show "ts_cells (snapshot cols rows') = ts_cells (snapshot cols rows)"
    by (simp only: k)
  show "set (ts_order (snapshot cols rows')) = set (ts_order (snapshot cols rows))"
    using st by (simp only: k set_map)
  show "length (ts_order (snapshot cols rows')) = length (ts_order (snapshot cols rows))"
    using mset_eq_length [OF assms(2)] by (simp only: k length_map)
qed

lemma changedCells_same: "changedCells cols c c = (uniform (length cols) CellPlain, False)"
  by (simp add: changedCells_def uniform_def map_replicate_const list_ex_iff)

lemma styleLoop_same:
  assumes "ts_cells prev = ts_cells st" and "set order \<subseteq> dom (ts_cells st)"
  shows "styleLoop cols prev st order ch =
    (replicate (length order) (uniform (length cols) CellPlain), ch)"
  using assms(2)
proof (induction order)
  case Nil
  then show ?case by simp
next
  case (Cons key order)
  then obtain c where "ts_cells st key = Some c" by auto
  with Cons assms(1) show ?case by (simp add: changedCells_same)
qed

lemma ghostLoop_same:
  "set order \<subseteq> dom (ts_cells st) \<Longrightarrow> ghostLoop cols prev st order ch = ([], [], ch)"
  by (induction order) auto

text \<open>
  Matching is by identity and not by screen position: when a listing whose rows have
  distinct IDs (or names) comes back with the same rows in any other order, nothing is marked
  as changed, added or removed, no departed row is held, and the verdict is "unchanged" whether
  highlighting is on or off.
\<close>

lemma reordered_rows_are_unchanged:
  assumes "keyed cols k rows" and "mset rows' = mset rows"
  shows "decorate d cols rows' (snapshot cols rows) (snapshot cols rows') =
      (d, rows', replicate (length rows') (uniform (length cols) CellPlain))
    \<and> \<not> differs (snapshot cols rows) (snapshot cols rows')"
proof -
  note p = snapshot_permuted [OF assms]
  have dom: "dom (ts_cells (snapshot cols r)) = set (ts_order (snapshot cols r))" for r
    using snapshot_wf by (simp add: wfTable_def)
  have len: "length (ts_order (snapshot cols rows')) = length rows'"
    using snapshot_inv by (simp add: snapInv_def)
  have dec: "decorate d cols rows' (snapshot cols rows) (snapshot cols rows') =
      (d, rows', replicate (length rows') (uniform (length cols) CellPlain))"
    using p dom len by (simp add: decorate_def styleLoop_same ghostLoop_same)
  moreover have "\<not> differs (snapshot cols rows) (snapshot cols rows')"
    using differs_decorate [OF snapshot_wf snapshot_wf, of "NewDiffer True" cols rows' rows rows']
      p dom len
    by (simp add: decorate_def styleLoop_same ghostLoop_same NewDiffer_def)
  ultimately show ?thesis by blast
qed

lemma reordered_rows_are_unchanged_witness:
  "decorate (NewDiffer True) [''ID'', ''Status''] [[VStr ''b'', VStr ''UP''], [VStr ''a'', VStr ''BUILD'']]
      (snapshot [''ID'', ''Status''] [[VStr ''a'', VStr ''BUILD''], [VStr ''b'', VStr ''UP'']])
      (snapshot [''ID'', ''Status''] [[VStr ''b'', VStr ''UP''], [VStr ''a'', VStr ''BUILD'']]) =
    (NewDiffer True, [[VStr ''b'', VStr ''UP''], [VStr ''a'', VStr ''BUILD'']],
     replicate 2 (uniform 2 CellPlain))"
  using reordered_rows_are_unchanged
    [of "[''ID'', ''Status'']" 0 "[[VStr ''a'', VStr ''BUILD''], [VStr ''b'', VStr ''UP'']]"
        "[[VStr ''b'', VStr ''UP''], [VStr ''a'', VStr ''BUILD'']]" "NewDiffer True"]
  by (simp add: keyed_def keyColumn_def equalFoldAscii_def rowId_def rowCells_def render_def
      add_mset_commute upt_rec numeral_2_eq_2)

section \<open>The verdict does not depend on highlighting\<close>

text \<open>Tables with at least one column whose headers contain no NUL byte, which is what the joined
  signature separates them by.\<close>

definition cleanCols :: "gostring list \<Rightarrow> bool" where
  "cleanCols cols \<longleftrightarrow> cols \<noteq> [] \<and> list_all (\<lambda>c. CHR 0x00 \<notin> set c) cols"

definition snapshotOf :: "tableState \<Rightarrow> bool" where
  "snapshotOf t \<longleftrightarrow> (\<exists>cols. cleanCols cols \<and> wfTable (length cols) t
     \<and> ts_signature t = joinWith [CHR 0x00] cols)"

definition differWf :: "differ \<Rightarrow> bool" where
  "differWf d \<longleftrightarrow> list_all snapshotOf (d_prev d) \<and> list_all snapshotOf (d_cur d)"

lemma signature_inject:
  "cleanCols a \<Longrightarrow> cleanCols b \<Longrightarrow> joinWith [CHR 0x00] a = joinWith [CHR 0x00] b \<Longrightarrow> a = b"
  unfolding cleanCols_def list_all_iff by (metis splitOn_join)

lemma previous_wf:
  assumes "differWf d" and "cleanCols cols"
    and "previous d i (joinWith [CHR 0x00] cols) = Some prev"
  shows "wfTable (length cols) prev"
proof -
  have "snapshotOf prev" "ts_signature prev = joinWith [CHR 0x00] cols"
    using assms by (auto simp: previous_def differWf_def list_all_length split: if_splits)
  then show ?thesis using signature_inject [OF _ assms(2)] unfolding snapshotOf_def by metis
qed

lemma snapshotOf_snapshot: "cleanCols cols \<Longrightarrow> snapshotOf (snapshot cols rows)"
  unfolding snapshotOf_def using snapshot_wf snapshot_signature by blast

lemma differWf_Highlight: "differWf d \<Longrightarrow> cleanCols cols \<Longrightarrow> differWf (fst (Highlight d cols rows))"
  using snapshotOf_snapshot [of cols rows]
  by (simp add: Highlight_def decorate_def differWf_def Let_def split_beta split: option.split)

lemma differWf_ops:
  "differWf (NewDiffer on)" "differWf d \<Longrightarrow> differWf (BeginFrame d)"
  "differWf d \<Longrightarrow> differWf (Commit d)" "differWf d \<Longrightarrow> differWf (Rollback d)"
  "differWf d \<Longrightarrow> differWf (SetEnabled d on)"
  by (simp_all add: differWf_def NewDiffer_def BeginFrame_def Commit_def Rollback_def SetEnabled_def)

lemma Highlight_changed:
  assumes "differWf d" and "cleanCols cols"
  shows "d_changed (fst (Highlight d cols rows)) \<longleftrightarrow>
    d_changed d \<or>
    (case previous d (d_idx d) (joinWith [CHR 0x00] cols) of
       None \<Rightarrow> False | Some prev \<Rightarrow> differs prev (snapshot cols rows))"
proof -
  let ?d = "d\<lparr>d_idx := Suc (d_idx d), d_cur := d_cur d @ [snapshot cols rows]\<rparr>"
  have prev: "previous ?d (d_idx d) sg = previous d (d_idx d) sg" for sg
    by (simp add: previous_def)
  show ?thesis
  proof (cases "previous d (d_idx d) (joinWith [CHR 0x00] cols)")
    case None
    then show ?thesis using prev by (simp add: Highlight_def Let_def snapshot_signature)
  next
    case (Some p)
    have "wfTable (length cols) p" by (rule previous_wf [OF assms Some])
    then show ?thesis
      using Some prev differs_decorate [OF _ snapshot_wf, of cols p ?d rows rows]
      by (simp add: Highlight_def Let_def snapshot_signature split_beta)
  qed
qed

text \<open>
  Whether a frame counts as changed does not depend on whether changes are highlighted: on
  every differ the operations can reach, rendering the same table gives the same verdict with
  the styles computed and with the cheap comparison, so \<^verbatim>\<open>--watch-until-change\<close> exits at the same
  frame in both modes.
\<close>

lemma change_verdict_ignores_highlighting:
  assumes "differWf d" and "cleanCols cols"
  shows "d_changed (fst (Highlight (SetEnabled d True) cols rows)) =
    d_changed (fst (Highlight (SetEnabled d False) cols rows))"
  using assms differWf_ops(5)
  by (simp add: Highlight_changed previous_def SetEnabled_def)

lemma change_verdict_ignores_highlighting_witness:
  "d_changed (fst (Highlight (SetEnabled (Commit (highlightTable ([''ID''], [[VInt 1]])
        (NewDiffer True))) True) [''ID''] [[VInt 2]])) =
   d_changed (fst (Highlight (SetEnabled (Commit (highlightTable ([''ID''], [[VInt 1]])
        (NewDiffer True))) False) [''ID''] [[VInt 2]]))"
proof (rule change_verdict_ignores_highlighting)
  show c: "cleanCols [''ID'']" by (simp add: cleanCols_def)
  show "differWf (Commit (highlightTable ([''ID''], [[VInt 1]]) (NewDiffer True)))"
    using c by (simp add: highlightTable_def differWf_ops differWf_Highlight)
qed

end
