(* ===== verification/Watch_Viewport.thy ===== *)
theory Watch_Viewport
  imports Go_Strings
begin

text \<open>
  \<^verbatim>\<open>src/internal/watch/viewport.go\<close>: the window a watched frame is shown through. The state is the
  \<^verbatim>\<open>viewport\<close> struct and the operations are its methods; \<open>apply\<close> resolves the window against the
  height of the terminal. The lemmas show that the window is always a contiguous piece of the
  body, that it never addresses a line outside it, that the painted lines fit the terminal, and
  that the scroll keys reach every line without skipping one.
\<close>

section \<open>State\<close>

record viewport =
  vp_offset :: int
  vp_total :: int
  vp_shown :: int

record frame =
  f_head :: "gostring list"
  f_body :: "gostring list"
  f_more :: int
  f_first :: int
  f_last :: int

definition emptyViewport :: viewport where
  "emptyViewport = \<lparr>vp_offset = 0, vp_total = 0, vp_shown = 0\<rparr>"

definition emptyFrame :: frame where
  "emptyFrame = \<lparr>f_head = [], f_body = [], f_more = 0, f_first = 0, f_last = 0\<rparr>"

section \<open>Operations\<close>

definition stickyHead :: "gostring list \<Rightarrow> gostring list \<times> gostring list" where
  "stickyHead lines =
     (if length lines < 4 \<or> \<not> hasPrefix (lines ! 0) ''+-'' \<or> \<not> hasPrefix (lines ! 2) ''+-''
      then ([], lines) else (take 3 lines, drop 3 lines))"

text \<open>The number of body lines that fit; the second test takes one for the marker.\<close>

definition availLines :: "int \<Rightarrow> int \<Rightarrow> int \<Rightarrow> int \<Rightarrow> int" where
  "availLines rows reserve nhead nbody =
     (let avail = rows - reserve - nhead;
          avail = (if avail < 1 then 1 else avail)
      in if nbody > avail
         then (let avail = avail - 1 in if avail < 1 then 1 else avail)
         else avail)"

text \<open>\<^verbatim>\<open>apply\<close> returns the updated viewport and the frame; \<^const>\<open>None\<close> is a slice out of range.\<close>

definition vpApply :: "viewport \<Rightarrow> gostring list \<Rightarrow> int \<Rightarrow> int \<Rightarrow> (viewport \<times> frame) option" where
  "vpApply v lines rows reserve =
     (let (head, body) = stickyHead lines; n = int (length body) in
      if rows \<le> 0 then
        Some (v\<lparr>vp_offset := 0, vp_total := n, vp_shown := n\<rparr>,
              \<lparr>f_head = head, f_body = body, f_more = 0, f_first = 1, f_last = n\<rparr>)
      else
        (let avail = availLines rows reserve (int (length head)) n;
             v = v\<lparr>vp_total := n, vp_shown := avail\<rparr>;
             v = (let last = n - avail in
                  if vp_offset v > last then v\<lparr>vp_offset := last\<rparr> else v);
             v = (if vp_offset v < 0 then v\<lparr>vp_offset := 0\<rparr> else v);
             end = min (vp_offset v + avail) n
         in case slice body (vp_offset v) end of
              None \<Rightarrow> None
            | Some shown \<Rightarrow>
                Some (v, \<lparr>f_head = head, f_body = shown, f_more = n - end,
                          f_first = (if n > 0 then vp_offset v + 1 else 0),
                          f_last = (if n > 0 then end else 0)\<rparr>)))"

definition vpFits :: "viewport \<Rightarrow> bool" where
  "vpFits v \<longleftrightarrow> vp_total v \<le> vp_shown v"

definition vpScroll :: "viewport \<Rightarrow> int \<Rightarrow> viewport" where
  "vpScroll v n =
     (let v = v\<lparr>vp_offset := vp_offset v + n\<rparr>
      in if vp_offset v < 0 then v\<lparr>vp_offset := 0\<rparr> else v)"

definition vpPage :: "viewport \<Rightarrow> int" where
  "vpPage v = (if vp_shown v \<le> 1 then 1 else vp_shown v - 1)"

definition vpTop :: "viewport \<Rightarrow> viewport" where
  "vpTop v = v\<lparr>vp_offset := 0\<rparr>"

definition vpBottom :: "viewport \<Rightarrow> viewport" where
  "vpBottom v = v\<lparr>vp_offset := vp_total v\<rparr>"

definition vpReset :: "viewport \<Rightarrow> viewport" where
  "vpReset v = v\<lparr>vp_offset := 0\<rparr>"

section \<open>Lemmas\<close>

lemma stickyHead_append: "fst (stickyHead lines) @ snd (stickyHead lines) = lines"
  by (simp add: stickyHead_def)

lemma stickyHead_length: "length (fst (stickyHead lines)) \<le> 3"
  by (simp add: stickyHead_def)

lemma availLines_pos: "1 \<le> availLines rows reserve h n"
  by (simp add: availLines_def Let_def)

text \<open>The offset the window is clamped to, and what \<open>vpApply\<close> computes in those terms.\<close>

definition clampOffset :: "int \<Rightarrow> int \<Rightarrow> int \<Rightarrow> int" where
  "clampOffset o0 n avail = max 0 (min o0 (n - avail))"

lemma vpApply_windowed:
  assumes "0 < rows" and "stickyHead lines = (head, body)" and "n = int (length body)"
    and "a = availLines rows reserve (int (length head)) n"
    and "o' = clampOffset (vp_offset v) n a" and "e = min (o' + a) n"
  shows "vpApply v lines rows reserve =
    Some (v\<lparr>vp_offset := o', vp_total := n, vp_shown := a\<rparr>,
          \<lparr>f_head = head, f_body = take (nat (e - o')) (drop (nat o') body), f_more = n - e,
           f_first = (if n > 0 then o' + 1 else 0), f_last = (if n > 0 then e else 0)\<rparr>)"
proof -
  have a: "1 \<le> a" using assms availLines_pos by simp
  have b: "0 \<le> o'" "o' \<le> e" "e \<le> int (length body)"
    using a assms by (auto simp: clampOffset_def)
  have "slice body o' e = Some (take (nat (e - o')) (drop (nat o') body))"
    using slice_Some [OF b] .
  moreover have "o' = (if (if vp_offset v > n - a then n - a else vp_offset v) < 0 then 0
      else if vp_offset v > n - a then n - a else vp_offset v)"
    using assms by (auto simp: clampOffset_def)
  ultimately show ?thesis
    using assms(1-4,6) by (auto simp: vpApply_def Let_def split: if_splits)
qed

lemma clampOffset_bounds:
  "1 \<le> a \<Longrightarrow> 0 \<le> clampOffset o0 n a \<and> (0 \<le> n \<longrightarrow> clampOffset o0 n a \<le> n)"
  by (auto simp: clampOffset_def)

lemma vpApply_unbounded:
  "rows \<le> 0 \<Longrightarrow> stickyHead lines = (head, body) \<Longrightarrow>
     vpApply v lines rows reserve =
       Some (v\<lparr>vp_offset := 0, vp_total := int (length body), vp_shown := int (length body)\<rparr>,
             \<lparr>f_head = head, f_body = body, f_more = 0, f_first = 1, f_last = int (length body)\<rparr>)"
  by (simp add: vpApply_def Let_def)

lemma vpApply_shows_a_window_total: "\<exists>v' f. vpApply v lines rows reserve = Some (v', f)"
proof -
  obtain head body where hb: "stickyHead lines = (head, body)" by (cases "stickyHead lines")
  show ?thesis
    by (cases "0 < rows")
      (use vpApply_windowed [OF _ hb refl refl refl refl] vpApply_unbounded [OF _ hb] in auto)
qed

text \<open>
  Applying a viewport never slices out of range, whatever the offset, the frame and the
  terminal: the result shows a contiguous window of the body under the pinned head, reports
  exactly the lines below it, and is empty only when the body is.
\<close>

lemma vpApply_shows_a_window:
  "\<exists>v' f. vpApply v lines rows reserve = Some (v', f)
     \<and> f_head f = fst (stickyHead lines)
     \<and> 0 \<le> vp_offset v'
     \<and> snd (stickyHead lines) =
         take (nat (vp_offset v')) (snd (stickyHead lines)) @ f_body f
         @ drop (nat (vp_offset v') + length (f_body f)) (snd (stickyHead lines))
     \<and> f_more f = int (length (snd (stickyHead lines))) - vp_offset v' - int (length (f_body f))
     \<and> 0 \<le> f_more f
     \<and> (f_body f = [] \<longleftrightarrow> snd (stickyHead lines) = [])"
proof -
  obtain head body where hb: "stickyHead lines = (head, body)" by (cases "stickyHead lines")
  show ?thesis
  proof (cases "0 < rows")
    case False
    then show ?thesis using vpApply_unbounded [of rows lines head body v reserve] hb by simp
  next
    case True
    define n where "n = int (length body)"
    define a where "a = availLines rows reserve (int (length head)) n"
    define c where "c = clampOffset (vp_offset v) n a"
    define e where "e = min (c + a) n"
    have a: "1 \<le> a" using availLines_pos by (simp add: a_def)
    have b: "0 \<le> c" "c \<le> e" "e \<le> n" "n > 0 \<longrightarrow> c < e"
      using a by (auto simp: c_def e_def n_def clampOffset_def)
    have len: "length (take (nat (e - c)) (drop (nat c) body)) = nat e - nat c"
      using b by (simp add: n_def)
    have split: "body = take (nat c) body @ take (nat (e - c)) (drop (nat c) body) @ drop (nat e) body"
      using b by (intro slice_append slice_Some) (auto simp: n_def)
    have ce: "nat c + (nat e - nat c) = nat e" using b by simp
    have "body = [] \<longleftrightarrow> n = 0" by (simp add: n_def)
    then show ?thesis
      using vpApply_windowed [OF True hb n_def a_def c_def e_def] hb b len split ce
      by (auto simp: n_def)
  qed
qed

lemma vpApply_offset:
  assumes "0 < rows" and "vpApply v lines rows reserve = Some (v', f)"
    and "n = int (length (snd (stickyHead lines)))"
    and "a = availLines rows reserve (int (length (fst (stickyHead lines)))) n"
  shows "vp_offset v' = max 0 (min (vp_offset v) (n - a))" and "vp_shown v' = a"
    and "vp_total v' = n" and "f_more f = n - min (vp_offset v' + a) n"
    and "f_head f = fst (stickyHead lines)"
    and "int (length (f_body f)) = min (vp_offset v' + a) n - vp_offset v'"
proof -
  obtain head body where hb: "stickyHead lines = (head, body)" by (cases "stickyHead lines")
  define c where "c = clampOffset (vp_offset v) n a"
  define e where "e = min (c + a) n"
  have a: "1 \<le> a" using assms(4) availLines_pos by simp
  have b: "0 \<le> c" "c \<le> e" "e \<le> n" using a assms(3) by (simp_all add: c_def e_def clampOffset_def)
  have eq: "v' = v\<lparr>vp_offset := c, vp_total := n, vp_shown := a\<rparr>"
    "f = \<lparr>f_head = head, f_body = take (nat (e - c)) (drop (nat c) body), f_more = n - e,
           f_first = (if n > 0 then c + 1 else 0), f_last = (if n > 0 then e else 0)\<rparr>"
    using assms vpApply_windowed [OF assms(1) hb, of n a reserve c v e] hb
    by (simp_all add: c_def e_def)
  have "int (length (take (nat (e - c)) (drop (nat c) body))) = e - c"
    using b assms(3) hb by simp
  then have "int (length (f_body f)) = e - c" by (simp only: eq frame.simps)
  moreover have "vp_offset v' = c" "f_more f = n - e" by (simp_all add: eq)
  ultimately show "int (length (f_body f)) = min (vp_offset v' + a) n - vp_offset v'"
    "f_more f = n - min (vp_offset v' + a) n" "vp_offset v' = max 0 (min (vp_offset v) (n - a))"
    by (simp_all only: e_def c_def clampOffset_def)
  show "vp_shown v' = a" "vp_total v' = n" "f_head f = fst (stickyHead lines)"
    using hb by (simp_all add: eq)
qed

lemma vpApply_fits:
  assumes "reserve + int (length (fst (stickyHead lines))) + 2 \<le> rows" and "0 \<le> reserve"
    and "vpApply v lines rows reserve = Some (v', f)"
  shows "int (length (f_head f)) + int (length (f_body f))
           + (if 0 < f_more f then 1 else 0) + reserve \<le> rows"
proof -
  define h where "h = int (length (fst (stickyHead lines)))"
  define n where "n = int (length (snd (stickyHead lines)))"
  define a where "a = availLines rows reserve h n"
  have rows: "0 < rows" using assms(1,2) by linarith
  have a: "a = (if n > rows - reserve - h then rows - reserve - h - 1 else rows - reserve - h)"
    using assms(1) by (simp add: a_def h_def availLines_def Let_def)
  note w = vpApply_offset [OF rows assms(3) n_def a_def [unfolded h_def]]
  have len: "int (length (f_body f)) \<le> a" using w(6) by linarith
  show ?thesis
  proof (cases "n > rows - reserve - h")
    case True
    then show ?thesis using a len w(5) by (simp add: h_def)
  next
    case False
    then have "vp_offset v' = 0" "a = rows - reserve - h" using a w(1) by simp_all
    then have "f_more f = 0" using False w(4) by simp
    then show ?thesis using len a False w(5) by (simp add: h_def)
  qed
qed

text \<open>
  On a terminal with room for the status line, the head, one body line and the marker, what
  is painted fits: head, window, marker and the reserved lines together never exceed the rows.
\<close>

lemma vpApply_fits_terminal:
  assumes "reserve + int (length (fst (stickyHead lines))) + 2 \<le> rows" and "0 \<le> reserve"
    and "vpApply v lines rows reserve = Some (v', f)"
  shows "int (length (f_head f)) + int (length (f_body f))
           + (if 0 < f_more f then 1 else 0) + reserve \<le> rows"
  using vpApply_fits [OF assms] .

lemma vpApply_fits_terminal_witness:
  "\<exists>v' f. vpApply emptyViewport [''a'', ''b'', ''c'', ''d'', ''e''] 5 2 = Some (v', f)
     \<and> int (length (f_head f)) + int (length (f_body f))
         + (if 0 < f_more f then 1 else 0) + 2 \<le> 5"
proof -
  let ?ls = "[''a'', ''b'', ''c'', ''d'', ''e'']"
  obtain v' f where r: "vpApply emptyViewport ?ls 5 2 = Some (v', f)"
    using vpApply_shows_a_window_total by blast
  have "int (length (f_head f)) + int (length (f_body f)) + (if 0 < f_more f then 1 else 0) + 2 \<le> 5"
    by (rule vpApply_fits_terminal [OF _ _ r]) (simp_all add: stickyHead_def hasPrefix_def)
  with r show ?thesis by blast
qed

section \<open>Scrolling\<close>

text \<open>Pressing the page key \<open>k\<close> times, with a paint after each press.\<close>

fun pressPage :: "nat \<Rightarrow> viewport \<Rightarrow> gostring list \<Rightarrow> int \<Rightarrow> int \<Rightarrow> (viewport \<times> frame) option" where
  "pressPage 0 v lines rows reserve = vpApply v lines rows reserve"
| "pressPage (Suc k) v lines rows reserve =
     (case pressPage k v lines rows reserve of
        None \<Rightarrow> None
      | Some (v', _) \<Rightarrow> vpApply (vpScroll v' (vpPage v')) lines rows reserve)"

lemma vpPage_bounds: "1 \<le> vp_shown v \<Longrightarrow> 1 \<le> vpPage v \<and> vpPage v \<le> vp_shown v"
  by (simp add: vpPage_def)

lemma vpScroll_offset: "vp_offset (vpScroll v n) = max 0 (vp_offset v + n)"
  by (simp add: vpScroll_def Let_def)

lemma pressPage_offset:
  assumes "0 < rows" and "0 \<le> vp_offset v"
    and "n = int (length (snd (stickyHead lines)))"
    and "a = availLines rows reserve (int (length (fst (stickyHead lines)))) n"
  shows "\<exists>v' f. pressPage k v lines rows reserve = Some (v', f)
     \<and> min (int k) (n - a) \<le> vp_offset v' \<and> 0 \<le> vp_offset v'
     \<and> vp_shown v' = a \<and> f_more f = n - min (vp_offset v' + a) n"
proof (induction k)
  case 0
  obtain v' f where r: "vpApply v lines rows reserve = Some (v', f)"
    using vpApply_shows_a_window_total by blast
  note w = vpApply_offset [OF assms(1) r assms(3,4)]
  have "min (int 0) (n - a) \<le> vp_offset v'" "0 \<le> vp_offset v'" using w(1) by linarith+
  then show ?case using r w(2,4) by auto
next
  case (Suc k)
  then obtain v1 f1 where p: "pressPage k v lines rows reserve = Some (v1, f1)"
    and b: "min (int k) (n - a) \<le> vp_offset v1" "0 \<le> vp_offset v1" "vp_shown v1 = a" by auto
  obtain v2 f2 where r: "vpApply (vpScroll v1 (vpPage v1)) lines rows reserve = Some (v2, f2)"
    using vpApply_shows_a_window_total by blast
  have "1 \<le> vpPage v1" using b(3) vpPage_bounds availLines_pos assms(4) by simp
  moreover note w = vpApply_offset [OF assms(1) r assms(3,4)]
  ultimately have "min (int (Suc k)) (n - a) \<le> vp_offset v2" "0 \<le> vp_offset v2"
    using b w(1) vpScroll_offset [of v1 "vpPage v1"] by linarith+
  then show ?case using p r w(2,4) by auto
qed

text \<open>
  The page key gets to the end of any frame: after as many presses as the body has lines,
  nothing is left below the window.
\<close>

lemma pressPage_reaches_end:
  assumes "0 < rows" and "0 \<le> vp_offset v" and "length (snd (stickyHead lines)) \<le> k"
  shows "\<exists>v' f. pressPage k v lines rows reserve = Some (v', f) \<and> f_more f = 0"
  using pressPage_offset [OF assms(1,2) refl refl, of k lines reserve] assms(3)
    availLines_pos [of rows reserve "int (length (fst (stickyHead lines)))"
      "int (length (snd (stickyHead lines)))"]
  by (auto simp: min_def split: if_splits)

lemma pressPage_reaches_end_witness:
  "\<exists>v' f. pressPage 3 emptyViewport [''a'', ''b'', ''c''] 4 2 = Some (v', f) \<and> f_more f = 0"
  by (rule pressPage_reaches_end) (simp_all add: emptyViewport_def stickyHead_def)

text \<open>
  A page overlaps the one before it: the first line shown after the page key is at most one
  past the last line shown before, so no line is skipped, and the window has moved on unless
  it was already at the end.
\<close>

lemma page_skips_no_line:
  assumes "0 < rows" and "vpApply v lines rows reserve = Some (v1, f1)"
    and "vpApply (vpScroll v1 (vpPage v1)) lines rows reserve = Some (v2, f2)"
  shows "vp_offset v2 \<le> vp_offset v1 + vp_shown v1
    \<and> (0 < f_more f1 \<longrightarrow> vp_offset v1 < vp_offset v2)"
proof -
  note w1 = vpApply_offset [OF assms(1,2) refl refl]
  note w2 = vpApply_offset [OF assms(1,3) refl refl]
  have a1: "1 \<le> vp_shown v1" using w1(2) availLines_pos by simp
  have off: "0 \<le> vp_offset v1" using w1(1) by linarith
  have o2: "vp_offset v2 =
      max 0 (min (max 0 (vp_offset v1 + vpPage v1)) (vp_total v1 - vp_shown v1))"
    using w2(1) w1(2,3) by (simp add: vpScroll_offset)
  have m1: "f_more f1 = vp_total v1 - min (vp_offset v1 + vp_shown v1) (vp_total v1)"
    using w1(2-4) by simp
  have pg: "1 \<le> vpPage v1" "vpPage v1 \<le> vp_shown v1" using vpPage_bounds a1 by blast+
  have "vp_offset v2 \<le> vp_offset v1 + vp_shown v1" using o2 pg off by linarith
  moreover have "vp_offset v1 < vp_offset v2" if "0 < f_more f1"
    using that o2 pg off m1 by linarith
  ultimately show ?thesis by blast
qed

lemma page_skips_no_line_witness:
  "\<exists>v1 f1 v2 f2. vpApply emptyViewport [''a'', ''b'', ''c''] 4 2 = Some (v1, f1)
     \<and> vpApply (vpScroll v1 (vpPage v1)) [''a'', ''b'', ''c''] 4 2 = Some (v2, f2)
     \<and> vp_offset v2 \<le> vp_offset v1 + vp_shown v1"
proof -
  obtain v1 f1 where r1: "vpApply emptyViewport [''a'', ''b'', ''c''] 4 2 = Some (v1, f1)"
    using vpApply_shows_a_window_total by blast
  obtain v2 f2 where r2: "vpApply (vpScroll v1 (vpPage v1)) [''a'', ''b'', ''c''] 4 2 = Some (v2, f2)"
    using vpApply_shows_a_window_total by blast
  from page_skips_no_line [OF _ r1 r2] r1 r2 show ?thesis by auto
qed

end
