(* ===== verification/Watch_Errors.thy ===== *)
theory Watch_Errors
  imports Go_Strings
begin

text \<open>
  \<^verbatim>\<open>src/internal/watch/errors.go\<close>: how the watch loop tells a failure worth riding out from one
  that must end it. A Go error is a tree: a node with a message, what the code can observe of its
  type, and the errors it unwraps to. \<^verbatim>\<open>errors.As\<close> and \<^verbatim>\<open>errors.Is\<close> are a pre-order search of that
  tree. \<^verbatim>\<open>ErrUnableToReauthenticate\<close> of gophercloud does not unwrap, so the error Keystone gave is
  a field of its class and not one of the children.
\<close>

section \<open>Errors as values\<close>

datatype sentinel =
    ECONNRESET | ECONNABORTED | EPIPE | ECONNREFUSED | EOF | ErrUnexpectedEOF | ErrClosed
  | Canceled | DeadlineExceeded

text \<open>
  \<open>GoErr class message timeout wrapped\<close>: \<open>timeout\<close> is \<^const>\<open>None\<close> when the type does not implement
  \<^verbatim>\<open>net.Error\<close> and otherwise what its \<^verbatim>\<open>Timeout\<close> method answers.
\<close>

datatype go_err = GoErr err_class gostring "bool option" "go_err list"
and err_class =
    ErrUnableToReauthenticate go_err
  | ErrUnexpectedResponseCode int
  | APIError int
  | Sentinel sentinel
  | OtherErr

fun errClass :: "go_err \<Rightarrow> err_class" where
  "errClass (GoErr c m t ws) = c"

fun errText :: "go_err \<Rightarrow> gostring" where
  "errText (GoErr c m t ws) = m"

fun errTimeout :: "go_err \<Rightarrow> bool option" where
  "errTimeout (GoErr c m t ws) = t"

text \<open>\<^verbatim>\<open>errors.As\<close>: the first node, in pre-order, that the target accepts.\<close>

fun asErr :: "(go_err \<Rightarrow> 'a option) \<Rightarrow> go_err \<Rightarrow> 'a option"
  and asErrs :: "(go_err \<Rightarrow> 'a option) \<Rightarrow> go_err list \<Rightarrow> 'a option" where
  "asErr p (GoErr c m t ws) =
     (case p (GoErr c m t ws) of Some x \<Rightarrow> Some x | None \<Rightarrow> asErrs p ws)"
| "asErrs p [] = None"
| "asErrs p (w # ws) = (case asErr p w of Some x \<Rightarrow> Some x | None \<Rightarrow> asErrs p ws)"

definition isErr :: "go_err \<Rightarrow> sentinel \<Rightarrow> bool" where
  "isErr e s \<longleftrightarrow> asErr (\<lambda>n. if errClass n = Sentinel s then Some () else None) e \<noteq> None"

section \<open>Classification\<close>

definition reauthFailure :: "go_err \<Rightarrow> go_err option" where
  "reauthFailure e =
     asErr (\<lambda>n. case errClass n of ErrUnableToReauthenticate r \<Rightarrow> Some r | _ \<Rightarrow> None) e"

definition httpStatus :: "go_err \<Rightarrow> int option" where
  "httpStatus e =
     (case asErr (\<lambda>n. case errClass n of ErrUnexpectedResponseCode a \<Rightarrow> Some a | _ \<Rightarrow> None) e of
        Some code \<Rightarrow> Some code
      | None \<Rightarrow> asErr (\<lambda>n. case errClass n of APIError a \<Rightarrow> Some a | _ \<Rightarrow> None) e)"

lemma asErr_size:
  fixes p :: "go_err \<Rightarrow> go_err option"
  shows asErr_size_node: "(\<And>n r. p n = Some r \<Longrightarrow> size r < size n) \<Longrightarrow> asErr p e = Some r \<Longrightarrow> size r < size e"
    and asErrs_size: "(\<And>n r. p n = Some r \<Longrightarrow> size r < size n) \<Longrightarrow> asErrs p ws = Some r \<Longrightarrow>
      size r < size_list size ws"
proof (induction p e and p ws rule: asErr_asErrs.induct)
  case (1 p c m t ws)
  show ?case
  proof (cases "p (GoErr c m t ws)")
    case None
    then show ?thesis using 1 by fastforce
  next
    case (Some x)
    then show ?thesis using 1(2) [of "GoErr c m t ws"] 1(3) by simp
  qed
next
  case (3 p w ws)
  then show ?case by (cases "asErr p w") force+
qed simp

lemma reauthFailure_size: "reauthFailure e = Some r \<Longrightarrow> size r < size e"
  unfolding reauthFailure_def
proof (erule asErr_size_node [rotated])
  fix n r
  assume "(case errClass n of ErrUnableToReauthenticate r \<Rightarrow> Some r | _ \<Rightarrow> None) = Some r"
  then show "size r < size n" by (cases n) (auto split: err_class.splits)
qed

text \<open>\<^verbatim>\<open>errors.As\<close> into a \<^verbatim>\<open>net.Error\<close> finds the first node implementing it; only that one is asked.\<close>

function isTransient :: "go_err \<Rightarrow> bool" where
  "isTransient e =
     (case reauthFailure e of
        Some r \<Rightarrow> isTransient r
      | None \<Rightarrow>
          (case httpStatus e of
             Some code \<Rightarrow> code \<ge> 500 \<or> code = 408 \<or> code = 429
           | None \<Rightarrow>
               asErr errTimeout e = Some True
               \<or> isErr e ECONNRESET \<or> isErr e ECONNABORTED
               \<or> isErr e EPIPE \<or> isErr e ECONNREFUSED
               \<or> isErr e EOF \<or> isErr e ErrUnexpectedEOF
               \<or> isErr e ErrClosed))"
  by pat_completeness auto
termination by (relation "measure size") (simp_all add: reauthFailure_size)

declare isTransient.simps [simp del]

definition isAuthFailure :: "go_err \<Rightarrow> bool" where
  "isAuthFailure e =
     (case reauthFailure e of
        Some r \<Rightarrow> \<not> isTransient r
      | None \<Rightarrow>
          (case httpStatus e of
             None \<Rightarrow> False
           | Some code \<Rightarrow> code = 401 \<or> code = 403))"

section \<open>The two verdicts exclude each other, and wrapping does not change them\<close>

text \<open>\<^verbatim>\<open>fmt.Errorf("...: %w", err)\<close>: a node of no class of its own around one error.\<close>

definition wrapErr :: "gostring \<Rightarrow> go_err \<Rightarrow> go_err" where
  "wrapErr prefix e = GoErr OtherErr (prefix @ errText e) None [e]"

lemma asErr_wrapErr:
  "(\<And>n. errClass n = OtherErr \<Longrightarrow> errTimeout n = None \<Longrightarrow> p n = None) \<Longrightarrow>
     asErr p (wrapErr prefix e) = asErr p e"
  by (cases e) (simp add: wrapErr_def split: option.split)

lemma reauthFailure_wrapErr [simp]: "reauthFailure (wrapErr m e) = reauthFailure e"
  unfolding reauthFailure_def by (rule asErr_wrapErr) simp

lemma isErr_wrapErr [simp]: "isErr (wrapErr m e) s = isErr e s"
  unfolding isErr_def by (subst asErr_wrapErr) simp_all

lemma httpStatus_wrapErr [simp]: "httpStatus (wrapErr m e) = httpStatus e"
  unfolding httpStatus_def by (subst (1 2) asErr_wrapErr) simp_all

lemma isTransient_wrapErr [simp]: "isTransient (wrapErr m e) = isTransient e"
  by (subst (1 2) isTransient.simps) (simp add: asErr_wrapErr split: option.split)

lemma isAuthFailure_wrapErr [simp]: "isAuthFailure (wrapErr m e) = isAuthFailure e"
  by (simp add: isAuthFailure_def split: option.split)

lemma auth_not_transient: "isAuthFailure e \<Longrightarrow> \<not> isTransient e"
  by (subst isTransient.simps)
    (auto simp: isAuthFailure_def split: option.splits)

text \<open>How deep the chain of failed re-authentications goes, and the error at its end.\<close>

function rootCause :: "go_err \<Rightarrow> go_err" where
  "rootCause e = (case reauthFailure e of Some r \<Rightarrow> rootCause r | None \<Rightarrow> e)"
  by pat_completeness auto
termination by (relation "measure size") (simp_all add: reauthFailure_size)

declare rootCause.simps [simp del]

lemma rootCause_no_reauth: "reauthFailure (rootCause e) = None"
  by (induction e rule: rootCause.induct) (subst rootCause.simps, auto split: option.splits)

lemma isTransient_rootCause: "isTransient e = isTransient (rootCause e)"
proof (induction e rule: rootCause.induct)
  case (1 e)
  then show ?case
    by (subst isTransient.simps, subst rootCause.simps) (auto split: option.splits simp: isTransient.simps [of e])
qed

text \<open>
  The two classifications of a refresh failure never overlap and do not depend on how often
  the error was wrapped on its way up: no error is both a rejected credential and transient, both
  verdicts are those of the unwrapped error, and a failed re-authentication is transient exactly
  when the error at the end of the chain of re-authentications is.
\<close>

lemma failure_verdicts_are_consistent:
  "\<not> (isAuthFailure e \<and> isTransient e)
   \<and> isAuthFailure (wrapErr m e) = isAuthFailure e
   \<and> isTransient (wrapErr m e) = isTransient e
   \<and> isTransient e = isTransient (rootCause e)
   \<and> reauthFailure (rootCause e) = None
   \<and> isAuthFailure (GoErr (ErrUnableToReauthenticate e) m t ws) = (\<not> isTransient (rootCause e))"
proof -
  have "isAuthFailure (GoErr (ErrUnableToReauthenticate e) m t ws) = (\<not> isTransient e)"
    by (simp add: isAuthFailure_def reauthFailure_def)
  then show ?thesis
    using auth_not_transient isTransient_rootCause [of e] rootCause_no_reauth by auto
qed

end
