(* ===== verification/Watch_Screen.thy ===== *)
theory Watch_Screen
  imports Watch_Viewport Watch_Errors
begin

text \<open>
  \<^verbatim>\<open>src/internal/watch/screen.go\<close>: the painter. A \<open>screen\<close> holds the last good frame and the mode
  it is painted in; everything the code writes to \<^verbatim>\<open>s.out\<close> is appended to the field \<open>s_out\<close>. The
  size of the terminal is an argument of the operations that ask for it. The lemmas give the
  shape of a repaint (which lines, how many, in one write), the one header of an appended CSV
  stream, and that leaving the screen undoes what entering it did.
\<close>

section \<open>Literals\<close>

definition ellipsis :: rune where
  "ellipsis = [CHR 0xE2, CHR 0x80, CHR 0xA6]"

definition emDash :: rune where
  "emDash = [CHR 0xE2, CHR 0x80, CHR 0x94]"

definition arrowDown :: rune where
  "arrowDown = [CHR 0xE2, CHR 0x86, CHR 0x93]"

definition ESCs :: gostring where
  "ESCs = [CHR 0x1B]"

definition altScreenOn :: gostring where "altScreenOn = ESCs @ ''[?1049h''"
definition altScreenOff :: gostring where "altScreenOff = ESCs @ ''[?1049l''"
definition cursorHide :: gostring where "cursorHide = ESCs @ ''[?25l''"
definition cursorShow :: gostring where "cursorShow = ESCs @ ''[?25h''"
definition homeErase :: gostring where "homeErase = ESCs @ ''[H'' @ ESCs @ ''[0J''"
definition faint :: gostring where "faint = ESCs @ ''[2m''"
definition resetStyle :: gostring where "resetStyle = ESCs @ ''[0m''"

lemmas screen_literals = ESCs_def altScreenOn_def altScreenOff_def cursorHide_def cursorShow_def
  homeErase_def faint_def resetStyle_def ellipsis_def emDash_def arrowDown_def

definition newline :: char where
  "newline = CHR 0x0A"

definition crlf :: gostring where
  "crlf = [CHR 0x0D, CHR 0x0A]"

section \<open>State\<close>

record screen =
  s_plain :: bool
  s_keys :: bool
  s_csvOne :: bool
  s_body :: gostring
  s_warn :: gostring
  s_latency :: duration
  s_rows :: nat
  s_pending :: bool
  s_csvHeader :: gostring
  s_wroteAny :: bool
  s_stale :: "go_err option"
  s_out :: gostring

definition newScreen :: "bool \<Rightarrow> bool \<Rightarrow> bool \<Rightarrow> screen" where
  "newScreen plain keys csvHeaderOnce =
     \<lparr>s_plain = plain, s_keys = keys, s_csvOne = csvHeaderOnce, s_body = [], s_warn = [],
      s_latency = 0, s_rows = 0, s_pending = False, s_csvHeader = [], s_wroteAny = False,
      s_stale = None, s_out = []\<rparr>"

definition writeOut :: "gostring \<Rightarrow> screen \<Rightarrow> screen" where
  "writeOut bs s = s\<lparr>s_out := s_out s @ bs\<rparr>"

section \<open>Claiming the terminal and giving it back\<close>

text \<open>
  The terminal's input mode beside the screen: \<open>enter\<close> takes what \<^verbatim>\<open>rawFn\<close> answers (whether raw
  mode was granted) and returns the steps the deferred restore function will take.
\<close>

datatype restoreFn = RestoreNothing | RestoreScreen bool

definition enter :: "bool \<Rightarrow> bool \<times> screen \<Rightarrow> (bool \<times> screen) \<times> restoreFn" where
  "enter rawGranted st =
     (let (raw, s) = st in
      if s_plain s then ((raw, s), RestoreNothing)
      else
        (let (raw, s, restoreRaw) =
           (if s_keys s
            then (if rawGranted then (True, s, True) else (raw, s\<lparr>s_keys := False\<rparr>, False))
            else (raw, s, False))
         in ((raw, writeOut (altScreenOn @ cursorHide) s), RestoreScreen restoreRaw)))"

definition restore :: "restoreFn \<Rightarrow> bool \<times> screen \<Rightarrow> bool \<times> screen" where
  "restore fn st =
     (case fn of
        RestoreNothing \<Rightarrow> st
      | RestoreScreen restoreRaw \<Rightarrow>
          (let (raw, s) = st; raw = (if restoreRaw then False else raw)
           in (raw, writeOut (cursorShow @ altScreenOff) s)))"

section \<open>Accepting and rejecting frames\<close>

definition accept :: "gostring \<Rightarrow> gostring \<Rightarrow> duration \<Rightarrow> nat \<Rightarrow> screen \<Rightarrow> screen" where
  "accept body warn latency rows s =
     s\<lparr>s_body := body, s_warn := warn, s_latency := latency, s_rows := rows, s_stale := None,
       s_pending := True\<rparr>"

definition reject :: "go_err \<Rightarrow> screen \<Rightarrow> screen" where
  "reject e s = s\<lparr>s_stale := Some e\<rparr>"

section \<open>Appending frames\<close>

definition stripRepeatHeader :: "gostring \<Rightarrow> screen \<Rightarrow> gostring \<times> screen" where
  "stripRepeatHeader body s =
     (let (line, rest, found) = cut body newline in
      if \<not> found then (body, s)
      else if \<not> s_wroteAny s then (body, s\<lparr>s_csvHeader := line\<rparr>)
      else if line = s_csvHeader s then (rest, s)
      else (body, s))"

definition appendFrame :: "screen \<Rightarrow> screen" where
  "appendFrame s =
     (if \<not> s_pending s then s
      else
        (let s = s\<lparr>s_pending := False\<rparr>;
             (body, s) = (if s_csvOne s then stripRepeatHeader (s_body s) s else (s_body s, s));
             s = writeOut body s;
             s = writeOut (s_warn s) s
         in s\<lparr>s_wroteAny := True\<rparr>))"

section \<open>Repainting\<close>

definition moreMarker :: "int \<Rightarrow> gostring" where
  "moreMarker n =
     ellipsis @ '' '' @ itoa n @ '' more line(s) below '' @ emDash @ '' '' @ arrowDown
     @ ''/j PgDn G to scroll, ? for keys''"

text \<open>\<open>truncate\<close> slices only within bounds, so the panicking branches of the slices do not arise.\<close>

definition truncate :: "gostring \<Rightarrow> int \<Rightarrow> gostring" where
  "truncate s cols =
     (if cols \<le> 0 then s
      else
        (let r = runes s in
         if int (length r) \<le> cols then s
         else if cols \<le> 1 then concat (take (nat cols) r)
         else concat (take (nat (cols - 1)) r) @ ellipsis))"

definition repaintBytes :: "int \<Rightarrow> gostring \<Rightarrow> frame \<Rightarrow> gostring" where
  "repaintBytes cols status f =
     homeErase
     @ concat (map (\<lambda>ln. ln @ crlf) (f_head f))
     @ concat (map (\<lambda>ln. ln @ crlf) (f_body f))
     @ (if f_more f > 0
        then faint @ truncate (moreMarker (f_more f)) cols @ resetStyle @ crlf else [])
     @ (if status \<noteq> []
        then crlf @ faint @ truncate status cols @ resetStyle else [])"

definition repaint :: "int \<Rightarrow> gostring \<Rightarrow> frame \<Rightarrow> bool \<Rightarrow> screen \<Rightarrow> screen" where
  "repaint cols status f hadOverlay s =
     (let s = writeOut (repaintBytes cols status f) s
      in s\<lparr>s_pending := hadOverlay \<and> s_pending s\<rparr>)"

definition screenPaint :: "int \<Rightarrow> gostring \<Rightarrow> frame \<Rightarrow> bool \<Rightarrow> screen \<Rightarrow> screen" where
  "screenPaint cols status f hadOverlay s =
     (if s_plain s then appendFrame s else repaint cols status f hadOverlay s)"

section \<open>Lines of a frame\<close>

definition splitLines :: "gostring \<Rightarrow> gostring list" where
  "splitLines b =
     (let s = trimRightByte b newline in if s = [] then [] else splitOn newline s)"

definition frameLines :: "gostring \<Rightarrow> gostring \<Rightarrow> gostring list" where
  "frameLines body warn =
     (let lines = splitLines body; w = splitLines warn
      in if length w > 0 then lines @ [[]] @ w else lines)"

section \<open>Widths and lines\<close>

lemma isRune_literals [simp, utf8_simps]: "isRune ellipsis" "isRune emDash" "isRune arrowDown"
  by (simp_all add: screen_literals isRune_def byte_def acceptRange_def isCont_def)

lemma runes_take_append_rune:
  "isRune r \<Longrightarrow> runes (concat (take n (runes s)) @ r) = take n (runes s) @ [r]"
proof -
  assume r: "isRune r"
  have "runes (concat (take n (runes s) @ [r])) = take n (runes s) @ [r]"
    by (rule runes_concat) (use r in \<open>auto simp: list_all_iff dest: in_set_takeD runes_isRune\<close>)
  then show ?thesis by simp
qed

lemma runeCount_truncate:
  assumes "0 < cols"
  shows "int (runeCount (truncate s cols)) \<le> cols"
proof -
  have "runes (concat (take k (runes s))) = take k (runes s)" for k
    by (rule runes_sub [of _ s]) (rule set_take_subset)
  then show ?thesis
    using assms by (auto simp: truncate_def runeCount_def Let_def runes_take_append_rune min_def)
qed

lemma runes_bytes: "set (concat (runes s)) \<subseteq> set s \<union> set runeError"
proof (induction s rule: runes.induct)
  case (2 c cs)
  let ?n = "decodeRuneSize (c # cs)"
  have sub: "set (concat (runes (drop ?n (c # cs)))) \<subseteq> set (c # cs) \<union> set runeError"
    using 2 [OF refl] set_drop_subset [of ?n "c # cs"] by blast
  have "set (take ?n (c # cs)) \<subseteq> set (c # cs)" by (rule set_take_subset)
  with sub show ?case
    by (subst runes.simps) (auto simp: Let_def simp del: decodeRuneSize.simps drop.simps take.simps)
qed simp

lemma newline_literals [simp]:
  "newline \<notin> set runeError" "newline \<notin> set ellipsis" "newline \<notin> set emDash"
  "newline \<notin> set arrowDown" "newline \<notin> set faint" "newline \<notin> set resetStyle"
  "newline \<notin> set homeErase"
  by (simp_all add: screen_literals newline_def runeError_def)

lemma truncate_newline [simp]: "newline \<notin> set s \<Longrightarrow> newline \<notin> set (truncate s cols)"
proof -
  assume n: "newline \<notin> set s"
  have "newline \<notin> set (concat (runes s))"
    using n runes_bytes [of s] newline_literals(1) by blast
  then have "newline \<notin> set (concat (take k (runes s)))" for k
    using set_take_subset [of k "runes s"] by auto
  then show ?thesis using n by (simp add: truncate_def Let_def)
qed

lemma natDigits_newline [simp]: "newline \<notin> set (natDigits n)"
  using natDigits_chars [of newline n] by (auto simp: newline_def byte_def)

lemma itoa_newline [simp]: "newline \<notin> set (itoa i)"
proof -
  have "CHR ''-'' \<noteq> newline" by (simp add: newline_def)
  then show ?thesis by (simp add: itoa_def)
qed

lemma moreMarker_newline [simp]: "newline \<notin> set (moreMarker n)"
  by (simp add: moreMarker_def) (simp add: newline_def)

text \<open>How many times a write moves to the next line.\<close>

definition newlines :: "gostring \<Rightarrow> nat" where
  "newlines s = length (filter (\<lambda>c. c = newline) s)"

lemma newlines_append [simp]: "newlines (s @ t) = newlines s + newlines t"
  by (simp add: newlines_def)

lemma newlines_none [simp]: "newline \<notin> set s \<Longrightarrow> newlines s = 0"
  by (auto simp: newlines_def filter_empty_conv)

lemma newlines_crlf [simp]: "newlines crlf = 1"
  by (simp add: newlines_def crlf_def newline_def)

lemma newlines_Nil [simp]: "newlines [] = 0"
  by (simp add: newlines_def)

lemma newlines_lines:
  "(\<And>l. l \<in> set ls \<Longrightarrow> newline \<notin> set l) \<Longrightarrow> newlines (concat (map (\<lambda>ln. ln @ crlf) ls)) = length ls"
  by (induction ls) simp_all

lemma newlines_repaintBytes:
  assumes "\<And>l. l \<in> set (f_head f) \<union> set (f_body f) \<Longrightarrow> newline \<notin> set l"
    and "newline \<notin> set status"
  shows "newlines (repaintBytes cols status f) =
    length (f_head f) + length (f_body f) + (if 0 < f_more f then 1 else 0)
    + (if status \<noteq> [] then 1 else 0)"
  using assms by (simp add: repaintBytes_def newlines_lines)

lemma splitLines_newline: "l \<in> set (splitLines b) \<Longrightarrow> newline \<notin> set l"
  by (auto simp: splitLines_def Let_def dest: splitOn_fields split: if_splits)

lemma frameLines_newline: "l \<in> set (frameLines b w) \<Longrightarrow> newline \<notin> set l"
  by (auto simp: frameLines_def Let_def dest: splitLines_newline split: if_splits)

section \<open>A stream of CSV frames has one header\<close>

definition showFrame :: "gostring \<times> gostring \<times> duration \<times> nat \<Rightarrow> screen \<Rightarrow> screen" where
  "showFrame fr s =
     (case fr of (body, warn, latency, rows) \<Rightarrow> appendFrame (accept body warn latency rows s))"

lemma cut_line: "newline \<notin> set h \<Longrightarrow> cut (h @ newline # rest) newline = (h, rest, True)"
proof -
  assume h: "newline \<notin> set h"
  then have "takeWhile (\<lambda>x. x \<noteq> newline) (h @ newline # rest) = h"
    and "dropWhile (\<lambda>x. x \<noteq> newline) (h @ newline # rest) = newline # rest"
    by (auto simp: takeWhile_append dropWhile_append)
  then show ?thesis by (simp add: cut_def)
qed

lemma showFrame_later:
  assumes "newline \<notin> set h" and "s_csvOne s" and "s_wroteAny s" and "s_csvHeader s = h"
  shows "s_out (showFrame (h @ newline # rest, warn, l, n) s) = s_out s @ rest @ warn
    \<and> s_csvOne (showFrame (h @ newline # rest, warn, l, n) s)
    \<and> s_wroteAny (showFrame (h @ newline # rest, warn, l, n) s)
    \<and> s_csvHeader (showFrame (h @ newline # rest, warn, l, n) s) = h"
  using assms
  by (simp add: showFrame_def appendFrame_def accept_def stripRepeatHeader_def cut_line writeOut_def)

lemma showFrame_first:
  assumes "newline \<notin> set h" and "s_csvOne s" and "\<not> s_wroteAny s"
  shows "s_out (showFrame (h @ newline # rest, warn, l, n) s) = s_out s @ h @ newline # rest @ warn
    \<and> s_csvOne (showFrame (h @ newline # rest, warn, l, n) s)
    \<and> s_wroteAny (showFrame (h @ newline # rest, warn, l, n) s)
    \<and> s_csvHeader (showFrame (h @ newline # rest, warn, l, n) s) = h"
  using assms
  by (simp add: showFrame_def appendFrame_def accept_def stripRepeatHeader_def cut_line writeOut_def)

lemma showFrames_later:
  assumes "newline \<notin> set h" and "s_csvOne s" and "s_wroteAny s" and "s_csvHeader s = h"
  shows "s_out (fold showFrame (map (\<lambda>(rest, warn, l, n). (h @ newline # rest, warn, l, n)) frs) s)
    = s_out s @ concat (map (\<lambda>(rest, warn, l, n). rest @ warn) frs)"
  using assms
proof (induction frs arbitrary: s)
  case (Cons fr frs)
  obtain rest warn l n where fr: "fr = (rest, warn, l, n)" by (cases fr)
  note one = showFrame_later [OF Cons.prems, of rest warn l n]
  show ?case
    using Cons.IH [of "showFrame (h @ newline # rest, warn, l, n) s"] one Cons.prems(1)
    by (simp add: fr)
qed simp

text \<open>
  Frames appended as CSV form one CSV document: when every frame starts with the same header
  line, the stream holds that header exactly once, followed by the records (and warnings) of every
  frame in order, nothing dropped and nothing added.
\<close>

lemma csv_stream_has_one_header:
  assumes "newline \<notin> set header" and "records \<noteq> []"
  shows "s_out (fold showFrame
            (map (\<lambda>(rest, warn, latency, rows). (header @ newline # rest, warn, latency, rows)) records)
            (newScreen True keys True))
         = header @ newline # concat (map (\<lambda>(rest, warn, latency, rows). rest @ warn) records)"
proof -
  obtain rest warn l n frs where r: "records = (rest, warn, l, n) # frs"
    using assms(2) by (cases records) auto
  let ?s = "newScreen True keys True"
  have "s_csvOne ?s" "\<not> s_wroteAny ?s" "s_out ?s = []" by (simp_all add: newScreen_def)
  note one = showFrame_first [OF assms(1) this(1,2), of rest warn l n]
  show ?thesis
    using showFrames_later [OF assms(1), of "showFrame (header @ newline # rest, warn, l, n) ?s" frs]
      one \<open>s_out ?s = []\<close> by (simp add: r)
qed

lemma csv_stream_has_one_header_witness:
  "s_out (fold showFrame
     (map (\<lambda>(rest, warn, latency, rows). (''ID,Name'' @ newline # rest, warn, latency, rows))
        [(''1,a'', [], 5, 1), (''2,b'', [], 7, 1)])
     (newScreen True False True)) = ''ID,Name'' @ newline # ''1,a2,b''"
proof -
  have "newline \<notin> set ''ID,Name''" by (simp add: newline_def)
  from csv_stream_has_one_header [OF this, of "[(''1,a'', [], 5, 1), (''2,b'', [], 7, 1)]" False]
  show ?thesis by simp
qed

section \<open>The terminal is given back\<close>

text \<open>What happens to the screen between claiming the terminal and giving it back.\<close>

lemma enter_restore:
  assumes "enter granted (False, s) = ((raw, s'), fn)" and "s_out s'' = s_out s' @ painted"
  shows "fst (restore fn (raw, s'')) = False
    \<and> s_out (snd (restore fn (raw, s''))) =
        (if s_plain s then s_out s @ painted
         else s_out s @ altScreenOn @ cursorHide @ painted @ cursorShow @ altScreenOff)"
  using assms by (auto simp: enter_def restore_def writeOut_def Let_def split: if_splits)

end
