(* ===== verification/Watch_Runner.thy ===== *)
theory Watch_Runner
  imports Watch_Keycode Watch_Diff Watch_Screen
begin

text \<open>
  The state of one watch and the handlers that work on it: \<^verbatim>\<open>Options\<close> and \<^verbatim>\<open>runner\<close> of
  \<^verbatim>\<open>src/internal/watch/watch.go\<close>, the status line of \<^verbatim>\<open>status.go\<close>, the key map of \<^verbatim>\<open>help.go\<close> and
  the key handlers of \<^verbatim>\<open>keys.go\<close>. What the handlers read from outside is an \<open>env\<close>: the clock, the
  same instant as the text \<^verbatim>\<open>15:04:05\<close>, and the size of the terminal; one handler sees one \<open>env\<close>.
\<close>

section \<open>State\<close>

definition ErrorsTolerate :: gostring where "ErrorsTolerate = ''tolerate''"
definition ErrorsExit :: gostring where "ErrorsExit = ''exit''"

definition MinInterval :: duration where "MinInterval = 250 * millisecond"
definition MaxInterval :: duration where "MaxInterval = hour"
definition DefaultInterval :: duration where "DefaultInterval = 2 * second"

lemmas interval_defs = MinInterval_def MaxInterval_def DefaultInterval_def duration_units

text \<open>\<open>o_keysOpen\<close> says whether the channel \<^verbatim>\<open>o.keys\<close> is one that can deliver (not nil).\<close>

record wopts =
  o_Interval :: duration
  o_Diff :: bool
  o_Count :: int
  o_ErrorMode :: gostring
  o_UntilChange :: bool
  o_Plain :: bool
  o_NoTitle :: bool
  o_Keys :: bool
  o_Title :: gostring
  o_CSVHeaderOnce :: bool
  o_keysOpen :: bool

record env =
  e_now :: int
  e_clock :: gostring
  e_cols :: int
  e_rows :: int

text \<open>
  \<open>r_ctxErr\<close> is what \<^verbatim>\<open>ctx.Err()\<close> of the loop's context answers once the loop itself cancelled it;
  \<open>r_errOut\<close> is what was written to \<^verbatim>\<open>errOut\<close>.
\<close>

record runner =
  r_o :: wopts
  r_differ :: differ
  r_screen :: screen
  r_interval :: duration
  r_frames :: nat
  r_attempts :: int
  r_errs :: int
  r_lastErr :: "go_err option"
  r_tickAt :: int
  r_lastOK :: "int option"
  r_view :: viewport
  r_helpView :: viewport
  r_lastFrame :: frame
  r_paused :: bool
  r_showHelp :: bool
  r_force :: bool
  r_skipped :: int
  r_deferred :: "keyCode list"
  r_ctxErr :: "go_err option"
  r_errOut :: gostring

definition applyDefaults :: "wopts \<Rightarrow> wopts" where
  "applyDefaults opts =
     (let opts = (if o_Plain opts then opts\<lparr>o_Keys := False\<rparr> else opts);
          opts = (if o_Interval opts \<le> 0 then opts\<lparr>o_Interval := DefaultInterval\<rparr> else opts)
      in if o_ErrorMode opts = [] then opts\<lparr>o_ErrorMode := ErrorsTolerate\<rparr> else opts)"

text \<open>The runner \<^verbatim>\<open>Run\<close> starts with; the argument is \<^verbatim>\<open>o.Differ\<close>, \<^const>\<open>None\<close> when it is nil.\<close>

definition newRunner :: "wopts \<Rightarrow> differ option \<Rightarrow> runner" where
  "newRunner opts d =
     \<lparr>r_o = opts,
      r_differ = (case d of Some d \<Rightarrow> d | None \<Rightarrow> NewDiffer (o_Diff opts \<and> \<not> o_Plain opts)),
      r_screen = newScreen (o_Plain opts) (o_Keys opts) (o_CSVHeaderOnce opts),
      r_interval = o_Interval opts, r_frames = 0, r_attempts = 0, r_errs = 0, r_lastErr = None,
      r_tickAt = 0, r_lastOK = None, r_view = emptyViewport, r_helpView = emptyViewport,
      r_lastFrame = emptyFrame, r_paused = False, r_showHelp = False, r_force = True,
      r_skipped = 0, r_deferred = [], r_ctxErr = None, r_errOut = []\<rparr>"

text \<open>A watch every two seconds on a terminal, and the terminal, for the examples below.\<close>

definition sampleOpts :: wopts where
  "sampleOpts =
     \<lparr>o_Interval = DefaultInterval, o_Diff = True, o_Count = 3, o_ErrorMode = ErrorsTolerate,
      o_UntilChange = False, o_Plain = False, o_NoTitle = False, o_Keys = True,
      o_Title = ''koc server list'', o_CSVHeaderOnce = False, o_keysOpen = True\<rparr>"

definition sampleEnv :: "int \<Rightarrow> env" where
  "sampleEnv t = \<lparr>e_now = t, e_clock = ''12:03:45'', e_cols = 80, e_rows = 24\<rparr>"

section \<open>The status line\<close>

definition middleDot :: gostring where
  "middleDot = [CHR 0xC2, CHR 0xB7]"

definition enDash :: gostring where
  "enDash = [CHR 0xE2, CHR 0x80, CHR 0x93]"

definition statusSep :: gostring where
  "statusSep = '' '' @ middleDot @ '' ''"

text \<open>
  \<^verbatim>\<open>strconv.FormatFloat(x, 'g', -1, 64)\<close> for a whole number of tenths of a second below a minute:
  the whole seconds, and the tenth when there is one.
\<close>

definition tenthsText :: "int \<Rightarrow> gostring" where
  "tenthsText t =
     (if t mod 10 = 0 then itoa (t div 10) else itoa (t div 10) @ ''.'' @ itoa (t mod 10))"

definition compactDuration :: "duration \<Rightarrow> gostring" where
  "compactDuration d0 =
     (let d = roundDuration d0 millisecond in
      if d < 0 then ''0ms''
      else if d < second then itoa (d div millisecond) @ ''ms''
      else if d < minute
      then tenthsText (roundDuration d (100 * millisecond) div (100 * millisecond)) @ ''s''
      else durationString (roundDuration d second))"

definition plural :: "int \<Rightarrow> gostring \<Rightarrow> gostring" where
  "plural n noun = (if n = 1 then ''1 '' @ noun else itoa n @ '' '' @ noun @ ''s'')"

text \<open>\<^verbatim>\<open>http.StatusText\<close>; a code it does not know is the empty text.\<close>

definition statusTable :: "(int \<times> gostring) list" where
  "statusTable =
        [(100, ''Continue''), (101, ''Switching Protocols''), (102, ''Processing''),
         (103, ''Early Hints''), (200, ''OK''), (201, ''Created''), (202, ''Accepted''),
         (203, ''Non-Authoritative Information''), (204, ''No Content''), (205, ''Reset Content''),
         (206, ''Partial Content''), (207, ''Multi-Status''), (208, ''Already Reported''),
         (226, ''IM Used''), (300, ''Multiple Choices''), (301, ''Moved Permanently''),
         (302, ''Found''), (303, ''See Other''), (304, ''Not Modified''), (305, ''Use Proxy''),
         (307, ''Temporary Redirect''), (308, ''Permanent Redirect''), (400, ''Bad Request''),
         (401, ''Unauthorized''), (402, ''Payment Required''), (403, ''Forbidden''),
         (404, ''Not Found''), (405, ''Method Not Allowed''), (406, ''Not Acceptable''),
         (407, ''Proxy Authentication Required''), (408, ''Request Timeout''), (409, ''Conflict''),
         (410, ''Gone''), (411, ''Length Required''), (412, ''Precondition Failed''),
         (413, ''Request Entity Too Large''), (414, ''Request URI Too Long''),
         (415, ''Unsupported Media Type''), (416, ''Requested Range Not Satisfiable''),
         (417, ''Expectation Failed''), (418, ''I'' @ [CHR 0x27] @ ''m a teapot''),
         (421, ''Misdirected Request''), (422, ''Unprocessable Entity''), (423, ''Locked''),
         (424, ''Failed Dependency''), (425, ''Too Early''), (426, ''Upgrade Required''),
         (428, ''Precondition Required''), (429, ''Too Many Requests''),
         (431, ''Request Header Fields Too Large''), (451, ''Unavailable For Legal Reasons''),
         (500, ''Internal Server Error''), (501, ''Not Implemented''), (502, ''Bad Gateway''),
         (503, ''Service Unavailable''), (504, ''Gateway Timeout''),
         (505, ''HTTP Version Not Supported''), (506, ''Variant Also Negotiates''),
         (507, ''Insufficient Storage''), (508, ''Loop Detected''), (510, ''Not Extended''),
         (511, ''Network Authentication Required'')]"

definition statusText :: "int \<Rightarrow> gostring" where
  "statusText code = (case map_of statusTable code of Some t \<Rightarrow> t | None \<Rightarrow> [])"

definition errSummary :: "go_err \<Rightarrow> gostring" where
  "errSummary e =
     (let s = errText e;
          s = (case indexByte s newline of Some i \<Rightarrow> take i s | None \<Rightarrow> s)
      in case httpStatus e of
           Some code \<Rightarrow> itoa code @ '' '' @ statusText code
         | None \<Rightarrow>
             (let r = runes s in
              if length r > 80 then concat (take 79 r) @ ellipsis else s))"

definition diffState :: "runner \<Rightarrow> gostring" where
  "diffState r = (if d_enabled (r_differ r) then ''on'' else ''off'')"

definition helpHint :: "runner \<Rightarrow> gostring" where
  "helpHint r = (if r_showHelp r then ''? closes this help'' else ''? for help'')"

definition intervalSegment :: "runner \<Rightarrow> gostring" where
  "intervalSegment r =
     ''every '' @ compactDuration (r_interval r)
     @ (if r_interval r \<noteq> o_Interval (r_o r)
        then '' (backoff from '' @ compactDuration (o_Interval (r_o r)) @ '')'' else [])"

definition stateSegments :: "env \<Rightarrow> runner \<Rightarrow> gostring list" where
  "stateSegments e r =
     (case r_lastErr r of
        Some err \<Rightarrow>
          (case r_lastOK r of
             Some t \<Rightarrow> [''stale '' @ compactDuration (e_now e - t)]
           | None \<Rightarrow> [])
          @ [plural (r_errs r) ''error'', ''last: '' @ errSummary err]
      | None \<Rightarrow> if r_paused r then [''paused''] else [''ok''])"

definition scrollView :: "runner \<Rightarrow> viewport" where
  "scrollView r = (if r_showHelp r then r_helpView r else r_view r)"

definition setScrollView :: "viewport \<Rightarrow> runner \<Rightarrow> runner" where
  "setScrollView v r = (if r_showHelp r then r\<lparr>r_helpView := v\<rparr> else r\<lparr>r_view := v\<rparr>)"

definition statusSegments :: "env \<Rightarrow> runner \<Rightarrow> gostring list" where
  "statusSegments e r =
     [o_Title (r_o r), intervalSegment r, e_clock e]
     @ (if s_rows (r_screen r) > 0 then [plural (int (s_rows (r_screen r))) ''row''] else [])
     @ (if r_frames r > 0 \<and> r_lastErr r = None
        then [compactDuration (s_latency (r_screen r))] else [])
     @ stateSegments e r
     @ (if \<not> o_Plain (r_o r) \<and> r_lastErr r = None then [''diff '' @ diffState r] else [])
     @ (if \<not> vpFits (scrollView r)
        then [''lines '' @ itoa (f_first (r_lastFrame r)) @ enDash @ itoa (f_last (r_lastFrame r))
              @ '' of '' @ itoa (vp_total (scrollView r))]
        else [])
     @ (if r_skipped r > 0 then [plural (r_skipped r) ''skipped refresh''] else [])
     @ (if o_Keys (r_o r) \<and> r_lastErr r = None then [helpHint r] else [])"

definition status :: "env \<Rightarrow> runner \<Rightarrow> gostring" where
  "status e r =
     (if o_NoTitle (r_o r) \<or> o_Plain (r_o r) then []
      else joinWith statusSep (statusSegments e r))"

section \<open>The key map\<close>

definition arrowUp :: gostring where
  "arrowUp = [CHR 0xE2, CHR 0x86, CHR 0x91]"

definition helpLines :: "runner \<Rightarrow> gostring list" where
  "helpLines r =
     [''koc --watch '' @ emDash @ '' keys'',
      [],
      ''  q, Q          quit                 Ctrl-C  interrupt (exit 130)'',
      ''  space, r      refresh now '' @ emDash @ '' also while paused'',
      ''  p             pause / resume '' @ emDash @ '' resuming refreshes at once'',
      ''  +, =  /  -    slower / faster (1s step; floor 250ms)'',
      ''  d             toggle change highlighting '' @ emDash @ '' now '' @ diffState r,
      ''  ?, Esc        close this help'',
      [],
      ''  '' @ arrowDown @ '', j  /  '' @ arrowUp @ '', k       scroll a line'',
      ''  PgDn, Ctrl-F  /  PgUp, Ctrl-B      scroll a page'',
      ''  End, G  /  Home, g                 bottom / top'',
      [],
      ''Refreshes carry on while this is open; press p to hold the data.'',
      ''Highlighting: a changed cell is reverse-video, a new row green, and'',
      ''a row that has just left is held dimmed for one frame.'']"

section \<open>Painting\<close>

text \<open>
  \<^verbatim>\<open>vp.apply\<close> never slices out of range (\<open>vpApply_shows_a_window_total\<close>), so the branch for a panic
  is never taken.
\<close>

definition vpWindow :: "viewport \<Rightarrow> gostring list \<Rightarrow> int \<Rightarrow> int \<Rightarrow> viewport \<times> frame" where
  "vpWindow v lines rows reserve =
     (case vpApply v lines rows reserve of Some p \<Rightarrow> p | None \<Rightarrow> (v, emptyFrame))"

definition runnerLines :: "runner \<Rightarrow> gostring list" where
  "runnerLines r =
     (if r_showHelp r then helpLines r
      else frameLines (s_body (r_screen r)) (s_warn (r_screen r)))"

definition paint :: "env \<Rightarrow> runner \<Rightarrow> runner" where
  "paint e r =
     (if o_Plain (r_o r)
      then r\<lparr>r_screen := screenPaint (e_cols e) [] emptyFrame False (r_screen r)\<rparr>
      else
        (let reserve = (if o_NoTitle (r_o r) then 0 else 2);
             (v, f) = vpWindow (scrollView r) (runnerLines r) (e_rows e) reserve;
             r = (setScrollView v r)\<lparr>r_lastFrame := f\<rparr>
         in r\<lparr>r_screen := screenPaint (e_cols e) (status e r) f (r_showHelp r) (r_screen r)\<rparr>))"

section \<open>Keys\<close>

datatype event = EvNone | EvTick | EvQuit

definition keyETX :: keyCode where "keyETX = 0x03"
definition keyEOT :: keyCode where "keyEOT = 0x04"
definition keySpace :: keyCode where "keySpace = 0x20"
definition keyQuit :: keyCode where "keyQuit = 0x71"
definition keyQuitUpper :: keyCode where "keyQuitUpper = 0x51"
definition keyRefresh :: keyCode where "keyRefresh = 0x72"
definition keyRefreshUpper :: keyCode where "keyRefreshUpper = 0x52"
definition keyPause :: keyCode where "keyPause = 0x70"
definition keyPauseUpper :: keyCode where "keyPauseUpper = 0x50"
definition keyFaster :: keyCode where "keyFaster = 0x2D"
definition keySlower :: keyCode where "keySlower = 0x2B"
definition keySlowerAlt :: keyCode where "keySlowerAlt = 0x3D"
definition keyDiff :: keyCode where "keyDiff = 0x64"
definition keyHelp :: keyCode where "keyHelp = 0x3F"
definition keyLineDown :: keyCode where "keyLineDown = 0x6A"
definition keyLineUp :: keyCode where "keyLineUp = 0x6B"
definition keyTop :: keyCode where "keyTop = 0x67"
definition keyBottom :: keyCode where "keyBottom = 0x47"
definition keyPageFwd :: keyCode where "keyPageFwd = 0x06"
definition keyPageBack :: keyCode where "keyPageBack = 0x02"

lemmas key_consts = keyETX_def keyEOT_def keySpace_def keyQuit_def keyQuitUpper_def keyRefresh_def
  keyRefreshUpper_def keyPause_def keyPauseUpper_def keyFaster_def keySlower_def keySlowerAlt_def
  keyDiff_def keyHelp_def keyLineDown_def keyLineUp_def keyTop_def keyBottom_def keyPageFwd_def
  keyPageBack_def keyUp_def keyDown_def keyRight_def keyLeft_def keyPageUp_def keyPageDown_def
  keyHome_def keyEnd_def keyEscape_def keyUnknown_def

definition intervalStep :: "duration \<Rightarrow> duration" where
  "intervalStep d = (if d < second then 250 * millisecond else second)"

definition stepDown :: "duration \<Rightarrow> duration" where
  "stepDown d = (if d \<le> second then 250 * millisecond else second)"

datatype keyClass = KeyDeferred | KeyImmediate | KeyAbort

definition classifyKey :: "keyCode \<Rightarrow> keyClass" where
  "classifyKey k =
     (if k \<in> {keyETX, keyEOT, keyQuit, keyQuitUpper} then KeyAbort
      else if k \<in> {keyPause, keyPauseUpper, keySlower, keySlowerAlt, keyFaster, keyHelp,
                   keyLineDown, keyLineUp, keyTop, keyBottom, keyPageFwd, keyPageBack,
                   keyDown, keyUp, keyPageDown, keyPageUp, keyHome, keyEnd, keyEscape}
      then KeyImmediate
      else KeyDeferred)"

text \<open>\<open>scrollKey\<close>: the runner with the window moved, or \<^const>\<open>None\<close> when \<open>k\<close> does not scroll.\<close>

definition scrollKey :: "keyCode \<Rightarrow> runner \<Rightarrow> runner option" where
  "scrollKey k r =
     (let v = scrollView r in
      if k = keyLineDown \<or> k = keyDown then Some (setScrollView (vpScroll v 1) r)
      else if k = keyLineUp \<or> k = keyUp then Some (setScrollView (vpScroll v (-1)) r)
      else if k = keyPageFwd \<or> k = keyPageDown then Some (setScrollView (vpScroll v (vpPage v)) r)
      else if k = keyPageBack \<or> k = keyPageUp then Some (setScrollView (vpScroll v (- vpPage v)) r)
      else if k = keyTop \<or> k = keyHome then Some (setScrollView (vpTop v) r)
      else if k = keyBottom \<or> k = keyEnd then Some (setScrollView (vpBottom v) r)
      else None)"

definition togglePause :: "env \<Rightarrow> runner \<Rightarrow> runner \<times> event" where
  "togglePause e r =
     (let r = r\<lparr>r_paused := \<not> r_paused r\<rparr> in
      if r_paused r then (paint e r, EvNone) else (r\<lparr>r_force := True\<rparr>, EvTick))"

definition setInterval :: "env \<Rightarrow> duration \<Rightarrow> runner \<Rightarrow> runner" where
  "setInterval e d0 r =
     (let d = (if d0 < MinInterval then MinInterval
               else if d0 > MaxInterval then MaxInterval else d0)
      in paint e (r\<lparr>r_o := (r_o r)\<lparr>o_Interval := d\<rparr>, r_interval := d\<rparr>))"

text \<open>
  \<open>key\<close> returns the runner, the event, and whether the \<^verbatim>\<open>cancel\<close> it was given was called: the
  caller decides which context that is.
\<close>

definition key :: "env \<Rightarrow> keyCode \<Rightarrow> runner \<Rightarrow> runner \<times> event \<times> bool" where
  "key e k r =
     (case scrollKey k r of
        Some r' \<Rightarrow> (paint e r', EvNone, False)
      | None \<Rightarrow>
          if k = keyETX \<or> k = keyEOT then (r, EvNone, True)
          else if k = keyQuit \<or> k = keyQuitUpper then (r, EvQuit, False)
          else if k = keySpace \<or> k = keyRefresh \<or> k = keyRefreshUpper
          then (r\<lparr>r_force := True\<rparr>, EvTick, False)
          else if k = keyPause \<or> k = keyPauseUpper
          then (let (r, ev) = togglePause e r in (r, ev, False))
          else if k = keySlower \<or> k = keySlowerAlt
          then (setInterval e (r_interval r + intervalStep (r_interval r)) r, EvNone, False)
          else if k = keyFaster
          then (setInterval e (r_interval r - stepDown (r_interval r)) r, EvNone, False)
          else if k = keyDiff
          then (r\<lparr>r_differ := SetEnabled (r_differ r) (\<not> d_enabled (r_differ r)), r_force := True\<rparr>,
                EvTick, False)
          else if k = keyHelp
          then (let r = r\<lparr>r_showHelp := \<not> r_showHelp r\<rparr>;
                    r = r\<lparr>r_helpView := vpReset (r_helpView r)\<rparr>
                in (paint e r, EvNone, False))
          else if k = keyEscape \<and> r_showHelp r
          then (paint e (r\<lparr>r_showHelp := False\<rparr>), EvNone, False)
          else (r, EvNone, False))"

section \<open>What the handlers leave alone\<close>

text \<open>The part of the state that belongs to the refresh rather than to the presentation.\<close>

definition refreshState :: "runner \<Rightarrow> (differ \<times> nat \<times> int \<times> int \<times> go_err option) \<times>
    (int \<times> int option \<times> int \<times> keyCode list \<times> go_err option \<times> gostring) \<times>
    (gostring \<times> gostring \<times> duration \<times> nat \<times> go_err option)" where
  "refreshState r =
     ((r_differ r, r_frames r, r_attempts r, r_errs r, r_lastErr r),
      (r_tickAt r, r_lastOK r, r_skipped r, r_deferred r, r_ctxErr r, r_errOut r),
      (s_body (r_screen r), s_warn (r_screen r), s_latency (r_screen r), s_rows (r_screen r),
       s_stale (r_screen r)))"

lemma screenPaint_keeps [simp]:
  "s_body (screenPaint c st f ov s) = s_body s" "s_warn (screenPaint c st f ov s) = s_warn s"
  "s_latency (screenPaint c st f ov s) = s_latency s" "s_rows (screenPaint c st f ov s) = s_rows s"
  "s_stale (screenPaint c st f ov s) = s_stale s" "s_plain (screenPaint c st f ov s) = s_plain s"
  "s_keys (screenPaint c st f ov s) = s_keys s"
  by (simp_all add: screenPaint_def appendFrame_def repaint_def writeOut_def stripRepeatHeader_def
      Let_def split: prod.split)

lemma setScrollView_keeps [simp]:
  "r_o (setScrollView v r) = r_o r" "r_interval (setScrollView v r) = r_interval r"
  "r_paused (setScrollView v r) = r_paused r" "r_force (setScrollView v r) = r_force r"
  "r_showHelp (setScrollView v r) = r_showHelp r" "r_screen (setScrollView v r) = r_screen r"
  "r_differ (setScrollView v r) = r_differ r"
  "refreshState (setScrollView v r) = refreshState r"
  by (simp_all add: setScrollView_def refreshState_def)

lemma paint_keeps [simp]:
  "r_o (paint e r) = r_o r" "r_interval (paint e r) = r_interval r"
  "r_paused (paint e r) = r_paused r" "r_force (paint e r) = r_force r"
  "r_showHelp (paint e r) = r_showHelp r" "refreshState (paint e r) = refreshState r"
  by (simp_all add: paint_def setScrollView_def refreshState_def Let_def split: prod.split)

lemma refreshState_fields:
  assumes "refreshState r = refreshState r'"
  shows "r_differ r = r_differ r'" "r_frames r = r_frames r'" "r_attempts r = r_attempts r'"
    "r_errs r = r_errs r'" "r_lastErr r = r_lastErr r'" "r_tickAt r = r_tickAt r'"
    "r_lastOK r = r_lastOK r'" "r_skipped r = r_skipped r'" "r_deferred r = r_deferred r'"
    "r_ctxErr r = r_ctxErr r'" "r_errOut r = r_errOut r'"
    "s_body (r_screen r) = s_body (r_screen r')" "s_warn (r_screen r) = s_warn (r_screen r')"
  using assms by (simp_all add: refreshState_def)

lemmas paint_fields [simp] = refreshState_fields [OF paint_keeps(6)]

lemma scrollKey_keeps:
  assumes "scrollKey k r = Some r'"
  shows "r_o r' = r_o r" "r_interval r' = r_interval r" "r_paused r' = r_paused r"
    "r_force r' = r_force r" "refreshState r' = refreshState r"
  using assms by (auto simp: scrollKey_def Let_def split: if_splits)

lemma refreshState_upd [simp]:
  "refreshState (q\<lparr>r_paused := b\<rparr>) = refreshState q" "refreshState (q\<lparr>r_force := b\<rparr>) = refreshState q"
  "refreshState (q\<lparr>r_showHelp := b\<rparr>) = refreshState q"
  "refreshState (q\<lparr>r_helpView := v\<rparr>) = refreshState q"
  "refreshState (q\<lparr>r_interval := d\<rparr>) = refreshState q" "refreshState (q\<lparr>r_o := opts\<rparr>) = refreshState q"
  by (simp_all add: refreshState_def)

lemma setInterval_keeps [simp]:
  "refreshState (setInterval e d r) = refreshState r" "r_paused (setInterval e d r) = r_paused r"
  "r_force (setInterval e d r) = r_force r"
  "o_Count (r_o (setInterval e d r)) = o_Count (r_o r)"
  "o_ErrorMode (r_o (setInterval e d r)) = o_ErrorMode (r_o r)"
  "o_Plain (r_o (setInterval e d r)) = o_Plain (r_o r)"
  by (simp_all add: setInterval_def Let_def)

text \<open>A key that is acted on while a refresh is in flight.\<close>

lemma key_immediate:
  assumes "classifyKey k = KeyImmediate" and "key e k r = (r', ev, c)"
  shows "refreshState r' = refreshState r" "ev \<noteq> EvQuit" "\<not> c"
proof -
  have n: "k \<noteq> keyETX" "k \<noteq> keyEOT" "k \<noteq> keyQuit" "k \<noteq> keyQuitUpper" "k \<noteq> keySpace"
    "k \<noteq> keyRefresh" "k \<noteq> keyRefreshUpper" "k \<noteq> keyDiff"
    using assms(1) by (auto simp: classifyKey_def key_consts split: if_splits)
  show "refreshState r' = refreshState r" "ev \<noteq> EvQuit" "\<not> c"
    using assms(2) n
    by (auto simp: key_def togglePause_def Let_def dest: scrollKey_keeps(5)
        split: option.splits if_splits)
qed

lemma key_deferred [simp]: "r_deferred (fst (key e k r)) = r_deferred r"
proof (cases "scrollKey k r")
  case None
  then show ?thesis
    using refreshState_fields(9) [OF setInterval_keeps(1)]
    by (simp add: key_def togglePause_def Let_def)
next
  case (Some r')
  then show ?thesis
    using refreshState_fields(9) [OF scrollKey_keeps(5)] by (simp add: key_def)
qed

section \<open>The status line is one line\<close>

abbreviation oneLine :: "gostring \<Rightarrow> bool" where
  "oneLine s \<equiv> newline \<notin> set s"

lemma statusText_oneLine: "oneLine (statusText code)"
proof -
  have "list_all (\<lambda>p. oneLine (snd p)) statusTable"
    by (simp add: statusTable_def newline_def)
  then show ?thesis
    by (cases "map_of statusTable code") (auto simp: statusText_def list_all_iff dest!: map_of_SomeD)
qed

lemma durationText_oneLine [simp]: "oneLine (durationString d)" "oneLine (tenthsText d)"
  by (simp add: durationString_def Let_def, simp add: newline_def)
    (simp add: tenthsText_def, simp add: newline_def)

lemma compactDuration_oneLine [simp]: "oneLine (compactDuration d)"
  by (simp add: compactDuration_def Let_def) (simp add: newline_def)

lemma plural_oneLine: "oneLine noun \<Longrightarrow> oneLine (plural n noun)"
  by (simp add: plural_def) (simp add: newline_def)

lemma errSummary_oneLine: "oneLine (errSummary err)"
proof -
  define s where "s = (case indexByte (errText err) newline of
    Some i \<Rightarrow> take i (errText err) | None \<Rightarrow> errText err)"
  have s: "oneLine s"
    using indexByte_None indexByte_Some by (auto simp: s_def split: option.split)
  then have "oneLine (concat (runes s))" using runes_bytes [of s] newline_literals(1) by blast
  then have "oneLine (concat (take k (runes s)))" for k
    using set_take_subset [of k "runes s"] by auto
  then have "oneLine (if length (runes s) > 80 then concat (take 79 (runes s)) @ ellipsis else s)"
    using s by simp
  moreover have "oneLine (itoa code @ '' '' @ statusText code)" for code
    using statusText_oneLine by simp (simp add: newline_def)
  ultimately show ?thesis
    unfolding errSummary_def Let_def s_def [symmetric]
    by (cases "httpStatus err") (simp_all only: option.case not_False_eq_True)
qed

lemma joinWith_oneLine: "oneLine sep \<Longrightarrow> list_all oneLine ss \<Longrightarrow> oneLine (joinWith sep ss)"
  by (induction sep ss rule: joinWith.induct) simp_all

lemma stateSegments_oneLine: "list_all oneLine (stateSegments e r)"
proof -
  have "oneLine ''stale ''" "oneLine ''last: ''" "oneLine ''error''" "oneLine ''paused''" "oneLine ''ok''"
    by (simp_all add: newline_def)
  then have "oneLine (''stale '' @ compactDuration d)" "oneLine (''last: '' @ errSummary err)"
    "oneLine (plural n ''error'')" "oneLine ''paused''" "oneLine ''ok''" for d err n
    using errSummary_oneLine compactDuration_oneLine plural_oneLine by auto
  then show ?thesis by (simp add: stateSegments_def split: option.split)
qed

lemma status_oneLine:
  assumes "oneLine (o_Title (r_o r))" and "oneLine (e_clock e)"
  shows "oneLine (status e r)"
proof -
  have lits: "oneLine ''every ''" "oneLine '' (backoff from ''" "oneLine '')''" "oneLine ''row''"
    "oneLine ''diff ''" "oneLine ''on''" "oneLine ''off''" "oneLine ''lines ''" "oneLine '' of ''"
    "oneLine ''skipped refresh''" "oneLine ''? closes this help''" "oneLine ''? for help''"
    "oneLine statusSep" "oneLine enDash"
    by (simp_all add: newline_def statusSep_def middleDot_def enDash_def)
  have "oneLine (intervalSegment r)" "oneLine (''diff '' @ diffState r)" "oneLine (helpHint r)"
    "oneLine (plural n ''row'')" "oneLine (plural n ''skipped refresh'')"
    "oneLine (''lines '' @ itoa x @ enDash @ itoa y @ '' of '' @ itoa z)" for n x y z
    using lits by (auto simp: intervalSegment_def diffState_def helpHint_def plural_oneLine)
  then have "list_all oneLine (statusSegments e r)"
    using assms stateSegments_oneLine [of e r] by (simp add: statusSegments_def)
  then show ?thesis using lits(13) by (simp add: status_def joinWith_oneLine)
qed

lemma helpLines_oneLine: "list_all oneLine (helpLines r)"
proof -
  have "oneLine (diffState r)" by (simp add: diffState_def newline_def)
  then show ?thesis
    using newline_literals(3,4) by (simp add: helpLines_def arrowUp_def newline_def)
qed

section \<open>The interval stays within its bounds\<close>

text \<open>
  The flag is validated against \<open>MinInterval\<close> only. An interval within both bounds stays there,
  and the interval in force is never shorter than the one asked for.
\<close>

definition intervalInv :: "runner \<Rightarrow> bool" where
  "intervalInv r \<longleftrightarrow>
     MinInterval \<le> o_Interval (r_o r) \<and> MinInterval \<le> r_interval r
     \<and> (o_Interval (r_o r) \<le> MaxInterval
        \<longrightarrow> o_Interval (r_o r) \<le> r_interval r \<and> r_interval r \<le> MaxInterval)"

lemma intervalInv_cong:
  "r_o r' = r_o r \<Longrightarrow> r_interval r' = r_interval r \<Longrightarrow> intervalInv r' = intervalInv r"
  by (simp add: intervalInv_def)

lemma intervalInv_upd [simp]:
  "intervalInv (q\<lparr>r_paused := b\<rparr>) = intervalInv q" "intervalInv (q\<lparr>r_force := b\<rparr>) = intervalInv q"
  "intervalInv (q\<lparr>r_showHelp := b\<rparr>) = intervalInv q" "intervalInv (q\<lparr>r_helpView := v\<rparr>) = intervalInv q"
  "intervalInv (q\<lparr>r_differ := d\<rparr>) = intervalInv q" "intervalInv (paint e q) = intervalInv q"
  by (simp_all add: intervalInv_def)

lemma intervalInv_setInterval [simp]: "intervalInv (setInterval e d r)"
  by (simp add: setInterval_def Let_def) (simp add: intervalInv_def interval_defs)

lemma intervalInv_key:
  assumes "intervalInv r"
  shows "intervalInv (fst (key e k r))"
proof (cases "scrollKey k r")
  case None
  then show ?thesis
    using assms by (simp add: key_def togglePause_def Let_def)
next
  case (Some r')
  then show ?thesis
    using assms scrollKey_keeps(1,2) [OF Some] by (simp add: key_def intervalInv_def)
qed

text \<open>
  Whatever the interval was, one press of a speed key puts both the asked-for and the actual
  interval inside the bounds; \<^verbatim>\<open>+\<close> then \<^verbatim>\<open>-\<close> gives back any interval in steps of a quarter second
  below a second and whole seconds above that is not at the upper bound.
\<close>

lemma speed_keys_are_inverse:
  assumes "MinInterval \<le> r_interval r" and "r_interval r + intervalStep (r_interval r) \<le> MaxInterval"
    and "r_interval r < second \<longrightarrow> 250 * millisecond dvd r_interval r"
    and "r1 = fst (key e1 keySlower r)" and "r2 = fst (key e2 keyFaster r1)"
  shows "r_interval r1 = r_interval r + intervalStep (r_interval r)
    \<and> r_interval r2 = r_interval r \<and> o_Interval (r_o r2) = r_interval r
    \<and> intervalInv r1 \<and> intervalInv r2"
proof -
  let ?d = "r_interval r"
  have set: "r_interval (setInterval e d q) = d \<and> o_Interval (r_o (setInterval e d q)) = d"
    if "MinInterval \<le> d" "d \<le> MaxInterval" for e d q
    using that by (simp add: setInterval_def Let_def)
  have slower: "key e keySlower q = (setInterval e (r_interval q + intervalStep (r_interval q)) q, EvNone, False)"
    and faster: "key e keyFaster q = (setInterval e (r_interval q - stepDown (r_interval q)) q, EvNone, False)" for e q
    by (simp_all add: key_def scrollKey_def Let_def key_consts)
  have step: "0 < intervalStep ?d" by (simp add: intervalStep_def duration_units)
  have i1: "r_interval r1 = ?d + intervalStep ?d"
    using set [of "?d + intervalStep ?d" e1 r] assms(1,2,4) step by (simp add: slower)
  have "stepDown (?d + intervalStep ?d) = intervalStep ?d"
  proof (cases "?d < second")
    case True
    then obtain q where q: "?d = 250 * millisecond * q" using assms(3) by (auto elim: dvdE)
    then have "q < 4" using True by (simp add: duration_units)
    then show ?thesis using True q by (simp add: stepDown_def intervalStep_def duration_units)
  next
    case False
    then show ?thesis by (simp add: stepDown_def intervalStep_def duration_units)
  qed
  then have "r_interval r2 = ?d \<and> o_Interval (r_o r2) = ?d"
    using set [of ?d e2 r1] assms(1,2,5) step i1 by (simp add: faster)
  then show ?thesis
    using i1 assms(4,5) by (simp add: slower faster intervalInv_setInterval)
qed

lemma speed_keys_are_inverse_witness:
  "r_interval (fst (key (sampleEnv 1) keyFaster
     (fst (key (sampleEnv 0) keySlower (newRunner sampleOpts None))))) = 2 * second"
proof -
  have r: "r_interval (newRunner sampleOpts None) = 2 * second"
    by (simp add: newRunner_def sampleOpts_def DefaultInterval_def)
  show ?thesis
    using speed_keys_are_inverse
      [of "newRunner sampleOpts None" "fst (key (sampleEnv 0) keySlower (newRunner sampleOpts None))"
          "sampleEnv 0" _ "sampleEnv 1", OF _ _ _ refl refl]
    unfolding r by (simp add: intervalStep_def interval_defs)
qed

end
