(* ===== verification/Watch_Loop.thy ===== *)
theory Watch_Loop
  imports Watch_Runner
begin

text \<open>
  The loop of \<^verbatim>\<open>src/internal/watch/watch.go\<close>: \<^verbatim>\<open>refresh\<close>, \<^verbatim>\<open>tick\<close>, \<^verbatim>\<open>wait\<close> and \<^verbatim>\<open>loop\<close>. What a
  \<^verbatim>\<open>select\<close> receives is input: a refresh takes the keys that arrive while it is in flight and the
  outcome of the render, a wait takes the list of what becomes ready, and the loop takes one such
  bundle per round. A list that ends before the function returns means the loop is still waiting.
\<close>

section \<open>Inputs\<close>

datatype refreshEvent = RKey keyCode | RKeysClosed

text \<open>
  What one call of the renderer does: the tables it hands to the differ, the bytes it writes to
  \<^verbatim>\<open>out\<close> and \<^verbatim>\<open>warn\<close>, and the error it returns.
\<close>

record renderOutcome =
  ro_tables :: "(gostring list \<times> anyval list list) list"
  ro_body :: gostring
  ro_warn :: gostring
  ro_err :: "go_err option"

record tickInput =
  ti_start :: env
  ti_events :: "(env \<times> refreshEvent) list"
  ti_render :: renderOutcome
  ti_end :: env

datatype waitEvent = WDone go_err | WAfter | WWinch | WKey keyCode | WKeysClosed

record roundInput =
  ri_ctxErr :: "go_err option"
  ri_tick :: tickInput
  ri_wait :: "(env \<times> waitEvent) list"

section \<open>One refresh\<close>

text \<open>
  The keyboard side of \<^verbatim>\<open>refresh\<close>; the second component is \<^verbatim>\<open>aborted\<close>, 0 for none. A closed channel
  is set to nil and delivers nothing more.
\<close>

fun refreshLoop :: "(env \<times> refreshEvent) list \<Rightarrow> keyCode \<Rightarrow> runner \<Rightarrow> runner \<times> keyCode" where
  "refreshLoop [] aborted r = (r, aborted)"
| "refreshLoop ((e, ev) # evs) aborted r =
     (if \<not> o_keysOpen (r_o r) then refreshLoop evs aborted r
      else case ev of
        RKeysClosed \<Rightarrow> refreshLoop evs aborted (r\<lparr>r_o := (r_o r)\<lparr>o_keysOpen := False\<rparr>\<rparr>)
      | RKey b \<Rightarrow>
          (case classifyKey b of
             KeyAbort \<Rightarrow> refreshLoop evs (if aborted = 0 then b else aborted) r
           | KeyImmediate \<Rightarrow> refreshLoop evs aborted (fst (key e b r))
           | KeyDeferred \<Rightarrow> refreshLoop evs aborted (r\<lparr>r_deferred := r_deferred r @ [b]\<rparr>)))"

text \<open>
  \<^verbatim>\<open>refresh\<close>: the render runs beside the keys. The keys acted on meanwhile leave the differ alone
  (\<open>refreshLoop_keeps\<close>), so the tables the render hands to it may be taken after them.
\<close>

definition refresh :: "(env \<times> refreshEvent) list \<Rightarrow> renderOutcome \<Rightarrow> runner
    \<Rightarrow> runner \<times> keyCode \<times> go_err option" where
  "refresh evs out r =
     (let (r, aborted) = refreshLoop evs 0 r;
          r = r\<lparr>r_differ := fold highlightTable (ro_tables out) (r_differ r)\<rparr>
      in (r, aborted, ro_err out))"

section \<open>Errors, backoff, counting\<close>

definition recordError :: "go_err \<Rightarrow> runner \<Rightarrow> runner \<times> go_err option" where
  "recordError err r =
     (if isErr err Canceled \<or> isErr err DeadlineExceeded then (r, Some err)
      else
        (let r = r\<lparr>r_errs := r_errs r + 1, r_lastErr := Some err\<rparr> in
         if isAuthFailure err then (r, Some err)
         else if r_frames r = 0 \<and> \<not> isTransient err then (r, Some err)
         else if o_ErrorMode (r_o r) = ErrorsExit then (r, Some err)
         else
           (let r = r\<lparr>r_screen := reject err (r_screen r)\<rparr>
            in (if o_Plain (r_o r)
                then r\<lparr>r_errOut := r_errOut r @ ''koc: '' @ errText err @ [newline]\<rparr> else r,
                None))))"

definition backoff :: "duration \<Rightarrow> runner \<Rightarrow> runner" where
  "backoff latency r =
     (let want = o_Interval (r_o r);
          want = (if latency * 2 > want then latency * 2 else want);
          want = (if want > MaxInterval then MaxInterval else want)
      in r\<lparr>r_interval := want\<rparr>)"

definition countReached :: "runner \<Rightarrow> bool" where
  "countReached r \<longleftrightarrow> o_Count (r_o r) > 0 \<and> r_attempts r \<ge> o_Count (r_o r)"

text \<open>
  \<^verbatim>\<open>tick\<close>: \<^const>\<open>Inl\<close> is an error that ends the loop, \<^const>\<open>Inr\<close> says whether the loop stops. The
  key that aborted the refresh is acted on with the loop's own \<^verbatim>\<open>cancel\<close>.
\<close>

definition canceledErr :: go_err where
  "canceledErr = GoErr (Sentinel Canceled) ''context canceled'' None []"

definition keyLoop :: "env \<Rightarrow> keyCode \<Rightarrow> runner \<Rightarrow> runner \<times> event" where
  "keyLoop e k r =
     (let (r, ev, cancelled) = key e k r
      in (if cancelled \<and> r_ctxErr r = None then r\<lparr>r_ctxErr := Some canceledErr\<rparr> else r, ev))"

definition tick :: "tickInput \<Rightarrow> runner \<Rightarrow> runner \<times> (go_err + bool)" where
  "tick i r =
     (let started = e_now (ti_start i);
          r = r\<lparr>r_tickAt := started, r_attempts := r_attempts r + 1\<rparr>;
          r = r\<lparr>r_differ := BeginFrame (r_differ r)\<rparr>;
          (r, aborted, err) = refresh (ti_events i) (ti_render i) r;
          latency = e_now (ti_end i) - started
      in
      if aborted \<noteq> 0 then
        (let r = r\<lparr>r_differ := Rollback (r_differ r)\<rparr>;
             (r, ev) = keyLoop (ti_end i) aborted r
         in (r, Inr (ev = EvQuit)))
      else case err of
        Some err \<Rightarrow>
          (let r = r\<lparr>r_differ := Rollback (r_differ r)\<rparr>;
               (r, fatal) = recordError err r
           in case fatal of
                Some fatal \<Rightarrow> (r, Inl fatal)
              | None \<Rightarrow> (let r = paint (ti_end i) r in (r, Inr (countReached r))))
      | None \<Rightarrow>
          (let r = r\<lparr>r_differ := Commit (r_differ r)\<rparr>;
               byteChange = (d_tables (r_differ r) = 0 \<and> r_frames r > 0
                             \<and> ro_body (ti_render i) \<noteq> s_body (r_screen r));
               r = r\<lparr>r_errs := 0, r_lastErr := None, r_frames := r_frames r + 1,
                     r_lastOK := Some started,
                     r_screen := accept (ro_body (ti_render i)) (ro_warn (ti_render i)) latency
                                   (d_rows (r_differ r)) (r_screen r)\<rparr>;
               r = backoff latency r;
               r = paint (ti_end i) r
           in if countReached r then (r, Inr True)
              else (r, Inr (o_UntilChange (r_o r) \<and> r_frames r > 1
                            \<and> (d_changed (r_differ r) \<or> byteChange)))))"

section \<open>Waiting\<close>

definition untilNext :: "env \<Rightarrow> runner \<Rightarrow> duration" where
  "untilNext e r =
     (if r_paused r then MaxInterval else r_tickAt r + r_interval r - e_now e)"

definition noteSkips :: "env \<Rightarrow> runner \<Rightarrow> runner" where
  "noteSkips e r =
     (let overdue = e_now e - (r_tickAt r + r_interval r);
          missed = goQuot overdue (r_interval r)
      in if missed > 0 then r\<lparr>r_skipped := r_skipped r + missed\<rparr> else r)"

lemma keyLoop_deferred [simp]: "r_deferred (fst (keyLoop e k r)) = r_deferred r"
  using key_deferred [of e k r]
  by (cases "key e k r") (simp add: keyLoop_def Let_def del: key_deferred)

text \<open>
  \<^verbatim>\<open>wait\<close>: \<^const>\<open>None\<close> when the events end first, \<^const>\<open>Inl\<close> for the error of a context that is done.
  An iteration that does not reach the \<^verbatim>\<open>select\<close> leaves the event at the head of the list alone.
\<close>

function waitLoop :: "(env \<times> waitEvent) list \<Rightarrow> runner \<Rightarrow> runner \<times> (go_err + event) option" where
  "waitLoop [] r = (r, None)"
| "waitLoop ((e, ev) # evs) r =
     (case r_deferred r of
        b # rest \<Rightarrow>
          (let (r, kev) = keyLoop e b (r\<lparr>r_deferred := rest\<rparr>)
           in if kev \<noteq> EvNone then (r, Some (Inr kev)) else waitLoop ((e, ev) # evs) r)
      | [] \<Rightarrow>
          if untilNext e r \<le> 0 then (noteSkips e r, Some (Inr EvTick))
          else case ev of
            WDone err \<Rightarrow> (r, Some (Inl err))
          | WAfter \<Rightarrow> (r, Some (Inr EvTick))
          | WWinch \<Rightarrow> waitLoop evs (paint e r)
          | WKeysClosed \<Rightarrow> waitLoop evs (r\<lparr>r_o := (r_o r)\<lparr>o_keysOpen := False\<rparr>\<rparr>)
          | WKey b \<Rightarrow>
              if \<not> o_keysOpen (r_o r) then waitLoop evs r
              else
                (let (r, kev) = keyLoop e b r
                 in case kev of
                      EvQuit \<Rightarrow> (r, Some (Inr EvQuit))
                    | EvTick \<Rightarrow> (r, Some (Inr EvTick))
                    | EvNone \<Rightarrow> waitLoop evs r))"
  by pat_completeness auto
termination
proof (relation "measures [\<lambda>(evs, r). length evs, \<lambda>(evs, r). length (r_deferred r)]")
  fix e ev evs r b rest x kev and r' :: runner
  assume "r_deferred r = b # rest" "x = keyLoop e b (r\<lparr>r_deferred := rest\<rparr>)" "(r', kev) = x"
  then show "(((e, ev) # evs, r'), (e, ev) # evs, r)
      \<in> measures [\<lambda>(evs, r). length evs, \<lambda>(evs, r). length (r_deferred r)]"
    using keyLoop_deferred [of e b "r\<lparr>r_deferred := rest\<rparr>"] by (auto simp del: keyLoop_deferred dest: sym)
qed auto

section \<open>The loop\<close>

text \<open>\<^const>\<open>None\<close>: still running. \<^term>\<open>Some None\<close>: returned nil. \<^term>\<open>Some (Some e)\<close>: returned \<open>e\<close>.\<close>

fun watchLoop :: "roundInput list \<Rightarrow> runner \<Rightarrow> runner \<times> go_err option option" where
  "watchLoop [] r = (r, None)"
| "watchLoop (i # is) r =
     (case (case r_ctxErr r of Some e \<Rightarrow> Some e | None \<Rightarrow> ri_ctxErr i) of
        Some e \<Rightarrow> (r, Some (Some e))
      | None \<Rightarrow>
          (case (if r_force r \<or> \<not> r_paused r then tick (ri_tick i) (r\<lparr>r_force := False\<rparr>)
                 else (r, Inr False)) of
             (r, Inl e) \<Rightarrow> (r, Some (Some e))
           | (r, Inr True) \<Rightarrow> (r, Some None)
           | (r, Inr False) \<Rightarrow>
               (case waitLoop (ri_wait i) r of
                  (r, None) \<Rightarrow> (r, None)
                | (r, Some (Inl e)) \<Rightarrow> (r, Some (Some e))
                | (r, Some (Inr EvQuit)) \<Rightarrow> (r, Some None)
                | (r, Some (Inr EvTick)) \<Rightarrow> watchLoop is r
                | (r, Some (Inr EvNone)) \<Rightarrow> watchLoop is r)))"

text \<open>
  \<^verbatim>\<open>Run\<close>: \<open>granted\<close> is whether the terminal granted raw mode; the input mode of the terminal is
  returned beside what was written. The keyboard is attached when the options ask for keys.
\<close>

definition attachInputs :: "runner \<Rightarrow> runner" where
  "attachInputs r =
     (if o_Keys (r_o r) \<and> \<not> o_keysOpen (r_o r) then r\<lparr>r_o := (r_o r)\<lparr>o_keysOpen := True\<rparr>\<rparr> else r)"

definition Run :: "wopts \<Rightarrow> differ option \<Rightarrow> bool \<Rightarrow> roundInput list
    \<Rightarrow> bool \<times> runner \<times> go_err option option" where
  "Run opts d granted is =
     (let r = newRunner (applyDefaults opts) d;
          ((raw, s), fn) = enter granted (False, r_screen r);
          r = r\<lparr>r_screen := s, r_o := (r_o r)\<lparr>o_Keys := s_keys s\<rparr>\<rparr>;
          r = attachInputs r;
          (r, res) = watchLoop is r
      in case res of
           None \<Rightarrow> (raw, r, None)
         | Some x \<Rightarrow>
             (let (raw, s) = restore fn (raw, r_screen r)
              in (raw, r\<lparr>r_screen := s\<rparr>, Some x)))"

section \<open>Invariants of the loop\<close>

text \<open>
  What a property of the runner has to survive to hold whenever the loop waits, and then whenever
  it returns: the handlers that run inside \<^verbatim>\<open>wait\<close>, and the refresh.
\<close>

locale wait_invariant =
  fixes I :: "runner \<Rightarrow> bool"
  assumes on_key: "I r \<Longrightarrow> I (fst (keyLoop e k r))"
    and on_paint: "I r \<Longrightarrow> I (paint e r)"
    and on_skips: "I r \<Longrightarrow> I (noteSkips e r)"
    and on_deferred: "I r \<Longrightarrow> I (r\<lparr>r_deferred := ks\<rparr>)"
    and on_keys_closed: "I r \<Longrightarrow> I (r\<lparr>r_o := (r_o r)\<lparr>o_keysOpen := False\<rparr>\<rparr>)"
begin

lemma wait_preserves: "I r \<Longrightarrow> I (fst (waitLoop evs r))"
proof (induction evs r rule: waitLoop.induct)
  case (2 e ev evs r)
  note prem = 2(6) and IH = 2(1-5)
  show ?case
  proof (cases "r_deferred r")
    case (Cons b rest)
    obtain q kev where k: "keyLoop e b (r\<lparr>r_deferred := rest\<rparr>) = (q, kev)" by fastforce
    have "I q" using on_key [OF on_deferred [OF prem], of e b rest] k by simp
    then show ?thesis using Cons k IH by simp
  next
    case Nil
    show ?thesis
    proof (cases "untilNext e r \<le> 0 \<or> (\<exists>b. ev = WKey b)")
      case True
      obtain q kev where k: "keyLoop e (case ev of WKey b \<Rightarrow> b | _ \<Rightarrow> 0) r = (q, kev)" by fastforce
      have "I q" using on_key [OF prem, of e "case ev of WKey b \<Rightarrow> b | _ \<Rightarrow> 0"] k by simp
      then show ?thesis using True Nil k prem on_skips IH by (auto split: event.split)
    next
      case False
      then show ?thesis using Nil prem IH on_paint on_keys_closed by (cases ev) simp_all
    qed
  qed
qed simp

end

locale loop_invariant = wait_invariant +
  assumes on_tick: "I r \<Longrightarrow> I (fst (tick i (r\<lparr>r_force := False\<rparr>)))"
begin

lemma loop_preserves: "I r \<Longrightarrow> I (fst (watchLoop is r))"
proof (induction "is" arbitrary: r)
  case (Cons i "is")
  define t where "t = (if r_force r \<or> \<not> r_paused r then tick (ri_tick i) (r\<lparr>r_force := False\<rparr>)
    else (r, Inr False))"
  obtain q res where t: "t = (q, res)" by fastforce
  have "I (fst t)" using on_tick [OF Cons.prems] Cons.prems by (simp add: t_def)
  then have Iq: "I q" by (simp add: t)
  obtain w wres where w: "waitLoop (ri_wait i) q = (w, wres)" by fastforce
  have Iw: "I w" using wait_preserves [OF Iq, of "ri_wait i"] w by simp
  show ?case
    unfolding watchLoop.simps t_def [symmetric] t
    using Iq Iw Cons.IH [OF Iw] Cons.prems w
    by (auto split: option.split sum.split bool.split event.split)
qed simp

end

section \<open>What a refresh leaves alone\<close>

text \<open>The options apart from the interval and the state of the keyboard channel.\<close>

definition fixedOpts :: "runner \<Rightarrow> wopts" where
  "fixedOpts r = (r_o r)\<lparr>o_Interval := 0, o_keysOpen := False\<rparr>"

lemma fixedOpts_fields:
  assumes "fixedOpts r = fixedOpts q"
  shows "o_Count (r_o r) = o_Count (r_o q)" "o_ErrorMode (r_o r) = o_ErrorMode (r_o q)"
    "o_Plain (r_o r) = o_Plain (r_o q)" "o_UntilChange (r_o r) = o_UntilChange (r_o q)"
    "o_NoTitle (r_o r) = o_NoTitle (r_o q)"
  using assms by (cases "r_o r"; cases "r_o q"; simp add: fixedOpts_def)+

lemma fixedOpts_upd [simp]:
  "fixedOpts (q\<lparr>r_paused := b\<rparr>) = fixedOpts q" "fixedOpts (q\<lparr>r_force := b\<rparr>) = fixedOpts q"
  "fixedOpts (q\<lparr>r_showHelp := b\<rparr>) = fixedOpts q" "fixedOpts (q\<lparr>r_helpView := v\<rparr>) = fixedOpts q"
  "fixedOpts (q\<lparr>r_differ := d\<rparr>) = fixedOpts q" "fixedOpts (paint e q) = fixedOpts q"
  "fixedOpts (setInterval e i q) = fixedOpts q"
  "fixedOpts (q\<lparr>r_ctxErr := x\<rparr>) = fixedOpts q" "fixedOpts (q\<lparr>r_deferred := ks\<rparr>) = fixedOpts q"
  "fixedOpts (q\<lparr>r_o := (r_o q)\<lparr>o_keysOpen := c\<rparr>\<rparr>) = fixedOpts q"
  by (simp_all add: fixedOpts_def setInterval_def Let_def)

lemma key_keeps [simp]:
  "fixedOpts (fst (key e k r)) = fixedOpts r"
  "o_keysOpen (r_o (fst (key e k r))) = o_keysOpen (r_o r)"
proof -
  have o: "o_keysOpen (r_o (setInterval e d r)) = o_keysOpen (r_o r)" for d
    by (simp add: setInterval_def Let_def)
  have "fixedOpts (fst (key e k r)) = fixedOpts r
    \<and> o_keysOpen (r_o (fst (key e k r))) = o_keysOpen (r_o r)"
  proof (cases "scrollKey k r")
    case None
    then show ?thesis by (simp add: key_def togglePause_def Let_def o)
  next
    case (Some r')
    then show ?thesis using scrollKey_keeps(1) [OF Some] by (simp add: key_def fixedOpts_def)
  qed
  then show "fixedOpts (fst (key e k r)) = fixedOpts r"
    "o_keysOpen (r_o (fst (key e k r))) = o_keysOpen (r_o r)" by simp_all
qed

text \<open>The keys a refresh receives: those before the channel closes, in order.\<close>

fun delivered :: "(env \<times> refreshEvent) list \<Rightarrow> keyCode list" where
  "delivered [] = []"
| "delivered ((e, RKeysClosed) # evs) = []"
| "delivered ((e, RKey b) # evs) = b # delivered evs"

definition firstAbort :: "keyCode list \<Rightarrow> keyCode" where
  "firstAbort ks = (case filter (\<lambda>k. classifyKey k = KeyAbort) ks of [] \<Rightarrow> 0 | k # _ \<Rightarrow> k)"

lemma refreshLoop_closed:
  "\<not> o_keysOpen (r_o r) \<Longrightarrow> refreshLoop evs a r = (r, a)"
  by (induction evs a r rule: refreshLoop.induct) auto

lemma classifyKey_abort: "classifyKey k = KeyAbort \<Longrightarrow> k \<noteq> 0"
  by (auto simp: classifyKey_def key_consts split: if_splits)

lemma refreshLoop_keeps:
  assumes "refreshLoop evs a r = (q, b)"
  shows "refreshState (q\<lparr>r_deferred := ks\<rparr>) = refreshState (r\<lparr>r_deferred := ks\<rparr>)"
    and "fixedOpts q = fixedOpts r"
    and "intervalInv r \<Longrightarrow> intervalInv q"
    and "o_keysOpen (r_o r) \<Longrightarrow> r_deferred q = r_deferred r @
       filter (\<lambda>k. classifyKey k = KeyDeferred) (delivered evs)"
    and "o_keysOpen (r_o r) \<Longrightarrow> b = (if a = 0 then firstAbort (delivered evs) else a)"
proof -
  have "refreshState (q\<lparr>r_deferred := ks\<rparr>) = refreshState (r\<lparr>r_deferred := ks\<rparr>)
    \<and> fixedOpts q = fixedOpts r \<and> (intervalInv r \<longrightarrow> intervalInv q)
    \<and> (o_keysOpen (r_o r) \<longrightarrow> r_deferred q = r_deferred r @
       filter (\<lambda>k. classifyKey k = KeyDeferred) (delivered evs)
       \<and> b = (if a = 0 then firstAbort (delivered evs) else a))"
    using assms
  proof (induction evs arbitrary: a r)
    case Nil
    then show ?case by (simp add: firstAbort_def)
  next
    case (Cons p evs)
    obtain e ev where p: "p = (e, ev)" by fastforce
    show ?case
    proof (cases "o_keysOpen (r_o r)")
      case False
      then show ?thesis using Cons.prems p by (simp add: refreshLoop_closed)
    next
      case True
      note opn = True
      show ?thesis
      proof (cases ev)
        case RKeysClosed
        then have "refreshLoop evs a (r\<lparr>r_o := (r_o r)\<lparr>o_keysOpen := False\<rparr>\<rparr>) = (q, b)"
          using Cons.prems p opn by simp
        moreover have "intervalInv r \<longrightarrow> intervalInv (r\<lparr>r_o := (r_o r)\<lparr>o_keysOpen := False\<rparr>\<rparr>)"
          by (simp add: intervalInv_def)
        ultimately show ?thesis
          using RKeysClosed p
          by (simp add: refreshLoop_closed) (auto simp: firstAbort_def refreshState_def)
      next
        case (RKey k)
        show ?thesis
        proof (cases "classifyKey k")
          case KeyDeferred
          then show ?thesis
            using Cons.prems Cons.IH [of a "r\<lparr>r_deferred := r_deferred r @ [k]\<rparr>"] p opn RKey
            by (auto simp: firstAbort_def intervalInv_def refreshState_def)
        next
          case KeyAbort
          then show ?thesis
            using Cons.prems Cons.IH [of "if a = 0 then k else a" r] p opn RKey classifyKey_abort [OF KeyAbort]
            by (auto simp: firstAbort_def)
        next
          case KeyImmediate
          obtain r1 ev1 c1 where k1: "key e k r = (r1, ev1, c1)" by (metis prod_cases3)
          have s: "refreshState r1 = refreshState r"
            using key_immediate(1) [OF KeyImmediate k1] .
          have "refreshState (r1\<lparr>r_deferred := ks\<rparr>) = refreshState (r\<lparr>r_deferred := ks\<rparr>)"
            "r_deferred r1 = r_deferred r"
            using s by (simp_all add: refreshState_def)
          then show ?thesis
            using Cons.prems Cons.IH [of a r1] p opn RKey KeyImmediate k1 key_keeps [of e k r]
              intervalInv_key [of r e k]
            by (auto simp: firstAbort_def)
        qed
      qed
    qed
  qed
  then show "refreshState (q\<lparr>r_deferred := ks\<rparr>) = refreshState (r\<lparr>r_deferred := ks\<rparr>)"
    "fixedOpts q = fixedOpts r" "intervalInv r \<Longrightarrow> intervalInv q"
    "o_keysOpen (r_o r) \<Longrightarrow> r_deferred q = r_deferred r @
       filter (\<lambda>k. classifyKey k = KeyDeferred) (delivered evs)"
    "o_keysOpen (r_o r) \<Longrightarrow> b = (if a = 0 then firstAbort (delivered evs) else a)" by blast+
qed

section \<open>One tick\<close>

text \<open>The runner a refresh starts from.\<close>

definition tickStart :: "tickInput \<Rightarrow> runner \<Rightarrow> runner" where
  "tickStart i r = r\<lparr>r_tickAt := e_now (ti_start i), r_attempts := r_attempts r + 1,
     r_differ := BeginFrame (r_differ r)\<rparr>"

text \<open>The three ways a tick goes: stopped by a key, failed, rendered.\<close>

lemma tick_aborted:
  assumes "refreshLoop (ti_events i) 0 (tickStart i r) = (q, a)" and "a \<noteq> 0"
  shows "tick i r = (case keyLoop (ti_end i) a
      (q\<lparr>r_differ := Rollback (fold highlightTable (ro_tables (ti_render i)) (r_differ q))\<rparr>)
      of (r', ev) \<Rightarrow> (r', Inr (ev = EvQuit)))"
  using assms by (simp add: tick_def refresh_def tickStart_def Let_def)

lemma tick_aborted_fst:
  assumes "refreshLoop (ti_events i) 0 (tickStart i r) = (q, a)" and "a \<noteq> 0"
  shows "fst (tick i r) = fst (keyLoop (ti_end i) a
      (q\<lparr>r_differ := Rollback (fold highlightTable (ro_tables (ti_render i)) (r_differ q))\<rparr>))"
  using tick_aborted [OF assms] by (simp split: prod.split)

lemma tick_failed:
  assumes "refreshLoop (ti_events i) 0 (tickStart i r) = (q, 0)" and "ro_err (ti_render i) = Some err"
  shows "tick i r = (case recordError err
      (q\<lparr>r_differ := Rollback (fold highlightTable (ro_tables (ti_render i)) (r_differ q))\<rparr>) of
        (r', Some fatal) \<Rightarrow> (r', Inl fatal)
      | (r', None) \<Rightarrow> (paint (ti_end i) r', Inr (countReached (paint (ti_end i) r'))))"
  using assms by (simp add: tick_def refresh_def tickStart_def Let_def split: prod.split option.split)

lemma tick_failed_fst:
  assumes "refreshLoop (ti_events i) 0 (tickStart i r) = (q, 0)" and "ro_err (ti_render i) = Some err"
    and "q' = q\<lparr>r_differ := Rollback (fold highlightTable (ro_tables (ti_render i)) (r_differ q))\<rparr>"
  shows "fst (tick i r) = fst (recordError err q')
    \<or> fst (tick i r) = paint (ti_end i) (fst (recordError err q'))"
  using tick_failed [OF assms(1,2)] assms(3) by (auto split: prod.split option.split)

definition tickRendered :: "tickInput \<Rightarrow> runner \<Rightarrow> runner" where
  "tickRendered i q =
     (let d = Commit (fold highlightTable (ro_tables (ti_render i)) (r_differ q));
          latency = e_now (ti_end i) - e_now (ti_start i)
      in backoff latency
           (q\<lparr>r_differ := d, r_errs := 0, r_lastErr := None, r_frames := r_frames q + 1,
              r_lastOK := Some (e_now (ti_start i)),
              r_screen := accept (ro_body (ti_render i)) (ro_warn (ti_render i)) latency
                            (d_rows d) (r_screen q)\<rparr>))"

lemma tick_rendered:
  assumes "refreshLoop (ti_events i) 0 (tickStart i r) = (q, 0)" and "ro_err (ti_render i) = None"
  shows "fst (tick i r) = paint (ti_end i) (tickRendered i q)"
    and "countReached (tickRendered i q) \<Longrightarrow> snd (tick i r) = Inr True"
    and "\<not> isl (snd (tick i r))"
  using assms
  by (simp_all add: tick_def refresh_def tickStart_def tickRendered_def Let_def countReached_def)

lemma intervalInv_more [simp]:
  "intervalInv (q\<lparr>r_tickAt := x\<rparr>) = intervalInv q" "intervalInv (q\<lparr>r_attempts := n\<rparr>) = intervalInv q"
  "intervalInv (q\<lparr>r_errs := n\<rparr>) = intervalInv q" "intervalInv (q\<lparr>r_lastErr := le\<rparr>) = intervalInv q"
  "intervalInv (q\<lparr>r_frames := m\<rparr>) = intervalInv q" "intervalInv (q\<lparr>r_lastOK := ok\<rparr>) = intervalInv q"
  "intervalInv (q\<lparr>r_screen := s\<rparr>) = intervalInv q" "intervalInv (q\<lparr>r_skipped := n\<rparr>) = intervalInv q"
  "intervalInv (q\<lparr>r_errOut := bs\<rparr>) = intervalInv q" "intervalInv (q\<lparr>r_ctxErr := le\<rparr>) = intervalInv q"
  "intervalInv (q\<lparr>r_deferred := ks\<rparr>) = intervalInv q"
  "intervalInv (q\<lparr>r_o := (r_o q)\<lparr>o_keysOpen := c\<rparr>\<rparr>) = intervalInv q"
  by (simp_all add: intervalInv_def)

lemma fixedOpts_more [simp]:
  "fixedOpts (q\<lparr>r_tickAt := x\<rparr>) = fixedOpts q" "fixedOpts (q\<lparr>r_attempts := n\<rparr>) = fixedOpts q"
  "fixedOpts (q\<lparr>r_errs := n\<rparr>) = fixedOpts q" "fixedOpts (q\<lparr>r_lastErr := le\<rparr>) = fixedOpts q"
  "fixedOpts (q\<lparr>r_frames := m\<rparr>) = fixedOpts q" "fixedOpts (q\<lparr>r_lastOK := ok\<rparr>) = fixedOpts q"
  "fixedOpts (q\<lparr>r_screen := s\<rparr>) = fixedOpts q" "fixedOpts (q\<lparr>r_skipped := n\<rparr>) = fixedOpts q"
  "fixedOpts (q\<lparr>r_errOut := bs\<rparr>) = fixedOpts q" "fixedOpts (q\<lparr>r_interval := x\<rparr>) = fixedOpts q"
  by (simp_all add: fixedOpts_def)

lemma intervalInv_backoff: "intervalInv q \<Longrightarrow> intervalInv (backoff l q)"
  by (auto simp: backoff_def Let_def intervalInv_def interval_defs)

lemma intervalInv_recordError: "intervalInv q \<Longrightarrow> intervalInv (fst (recordError err q))"
  by (simp add: recordError_def Let_def)

lemma fixedOpts_recordError: "fixedOpts (fst (recordError err q)) = fixedOpts q"
  by (simp add: recordError_def Let_def)

lemma keyLoop_fst: "fst (keyLoop e k r) = fst (key e k r)
    \<or> fst (keyLoop e k r) = (fst (key e k r))\<lparr>r_ctxErr := Some canceledErr\<rparr>"
  by (cases "key e k r") (simp add: keyLoop_def Let_def)

lemma keyLoop_keeps:
  "fixedOpts (fst (keyLoop e k r)) = fixedOpts r"
  "intervalInv r \<Longrightarrow> intervalInv (fst (keyLoop e k r))"
  using keyLoop_fst [of e k r] intervalInv_key [of r e k] by auto

text \<open>Case analysis on a tick, for a predicate that the steps of a tick keep.\<close>

lemma tick_cases:
  obtains (aborted) q a where "refreshLoop (ti_events i) 0 (tickStart i r) = (q, a)" "a \<noteq> 0"
  | (failed) q err where "refreshLoop (ti_events i) 0 (tickStart i r) = (q, 0)"
      "ro_err (ti_render i) = Some err"
  | (rendered) q where "refreshLoop (ti_events i) 0 (tickStart i r) = (q, 0)"
      "ro_err (ti_render i) = None"
  by (cases "refreshLoop (ti_events i) 0 (tickStart i r)") (metis option.exhaust)

lemma tick_keeps:
  shows "fixedOpts (fst (tick i r)) = fixedOpts r"
    and "intervalInv r \<Longrightarrow> intervalInv (fst (tick i r))"
proof -
  have "fixedOpts (fst (tick i r)) = fixedOpts r \<and> (intervalInv r \<longrightarrow> intervalInv (fst (tick i r)))"
  proof (cases rule: tick_cases [of i r])
    case (aborted q a)
    note keeps = refreshLoop_keeps(2,3) [OF aborted(1)]
    let ?q = "q\<lparr>r_differ := Rollback (fold highlightTable (ro_tables (ti_render i)) (r_differ q))\<rparr>"
    show ?thesis
      using tick_aborted_fst [OF aborted] keeps keyLoop_keeps [where e = "ti_end i" and k = a and r = ?q] by (auto simp: tickStart_def)
  next
    case (failed q err)
    note keeps = refreshLoop_keeps(2,3) [OF failed(1)]
    let ?q = "q\<lparr>r_differ := Rollback (fold highlightTable (ro_tables (ti_render i)) (r_differ q))\<rparr>"
    show ?thesis
      using tick_failed_fst [OF failed refl] keeps intervalInv_recordError [of ?q err] fixedOpts_recordError [of err ?q]
      by (auto simp: tickStart_def)
  next
    case (rendered q)
    note keeps = refreshLoop_keeps(2,3) [OF rendered(1)]
    have "fixedOpts (tickRendered i q) = fixedOpts q"
      by (simp add: tickRendered_def backoff_def Let_def)
    moreover have "intervalInv q \<longrightarrow> intervalInv (tickRendered i q)"
      by (auto simp: tickRendered_def Let_def intro: intervalInv_backoff)
    ultimately show ?thesis
      using keeps tick_rendered(1) [OF rendered] by (simp add: tickStart_def)
  qed
  then show "fixedOpts (fst (tick i r)) = fixedOpts r"
    "intervalInv r \<Longrightarrow> intervalInv (fst (tick i r))" by blast+
qed

interpretation pace: loop_invariant intervalInv
proof unfold_locales
  show "intervalInv r \<Longrightarrow> intervalInv (fst (tick i (r\<lparr>r_force := False\<rparr>)))" for r i
    by (simp add: tick_keeps(2))
qed (simp_all add: keyLoop_keeps noteSkips_def Let_def)

interpretation config: loop_invariant "\<lambda>r. fixedOpts r = c" for c
  by unfold_locales (simp_all add: keyLoop_keeps tick_keeps noteSkips_def Let_def)

text \<open>
  C22. Whatever keys, resizes, slow refreshes and failures a watch sees, the interval in force
  never drops below the floor, and as long as the interval asked for is at most an hour, the loop
  refreshes no more often than asked and at least hourly.
\<close>

theorem watch_interval_stays_bounded:
  assumes "MinInterval \<le> r_interval r" and "o_Interval (r_o r) = r_interval r"
    and "watchLoop is r = (r', res)"
  shows "MinInterval \<le> r_interval r'
    \<and> (o_Interval (r_o r') \<le> MaxInterval
       \<longrightarrow> o_Interval (r_o r') \<le> r_interval r' \<and> r_interval r' \<le> MaxInterval)"
proof -
  have "intervalInv r" using assms(1,2) by (simp add: intervalInv_def)
  then have "intervalInv r'" using pace.loop_preserves [of r "is"] assms(3) by simp
  then show ?thesis by (simp add: intervalInv_def)
qed

text \<open>A refresh of 300 ms that renders one line, followed by the next deadline.\<close>

definition sampleRender :: renderOutcome where
  "sampleRender = \<lparr>ro_tables = [], ro_body = ''vm-1'', ro_warn = [], ro_err = None\<rparr>"

definition sampleTick :: "(env \<times> refreshEvent) list \<Rightarrow> go_err option \<Rightarrow> tickInput" where
  "sampleTick evs err =
     \<lparr>ti_start = sampleEnv 0, ti_events = evs, ti_render = sampleRender\<lparr>ro_err := err\<rparr>,
      ti_end = sampleEnv (300 * millisecond)\<rparr>"

definition sampleRound :: "(env \<times> refreshEvent) list \<Rightarrow> roundInput" where
  "sampleRound evs =
     \<lparr>ri_ctxErr = None, ri_tick = sampleTick evs None,
      ri_wait = [(sampleEnv (400 * millisecond), WAfter)]\<rparr>"

theorem watch_interval_stays_bounded_witness:
  "MinInterval \<le> r_interval (fst (watchLoop [sampleRound [(sampleEnv 1, RKey keyFaster)], sampleRound []]
     (newRunner sampleOpts None)))"
proof -
  let ?is = "[sampleRound [(sampleEnv 1, RKey keyFaster)], sampleRound []]"
  have "MinInterval \<le> r_interval (newRunner sampleOpts None)"
    "o_Interval (r_o (newRunner sampleOpts None)) = r_interval (newRunner sampleOpts None)"
    by (simp_all add: newRunner_def sampleOpts_def interval_defs)
  from watch_interval_stays_bounded [OF this, of ?is "fst (watchLoop ?is (newRunner sampleOpts None))"
      "snd (watchLoop ?is (newRunner sampleOpts None))"]
  show ?thesis by simp
qed

text \<open>
  C19. While a refresh is in flight the keyboard cannot disturb it: the differ, the frame on
  screen, the counters and the error state are what they were, whatever is typed; the keys that
  need them are queued in the order they were typed with none lost, and the first of the keys
  that stop a refresh is the one reported.
\<close>

theorem keys_do_not_disturb_refresh:
  assumes "o_keysOpen (r_o r)" and "refreshLoop evs 0 r = (q, aborted)"
  shows "refreshState (q\<lparr>r_deferred := r_deferred r\<rparr>) = refreshState r
    \<and> r_deferred q = r_deferred r @ filter (\<lambda>k. classifyKey k = KeyDeferred) (delivered evs)
    \<and> aborted = firstAbort (delivered evs)"
  using refreshLoop_keeps [OF assms(2)] assms(1) by simp

definition sampleKeys :: "(env \<times> refreshEvent) list" where
  "sampleKeys = map (\<lambda>k. (sampleEnv 1, RKey k)) [keyDiff, keyHelp, keyRefresh, keyQuit, keyETX]"

theorem keys_do_not_disturb_refresh_witness:
  "snd (refreshLoop sampleKeys 0 (newRunner sampleOpts None)) = keyQuit
   \<and> r_deferred (fst (refreshLoop sampleKeys 0 (newRunner sampleOpts None))) = [keyDiff, keyRefresh]"
proof -
  let ?r = "newRunner sampleOpts None"
  have "o_keysOpen (r_o ?r)" "r_deferred ?r = []" by (simp_all add: newRunner_def sampleOpts_def)
  moreover have "filter (\<lambda>k. classifyKey k = KeyDeferred) (delivered sampleKeys) = [keyDiff, keyRefresh]"
    "firstAbort (delivered sampleKeys) = keyQuit"
    by (simp_all add: sampleKeys_def firstAbort_def classifyKey_def key_consts)
  ultimately show ?thesis
    using keys_do_not_disturb_refresh [OF _ surjective_pairing, of ?r sampleKeys] by simp
qed

section \<open>Failed refreshes\<close>

text \<open>When a failed refresh ends the loop.\<close>

definition fatalError :: "runner \<Rightarrow> go_err \<Rightarrow> bool" where
  "fatalError r err \<longleftrightarrow>
     isErr err Canceled \<or> isErr err DeadlineExceeded \<or> isAuthFailure err
     \<or> (r_frames r = 0 \<and> \<not> isTransient err) \<or> o_ErrorMode (r_o r) = ErrorsExit"

lemma recordError_verdict:
  "snd (recordError err r) = (if fatalError r err then Some err else None)"
  by (simp add: recordError_def fatalError_def Let_def)

lemma recordError_keeps:
  "r_differ (fst (recordError err r)) = r_differ r" "r_frames (fst (recordError err r)) = r_frames r"
  "s_body (r_screen (fst (recordError err r))) = s_body (r_screen r)"
  "s_warn (r_screen (fst (recordError err r))) = s_warn (r_screen r)"
  "r_lastOK (fst (recordError err r)) = r_lastOK r"
  "r_attempts (fst (recordError err r)) = r_attempts r"
  "r_interval (fst (recordError err r)) = r_interval r"
  "r_ctxErr (fst (recordError err r)) = r_ctxErr r"
  by (simp_all add: recordError_def reject_def Let_def)

lemma recordError_tolerated:
  "\<not> fatalError r err \<Longrightarrow> r_errs (fst (recordError err r)) = r_errs r + 1
     \<and> r_lastErr (fst (recordError err r)) = Some err"
  by (simp add: recordError_def fatalError_def Let_def)

lemma highlightTable_prev [simp]: "d_prev (fold highlightTable ts d) = d_prev d"
  by (rule frames.base_fold)

text \<open>
  C2. A refresh that fails never takes the last good frame away: the body and the warnings on
  screen, the baseline the next frame is compared with and the time of the last success are kept.
  It ends the watch with that error exactly when the error is a cancellation, a rejected
  credential (whatever the error mode), a settled failure before anything was shown, or any error
  in exit mode; otherwise it is counted and the loop goes on.
\<close>

theorem failed_refresh_keeps_last_good_frame:
  assumes "refreshLoop (ti_events i) 0 (tickStart i r) = (q, 0)"
    and "ro_err (ti_render i) = Some err" and "tick i r = (r', res)"
  shows "s_body (r_screen r') = s_body (r_screen r) \<and> s_warn (r_screen r') = s_warn (r_screen r)
    \<and> d_prev (r_differ r') = d_prev (r_differ r) \<and> r_frames r' = r_frames r
    \<and> r_lastOK r' = r_lastOK r
    \<and> (if fatalError r err then res = Inl err
       else res = Inr (countReached r') \<and> r_errs r' = r_errs r + 1 \<and> r_lastErr r' = Some err)"
proof -
  let ?q = "q\<lparr>r_differ := Rollback (fold highlightTable (ro_tables (ti_render i)) (r_differ q))\<rparr>"
  note keeps = refreshLoop_keeps(1) [OF assms(1), THEN refreshState_fields(1)]
    refreshLoop_keeps(1) [OF assms(1), THEN refreshState_fields(2)]
    refreshLoop_keeps(1) [OF assms(1), THEN refreshState_fields(4)]
    refreshLoop_keeps(1) [OF assms(1), THEN refreshState_fields(7)]
    refreshLoop_keeps(1) [OF assms(1), THEN refreshState_fields(12)]
    refreshLoop_keeps(1) [OF assms(1), THEN refreshState_fields(13)]
  have same: "s_body (r_screen q) = s_body (r_screen r)" "s_warn (r_screen q) = s_warn (r_screen r)"
    "r_frames q = r_frames r" "r_lastOK q = r_lastOK r" "r_errs q = r_errs r"
    "r_differ q = BeginFrame (r_differ r)"
    using keeps by (simp_all add: tickStart_def)
  have opts: "o_ErrorMode (r_o q) = o_ErrorMode (r_o r)"
    using fixedOpts_fields(2) [OF refreshLoop_keeps(2) [OF assms(1)]] by (simp add: tickStart_def)
  have prev: "d_prev (r_differ ?q) = d_prev (r_differ r)"
    by (simp add: Rollback_def same BeginFrame_def)
  have fatal: "fatalError ?q err = fatalError r err"
    by (simp add: fatalError_def same opts)
  obtain r1 f where r1: "recordError err ?q = (r1, f)" by fastforce
  have f: "f = (if fatalError r err then Some err else None)"
    using recordError_verdict [of err ?q] fatal r1 by simp
  have k: "r_differ r1 = r_differ ?q" "r_frames r1 = r_frames r" "r_lastOK r1 = r_lastOK r"
    "s_body (r_screen r1) = s_body (r_screen r)" "s_warn (r_screen r1) = s_warn (r_screen r)"
    using recordError_keeps [of err ?q] r1 same by simp_all
  have tol: "\<not> fatalError r err \<Longrightarrow> r_errs r1 = r_errs r + 1 \<and> r_lastErr r1 = Some err"
    using recordError_tolerated [of ?q err] fatal r1 same by simp
  show ?thesis
    using tick_failed [OF assms(1,2)] assms(3) r1 f k prev tol
    by (auto split: if_splits)
qed

definition serviceUnavailable :: go_err where
  "serviceUnavailable = GoErr (ErrUnexpectedResponseCode 503) ''503 Service Unavailable'' None []"

theorem failed_refresh_keeps_last_good_frame_witness:
  "s_body (r_screen (fst (tick (sampleTick [] (Some serviceUnavailable)) (newRunner sampleOpts None)))) = []
   \<and> r_errs (fst (tick (sampleTick [] (Some serviceUnavailable)) (newRunner sampleOpts None))) = 1"
proof -
  let ?i = "sampleTick [] (Some serviceUnavailable)" and ?r = "newRunner sampleOpts None"
  have "refreshLoop (ti_events ?i) 0 (tickStart ?i ?r) = (tickStart ?i ?r, 0)"
    "ro_err (ti_render ?i) = Some serviceUnavailable"
    by (simp_all add: sampleTick_def)
  note failed_refresh_keeps_last_good_frame [OF this surjective_pairing]
  moreover have "\<not> fatalError ?r serviceUnavailable"
    by (simp add: fatalError_def isErr_def isAuthFailure_def reauthFailure_def httpStatus_def
        isTransient.simps serviceUnavailable_def newRunner_def sampleOpts_def ErrorsTolerate_def
        ErrorsExit_def)
  ultimately show ?thesis by (simp add: newRunner_def newScreen_def)
qed

section \<open>Counted watches end\<close>

lemma key_counts [simp]:
  "r_attempts (fst (key e k r)) = r_attempts r" "r_ctxErr (fst (key e k r)) = r_ctxErr r"
proof -
  have "r_attempts (fst (key e k r)) = r_attempts r \<and> r_ctxErr (fst (key e k r)) = r_ctxErr r"
  proof (cases "scrollKey k r")
    case None
    then show ?thesis
      using refreshState_fields(3,10) [OF setInterval_keeps(1)]
      by (simp add: key_def togglePause_def Let_def)
  next
    case (Some r')
    then show ?thesis
      using refreshState_fields(3,10) [OF scrollKey_keeps(5) [OF Some]] by (simp add: key_def)
  qed
  then show "r_attempts (fst (key e k r)) = r_attempts r" "r_ctxErr (fst (key e k r)) = r_ctxErr r"
    by simp_all
qed

lemma keyLoop_counts:
  "r_attempts (fst (keyLoop e k r)) = r_attempts r"
  "r_ctxErr r \<noteq> None \<Longrightarrow> r_ctxErr (fst (keyLoop e k r)) \<noteq> None"
  using keyLoop_fst [of e k r] by auto

lemma keyLoop_abort:
  "classifyKey k = KeyAbort \<Longrightarrow> snd (keyLoop e k r) = EvQuit \<or> r_ctxErr (fst (keyLoop e k r)) \<noteq> None"
  by (auto simp: classifyKey_def keyLoop_def key_def scrollKey_def key_consts Let_def split: if_splits)

lemma firstAbort_class: "firstAbort ks \<noteq> 0 \<Longrightarrow> classifyKey (firstAbort ks) = KeyAbort"
proof -
  assume "firstAbort ks \<noteq> 0"
  then obtain k rest where f: "filter (\<lambda>k. classifyKey k = KeyAbort) ks = k # rest"
    by (auto simp: firstAbort_def split: list.splits)
  then have "classifyKey k = KeyAbort" by (metis (mono_tags, lifting) filter_eq_ConsD)
  with f show ?thesis by (simp add: firstAbort_def)
qed

interpretation attempts: wait_invariant "\<lambda>r. r_attempts r = n" for n
  by unfold_locales (simp_all add: keyLoop_counts noteSkips_def Let_def)

interpretation cancelled: wait_invariant "\<lambda>r. r_ctxErr r \<noteq> None"
proof unfold_locales
  show "r_ctxErr r \<noteq> None \<Longrightarrow> r_ctxErr (fst (keyLoop e k r)) \<noteq> None" for r e k
    by (rule keyLoop_counts(2))
qed (simp_all add: noteSkips_def Let_def)

lemma refreshLoop_abort_class:
  assumes "refreshLoop evs 0 r = (q, a)" and "a \<noteq> 0"
  shows "classifyKey a = KeyAbort"
proof (cases "o_keysOpen (r_o r)")
  case True
  then show ?thesis using refreshLoop_keeps(5) [OF assms(1) True] firstAbort_class assms(2) by simp
next
  case False
  then show ?thesis using assms refreshLoop_closed by simp
qed

lemma tick_attempts: "r_attempts (fst (tick i r)) = r_attempts r + 1"
proof (cases rule: tick_cases [of i r])
  case (aborted q a)
  have "r_attempts q = r_attempts r + 1"
    using refreshLoop_keeps(1) [OF aborted(1), THEN refreshState_fields(3)] by (simp add: tickStart_def)
  then show ?thesis
    using tick_aborted_fst [OF aborted] keyLoop_counts(1) by simp
next
  case (failed q err)
  have "r_attempts q = r_attempts r + 1"
    using refreshLoop_keeps(1) [OF failed(1), THEN refreshState_fields(3)] by (simp add: tickStart_def)
  then show ?thesis
    using tick_failed_fst [OF failed refl] recordError_keeps(6) by auto
next
  case (rendered q)
  have "r_attempts q = r_attempts r + 1"
    using refreshLoop_keeps(1) [OF rendered(1), THEN refreshState_fields(3)] by (simp add: tickStart_def)
  then show ?thesis
    using tick_rendered(1) [OF rendered] by (simp add: tickRendered_def backoff_def Let_def)
qed

lemma tick_continues:
  assumes "0 < o_Count (r_o r)" and "snd (tick i r) = Inr False"
  shows "r_attempts r + 1 < o_Count (r_o r) \<or> r_ctxErr (fst (tick i r)) \<noteq> None"
proof -
  have at: "r_attempts (fst (tick i r)) = r_attempts r + 1"
    "o_Count (r_o (fst (tick i r))) = o_Count (r_o r)"
    using tick_attempts fixedOpts_fields(1) [OF tick_keeps(1)] by auto
  have reached: "r_attempts r + 1 < o_Count (r_o r)" if "\<not> countReached (fst (tick i r))"
    using that at assms(1) by (simp add: countReached_def)
  show ?thesis
  proof (cases rule: tick_cases [of i r])
    case (aborted q a)
    let ?q = "q\<lparr>r_differ := Rollback (fold highlightTable (ro_tables (ti_render i)) (r_differ q))\<rparr>"
    obtain r' ev where k: "keyLoop (ti_end i) a ?q = (r', ev)" by fastforce
    then have "ev \<noteq> EvQuit" "fst (tick i r) = r'" using tick_aborted [OF aborted] assms(2) by simp_all
    then show ?thesis
      using k keyLoop_abort [OF refreshLoop_abort_class [OF aborted], of "ti_end i" ?q] by simp
  next
    case (failed q err)
    then show ?thesis
      using tick_failed [OF failed] assms(2) reached by (auto split: prod.splits option.splits)
  next
    case (rendered q)
    then have "\<not> countReached (tickRendered i q)" using tick_rendered(2) assms(2) by auto
    then show ?thesis using reached tick_rendered(1) [OF rendered] by (simp add: countReached_def)
  qed
qed

text \<open>One round of the loop, given what its tick and its wait do.\<close>

definition roundTick :: "roundInput \<Rightarrow> runner \<Rightarrow> runner \<times> (go_err + bool)" where
  "roundTick i r =
     (if r_force r \<or> \<not> r_paused r then tick (ri_tick i) (r\<lparr>r_force := False\<rparr>) else (r, Inr False))"

lemma watchLoop_round:
  assumes "r_ctxErr r = None" and "ri_ctxErr i = None"
  shows "watchLoop (i # is) r =
    (case roundTick i r of
       (q, Inl e) \<Rightarrow> (q, Some (Some e))
     | (q, Inr True) \<Rightarrow> (q, Some None)
     | (q, Inr False) \<Rightarrow>
         (case waitLoop (ri_wait i) q of
            (w, None) \<Rightarrow> (w, None)
          | (w, Some (Inl e)) \<Rightarrow> (w, Some (Some e))
          | (w, Some (Inr EvQuit)) \<Rightarrow> (w, Some None)
          | (w, Some (Inr EvTick)) \<Rightarrow> watchLoop is w
          | (w, Some (Inr EvNone)) \<Rightarrow> watchLoop is w))"
  using assms by (simp add: roundTick_def)

lemma watchLoop_ctx:
  "(case r_ctxErr r of Some e \<Rightarrow> Some e | None \<Rightarrow> ri_ctxErr i) = Some e \<Longrightarrow>
     watchLoop (i # is) r = (r, Some (Some e))"
  by simp

declare watchLoop.simps(2) [simp del]

lemma watchLoop_attempts:
  assumes "0 < n" and "o_Count (r_o r) = n" and "r_attempts r \<le> n"
    and "r_attempts r < n \<or> r_ctxErr r \<noteq> None"
  shows "r_attempts (fst (watchLoop is r)) \<le> n
    \<and> (snd (watchLoop is r) = None
       \<longrightarrow> r_attempts (fst (watchLoop is r)) < n \<or> r_ctxErr (fst (watchLoop is r)) \<noteq> None)"
  using assms(2-)
proof (induction "is" arbitrary: r)
  case Nil
  then show ?case by auto
next
  case (Cons i "is")
  show ?case
  proof (cases "case r_ctxErr r of Some e \<Rightarrow> Some e | None \<Rightarrow> ri_ctxErr i")
    case (Some e)
    then show ?thesis using watchLoop_ctx [OF Some] Cons.prems by simp
  next
    case None
    then have ctx: "r_ctxErr r = None" "ri_ctxErr i = None" by (auto split: option.splits)
    obtain q res where q: "roundTick i r = (q, res)" by fastforce
    have lt: "r_attempts r < n" using Cons.prems(3) ctx by simp
    have at: "r_attempts q \<le> n" "o_Count (r_o q) = n"
      "res = Inr False \<Longrightarrow> r_attempts q < n \<or> r_ctxErr q \<noteq> None"
    proof -
      let ?t = "tick (ri_tick i) (r\<lparr>r_force := False\<rparr>)"
      have "r_attempts (fst ?t) = r_attempts r + 1" "o_Count (r_o (fst ?t)) = n"
        "snd ?t = Inr False \<Longrightarrow> r_attempts r + 1 < n \<or> r_ctxErr (fst ?t) \<noteq> None"
        using tick_attempts fixedOpts_fields(1) [OF tick_keeps(1) [of "ri_tick i" "r\<lparr>r_force := False\<rparr>"]]
          tick_continues [of "r\<lparr>r_force := False\<rparr>" "ri_tick i"] Cons.prems(1) assms(1) by simp_all
      then show "r_attempts q \<le> n" "o_Count (r_o q) = n"
        "res = Inr False \<Longrightarrow> r_attempts q < n \<or> r_ctxErr q \<noteq> None"
        using q lt Cons.prems(1) by (auto simp: roundTick_def split: if_splits)
    qed
    obtain w wres where w: "waitLoop (ri_wait i) q = (w, wres)" by fastforce
    have wat: "r_attempts w = r_attempts q" "o_Count (r_o w) = n"
      "r_ctxErr q \<noteq> None \<Longrightarrow> r_ctxErr w \<noteq> None"
      using attempts.wait_preserves [where r = q and evs = "ri_wait i", OF refl] w at(2)
        fixedOpts_fields(1) [OF config.wait_preserves [where r = q and evs = "ri_wait i", OF refl]]
        cancelled.wait_preserves [of q "ri_wait i"] by simp_all
    then show ?thesis
      using watchLoop_round [OF ctx, of "is"] q w at Cons.IH [of w]
      by (auto split: sum.split bool.split option.split event.split)
  qed
qed

text \<open>
  A counted watch makes at most that many requests, however many of them fail, are
  interrupted or are forced by keys, and is never left running once it has made them all unless
  it has been cancelled and is about to say so.
\<close>

lemma watch_count_bounds_requests:
  assumes "0 < o_Count (r_o r)" and "r_attempts r < o_Count (r_o r)"
    and "watchLoop is r = (r', res)"
  shows "r_attempts r' \<le> o_Count (r_o r)
    \<and> (res = None \<longrightarrow> r_attempts r' < o_Count (r_o r) \<or> r_ctxErr r' \<noteq> None)"
  using watchLoop_attempts [OF assms(1) refl, of "is"] assms(2,3) by simp

lemma watch_count_bounds_requests_witness:
  "r_attempts (fst (watchLoop (replicate 9 (sampleRound sampleKeys)) (newRunner sampleOpts None))) \<le> 3"
proof -
  have "0 < o_Count (r_o (newRunner sampleOpts None))"
    "r_attempts (newRunner sampleOpts None) < o_Count (r_o (newRunner sampleOpts None))"
    by (simp_all add: newRunner_def sampleOpts_def)
  from watch_count_bounds_requests [OF this surjective_pairing]
  show ?thesis by (simp add: newRunner_def sampleOpts_def)
qed

section \<open>Unattended watches\<close>

text \<open>
  A watch with no keyboard, and rounds in which nothing but the next deadline happens.
\<close>

definition unattended :: "runner \<Rightarrow> bool" where
  "unattended r \<longleftrightarrow> \<not> o_keysOpen (r_o r) \<and> r_deferred r = [] \<and> \<not> r_paused r \<and> r_ctxErr r = None"

definition deadlineRound :: "roundInput \<Rightarrow> bool" where
  "deadlineRound i \<longleftrightarrow> ri_ctxErr i = None \<and> ri_wait i \<noteq> [] \<and> snd (hd (ri_wait i)) = WAfter"

lemma tick_unattended:
  assumes "unattended r"
  shows "unattended (fst (tick i r))"
proof -
  have l: "refreshLoop (ti_events i) 0 (tickStart i r) = (tickStart i r, 0)"
    using assms by (intro refreshLoop_closed) (simp add: unattended_def tickStart_def)
  show ?thesis
  proof (cases "ro_err (ti_render i)")
    case None
    then show ?thesis
      using tick_rendered(1) [OF l None] assms
      by (simp add: unattended_def tickRendered_def backoff_def tickStart_def Let_def)
  next
    case (Some err)
    have "unattended (fst (recordError err q))" if "unattended q" for q
      using that by (simp add: unattended_def recordError_def Let_def)
    moreover have "unattended (paint e q) = unattended q" for e q by (simp add: unattended_def)
    moreover have "unattended ((tickStart i r)\<lparr>r_differ := d\<rparr>)" for d
      using assms by (simp add: unattended_def tickStart_def)
    ultimately show ?thesis using tick_failed_fst [OF l Some refl] by metis
  qed
qed

lemma waitLoop_deadline:
  assumes "unattended r" and "deadlineRound i"
  shows "\<exists>w. waitLoop (ri_wait i) r = (w, Some (Inr EvTick)) \<and> unattended w
    \<and> r_attempts w = r_attempts r \<and> r_o w = r_o r"
proof -
  obtain e evs where i: "ri_wait i = (e, WAfter) # evs"
    using assms(2) by (cases "ri_wait i") (auto simp: deadlineRound_def)
  have "unattended (noteSkips e r)" "r_attempts (noteSkips e r) = r_attempts r"
    "r_o (noteSkips e r) = r_o r"
    using assms(1) by (simp_all add: noteSkips_def Let_def unattended_def)
  then show ?thesis using assms(1) i by (auto simp: unattended_def)
qed

text \<open>
  C20. A counted watch that nobody touches ends by itself: if only deadlines happen, the loop
  returns within as many rounds as refreshes remain, whether they succeed or fail.
\<close>

theorem counted_watch_terminates:
  assumes "unattended r" and "0 < o_Count (r_o r)" and "list_all deadlineRound is"
    and "o_Count (r_o r) - r_attempts r \<le> int (length is)" and "r_attempts r < o_Count (r_o r)"
  shows "snd (watchLoop is r) \<noteq> None"
  using assms
proof (induction "is" arbitrary: r)
  case Nil
  then show ?case by simp
next
  case (Cons i "is")
  have ctx: "r_ctxErr r = None" "ri_ctxErr i = None"
    using Cons.prems(1,3) by (simp_all add: unattended_def deadlineRound_def)
  define t where "t = tick (ri_tick i) (r\<lparr>r_force := False\<rparr>)"
  have ut: "unattended (fst t)"
    using Cons.prems(1) by (auto simp: t_def unattended_def intro!: tick_unattended [unfolded unattended_def, simplified])
  have rt: "roundTick i r = t"
    using Cons.prems(1) by (simp add: roundTick_def unattended_def t_def)
  have at: "r_attempts (fst t) = r_attempts r + 1" "o_Count (r_o (fst t)) = o_Count (r_o r)"
    using tick_attempts fixedOpts_fields(1) [OF tick_keeps(1) [of "ri_tick i" "r\<lparr>r_force := False\<rparr>"]]
    by (simp_all add: t_def)
  show ?case
  proof (cases "snd t = Inr False")
    case False
    then show ?thesis
      using watchLoop_round [OF ctx, of "is"] rt
      by (cases t) (auto split: sum.split bool.split)
  next
    case True
    then have more: "r_attempts r + 1 < o_Count (r_o r)"
      using tick_continues [of "r\<lparr>r_force := False\<rparr>" "ri_tick i"] Cons.prems(2) ut
      by (simp add: t_def unattended_def)
    obtain w where w: "waitLoop (ri_wait i) (fst t) = (w, Some (Inr EvTick))" "unattended w"
      "r_attempts w = r_attempts r + 1" "o_Count (r_o w) = o_Count (r_o r)"
      using waitLoop_deadline [OF ut, of i] Cons.prems(3) at by auto
    have "snd (watchLoop is w) \<noteq> None"
      using Cons.IH [of w] w Cons.prems(2-4) more by simp
    then show ?thesis
      using watchLoop_round [OF ctx, of "is"] rt True w(1) by (cases t) simp
  qed
qed

theorem counted_watch_terminates_witness:
  "snd (watchLoop (replicate 3 (sampleRound [])) (newRunner (sampleOpts\<lparr>o_keysOpen := False\<rparr>) None)) \<noteq> None"
  by (rule counted_watch_terminates)
    (simp_all add: unattended_def deadlineRound_def newRunner_def sampleOpts_def sampleRound_def list_all_iff)

section \<open>Pausing\<close>

text \<open>Nothing but deadlines, resizes and the end of the keyboard.\<close>

definition noKeyEvent :: "env \<times> waitEvent \<Rightarrow> bool" where
  "noKeyEvent p \<longleftrightarrow> (case snd p of WKey b \<Rightarrow> False | _ \<Rightarrow> True)"

definition held :: "runner \<Rightarrow> bool" where
  "held r \<longleftrightarrow> r_paused r \<and> \<not> r_force r \<and> r_deferred r = []"

lemma waitLoop_held:
  assumes "held r" and "list_all noKeyEvent evs"
  shows "held (fst (waitLoop evs r)) \<and> refreshState (fst (waitLoop evs r)) = refreshState r"
  using assms
proof (induction evs arbitrary: r)
  case (Cons p evs)
  obtain e ev where p: "p = (e, ev)" by fastforce
  have d: "r_deferred r = []" "\<not> untilNext e r \<le> 0"
    using Cons.prems(1) by (simp_all add: held_def untilNext_def interval_defs)
  have "held (paint e r)" "held (r\<lparr>r_o := (r_o r)\<lparr>o_keysOpen := False\<rparr>\<rparr>)"
    using Cons.prems(1) by (simp_all add: held_def)
  then show ?case
    using Cons.IH [of "paint e r"] Cons.IH [of "r\<lparr>r_o := (r_o r)\<lparr>o_keysOpen := False\<rparr>\<rparr>"] Cons.prems d p
    by (cases ev) (simp_all add: noKeyEvent_def)
qed simp

text \<open>
  A paused watch makes no request and changes nothing it has recorded for as long as nobody
  presses a key, whatever deadlines pass and however often the terminal is resized.
\<close>

lemma paused_watch_is_idle:
  assumes "r_paused r" and "\<not> r_force r" and "r_deferred r = []"
    and "list_all (\<lambda>i. list_all noKeyEvent (ri_wait i)) is"
  shows "refreshState (fst (watchLoop is r)) = refreshState r"
proof -
  have "held r" using assms(1-3) by (simp add: held_def)
  then show ?thesis
    using assms(4)
  proof (induction "is" arbitrary: r)
    case (Cons i "is")
    show ?case
    proof (cases "case r_ctxErr r of Some e \<Rightarrow> Some e | None \<Rightarrow> ri_ctxErr i")
      case (Some e)
      then show ?thesis using watchLoop_ctx [OF Some] by simp
    next
      case None
      then have ctx: "r_ctxErr r = None" "ri_ctxErr i = None" by (auto split: option.splits)
      obtain w wres where w: "waitLoop (ri_wait i) r = (w, wres)" by fastforce
      have h: "held w" "refreshState w = refreshState r"
        using waitLoop_held [OF Cons.prems(1), of "ri_wait i"] Cons.prems(2) w by simp_all
      have "roundTick i r = (r, Inr False)"
        using Cons.prems(1) by (simp add: roundTick_def held_def)
      then show ?thesis
        using watchLoop_round [OF ctx, of "is"] w h Cons.IH [OF h(1)] Cons.prems(2)
        by (auto split: option.split sum.split event.split)
    qed
  qed simp
qed

lemma paused_watch_is_idle_witness:
  "refreshState (fst (watchLoop (replicate 5 (sampleRound []))
     ((newRunner sampleOpts None)\<lparr>r_paused := True, r_force := False\<rparr>)))
   = refreshState (newRunner sampleOpts None)"
proof -
  have "list_all (\<lambda>i. list_all noKeyEvent (ri_wait i)) (replicate 5 (sampleRound []))"
    by (simp add: list_all_iff sampleRound_def noKeyEvent_def)
  from paused_watch_is_idle [OF _ _ _ this, of "(newRunner sampleOpts None)\<lparr>r_paused := True, r_force := False\<rparr>"]
  show ?thesis by (simp add: newRunner_def refreshState_def)
qed

text \<open>
  Resuming while a refresh is in flight leaves its request for another refresh behind: the
  event is discarded and the flag it sets is only cleared by the next refresh. Pressing pause
  three times during one refresh leaves the watch paused with that flag set, and the next deadline
  of the paused loop sends a request nobody asked for.
\<close>

lemma pause_toggles_leave_a_forced_refresh:
  assumes "o_keysOpen (r_o r)" and "\<not> r_paused r"
    and "q = fst (refreshLoop [(e1, RKey keyPause), (e2, RKey keyPause), (e3, RKey keyPause)] 0 r)"
  shows "r_paused q \<and> r_force q \<and> r_attempts (fst (roundTick i q)) = r_attempts q + 1"
proof -
  have c: "classifyKey keyPause = KeyImmediate" by (simp add: classifyKey_def key_consts)
  have k: "fst (key e keyPause p) = fst (togglePause e p)" for e p
    by (simp add: key_def scrollKey_def key_consts Let_def split: prod.split)
  have o: "o_keysOpen (r_o (fst (togglePause e p))) = o_keysOpen (r_o p)" for e p
    by (simp add: togglePause_def Let_def)
  have q: "q = fst (togglePause e3 (fst (togglePause e2 (fst (togglePause e1 r)))))"
    using assms(1,3) by (simp add: c k o)
  have "r_paused q \<and> r_force q" using q assms(2) by (simp add: togglePause_def Let_def)
  then show ?thesis using tick_attempts by (simp add: roundTick_def)
qed

lemma pause_toggles_leave_a_forced_refresh_witness:
  "r_paused (fst (refreshLoop (replicate 3 (sampleEnv 1, RKey keyPause)) 0 (newRunner sampleOpts None)))
   \<and> r_force (fst (refreshLoop (replicate 3 (sampleEnv 1, RKey keyPause)) 0 (newRunner sampleOpts None)))"
  using pause_toggles_leave_a_forced_refresh [OF _ _ refl, of "newRunner sampleOpts None" "sampleEnv 1" "sampleEnv 1" "sampleEnv 1"]
  by (simp add: newRunner_def sampleOpts_def numeral_3_eq_3)

section \<open>Intervals above an hour\<close>

text \<open>
  The flag accepts an interval longer than an hour, but the first refresh that succeeds
  shortens it: the backoff, which is meant only to widen the interval, caps it at the bound of
  the speed keys, and the loop refreshes hourly, more often than it was asked to.
\<close>

lemma backoff_shortens_long_intervals:
  assumes "MaxInterval < o_Interval (r_o r)" and "ti_events i = []" and "ro_err (ti_render i) = None"
  shows "r_interval (fst (tick i r)) = MaxInterval
    \<and> r_interval (fst (tick i r)) < o_Interval (r_o (fst (tick i r)))"
proof -
  have l: "refreshLoop (ti_events i) 0 (tickStart i r) = (tickStart i r, 0)" using assms(2) by simp
  show ?thesis
    using assms(1) tick_rendered(1) [OF l assms(3)]
    by (simp add: tickRendered_def backoff_def tickStart_def Let_def)
qed

lemma backoff_shortens_long_intervals_witness:
  "r_interval (fst (tick (sampleTick [] None) (newRunner (sampleOpts\<lparr>o_Interval := 2 * hour\<rparr>) None))) = MaxInterval"
  using backoff_shortens_long_intervals
    [of "newRunner (sampleOpts\<lparr>o_Interval := 2 * hour\<rparr>) None" "sampleTick [] None"]
  by (simp add: newRunner_def sampleTick_def sampleRender_def interval_defs)

end
