(* ===== verification/Watch_Paint.thy ===== *)
theory Watch_Paint
  imports Watch_Loop
begin

text \<open>
  What the parts of the watch do together: how many lines one paint occupies on the terminal
  (the viewport, the status line and the painter), and that the terminal is given back in the
  state it was found in whenever \<^verbatim>\<open>Run\<close> returns.
\<close>

section \<open>Lines of one paint\<close>

lemma vpWindow_Some: "\<exists>v' f. vpApply v lines rows reserve = Some (v', f)
    \<and> vpWindow v lines rows reserve = (v', f)"
  using vpApply_shows_a_window_total [of v lines rows reserve] by (auto simp: vpWindow_def)

lemma vpApply_lines:
  assumes "vpApply v lines rows reserve = Some (v', f)"
  shows "set (f_head f) \<union> set (f_body f) \<subseteq> set lines"
proof -
  obtain head body where hb: "stickyHead lines = (head, body)" by fastforce
  then have all: "set lines = set head \<union> set body"
    using stickyHead_append [of lines] by (metis fst_conv snd_conv set_append)
  show ?thesis
  proof (cases "0 < rows")
    case True
    then show ?thesis
      using vpApply_windowed [where v = v and reserve = reserve, OF True hb refl refl refl refl] assms all
      by (auto dest!: in_set_takeD in_set_dropD)
  next
    case False
    then show ?thesis
      using vpApply_unbounded [where v = v and reserve = reserve, OF _ hb] assms all by auto
  qed
qed

text \<open>The bytes one paint writes in repaint mode.\<close>

lemma paint_writes:
  assumes "\<not> o_Plain (r_o r)" and "\<not> s_plain (r_screen r)"
    and "reserve = (if o_NoTitle (r_o r) then 0 else 2)"
    and "vpWindow (scrollView r) (runnerLines r) (e_rows e) reserve = (v, f)"
  shows "s_out (r_screen (paint e r)) = s_out (r_screen r) @
    repaintBytes (e_cols e) (status e ((setScrollView v r)\<lparr>r_lastFrame := f\<rparr>)) f"
  using assms by (simp add: paint_def Let_def screenPaint_def repaint_def writeOut_def setScrollView_def)

lemma runnerLines_oneLine: "l \<in> set (runnerLines r) \<Longrightarrow> oneLine l"
  using helpLines_oneLine [of r] frameLines_newline
  by (auto simp: runnerLines_def list_all_iff split: if_splits)

lemma paint_newlines:
  assumes "\<not> o_Plain (r_o r)" and "\<not> s_plain (r_screen r)"
    and "oneLine (o_Title (r_o r))" and "oneLine (e_clock e)"
    and "reserve = (if o_NoTitle (r_o r) then 0 else 2)"
    and "vpApply (scrollView r) (runnerLines r) (e_rows e) reserve = Some (v, f)"
  shows "\<exists>w. s_out (r_screen (paint e r)) = s_out (r_screen r) @ w
    \<and> newlines w \<le> length (f_head f) + length (f_body f) + (if 0 < f_more f then 1 else 0)
        + (if o_NoTitle (r_o r) then 0 else 1)
    \<and> (o_NoTitle (r_o r) \<longrightarrow>
        newlines w = length (f_head f) + length (f_body f) + (if 0 < f_more f then 1 else 0))"
proof -
  let ?q = "(setScrollView v r)\<lparr>r_lastFrame := f\<rparr>"
  let ?w = "repaintBytes (e_cols e) (status e ?q) f"
  have "vpWindow (scrollView r) (runnerLines r) (e_rows e) reserve = (v, f)"
    using assms(6) by (simp add: vpWindow_def)
  from paint_writes [OF assms(1,2,5) this]
  have out: "s_out (r_screen (paint e r)) = s_out (r_screen r) @ ?w" .
  have "newline \<notin> set l" if "l \<in> set (f_head f) \<union> set (f_body f)" for l
    using that vpApply_lines [OF assms(6)] runnerLines_oneLine by blast
  moreover have "oneLine (status e ?q)" by (rule status_oneLine) (simp_all add: assms(3,4))
  ultimately have n: "newlines ?w = length (f_head f) + length (f_body f)
      + (if 0 < f_more f then 1 else 0) + (if status e ?q \<noteq> [] then 1 else 0)"
    by (rule newlines_repaintBytes)
  have "o_NoTitle (r_o r) \<Longrightarrow> status e ?q = []" by (simp add: status_def)
  then show ?thesis using out n by (intro exI [of _ ?w]) auto
qed

text \<open>
  With the status line on, a paint never scrolls the terminal: on a terminal with room for
  the pinned head, one line, the marker and the status line, one paint is one piece appended to
  the output that moves to a new line fewer times than there are rows.
\<close>

lemma paint_never_scrolls:
  assumes "\<not> o_Plain (r_o r)" and "\<not> s_plain (r_screen r)" and "\<not> o_NoTitle (r_o r)"
    and "oneLine (o_Title (r_o r))" and "oneLine (e_clock e)"
    and "int (length (fst (stickyHead (runnerLines r)))) + 4 \<le> e_rows e"
  shows "\<exists>w. s_out (r_screen (paint e r)) = s_out (r_screen r) @ w \<and> int (newlines w) < e_rows e"
proof -
  obtain v f where vf: "vpApply (scrollView r) (runnerLines r) (e_rows e) 2 = Some (v, f)"
    using vpApply_shows_a_window_total by blast
  have "int (length (f_head f)) + int (length (f_body f)) + (if 0 < f_more f then 1 else 0) + 2 \<le> e_rows e"
    by (rule vpApply_fits [OF _ _ vf]) (use assms(6) in simp_all)
  moreover obtain w where "s_out (r_screen (paint e r)) = s_out (r_screen r) @ w"
    "newlines w \<le> length (f_head f) + length (f_body f) + (if 0 < f_more f then 1 else 0) + 1"
    using paint_newlines [OF assms(1,2,4,5) refl] vf assms(3) by auto
  ultimately show ?thesis by (intro exI [of _ w]) (cases "0 < f_more f"; simp)
qed

lemma paint_never_scrolls_witness:
  "\<exists>w. s_out (r_screen (paint (sampleEnv 0) (newRunner sampleOpts None)))
       = s_out (r_screen (newRunner sampleOpts None)) @ w \<and> int (newlines w) < 24"
proof -
  let ?r = "newRunner sampleOpts None"
  have "runnerLines ?r = []"
    by (simp add: runnerLines_def newRunner_def newScreen_def frameLines_def splitLines_def
        trimRightByte_def)
  then have "int (length (fst (stickyHead (runnerLines ?r)))) + 4 \<le> e_rows (sampleEnv 0)"
    by (simp add: stickyHead_def sampleEnv_def)
  from paint_never_scrolls [OF _ _ _ _ _ this] show ?thesis
    by (simp add: newRunner_def sampleOpts_def newScreen_def sampleEnv_def newline_def)
qed

text \<open>
  With the status line off, nothing is reserved for the line the cursor ends on: a frame of
  at least as many lines as the terminal has rows, shown from its top, writes as many line ends as
  there are rows, so the terminal scrolls and the first line of the frame is lost.
\<close>

lemma untitled_paint_scrolls:
  assumes "\<not> o_Plain (r_o r)" and "\<not> s_plain (r_screen r)" and "o_NoTitle (r_o r)"
    and "oneLine (o_Title (r_o r))" and "oneLine (e_clock e)"
    and "int (length (fst (stickyHead (runnerLines r)))) + 2 \<le> e_rows e"
    and "e_rows e \<le> int (length (runnerLines r))" and "vp_offset (scrollView r) = 0"
  shows "\<exists>w. s_out (r_screen (paint e r)) = s_out (r_screen r) @ w \<and> int (newlines w) = e_rows e"
proof -
  obtain head body where hb: "stickyHead (runnerLines r) = (head, body)" by fastforce
  let ?h = "int (length head)" and ?n = "int (length body)" and ?rows = "e_rows e"
  let ?a = "availLines ?rows 0 ?h ?n"
  have len: "?h + ?n = int (length (runnerLines r))"
    using arg_cong [OF stickyHead_append [of "runnerLines r"], of length] hb by simp
  have a: "?a = (if ?n > ?rows - ?h then ?rows - ?h - 1 else ?rows - ?h)"
    using assms(6) hb by (simp add: availLines_def Let_def)
  have rows: "0 < ?rows" using assms(6) by linarith
  have off: "clampOffset (vp_offset (scrollView r)) ?n ?a = 0"
    using a len assms(7,8) by (simp add: clampOffset_def)
  have e: "min ?a ?n = ?a" using a len assms(7) by (auto split: if_splits)
  obtain v f where vf: "vpApply (scrollView r) (runnerLines r) ?rows 0 = Some (v, f)"
    using vpApply_shows_a_window_total by blast
  then have f: "f_head f = head" "f_body f = take (nat ?a) body" "f_more f = ?n - ?a"
    using vpApply_windowed [where v = "scrollView r" and reserve = 0, OF rows hb refl refl refl refl]
    by (auto simp: off e)
  have "?a \<le> ?n" using e by linarith
  then have "length (f_body f) = nat ?a" by (simp add: f(2) nat_le_iff min_absorb2)
  then have "int (length (f_head f) + length (f_body f) + (if 0 < f_more f then 1 else 0)) = ?rows"
    using f a len assms(6,7) hb by (auto split: if_splits)
  then show ?thesis
    using paint_newlines [OF assms(1,2,4,5) refl] vf assms(3) by auto
qed

definition untitledRunner :: runner where
  "untitledRunner =
     (newRunner (sampleOpts\<lparr>o_NoTitle := True\<rparr>) None)
       \<lparr>r_screen := accept [CHR ''a'', newline, CHR ''b'', newline, CHR ''c''] [] 0 3 (newScreen False True False)\<rparr>"

lemma untitled_paint_scrolls_witness:
  "\<exists>w. s_out (r_screen (paint ((sampleEnv 0)\<lparr>e_rows := 2\<rparr>) untitledRunner))
       = s_out (r_screen untitledRunner) @ w \<and> int (newlines w) = 2"
proof -
  have l: "runnerLines untitledRunner = [''a'', ''b'', ''c'']"
    by (simp add: runnerLines_def untitledRunner_def newRunner_def accept_def frameLines_def
        splitLines_def trimRightByte_def newline_def)
  show ?thesis
    using untitled_paint_scrolls [of untitledRunner "(sampleEnv 0)\<lparr>e_rows := 2\<rparr>"] l
    by (simp add: untitledRunner_def newRunner_def sampleOpts_def accept_def newScreen_def
        sampleEnv_def newline_def stickyHead_def scrollView_def emptyViewport_def)
qed

section \<open>The terminal is given back\<close>

abbreviation wroteAfter :: "gostring \<Rightarrow> runner \<Rightarrow> bool" where
  "wroteAfter before r \<equiv> \<exists>w. s_out (r_screen r) = before @ w"

lemma screenPaint_appends: "\<exists>w. s_out (screenPaint c st f ov s) = s_out s @ w"
  by (simp add: screenPaint_def appendFrame_def repaint_def writeOut_def stripRepeatHeader_def
      Let_def split: prod.split)

lemma paint_appends: "\<exists>w. s_out (r_screen (paint e r)) = s_out (r_screen r) @ w"
  using screenPaint_appends
  by (simp add: paint_def Let_def setScrollView_def split: prod.split)

lemma key_appends: "\<exists>w. s_out (r_screen (fst (key e k r))) = s_out (r_screen r) @ w"
proof -
  have p: "r_screen q = r_screen r \<Longrightarrow> \<exists>w. s_out (r_screen (paint e q)) = s_out (r_screen r) @ w" for q
    using paint_appends [of e q] by simp
  show ?thesis
  proof (cases "scrollKey k r")
    case None
    then show ?thesis
      by (simp add: key_def togglePause_def setInterval_def Let_def p)
  next
    case (Some q)
    then have "r_screen q = r_screen r" by (auto simp: scrollKey_def Let_def split: if_splits)
    then show ?thesis using Some p by (simp add: key_def)
  qed
qed

lemma wroteAfter_trans:
  "wroteAfter before r \<Longrightarrow> \<exists>w. s_out (r_screen q) = s_out (r_screen r) @ w \<Longrightarrow> wroteAfter before q"
  by auto

lemma keyLoop_appends: "\<exists>w. s_out (r_screen (fst (keyLoop e k r))) = s_out (r_screen r) @ w"
  using keyLoop_fst [of e k r] key_appends [of e k r] by auto

lemma refreshLoop_appends: "\<exists>w. s_out (r_screen (fst (refreshLoop evs a r))) = s_out (r_screen r) @ w"
proof (induction evs a r rule: refreshLoop.induct)
  case (2 e ev evs a r)
  have trans: "wroteAfter (s_out (r_screen r)) (fst (refreshLoop evs a (fst (key e k r))))"
    if "wroteAfter (s_out (r_screen (fst (key e k r)))) (fst (refreshLoop evs a (fst (key e k r))))" for k
    using wroteAfter_trans [OF key_appends that] .
  show ?case
  proof (cases ev)
    case (RKey k)
    then show ?thesis
      using 2 trans [of k] by (cases "classifyKey k") (simp_all split: if_split)
  qed (use 2 in simp)
qed simp

lemma tick_appends: "\<exists>w. s_out (r_screen (fst (tick i r))) = s_out (r_screen r) @ w"
proof -
  obtain q a where q: "refreshLoop (ti_events i) 0 (tickStart i r) = (q, a)" by fastforce
  have wq: "wroteAfter (s_out (r_screen r)) q"
    using refreshLoop_appends [of "ti_events i" 0 "tickStart i r"] q by (simp add: tickStart_def)
  show ?thesis
  proof (cases rule: tick_cases [of i r])
    case (aborted q' a')
    then have "q' = q" using q by simp
    then show ?thesis
      using tick_aborted_fst [OF aborted] wroteAfter_trans [OF _ keyLoop_appends] wq by auto
  next
    case (failed q' err)
    have "s_out (r_screen (fst (recordError err p))) = s_out (r_screen p)" for p
      by (simp add: recordError_def reject_def Let_def)
    then show ?thesis
      using tick_failed_fst [OF failed refl] failed(1) q wq wroteAfter_trans [OF _ paint_appends] by auto
  next
    case (rendered q')
    have "s_out (r_screen (tickRendered i p)) = s_out (r_screen p)" for p
      by (simp add: tickRendered_def backoff_def accept_def Let_def)
    then show ?thesis
      using tick_rendered(1) [OF rendered] rendered(1) q wq wroteAfter_trans [OF _ paint_appends] by auto
  qed
qed

interpretation written: loop_invariant "wroteAfter before" for before
proof unfold_locales
  show "wroteAfter before (fst (keyLoop e k r))" if "wroteAfter before r" for e k r
    using wroteAfter_trans [OF that keyLoop_appends] .
  show "wroteAfter before (paint e r)" if "wroteAfter before r" for e r
    using wroteAfter_trans [OF that paint_appends] .
  show "wroteAfter before (fst (tick i (r\<lparr>r_force := False\<rparr>)))" if "wroteAfter before r" for i r
    using wroteAfter_trans [where before = before and r = "r\<lparr>r_force := False\<rparr>", OF _ tick_appends] that
    by simp
qed (simp_all add: noteSkips_def Let_def)

text \<open>
  C23. However a watch ends (count reached, quit, cancellation or a fatal error), the terminal is
  given back: its input is out of raw mode whether or not raw mode was granted, and everything
  written in between stands between claiming and leaving the alternate screen. In plain mode the
  terminal is never touched.
\<close>

theorem Run_gives_terminal_back:
  assumes "Run opts d granted is = (raw, r, Some res)"
  shows "\<not> raw
    \<and> (\<exists>painted. s_out (r_screen r) =
         (if o_Plain opts then painted
          else altScreenOn @ cursorHide @ painted @ cursorShow @ altScreenOff))"
proof -
  let ?r0 = "newRunner (applyDefaults opts) d"
  obtain raw1 s1 fn where en: "enter granted (False, r_screen ?r0) = ((raw1, s1), fn)"
    by (metis prod.exhaust)
  define r1 where "r1 = attachInputs (?r0\<lparr>r_screen := s1, r_o := (r_o ?r0)\<lparr>o_Keys := s_keys s1\<rparr>\<rparr>)"
  obtain r2 res2 where l: "watchLoop is r1 = (r2, res2)" by fastforce
  have s1: "r_screen r1 = s1" by (simp add: r1_def attachInputs_def)
  obtain painted where p: "s_out (r_screen r2) = s_out s1 @ painted"
    using written.loop_preserves [where before = "s_out s1" and r = r1] l s1 by (metis append_Nil2 fst_conv)
  have run: "Run opts d granted is = (case res2 of
      None \<Rightarrow> (raw1, r2, None)
    | Some x \<Rightarrow> (let (raw, s) = restore fn (raw1, r_screen r2) in (raw, r2\<lparr>r_screen := s\<rparr>, Some x)))"
    using en l by (simp add: Run_def Let_def r1_def split: option.split)
  have plain: "s_plain (r_screen ?r0) = o_Plain opts" "s_out (r_screen ?r0) = []"
    by (simp_all add: newRunner_def newScreen_def applyDefaults_def Let_def)
  show ?thesis
    using enter_restore [OF en p] run assms plain
    by (auto split: option.splits prod.splits if_splits)
qed

theorem Run_gives_terminal_back_witness:
  "\<exists>painted. s_out (r_screen (fst (snd (Run sampleOpts None True
        [(sampleRound [])\<lparr>ri_ctxErr := Some canceledErr\<rparr>]))))
     = altScreenOn @ cursorHide @ painted @ cursorShow @ altScreenOff"
proof -
  let ?R = "Run sampleOpts None True [(sampleRound [])\<lparr>ri_ctxErr := Some canceledErr\<rparr>]"
  have "snd (snd ?R) = Some (Some canceledErr)"
    by (simp add: Run_def enter_def newRunner_def newScreen_def applyDefaults_def sampleOpts_def
        attachInputs_def watchLoop.simps writeOut_def DefaultInterval_def duration_units Let_def
        ErrorsTolerate_def split: prod.split)
  then have "?R = (fst ?R, fst (snd ?R), Some (Some canceledErr))" by (metis prod.collapse)
  from Run_gives_terminal_back [OF this] show ?thesis by (simp add: sampleOpts_def)
qed

end
