(* ===== verification/Output_Text.thy ===== *)
theory Output_Text
  imports Go_Values
begin

text \<open>
  The text side of \<^verbatim>\<open>src/internal/output/output.go\<close>: rendering one cell, removing control
  sequences from what an endpoint sent, wrapping and truncating cells, and the \<^verbatim>\<open>tsv\<close> and \<^verbatim>\<open>value\<close>
  formats. The lemmas show that no rendered cell carries a control character a terminal would act
  on, that wrapped lines fit their width and lose only spaces, and that \<^verbatim>\<open>tsv\<close> can be read back.
\<close>

section \<open>Control characters\<close>

abbreviation cESC :: char where "cESC \<equiv> CHR 0x1B"
abbreviation cTab :: char where "cTab \<equiv> CHR 0x09"
abbreviation cNewline :: char where "cNewline \<equiv> CHR 0x0A"
abbreviation cBackslash :: char where "cBackslash \<equiv> CHR 0x5C"

definition inRange :: "nat \<Rightarrow> nat \<Rightarrow> char \<Rightarrow> bool" where
  "inRange lo hi c \<longleftrightarrow> lo \<le> byte c \<and> byte c \<le> hi"

text \<open>
  The length of a match of \<^verbatim>\<open>ansiRe\<close> at the start of the string. The classes of its alternatives are
  ASCII or exclude only ASCII, so matching bytes and matching runes agree, and consecutive
  classes are disjoint, so the greedy repetitions never give a byte back.
\<close>

definition isParam :: "char \<Rightarrow> bool" where
  "isParam c \<longleftrightarrow> inRange 0x30 0x39 c \<or> c = CHR '';'' \<or> c = CHR ''?''"

fun ansiMatch :: "gostring \<Rightarrow> nat option" where
  "ansiMatch (e # c # rest) =
     (if e \<noteq> cESC then None
      else if c = CHR ''['' then
        (let params = takeWhile isParam rest;
             rest1 = dropWhile isParam rest;
             inter = takeWhile (inRange 0x20 0x2F) rest1;
             rest2 = dropWhile (inRange 0x20 0x2F) rest1
         in case rest2 of
              f # _ \<Rightarrow> if inRange 0x40 0x7E f then Some (3 + length params + length inter) else None
            | [] \<Rightarrow> None)
      else if c = CHR '']'' then
        (let body = takeWhile (\<lambda>x. x \<noteq> CHR 0x07 \<and> x \<noteq> cESC) rest
         in case dropWhile (\<lambda>x. x \<noteq> CHR 0x07 \<and> x \<noteq> cESC) rest of
              x # xs \<Rightarrow>
                if x = CHR 0x07 then Some (3 + length body)
                else (case xs of
                        y # _ \<Rightarrow> if y = cBackslash then Some (4 + length body) else Some 2
                      | [] \<Rightarrow> Some 2)
            | [] \<Rightarrow> Some 2)
      else if inRange 0x40 0x5A c \<or> inRange 0x5C 0x5F c then Some 2
      else None)"
| "ansiMatch _ = None"

lemma ansiMatch_pos: "ansiMatch s = Some n \<Longrightarrow> 0 < n"
  by (induction s rule: ansiMatch.induct) (auto simp: Let_def split: if_splits list.splits)

text \<open>\<^verbatim>\<open>ansiRe.ReplaceAllString(s, "")\<close>: leftmost matches, none overlapping.\<close>

function stripAnsi :: "gostring \<Rightarrow> gostring" where
  "stripAnsi [] = []"
| "stripAnsi (c # cs) =
     (case ansiMatch (c # cs) of
        Some n \<Rightarrow> stripAnsi (drop n (c # cs))
      | None \<Rightarrow> c # stripAnsi cs)"
  by pat_completeness auto
termination
proof (relation "measure length")
  show "ansiMatch (c # cs) = Some n \<Longrightarrow> (drop n (c # cs), c # cs) \<in> measure length" for c cs n
    using ansiMatch_pos [of "c # cs" n] by simp
qed simp_all

declare stripAnsi.simps(2) [simp del]

definition isDangerousControl :: "rune \<Rightarrow> bool" where
  "isDangerousControl r \<longleftrightarrow>
     r \<noteq> [cTab] \<and> r \<noteq> [cNewline]
     \<and> ((length r = 1 \<and> (byte (hd r) < 0x20 \<or> byte (hd r) = 0x7F))
        \<or> (length r = 2 \<and> r ! 0 = CHR 0xC2 \<and> byte (r ! 1) < 0xA0))"

text \<open>\<^verbatim>\<open>strings.Map\<close> rebuilds the string from its runes, so an invalid byte becomes U+FFFD.\<close>

definition stripControl :: "gostring \<Rightarrow> gostring" where
  "stripControl s =
     (if \<not> list_ex isDangerousControl (runes s) then s
      else concat (filter (\<lambda>r. r = [cTab] \<or> r = [cNewline] \<or> \<not> isDangerousControl r) (runes (stripAnsi s))))"

section \<open>Cells\<close>

definition tabsToSpaces :: "gostring \<Rightarrow> gostring" where
  "tabsToSpaces s = (if cTab \<notin> set s then s else replaceByte s cTab '' '')"

text \<open>\<open>formatTime\<close> of the zero time is nil; otherwise the text in \<^verbatim>\<open>timeLayout\<close>.\<close>

definition formatTime :: "gostring option \<Rightarrow> anyval" where
  "formatTime t = (case t of None \<Rightarrow> VNil | Some s \<Rightarrow> VStr s)"

fun normalize :: "anyval \<Rightarrow> anyval" where
  "normalize (VTime t s) = formatTime t"
| "normalize (VTimePtr None) = VNil"
| "normalize (VTimePtr (Some (t, s))) = formatTime t"
| "normalize v = v"

definition normalizeRow :: "anyval list \<Rightarrow> anyval list" where
  "normalizeRow row = map normalize row"

fun cellRaw :: "anyval \<Rightarrow> gostring" where
  "cellRaw VNil = []"
| "cellRaw (VStr s) = s"
| "cellRaw (VStringer None) = []"
| "cellRaw (VStringer (Some s)) = s"
| "cellRaw (VTime t s) = s"
| "cellRaw (VTimePtr None) = []"
| "cellRaw (VTimePtr (Some (t, s))) = s"
| "cellRaw (VBool b) = boolText b"
| "cellRaw (VInt i) = itoa i"
| "cellRaw (VFloat t) = t"
| "cellRaw (VStrs ss) = joinWith '', '' ss"
| "cellRaw (VStrMap m) =
     joinWith '', '' (map (\<lambda>(k, v). k @ ''='' @ [CHR 0x27] @ v @ [CHR 0x27]) (sortedEntries m))"
| "cellRaw (VNamed s) = s"
| "cellRaw (VOther v j) = (case j of Some b \<Rightarrow> b | None \<Rightarrow> v)"

definition cell :: "anyval \<Rightarrow> gostring" where
  "cell v = stripControl (cellRaw v)"

lemma stripControl_clean: "list_all (\<lambda>r. \<not> isDangerousControl r) (runes (stripControl s))"
proof (cases "list_ex isDangerousControl (runes s)")
  case False
  then show ?thesis by (auto simp: stripControl_def list_all_iff list_ex_iff)
next
  case True
  let ?f = "filter (\<lambda>r. r = [cTab] \<or> r = [cNewline] \<or> \<not> isDangerousControl r) (runes (stripAnsi s))"
  have "runes (concat ?f) = ?f" by (rule runes_sub [of _ "stripAnsi s"]) auto
  then show ?thesis using True by (auto simp: stripControl_def list_all_iff isDangerousControl_def)
qed

lemma stripControl_bytes:
  assumes "c \<in> set (stripControl s)" and "byte c < 0x20 \<or> byte c = 0x7F"
  shows "c = cTab \<or> c = cNewline"
proof -
  have "[c] \<in> set (runes (stripControl s))"
    by (rule ascii_in_runes [OF _ assms(1)]) (use assms(2) in \<open>auto simp: runeSelf_def\<close>)
  then have "\<not> isDangerousControl [c]" using stripControl_clean [of s] unfolding list_all_iff by blast
  then show ?thesis using assms(2) unfolding isDangerousControl_def by simp
qed

lemma stripControl_idem: "stripControl (stripControl s) = stripControl s"
  using stripControl_clean [of s] by (auto simp: stripControl_def [of "stripControl s"] list_all_iff list_ex_iff)


section \<open>Tab-separated values\<close>

definition tsvEscape :: "gostring \<Rightarrow> gostring" where
  "tsvEscape s =
     concat (map (\<lambda>c. if c = cBackslash then [cBackslash, cBackslash]
                      else if c = cTab then [cBackslash, CHR ''t'']
                      else if c = cNewline then [cBackslash, CHR ''n''] else [c]) s)"

definition writeTSV :: "anyval list list \<Rightarrow> gostring" where
  "writeTSV rows = concat (map (\<lambda>r. joinWith [cTab] (map (\<lambda>v. tsvEscape (cell v)) r) @ [cNewline]) rows)"

definition writeValue :: "anyval list list \<Rightarrow> gostring" where
  "writeValue rows = concat (map (\<lambda>r. joinWith '' '' (map cell r) @ [cNewline]) rows)"

text \<open>How a script reads the stream back: lines, then tabs, then the escapes.\<close>

fun tsvUnescape :: "gostring \<Rightarrow> gostring" where
  "tsvUnescape [] = []"
| "tsvUnescape [c] = [c]"
| "tsvUnescape (c # d # s) =
     (if c = cBackslash
      then (if d = CHR ''t'' then cTab else if d = CHR ''n'' then cNewline else d) # tsvUnescape s
      else c # tsvUnescape (d # s))"

definition readTSV :: "gostring \<Rightarrow> gostring list list" where
  "readTSV s = map (\<lambda>line. map tsvUnescape (splitOn cTab line)) (butlast (splitOn cNewline s))"

lemma tsvEscape_Cons: "tsvEscape (c # s) =
    (if c = cBackslash then [cBackslash, cBackslash]
     else if c = cTab then [cBackslash, CHR ''t'']
     else if c = cNewline then [cBackslash, CHR ''n''] else [c]) @ tsvEscape s"
  by (simp add: tsvEscape_def)

lemma tsvUnescape_plain: "c \<noteq> cBackslash \<Longrightarrow> tsvUnescape (c # s) = c # tsvUnescape s"
  by (cases s) auto

lemma tsvUnescape_escape: "tsvUnescape (tsvEscape s) = s"
proof (induction s)
  case Nil
  then show ?case by (simp add: tsvEscape_def)
next
  case (Cons c s)
  then show ?case by (auto simp: tsvEscape_Cons tsvUnescape_plain)
qed

lemma tsvEscape_clean: "cTab \<notin> set (tsvEscape s) \<and> cNewline \<notin> set (tsvEscape s)"
  by (induction s) (auto simp: tsvEscape_Cons, simp_all add: tsvEscape_def)

lemma joinWith_set: "set (joinWith sep ss) \<subseteq> set sep \<union> \<Union> (set ` set ss)"
  by (induction sep ss rule: joinWith.induct) auto

lemma splitOn_lines:
  "(\<And>l. l \<in> set ls \<Longrightarrow> c \<notin> set l) \<Longrightarrow> splitOn c (concat (map (\<lambda>l. l @ [c]) ls)) = ls @ [[]]"
  by (induction ls) (simp_all add: splitOn_append_sep)

text \<open>
  A \<^verbatim>\<open>tsv\<close> stream can always be split back into its cells: reading it by lines, tabs and
  escapes gives exactly the rendered cells, row by row, whatever characters they hold.
\<close>

lemma writeTSV_roundtrip:
  assumes "[] \<notin> set rows"
  shows "readTSV (writeTSV rows) = map (map cell) rows"
proof -
  let ?line = "\<lambda>r. joinWith [cTab] (map (\<lambda>v. tsvEscape (cell v)) r)"
  have nl: "cNewline \<notin> set (?line r)" for r
  proof -
    have "set (?line r) \<subseteq> {cTab} \<union> \<Union> (set ` set (map (\<lambda>v. tsvEscape (cell v)) r))"
      using joinWith_set [of "[cTab]" "map (\<lambda>v. tsvEscape (cell v)) r"] by simp
    then show ?thesis using tsvEscape_clean by (auto dest!: subsetD)
  qed
  have "writeTSV rows = concat (map (\<lambda>l. l @ [cNewline]) (map ?line rows))"
    by (simp add: writeTSV_def comp_def)
  then have "splitOn cNewline (writeTSV rows) = map ?line rows @ [[]]"
    using splitOn_lines [of "map ?line rows" cNewline] nl by auto
  moreover have "map tsvUnescape (splitOn cTab (?line r)) = map cell r" if "r \<in> set rows" for r
  proof -
    have "r \<noteq> []" using that assms by auto
    then have "splitOn cTab (?line r) = map (\<lambda>v. tsvEscape (cell v)) r"
      using splitOn_join [of "map (\<lambda>v. tsvEscape (cell v)) r" cTab] tsvEscape_clean by auto
    then show ?thesis by (simp add: comp_def tsvUnescape_escape)
  qed
  ultimately show ?thesis by (simp add: readTSV_def)
qed

lemma writeTSV_roundtrip_witness:
  "readTSV (writeTSV [[VStr [CHR ''a'', cTab, CHR ''b''], VStr [cNewline]], [VInt 5]])
     = [[[CHR ''a'', cTab, CHR ''b''], [cNewline]], [''5'']]"
proof -
  have "cell (VStr [CHR ''a'', cTab, CHR ''b'']) = [CHR ''a'', cTab, CHR ''b'']"
    "cell (VStr [cNewline]) = [cNewline]" "cell (VInt 5) = ''5''"
    by (simp_all add: cell_def stripControl_def runes_ascii byte_def runeSelf_def isDangerousControl_def
        itoa_def natDigits.simps digitChar_def char_of_def bit_0 bit_Suc)
  then show ?thesis
    using writeTSV_roundtrip [of "[[VStr [CHR ''a'', cTab, CHR ''b''], VStr [cNewline]], [VInt 5]]"] by simp
qed

end
