(* ===== verification/Output_Table.thy ===== *)
theory Output_Table
  imports Output_Text Watch_Diff
begin

text \<open>
  The table format of \<^verbatim>\<open>src/internal/output/output.go\<close>: measuring, fitting, wrapping and emitting.
  Widths are Go integers; a table is the list of lines the writer prints. The lemmas show that
  wrapping keeps the text, that the shrunk columns add up to the display width, and that every
  line of a table is equally wide and fits.
\<close>

section \<open>Wrapping and truncating\<close>

definition maxLineWidth :: "gostring list \<Rightarrow> int" where
  "maxLineWidth lines = foldl (\<lambda>n ln. if int (runeCount ln) > n then int (runeCount ln) else n) 0 lines"

text \<open>
  The loop over one word that is longer than the width; \<open>lines\<close> and \<open>cur\<close> are the closure's
  variables, with every finished line as its runes.
\<close>

function wrapLong :: "nat \<Rightarrow> rune list list \<Rightarrow> rune list \<Rightarrow> rune list \<Rightarrow> rune list list \<times> rune list \<times> rune list" where
  "wrapLong width lines cur wr =
     (if 0 < width \<and> length wr > width
      then wrapLong width ((if cur \<noteq> [] then lines @ [cur] else lines) @ [take width wr]) [] (drop width wr)
      else (lines, cur, wr))"
  by pat_completeness auto
termination by (relation "measure (\<lambda>(w, l, c, wr). length wr)") auto

declare wrapLong.simps [simp del]

definition wrapWord :: "nat \<Rightarrow> rune list list \<times> rune list \<Rightarrow> rune list \<Rightarrow> rune list list \<times> rune list" where
  "wrapWord width st word =
     (let (lines, cur, wr) = wrapLong width (fst st) (snd st) word in
      if cur = [] then (lines, wr)
      else if length cur + 1 + length wr \<le> width then (lines, cur @ ['' ''] @ wr)
      else (lines @ [cur], wr))"

definition wrapLine :: "gostring \<Rightarrow> int \<Rightarrow> gostring list" where
  "wrapLine s width =
     (if width \<le> 0 \<or> int (runeCount s) \<le> width then [s]
      else
        (let (lines, cur) = foldl (wrapWord (nat width)) ([], []) (map runes (splitOn (CHR '' '') s));
             lines = (if cur \<noteq> [] \<or> lines = [] then lines @ [cur] else lines)
         in map concat lines))"

definition wrapText :: "gostring \<Rightarrow> int \<Rightarrow> gostring list" where
  "wrapText s width =
     (if cNewline \<notin> set s then wrapLine s width
      else concat (map (\<lambda>seg. wrapLine seg width) (splitOn cNewline s)))"

definition collapseLines :: "gostring \<Rightarrow> gostring" where
  "collapseLines s =
     (if cNewline \<notin> set s then s
      else joinWith '' '' (Go_Strings.fields (replaceByte s cNewline '' '')))"

definition uEllipsis :: rune where
  "uEllipsis = [CHR 0xE2, CHR 0x80, CHR 0xA6]"

definition truncateCell :: "gostring \<Rightarrow> int \<Rightarrow> gostring list" where
  "truncateCell s0 width =
     (let s = collapseLines s0 in
      if width \<le> 0 \<or> int (runeCount s) \<le> width then [s]
      else if width = 1 then [uEllipsis]
      else [concat (take (nat (width - 1)) (runes s)) @ uEllipsis])"

definition maxTableCell :: nat where
  "maxTableCell = 1024"

definition elideCell :: "gostring \<Rightarrow> gostring" where
  "elideCell s =
     (if runeCount s \<le> maxTableCell then s
      else ''<'' @ itoa (int (length s)) @ '' bytes; use -f yaml or -c <column> to show full value>'')"

section \<open>Fitting columns\<close>

fun shrinkLoop :: "int \<Rightarrow> int \<Rightarrow> int \<Rightarrow> nat list \<Rightarrow> int list \<Rightarrow> int list" where
  "shrinkLoop minWidth shrinkTo remaining [] out = out"
| "shrinkLoop minWidth shrinkTo remaining [i] out = out[i := max minWidth remaining]"
| "shrinkLoop minWidth shrinkTo remaining (i # j # is) out =
     shrinkLoop minWidth shrinkTo (remaining - shrinkTo) (j # is) (out[i := max minWidth shrinkTo])"

definition shrinkWidths :: "int list \<Rightarrow> int \<Rightarrow> int \<Rightarrow> int list" where
  "shrinkWidths natural termWidth minWidth =
     (let ncols = int (length natural);
          total = 1 + sum_list (map (\<lambda>wd. wd + 3) natural)
      in if total \<le> termWidth \<or> ncols = 0 then natural
         else
           (let usable = (if termWidth - 1 - 3 * ncols < 0 then 0 else termWidth - 1 - 3 * ncols);
                optimal = goQuot usable ncols;
                shrinkRemaining = usable - sum_list (filter (\<lambda>wd. wd \<le> optimal) natural);
                shrink = filter (\<lambda>i. \<not> natural ! i \<le> optimal) [0..<length natural]
            in if shrink = [] then natural
               else shrinkLoop minWidth (goQuot shrinkRemaining (int (length shrink))) shrinkRemaining
                      shrink natural))"

section \<open>The table\<close>

definition tableCell :: "bool \<Rightarrow> bool \<Rightarrow> anyval list \<Rightarrow> nat \<Rightarrow> gostring" where
  "tableCell elide compact r ci =
     (let v = (if ci < length r then r ! ci else VNil);
          s = tabsToSpaces (cell v);
          s = (if elide then elideCell s else s)
      in if compact then collapseLines s else s)"

definition tableCells :: "gostring list \<Rightarrow> anyval list list \<Rightarrow> bool \<Rightarrow> bool
    \<Rightarrow> gostring list list \<times> int list" where
  "tableCells cols rows elide compact =
     (let out = map (\<lambda>r. map (tableCell elide compact r) [0..<length cols]) rows;
          natural = map (\<lambda>ci. foldl (\<lambda>n sr. let m = maxLineWidth (splitOn cNewline (sr ! ci)) in
                                            if m > n then m else n)
                               (int (runeCount (cols ! ci))) out) [0..<length cols]
      in (out, natural))"

definition fitCell :: "bool \<Rightarrow> gostring \<Rightarrow> int \<Rightarrow> gostring list" where
  "fitCell compact = (if compact then truncateCell else wrapText)"

definition wrapTableCells :: "gostring list \<Rightarrow> gostring list list \<Rightarrow> int list \<Rightarrow> bool
    \<Rightarrow> gostring list list \<times> gostring list list list \<times> int list" where
  "wrapTableCells cols strRows assigned compact =
     (let header = map (\<lambda>ci. fitCell compact (cols ! ci) (assigned ! ci)) [0..<length cols];
          out = map (\<lambda>sr. map (\<lambda>ci. fitCell compact (sr ! ci) (assigned ! ci)) [0..<length cols]) strRows;
          widths = map (\<lambda>ci. foldl (\<lambda>n wr. let m = maxLineWidth (wr ! ci) in if m > n then m else n)
                              (maxLineWidth (header ! ci)) out) [0..<length cols]
      in (header, out, widths))"

definition csiPrefix :: gostring where
  "csiPrefix = [cESC] @ ''[''"

definition styleSeq :: "cellStyle \<Rightarrow> gostring" where
  "styleSeq s =
     (case s of CellChanged \<Rightarrow> ''7'' | CellAdded \<Rightarrow> ''32'' | CellRemoved \<Rightarrow> ''2'' | CellPlain \<Rightarrow> [])"

text \<open>\<^verbatim>\<open>fmt.Sprintf("%-*s", width, s)\<close> pads by runes; a negative width pads to its absolute value.\<close>

definition padRight :: "gostring \<Rightarrow> int \<Rightarrow> gostring" where
  "padRight s width = s @ replicate (nat \<bar>width\<bar> - runeCount s) (CHR '' '')"

definition styledCell :: "gostring \<Rightarrow> int \<Rightarrow> cellStyle \<Rightarrow> gostring" where
  "styledCell s width style =
     (let padded = padRight s width; sq = styleSeq style
      in if sq = [] then padded else csiPrefix @ sq @ ''m'' @ padded @ csiPrefix @ ''0m'')"

definition border :: "int list \<Rightarrow> gostring" where
  "border widths = ''+'' @ concat (map (\<lambda>wd. replicate (nat (wd + 2)) (CHR ''-'') @ ''+'') widths)"

definition rowLine :: "int list \<Rightarrow> gostring list list \<Rightarrow> cellStyle list \<Rightarrow> nat \<Rightarrow> gostring" where
  "rowLine widths cells styles li =
     ''|'' @ concat (map (\<lambda>ci.
        (let s = (if li < length (cells ! ci) then cells ! ci ! li else []);
             style = (if ci < length styles then styles ! ci else CellPlain)
         in '' '' @ styledCell s (widths ! ci) style @ '' |'')) [0..<length cells])"

definition rowLines :: "int list \<Rightarrow> gostring list list \<Rightarrow> cellStyle list \<Rightarrow> gostring list" where
  "rowLines widths cells styles =
     (let h = foldl (\<lambda>h c. if length c > h then length c else h) 1 cells
      in map (rowLine widths cells styles) [0..<h])"

record tableLayout =
  tl_fitWidth :: int
  tl_minWidth :: int
  tl_elide :: bool
  tl_compact :: bool
  tl_styles :: "cellStyle list list"

definition tableLines :: "gostring list \<Rightarrow> anyval list list \<Rightarrow> tableLayout \<Rightarrow> gostring list" where
  "tableLines cols rows l =
     (let (strRows, natural) = tableCells cols rows (tl_elide l) (tl_compact l);
          assigned = (if tl_fitWidth l > 0 then shrinkWidths natural (tl_fitWidth l) (tl_minWidth l) else natural);
          (header, wrapRows, widths) = wrapTableCells cols strRows assigned (tl_compact l)
      in [border widths] @ rowLines widths header [] @ [border widths]
         @ concat (map (\<lambda>ri. rowLines widths (wrapRows ! ri)
                               (if ri < length (tl_styles l) then tl_styles l ! ri else []))
                     [0..<length wrapRows])
         @ [border widths])"

definition writeTable :: "gostring list \<Rightarrow> anyval list list \<Rightarrow> tableLayout \<Rightarrow> gostring" where
  "writeTable cols rows l = concat (map (\<lambda>ln. ln @ [cNewline]) (tableLines cols rows l))"

section \<open>Wrapping keeps the text\<close>

abbreviation noSp :: "rune list \<Rightarrow> rune list" where
  "noSp \<equiv> filter (\<lambda>r. r \<noteq> '' '')"

lemma wrapLong_spec:
  assumes "wrapLong w lines cur wr = (lines', cur', wr')" and "0 < w"
  shows "length wr' \<le> w" "concat lines' @ cur' @ wr' = concat lines @ cur @ wr"
    "length cur \<le> w \<Longrightarrow> (\<forall>l \<in> set lines. length l \<le> w) \<Longrightarrow> length cur' \<le> w \<and> (\<forall>l \<in> set lines'. length l \<le> w)"
proof -
  have "length wr' \<le> w \<and> concat lines' @ cur' @ wr' = concat lines @ cur @ wr
    \<and> (length cur \<le> w \<longrightarrow> (\<forall>l \<in> set lines. length l \<le> w) \<longrightarrow> length cur' \<le> w \<and> (\<forall>l \<in> set lines'. length l \<le> w))"
    using assms
  proof (induction w lines cur wr rule: wrapLong.induct)
    case (1 w lines cur wr)
    show ?case
    proof (cases "length wr > w")
      case True
      then have step: "wrapLong w ((if cur \<noteq> [] then lines @ [cur] else lines) @ [take w wr]) [] (drop w wr)
          = (lines', cur', wr')"
        using 1(2,3) by (simp add: wrapLong.simps [of w lines cur wr])
      let ?lines = "(if cur \<noteq> [] then lines @ [cur] else lines) @ [take w wr]"
      have e: "concat ?lines @ [] @ drop w wr = concat lines @ cur @ wr" by simp
      have b: "length cur \<le> w \<longrightarrow> (\<forall>l \<in> set lines. length l \<le> w) \<longrightarrow> (\<forall>l \<in> set ?lines. length l \<le> w)"
        by simp
      have IH: "length wr' \<le> w \<and> concat lines' @ cur' @ wr' = concat ?lines @ [] @ drop w wr
        \<and> (length ([] :: rune list) \<le> w \<longrightarrow> (\<forall>l \<in> set ?lines. length l \<le> w)
           \<longrightarrow> length cur' \<le> w \<and> (\<forall>l \<in> set lines'. length l \<le> w))"
        by (rule 1(1)) (use step 1(3) True in simp_all)
      show ?thesis using IH b unfolding e by (metis le0 list.size(3))
    next
      case False
      then show ?thesis using 1(2) by (simp add: wrapLong.simps [of w lines cur wr])
    qed
  qed
  then show "length wr' \<le> w" "concat lines' @ cur' @ wr' = concat lines @ cur @ wr"
    "length cur \<le> w \<Longrightarrow> (\<forall>l \<in> set lines. length l \<le> w) \<Longrightarrow> length cur' \<le> w \<and> (\<forall>l \<in> set lines'. length l \<le> w)"
    by blast+
qed

definition wrapInv :: "nat \<Rightarrow> rune list \<Rightarrow> rune list list \<times> rune list \<Rightarrow> bool" where
  "wrapInv w seen st \<longleftrightarrow>
     (\<forall>l \<in> set (fst st). length l \<le> w) \<and> length (snd st) \<le> w
     \<and> noSp (concat (fst st) @ snd st) = noSp seen
     \<and> set (concat (fst st) @ snd st) \<subseteq> set seen \<union> {'' ''}"

lemma wrapWord_inv:
  assumes "wrapInv w seen st" and "0 < w"
  shows "wrapInv w (seen @ word) (wrapWord w st word)"
proof -
  obtain lines' cur' wr' where l: "wrapLong w (fst st) (snd st) word = (lines', cur', wr')"
    by (metis prod_cases3)
  note sp = wrapLong_spec [OF l assms(2)]
  have b: "length cur' \<le> w" "\<forall>l \<in> set lines'. length l \<le> w"
    using sp(3) assms(1) by (auto simp: wrapInv_def)
  have "set (concat lines' @ cur' @ wr') \<subseteq> set (seen @ word) \<union> {'' ''}"
    using sp(2) assms(1) by (auto simp: wrapInv_def)
  moreover have "noSp (concat lines' @ cur' @ wr') = noSp (seen @ word)"
    using arg_cong [OF sp(2), of noSp] assms(1) by (simp add: wrapInv_def)
  ultimately show ?thesis
    using b sp(1) by (auto simp: wrapWord_def l wrapInv_def)
qed

lemma foldl_wrapWord_inv:
  "wrapInv w seen st \<Longrightarrow> 0 < w \<Longrightarrow> wrapInv w (seen @ concat words) (foldl (wrapWord w) st words)"
proof (induction words arbitrary: seen st)
  case (Cons word words)
  then show ?case using wrapWord_inv [of w seen st word] Cons.IH [of "seen @ word"] by simp
qed simp

lemma runes_space: "runes (a @ CHR '' '' # b) = runes a @ '' '' # runes b"
  using runes_append_ascii [of "CHR '' ''" a b] runes_cons_rune [of "'' ''" b]
  by (simp add: isRune_ascii runeSelf_def byte_def)

lemma noSp_words: "noSp (concat (map runes (splitOn (CHR '' '') s))) = noSp (runes s)"
proof -
  have "noSp (concat (map runes ws)) = noSp (runes (joinWith '' '' ws))" for ws
    by (induction ws rule: induct_list012) (simp_all add: runes_space)
  then show ?thesis by (simp add: join_splitOn)
qed

lemma wrapLine_runes:
  assumes "0 < width" and "width < int (runeCount s)"
  shows "\<exists>lines. wrapLine s width = map concat lines \<and> lines \<noteq> []
    \<and> (\<forall>l \<in> set lines. length l \<le> nat width \<and> list_all isRune l)
    \<and> noSp (concat lines) = noSp (runes s)"
proof -
  define st where "st = foldl (wrapWord (nat width)) ([], []) (map runes (splitOn (CHR '' '') s))"
  define lines where "lines = (if snd st \<noteq> [] \<or> fst st = [] then fst st @ [snd st] else fst st)"
  have "wrapInv (nat width) ([] @ concat (map runes (splitOn (CHR '' '') s))) st"
    unfolding st_def by (rule foldl_wrapWord_inv) (use assms in \<open>simp_all add: wrapInv_def\<close>)
  then have inv: "wrapInv (nat width) (concat (map runes (splitOn (CHR '' '') s))) st" by simp
  have w: "wrapLine s width = map concat lines"
    using assms by (simp add: wrapLine_def lines_def st_def Let_def split: prod.split)
  have "list_all isRune (concat (fst st) @ snd st)"
    using inv by (force simp: wrapInv_def list_all_iff runeSelf_def byte_def dest: runes_isRune intro: isRune_ascii)
  then have "\<forall>l \<in> set lines. length l \<le> nat width \<and> list_all isRune l"
    using inv by (auto simp: lines_def wrapInv_def list_all_iff)
  moreover have "noSp (concat lines) = noSp (runes s)"
    using inv noSp_words [of s] by (auto simp: lines_def wrapInv_def)
  ultimately show ?thesis using w by (intro exI [of _ lines]) (simp add: lines_def)
qed

lemma wrapLine_bound:
  assumes "0 < width" and "l \<in> set (wrapLine s width)"
  shows "int (runeCount l) \<le> width"
proof (cases "int (runeCount s) \<le> width")
  case True
  then show ?thesis using assms by (simp add: wrapLine_def)
next
  case False
  then obtain lines where w: "wrapLine s width = map concat lines"
    and b: "\<forall>l \<in> set lines. length l \<le> nat width \<and> list_all isRune l"
    using wrapLine_runes [OF assms(1), of s] by auto
  then obtain k where "k \<in> set lines" "l = concat k" using assms(2) by auto
  then show ?thesis using b runes_concat [of k] assms(1) by (auto simp: runeCount_def)
qed

lemma wrapText_bound:
  assumes "0 < width" and "l \<in> set (wrapText s width)"
  shows "int (runeCount l) \<le> width"
  using assms wrapLine_bound by (auto simp: wrapText_def split: if_splits)

text \<open>
  Wrapping a line loses nothing but spaces: every physical line fits the width, and the
  lines together hold the same runes in the same order, spaces apart.
\<close>

lemma wrapLine_keeps_text:
  assumes "0 < width"
  shows "list_all (\<lambda>l. int (runeCount l) \<le> width) (wrapLine s width)
    \<and> noSp (concat (map runes (wrapLine s width))) = noSp (runes s)"
proof (cases "int (runeCount s) \<le> width")
  case True
  then show ?thesis by (simp add: wrapLine_def)
next
  case False
  then obtain lines where w: "wrapLine s width = map concat lines"
    and b: "\<forall>l \<in> set lines. length l \<le> nat width \<and> list_all isRune l"
    and n: "noSp (concat lines) = noSp (runes s)"
    using wrapLine_runes [OF assms, of s] by auto
  have "map runes (map concat lines) = lines"
    using b by (simp add: map_idI runes_concat)
  then show ?thesis using w n wrapLine_bound [OF assms, of _ s] by (auto simp: list_all_iff)
qed

lemma wrapLine_keeps_text_witness:
  "list_all (\<lambda>l. int (runeCount l) \<le> 5) (wrapLine ''a long line of text'' 5)"
  using wrapLine_keeps_text [of 5 "''a long line of text''"] by simp

section \<open>Fitted columns add up\<close>

lemma sum_update_int: "i < length xs \<Longrightarrow> sum_list (xs[i := v]) = sum_list xs - xs ! i + (v :: int)"
proof (induction xs arbitrary: i)
  case (Cons x xs)
  then show ?case by (cases i) simp_all
qed simp

lemma shrinkLoop_sum:
  "is \<noteq> [] \<Longrightarrow> distinct is \<Longrightarrow> (\<And>i. i \<in> set is \<Longrightarrow> i < length out) \<Longrightarrow> minW \<le> to \<Longrightarrow>
     int (length is) * to \<le> remaining \<Longrightarrow>
     sum_list (shrinkLoop minW to remaining is out) =
       sum_list out - sum_list (map ((!) out) is) + remaining"
proof (induction minW to remaining "is" out rule: shrinkLoop.induct)
  case (2 minW to remaining i out)
  then have "max minW remaining = remaining" by simp
  then show ?case using 2(3) by (simp add: sum_update_int)
next
  case (3 minW to remaining i j "is" out)
  let ?out = "out[i := max minW to]"
  have ne: "i \<notin> set (j # is)" using 3(3) by simp
  then have same: "map ((!) ?out) (j # is) = map ((!) out) (j # is)"
    by (intro map_cong refl nth_list_update_neq) auto
  have step: "int (length (j # is)) * to \<le> remaining - to" using 3(6) by (simp add: algebra_simps)
  have i: "i < length out" using 3(4) by simp
  have "sum_list (shrinkLoop minW to (remaining - to) (j # is) ?out)
      = sum_list ?out - sum_list (map ((!) ?out) (j # is)) + (remaining - to)"
    using 3(1) 3(3,4,5) step by simp
  also have "\<dots> = sum_list out - out ! i + to - sum_list (map ((!) out) (j # is)) + (remaining - to)"
    using i 3(5) by (simp only: same) (simp add: sum_update_int)
  finally show ?case by simp
qed simp

lemma sum_filter_split:
  "sum_list (filter P xs) + sum_list (map ((!) xs) (filter (\<lambda>i. \<not> P (xs ! i)) [0..<length xs])) = sum_list (xs :: int list)"
proof (induction xs rule: rev_induct)
  case (snoc x xs)
  have "filter (\<lambda>i. \<not> P ((xs @ [x]) ! i)) [0..<length xs] = filter (\<lambda>i. \<not> P (xs ! i)) [0..<length xs]"
    by (intro filter_cong) (auto simp: nth_append)
  moreover have m: "map ((!) (xs @ [x])) (filter (\<lambda>i. \<not> P (xs ! i)) [0..<length xs])
      = map ((!) xs) (filter (\<lambda>i. \<not> P (xs ! i)) [0..<length xs])"
    by (intro map_cong) (auto simp: nth_append)
  ultimately show ?case using snoc by (simp add: m)
qed simp

lemma sum_le_optimal: "sum_list (filter (\<lambda>w. w \<le> b) xs) \<le> int (length (filter (\<lambda>w. w \<le> b) xs)) * b"
  for b :: int
  by (induction xs) (auto simp: algebra_simps)

lemma length_filter_split:
  "length (filter P xs) + length (filter (\<lambda>i. \<not> P (xs ! i)) [0..<length xs]) = length xs"
proof (induction xs rule: rev_induct)
  case (snoc x xs)
  have "filter (\<lambda>i. \<not> P ((xs @ [x]) ! i)) [0..<length xs] = filter (\<lambda>i. \<not> P (xs ! i)) [0..<length xs]"
    by (intro filter_cong) (auto simp: nth_append)
  then show ?case using snoc by simp
qed simp

definition tableWidth :: "int list \<Rightarrow> int" where
  "tableWidth widths = 1 + sum_list (map (\<lambda>wd. wd + 3) widths)"

lemma tableWidth_sum: "tableWidth ws = 1 + sum_list ws + 3 * int (length ws)"
  by (induction ws) (simp_all add: tableWidth_def algebra_simps)

lemma goQuot_nonneg: "0 \<le> a \<Longrightarrow> 0 < b \<Longrightarrow> goQuot a b = a div b"
  by (simp add: goQuot_def)

lemma shrinkLoop_length: "length (shrinkLoop m t r is out) = length out"
  by (induction m t r "is" out rule: shrinkLoop.induct) simp_all

lemma shrinkLoop_values:
  "i < length out \<Longrightarrow> shrinkLoop m t r is out ! i = out ! i \<or> m \<le> shrinkLoop m t r is out ! i"
proof (induction m t r "is" out rule: shrinkLoop.induct)
  case (3 m t r k j "is" out)
  show ?case
  proof (cases "i = k")
    case True
    then show ?thesis using 3(1) 3(2) by (auto simp: max_def split: if_splits)
  next
    case False
    then show ?thesis using 3 by simp
  qed
next
  case (2 m t r k out)
  then show ?case by (cases "i = k") simp_all
qed simp

text \<open>What fitting does, when the display has room for every column at its minimum.\<close>

lemma shrinkWidths_cases:
  assumes "0 < minW" and "tableWidth (replicate (length natural) minW) \<le> termWidth"
  shows "tableWidth (shrinkWidths natural termWidth minW) \<le> termWidth"
proof (cases "tableWidth natural \<le> termWidth \<or> natural = []")
  case True
  then show ?thesis using assms(2) by (auto simp: shrinkWidths_def Let_def tableWidth_def)
next
  case False
  define n where "n = int (length natural)"
  define usable where "usable = termWidth - 1 - 3 * n"
  define optimal where "optimal = goQuot usable n"
  define small where "small = filter (\<lambda>wd. wd \<le> optimal) natural"
  define shrink where "shrink = filter (\<lambda>i. \<not> natural ! i \<le> optimal) [0..<length natural]"
  define rest where "rest = usable - sum_list small"
  have n: "0 < n" using False by (simp add: n_def)
  have u: "minW * n \<le> usable" using assms(2) by (simp add: tableWidth_sum usable_def n_def sum_list_replicate algebra_simps)
  then have u0: "0 \<le> usable" using assms(1) n by (meson mult_pos_pos order_less_le order_trans)
  have opt: "optimal = usable div n" using u0 n by (simp add: optimal_def goQuot_nonneg)
  have om: "minW \<le> optimal" using u n opt by (simp add: zdiv_mono1 [of "minW * n" usable n, simplified])
  have on: "optimal * n \<le> usable" using opt n by (metis div_mult_mod_eq le_add_same_cancel1 pos_mod_sign)
  have k: "int (length small) + int (length shrink) = n"
    using length_filter_split [of "\<lambda>wd. wd \<le> optimal" natural] by (simp add: small_def shrink_def n_def)
  have parts: "sum_list small + sum_list (map ((!) natural) shrink) = sum_list natural"
    unfolding small_def shrink_def by (rule sum_filter_split)
  have ssum: "sum_list small \<le> int (length small) * optimal" unfolding small_def by (rule sum_le_optimal)
  have total: "1 + sum_list (map (\<lambda>wd. wd + 3) natural) = tableWidth natural" by (simp add: tableWidth_def)
  have form: "shrinkWidths natural termWidth minW = (if shrink = [] then natural
      else shrinkLoop minW (goQuot rest (int (length shrink))) rest shrink natural)"
    using False u0
    by (simp add: shrinkWidths_def Let_def tableWidth_def optimal_def small_def shrink_def rest_def
        usable_def n_def)
  show ?thesis
  proof (cases "shrink = []")
    case True
    have "sum_list natural \<le> n * optimal" using parts ssum k True by simp
    then have "sum_list natural \<le> usable" using on by (simp add: mult.commute)
    then show ?thesis using form True by (simp add: tableWidth_sum usable_def n_def)
  next
    case False
    let ?k = "int (length shrink)"
    have kp: "0 < ?k" using False by simp
    have "?k * optimal \<le> rest"
    proof -
      have "int (length small) * optimal + ?k * optimal = n * optimal" using k by (metis distrib_right)
      then show ?thesis using ssum on by (simp add: rest_def mult.commute)
    qed
    then have r: "0 \<le> rest" "optimal \<le> rest div ?k" "?k * (rest div ?k) \<le> rest"
    proof -
      assume ko: "?k * optimal \<le> rest"
      have "0 \<le> ?k * optimal" using om assms(1) kp by simp
      then show "0 \<le> rest" using ko by linarith
      have "(?k * optimal) div ?k \<le> rest div ?k" by (rule zdiv_mono1 [OF ko kp])
      then show "optimal \<le> rest div ?k" using kp by simp
      have "?k * (rest div ?k) + rest mod ?k = rest" by simp
      then show "?k * (rest div ?k) \<le> rest" using pos_mod_sign [OF kp, of rest] by linarith
    qed
    have "sum_list (shrinkLoop minW (rest div ?k) rest shrink natural)
        = sum_list natural - sum_list (map ((!) natural) shrink) + rest"
      by (rule shrinkLoop_sum) (use False om r in \<open>auto simp: shrink_def\<close>)
    also have "\<dots> = usable" using parts by (simp add: rest_def)
    finally show ?thesis
      using form False r(1) kp
      by (simp add: goQuot_nonneg tableWidth_sum shrinkLoop_length usable_def n_def)
  qed
qed

text \<open>
  Columns fitted to a display fit it: when the display has room for every column at the
  minimum width, the borders, padding and fitted columns together are no wider than the display,
  and every column that was changed keeps at least the minimum width.
\<close>

lemma shrinkWidths_fits:
  assumes "0 < minWidth" and "1 + int (length natural) * (minWidth + 3) \<le> termWidth"
  shows "tableWidth (shrinkWidths natural termWidth minWidth) \<le> termWidth
    \<and> length (shrinkWidths natural termWidth minWidth) = length natural
    \<and> (\<forall>i < length natural. shrinkWidths natural termWidth minWidth ! i = natural ! i
         \<or> minWidth \<le> shrinkWidths natural termWidth minWidth ! i)"
proof -
  have "tableWidth (replicate (length natural) minWidth) \<le> termWidth"
    using assms(2) by (simp add: tableWidth_sum sum_list_replicate algebra_simps)
  moreover have "length (shrinkWidths natural termWidth minWidth) = length natural"
    by (simp add: shrinkWidths_def Let_def shrinkLoop_length)
  moreover have "i < length natural \<Longrightarrow> shrinkWidths natural termWidth minWidth ! i = natural ! i
      \<or> minWidth \<le> shrinkWidths natural termWidth minWidth ! i" for i
    using shrinkLoop_values by (simp add: shrinkWidths_def Let_def)
  ultimately show ?thesis using shrinkWidths_cases [OF assms(1)] by blast
qed

lemma shrinkWidths_fits_witness:
  "tableWidth (shrinkWidths [4, 60, 90] 80 8) \<le> 80"
  using shrinkWidths_fits [of 8 "[4, 60, 90]" 80] by simp

section \<open>Every line of a table is equally wide\<close>

lemma runeCount_mid:
  assumes "p \<noteq> []" and "list_all (\<lambda>c. byte c < runeSelf) p"
  shows "runeCount (s @ p @ t) = runeCount s + length p + runeCount t"
proof -
  obtain c p' where p: "p = c # p'" using assms(1) by (cases p) auto
  have cons: "byte x < runeSelf \<Longrightarrow> runes (x # b) = [x] # runes b" for x b
    using runes_cons_rune [OF isRune_ascii, of x b] by simp
  have "runes (q @ t) = map (\<lambda>x. [x]) q @ runes t" if "list_all (\<lambda>c. byte c < runeSelf) q" for q
    using that by (induction q) (simp_all add: cons)
  then have "runes (p @ t) = map (\<lambda>x. [x]) p @ runes t" using assms(2) by blast
  moreover have "runes (s @ p @ t) = runes s @ runes (p @ t)"
    using runes_append_ascii [of c s "p' @ t"] assms(2) p by simp
  ultimately show ?thesis by (simp add: runeCount_def)
qed

lemma runeCount_prefix:
  "p \<noteq> [] \<Longrightarrow> list_all (\<lambda>c. byte c < runeSelf) p \<Longrightarrow> runeCount (p @ t) = length p + runeCount t"
  using runeCount_mid [of p "[]" t] by (simp add: runeCount_def)

lemma ascii_literals: "byte (CHR '' '') < runeSelf" "byte (CHR ''|'') < runeSelf" "byte (CHR ''+'') < runeSelf"
  "byte (CHR ''-'') < runeSelf"
  by (simp_all add: byte_def runeSelf_def)

lemma border_width:
  assumes "\<forall>w \<in> set widths. 0 \<le> w"
  shows "int (runeCount (border widths)) = tableWidth widths"
proof -
  have "list_all (\<lambda>c. byte c < runeSelf) (concat (map (\<lambda>wd. replicate (nat (wd + 2)) (CHR ''-'') @ ''+'') widths))"
    using ascii_literals by (auto simp: list_all_iff)
  then have "runeCount (border widths)
      = length (border widths)"
    using runeCount_prefix [of "border widths" "[]"] ascii_literals by (simp add: border_def runeCount_def)
  moreover have "int (length (concat (map (\<lambda>wd. replicate (nat (wd + 2)) (CHR ''-'') @ ''+'') widths)))
      = sum_list (map (\<lambda>wd. wd + 3) widths)"
    using assms by (induction widths) simp_all
  ultimately show ?thesis by (simp add: border_def tableWidth_def)
qed

text \<open>One line of a row in which no cell is styled.\<close>

lemma rowLine_width:
  assumes "length widths = length cells"
    and "\<And>ci. ci < length cells \<Longrightarrow> \<forall>s \<in> set (cells ! ci). int (runeCount s) \<le> widths ! ci"
    and "\<And>ci. ci < length cells \<Longrightarrow> 0 \<le> widths ! ci"
  shows "int (runeCount (rowLine widths cells [] li)) = tableWidth widths"
proof -
  define piece where "piece = (\<lambda>ci. '' '' @ styledCell (if li < length (cells ! ci) then cells ! ci ! li else [])
    (widths ! ci) CellPlain @ '' |'')"
  have one: "int (runeCount (piece ci @ t)) = widths ! ci + 3 + int (runeCount t)" if ci: "ci < length cells" for ci t
  proof -
    define s where "s = (if li < length (cells ! ci) then cells ! ci ! li else [])"
    have s: "int (runeCount s) \<le> widths ! ci" using assms(2,3) ci by (auto simp: s_def runeCount_def)
    let ?pad = "replicate (nat \<bar>widths ! ci\<bar> - runeCount s) (CHR '' '') @ '' |''"
    have "piece ci @ t = '' '' @ s @ ?pad @ t"
      by (simp add: piece_def styledCell_def styleSeq_def padRight_def s_def [symmetric] Let_def)
    moreover have "runeCount ('' '' @ s @ ?pad @ t) = 1 + runeCount (s @ ?pad @ t)"
      using runeCount_prefix [of "'' ''" "s @ ?pad @ t"] ascii_literals by simp
    moreover have "runeCount (s @ ?pad @ t) = runeCount s + length ?pad + runeCount t"
      by (rule runeCount_mid) (use ascii_literals in \<open>auto simp: list_all_iff\<close>)
    ultimately show ?thesis using s assms(3) [OF ci] by simp
  qed
  have all: "\<forall>ci \<in> set cis. ci < length cells \<Longrightarrow>
      int (runeCount (concat (map piece cis))) = sum_list (map (\<lambda>ci. widths ! ci + 3) cis)" for cis
    by (induction cis) (simp_all add: one, simp add: runeCount_def)
  have "map (\<lambda>ci. widths ! ci + 3) [0..<length cells] = map (\<lambda>wd. wd + 3) widths"
    by (rule nth_equalityI) (simp_all add: assms(1))
  then have "int (runeCount (concat (map piece [0..<length cells]))) = sum_list (map (\<lambda>wd. wd + 3) widths)"
    using all [of "[0..<length cells]"] by simp
  moreover have "rowLine widths cells [] li = ''|'' @ concat (map piece [0..<length cells])"
    by (simp add: rowLine_def piece_def Let_def)
  ultimately show ?thesis
    using runeCount_prefix [of "''|''" "concat (map piece [0..<length cells])"] ascii_literals
    by (simp add: tableWidth_def)
qed

text \<open>The running maximum the code computes in several places.\<close>

lemma foldl_max:
  fixes f :: "'a \<Rightarrow> int"
  shows "i \<le> foldl (\<lambda>n x. if n < f x then f x else n) i xs"
    and "x \<in> set xs \<Longrightarrow> f x \<le> foldl (\<lambda>n x. if n < f x then f x else n) i xs"
    and "i \<le> b \<Longrightarrow> (\<And>x. x \<in> set xs \<Longrightarrow> f x \<le> b) \<Longrightarrow> foldl (\<lambda>n x. if n < f x then f x else n) i xs \<le> b"
proof -
  have mono: "i \<le> foldl (\<lambda>n x. if n < f x then f x else n) i xs" for i xs
  proof (induction xs arbitrary: i)
    case (Cons y ys)
    have "i \<le> (if i < f y then f y else i)" by simp
    also have "\<dots> \<le> foldl (\<lambda>n x. if n < f x then f x else n) (if i < f y then f y else i) ys" by (rule Cons)
    finally show ?case by simp
  qed simp
  then show "i \<le> foldl (\<lambda>n x. if n < f x then f x else n) i xs" .
  show "x \<in> set xs \<Longrightarrow> f x \<le> foldl (\<lambda>n x. if n < f x then f x else n) i xs"
  proof (induction xs arbitrary: i)
    case (Cons y ys)
    show ?case
    proof (cases "x = y")
      case True
      have "f x \<le> (if i < f y then f y else i)" using True by simp
      also have "\<dots> \<le> foldl (\<lambda>n x. if n < f x then f x else n) (if i < f y then f y else i) ys" by (rule mono)
      finally show ?thesis by simp
    next
      case False
      then show ?thesis using Cons.IH Cons.prems by simp
    qed
  qed simp
  show "i \<le> b \<Longrightarrow> (\<And>x. x \<in> set xs \<Longrightarrow> f x \<le> b) \<Longrightarrow> foldl (\<lambda>n x. if n < f x then f x else n) i xs \<le> b"
    by (induction xs arbitrary: i) simp_all
qed

lemma maxLineWidth_ge: "l \<in> set ls \<Longrightarrow> int (runeCount l) \<le> maxLineWidth ls" "0 \<le> maxLineWidth ls"
  and maxLineWidth_le: "0 \<le> b \<Longrightarrow> (\<And>l. l \<in> set ls \<Longrightarrow> int (runeCount l) \<le> b) \<Longrightarrow> maxLineWidth ls \<le> b"
  unfolding maxLineWidth_def
  using foldl_max(2) [of l ls "\<lambda>ln. int (runeCount ln)" 0] foldl_max(1) [of 0 "\<lambda>ln. int (runeCount ln)" ls]
    foldl_max(3) [of 0 b ls "\<lambda>ln. int (runeCount ln)"] by auto

lemma runeCount_zero: "runeCount s = 0 \<Longrightarrow> s = []"
  by (cases s) (simp_all add: runeCount_def runes.simps(2) Let_def)

lemma fields_no_newline: "f \<in> set (Go_Strings.fields s) \<Longrightarrow> cNewline \<notin> set f"
proof
  assume f: "f \<in> set (Go_Strings.fields s)" and nl: "cNewline \<in> set f"
  then obtain g where g: "g \<in> set (fieldsGo [] (runes s))" "f = concat g" by (auto simp: Go_Strings.fields_def)
  then obtain r where r: "r \<in> set g" "cNewline \<in> set r" using nl by auto
  have "noSpace g" using fieldsGo_sound [of "[]" "runes s"] g(1) by (auto simp: list_all_iff)
  then have ns: "\<not> isSpaceRune r" using r(1) by (simp add: list_all_iff)
  have "r \<in> set (concat (fieldsGo [] (runes s)))" using g(1) r(1) by auto
  then have "r \<in> set (runes s)" using fieldsGo_concat [of "[]" "runes s"] by simp
  then have "isRune r" by (rule runes_isRune)
  then have "r = [cNewline]"
  proof (cases "\<exists>c. r = [c]")
    case False
    then have "runeSelf \<le> byte cNewline" using isRune_bytes [OF \<open>isRune r\<close>] r(2) by blast
    then show ?thesis by (simp add: byte_def runeSelf_def)
  qed (use r(2) in auto)
  then show False using ns by (simp add: isSpaceRune_def)
qed

lemma collapseLines_no_newline: "cNewline \<notin> set (collapseLines s)"
proof (cases "cNewline \<in> set s")
  case True
  have "set (collapseLines s) \<subseteq> set '' '' \<union> \<Union> (set ` set (Go_Strings.fields (replaceByte s cNewline '' '')))"
    using joinWith_set [of "'' ''" "Go_Strings.fields (replaceByte s cNewline '' '')"] True
    by (simp add: collapseLines_def)
  then show ?thesis using fields_no_newline by auto
qed (simp add: collapseLines_def)

lemma collapseLines_idem: "collapseLines (collapseLines s) = collapseLines s"
  using collapseLines_no_newline [of s] by (simp add: collapseLines_def [of "collapseLines s"])

lemma splitOn_runes_le:
  assumes "seg \<in> set (splitOn cNewline s)"
  shows "int (runeCount seg) \<le> maxLineWidth (splitOn cNewline s)"
  using maxLineWidth_ge(1) [OF assms] .

text \<open>A fitted cell is never wider than its column.\<close>

lemma truncateCell_bound:
  assumes "0 < a" and "l \<in> set (truncateCell s a)"
  shows "int (runeCount l) \<le> a"
proof -
  have e: "isRune uEllipsis" by (simp add: uEllipsis_def isRune_def byte_def acceptRange_def isCont_def)
  have one: "runes uEllipsis = [uEllipsis]" using runes_cons_rune [OF e, of "[]"] by simp
  let ?t = "take (nat (a - 1)) (runes (collapseLines s))"
  have "runes (concat (?t @ [uEllipsis])) = ?t @ [uEllipsis]"
    by (rule runes_concat) (use e in \<open>auto simp: list_all_iff dest: in_set_takeD runes_isRune\<close>)
  then show ?thesis
    using assms one by (auto simp: truncateCell_def Let_def runeCount_def split: if_splits)
qed

lemma fitCell_bound:
  assumes "l \<in> set (fitCell compact s a)"
    and "0 < a \<or> (maxLineWidth (splitOn cNewline s) \<le> a \<and> (compact \<longrightarrow> collapseLines s = s))"
  shows "int (runeCount l) \<le> a"
proof (cases "0 < a")
  case True
  then show ?thesis
    using assms(1) truncateCell_bound wrapText_bound by (auto simp: fitCell_def split: if_splits)
next
  case False
  then have m: "maxLineWidth (splitOn cNewline s) \<le> a" "compact \<longrightarrow> collapseLines s = s" using assms(2) by auto
  have "l \<in> set (splitOn cNewline s)"
  proof (cases compact)
    case True
    then have "cNewline \<notin> set s" using m(2) collapseLines_no_newline [of s] by simp
    then show ?thesis
      using assms(1) True False m(2) by (simp add: fitCell_def truncateCell_def splitOn_no_sep)
  next
    case nc: False
    then show ?thesis
      using assms(1) False splitOn_no_sep [of cNewline s]
      by (auto simp: fitCell_def wrapText_def wrapLine_def split: if_splits)
  qed
  then show ?thesis using splitOn_runes_le m(1) by fastforce
qed

lemma foldl_let:
  "foldl (\<lambda>n x. let m = f x in if m > n then m else n) i xs = foldl (\<lambda>n x. if n < f x then f x else n) i xs"
  for f :: "'a \<Rightarrow> int"
  by (simp add: Let_def)

text \<open>What measuring guarantees, and what wrapping to the assigned widths gives.\<close>

lemma tableCells_natural:
  assumes "tableCells cols rows elide compact = (strRows, natural)" and "ci < length cols"
  shows "length natural = length cols" "int (runeCount (cols ! ci)) \<le> natural ! ci"
    "sr \<in> set strRows \<Longrightarrow> maxLineWidth (splitOn cNewline (sr ! ci)) \<le> natural ! ci"
    "sr \<in> set strRows \<Longrightarrow> compact \<Longrightarrow> collapseLines (sr ! ci) = sr ! ci"
proof -
  have strs: "strRows = map (\<lambda>r. map (tableCell elide compact r) [0..<length cols]) rows"
    and nat: "natural = map (\<lambda>ci. foldl (\<lambda>n sr. if n < maxLineWidth (splitOn cNewline (sr ! ci))
        then maxLineWidth (splitOn cNewline (sr ! ci)) else n)
      (int (runeCount (cols ! ci))) strRows) [0..<length cols]"
    using assms(1) by (auto simp: tableCells_def Let_def)
  show "length natural = length cols" by (simp add: nat)
  have at: "natural ! ci = foldl (\<lambda>n sr. if n < maxLineWidth (splitOn cNewline (sr ! ci))
        then maxLineWidth (splitOn cNewline (sr ! ci)) else n) (int (runeCount (cols ! ci))) strRows"
    by (subst nat, subst nth_map_upt, use assms(2) in simp) (simp only: add_0)
  show "int (runeCount (cols ! ci)) \<le> natural ! ci" unfolding at by (rule foldl_max(1))
  show "sr \<in> set strRows \<Longrightarrow> maxLineWidth (splitOn cNewline (sr ! ci)) \<le> natural ! ci"
    unfolding at by (rule foldl_max(2) [of sr strRows "\<lambda>sr. maxLineWidth (splitOn cNewline (sr ! ci))"])
  show "sr \<in> set strRows \<Longrightarrow> compact \<Longrightarrow> collapseLines (sr ! ci) = sr ! ci"
    using assms(2) by (auto simp: strs tableCell_def Let_def collapseLines_idem)
qed

lemma wrapTableCells_widths:
  assumes "wrapTableCells cols strRows assigned compact = (header, wrapRows, widths)"
    and "\<And>ci. ci < length cols \<Longrightarrow> 0 \<le> assigned ! ci"
    and "\<And>ci. ci < length cols \<Longrightarrow> 0 < assigned ! ci \<or> cols ! ci = []"
    and "\<And>ci sr. ci < length cols \<Longrightarrow> sr \<in> set strRows \<Longrightarrow>
      0 < assigned ! ci \<or> (maxLineWidth (splitOn cNewline (sr ! ci)) \<le> assigned ! ci
        \<and> (compact \<longrightarrow> collapseLines (sr ! ci) = sr ! ci))"
  shows "length widths = length cols" "length header = length cols"
    "\<And>ci. ci < length cols \<Longrightarrow> 0 \<le> widths ! ci \<and> widths ! ci \<le> assigned ! ci"
    "\<And>ci s. ci < length cols \<Longrightarrow> s \<in> set (header ! ci) \<Longrightarrow> int (runeCount s) \<le> widths ! ci"
    "\<And>wr. wr \<in> set wrapRows \<Longrightarrow> length wr = length cols"
    "\<And>wr ci s. wr \<in> set wrapRows \<Longrightarrow> ci < length cols \<Longrightarrow> s \<in> set (wr ! ci) \<Longrightarrow> int (runeCount s) \<le> widths ! ci"
proof -
  have h: "header = map (\<lambda>ci. fitCell compact (cols ! ci) (assigned ! ci)) [0..<length cols]"
    and w: "wrapRows = map (\<lambda>sr. map (\<lambda>ci. fitCell compact (sr ! ci) (assigned ! ci)) [0..<length cols]) strRows"
    and ws: "widths = map (\<lambda>ci. foldl (\<lambda>n wr. if n < maxLineWidth (wr ! ci) then maxLineWidth (wr ! ci) else n)
        (maxLineWidth (header ! ci)) wrapRows) [0..<length cols]"
    using assms(1) by (auto simp: wrapTableCells_def Let_def)
  show "length widths = length cols" "length header = length cols"
    "\<And>wr. wr \<in> set wrapRows \<Longrightarrow> length wr = length cols" by (auto simp: ws h w)
  fix ci assume ci: "ci < length cols"
  note mx = foldl_max [where f = "\<lambda>wr. maxLineWidth (wr ! ci)" and i = "maxLineWidth (header ! ci)" and xs = wrapRows]
  have at: "widths ! ci = foldl (\<lambda>n wr. if n < maxLineWidth (wr ! ci) then maxLineWidth (wr ! ci) else n)
      (maxLineWidth (header ! ci)) wrapRows"
    by (subst ws, subst nth_map_upt, use ci in simp) (simp only: add_0)
  have hle: "maxLineWidth (header ! ci) \<le> assigned ! ci"
  proof (rule maxLineWidth_le)
    fix l assume "l \<in> set (header ! ci)"
    then have l: "l \<in> set (fitCell compact (cols ! ci) (assigned ! ci))" using ci by (simp add: h)
    show "int (runeCount l) \<le> assigned ! ci"
      by (rule fitCell_bound [OF l])
        (use assms(2,3) [OF ci] in \<open>auto simp: maxLineWidth_def runeCount_def collapseLines_def\<close>)
  qed (use assms(2) ci in simp)
  have wle: "maxLineWidth (wr ! ci) \<le> assigned ! ci" if wr: "wr \<in> set wrapRows" for wr
  proof (rule maxLineWidth_le)
    fix l assume l: "l \<in> set (wr ! ci)"
    obtain sr where sr: "sr \<in> set strRows" "wr ! ci = fitCell compact (sr ! ci) (assigned ! ci)"
      using wr ci by (auto simp: w)
    show "int (runeCount l) \<le> assigned ! ci"
      using fitCell_bound assms(4) [OF ci sr(1)] l sr(2) by metis
  qed (use assms(2) ci in simp)
  show "0 \<le> widths ! ci \<and> widths ! ci \<le> assigned ! ci"
    unfolding at
    by (intro conjI order_trans [OF maxLineWidth_ge(2) mx(1)] mx(3) hle) (rule wle)
  show "s \<in> set (header ! ci) \<Longrightarrow> int (runeCount s) \<le> widths ! ci" for s
    using maxLineWidth_ge(1) [of s "header ! ci"] mx(1) unfolding at by linarith
  show "wr \<in> set wrapRows \<Longrightarrow> s \<in> set (wr ! ci) \<Longrightarrow> int (runeCount s) \<le> widths ! ci" for wr s
    using maxLineWidth_ge(1) [of s "wr ! ci"] mx(2) [of wr] unfolding at by linarith
qed

lemma tableWidth_mono:
  "length ws = length as \<Longrightarrow> (\<And>i. i < length ws \<Longrightarrow> ws ! i \<le> as ! i) \<Longrightarrow> tableWidth ws \<le> tableWidth as"
proof -
  assume a: "length ws = length as" "\<And>i. i < length ws \<Longrightarrow> ws ! i \<le> as ! i"
  have "sum_list ws \<le> sum_list as"
    using a by (induction ws "as" rule: list_induct2) (force simp: nth_Cons split: nat.splits)+
  then show ?thesis using a(1) by (simp add: tableWidth_sum)
qed

text \<open>
  C32. An undecorated table fitted to a display is a rectangle that fits it: every line the writer
  prints, border or row, wrapped or compact, has the same number of runes, and no more than the
  display has columns, whenever there is room for every column at its minimum width.
\<close>

theorem table_lines_fit_display:
  assumes "tl_styles l = []" and "0 < tl_minWidth l"
    and "1 + int (length cols) * (tl_minWidth l + 3) \<le> tl_fitWidth l"
  shows "\<exists>w \<le> tl_fitWidth l. \<forall>ln \<in> set (tableLines cols rows l). int (runeCount ln) = w"
proof -
  obtain strRows natural where tc: "tableCells cols rows (tl_elide l) (tl_compact l) = (strRows, natural)"
    by fastforce
  define assigned where "assigned = shrinkWidths natural (tl_fitWidth l) (tl_minWidth l)"
  obtain header wrapRows widths
    where wt: "wrapTableCells cols strRows assigned (tl_compact l) = (header, wrapRows, widths)"
    by (metis prod_cases3)
  have fit: "tl_fitWidth l > 0" using assms(2,3) by (smt (verit) mult_nonneg_nonneg of_nat_0_le_iff)
  have nlen: "length natural = length cols"
    using tc by (auto simp: tableCells_def Let_def)
  have room: "1 + int (length natural) * (tl_minWidth l + 3) \<le> tl_fitWidth l" using assms(3) nlen by simp
  have sw: "tableWidth assigned \<le> tl_fitWidth l" "length assigned = length cols"
    "\<And>i. i < length cols \<Longrightarrow> assigned ! i = natural ! i \<or> tl_minWidth l \<le> assigned ! i"
  proof -
    show "tableWidth assigned \<le> tl_fitWidth l"
      unfolding assigned_def by (rule shrinkWidths_cases [OF assms(2)])
        (use room in \<open>simp add: tableWidth_sum sum_list_replicate algebra_simps\<close>)
    show "length assigned = length cols"
      by (simp add: assigned_def shrinkWidths_def Let_def shrinkLoop_length nlen)
    show "i < length cols \<Longrightarrow> assigned ! i = natural ! i \<or> tl_minWidth l \<le> assigned ! i" for i
      using shrinkLoop_values nlen by (simp add: assigned_def shrinkWidths_def Let_def)
  qed
  note nat = tableCells_natural [OF tc]
  have col: "0 \<le> assigned ! ci" "0 < assigned ! ci \<or> cols ! ci = []" if "ci < length cols" for ci
    using sw(3) [OF that] nat(2) [OF that] assms(2) runeCount_zero [of "cols ! ci"] by force+
  have cell: "0 < assigned ! ci \<or> (maxLineWidth (splitOn cNewline (sr ! ci)) \<le> assigned ! ci
      \<and> (tl_compact l \<longrightarrow> collapseLines (sr ! ci) = sr ! ci))" if "ci < length cols" "sr \<in> set strRows" for ci sr
    using sw(3) [OF that(1)] nat(3,4) [OF that] assms(2) by force
  note wd = wrapTableCells_widths [OF wt col cell]
  let ?w = "tableWidth widths"
  have "?w \<le> tableWidth assigned" using wd(1,3) sw(2) by (intro tableWidth_mono) auto
  then have le: "?w \<le> tl_fitWidth l" using sw(1) by linarith
  have nn: "\<forall>w \<in> set widths. 0 \<le> w" using wd(1,3) by (auto simp: in_set_conv_nth)
  have rows: "int (runeCount ln) = ?w"
    if "ln \<in> set (rowLines widths cells [])" "length cells = length cols"
      "\<And>ci s. ci < length cols \<Longrightarrow> s \<in> set (cells ! ci) \<Longrightarrow> int (runeCount s) \<le> widths ! ci" for ln cells
    using that wd(1,3) by (auto simp: rowLines_def Let_def intro!: rowLine_width)
  have body: "int (runeCount ln) = ?w"
    if "ri < length wrapRows" "ln \<in> set (rowLines widths (wrapRows ! ri) [])" for ri ln
  proof (rule rows [OF that(2)])
    show "length (wrapRows ! ri) = length cols" using wd(5) that(1) by simp
    show "int (runeCount s) \<le> widths ! ci" if "ci < length cols" "s \<in> set (wrapRows ! ri ! ci)" for ci s
      by (rule wd(6) [where wr = "wrapRows ! ri"]) (use that \<open>ri < length wrapRows\<close> in auto)
  qed
  have "tableLines cols rows l = [border widths] @ rowLines widths header [] @ [border widths]
      @ concat (map (\<lambda>ri. rowLines widths (wrapRows ! ri) []) [0..<length wrapRows]) @ [border widths]"
    using tc wt fit assms(1) by (simp add: tableLines_def assigned_def Let_def)
  then have "\<forall>ln \<in> set (tableLines cols rows l). int (runeCount ln) = ?w"
    using border_width [OF nn] rows [OF _ wd(2) wd(4)] body by auto
  then show ?thesis using le by blast
qed

theorem table_lines_fit_display_witness:
  "\<exists>w \<le> 40. \<forall>ln \<in> set (tableLines [''ID'', ''Name''] [[VInt 7, VStr ''a rather long name that has to be wrapped'']]
     \<lparr>tl_fitWidth = 40, tl_minWidth = 8, tl_elide = True, tl_compact = False, tl_styles = []\<rparr>). int (runeCount ln) = w"
  using table_lines_fit_display
    [of "\<lparr>tl_fitWidth = 40, tl_minWidth = 8, tl_elide = True, tl_compact = False, tl_styles = []\<rparr>" "[''ID'', ''Name'']"]
  by simp

end
