(* ===== verification/Output_Columns.thy ===== *)
theory Output_Columns
  imports Output_Table
begin

text \<open>
  Column selection and the choice of format in \<^verbatim>\<open>src/internal/output/output.go\<close>: what \<^verbatim>\<open>-c\<close> and
  \<^verbatim>\<open>--sort-column\<close> name, when a name is rejected, and what a list and a single resource render. The
  encoders of \<^verbatim>\<open>json\<close>, \<^verbatim>\<open>yaml\<close> and \<^verbatim>\<open>csv\<close> are not part of the program and receive their input here
  as data; ordering rows compares floating-point numbers and is left out, up to the resolution of
  the sort keys.
\<close>

section \<open>Options\<close>

record outOptions =
  oo_Format :: gostring
  oo_Columns :: "gostring list"
  oo_MaxWidth :: int
  oo_FitWidth :: bool
  oo_SortColumns :: "gostring list"
  oo_displayWidth :: int
  oo_compactRows :: bool

definition FormatTable :: gostring where "FormatTable = ''table''"
definition FormatJSON :: gostring where "FormatJSON = ''json''"
definition FormatYAML :: gostring where "FormatYAML = ''yaml''"
definition FormatValue :: gostring where "FormatValue = ''value''"
definition FormatCSV :: gostring where "FormatCSV = ''csv''"
definition FormatTSV :: gostring where "FormatTSV = ''tsv''"

definition allFormats :: "gostring list" where
  "allFormats = [FormatTable, FormatJSON, FormatYAML, FormatValue, FormatCSV, FormatTSV]"

lemmas format_defs = FormatTable_def FormatJSON_def FormatYAML_def FormatValue_def FormatCSV_def
  FormatTSV_def allFormats_def

definition Validate :: "outOptions \<Rightarrow> bool" where
  "Validate opts \<longleftrightarrow> oo_Format opts \<in> set allFormats"

definition SetDisplayWidth :: "int \<Rightarrow> outOptions \<Rightarrow> outOptions" where
  "SetDisplayWidth width opts = opts\<lparr>oo_displayWidth := width\<rparr>"

definition SetCompactRows :: "bool \<Rightarrow> outOptions \<Rightarrow> outOptions" where
  "SetCompactRows on opts = opts\<lparr>oo_compactRows := on\<rparr>"

text \<open>
  \<open>fitWidth\<close>: the arguments are what \<^verbatim>\<open>terminalSize\<close> and \<^verbatim>\<open>columnsEnv\<close> answer.
\<close>

definition fitWidth :: "bool \<Rightarrow> int \<Rightarrow> int \<Rightarrow> outOptions \<Rightarrow> int" where
  "fitWidth isTTY ttyWidth envColumns opts =
     (if oo_MaxWidth opts > 0 then oo_MaxWidth opts
      else if oo_displayWidth opts > 0 then oo_displayWidth opts
      else if \<not> oo_FitWidth opts \<and> \<not> isTTY then 0
      else
        (let width = (if ttyWidth \<le> 0 then envColumns else ttyWidth)
         in if width \<le> 0 then 80 else width))"

section \<open>Matching names\<close>

text \<open>
  \<^verbatim>\<open>strings.EqualFold\<close> against a column header. Headers are ASCII, and besides the other case of a
  letter only U+212A folds to \<^verbatim>\<open>k\<close> and U+017F to \<^verbatim>\<open>s\<close>.
\<close>

definition foldRune :: "rune \<Rightarrow> rune" where
  "foldRune r =
     (if r = [CHR 0xE2, CHR 0x84, CHR 0xAA] then ''k''
      else if r = [CHR 0xC5, CHR 0xBF] then ''s''
      else if length r = 1 then map lowerByte r else r)"

definition equalFold :: "gostring \<Rightarrow> gostring \<Rightarrow> bool" where
  "equalFold s t \<longleftrightarrow> map foldRune (runes s) = map foldRune (runes t)"

definition matchesAnyColumn :: "gostring \<Rightarrow> gostring list \<Rightarrow> bool" where
  "matchesAnyColumn want available = list_ex (\<lambda>have. equalFold (trimSpace want) have) available"

datatype columnError =
  ColumnError (ce_Unknown: "gostring list") (ce_Available: "gostring list") (ce_Sort: bool)
    (ce_Rendering: bool) (ce_ID: gostring)

definition columnErrorText :: "columnError \<Rightarrow> gostring" where
  "columnErrorText e =
     (if ce_Sort e
      then ''unknown sort column '' @ [CHR 0x22] @ joinWith '', '' (ce_Unknown e) @ [CHR 0x22]
           @ '': available columns are '' @ joinWith '', '' (ce_Available e)
      else ''unknown column(s): '' @ joinWith '', '' (ce_Unknown e) @ '' (available: ''
           @ joinWith '', '' (ce_Available e) @ '')'')"

definition validateColumns :: "outOptions \<Rightarrow> gostring list \<Rightarrow> columnError option" where
  "validateColumns opts cols =
     (if oo_Columns opts = [] then None
      else
        (let unknown = filter (\<lambda>want. \<not> matchesAnyColumn want cols) (oo_Columns opts)
         in if unknown \<noteq> [] then Some (ColumnError unknown cols False False []) else None))"

definition CheckColumns :: "outOptions \<Rightarrow> gostring list \<Rightarrow> columnError option" where
  "CheckColumns opts available =
     (case validateColumns opts available of
        Some e \<Rightarrow> Some e
      | None \<Rightarrow>
          (case find (\<lambda>name. \<not> matchesAnyColumn name available) (oo_SortColumns opts) of
             Some name \<Rightarrow> Some (ColumnError [name] available True False [])
           | None \<Rightarrow> None))"

definition ColumnsWithin :: "outOptions \<Rightarrow> gostring list \<Rightarrow> bool" where
  "ColumnsWithin opts names \<longleftrightarrow>
     oo_Columns opts \<noteq> []
     \<and> list_all (\<lambda>want. matchesAnyColumn want names) (oo_Columns opts)
     \<and> list_all (\<lambda>want. matchesAnyColumn want names) (oo_SortColumns opts)"

definition columnSelected :: "outOptions \<Rightarrow> gostring \<Rightarrow> bool" where
  "columnSelected opts field = list_ex (\<lambda>want. equalFold (trimSpace want) field) (oo_Columns opts)"

definition sortColumnSelected :: "outOptions \<Rightarrow> gostring \<Rightarrow> bool" where
  "sortColumnSelected opts field = list_ex (\<lambda>want. equalFold (trimSpace want) field) (oo_SortColumns opts)"

definition SelectedColumns :: "outOptions \<Rightarrow> gostring list \<Rightarrow> gostring list" where
  "SelectedColumns opts candidates =
     filter (\<lambda>c. columnSelected opts c \<or> sortColumnSelected opts c) candidates"

section \<open>Selecting\<close>

text \<open>The first column a name matches, as its index.\<close>

fun findColumn :: "(gostring \<Rightarrow> bool) \<Rightarrow> nat \<Rightarrow> gostring list \<Rightarrow> nat option" where
  "findColumn p i [] = None"
| "findColumn p i (have # rest) = (if p have then Some i else findColumn p (Suc i) rest)"

definition selectColumns :: "outOptions \<Rightarrow> gostring list \<Rightarrow> gostring list \<times> nat list" where
  "selectColumns opts cols =
     (if oo_Columns opts = [] then (cols, [0..<length cols])
      else
        (let idx = List.map_filter (\<lambda>want. findColumn (equalFold (trimSpace want)) 0 cols) (oo_Columns opts)
         in (map ((!) cols) idx, idx)))"

definition cellAt :: "anyval list \<Rightarrow> nat \<Rightarrow> anyval" where
  "cellAt row i = (if i < length row then row ! i else VNil)"

text \<open>The key resolution of \<^verbatim>\<open>sortRows\<close>: the indices to sort by, or the error.\<close>

fun sortKeys :: "gostring list \<Rightarrow> gostring list \<Rightarrow> columnError + nat list" where
  "sortKeys cols [] = Inr []"
| "sortKeys cols (name # names) =
     (case findColumn (\<lambda>col. equalFold col name) 0 cols of
        None \<Rightarrow> Inl (ColumnError [name] cols True False [])
      | Some i \<Rightarrow> (case sortKeys cols names of Inl e \<Rightarrow> Inl e | Inr ks \<Rightarrow> Inr (i # ks)))"

definition resolveSort :: "outOptions \<Rightarrow> gostring list \<Rightarrow> anyval list list \<Rightarrow> columnError + nat list" where
  "resolveSort opts cols rows =
     (if oo_SortColumns opts = [] \<or> length rows < 2 then Inr [] else sortKeys cols (oo_SortColumns opts))"

fun firstId :: "gostring list \<Rightarrow> anyval list \<Rightarrow> gostring" where
  "firstId [] vs = []"
| "firstId fs [] = []"
| "firstId (f # fs) (v # vs) =
     (if equalFoldAscii f ''id'' \<or> equalFoldAscii f ''uuid''
      then (case v of VStr s \<Rightarrow> s | _ \<Rightarrow> firstId fs vs) else firstId fs vs)"

definition renderColumnError :: "columnError \<Rightarrow> gostring list \<Rightarrow> anyval list \<Rightarrow> columnError" where
  "renderColumnError e fs vs = ColumnError (ce_Unknown e) (ce_Available e) (ce_Sort e) True (firstId fs vs)"

definition selectFields :: "outOptions \<Rightarrow> gostring list \<Rightarrow> anyval list \<Rightarrow> gostring list \<times> anyval list" where
  "selectFields opts fs vs =
     (let keep = filter (\<lambda>i. columnSelected opts (fs ! i)) [0..<length fs]
      in (map ((!) fs) keep, map (cellAt vs) keep))"

definition fieldRows :: "gostring list \<Rightarrow> anyval list \<Rightarrow> anyval list list" where
  "fieldRows fs vs = map (\<lambda>i. [VStr (fs ! i), vs ! i]) [0..<length fs]"

text \<open>The rows of a list after selection: a short row has nil cells.\<close>

definition projectRows :: "nat list \<Rightarrow> anyval list list \<Rightarrow> anyval list list" where
  "projectRows idx rows = map (\<lambda>r. normalizeRow (map (cellAt r) idx)) rows"

text \<open>The installed decorator, \<^const>\<open>None\<close> when there is none; it may return nil rows.\<close>

type_synonym highlighter =
  "gostring list \<Rightarrow> anyval list list \<Rightarrow> anyval list list option \<times> cellStyle list list"

definition highlight :: "highlighter option \<Rightarrow> gostring list \<Rightarrow> anyval list list
    \<Rightarrow> anyval list list \<times> cellStyle list list" where
  "highlight hl cols rows =
     (case hl of
        None \<Rightarrow> (rows, [])
      | Some h \<Rightarrow>
          (let (frame, styles) = h cols rows
           in (case frame of None \<Rightarrow> rows | Some fr \<Rightarrow> fr, styles)))"

text \<open>
  What is handed to the chosen format. \<open>sortBy\<close> orders the rows by the resolved keys and \<open>width\<close> is
  the result of \<^verbatim>\<open>fitWidth\<close>.
\<close>

datatype rendered =
    RJson "gostring list" "anyval list list" | RYaml "gostring list" "anyval list list"
  | RCsv "gostring list" "anyval list list" | RText gostring

definition WriteList :: "(nat list \<Rightarrow> anyval list list \<Rightarrow> anyval list list) \<Rightarrow> highlighter option \<Rightarrow> int
    \<Rightarrow> outOptions \<Rightarrow> gostring list \<Rightarrow> anyval list list \<Rightarrow> columnError + rendered" where
  "WriteList sortBy hl width opts tcols trows =
     (case validateColumns opts tcols of
        Some e \<Rightarrow> Inl (renderColumnError e [] [])
      | None \<Rightarrow>
          (case resolveSort opts tcols trows of
             Inl e \<Rightarrow> Inl (renderColumnError e [] [])
           | Inr keys \<Rightarrow>
               (let (cols, idx) = selectColumns opts tcols;
                    rows = projectRows idx (sortBy keys trows)
                in Inr (if oo_Format opts = FormatJSON then RJson cols rows
                        else if oo_Format opts = FormatYAML then RYaml cols rows
                        else if oo_Format opts = FormatCSV then RCsv cols rows
                        else if oo_Format opts = FormatValue then RText (writeValue rows)
                        else if oo_Format opts = FormatTSV then RText (writeTSV rows)
                        else
                          (let (frame, styles) = highlight hl cols rows
                           in RText (writeTable cols frame
                                \<lparr>tl_fitWidth = width, tl_minWidth = 8, tl_elide = (oo_Columns opts = []),
                                 tl_compact = oo_compactRows opts, tl_styles = styles\<rparr>))))))"

text \<open>\<^const>\<open>None\<close> is the internal error of fields and values of different lengths.\<close>

definition WriteSingle :: "highlighter option \<Rightarrow> int \<Rightarrow> outOptions \<Rightarrow> gostring list \<Rightarrow> anyval list
    \<Rightarrow> (columnError + rendered) option" where
  "WriteSingle hl width opts fs vs =
     (if length vs \<noteq> length fs then None
      else case validateColumns opts fs of
        Some e \<Rightarrow> Some (Inl (renderColumnError e fs vs))
      | None \<Rightarrow>
          (let vs = map normalize vs;
               (fs, vs) = (if oo_Columns opts \<noteq> [] then selectFields opts fs vs else (fs, vs));
               rows = map (\<lambda>v. [v]) vs
           in Some (Inr (
                if oo_Format opts = FormatJSON then RJson fs [vs]
                else if oo_Format opts = FormatYAML then RYaml fs [vs]
                else if oo_Format opts = FormatCSV then RCsv [''Field'', ''Value''] (fieldRows fs vs)
                else if oo_Format opts = FormatTSV then RText (writeTSV rows)
                else if oo_Format opts = FormatValue then RText (writeValue rows)
                else
                  (let (frame, styles) = highlight hl [''Field'', ''Value''] (fieldRows fs vs)
                   in RText (writeTable [''Field'', ''Value''] frame
                        \<lparr>tl_fitWidth = width, tl_minWidth = 16, tl_elide = (oo_Columns opts = []),
                         tl_compact = oo_compactRows opts, tl_styles = styles\<rparr>))))))"

section \<open>Selection is total and in the requested order\<close>

lemma findColumn_Some:
  "findColumn p i cols = Some k \<Longrightarrow> i \<le> k \<and> k < i + length cols \<and> p (cols ! (k - i))"
proof (induction p i cols rule: findColumn.induct)
  case (2 p i h rest)
  show ?case
  proof (cases "p h")
    case False
    then have "findColumn p (Suc i) rest = Some k" using 2(2) by simp
    then have "Suc i \<le> k" "k < Suc i + length rest" "p (rest ! (k - Suc i))" using 2(1) False by auto
    then show ?thesis by (auto simp: nth_Cons' Suc_diff_Suc)
  qed (use 2(2) in auto)
qed simp

lemma findColumn_None: "findColumn p i cols = None \<longleftrightarrow> \<not> list_ex p cols"
  by (induction p i cols rule: findColumn.induct) auto

lemma map_filter_all:
  "list_all (\<lambda>x. f x \<noteq> None) xs \<Longrightarrow> List.map_filter f xs = map (\<lambda>x. the (f x)) xs"
  by (induction xs) (auto simp: List.map_filter_simps)

text \<open>
  A selection that passes the check is rendered exactly as asked: one column per requested
  name, in the requested order, each the table's own column that the name matches; the
  projected rows have one cell per column; and the check passes exactly when every requested
  name matches some column.
\<close>

lemma selected_columns_match_request:
  assumes "oo_Columns opts \<noteq> []"
  shows "(validateColumns opts cols = None \<longrightarrow>
      (let (names, idx) = selectColumns opts cols in
         length idx = length (oo_Columns opts) \<and> names = map ((!) cols) idx
         \<and> list_all2 (\<lambda>want i. i < length cols \<and> equalFold (trimSpace want) (cols ! i)) (oo_Columns opts) idx
         \<and> list_all (\<lambda>r. length r = length (oo_Columns opts)) (projectRows idx rows)))
    \<and> (validateColumns opts cols = None \<longleftrightarrow> list_all (\<lambda>want. matchesAnyColumn want cols) (oo_Columns opts))"
proof -
  let ?f = "\<lambda>want. findColumn (equalFold (trimSpace want)) 0 cols"
  have iff: "validateColumns opts cols = None \<longleftrightarrow> list_all (\<lambda>want. matchesAnyColumn want cols) (oo_Columns opts)"
    using assms by (auto simp: validateColumns_def Let_def filter_empty_conv list_all_iff)
  have "length (List.map_filter ?f (oo_Columns opts)) = length (oo_Columns opts)
      \<and> list_all2 (\<lambda>want i. i < length cols \<and> equalFold (trimSpace want) (cols ! i))
          (oo_Columns opts) (List.map_filter ?f (oo_Columns opts))"
    if "list_all (\<lambda>want. matchesAnyColumn want cols) (oo_Columns opts)"
  proof -
    have "list_all (\<lambda>want. ?f want \<noteq> None) (oo_Columns opts)"
      using that by (simp add: matchesAnyColumn_def findColumn_None)
    moreover have "the (?f want) < length cols \<and> equalFold (trimSpace want) (cols ! the (?f want))"
      if "?f want \<noteq> None" for want
      using that findColumn_Some [of "equalFold (trimSpace want)" 0 cols] by fastforce
    moreover from calculation have "list_all2 (\<lambda>want i. i < length cols \<and> equalFold (trimSpace want) (cols ! i))
        (oo_Columns opts) (map (\<lambda>want. the (?f want)) (oo_Columns opts))"
      unfolding list.rel_map list_all_iff by (intro list.rel_refl_strong) blast
    ultimately show ?thesis by (simp add: map_filter_all)
  qed
  note sel = this
  have proj: "list_all (\<lambda>r. length r = n) (projectRows idx rows)" if "length idx = n" for idx n
    using that by (simp add: projectRows_def normalizeRow_def list_all_iff)
  show ?thesis
  proof (cases "list_all (\<lambda>want. matchesAnyColumn want cols) (oo_Columns opts)")
    case True
    have "list_all (\<lambda>r. length r = length (oo_Columns opts)) (projectRows (List.map_filter ?f (oo_Columns opts)) rows)"
      by (rule proj) (use sel [OF True] in simp)
    with True show ?thesis using assms iff sel [OF True] by (simp add: selectColumns_def Let_def)
  qed (use iff in auto)
qed

definition sampleOut :: outOptions where
  "sampleOut = \<lparr>oo_Format = FormatTable, oo_Columns = ['' name '', ''ID''], oo_MaxWidth = 0, oo_FitWidth = False,
     oo_SortColumns = ['' name''], oo_displayWidth = 0, oo_compactRows = False\<rparr>"

lemma sample_names:
  "trimSpace '' name '' = ''name''" "trimSpace ''ID'' = ''ID''" "trimSpace '' name'' = ''name''"
  "equalFold ''name'' ''Name''" "equalFold ''ID'' ''ID''" "\<not> equalFold ''ID'' '' name''" "\<not> equalFold ''Name'' '' name''"
  by (simp_all add: trimSpace_def runes_ascii byte_def runeSelf_def isSpaceRune_def equalFold_def foldRune_def
      lowerByte_def char_of_def bit_0 bit_Suc)

lemma selected_columns_match_request_witness:
  "length (snd (selectColumns sampleOut [''ID'', ''Name''])) = 2
   \<and> snd (selectColumns sampleOut [''ID'', ''Name'']) = [1, 0]"
proof -
  have m: "validateColumns sampleOut [''ID'', ''Name''] = None"
    by (simp add: validateColumns_def sampleOut_def matchesAnyColumn_def sample_names Let_def)
  from selected_columns_match_request [of sampleOut "[''ID'', ''Name'']"] m
  have "length (snd (selectColumns sampleOut [''ID'', ''Name''])) = 2"
    by (simp add: sampleOut_def case_prod_unfold Let_def)
  moreover have "\<not> equalFold ''name'' ''ID''"
    by (simp add: runes_ascii byte_def runeSelf_def equalFold_def foldRune_def lowerByte_def char_of_def bit_0 bit_Suc)
  then have "snd (selectColumns sampleOut [''ID'', ''Name'']) = [1, 0]"
    by (simp add: selectColumns_def sampleOut_def Let_def sample_names List.map_filter_simps)
  ultimately show ?thesis by blast
qed

section \<open>The check before a write and the sort at rendering disagree\<close>

text \<open>
  \<^verbatim>\<open>CheckColumns\<close>, which commands call before they change anything so that a mistyped name fails
  with nothing done, trims the name of a sort column; resolving the sort key does not. A name
  with a blank around it therefore passes the check and is rejected once the result is rendered.
\<close>

lemma sort_column_check_is_too_lenient:
  assumes "validateColumns opts cols = None" and "oo_SortColumns opts = [name]"
    and "matchesAnyColumn name cols" and "list_all (\<lambda>c. \<not> equalFold c name) cols" and "2 \<le> length rows"
  shows "CheckColumns opts cols = None
    \<and> WriteList sortBy hl width opts cols rows = Inl (ColumnError [name] cols True True [])"
proof -
  have "findColumn (\<lambda>col. equalFold col name) 0 cols = None"
    using assms(4) by (simp add: findColumn_None list_all_iff list_ex_iff)
  then show ?thesis
    using assms by (simp add: CheckColumns_def WriteList_def resolveSort_def renderColumnError_def)
qed

lemma sort_column_check_is_too_lenient_witness:
  "CheckColumns sampleOut [''ID'', ''Name''] = None"
  using sort_column_check_is_too_lenient [of sampleOut "[''ID'', ''Name'']" "'' name''" "[[], []]"]
  by (simp add: validateColumns_def sampleOut_def matchesAnyColumn_def sample_names Let_def)

end
