(* ===== verification/Output_Sort.thy ===== *)
theory Output_Sort
  imports Output_Columns "HOL-Library.AList" "HOL-Library.Word" "HOL-Library.Multiset"
begin

text \<open>
  The rest of \<^verbatim>\<open>src/internal/output/output.go\<close>: the sort of the rows, CSV with the quoting of
  \<^verbatim>\<open>encoding/csv\<close>, the maps of the structured formats, and \<^verbatim>\<open>HumanBytes\<close>. Floating-point numbers are
  any linear order with a conversion of integers and a parser, and \<^verbatim>\<open>NaN\<close> beside it; \<^verbatim>\<open>HumanBytes\<close> works on
  exact fractions, since it divides by powers of two only.
\<close>

section \<open>The flags\<close>

text \<open>The options as \<^verbatim>\<open>AddFlags\<close> leaves them when no flag is typed.\<close>

definition outDefaults :: outOptions where
  "outDefaults = \<lparr>oo_Format = FormatTable, oo_Columns = [], oo_MaxWidth = 0, oo_FitWidth = False, oo_SortColumns = [],
     oo_displayWidth = 0, oo_compactRows = False\<rparr>"

section \<open>Comparing cells\<close>

text \<open>
  \<open>fl_parse\<close> is \<^const>\<open>None\<close> where \<^verbatim>\<open>strconv.ParseFloat\<close> fails, and \<open>Some None\<close> where it returns \<^verbatim>\<open>NaN\<close>;
  \<open>fl_number\<close> is the text of a \<^verbatim>\<open>json.Number\<close>.
\<close>

record 'f floatLib =
  fl_int :: "int \<Rightarrow> 'f"
  fl_parse :: "gostring \<Rightarrow> 'f option option"
  fl_number :: "anyval \<Rightarrow> gostring option"

definition numericValue :: "'f floatLib \<Rightarrow> anyval \<Rightarrow> 'f option option" where
  "numericValue fl v =
     (case fl_number fl v of
        Some s \<Rightarrow> fl_parse fl s
      | None \<Rightarrow>
          (case v of
             VInt i \<Rightarrow> Some (Some (fl_int fl i))
           | VFloat t \<Rightarrow> fl_parse fl t
           | VStr s \<Rightarrow> if trimSpace s = [] then None else fl_parse fl (trimSpace s)
           | _ \<Rightarrow> None))"

definition compareNum :: "'f::linorder option \<Rightarrow> 'f option \<Rightarrow> int" where
  "compareNum a b =
     (case (a, b) of (Some x, Some y) \<Rightarrow> if x < y then -1 else if x > y then 1 else 0 | _ \<Rightarrow> 0)"

definition compareStr :: "gostring \<Rightarrow> gostring \<Rightarrow> int" where
  "compareStr a b = (if a = b then 0 else if a < b then -1 else 1)"

definition compareCells :: "'f::linorder floatLib \<Rightarrow> anyval \<Rightarrow> anyval \<Rightarrow> int" where
  "compareCells fl a b =
     (case (numericValue fl a, numericValue fl b) of
        (Some x, Some y) \<Rightarrow> compareNum x y
      | _ \<Rightarrow> compareStr (cellRaw a) (cellRaw b))"

section \<open>Sorting rows\<close>

text \<open>
  \<^verbatim>\<open>sort.SliceStable\<close> by insertion, which is what it does within its blocks: a new element moves left past
  the elements it is less than. The list is kept last element first. With a strict weak order, which
  \<^verbatim>\<open>SliceStable\<close> asks for, the stable sort of any number of rows is the same.
\<close>

fun goInsert :: "('r \<Rightarrow> 'r \<Rightarrow> bool) \<Rightarrow> 'r \<Rightarrow> 'r list \<Rightarrow> 'r list" where
  "goInsert lt x [] = [x]"
| "goInsert lt x (y # ys) = (if lt x y then y # goInsert lt x ys else x # y # ys)"

definition sliceStable :: "('r \<Rightarrow> 'r \<Rightarrow> bool) \<Rightarrow> 'r list \<Rightarrow> 'r list" where
  "sliceStable lt xs = rev (fold (goInsert lt) xs [])"

fun compareRows :: "'f::linorder floatLib \<Rightarrow> nat list \<Rightarrow> anyval list \<Rightarrow> anyval list \<Rightarrow> int" where
  "compareRows fl [] a b = 0"
| "compareRows fl (k # ks) a b =
     (let c = compareCells fl (cellAt a k) (cellAt b k) in if c \<noteq> 0 then c else compareRows fl ks a b)"

definition sortRows :: "'f::linorder floatLib \<Rightarrow> nat list \<Rightarrow> anyval list list \<Rightarrow> anyval list list" where
  "sortRows fl keys rows = (if keys = [] then rows else sliceStable (\<lambda>a b. compareRows fl keys a b < 0) rows)"

section \<open>Structured formats and CSV\<close>

text \<open>A Go map as the list of its entries, a later cell of the same name replacing an earlier one.\<close>

definition rowMap :: "gostring list \<Rightarrow> anyval list \<Rightarrow> (gostring \<times> anyval) list" where
  "rowMap cols r = fold (\<lambda>(c, v) m. AList.update c v m) (zip cols r) []"

definition rowsToMaps :: "gostring list \<Rightarrow> anyval list list \<Rightarrow> (gostring \<times> anyval) list list" where
  "rowsToMaps cols rows = map (rowMap cols) rows"

definition fieldMap :: "gostring list \<Rightarrow> anyval list \<Rightarrow> (gostring \<times> anyval) list" where
  "fieldMap fs vs = rowMap fs vs"

text \<open>\<^verbatim>\<open>csv.Writer.Write\<close>, with its default comma and line feed.\<close>

definition fieldNeedsQuotes :: "gostring \<Rightarrow> bool" where
  "fieldNeedsQuotes f \<longleftrightarrow>
     f \<noteq> [] \<and> (f = [CHR 0x5C, CHR ''.'']
       \<or> list_ex (\<lambda>c. c = CHR '','' \<or> c = CHR 0x22 \<or> c = CHR 0x0D \<or> c = CHR 0x0A) f
       \<or> isSpaceRune (hd (runes f)))"

definition csvField :: "gostring \<Rightarrow> gostring" where
  "csvField f =
     (if fieldNeedsQuotes f
      then [CHR 0x22] @ concat (map (\<lambda>c. if c = CHR 0x22 then [CHR 0x22, CHR 0x22] else [c]) f) @ [CHR 0x22]
      else f)"

definition csvRecord :: "gostring list \<Rightarrow> gostring" where
  "csvRecord rec = joinWith '','' (map csvField rec) @ [CHR 0x0A]"

definition writeCSV :: "gostring list \<Rightarrow> anyval list list \<Rightarrow> gostring" where
  "writeCSV cols rows = csvRecord cols @ concat (map (\<lambda>r. csvRecord (map cell r)) rows)"

section \<open>\<^verbatim>\<open>HumanBytes\<close>\<close>

definition byteUnits :: "gostring list" where
  "byteUnits = [''KiB'', ''MiB'', ''GiB'', ''TiB'', ''PiB'', ''EiB'']"

text \<open>Rounding to an integer, a half to the even one.\<close>

definition roundHalfEven :: "nat \<Rightarrow> nat \<Rightarrow> nat" where
  "roundHalfEven n d =
     (let q = n div d; r = n mod d in
      if 2 * r > d \<or> 2 * r = d \<and> odd q then q + 1 else q)"

text \<open>The conversion of a non-negative \<^verbatim>\<open>int64\<close> to \<^verbatim>\<open>float64\<close>, which keeps 53 bits.\<close>

fun toFloat64Go :: "nat \<Rightarrow> nat \<Rightarrow> nat \<Rightarrow> nat" where
  "toFloat64Go 0 n e = n * e"
| "toFloat64Go (Suc k) n e = (if roundHalfEven n e < 2 ^ 53 then roundHalfEven n e * e else toFloat64Go k n (2 * e))"

definition toFloat64 :: "nat \<Rightarrow> nat" where
  "toFloat64 n = toFloat64Go 12 n 1"

text \<open>\<^verbatim>\<open>FormatFloat(n/d, 'f', prec, 64)\<close> of a fraction.\<close>

definition formatFixed :: "nat \<Rightarrow> nat \<Rightarrow> nat \<Rightarrow> gostring" where
  "formatFixed prec n d =
     (let q = roundHalfEven (n * 10 ^ prec) d; frac = natDigits (q mod 10 ^ prec) in
      natDigits (q div 10 ^ prec)
        @ (if prec = 0 then [] else ''.'' @ replicate (prec - length frac) (CHR ''0'') @ frac))"

text \<open>The loop over the units: the value is the numerator over a power of 1024.\<close>

fun unitLoop :: "nat \<Rightarrow> nat \<Rightarrow> gostring \<Rightarrow> gostring list \<Rightarrow> nat \<times> gostring" where
  "unitLoop v d unit [] = (d, unit)"
| "unitLoop v d unit (u # us) = (if v < 1024 * d then (d, unit) else unitLoop v (1024 * d) u us)"

definition humanUnits :: "nat \<Rightarrow> gostring" where
  "humanUnits n =
     (if n < 1024 then natDigits n @ '' B''
      else
        let v = toFloat64 n; (d, unit) = unitLoop v 1024 (hd byteUnits) (tl byteUnits);
            prec = (if v < 10 * d then 2 else if v < 100 * d then 1 else 0)
        in formatFixed prec v d @ '' '' @ unit)"

text \<open>The sign is taken off by negating, which wraps; \<^const>\<open>None\<close> is the recursion that does not return.\<close>

partial_function (option) HumanBytes :: "64 word \<Rightarrow> gostring option" where
  "HumanBytes n =
     (if sint n < 0 then Option.bind (HumanBytes (- n)) (\<lambda>t. Some (''-'' @ t))
      else Some (humanUnits (unat n)))"

section \<open>The sort is the stable sort by the columns\<close>

text \<open>A comparison that is consistent on a set: reversing it changes the sign, and not greater is transitive.\<close>

definition consistentOn :: "'a set \<Rightarrow> ('a \<Rightarrow> 'a \<Rightarrow> int) \<Rightarrow> bool" where
  "consistentOn S c \<longleftrightarrow>
     (\<forall>a \<in> S. \<forall>b \<in> S. c b a = - c a b) \<and> (\<forall>a \<in> S. \<forall>b \<in> S. \<forall>d \<in> S. c a b \<le> 0 \<longrightarrow> c b d \<le> 0 \<longrightarrow> c a d \<le> 0)"

lemma consistent_neg: "consistentOn S c \<Longrightarrow> a \<in> S \<Longrightarrow> b \<in> S \<Longrightarrow> c b a = - c a b"
  unfolding consistentOn_def by blast

lemma consistent_subset: "consistentOn S c \<Longrightarrow> A \<subseteq> S \<Longrightarrow> consistentOn A c"
  unfolding consistentOn_def by blast

lemma consistent_trans: "consistentOn S c \<Longrightarrow> a \<in> S \<Longrightarrow> b \<in> S \<Longrightarrow> d \<in> S \<Longrightarrow> c a b \<le> 0 \<Longrightarrow> c b d \<le> 0 \<Longrightarrow> c a d \<le> 0"
  unfolding consistentOn_def by blast

lemma consistent_split:
  assumes "consistentOn S c" "a \<in> S" "b \<in> S" "d \<in> S" "c a d < 0"
  shows "c a b < 0 \<or> c b d < 0"
proof (rule ccontr)
  assume "\<not> ?thesis"
  then have "c d b \<le> 0" "c b a \<le> 0"
    using consistent_neg [OF assms(1,3,4)] consistent_neg [OF assms(1,2,3)] by linarith+
  then have "c d a \<le> 0" using consistent_trans [OF assms(1,4,3,2)] by blast
  then show False using consistent_neg [OF assms(1,2,4)] assms(5) by linarith
qed

text \<open>Comparing by one order and then, among equals, by another.\<close>

lemma consistent_lex:
  assumes "consistentOn S c" "consistentOn S c'"
  shows "consistentOn S (\<lambda>a b. if c a b \<noteq> 0 then c a b else c' a b)"
  unfolding consistentOn_def
proof (intro conjI ballI impI)
  fix a b assume "a \<in> S" "b \<in> S"
  then show "(if c b a \<noteq> 0 then c b a else c' b a) = - (if c a b \<noteq> 0 then c a b else c' a b)"
    using consistent_neg [OF assms(1), of a b] consistent_neg [OF assms(2), of a b] by simp
next
  fix a b d assume S: "a \<in> S" "b \<in> S" "d \<in> S"
    and ab: "(if c a b \<noteq> 0 then c a b else c' a b) \<le> 0" and bd: "(if c b d \<noteq> 0 then c b d else c' b d) \<le> 0"
  have le: "c a b \<le> 0" "c b d \<le> 0" using ab bd by (auto split: if_splits)
  then have ad: "c a d \<le> 0" using consistent_trans [OF assms(1)] S by blast
  show "(if c a d \<noteq> 0 then c a d else c' a d) \<le> 0"
  proof (cases "c a d = 0")
    case True
    then have "c d a \<le> 0" using consistent_neg [OF assms(1) S(1,3)] by linarith
    then have "c d b \<le> 0" "c b a \<le> 0"
      using consistent_trans [OF assms(1) S(3,1,2)] consistent_trans [OF assms(1) S(2,3,1)] le by blast+
    then have "c a b = 0" "c b d = 0"
      using le consistent_neg [OF assms(1) S(1,2)] consistent_neg [OF assms(1) S(2,3)] by linarith+
    then show ?thesis using True ab bd consistent_trans [OF assms(2) S] by simp
  qed (use ad in simp)
qed

lemma consistent_image: "consistentOn (f ` S) c \<Longrightarrow> consistentOn S (\<lambda>a b. c (f a) (f b))"
  unfolding consistentOn_def by blast

lemma compareStr_consistent: "consistentOn S (\<lambda>a b. compareStr (f a) (f b))"
  by (auto simp: consistentOn_def compareStr_def split: if_splits)

lemma compareNum_consistent:
  fixes f :: "'a \<Rightarrow> 'f::linorder"
  shows "consistentOn S (\<lambda>a b. if f a < f b then -1 else if f a > f b then 1 else 0)"
  by (auto simp: consistentOn_def split: if_splits)

lemma consistent_cong:
  assumes "consistentOn S c'" "\<And>a b. a \<in> S \<Longrightarrow> b \<in> S \<Longrightarrow> c a b = c' a b"
  shows "consistentOn S c"
  using assms unfolding consistentOn_def by metis

text \<open>A column whose cells are all numbers, none of them \<^verbatim>\<open>NaN\<close>, or none of which is a number.\<close>

definition uniformColumn :: "'f::linorder floatLib \<Rightarrow> nat \<Rightarrow> anyval list list \<Rightarrow> bool" where
  "uniformColumn fl k rows \<longleftrightarrow>
     list_all (\<lambda>r. case numericValue fl (cellAt r k) of Some (Some x) \<Rightarrow> True | _ \<Rightarrow> False) rows
     \<or> list_all (\<lambda>r. numericValue fl (cellAt r k) = None) rows"

lemma compareCells_consistent:
  assumes "uniformColumn fl k rows"
  shows "consistentOn (set rows) (\<lambda>a b. compareCells fl (cellAt a k) (cellAt b k))"
proof -
  consider
      num where "\<And>r. r \<in> set rows \<Longrightarrow> numericValue fl (cellAt r k) = Some (Some (num r))"
    | "\<And>r. r \<in> set rows \<Longrightarrow> numericValue fl (cellAt r k) = None"
  proof -
    have "\<exists>x. numericValue fl (cellAt r k) = Some (Some x)"
      if "case numericValue fl (cellAt r k) of Some (Some x) \<Rightarrow> True | _ \<Rightarrow> False" for r
      using that by (simp split: option.splits)
    then have "(\<forall>r \<in> set rows. \<exists>x. numericValue fl (cellAt r k) = Some (Some x))
        \<or> (\<forall>r \<in> set rows. numericValue fl (cellAt r k) = None)"
      using assms unfolding uniformColumn_def list_all_iff by blast
    then show ?thesis using that by metis
  qed
  then show ?thesis
  proof cases
    case (1 num)
    have "compareCells fl (cellAt a k) (cellAt b k) = (if num a < num b then -1 else if num a > num b then 1 else 0)"
      if "a \<in> set rows" "b \<in> set rows" for a b
      unfolding compareCells_def 1 [OF that(1)] 1 [OF that(2)] by (simp add: compareNum_def)
    then show ?thesis by (rule consistent_cong [OF compareNum_consistent])
  next
    case 2
    have "compareCells fl (cellAt a k) (cellAt b k) = compareStr (cellRaw (cellAt a k)) (cellRaw (cellAt b k))"
      if "a \<in> set rows" "b \<in> set rows" for a b
      unfolding compareCells_def 2 [OF that(1)] 2 [OF that(2)] by simp
    then show ?thesis by (rule consistent_cong [OF compareStr_consistent])
  qed
qed

lemma compareRows_consistent:
  assumes "list_all (\<lambda>k. uniformColumn fl k rows) keys"
  shows "consistentOn (set rows) (compareRows fl keys)"
  using assms
proof (induction keys)
  case (Cons k keys)
  then have "consistentOn (set rows) (compareRows fl keys)" "uniformColumn fl k rows" by simp_all
  from consistent_lex [OF compareCells_consistent [OF this(2)] this(1)] show ?case
    by (simp add: Let_def)
qed (simp add: consistentOn_def)

text \<open>Insertion keeps the list sorted and stable.\<close>

definition sortedDown :: "('r \<Rightarrow> 'r \<Rightarrow> bool) \<Rightarrow> 'r list \<Rightarrow> bool" where
  "sortedDown lt = sorted_wrt (\<lambda>a b. \<not> lt a b)"

lemma goInsert_mset [simp]: "mset (goInsert lt x ys) = add_mset x (mset ys)"
  by (induction ys) auto

lemma goInsert_set [simp]: "set (goInsert lt x ys) = insert x (set ys)"
  by (induction ys) auto

lemma goInsert_sorted:
  assumes "consistentOn (insert x (set ys)) c" and "sortedDown (\<lambda>a b. c a b < 0) ys"
  shows "sortedDown (\<lambda>a b. c a b < 0) (goInsert (\<lambda>a b. c a b < 0) x ys)"
  using assms
proof (induction ys)
  case (Cons y ys)
  have sub: "consistentOn (insert x (set ys)) c" by (rule consistent_subset [OF Cons.prems(1)]) auto
  show ?case
  proof (cases "c x y < 0")
    case True
    then have "\<not> c y x < 0" using consistent_neg [OF Cons.prems(1), of x y] by simp
    moreover have "sortedDown (\<lambda>a b. c a b < 0) (goInsert (\<lambda>a b. c a b < 0) x ys)"
      using Cons.IH [OF sub] Cons.prems(2) by (simp add: sortedDown_def)
    ultimately show ?thesis using True Cons.prems(2) by (auto simp: sortedDown_def)
  next
    case False
    have "\<not> c x z < 0" if "z \<in> set ys" for z
      using consistent_split [OF Cons.prems(1), of x y z] False that Cons.prems(2) by (auto simp: sortedDown_def)
    with False Cons.prems(2) show ?thesis by (auto simp: sortedDown_def)
  qed
qed (simp add: sortedDown_def)

lemma goInsert_stable:
  assumes "consistentOn (insert x (insert r (set ys))) c"
  shows "filter (\<lambda>z. c z r = 0) (goInsert (\<lambda>a b. c a b < 0) x ys)
    = (if c x r = 0 then [x] else []) @ filter (\<lambda>z. c z r = 0) ys"
  using assms
proof (induction ys)
  case (Cons y ys)
  have sub: "consistentOn (insert x (insert r (set ys))) c" by (rule consistent_subset [OF Cons.prems]) auto
  have "\<not> (c x r = 0 \<and> c y r = 0 \<and> c x y < 0)"
    using consistent_split [OF Cons.prems, of x r y] consistent_neg [OF Cons.prems, of y r] by auto
  with Cons.IH [OF sub] show ?case by (cases "c x y < 0"; cases "c x r = 0"; cases "c y r = 0") simp_all
qed simp

lemma sliceStable_correct:
  assumes "consistentOn (set xs) c"
  shows "mset (sliceStable (\<lambda>a b. c a b < 0) xs) = mset xs"
    and "sorted_wrt (\<lambda>a b. c a b \<le> 0) (sliceStable (\<lambda>a b. c a b < 0) xs)"
    and "r \<in> set xs \<Longrightarrow> filter (\<lambda>z. c z r = 0) (sliceStable (\<lambda>a b. c a b < 0) xs) = filter (\<lambda>z. c z r = 0) xs"
proof -
  let ?lt = "\<lambda>a b. c a b < 0"
  have all: "mset (fold (goInsert ?lt) xs acc) = mset xs + mset acc
      \<and> sortedDown ?lt (fold (goInsert ?lt) xs acc)
      \<and> (\<forall>r \<in> S. filter (\<lambda>z. c z r = 0) (fold (goInsert ?lt) xs acc)
          = rev (filter (\<lambda>z. c z r = 0) xs) @ filter (\<lambda>z. c z r = 0) acc)"
    if "sortedDown ?lt acc" "consistentOn S c" "set xs \<union> set acc \<subseteq> S" for xs acc S
    using that
  proof (induction xs arbitrary: acc)
    case (Cons x xs)
    have sub: "consistentOn A c" if "A \<subseteq> S" for A using Cons.prems(2) that by (rule consistent_subset)
    have "sortedDown ?lt (goInsert ?lt x acc)"
      using goInsert_sorted [OF sub Cons.prems(1)] Cons.prems(3) by simp
    moreover have "filter (\<lambda>z. c z r = 0) (goInsert ?lt x acc) = (if c x r = 0 then [x] else []) @ filter (\<lambda>z. c z r = 0) acc"
      if "r \<in> S" for r
      using goInsert_stable [OF sub, of x r acc] Cons.prems(3) that by simp
    ultimately show ?case using Cons.IH [of "goInsert ?lt x acc"] Cons.prems(2,3) by simp
  qed simp
  have "sortedDown ?lt []" by (simp add: sortedDown_def)
  note a = all [OF this assms, of xs]
  show "mset (sliceStable ?lt xs) = mset xs" using a by (simp add: sliceStable_def)
  have "sorted_wrt (\<lambda>a b. \<not> c b a < 0) (sliceStable ?lt xs)"
    using a by (simp add: sliceStable_def sortedDown_def sorted_wrt_rev)
  moreover have "set (sliceStable ?lt xs) = set xs" using a by (intro mset_eq_setD) (simp add: sliceStable_def)
  moreover have "c a b \<le> 0" if "\<not> c b a < 0" "a \<in> set xs" "b \<in> set xs" for a b
    using consistent_neg [OF assms that(2,3)] that(1) by linarith
  ultimately show "sorted_wrt (\<lambda>a b. c a b \<le> 0) (sliceStable ?lt xs)"
    by (metis (no_types, lifting) sorted_wrt_mono_rel)
  show "filter (\<lambda>z. c z r = 0) (sliceStable ?lt xs) = filter (\<lambda>z. c z r = 0) xs" if "r \<in> set xs"
    using a that by (simp add: sliceStable_def rev_filter [symmetric])
qed


definition intFloat :: "int floatLib" where
  "intFloat = \<lparr>fl_int = (\<lambda>i. i),
     fl_parse = (\<lambda>s. if s \<noteq> [] \<and> list_all (\<lambda>c. 48 \<le> byte c \<and> byte c \<le> 57) s then Some (Some (int (digitsVal s))) else None),
     fl_number = (\<lambda>v. None)\<rparr>"


text \<open>
  A column that mixes the two is not ordered at all: 9 is less than 10, \<open>10\<close> less than \<open>1a\<close>, which is
  less than 9, so the comparison is no order and the result depends on the order the server answered in.
\<close>

lemma mixed_column_is_cyclic:
  "compareCells intFloat (VStr ''9'') (VStr ''10'') = -1" "compareCells intFloat (VStr ''10'') (VStr ''1a'') = -1"
  "compareCells intFloat (VStr ''1a'') (VStr ''9'') = -1"
proof -
  have p: "trimSpace ''9'' = ''9''" "trimSpace ''10'' = ''10''" "trimSpace ''1a'' = ''1a''"
    by (simp_all add: trimSpace_def runes_ascii byte_def runeSelf_def isSpaceRune_def)
  show "compareCells intFloat (VStr ''9'') (VStr ''10'') = -1" "compareCells intFloat (VStr ''10'') (VStr ''1a'') = -1"
    "compareCells intFloat (VStr ''1a'') (VStr ''9'') = -1"
    by (simp_all add: compareCells_def numericValue_def intFloat_def p byte_def compareNum_def compareStr_def
        digitsVal_def digitVal_def less_char_def)
qed

section \<open>CSV can be read back\<close>

text \<open>
  A reader of RFC 4180, one byte at a time: at the start of a field, in an unquoted one, in a quoted one,
  or after a quote inside it. The state holds the field and the record read so far, and the records.
\<close>

datatype csvMode = FieldStart | PlainField | QuotedField | AfterQuote

type_synonym csvState = "csvMode \<times> gostring \<times> gostring list \<times> gostring list list"

definition csvEndField :: "char \<Rightarrow> gostring \<Rightarrow> gostring list \<Rightarrow> gostring list list \<Rightarrow> csvState" where
  "csvEndField c f rec recs = (if c = CHR '','' then (FieldStart, [], rec @ [f], recs) else (FieldStart, [], [], recs @ [rec @ [f]]))"

fun csvStep :: "char \<Rightarrow> csvState \<Rightarrow> csvState" where
  "csvStep c (FieldStart, f, rec, recs) =
     (if c = CHR 0x22 then (QuotedField, f, rec, recs)
      else if c = CHR '','' \<or> c = CHR 0x0A then csvEndField c f rec recs
      else (PlainField, f @ [c], rec, recs))"
| "csvStep c (PlainField, f, rec, recs) =
     (if c = CHR '','' \<or> c = CHR 0x0A then csvEndField c f rec recs else (PlainField, f @ [c], rec, recs))"
| "csvStep c (QuotedField, f, rec, recs) =
     (if c = CHR 0x22 then (AfterQuote, f, rec, recs) else (QuotedField, f @ [c], rec, recs))"
| "csvStep c (AfterQuote, f, rec, recs) =
     (if c = CHR '','' \<or> c = CHR 0x0A then csvEndField c f rec recs else (QuotedField, f @ [c], rec, recs))"

definition readCSV :: "gostring \<Rightarrow> gostring list list" where
  "readCSV s = snd (snd (snd (fold csvStep s (FieldStart, [], [], []))))"

lemma quoted_read:
  "fold csvStep (concat (map (\<lambda>c. if c = CHR 0x22 then [CHR 0x22, CHR 0x22] else [c]) s)) (QuotedField, f, rec, recs)
   = (QuotedField, f @ s, rec, recs)"
  by (induction s arbitrary: f) auto

lemma plain_read:
  "list_all (\<lambda>c. c \<noteq> CHR '','' \<and> c \<noteq> CHR 0x0A) s \<Longrightarrow> fold csvStep s (PlainField, f, rec, recs) = (PlainField, f @ s, rec, recs)"
  by (induction s arbitrary: f) auto

lemma field_read:
  assumes "c = CHR '','' \<or> c = CHR 0x0A"
  shows "fold csvStep (csvField f @ [c]) (FieldStart, [], rec, recs) = csvEndField c f rec recs"
proof (cases "fieldNeedsQuotes f")
  case True
  then show ?thesis using assms by (auto simp: csvField_def quoted_read)
next
  case False
  then show ?thesis
  proof (cases f)
    case (Cons a s)
    with False have "a \<noteq> CHR 0x22" "list_all (\<lambda>c. c \<noteq> CHR '','' \<and> c \<noteq> CHR 0x0A) (a # s)"
      by (auto simp: fieldNeedsQuotes_def list_ex_iff list_all_iff)
    with False assms Cons plain_read [of s "[a]" rec recs] show ?thesis by (auto simp: csvField_def)
  qed (use assms in \<open>auto simp: csvField_def\<close>)
qed

lemma record_read:
  "fs \<noteq> [] \<Longrightarrow> fold csvStep (csvRecord fs) (FieldStart, [], rec, recs) = (FieldStart, [], [], recs @ [rec @ fs])"
proof (induction fs arbitrary: rec rule: induct_list012)
  case (2 f)
  then show ?case using field_read [of "CHR 0x0A" f rec recs] by (simp add: csvRecord_def csvEndField_def)
next
  case (3 f g fs)
  have "csvRecord (f # g # fs) = (csvField f @ '','') @ csvRecord (g # fs)" by (simp add: csvRecord_def)
  moreover have "fold csvStep (csvField f @ '','') (FieldStart, [], rec, recs) = (FieldStart, [], rec @ [f], recs)"
    using field_read [of "CHR '',''" f rec recs] by (simp add: csvEndField_def del: fold_append)
  moreover have "fold csvStep (csvRecord (g # fs)) (FieldStart, [], rec @ [f], recs) = (FieldStart, [], [], recs @ [(rec @ [f]) @ g # fs])"
    using 3(2) by blast
  ultimately show ?case by (metis append.assoc append_Cons append_Nil fold_append o_apply)
qed simp

text \<open>
  C31. CSV output can be read back: a reader of RFC 4180 gets the header and, for every row, exactly the
  cells it was rendered from, whatever commas, quotes, blanks and line breaks they contain.
\<close>

theorem writeCSV_roundtrip:
  assumes "cols \<noteq> []" and "list_all (\<lambda>r. r \<noteq> []) rows"
  shows "readCSV (writeCSV cols rows) = cols # map (map cell) rows"
proof -
  have "fold csvStep (concat (map (\<lambda>r. csvRecord (map cell r)) rows)) (FieldStart, [], [], recs)
      = (FieldStart, [], [], recs @ map (map cell) rows)" for recs
    using assms(2) by (induction rows arbitrary: recs) (simp_all add: record_read)
  then show ?thesis using assms(1) by (simp add: readCSV_def writeCSV_def record_read)
qed

lemma writeCSV_roundtrip_witness:
  "readCSV (writeCSV [''Name'', ''Note''] [[VStr ''a,b'', VStr '' x''], [VNil, VStr ''y'']])
   = [[''Name'', ''Note''], [''a,b'', '' x''], [[], ''y'']]"
proof -
  have "cell (VStr ''a,b'') = ''a,b''" "cell (VStr '' x'') = '' x''" "cell VNil = []" "cell (VStr ''y'') = ''y''"
    by (simp_all add: cell_def stripControl_def runes_ascii byte_def runeSelf_def isDangerousControl_def)
  then show ?thesis
    using writeCSV_roundtrip [of "[''Name'', ''Note'']" "[[VStr ''a,b'', VStr '' x''], [VNil, VStr ''y'']]"] by simp
qed

section \<open>Byte counts\<close>

text \<open>\<^verbatim>\<open>HumanBytes\<close> returns for every count but the most negative one, whose negation is itself.\<close>

lemma HumanBytes_min: "HumanBytes 0x8000000000000000 = None"
proof -
  have neg: "sint (0x8000000000000000 :: 64 word) < 0" "- (0x8000000000000000 :: 64 word) = 0x8000000000000000" by simp_all
  have "HumanBytes 0x8000000000000000 = Option.bind (HumanBytes 0x8000000000000000) (\<lambda>t. Some (''-'' @ t))"
    by (subst HumanBytes.simps) (simp only: neg if_True)
  then show ?thesis by (cases "HumanBytes 0x8000000000000000") auto
qed

lemma HumanBytes_nonneg: "0 \<le> sint n \<Longrightarrow> HumanBytes n = Some (humanUnits (unat n))"
  by (subst HumanBytes.simps) simp

lemma HumanBytes_returns:
  assumes "n \<noteq> 0x8000000000000000"
  shows "HumanBytes n \<noteq> None"
proof (cases "sint n < 0")
  case True
  have n: "of_int (sint n) = n" by simp
  have "sint n \<noteq> - (2 ^ 63)"
  proof
    assume "sint n = - (2 ^ 63)"
    with n have "n = of_int (- (2 ^ 63))" by simp
    then show False using assms by simp
  qed
  moreover have "- (2 ^ 63) \<le> sint n" using sint_ge [of n] by simp
  ultimately have "- (2 ^ 63) \<le> - sint n" "- sint n < 2 ^ 63" using True by auto
  then have "signed_take_bit 63 (- sint n) = - sint n" by (rule signed_take_bit_int_eq_self)
  moreover have "sint (- n) = signed_take_bit 63 (- sint n)"
  proof -
    have "- n = of_int (- sint n)" by simp
    then have "sint (- n) = sint (of_int (- sint n) :: 64 word)" by (rule arg_cong)
    then show ?thesis unfolding signed_of_int by simp
  qed
  ultimately have "0 \<le> sint (- n)" using True by simp
  then show ?thesis using True by (subst HumanBytes.simps) (simp add: HumanBytes_nonneg)
qed (simp add: HumanBytes_nonneg)

text \<open>Rounding keeps neither three figures nor a value below 1024.\<close>

lemma toFloat64_small: "n < 2 ^ 53 \<Longrightarrow> toFloat64 n = n"
proof -
  assume n: "n < 2 ^ 53"
  have "roundHalfEven n 1 = n" by (simp add: roundHalfEven_def)
  then have "toFloat64Go (Suc 11) n 1 = n" using n unfolding toFloat64Go.simps(2) by (simp only: if_True mult_1_right)
  moreover have "(12::nat) = Suc 11" by simp
  ultimately show ?thesis unfolding toFloat64_def by (simp only:)
qed

lemma HumanBytes_figures: "humanUnits 10239 = ''10.00 KiB''" "humanUnits 1048575 = ''1024 KiB''"
  by (simp_all add: humanUnits_def toFloat64_small byteUnits_def formatFixed_def roundHalfEven_def Let_def
      natDigits.simps [of 1000] natDigits.simps [of 1024] natDigits.simps [of 102] natDigits.simps [of 100]
      natDigits.simps [of 10] natDigits.simps [of 0] natDigits.simps [of 1] natDigits.simps [of 2] natDigits.simps [of 4] natDigits.simps [of "Suc 0"] digitChar_def char_of_def bit_0 bit_Suc)

end
