(* ===== verification/S3_Sign.thy ===== *)
theory S3_Sign
  imports Go_Values "HOL-Library.Product_Lexorder"
begin

text \<open>
  \<^verbatim>\<open>src/internal/s3/sign.go\<close>, \<^verbatim>\<open>presign.go\<close> and the URL builder of \<^verbatim>\<open>s3.go\<close>: AWS Signature Version 4.
  The two digests (\<^verbatim>\<open>sha256.Sum256\<close> rendered in hexadecimal and \<^verbatim>\<open>hmac.New(sha256.New, key)\<close>) are
  arguments of the definitions, as is the clock, by the two strings its value is formatted to.
  Of \<^verbatim>\<open>net/url\<close> and \<^verbatim>\<open>net/http\<close> the theory models what decides the bytes of the request line: the
  escaping of a path, \<^verbatim>\<open>EscapedPath\<close>, and the parsing \<^verbatim>\<open>http.NewRequest\<close> repeats. A Go map is an
  association list with distinct keys, in the order in which a loop over it meets them.
\<close>

section \<open>Percent encoding\<close>

definition upperhex :: "nat \<Rightarrow> char" where
  "upperhex n = ''0123456789ABCDEF'' ! n"

definition isAlnum :: "char \<Rightarrow> bool" where
  "isAlnum ch \<longleftrightarrow> 65 \<le> byte ch \<and> byte ch \<le> 90 \<or> 97 \<le> byte ch \<and> byte ch \<le> 122 \<or> 48 \<le> byte ch \<and> byte ch \<le> 57"

definition unreserved :: "char \<Rightarrow> bool" where
  "unreserved ch \<longleftrightarrow> isAlnum ch \<or> ch \<in> {CHR ''-'', CHR ''_'', CHR ''.'', CHR ''~''}"

definition pctByte :: "char \<Rightarrow> gostring" where
  "pctByte ch = [CHR ''%'', upperhex (byte ch div 16), upperhex (byte ch mod 16)]"

definition uriEncode :: "gostring \<Rightarrow> bool \<Rightarrow> gostring" where
  "uriEncode s keepSlash =
     concat (map (\<lambda>ch. if unreserved ch then [ch]
                        else if ch = CHR ''/'' \<and> keepSlash then ''/''
                        else pctByte ch) s)"

section \<open>The parts of \<^verbatim>\<open>net/url\<close> that decide the request line\<close>

record goURL =
  u_Scheme :: gostring
  u_Host :: gostring
  u_Path :: gostring
  u_RawPath :: gostring
  u_RawQuery :: gostring

definition unhex :: "char \<Rightarrow> nat option" where
  "unhex ch =
     (if 48 \<le> byte ch \<and> byte ch \<le> 57 then Some (byte ch - 48)
      else if 97 \<le> byte ch \<and> byte ch \<le> 102 then Some (byte ch - 87)
      else if 65 \<le> byte ch \<and> byte ch \<le> 70 then Some (byte ch - 55)
      else None)"

text \<open>\<^verbatim>\<open>unescape\<close> in its path mode: \<^const>\<open>None\<close> is an \<^verbatim>\<open>EscapeError\<close>.\<close>

fun unescapePath :: "gostring \<Rightarrow> gostring option" where
  "unescapePath [] = Some []"
| "unescapePath (c # cs) =
     (if c = CHR ''%'' then
        (case cs of
           h # l # rest \<Rightarrow>
             (case (unhex h, unhex l) of
                (Some x, Some y) \<Rightarrow> map_option (Cons (char_of (16 * x + y))) (unescapePath rest)
              | _ \<Rightarrow> None)
         | _ \<Rightarrow> None)
      else map_option (Cons c) (unescapePath cs))"

text \<open>\<^verbatim>\<open>escape\<close> and \<^verbatim>\<open>validEncoded\<close> in their path mode.\<close>

definition shouldEscapePath :: "char \<Rightarrow> bool" where
  "shouldEscapePath ch \<longleftrightarrow> \<not> (unreserved ch \<or> ch \<in> set ''$&+,/:;=@'')"

definition escapePath :: "gostring \<Rightarrow> gostring" where
  "escapePath s = concat (map (\<lambda>ch. if shouldEscapePath ch then pctByte ch else [ch]) s)"

definition validEncodedPath :: "gostring \<Rightarrow> bool" where
  "validEncodedPath s \<longleftrightarrow>
     list_all (\<lambda>ch. ch \<in> set ''!$&()*+,;=:@[]%'' \<or> byte ch = 39 \<or> \<not> shouldEscapePath ch) s"

definition EscapedPath :: "goURL \<Rightarrow> gostring" where
  "EscapedPath u =
     (if u_RawPath u \<noteq> [] \<and> validEncodedPath (u_RawPath u) \<and> unescapePath (u_RawPath u) = Some (u_Path u)
      then u_RawPath u
      else if u_Path u = ''*'' then ''*''
      else escapePath (u_Path u))"

definition RequestURI :: "goURL \<Rightarrow> gostring" where
  "RequestURI u =
     (let p = EscapedPath u in
      (if p = [] then ''/'' else p) @ (if u_RawQuery u \<noteq> [] then ''?'' @ u_RawQuery u else []))"

text \<open>
  What \<^verbatim>\<open>url.Parse\<close> makes of the part of a URL behind its authority, as \<^verbatim>\<open>http.NewRequest\<close> does with
  the text of a URL it is given: the fragment and the query are cut off and the path is decoded,
  keeping its encoding only where the default one differs.
\<close>

definition setPath :: "gostring \<Rightarrow> goURL \<Rightarrow> goURL option" where
  "setPath p u =
     (case unescapePath p of
        None \<Rightarrow> None
      | Some path \<Rightarrow> Some (u\<lparr>u_Path := path, u_RawPath := (if escapePath path = p then [] else p)\<rparr>))"

definition reparse :: "goURL \<Rightarrow> goURL option" where
  "reparse u =
     (let (text, _, _) = cut (RequestURI u) (CHR ''#''); (path, query, _) = cut text (CHR ''?'') in
      setPath path (u\<lparr>u_RawQuery := query\<rparr>))"

section \<open>Canonical path and query\<close>

definition canonicalURI :: "goURL \<Rightarrow> gostring" where
  "canonicalURI u = (if u_Path u = [] then ''/'' else uriEncode (u_Path u) True)"

type_synonym urlValues = "(gostring \<times> gostring list) list"

text \<open>\<^verbatim>\<open>url.Values.Set\<close>.\<close>

definition setValue :: "gostring \<Rightarrow> gostring \<Rightarrow> urlValues \<Rightarrow> urlValues" where
  "setValue k v q = (k, [v]) # filter (\<lambda>e. fst e \<noteq> k) q"

definition queryPart :: "gostring \<Rightarrow> gostring \<Rightarrow> gostring" where
  "queryPart k v = uriEncode k False @ ''='' @ uriEncode v False"

definition canonicalQuery :: "urlValues \<Rightarrow> gostring" where
  "canonicalQuery q =
     (let keys = sort (map fst q) in
      joinWith ''&'' (concat (map (\<lambda>k. map (queryPart k) (sort (the (map_of q k)))) keys)))"

section \<open>Configuration and the URL of a bucket and key\<close>

record s3Config =
  c_Region :: gostring
  c_AccessKey :: gostring
  c_SecretKey :: gostring
  c_PathStyle :: bool
  c_Anonymous :: bool
  c_MaxRetries :: int
  c_base :: goURL

definition urlPath :: "s3Config \<Rightarrow> gostring \<Rightarrow> gostring \<Rightarrow> gostring" where
  "urlPath cfg bucket key =
     (if bucket = [] then ''/''
      else if c_PathStyle cfg then
        ''/'' @ bucket @ (if key \<noteq> [] then ''/'' @ trimPrefix key ''/'' else [])
      else if key \<noteq> [] then ''/'' @ trimPrefix key ''/''
      else ''/'')"

definition url :: "s3Config \<Rightarrow> gostring \<Rightarrow> gostring \<Rightarrow> urlValues \<Rightarrow> goURL" where
  "url cfg bucket key q =
     (let path = urlPath cfg bucket key;
          host = (if bucket = [] \<or> c_PathStyle cfg then u_Host (c_base cfg)
                  else bucket @ ''.'' @ u_Host (c_base cfg))
      in (c_base cfg)\<lparr>u_Host := host, u_Path := path, u_RawPath := uriEncode path True,
           u_RawQuery := (if q \<noteq> [] then canonicalQuery q else u_RawQuery (c_base cfg))\<rparr>)"

section \<open>Canonical headers\<close>

type_synonym header = "(gostring \<times> gostring list) list"

record httpRequest =
  q_Method :: gostring
  q_URL :: goURL
  q_Host :: gostring
  q_Header :: header

definition setHeader :: "gostring \<Rightarrow> gostring \<Rightarrow> header \<Rightarrow> header" where
  "setHeader k v h = (k, [v]) # filter (\<lambda>e. fst e \<noteq> k) h"

definition signableHeaders :: "gostring list" where
  "signableHeaders = [''host'', ''content-type'', ''content-md5'', ''date'', ''range'']"

definition hostHeader :: "httpRequest \<Rightarrow> gostring" where
  "hostHeader req = (if q_Host req \<noteq> [] then q_Host req else u_Host (q_URL req))"

definition collapseSpaces :: "gostring \<Rightarrow> gostring" where
  "collapseSpaces s = joinWith '' '' (Go_Strings.fields s)"

definition toLowerHeader :: "gostring \<Rightarrow> gostring" where
  "toLowerHeader = map lowerByte"

definition signedHeader :: "gostring \<Rightarrow> bool" where
  "signedHeader lower \<longleftrightarrow> lower \<in> set signableHeaders \<or> hasPrefix lower ''x-amz-''"

definition headerVals :: "httpRequest \<Rightarrow> (gostring \<rightharpoonup> gostring)" where
  "headerVals req =
     fold (\<lambda>(name, v) vals.
             let lower = toLowerHeader name in
             if \<not> signedHeader lower then vals
             else vals(lower \<mapsto> joinWith '','' (map collapseSpaces v)))
       (q_Header req) [''host'' \<mapsto> hostHeader req]"

definition headerNames :: "httpRequest \<Rightarrow> gostring list" where
  "headerNames req =
     sort (remdups (''host'' # filter signedHeader (map (toLowerHeader \<circ> fst) (q_Header req))))"

definition headerBlock :: "(gostring \<rightharpoonup> gostring) \<Rightarrow> gostring list \<Rightarrow> gostring" where
  "headerBlock vals names = concat (map (\<lambda>k. k @ '':'' @ the (vals k) @ [CHR 0x0A]) names)"

definition canonicalHeaders :: "httpRequest \<Rightarrow> gostring list \<times> gostring" where
  "canonicalHeaders req = (headerNames req, headerBlock (headerVals req) (headerNames req))"

text \<open>
  What \<^verbatim>\<open>attempt\<close> builds with \<^verbatim>\<open>http.NewRequestWithContext\<close>: the URL is printed and parsed again, an
  empty port is dropped from the host, and every extra header is set under its canonical name.
\<close>

definition upperByte :: "char \<Rightarrow> char" where
  "upperByte c = (if 97 \<le> byte c \<and> byte c \<le> 122 then char_of (byte c - 32) else c)"

fun canonicalKeyGo :: "bool \<Rightarrow> gostring \<Rightarrow> gostring" where
  "canonicalKeyGo upper [] = []"
| "canonicalKeyGo upper (c # cs) =
     (if upper then upperByte c else lowerByte c) # canonicalKeyGo (c = CHR ''-'') cs"

definition removeEmptyPort :: "gostring \<Rightarrow> gostring" where
  "removeEmptyPort host = (if hasSuffix host '':'' then butlast host else host)"

definition newRequest :: "gostring \<Rightarrow> goURL \<Rightarrow> (gostring \<times> gostring) list \<Rightarrow> httpRequest option" where
  "newRequest method u hdr =
     (case reparse u of
        None \<Rightarrow> None
      | Some u' \<Rightarrow>
          (let host = removeEmptyPort (u_Host u') in
           Some \<lparr>q_Method = method, q_URL = u'\<lparr>u_Host := host\<rparr>, q_Host = host,
                 q_Header = fold (\<lambda>(k, v). setHeader (canonicalKeyGo True k) v) hdr []\<rparr>))"

section \<open>Signing\<close>

text \<open>\<open>clock\<close> is an instant by its renderings in the two layouts \<^verbatim>\<open>amzDateFormat\<close> and \<^verbatim>\<open>dateStampFormat\<close>.\<close>

record clock =
  k_amzDate :: gostring
  k_dateStamp :: gostring

definition algorithm :: gostring where "algorithm = ''AWS4-HMAC-SHA256''"
definition service :: gostring where "service = ''s3''"
definition terminacc :: gostring where "terminacc = ''aws4_request''"

definition emptySHA256 :: gostring where
  "emptySHA256 = ''e3b0c44298fc1c149afbf4c8996fb92427ae41e4649b934ca495991b7852b855''"

type_synonym hasher = "gostring \<Rightarrow> gostring"
type_synonym mac = "gostring \<Rightarrow> gostring \<Rightarrow> gostring"

definition signingKey :: "mac \<Rightarrow> gostring \<Rightarrow> gostring \<Rightarrow> gostring \<Rightarrow> gostring" where
  "signingKey hmac secret dateStamp region =
     (let k = hmac (''AWS4'' @ secret) dateStamp; k = hmac k region; k = hmac k service
      in hmac k terminacc)"

definition nl :: gostring where "nl = [CHR 0x0A]"

definition hexEncode :: "gostring \<Rightarrow> gostring" where
  "hexEncode b = concat (map (\<lambda>ch. [lowerByte (upperhex (byte ch div 16)), lowerByte (upperhex (byte ch mod 16))]) b)"

definition scopeOf :: "s3Config \<Rightarrow> clock \<Rightarrow> gostring" where
  "scopeOf cfg now = joinWith ''/'' [k_dateStamp now, c_Region cfg, service, terminacc]"

definition stringToSign :: "hasher \<Rightarrow> s3Config \<Rightarrow> clock \<Rightarrow> gostring \<Rightarrow> gostring" where
  "stringToSign sha cfg now canonicalRequest =
     joinWith nl [algorithm, k_amzDate now, scopeOf cfg now, sha canonicalRequest]"

definition signature :: "hasher \<Rightarrow> mac \<Rightarrow> s3Config \<Rightarrow> clock \<Rightarrow> gostring \<Rightarrow> gostring" where
  "signature sha hmac cfg now canonicalRequest =
     hexEncode (hmac (signingKey hmac (c_SecretKey cfg) (k_dateStamp now) (c_Region cfg))
       (stringToSign sha cfg now canonicalRequest))"

definition sign :: "hasher \<Rightarrow> mac \<Rightarrow> s3Config \<Rightarrow> httpRequest \<Rightarrow> gostring \<Rightarrow> clock \<Rightarrow> httpRequest" where
  "sign sha hmac cfg req0 payloadHash now =
     (let req = req0\<lparr>q_Header := setHeader ''X-Amz-Content-Sha256'' payloadHash
                  (setHeader ''X-Amz-Date'' (k_amzDate now) (q_Header req0))\<rparr>;
          (signed, canonical) = canonicalHeaders req;
          signedList = joinWith '';'' signed;
          canonicalRequest = joinWith nl
            [q_Method req, canonicalURI (q_URL req), u_RawQuery (q_URL req), canonical, signedList, payloadHash];
          sig = signature sha hmac cfg now canonicalRequest
      in req\<lparr>q_Header := setHeader ''Authorization''
           (algorithm @ '' Credential='' @ c_AccessKey cfg @ ''/'' @ scopeOf cfg now
             @ '', SignedHeaders='' @ signedList @ '', Signature='' @ sig) (q_Header req)\<rparr>)"

section \<open>Presigned URLs\<close>

definition MaxPresignExpiry :: duration where "MaxPresignExpiry = 7 * 24 * hour"

definition unsignedPayload :: gostring where "unsignedPayload = ''UNSIGNED-PAYLOAD''"

datatype presignError = PresignAnonymous | PresignNoKey | ExpiryNotPositive | ExpiryTooLong

definition versionQuery :: "gostring \<Rightarrow> urlValues" where
  "versionQuery versionID = (if versionID = [] then [] else [(''versionId'', [versionID])])"

definition presignQuery :: "s3Config \<Rightarrow> clock \<Rightarrow> urlValues \<Rightarrow> duration \<Rightarrow> urlValues" where
  "presignQuery cfg now extra expiry =
     setValue ''X-Amz-SignedHeaders'' ''host''
       (setValue ''X-Amz-Expires'' (itoa (expiry div second))
         (setValue ''X-Amz-Date'' (k_amzDate now)
           (setValue ''X-Amz-Credential'' (c_AccessKey cfg @ ''/'' @ scopeOf cfg now)
             (setValue ''X-Amz-Algorithm'' algorithm extra))))"

definition presign :: "hasher \<Rightarrow> mac \<Rightarrow> s3Config \<Rightarrow> clock \<Rightarrow> gostring \<Rightarrow> gostring \<Rightarrow> gostring \<Rightarrow>
    urlValues \<Rightarrow> duration \<Rightarrow> presignError + goURL" where
  "presign sha hmac cfg now method bucket key extra expiry =
     (if c_Anonymous cfg then Inl PresignAnonymous
      else if key = [] then Inl PresignNoKey
      else if expiry \<le> 0 then Inl ExpiryNotPositive
      else if expiry > MaxPresignExpiry then Inl ExpiryTooLong
      else
        let u = url cfg bucket key (presignQuery cfg now extra expiry);
            canonicalRequest = joinWith nl
              [method, canonicalURI u, u_RawQuery u, ''host:'' @ u_Host u @ nl, ''host'', unsignedPayload]
        in Inr (u\<lparr>u_RawQuery := u_RawQuery u @ ''&X-Amz-Signature='' @ signature sha hmac cfg now canonicalRequest\<rparr>))"

definition PresignGetObject :: "hasher \<Rightarrow> mac \<Rightarrow> s3Config \<Rightarrow> clock \<Rightarrow> gostring \<Rightarrow> gostring \<Rightarrow> gostring \<Rightarrow>
    duration \<Rightarrow> presignError + goURL" where
  "PresignGetObject sha hmac cfg now bucket key versionID expiry =
     presign sha hmac cfg now ''GET'' bucket key (versionQuery versionID) expiry"

definition PresignPutObject :: "hasher \<Rightarrow> mac \<Rightarrow> s3Config \<Rightarrow> clock \<Rightarrow> gostring \<Rightarrow> gostring \<Rightarrow>
    duration \<Rightarrow> presignError + goURL" where
  "PresignPutObject sha hmac cfg now bucket key expiry =
     presign sha hmac cfg now ''PUT'' bucket key [] expiry"

section \<open>Percent encoding is invertible\<close>

lemma byte_less: "byte c < 256"
  by (simp add: byte_def)

lemma nibbles: "byte c div 16 < 16" "byte c mod 16 < 16"
  using byte_less [of c] by auto

lemma char_of_byte [simp]: "char_of (byte c) = c"
  by (simp add: byte_def)

lemma less_16_cases: "n < 16 \<Longrightarrow> n \<in> {0, 1, 2, 3, 4, 5, 6, 7, 8, 9, 10, 11, 12, 13, 14, 15::nat}"
  by simp presburger

lemma unhex_upperhex: "n < 16 \<Longrightarrow> unhex (upperhex n) = Some n"
  by (drule less_16_cases) (auto simp: upperhex_def unhex_def byte_def)

lemma upperhex_alnum: "n < 16 \<Longrightarrow> isAlnum (upperhex n)"
  by (drule less_16_cases) (auto simp: upperhex_def isAlnum_def byte_def)

lemma alnum_not_special:
  "isAlnum c \<Longrightarrow> c \<notin> set ''%/?#&=!$()*+,;:@[]''"
proof
  assume a: "isAlnum c" and "c \<in> set ''%/?#&=!$()*+,;:@[]''"
  then have "byte c \<in> {37, 47, 63, 35, 38, 61, 33, 36, 40, 41, 42, 43, 44, 59, 58, 64, 91, 93}"
    by (auto simp: byte_def)
  with a show False by (auto simp: isAlnum_def)
qed

lemma unreserved_not_special:
  "unreserved c \<Longrightarrow> c \<notin> set ''%/?#&=!$()*+,;:@[]''"
proof (cases "isAlnum c")
  case False
  assume "unreserved c"
  with False have "c = CHR ''-'' \<or> c = CHR ''_'' \<or> c = CHR ''.'' \<or> c = CHR ''~''" by (simp add: unreserved_def)
  then show ?thesis by (elim disjE) simp_all
qed (rule alnum_not_special)

lemma uriEncode_Nil [simp]: "uriEncode [] ks = []"
  by (simp add: uriEncode_def)

lemma uriEncode_Cons:
  "uriEncode (c # cs) ks =
     (if unreserved c \<or> c = CHR ''/'' \<and> ks then [c] else pctByte c) @ uriEncode cs ks"
  by (auto simp: uriEncode_def)

lemma uriEncode_append: "uriEncode (s @ t) ks = uriEncode s ks @ uriEncode t ks"
  by (simp add: uriEncode_def)

lemma unescapePath_pct [simp]: "unescapePath (pctByte c @ t) = map_option (Cons c) (unescapePath t)"
  by (simp add: pctByte_def unhex_upperhex nibbles)

lemma unescapePath_uriEncode:
  "unescapePath (uriEncode s ks @ t) = map_option ((@) s) (unescapePath t)"
proof (induction s)
  case (Cons c s)
  then show ?case using unreserved_not_special [of c]
    by (cases "unescapePath t") (auto simp: uriEncode_Cons)
qed (simp add: option.map_id0 id_def [symmetric] option.map_ident)

lemma unescapePath_uriEncode' [simp]: "unescapePath (uriEncode s ks) = Some s"
  using unescapePath_uriEncode [of s ks "[]"] by simp

lemma uriEncode_inj: "uriEncode s ks = uriEncode t ks \<Longrightarrow> s = t"
  by (metis option.inject unescapePath_uriEncode')

lemma uriEncode_chars:
  "c \<in> set (uriEncode s ks) \<Longrightarrow> unreserved c \<or> c = CHR ''%'' \<or> c = CHR ''/'' \<and> ks"
proof (induction s)
  case (Cons a s)
  have "x \<in> set (pctByte a) \<Longrightarrow> unreserved x \<or> x = CHR ''%''" for x
    using upperhex_alnum [OF nibbles(1)] upperhex_alnum [OF nibbles(2)] by (auto simp: pctByte_def unreserved_def)
  with Cons show ?case by (auto simp: uriEncode_Cons split: if_splits)
qed simp

lemma uriEncode_no_special: "c \<in> set ''?#&=+'' \<Longrightarrow> c \<notin> set (uriEncode s ks)"
  using uriEncode_chars [of c s ks] unreserved_not_special [of c] by auto

lemma uriEncode_unreserved: "list_all unreserved s \<Longrightarrow> uriEncode s ks = s"
  by (induction s) (auto simp: uriEncode_Cons)

lemma uriEncode_eq_Nil [simp]: "uriEncode s ks = [] \<longleftrightarrow> s = []"
  by (cases s) (auto simp: uriEncode_Cons pctByte_def)

lemma validEncodedPath_uriEncode: "validEncodedPath (uriEncode s True)"
  unfolding validEncodedPath_def list_all_iff
  by (auto dest!: uriEncode_chars simp: shouldEscapePath_def)

section \<open>What is signed is what is sent\<close>

lemma EscapedPath_url: "EscapedPath (url cfg bucket key q) = uriEncode (urlPath cfg bucket key) True"
  by (simp add: EscapedPath_def url_def Let_def validEncodedPath_uriEncode urlPath_def)

lemma EscapedPath_host: "EscapedPath (u\<lparr>u_Host := h\<rparr>) = EscapedPath u"
  by (simp add: EscapedPath_def)

lemma canonicalURI_url: "canonicalURI (url cfg bucket key q) = uriEncode (urlPath cfg bucket key) True"
  by (simp add: canonicalURI_def url_def Let_def urlPath_def)

lemma setPath_sent:
  "unescapePath p = Some path \<Longrightarrow> validEncodedPath p \<Longrightarrow> path \<noteq> [] \<Longrightarrow> path \<noteq> ''*'' \<Longrightarrow>
   \<exists>u'. setPath p u = Some u' \<and> u_Path u' = path \<and> EscapedPath u' = p \<and> u_RawQuery u' = u_RawQuery u \<and> u_Host u' = u_Host u"
  by (auto simp: setPath_def EscapedPath_def)

lemma urlPath_slash: "\<exists>p. urlPath cfg bucket key = CHR ''/'' # p"
  by (simp add: urlPath_def)

lemma canonicalQuery_no_hash: "CHR ''#'' \<notin> set (canonicalQuery q)"
proof -
  have "CHR ''#'' \<notin> set (joinWith ''&'' ps)" if "\<forall>p \<in> set ps. CHR ''#'' \<notin> set p" for ps
    using that by (induction ps rule: induct_list012) auto
  then show ?thesis
    by (force simp: canonicalQuery_def Let_def queryPart_def uriEncode_no_special)
qed

lemma reparse_url:
  assumes "u_RawQuery (c_base cfg) = []"
  shows "\<exists>u'. reparse (url cfg bucket key q) = Some u' \<and> u_Path u' = urlPath cfg bucket key
    \<and> EscapedPath u' = uriEncode (urlPath cfg bucket key) True
    \<and> u_RawQuery u' = u_RawQuery (url cfg bucket key q) \<and> u_Host u' = u_Host (url cfg bucket key q)"
proof -
  let ?u = "url cfg bucket key q"
  let ?p = "uriEncode (urlPath cfg bucket key) True"
  obtain r where slash: "urlPath cfg bucket key = CHR ''/'' # r" using urlPath_slash by blast
  have rq: "u_RawQuery ?u = (if q = [] then [] else canonicalQuery q)" using assms by (simp add: url_def Let_def)
  have hash: "CHR ''#'' \<notin> set ?p" "CHR ''?'' \<notin> set ?p" using uriEncode_no_special by auto
  have "CHR ''#'' \<notin> set (RequestURI ?u)"
    using hash canonicalQuery_no_hash [of q] rq by (auto simp: RequestURI_def EscapedPath_url Let_def)
  then have "reparse ?u = setPath ?p (?u\<lparr>u_RawQuery := u_RawQuery ?u\<rparr>)"
    using hash(2) slash
    by (cases "u_RawQuery ?u = []") (auto simp: reparse_def cut_none cut_at RequestURI_def EscapedPath_url Let_def)
  moreover have "urlPath cfg bucket key \<noteq> []" "urlPath cfg bucket key \<noteq> ''*''" using slash by auto
  ultimately show ?thesis
    using setPath_sent [of ?p "urlPath cfg bucket key" "?u\<lparr>u_RawQuery := u_RawQuery ?u\<rparr>"]
      validEncodedPath_uriEncode by fastforce
qed

section \<open>The canonical query is what a SigV4 server computes\<close>

text \<open>
  The canonical query of the SigV4 specification, computed from the query on the wire: every
  parameter is decoded and encoded again, and the encoded pairs are sorted.
\<close>

definition sigv4Pair :: "gostring \<Rightarrow> gostring \<times> gostring" where
  "sigv4Pair part =
     (let (k, v, _) = cut part (CHR ''='') in
      (uriEncode (the (unescapePath k)) False, uriEncode (the (unescapePath v)) False))"

definition sigv4Query :: "gostring \<Rightarrow> gostring" where
  "sigv4Query raw =
     (if raw = [] then []
      else joinWith ''&'' (map (\<lambda>(k, v). k @ ''='' @ v) (sort (map sigv4Pair (splitOn (CHR ''&'') raw)))))"

definition plainQuery :: "urlValues \<Rightarrow> bool" where
  "plainQuery q \<longleftrightarrow> distinct (map fst q) \<and> list_all (\<lambda>(k, vs). list_all unreserved k \<and> length vs = 1) q"

lemma plainQuery_parts:
  assumes "plainQuery q"
  shows "canonicalQuery q = joinWith ''&'' (map (\<lambda>k. queryPart k (hd (the (map_of q k)))) (sort (map fst q)))"
proof -
  have one: "sort (the (map_of q k)) = [hd (the (map_of q k))]" if "k \<in> fst ` set q" for k
  proof -
    from that obtain vs where "(k, vs) \<in> set q" by auto
    then have "map_of q k = Some vs" and "length vs = 1"
      using assms by (auto simp: plainQuery_def list_all_iff)
    then show ?thesis by (cases vs) auto
  qed
  have "concat (map (\<lambda>k. map (queryPart k) (sort (the (map_of q k)))) (sort (map fst q)))
      = concat (map (\<lambda>k. [queryPart k (hd (the (map_of q k)))]) (sort (map fst q)))"
    by (intro arg_cong [where f = concat] map_cong refl) (simp add: one)
  then show ?thesis by (simp add: canonicalQuery_def concat_map_singleton)
qed

lemma sigv4Pair_queryPart: "sigv4Pair (queryPart k v) = (uriEncode k False, uriEncode v False)"
  using uriEncode_no_special [of "CHR ''=''" k False]
  by (simp add: sigv4Pair_def queryPart_def cut_at)

lemma sorted_pairs: "sorted ks \<Longrightarrow> distinct ks \<Longrightarrow> sorted (map (\<lambda>k. (k, f k)) ks)"
  by (induction ks) (auto simp: less_eq_prod_def order_le_less)

lemma joinWith_not_Nil: "ps \<noteq> [] \<Longrightarrow> hd ps \<noteq> [] \<Longrightarrow> joinWith sep ps \<noteq> []"
  by (induction ps rule: induct_list012) auto

lemma sigv4Query_canonical:
  assumes "plainQuery q"
  shows "sigv4Query (canonicalQuery q) = canonicalQuery q"
proof (cases "q = []")
  case False
  let ?v = "\<lambda>k. hd (the (map_of q k))"
  let ?ks = "sort (map fst q)"
  let ?ps = "map (\<lambda>k. queryPart k (?v k)) ?ks"
  have "?ks \<noteq> []" using False by (metis length_0_conv length_map length_sort)
  then have ks: "sorted ?ks" "distinct ?ks" "?ks \<noteq> []" "list_all (list_all unreserved) ?ks"
    using assms by (auto simp: plainQuery_def list_all_iff)
  have "CHR ''&'' \<notin> set p" if "p \<in> set ?ps" for p
    using that uriEncode_no_special by (auto simp: queryPart_def)
  then have split: "splitOn (CHR ''&'') (joinWith ''&'' ?ps) = ?ps"
    using ks(3) by (intro splitOn_join) auto
  have ne: "joinWith ''&'' ?ps \<noteq> []"
    using ks(3) by (intro joinWith_not_Nil) (auto simp: queryPart_def hd_map)
  have "map sigv4Pair ?ps = map (\<lambda>k. (k, uriEncode (?v k) False)) ?ks"
    using ks(4) by (simp add: sigv4Pair_queryPart list_all_iff uriEncode_unreserved)
  then have "sort (map sigv4Pair ?ps) = map (\<lambda>k. (k, uriEncode (?v k) False)) ?ks"
    by (simp only: sorted_sort_id [OF sorted_pairs [OF ks(1,2)]])
  moreover have "map (\<lambda>(k, v). k @ ''='' @ v) (map (\<lambda>k. (k, uriEncode (?v k) False)) ?ks) = ?ps"
    using ks(4) by (simp add: queryPart_def list_all_iff uriEncode_unreserved)
  ultimately show ?thesis
    unfolding plainQuery_parts [OF assms] sigv4Query_def split using ne by (simp only: if_False)
qed (simp add: sigv4Query_def canonicalQuery_def)

section \<open>Headers that are not signed do not matter\<close>

abbreviation signedEntry :: "gostring \<times> gostring list \<Rightarrow> bool" where
  "signedEntry e \<equiv> signedHeader (toLowerHeader (fst e))"

lemma fold_skip: "(\<And>e s. \<not> P e \<Longrightarrow> f e s = s) \<Longrightarrow> fold f xs s = fold f (filter P xs) s"
  by (induction xs arbitrary: s) auto

lemma canonicalHeaders_cong:
  assumes "filter signedEntry h = filter signedEntry h'"
  shows "canonicalHeaders (req\<lparr>q_Header := h\<rparr>) = canonicalHeaders (req\<lparr>q_Header := h'\<rparr>)"
proof -
  have vals: "headerVals (req\<lparr>q_Header := h\<rparr>) = headerVals (req\<lparr>q_Header := filter signedEntry h\<rparr>)" for h
    unfolding headerVals_def by (subst fold_skip [where P = signedEntry]) (auto simp: Let_def hostHeader_def)
  have names: "headerNames (req\<lparr>q_Header := h\<rparr>)
      = sort (remdups (''host'' # map (toLowerHeader \<circ> fst) (filter signedEntry h)))" for h
    by (simp add: headerNames_def filter_map comp_def)
  show ?thesis unfolding canonicalHeaders_def names vals [of h] vals [of h'] assms ..
qed

lemma map_of_setHeader: "map_of (setHeader k v h) k = Some [v]"
  by (simp add: setHeader_def)

lemma filter_setHeader:
  "\<not> signedHeader (toLowerHeader k) \<Longrightarrow> filter signedEntry (setHeader k v h) = filter signedEntry h"
  by (auto simp: setHeader_def intro: filter_cong)

lemma authorization_unsigned: "\<not> signedHeader (toLowerHeader ''Authorization'')"
  by (simp add: signedHeader_def toLowerHeader_def signableHeaders_def hasPrefix_def lowerByte_def byte_def char_of_def bit_0 bit_Suc)

text \<open>
  The canonical request of the SigV4 specification as the server computes it from what arrives:
  the path of the request line decoded and encoded again, the query of the request line, and the
  host and headers of the request.
\<close>

definition sigv4Request :: "httpRequest \<Rightarrow> gostring \<Rightarrow> gostring" where
  "sigv4Request wire payloadHash =
     joinWith nl
       [q_Method wire, uriEncode (the (unescapePath (EscapedPath (q_URL wire)))) True,
        sigv4Query (u_RawQuery (q_URL wire)), snd (canonicalHeaders wire),
        joinWith '';'' (fst (canonicalHeaders wire)), payloadHash]"


definition sampleCfg :: s3Config where
  "sampleCfg = \<lparr>c_Region = ''garage'', c_AccessKey = ''AK'', c_SecretKey = ''SK'', c_PathStyle = True,
     c_Anonymous = False, c_MaxRetries = 3,
     c_base = \<lparr>u_Scheme = ''https'', u_Host = ''s3.local'', u_Path = [], u_RawPath = [], u_RawQuery = []\<rparr>\<rparr>"


section \<open>Presigned URLs verify\<close>

lemma byte_lowerByte: "isAlnum c \<Longrightarrow> 48 \<le> byte (lowerByte c)"
  by (auto simp: isAlnum_def lowerByte_def byte_def)

lemma hexEncode_no_amp: "CHR ''&'' \<notin> set (hexEncode b)"
proof
  assume "CHR ''&'' \<in> set (hexEncode b)"
  then obtain x where "lowerByte (upperhex (byte x div 16)) = CHR ''&'' \<or> lowerByte (upperhex (byte x mod 16)) = CHR ''&''"
    by (auto simp: hexEncode_def dest!: sym [of "CHR ''&''"])
  then obtain n where "n < 16" "lowerByte (upperhex n) = CHR ''&''" using nibbles by blast
  then have "48 \<le> byte (CHR ''&'')" using byte_lowerByte [OF upperhex_alnum] by metis
  then show False by (simp add: byte_def)
qed

lemma joinWith_snoc: "ps \<noteq> [] \<Longrightarrow> joinWith sep (ps @ [p]) = joinWith sep ps @ sep @ p"
  by (induction ps rule: induct_list012) auto

lemma setValue_plain:
  "plainQuery q \<Longrightarrow> list_all unreserved k \<Longrightarrow> plainQuery (setValue k v q)"
  by (auto simp: plainQuery_def setValue_def list_all_iff distinct_map intro: inj_on_subset)

lemma amz_names_plain:
  "list_all unreserved ''X-Amz-SignedHeaders''" "list_all unreserved ''X-Amz-Expires''"
  "list_all unreserved ''X-Amz-Date''" "list_all unreserved ''X-Amz-Credential''"
  "list_all unreserved ''X-Amz-Algorithm''" "list_all unreserved ''versionId''"
  by (simp_all add: unreserved_def isAlnum_def byte_def)

lemma presignQuery_plain: "plainQuery (presignQuery cfg now (versionQuery v) expiry)"
  unfolding presignQuery_def
  by (intro setValue_plain amz_names_plain)
    (use amz_names_plain(6) in \<open>simp add: versionQuery_def plainQuery_def\<close>)

lemma presignQuery_names:
  "set (map fst (presignQuery cfg now (versionQuery v) expiry))
     \<subseteq> {''X-Amz-SignedHeaders'', ''X-Amz-Expires'', ''X-Amz-Date'', ''X-Amz-Credential'', ''X-Amz-Algorithm'', ''versionId''}"
  by (auto simp: presignQuery_def setValue_def versionQuery_def split: if_splits)

text \<open>
  The canonical request a server computes for a presigned URL: the query of the request line
  without the signature, the host header alone, and no payload hash.
\<close>

definition sigv4Presigned :: "gostring \<Rightarrow> goURL \<Rightarrow> gostring" where
  "sigv4Presigned method u =
     joinWith nl
       [method, uriEncode (the (unescapePath (EscapedPath u))) True,
        sigv4Query (joinWith ''&'' (filter (\<lambda>p. \<not> hasPrefix p ''X-Amz-Signature='') (splitOn (CHR ''&'') (u_RawQuery u)))),
        ''host:'' @ u_Host u @ nl, ''host'', unsignedPayload]"

lemma queryPart_prefix:
  assumes "hasPrefix (queryPart k v) (name @ ''='')" and "CHR ''='' \<notin> set name"
  shows "uriEncode k False = name"
proof -
  from assms(1) obtain t where "queryPart k v = (name @ ''='') @ t" by (auto simp: hasPrefix_iff)
  then have "cut (queryPart k v) (CHR ''='') = cut (name @ CHR ''='' # t) (CHR ''='')" by simp
  then show ?thesis
    using assms(2) uriEncode_no_special [of "CHR ''=''" k False] by (simp add: queryPart_def cut_at)
qed

lemma unsigned_parts:
  assumes "plainQuery q" and "''X-Amz-Signature'' \<notin> fst ` set q" and "q \<noteq> []" and "CHR ''&'' \<notin> set sig"
  shows "joinWith ''&'' (filter (\<lambda>p. \<not> hasPrefix p ''X-Amz-Signature='')
      (splitOn (CHR ''&'') (canonicalQuery q @ ''&X-Amz-Signature='' @ sig))) = canonicalQuery q"
proof -
  let ?ps = "map (\<lambda>k. queryPart k (hd (the (map_of q k)))) (sort (map fst q))"
  have ne: "?ps \<noteq> []" using assms(3) by (metis length_0_conv length_map length_sort)
  have "splitOn (CHR ''&'') (joinWith ''&'' (?ps @ [''X-Amz-Signature='' @ sig])) = ?ps @ [''X-Amz-Signature='' @ sig]"
    using assms(4) uriEncode_no_special by (intro splitOn_join) (auto simp: queryPart_def)
  moreover have "\<not> hasPrefix p ''X-Amz-Signature=''" if "p \<in> set ?ps" for p
  proof
    assume pre: "hasPrefix p ''X-Amz-Signature=''"
    from that obtain k v where k: "p = queryPart k v" "k \<in> fst ` set q" by auto
    then have "uriEncode k False = ''X-Amz-Signature''" using pre queryPart_prefix [of k v "''X-Amz-Signature''"] by simp
    moreover have "uriEncode k False = k"
      using assms(1) k(2) by (auto simp: plainQuery_def list_all_iff intro!: uriEncode_unreserved)
    ultimately show False using k(2) assms(2) by simp
  qed
  then have "filter (\<lambda>p. \<not> hasPrefix p ''X-Amz-Signature='') ?ps = ?ps" by (simp add: filter_id_conv)
  moreover have "hasPrefix (''X-Amz-Signature='' @ sig) ''X-Amz-Signature=''" by (rule hasPrefix_append)
  ultimately show ?thesis
    unfolding plainQuery_parts [OF assms(1)] using joinWith_snoc [OF ne, of "''&''" "''X-Amz-Signature='' @ sig"]
    by simp
qed

text \<open>
  A presigned URL is one the store accepts for as long as it says: it is refused for missing
  credentials, a missing key or an expiry outside SigV4's range, and otherwise the signature at
  the end of its query is the one a server computes from the rest of the URL.
\<close>

lemma presigned_url_verifies:
  assumes "u_RawQuery (c_base cfg) = []"
  shows "case PresignGetObject sha hmac cfg now bucket key versionID expiry of
      Inl e \<Rightarrow> c_Anonymous cfg \<or> key = [] \<or> expiry \<le> 0 \<or> MaxPresignExpiry < expiry
    | Inr u \<Rightarrow> 0 < expiry \<and> expiry \<le> MaxPresignExpiry \<and> key \<noteq> []
        \<and> hasSuffix (u_RawQuery u) (''&X-Amz-Signature='' @ signature sha hmac cfg now (sigv4Presigned ''GET'' u))"
proof -
  let ?q = "presignQuery cfg now (versionQuery versionID) expiry"
  let ?u = "url cfg bucket key ?q"
  have ne: "?q \<noteq> []" by (simp add: presignQuery_def setValue_def)
  have rq: "u_RawQuery ?u = canonicalQuery ?q" using ne by (simp add: url_def Let_def)
  have nosig: "''X-Amz-Signature'' \<notin> fst ` set ?q" using presignQuery_names [of cfg now versionID expiry] by auto
  have amp: "CHR ''&'' \<notin> set (signature sha hmac cfg now c)" for c
    by (simp add: signature_def hexEncode_no_amp)
  have "sigv4Presigned ''GET'' (?u\<lparr>u_RawQuery := u_RawQuery ?u @ ''&X-Amz-Signature='' @ signature sha hmac cfg now c\<rparr>)
    = joinWith nl [''GET'', canonicalURI ?u, u_RawQuery ?u, ''host:'' @ u_Host ?u @ nl, ''host'', unsignedPayload]" for c
  proof -
    have "EscapedPath (?u\<lparr>u_RawQuery := z\<rparr>) = EscapedPath ?u" for z by (simp add: EscapedPath_def)
    then show ?thesis
      unfolding sigv4Presigned_def
      using unsigned_parts [OF presignQuery_plain nosig ne amp] sigv4Query_canonical [OF presignQuery_plain]
      by (simp add: rq EscapedPath_url canonicalURI_url)
  qed
  note srv = this
  show ?thesis
    by (auto simp: PresignGetObject_def presign_def Let_def srv hasSuffix_iff simp del: append.simps)
qed

lemma presigned_url_verifies_witness:
  "\<exists>u. PresignGetObject id (\<lambda>k. id) sampleCfg \<lparr>k_amzDate = ''d'', k_dateStamp = ''s''\<rparr> ''b'' ''k'' [] hour = Inr u
     \<and> hasSuffix (u_RawQuery u) (''&X-Amz-Signature='' @
         signature id (\<lambda>k. id) sampleCfg \<lparr>k_amzDate = ''d'', k_dateStamp = ''s''\<rparr> (sigv4Presigned ''GET'' u))"
proof -
  let ?now = "\<lparr>k_amzDate = ''d'', k_dateStamp = ''s''\<rparr>"
  have "isl (PresignGetObject id (\<lambda>k. id) sampleCfg ?now ''b'' ''k'' [] hour) = False"
    by (simp add: PresignGetObject_def presign_def sampleCfg_def Let_def MaxPresignExpiry_def duration_units)
  then obtain u where "PresignGetObject id (\<lambda>k. id) sampleCfg ?now ''b'' ''k'' [] hour = Inr u"
    by (cases "PresignGetObject id (\<lambda>k. id) sampleCfg ?now ''b'' ''k'' [] hour") auto
  moreover have "u_RawQuery (c_base sampleCfg) = []" by (simp add: sampleCfg_def)
  from presigned_url_verifies [OF this, where sha = id and hmac = "\<lambda>k. id" and now = ?now and bucket = "''b''" and key = "''k''"
      and versionID = "[]" and expiry = hour] calculation
  show ?thesis by (simp del: append.simps)
qed

end
