(* ===== verification/S3_Client.thy ===== *)
theory S3_Client
  imports S3_Sign
begin

text \<open>
  \<^verbatim>\<open>src/internal/s3/s3.go\<close>, \<^verbatim>\<open>retry.go\<close>, \<^verbatim>\<open>transport.go\<close> and \<^verbatim>\<open>copy.go\<close>: the client's configuration, its
  errors, the retrying request engine and the calls that are one request each. A call is the
  request it describes and the sink that reads the response; the engine turns both into a log of
  the requests put on the wire, each with the body bytes it carries, and a result. The transport,
  the clock and the XML codec are input: what each attempt meets is one element of a list.
\<close>

section \<open>Errors\<close>

record apiError =
  ae_StatusCode :: int
  ae_Code :: gostring
  ae_Message :: gostring
  ae_Resource :: gostring
  ae_RequestID :: gostring
  ae_Method :: gostring
  ae_Path :: gostring

text \<open>
  \<open>ErrSink\<close> is \<^verbatim>\<open>nonRetryableError\<close>, \<open>ErrWrap\<close> what \<^verbatim>\<open>fmt.Errorf\<close> makes with \<^verbatim>\<open>%w\<close>, and \<open>ErrBoth\<close>
  what it makes with two of them.
\<close>

datatype s3err =
    ErrAPI apiError
  | ErrSink s3err
  | ErrWrap gostring s3err
  | ErrBoth s3err gostring s3err
  | ErrText gostring

fun asAPI :: "s3err \<Rightarrow> apiError option" where
  "asAPI (ErrAPI a) = Some a"
| "asAPI (ErrSink e) = asAPI e"
| "asAPI (ErrWrap m e) = asAPI e"
| "asAPI (ErrBoth e m e') = (case asAPI e of Some a \<Rightarrow> Some a | None \<Rightarrow> asAPI e')"
| "asAPI (ErrText m) = None"

fun asSink :: "s3err \<Rightarrow> s3err option" where
  "asSink (ErrAPI a) = None"
| "asSink (ErrSink e) = Some e"
| "asSink (ErrWrap m e) = asSink e"
| "asSink (ErrBoth e m e') = (case asSink e of Some a \<Rightarrow> Some a | None \<Rightarrow> asSink e')"
| "asSink (ErrText m) = None"

definition IsNotFound :: "s3err \<Rightarrow> bool" where
  "IsNotFound e =
     (case asAPI e of
        None \<Rightarrow> False
      | Some ae \<Rightarrow> ae_Code ae \<in> {''NoSuchKey'', ''NoSuchBucket''} \<or> ae_StatusCode ae = 404)"

definition ErrorCode :: "s3err \<Rightarrow> gostring" where
  "ErrorCode e = (case asAPI e of None \<Rightarrow> [] | Some ae \<Rightarrow> ae_Code ae)"

section \<open>Retry policy\<close>

definition retryBaseDelay :: duration where "retryBaseDelay = 200 * millisecond"
definition retryMaxDelay :: duration where "retryMaxDelay = 10 * second"

definition retryableCodes :: "gostring list" where
  "retryableCodes = [''InternalError'', ''ServiceUnavailable'', ''SlowDown'', ''RequestTimeout'']"

definition retryable :: "s3err \<Rightarrow> bool" where
  "retryable e =
     (case asSink e of
        Some _ \<Rightarrow> False
      | None \<Rightarrow>
          (case asAPI e of
             None \<Rightarrow> True
           | Some ae \<Rightarrow>
               if ae_Code ae \<in> set retryableCodes then True
               else if ae_StatusCode ae = 408 \<or> ae_StatusCode ae = 429 then True
               else ae_StatusCode ae \<ge> 500))"

definition unwrapSink :: "s3err \<Rightarrow> s3err" where
  "unwrapSink e = (case asSink e of Some s \<Rightarrow> s | None \<Rightarrow> e)"

text \<open>The loop of \<^verbatim>\<open>Client.backoff\<close>, \<open>n\<close> times, and the delay before attempt \<open>n\<close> at the given clock.\<close>

fun doubled :: "nat \<Rightarrow> duration \<Rightarrow> duration" where
  "doubled 0 d = d"
| "doubled (Suc n) d = (if d * 2 \<ge> retryMaxDelay then retryMaxDelay else doubled n (d * 2))"

definition backoffDelay :: "duration \<Rightarrow> nat \<Rightarrow> int \<Rightarrow> duration" where
  "backoffDelay retryBase n unixNano =
     (let d = doubled (n - 1) retryBase; spread = goQuot d 4
      in if spread > 0 then d + unixNano mod spread else d)"

section \<open>Requests and responses\<close>

record s3Request =
  rq_method :: gostring
  rq_url :: goURL
  rq_body :: "gostring option"
  rq_payloadHash :: gostring
  rq_size :: int
  rq_header :: "(gostring \<times> gostring) list"

record response =
  rs_StatusCode :: int
  rs_Header :: header
  rs_ContentLength :: int
  rs_Body :: gostring

definition getHeader :: "gostring \<Rightarrow> response \<Rightarrow> gostring" where
  "getHeader k r = (case map_of (rs_Header r) (canonicalKeyGo True k) of Some (v # _) \<Rightarrow> v | _ \<Rightarrow> [])"

definition errorBodyLimit :: nat where "errorBodyLimit = 65536"

text \<open>\<open>xmlErr\<close> is the decoding of an error document into its code, message, resource and request ID.\<close>

record xmlDoc =
  xd_Code :: gostring
  xd_Message :: gostring
  xd_Resource :: gostring
  xd_RequestID :: gostring

type_synonym xmlErr = "gostring \<Rightarrow> xmlDoc option"

definition newAPIError :: "xmlErr \<Rightarrow> gostring \<Rightarrow> gostring \<Rightarrow> response \<Rightarrow> apiError" where
  "newAPIError unmarshal method path resp =
     (let e = \<lparr>ae_StatusCode = rs_StatusCode resp, ae_Code = [], ae_Message = [], ae_Resource = [],
                ae_RequestID = getHeader ''X-Amz-Request-Id'' resp, ae_Method = method, ae_Path = path\<rparr>;
          e = (case unmarshal (take errorBodyLimit (rs_Body resp)) of
                 None \<Rightarrow> e
               | Some doc \<Rightarrow>
                   (let e = e\<lparr>ae_Code := xd_Code doc, ae_Message := xd_Message doc, ae_Resource := xd_Resource doc\<rparr>
                    in if xd_RequestID doc \<noteq> [] then e\<lparr>ae_RequestID := xd_RequestID doc\<rparr> else e))
      in if ae_Code e = [] \<and> rs_StatusCode resp = 404 then e\<lparr>ae_Code := ''NoSuchKey''\<rparr> else e)"

text \<open>
  What one attempt meets: the context's error if it ends the wait before a retry, the error of
  rewinding the body, the transport's answer, how many bytes of the body were read by then, the
  signing clock, and whether the context is done once the attempt has failed.
\<close>

record attemptIn =
  ai_wait :: "s3err option"
  ai_rewind :: "s3err option"
  ai_http :: "s3err + response"
  ai_consumed :: nat
  ai_clock :: clock
  ai_cancelled :: bool

record sent =
  st_request :: httpRequest
  st_body :: "gostring option"

record 'a engine =
  en_cfg :: s3Config
  en_sha :: hasher
  en_hmac :: mac
  en_xmlErr :: xmlErr
  en_req :: s3Request
  en_sink :: "response \<Rightarrow> s3err + 'a"

definition attempt :: "'a engine \<Rightarrow> attemptIn \<Rightarrow> nat \<Rightarrow> sent list \<times> (s3err + 'a)" where
  "attempt g i pos =
     (let r = en_req g in
      case newRequest (rq_method r) (rq_url r) (rq_header r) of
        None \<Rightarrow> ([], Inl (ErrText ''parse''))
      | Some req0 \<Rightarrow>
          (let req = (if c_Anonymous (en_cfg g) then req0
                      else sign (en_sha g) (en_hmac g) (en_cfg g) req0 (rq_payloadHash r) (ai_clock i));
               log = [\<lparr>st_request = req, st_body = map_option (drop pos) (rq_body r)\<rparr>]
           in case ai_http i of
                Inl e \<Rightarrow> (log, Inl (ErrWrap (''s3 '' @ rq_method r @ '' '' @ u_Path (rq_url r) @ '': '') e))
              | Inr resp \<Rightarrow>
                  (log, if rs_StatusCode resp < 200 \<or> rs_StatusCode resp \<ge> 300
                        then Inl (ErrAPI (newAPIError (en_xmlErr g) (rq_method r) (u_Path (rq_url r)) resp))
                        else case en_sink g resp of Inl e \<Rightarrow> Inl (ErrSink e) | Inr x \<Rightarrow> Inr x)))"

text \<open>
  \<^verbatim>\<open>do\<close> from attempt \<open>n\<close> on, with the body read up to \<open>pos\<close>; \<^const>\<open>None\<close> is a call that has not
  returned when the inputs end.
\<close>

fun doLoop :: "'a engine \<Rightarrow> nat \<Rightarrow> nat \<Rightarrow> nat \<Rightarrow> attemptIn list \<Rightarrow> sent list \<times> (s3err + 'a) option" where
  "doLoop g start n pos [] = ([], None)"
| "doLoop g start n pos (i # is) =
     (case (if n > 0 then ai_wait i else None) of
        Some e \<Rightarrow> ([], Some (Inl e))
      | None \<Rightarrow>
          (case (if n > 0 \<and> rq_body (en_req g) \<noteq> None then ai_rewind i else None) of
             Some e \<Rightarrow> ([], Some (Inl (ErrWrap ''rewinding request body for retry: '' e)))
           | None \<Rightarrow>
               (let from = (if n > 0 \<and> rq_body (en_req g) \<noteq> None then start else pos);
                    (log, res) = attempt g i from
                in case res of
                     Inr x \<Rightarrow> (log, Some (Inr x))
                   | Inl e \<Rightarrow>
                       if int n \<ge> c_MaxRetries (en_cfg g) \<or> ai_cancelled i \<or> \<not> retryable e
                       then (log, Some (Inl (unwrapSink e)))
                       else let (log', res') = doLoop g start (Suc n) (from + ai_consumed i) is
                            in (log @ log', res'))))"

text \<open>\<^verbatim>\<open>bodyOffset\<close>: \<open>at\<close> is the position the body is at, or the error of asking for it.\<close>

definition bodyOffset :: "gostring option \<Rightarrow> s3err + nat \<Rightarrow> s3err + nat" where
  "bodyOffset body at =
     (case body of
        None \<Rightarrow> Inr 0
      | Some _ \<Rightarrow> (case at of Inl e \<Rightarrow> Inl (ErrWrap ''seeking request body: '' e) | Inr p \<Rightarrow> Inr p))"

definition s3do :: "'a engine \<Rightarrow> s3err + nat \<Rightarrow> attemptIn list \<Rightarrow> sent list \<times> (s3err + 'a) option" where
  "s3do g at is =
     (case bodyOffset (rq_body (en_req g)) at of
        Inl e \<Rightarrow> ([], Some (Inl e))
      | Inr start \<Rightarrow> doLoop g start 0 start is)"

section \<open>The engine replays only what is safe to replay\<close>

definition accepted :: "attemptIn \<Rightarrow> bool" where
  "accepted i = (case ai_http i of Inl e \<Rightarrow> False | Inr resp \<Rightarrow> 200 \<le> rs_StatusCode resp \<and> rs_StatusCode resp < 300)"

lemma attempt_log:
  "attempt g i pos = (log, res) \<Longrightarrow> length log \<le> 1 \<and> list_all (\<lambda>s. st_body s = map_option (drop pos) (rq_body (en_req g))) log"
  by (auto simp: attempt_def Let_def split: option.splits sum.splits if_splits)

lemma attempt_accepted:
  "attempt g i pos = (log, Inl e) \<Longrightarrow> accepted i \<Longrightarrow> log \<noteq> [] \<Longrightarrow> \<not> retryable e"
  by (auto simp: attempt_def Let_def accepted_def retryable_def split: option.splits sum.splits if_splits)

definition replayFrom :: "'a engine \<Rightarrow> nat \<Rightarrow> nat \<Rightarrow> nat \<Rightarrow> nat" where
  "replayFrom g start n pos = (if n > 0 \<and> rq_body (en_req g) \<noteq> None then start else pos)"

lemma doLoop_step:
  assumes "doLoop g start n pos (i # is) = (log, res)"
  obtains (refused) e where "log = []" "res = Some (Inl e)"
  | (last) l r where "attempt g i (replayFrom g start n pos) = (l, r)" "log = l" "res \<noteq> None"
      "\<And>x. res = Some (Inr x) \<Longrightarrow> r = Inr x"
  | (again) l e l' where "attempt g i (replayFrom g start n pos) = (l, Inl e)" "log = l @ l'" "retryable e"
      "int n < c_MaxRetries (en_cfg g)"
      "doLoop g start (Suc n) (replayFrom g start n pos + ai_consumed i) is = (l', res)"
proof -
  obtain l r where a: "attempt g i (replayFrom g start n pos) = (l, r)" by fastforce
  obtain l' r' where d: "doLoop g start (Suc n) (replayFrom g start n pos + ai_consumed i) is = (l', r')" by fastforce
  consider (w) "n > 0" "ai_wait i \<noteq> None" | (s) "n > 0 \<and> rq_body (en_req g) \<noteq> None \<and> ai_rewind i \<noteq> None" "\<not> (n > 0 \<and> ai_wait i \<noteq> None)"
    | (go) "\<not> (n > 0 \<and> ai_wait i \<noteq> None)" "\<not> (n > 0 \<and> rq_body (en_req g) \<noteq> None \<and> ai_rewind i \<noteq> None)" by blast
  then show thesis
  proof cases
    case go
    then have eq: "doLoop g start n pos (i # is) =
      (case r of Inr x \<Rightarrow> (l, Some (Inr x))
       | Inl e \<Rightarrow> if int n \<ge> c_MaxRetries (en_cfg g) \<or> ai_cancelled i \<or> \<not> retryable e
           then (l, Some (Inl (unwrapSink e))) else (l @ l', r'))"
      using a d by (auto simp: replayFrom_def Let_def split: option.splits sum.splits)
    show thesis
    proof (cases "\<exists>e. r = Inl e \<and> int n < c_MaxRetries (en_cfg g) \<and> \<not> ai_cancelled i \<and> retryable e")
      case True
      then show thesis using again a d eq assms by auto
    next
      case False
      then have "log = l" "res \<noteq> None" "\<And>x. res = Some (Inr x) \<Longrightarrow> r = Inr x"
        using eq assms by (auto split: sum.splits if_splits)
      then show thesis using last a by blast
    qed
  qed (use assms refused in auto)
qed

lemma doLoop_attempts:
  "doLoop g start n pos is = (log, res) \<Longrightarrow>
     length log \<le> Suc (nat (c_MaxRetries (en_cfg g) - int n))
     \<and> (nat (c_MaxRetries (en_cfg g) - int n) < length is \<longrightarrow> res \<noteq> None)"
proof (induction "is" arbitrary: n pos log res)
  case (Cons i "is")
  from Cons.prems show ?case
  proof (cases rule: doLoop_step)
    case (last l r)
    then show ?thesis using attempt_log by fastforce
  next
    case (again l e l')
    then show ?thesis using Cons.IH [OF again(5)] attempt_log [OF again(1)] by auto
  qed auto
qed auto

lemma doLoop_body:
  "doLoop g start n pos is = (log, res) \<Longrightarrow> n = 0 \<longrightarrow> pos = start \<Longrightarrow>
     list_all (\<lambda>s. st_body s = map_option (drop start) (rq_body (en_req g))) log"
proof (induction "is" arbitrary: n pos log res)
  case (Cons i "is")
  have body: "map_option (drop (replayFrom g start n pos)) (rq_body (en_req g)) = map_option (drop start) (rq_body (en_req g))"
    using Cons.prems(2) by (cases "rq_body (en_req g)") (auto simp: replayFrom_def)
  from Cons.prems(1) show ?case
  proof (cases rule: doLoop_step)
    case (last l r)
    then show ?thesis using attempt_log body by fastforce
  next
    case (again l e l')
    then show ?thesis using Cons.IH [OF again(5)] attempt_log [OF again(1)] body by simp
  qed auto
qed auto

lemma doLoop_sink: "doLoop g start n pos is = (log, Some (Inr x)) \<Longrightarrow> \<exists>resp. en_sink g resp = Inr x"
proof (induction "is" arbitrary: n pos log)
  case (Cons i "is")
  from Cons.prems show ?case
  proof (cases rule: doLoop_step)
    case (last l r)
    then show ?thesis by (auto simp: attempt_def Let_def split: option.splits sum.splits if_splits)
  qed (use Cons.IH in auto)
qed simp

definition badURL :: "'a engine \<Rightarrow> bool" where
  "badURL g \<longleftrightarrow> newRequest (rq_method (en_req g)) (rq_url (en_req g)) (rq_header (en_req g)) = None"

lemma attempt_length: "attempt g i pos = (log, res) \<Longrightarrow> length log = (if badURL g then 0 else 1)"
  by (auto simp: attempt_def badURL_def Let_def split: option.splits sum.splits if_splits)

lemma doLoop_badURL: "badURL g \<Longrightarrow> doLoop g start n pos is = (log, res) \<Longrightarrow> log = []"
proof (induction "is" arbitrary: n pos log res)
  case (Cons i "is")
  from Cons.prems(2) show ?case
    by (cases rule: doLoop_step) (use Cons attempt_length in force)+
qed auto

lemma doLoop_once:
  "\<not> badURL g \<Longrightarrow> doLoop g start n pos is = (log, res) \<Longrightarrow> k < length log \<Longrightarrow> accepted (is ! k) \<Longrightarrow> Suc k = length log"
proof (induction "is" arbitrary: n pos log res k)
  case (Cons i "is")
  from Cons.prems(2) show ?case
  proof (cases rule: doLoop_step)
    case (last l r)
    then show ?thesis using attempt_length Cons.prems(1,3) by fastforce
  next
    case (again l e l')
    have l: "length l = 1" using attempt_length [OF again(1)] Cons.prems(1) by simp
    show ?thesis
    proof (cases k)
      case 0
      moreover have "l \<noteq> []" using l by auto
      ultimately show ?thesis using attempt_accepted [OF again(1)] again(3) Cons.prems(4) by auto
    next
      case (Suc m)
      then show ?thesis using Cons.IH [OF Cons.prems(1) again(5), of m] again(2) Cons.prems(3,4) l by simp
    qed
  qed (use Cons.prems in auto)
qed auto

text \<open>
  C6. The engine replays a request only when that is safe, and never for ever: there are at most
  \<^verbatim>\<open>MaxRetries\<close> + 1 attempts and the call returns once that many have been answered; every attempt
  sends the body from the caller's offset, so the bytes are those the signature covers; and an
  attempt whose response was accepted, and so handed to the sink, is the last one.
\<close>

theorem do_replays_safely:
  assumes "s3do g (Inr start) is = (log, res)"
  shows "length log \<le> Suc (nat (c_MaxRetries (en_cfg g)))
    \<and> (nat (c_MaxRetries (en_cfg g)) < length is \<longrightarrow> res \<noteq> None)
    \<and> (\<forall>s \<in> set log. \<forall>body. rq_body (en_req g) = Some body \<longrightarrow> st_body s = Some (drop start body))
    \<and> (\<forall>k < length log. accepted (is ! k) \<longrightarrow> Suc k = length log)"
proof -
  obtain st where st: "doLoop g st 0 st is = (log, res)" "rq_body (en_req g) = None \<or> st = start"
    using assms by (auto simp: s3do_def bodyOffset_def split: option.splits)
  have "\<forall>k < length log. accepted (is ! k) \<longrightarrow> Suc k = length log"
    using doLoop_badURL [OF _ st(1)] doLoop_once [OF _ st(1)] by (cases "badURL g") auto
  then show ?thesis
    using doLoop_attempts [OF st(1)] doLoop_body [OF st(1)] st(2) by (auto simp: list_all_iff)
qed

definition sampleAttempt :: "int \<Rightarrow> attemptIn" where
  "sampleAttempt code = \<lparr>ai_wait = None, ai_rewind = None,
     ai_http = Inr \<lparr>rs_StatusCode = code, rs_Header = [], rs_ContentLength = 0, rs_Body = []\<rparr>,
     ai_consumed = 2, ai_clock = \<lparr>k_amzDate = ''d'', k_dateStamp = ''s''\<rparr>, ai_cancelled = False\<rparr>"

definition sampleEngine :: "unit engine" where
  "sampleEngine = \<lparr>en_cfg = sampleCfg\<lparr>c_MaxRetries := 1\<rparr>, en_sha = id, en_hmac = (\<lambda>k. id), en_xmlErr = (\<lambda>b. None),
     en_req = \<lparr>rq_method = ''PUT'', rq_url = url sampleCfg ''b'' ''k'' [], rq_body = Some ''data'', rq_payloadHash = ''h'',
       rq_size = 4, rq_header = []\<rparr>,
     en_sink = (\<lambda>r. Inr ())\<rparr>"

theorem do_replays_safely_witness:
  "length (fst (s3do sampleEngine (Inr 1) [sampleAttempt 503, sampleAttempt 200])) \<le> 2
   \<and> snd (s3do sampleEngine (Inr 1) [sampleAttempt 503, sampleAttempt 200]) \<noteq> None
   \<and> list_all (\<lambda>s. st_body s = Some ''ata'') (fst (s3do sampleEngine (Inr 1) [sampleAttempt 503, sampleAttempt 200]))"
  using do_replays_safely [of sampleEngine 1 "[sampleAttempt 503, sampleAttempt 200]"]
  by (simp add: sampleEngine_def prod_eq_iff list_all_iff)

lemma doubled_min: "0 < d \<Longrightarrow> d \<le> retryMaxDelay \<Longrightarrow> doubled n d = min (d * 2 ^ n) retryMaxDelay"
proof (induction n arbitrary: d)
  case (Suc n)
  show ?case
  proof (cases "retryMaxDelay \<le> d * 2")
    case True
    have "d * 2 \<le> d * 2 ^ Suc n" using Suc.prems(1) by simp
    with True have "min (d * 2 ^ Suc n) retryMaxDelay = retryMaxDelay" by (intro min_absorb2) linarith
    then show ?thesis using True by (simp only: doubled.simps if_True)
  next
    case False
    then show ?thesis using Suc.IH [of "d * 2"] Suc.prems(1) by (simp add: algebra_simps)
  qed
qed simp

lemma jitter_bound:
  fixes d x :: int
  assumes "0 < d" defines "j \<equiv> (if d div 4 > 0 then d + x mod (d div 4) else d)"
  shows "d \<le> j \<and> 4 * j < 5 * d"
proof (cases "d div 4 > 0")
  case True
  define q m where "q = d div 4" and "m = x mod q"
  have "0 \<le> m" "m < q" "4 * q \<le> d" using True by (simp_all add: q_def m_def)
  moreover have "j = d + m" using True by (simp add: j_def q_def m_def)
  ultimately show ?thesis by simp
qed (use assms in simp)

text \<open>
  Waits between attempts grow by doubling and stay bounded: the delay before the \<open>n\<close>-th retry
  is at least the doubled base, capped at ten seconds, and the jitter adds less than a quarter.
\<close>

lemma backoff_doubles_up_to_cap:
  assumes "0 < n" and "0 \<le> unixNano"
  shows "min (retryBaseDelay * 2 ^ (n - 1)) retryMaxDelay \<le> backoffDelay retryBaseDelay n unixNano
    \<and> 4 * backoffDelay retryBaseDelay n unixNano < 5 * min (retryBaseDelay * 2 ^ (n - 1)) retryMaxDelay"
proof -
  let ?d = "min (retryBaseDelay * 2 ^ (n - 1)) retryMaxDelay"
  have "0 < ?d" by (simp add: retryBaseDelay_def retryMaxDelay_def duration_units)
  moreover have "doubled (n - 1) retryBaseDelay = ?d"
    by (rule doubled_min) (simp_all add: retryBaseDelay_def retryMaxDelay_def duration_units)
  moreover have "goQuot ?d 4 = ?d div 4" using calculation(1) by (simp add: goQuot_def)
  ultimately have delay: "backoffDelay retryBaseDelay n unixNano = (if ?d div 4 > 0 then ?d + unixNano mod (?d div 4) else ?d)"
    by (simp only: backoffDelay_def Let_def)
  show ?thesis unfolding delay by (rule jitter_bound [OF \<open>0 < ?d\<close>])
qed

lemma backoff_doubles_up_to_cap_witness:
  "800 * millisecond \<le> backoffDelay retryBaseDelay 3 17 \<and> backoffDelay retryBaseDelay 3 17 < second"
  using backoff_doubles_up_to_cap [of 3 17]
  by (simp add: retryBaseDelay_def retryMaxDelay_def duration_units)

end
