(* ===== verification/S3_Calls.thy ===== *)
theory S3_Calls
  imports S3_Client
begin

text \<open>
  The calls of \<^verbatim>\<open>src/internal/s3\<close> that are one request each: the bucket and object calls of \<^verbatim>\<open>s3.go\<close>,
  \<^verbatim>\<open>copy.go\<close>, \<^verbatim>\<open>delete.go\<close> and \<^verbatim>\<open>versioning.go\<close>, the construction of a client, and the redirect policy
  of \<^verbatim>\<open>transport.go\<close>. \<open>s3Env\<close> holds the client and what it takes from the standard library: the
  digests, the XML codec and the parsing of times and URLs.
\<close>

section \<open>The client and its environment\<close>

record s3Env =
  v_cfg :: s3Config
  v_sha :: hasher
  v_hmac :: mac
  v_md5 :: hasher
  v_xmlErr :: xmlErr
  v_parseTime :: "gostring \<Rightarrow> gostring \<Rightarrow> int option"
  v_parseHTTPTime :: "gostring \<Rightarrow> int option"
  v_parseInt :: "gostring \<Rightarrow> int option"

text \<open>Instants are nanoseconds since Go's zero time.\<close>

definition zeroTime :: int where "zeroTime = 0"

definition parseS3Time :: "s3Env \<Rightarrow> gostring \<Rightarrow> int" where
  "parseS3Time v s =
     (if s = [] then zeroTime
      else case List.map_filter (\<lambda>layout. v_parseTime v layout s)
             [''2006-01-02T15:04:05.999999999Z07:00'', ''2006-01-02T15:04:05Z07:00'', ''2006-01-02T15:04:05.000Z''] of
        t # _ \<Rightarrow> t
      | [] \<Rightarrow> zeroTime)"

type_synonym 'a call = "attemptIn list \<Rightarrow> sent list \<times> (s3err + 'a) option"

definition call :: "s3Env \<Rightarrow> s3Request \<Rightarrow> (response \<Rightarrow> s3err + 'a) \<Rightarrow> 'a call" where
  "call v req sink is =
     s3do \<lparr>en_cfg = v_cfg v, en_sha = v_sha v, en_hmac = v_hmac v, en_xmlErr = v_xmlErr v,
           en_req = req, en_sink = sink\<rparr> (Inr 0) is"

definition mapErr :: "(s3err \<Rightarrow> s3err) \<Rightarrow> sent list \<times> (s3err + 'a) option \<Rightarrow> sent list \<times> (s3err + 'a) option" where
  "mapErr f r = map_prod id (map_option (map_sum f id)) r"

definition bodyless :: "gostring \<Rightarrow> goURL \<Rightarrow> s3Request" where
  "bodyless method u = \<lparr>rq_method = method, rq_url = u, rq_body = None, rq_payloadHash = emptySHA256,
     rq_size = 0, rq_header = []\<rparr>"

definition withBody :: "s3Env \<Rightarrow> gostring \<Rightarrow> goURL \<Rightarrow> gostring \<Rightarrow> (gostring \<times> gostring) list \<Rightarrow> s3Request" where
  "withBody v method u body hdr = \<lparr>rq_method = method, rq_url = u, rq_body = Some body,
     rq_payloadHash = v_sha v body, rq_size = int (length body), rq_header = hdr\<rparr>"

definition hdrContentType :: gostring where "hdrContentType = ''Content-Type''"

definition drainBody :: "response \<Rightarrow> s3err + unit" where "drainBody resp = Inr ()"

definition getXML :: "s3Env \<Rightarrow> goURL \<Rightarrow> (gostring \<Rightarrow> s3err + 'a) \<Rightarrow> 'a call" where
  "getXML v u decode =
     call v (bodyless ''GET'' u)
       (\<lambda>resp. case decode (rs_Body resp) of
          Inl e \<Rightarrow> Inl (ErrWrap (''decoding S3 response from '' @ u_Path u @ '': '') e)
        | Inr x \<Rightarrow> Inr x)"

section \<open>Creating a client\<close>

definition DefaultRegion :: gostring where "DefaultRegion = ''garage''"

definition containsScheme :: "gostring \<Rightarrow> bool" where
  "containsScheme raw \<longleftrightarrow> list_ex (\<lambda>n. hasPrefix (drop n raw) ''://'') [0..<length raw]"

definition parseEndpoint :: "(gostring \<Rightarrow> goURL option) \<Rightarrow> gostring \<Rightarrow> s3err + goURL" where
  "parseEndpoint parse endpoint =
     (let raw = (if containsScheme endpoint then endpoint else ''https://'' @ endpoint) in
      case parse raw of
        None \<Rightarrow> Inl (ErrText (''invalid S3 endpoint '' @ endpoint))
      | Some u \<Rightarrow>
          if u_Host u = [] then Inl (ErrText ''no host'')
          else if u_Scheme u \<noteq> ''http'' \<and> u_Scheme u \<noteq> ''https'' then Inl (ErrText ''scheme must be http or https'')
          else Inr \<lparr>u_Scheme = u_Scheme u, u_Host = u_Host u, u_Path = [], u_RawPath = [], u_RawQuery = []\<rparr>)"

text \<open>\<open>caOK\<close> is whether certificates could be read from the CA bundle that was given, if any.\<close>

definition New :: "(gostring \<Rightarrow> goURL option) \<Rightarrow> gostring \<Rightarrow> bool \<Rightarrow> bool option \<Rightarrow> s3Config \<Rightarrow> s3err + s3Config" where
  "New parse endpoint insecure caOK cfg =
     (if endpoint = [] then Inl (ErrText ''S3 endpoint is required'')
      else if \<not> c_Anonymous cfg \<and> (c_AccessKey cfg = [] \<or> c_SecretKey cfg = []) then
        Inl (ErrText ''S3 credentials are required'')
      else
        case parseEndpoint parse endpoint of
          Inl e \<Rightarrow> Inl e
        | Inr base \<Rightarrow>
            if \<not> insecure \<and> caOK = Some False then Inl (ErrText ''no certificates parsed from S3 CA bundle'')
            else Inr (cfg\<lparr>c_Region := (if c_Region cfg = [] then DefaultRegion else c_Region cfg), c_base := base\<rparr>))"

section \<open>Buckets\<close>

definition ListBuckets :: "s3Env \<Rightarrow> (gostring \<Rightarrow> s3err + (gostring \<times> gostring) list) \<Rightarrow> (gostring \<times> int) list call" where
  "ListBuckets v decode is =
     map_prod id (map_option (map_sum id (map (\<lambda>(name, created). (name, parseS3Time v created)))))
       (getXML v (url (v_cfg v) [] [] []) decode is)"

definition usEast1 :: gostring where "usEast1 = ''us-east-1''"

definition CreateBucket :: "s3Env \<Rightarrow> (gostring \<Rightarrow> gostring) \<Rightarrow> gostring \<Rightarrow> unit call" where
  "CreateBucket v marshalLocation bucket =
     (let region = c_Region (v_cfg v); u = url (v_cfg v) bucket [] [];
          req = (if region \<noteq> [] \<and> region \<noteq> usEast1
                 then withBody v ''PUT'' u (marshalLocation region) [(hdrContentType, ''application/xml'')]
                 else bodyless ''PUT'' u)
      in call v req drainBody)"

definition DeleteBucket :: "s3Env \<Rightarrow> gostring \<Rightarrow> unit call" where
  "DeleteBucket v bucket = call v (bodyless ''DELETE'' (url (v_cfg v) bucket [] [])) drainBody"

definition HeadBucket :: "s3Env \<Rightarrow> gostring \<Rightarrow> unit call" where
  "HeadBucket v bucket = call v (bodyless ''HEAD'' (url (v_cfg v) bucket [] [])) drainBody"

definition VersioningEnabled :: gostring where "VersioningEnabled = ''Enabled''"
definition VersioningSuspended :: gostring where "VersioningSuspended = ''Suspended''"
definition VersioningUnversioned :: gostring where "VersioningUnversioned = ''Unversioned''"

definition GetBucketVersioning :: "s3Env \<Rightarrow> (gostring \<Rightarrow> s3err + gostring) \<Rightarrow> gostring \<Rightarrow> gostring call" where
  "GetBucketVersioning v decode bucket is =
     map_prod id (map_option (map_sum id (\<lambda>status. if status = [] then VersioningUnversioned else status)))
       (getXML v (url (v_cfg v) bucket [] [(''versioning'', [[]])]) decode is)"

definition contentMD5 :: "s3Env \<Rightarrow> gostring \<Rightarrow> gostring" where
  "contentMD5 v body = v_md5 v body"

definition SetBucketVersioning :: "s3Env \<Rightarrow> (gostring \<Rightarrow> gostring) \<Rightarrow> gostring \<Rightarrow> gostring \<Rightarrow> unit call" where
  "SetBucketVersioning v marshalStatus bucket status =
     (if status \<noteq> VersioningEnabled \<and> status \<noteq> VersioningSuspended
      then (\<lambda>is. ([], Some (Inl (ErrText ''versioning status must be Enabled or Suspended''))))
      else let body = marshalStatus status in
        call v (withBody v ''PUT'' (url (v_cfg v) bucket [] [(''versioning'', [[]])]) body
            [(hdrContentType, ''application/xml''), (''Content-MD5'', contentMD5 v body)]) drainBody)"

section \<open>Objects\<close>

record objectInfo =
  oi_Bucket :: gostring
  oi_Key :: gostring
  oi_Size :: int
  oi_LastModified :: int
  oi_ETag :: gostring
  oi_ContentType :: gostring
  oi_VersionID :: gostring
  oi_Metadata :: "(gostring \<times> gostring) list"

definition newInfo :: "gostring \<Rightarrow> gostring \<Rightarrow> objectInfo" where
  "newInfo bucket key = \<lparr>oi_Bucket = bucket, oi_Key = key, oi_Size = 0, oi_LastModified = zeroTime, oi_ETag = [],
     oi_ContentType = [], oi_VersionID = [], oi_Metadata = []\<rparr>"

definition trimQuotes :: "gostring \<Rightarrow> gostring" where
  "trimQuotes s = trimRightByte (trimLeftByte s (CHR 0x22)) (CHR 0x22)"

definition objectInfoFromHeader :: "s3Env \<Rightarrow> gostring \<Rightarrow> gostring \<Rightarrow> response \<Rightarrow> objectInfo" where
  "objectInfoFromHeader v bucket key resp =
     (let size = rs_ContentLength resp; cl = getHeader ''Content-Length'' resp;
          size = (if cl \<noteq> [] \<and> size < 0 then (case v_parseInt v cl of Some n \<Rightarrow> n | None \<Rightarrow> size) else size);
          modified = (case v_parseHTTPTime v (getHeader ''Last-Modified'' resp) of Some t \<Rightarrow> t | None \<Rightarrow> zeroTime)
      in (newInfo bucket key)\<lparr>oi_Size := size, oi_ETag := trimQuotes (getHeader ''ETag'' resp),
           oi_ContentType := getHeader hdrContentType resp, oi_LastModified := modified,
           oi_Metadata := List.map_filter
             (\<lambda>(name, vals). if vals = [] \<or> \<not> hasPrefix name ''X-Amz-Meta-'' then None
                else Some (toLowerHeader (trimPrefix name ''X-Amz-Meta-''), hd vals)) (rs_Header resp)\<rparr>)"

definition HeadObject :: "s3Env \<Rightarrow> gostring \<Rightarrow> gostring \<Rightarrow> gostring \<Rightarrow> objectInfo call" where
  "HeadObject v bucket key versionID =
     call v (bodyless ''HEAD'' (url (v_cfg v) bucket key (versionQuery versionID)))
       (\<lambda>resp. Inr ((objectInfoFromHeader v bucket key resp)\<lparr>oi_VersionID := getHeader ''x-amz-version-id'' resp\<rparr>))"

text \<open>\<open>copy\<close> is \<^verbatim>\<open>io.Copy\<close> from a response's body to the caller's writer: bytes written, and its error.\<close>

definition GetObject :: "s3Env \<Rightarrow> (response \<Rightarrow> nat \<times> s3err option) \<Rightarrow> gostring \<Rightarrow> gostring \<Rightarrow> gostring \<Rightarrow> nat call" where
  "GetObject v copy bucket key versionID =
     call v (bodyless ''GET'' (url (v_cfg v) bucket key (versionQuery versionID)))
       (\<lambda>resp. case copy resp of
          (n, None) \<Rightarrow> Inr n
        | (n, Some e) \<Rightarrow> Inl (ErrWrap (''reading '' @ bucket @ ''/'' @ key @ '': '') e))"

definition DeleteObject :: "s3Env \<Rightarrow> gostring \<Rightarrow> gostring \<Rightarrow> gostring \<Rightarrow> unit call" where
  "DeleteObject v bucket key versionID =
     call v (bodyless ''DELETE'' (url (v_cfg v) bucket key (versionQuery versionID))) drainBody"

text \<open>A seekable source: its bytes, its position, and the errors of telling, reading and rewinding it.\<close>

record seeker =
  sk_data :: gostring
  sk_pos :: nat
  sk_tell :: "s3err option"
  sk_read :: "s3err option"
  sk_rewind :: "s3err option"

definition hashSeeker :: "s3Env \<Rightarrow> seeker \<Rightarrow> s3err + gostring" where
  "hashSeeker v r =
     (case sk_tell r of
        Some e \<Rightarrow> Inl (ErrWrap ''seeking upload source: '' e)
      | None \<Rightarrow> (case sk_read r of
          Some e \<Rightarrow> Inl (ErrWrap ''hashing upload source: '' e)
        | None \<Rightarrow> (case sk_rewind r of
            Some e \<Rightarrow> Inl (ErrWrap ''rewinding upload source: '' e)
          | None \<Rightarrow> Inr (v_sha v (drop (sk_pos r) (sk_data r))))))"

definition putInfo :: "gostring \<Rightarrow> gostring \<Rightarrow> int \<Rightarrow> gostring \<Rightarrow> response \<Rightarrow> objectInfo" where
  "putInfo bucket key sz contentType resp =
     (newInfo bucket key)\<lparr>oi_Size := sz, oi_ETag := trimQuotes (getHeader ''ETag'' resp), oi_ContentType := contentType\<rparr>"

definition PutObject :: "s3Env \<Rightarrow> gostring \<Rightarrow> gostring \<Rightarrow> seeker \<Rightarrow> int \<Rightarrow> gostring \<Rightarrow> objectInfo call" where
  "PutObject v bucket key body sz contentType is =
     (case hashSeeker v body of
        Inl e \<Rightarrow> ([], Some (Inl e))
      | Inr hash \<Rightarrow>
          s3do \<lparr>en_cfg = v_cfg v, en_sha = v_sha v, en_hmac = v_hmac v, en_xmlErr = v_xmlErr v,
                en_req = \<lparr>rq_method = ''PUT'', rq_url = url (v_cfg v) bucket key [], rq_body = Some (sk_data body),
                  rq_payloadHash = hash, rq_size = sz,
                  rq_header = (if contentType \<noteq> [] then [(hdrContentType, contentType)] else [])\<rparr>,
                en_sink = (\<lambda>resp. Inr (putInfo bucket key sz contentType resp))\<rparr> (Inr (sk_pos body)) is)"

section \<open>Copying\<close>

record objectRef =
  or_Bucket :: gostring
  or_Key :: gostring

definition refString :: "objectRef \<Rightarrow> gostring" where
  "refString r = or_Bucket r @ ''/'' @ or_Key r"

definition copySource :: "objectRef \<Rightarrow> gostring \<Rightarrow> gostring" where
  "copySource src versionID =
     (let source = ''/'' @ or_Bucket src @ ''/'' @ trimPrefix (or_Key src) ''/'';
          source = (if versionID \<noteq> [] then source @ ''?versionId='' @ uriEncode versionID False else source)
      in uriEncode source True)"

text \<open>
  \<open>errorDoc\<close> decodes a payload as an error document: \<^const>\<open>None\<close> when its root is not \<^verbatim>\<open>Error\<close>, otherwise
  the text of its code.
\<close>

definition errorCodeInBody :: "(gostring \<Rightarrow> gostring option) \<Rightarrow> gostring \<Rightarrow> gostring" where
  "errorCodeInBody errorDoc payload =
     (case errorDoc payload of None \<Rightarrow> [] | Some code \<Rightarrow> if code = [] then ''InternalError'' else code)"

text \<open>
  The sink shared by a copy and a multipart completion: at most \<^verbatim>\<open>errorBodyLimit\<close> bytes are read, an
  error document inside the success is an error, and the rest is decoded.
\<close>

definition lateErrorSink :: "(gostring \<Rightarrow> gostring option) \<Rightarrow> (gostring \<Rightarrow> s3err + 'a) \<Rightarrow> gostring \<Rightarrow> gostring \<Rightarrow> gostring \<Rightarrow>
    response \<Rightarrow> s3err + 'a" where
  "lateErrorSink errorDoc decode message method path resp =
     (let payload = take errorBodyLimit (rs_Body resp); code = errorCodeInBody errorDoc payload in
      if code \<noteq> [] then
        Inl (ErrAPI \<lparr>ae_StatusCode = rs_StatusCode resp, ae_Code = code, ae_Message = message, ae_Resource = [],
               ae_RequestID = [], ae_Method = method, ae_Path = path\<rparr>)
      else decode payload)"

definition CopyObject :: "s3Env \<Rightarrow> (gostring \<Rightarrow> gostring option) \<Rightarrow> (gostring \<Rightarrow> s3err + (gostring \<times> gostring)) \<Rightarrow>
    objectRef \<Rightarrow> objectRef \<Rightarrow> gostring \<Rightarrow> gostring \<Rightarrow> objectInfo call" where
  "CopyObject v errorDoc decode src dst versionID contentType is =
     (let u = url (v_cfg v) (or_Bucket dst) (or_Key dst) [];
          hdr = (''x-amz-copy-source'', copySource src versionID) #
            (if contentType \<noteq> [] then [(hdrContentType, contentType), (''x-amz-metadata-directive'', ''REPLACE'')] else []);
          finish = (\<lambda>(etag, modified). (newInfo (or_Bucket dst) (or_Key dst))\<lparr>oi_ETag := trimQuotes etag,
             oi_LastModified := parseS3Time v modified, oi_ContentType := contentType\<rparr>)
      in map_prod id (map_option (map_sum
             (ErrWrap (''copying '' @ refString src @ '' to '' @ refString dst @ '': '')) finish))
           (call v ((bodyless ''PUT'' u)\<lparr>rq_header := hdr\<rparr>)
             (lateErrorSink errorDoc decode ''copy was refused after the request was accepted'' ''PUT'' (u_Path u)) is))"

section \<open>Batch deletion\<close>

definition MaxDeleteBatch :: nat where "MaxDeleteBatch = 1000"

record deleteTarget =
  dt_Key :: gostring
  dt_VersionID :: gostring

record deleteError = deleteTarget +
  de_Code :: gostring
  de_Message :: gostring

definition DeleteObjects :: "s3Env \<Rightarrow> (deleteTarget list \<Rightarrow> gostring) \<Rightarrow> (gostring \<Rightarrow> s3err + deleteError list) \<Rightarrow>
    gostring \<Rightarrow> deleteTarget list \<Rightarrow> deleteError list call" where
  "DeleteObjects v marshal decode bucket targets is =
     (if targets = [] then ([], Some (Inr []))
      else if length targets > MaxDeleteBatch then
        ([], Some (Inl (ErrText (''a batch delete takes at most 1000 keys, got '' @ itoa (int (length targets))))))
      else let body = marshal targets in
        mapErr (ErrWrap (''deleting '' @ itoa (int (length targets)) @ '' objects from '' @ bucket @ '': ''))
          (call v (withBody v ''POST'' (url (v_cfg v) bucket [] [(''delete'', [[]])]) body
              [(hdrContentType, ''application/xml''), (''Content-MD5'', contentMD5 v body)])
            (\<lambda>resp. decode (take errorBodyLimit (rs_Body resp))) is))"

section \<open>Redirects\<close>

definition maxRedirects :: nat where "maxRedirects = 5"

definition credentialHeaders :: "gostring list" where
  "credentialHeaders = [''Authorization'', ''Proxy-Authorization'', ''Cookie'', ''X-Amz-Date'', ''X-Amz-Content-Sha256'',
     ''X-Amz-Security-Token'']"

definition delHeader :: "gostring \<Rightarrow> header \<Rightarrow> header" where
  "delHeader k h = filter (\<lambda>e. fst e \<noteq> k) h"

definition sameHostRedirect :: "httpRequest \<Rightarrow> httpRequest list \<Rightarrow> s3err + httpRequest" where
  "sameHostRedirect req via =
     (if length via \<ge> maxRedirects then Inl (ErrText ''stopped after 5 redirects'')
      else if u_Host (q_URL req) = u_Host (q_URL (hd via)) then Inr req
      else Inr (req\<lparr>q_Header := fold delHeader credentialHeaders (q_Header req)\<rparr>))"

section \<open>Every attempt of an upload carries the bytes its signature covers\<close>

lemma setHeader_get [simp]: "map_of (setHeader k v h) k' = (if k' = k then Some [v] else map_of h k')"
  by (induction h) (auto simp: setHeader_def)

lemma sign_payload: "map_of (q_Header (sign sha hmac cfg req hash now)) ''X-Amz-Content-Sha256'' = Some [hash]"
  by (simp add: sign_def Let_def case_prod_unfold)

lemma doLoop_signed:
  "doLoop g start n pos is = (log, res) \<Longrightarrow> \<not> c_Anonymous (en_cfg g) \<Longrightarrow>
     list_all (\<lambda>s. map_of (q_Header (st_request s)) ''X-Amz-Content-Sha256'' = Some [rq_payloadHash (en_req g)]) log"
proof (induction "is" arbitrary: n pos log res)
  case (Cons i "is")
  have signed: "list_all (\<lambda>s. map_of (q_Header (st_request s)) ''X-Amz-Content-Sha256'' = Some [rq_payloadHash (en_req g)]) l"
    if "attempt g i p = (l, r)" for p l r
    using that Cons.prems(2) by (auto simp: attempt_def Let_def sign_payload split: option.splits sum.splits if_splits)
  from Cons.prems(1) show ?case
    by (cases rule: doLoop_step) (use signed Cons.IH Cons.prems(2) in auto)
qed auto

text \<open>
  However often an upload is retried, every attempt sends the object from the source's position
  on, and the payload hash in its signed headers is the hash of exactly the bytes it sends.
\<close>

lemma upload_attempts_carry_signed_bytes:
  assumes "\<not> c_Anonymous (v_cfg v)" and "PutObject v bucket key body sz contentType is = (log, res)"
  shows "\<forall>s \<in> set log. st_body s = Some (drop (sk_pos body) (sk_data body))
    \<and> map_of (q_Header (st_request s)) ''X-Amz-Content-Sha256'' = Some [v_sha v (the (st_body s))]"
proof (cases "hashSeeker v body")
  case (Inr hash)
  then have hash: "hash = v_sha v (drop (sk_pos body) (sk_data body))"
    by (auto simp: hashSeeker_def split: option.splits)
  let ?g = "\<lparr>en_cfg = v_cfg v, en_sha = v_sha v, en_hmac = v_hmac v, en_xmlErr = v_xmlErr v,
      en_req = \<lparr>rq_method = ''PUT'', rq_url = url (v_cfg v) bucket key [], rq_body = Some (sk_data body),
        rq_payloadHash = hash, rq_size = sz,
        rq_header = (if contentType \<noteq> [] then [(hdrContentType, contentType)] else [])\<rparr>,
      en_sink = (\<lambda>resp. Inr (putInfo bucket key sz contentType resp))\<rparr>"
  have "doLoop ?g (sk_pos body) 0 (sk_pos body) is = (log, res)"
    using assms(2) Inr by (simp add: PutObject_def s3do_def bodyOffset_def)
  from doLoop_body [OF this] doLoop_signed [OF this] assms(1) hash show ?thesis
    by (auto simp: list_all_iff)
qed (use assms(2) in \<open>simp add: PutObject_def\<close>)

definition sampleEnv :: s3Env where
  "sampleEnv = \<lparr>v_cfg = sampleCfg, v_sha = id, v_hmac = (\<lambda>k. id), v_md5 = id, v_xmlErr = (\<lambda>b. None),
     v_parseTime = (\<lambda>l s. None), v_parseHTTPTime = (\<lambda>s. None), v_parseInt = (\<lambda>s. None)\<rparr>"

lemma upload_attempts_carry_signed_bytes_witness:
  "list_all (\<lambda>s. st_body s = Some ''ata'')
     (fst (PutObject sampleEnv ''b'' ''k'' \<lparr>sk_data = ''data'', sk_pos = 1, sk_tell = None, sk_read = None, sk_rewind = None\<rparr>
       3 [] [sampleAttempt 503, sampleAttempt 200]))"
  using upload_attempts_carry_signed_bytes [of sampleEnv "''b''" "''k''"
      "\<lparr>sk_data = ''data'', sk_pos = 1, sk_tell = None, sk_read = None, sk_rewind = None\<rparr>" 3 "[]"
      "[sampleAttempt 503, sampleAttempt 200]"]
  by (simp add: sampleEnv_def sampleCfg_def prod_eq_iff list_all_iff)

section \<open>Failures inside a success\<close>

lemma newRequest_url: "u_RawQuery (c_base cfg) = [] \<Longrightarrow> \<exists>req. newRequest method (url cfg bucket key q) hdr = Some req"
  using reparse_url [of cfg bucket key q] by (auto simp: newRequest_def Let_def)

lemma call_first_accepted:
  assumes "u_RawQuery (c_base (v_cfg v)) = []" and "rq_url req = url (v_cfg v) bucket key q"
    and "ai_http i = Inr resp" and "200 \<le> rs_StatusCode resp" and "rs_StatusCode resp < 300"
  shows "\<exists>s. call v req sink (i # is) = ([s], Some (case sink resp of Inl e \<Rightarrow> Inl e | Inr x \<Rightarrow> Inr x))"
proof -
  obtain r where "newRequest (rq_method req) (url (v_cfg v) bucket key q) (rq_header req) = Some r"
    using newRequest_url [OF assms(1)] by blast
  then show ?thesis using assms(2-)
    by (cases "rq_body req") (auto simp: call_def s3do_def bodyOffset_def attempt_def Let_def retryable_def unwrapSink_def
        split: sum.splits)
qed

lemma lateErrorSink_error:
  assumes "errorDoc (take errorBodyLimit (rs_Body resp)) = Some code"
  shows "\<exists>e. lateErrorSink errorDoc decode message method path resp = Inl e
    \<and> ErrorCode e = (if code = [] then ''InternalError'' else code)"
  using assms by (auto simp: lateErrorSink_def errorCodeInBody_def ErrorCode_def Let_def)

text \<open>
  A copy that fails inside a success is reported, and not retried: when the accepted response
  carries an error document, the call sends one request and returns an error with the document's
  code.
\<close>

lemma copy_reports_late_errors:
  assumes "u_RawQuery (c_base (v_cfg v)) = []" and "ai_http i = Inr resp"
    and "200 \<le> rs_StatusCode resp" and "rs_StatusCode resp < 300"
    and "errorDoc (take errorBodyLimit (rs_Body resp)) = Some code"
  shows "\<exists>s e. CopyObject v errorDoc decode src dst versionID contentType (i # is) = ([s], Some (Inl e))
    \<and> ErrorCode e = (if code = [] then ''InternalError'' else code)"
proof -
  let ?u = "url (v_cfg v) (or_Bucket dst) (or_Key dst) []"
  let ?sink = "lateErrorSink errorDoc decode ''copy was refused after the request was accepted'' ''PUT'' (u_Path ?u)"
  let ?hdr = "(''x-amz-copy-source'', copySource src versionID) #
      (if contentType \<noteq> [] then [(hdrContentType, contentType), (''x-amz-metadata-directive'', ''REPLACE'')] else [])"
  obtain e where e: "?sink resp = Inl e" "ErrorCode e = (if code = [] then ''InternalError'' else code)"
    using lateErrorSink_error [of errorDoc resp code, OF assms(5)] by blast
  obtain s where "call v ((bodyless ''PUT'' ?u)\<lparr>rq_header := ?hdr\<rparr>) ?sink (i # is) = ([s], Some (Inl e))"
    using call_first_accepted [OF assms(1) _ assms(2,3,4), of "(bodyless ''PUT'' ?u)\<lparr>rq_header := ?hdr\<rparr>"
        "or_Bucket dst" "or_Key dst" "[]" ?sink "is"] e(1) by (auto simp: bodyless_def)
  then show ?thesis using e(2) unfolding CopyObject_def Let_def by (simp add: ErrorCode_def)
qed

lemma copy_reports_late_errors_witness:
  "\<exists>s e. CopyObject sampleEnv (\<lambda>b. Some ''SlowDown'') (\<lambda>b. Inr ([], [])) \<lparr>or_Bucket = ''b'', or_Key = ''k''\<rparr>
       \<lparr>or_Bucket = ''b'', or_Key = ''l''\<rparr> [] [] [sampleAttempt 200, sampleAttempt 200] = ([s], Some (Inl e))
     \<and> ErrorCode e = ''SlowDown''"
  using copy_reports_late_errors [of sampleEnv "sampleAttempt 200"
      "\<lparr>rs_StatusCode = 200, rs_Header = [], rs_ContentLength = 0, rs_Body = []\<rparr>" "\<lambda>b. Some ''SlowDown''" "''SlowDown''"
      "\<lambda>b. Inr ([], [])" "\<lparr>or_Bucket = ''b'', or_Key = ''k''\<rparr>" "\<lparr>or_Bucket = ''b'', or_Key = ''l''\<rparr>" "[]" "[]" "[sampleAttempt 200]"]
  by (simp add: sampleEnv_def sampleCfg_def sampleAttempt_def)

section \<open>The source version of a copy\<close>

lemma trimPrefix_slash: "trimPrefix (k @ CHR ''?'' # t) ''/'' = trimPrefix k ''/'' @ CHR ''?'' # t"
  by (cases k) (auto simp: trimPrefix_def hasPrefix_def)

text \<open>
  The version of a copy's source is lost: the query that names it is percent-encoded together
  with the path, so the header contains no query at all and is the one an unversioned copy of a
  key that ends in the text of that query would send.
\<close>

lemma copy_source_version_is_part_of_the_key:
  assumes "versionID \<noteq> []"
  shows "CHR ''?'' \<notin> set (copySource src versionID)
    \<and> copySource src versionID = copySource (src\<lparr>or_Key := or_Key src @ ''?versionId='' @ uriEncode versionID False\<rparr>) []"
  using assms by (simp add: copySource_def Let_def uriEncode_no_special trimPrefix_slash)

lemma copy_source_version_is_part_of_the_key_witness:
  "copySource \<lparr>or_Bucket = ''b'', or_Key = ''k''\<rparr> ''v7'' = copySource \<lparr>or_Bucket = ''b'', or_Key = ''k?versionId=v7''\<rparr> []"
proof -
  have "uriEncode ''v7'' False = ''v7''" by (rule uriEncode_unreserved) (simp add: unreserved_def isAlnum_def byte_def)
  then show ?thesis
    using copy_source_version_is_part_of_the_key [of "''v7''" "\<lparr>or_Bucket = ''b'', or_Key = ''k''\<rparr>"] by simp
qed

section \<open>Redirects do not carry credentials away\<close>

lemma fold_delHeader: "fold delHeader ks h = filter (\<lambda>e. fst e \<notin> set ks) h"
  by (induction ks arbitrary: h) (auto simp: delHeader_def intro: filter_cong)

text \<open>
  A followed redirect keeps the credentials only on the host they were signed for: on the
  original host the request is unchanged, on any other host every credential header is gone and
  every other header is kept, and a sixth hop is refused.
\<close>

lemma redirects_drop_credentials:
  assumes "via \<noteq> []"
  shows "case sameHostRedirect req via of
      Inl e \<Rightarrow> maxRedirects \<le> length via
    | Inr req' \<Rightarrow> length via < maxRedirects
        \<and> (if u_Host (q_URL req) = u_Host (q_URL (hd via)) then req' = req
           else (\<forall>k. map_of (q_Header req') k = (if k \<in> set credentialHeaders then None else map_of (q_Header req) k)))"
proof -
  have "map_of (filter (\<lambda>e. fst e \<notin> K) h) k = (if k \<in> K then None else map_of h k)" for K and h :: header and k
    by (induction h) auto
  then show ?thesis by (auto simp: sameHostRedirect_def fold_delHeader)
qed

definition sampleHop :: "gostring \<Rightarrow> httpRequest" where
  "sampleHop host = \<lparr>q_Method = ''GET'', q_URL = (c_base sampleCfg)\<lparr>u_Host := host\<rparr>, q_Host = host,
     q_Header = [(''Authorization'', [''secret'']), (''Range'', [''bytes=0-1''])]\<rparr>"

lemma redirects_drop_credentials_witness:
  "case sameHostRedirect (sampleHop ''evil'') [sampleHop ''s3.local''] of
     Inl e \<Rightarrow> False | Inr req' \<Rightarrow> map_of (q_Header req') ''Authorization'' = None"
  using redirects_drop_credentials [of "[sampleHop ''s3.local'']" "sampleHop ''evil''"]
  by (auto simp: sampleHop_def maxRedirects_def credentialHeaders_def split: sum.splits)

end
