(* ===== verification/S3_List.thy ===== *)
theory S3_List
  imports S3_Calls
begin

text \<open>
  The paged listings of \<^verbatim>\<open>src/internal/s3/s3.go\<close> and \<^verbatim>\<open>versioning.go\<close>. A listing is a walk over pages:
  each page is one \<^verbatim>\<open>getXML\<close> call, its entries go to a callback until the limit is reached, and the
  next request follows the page's continuation. The callback threads a state of its own; the
  inputs of a walk are the inputs of its requests, one list of attempts per page.
\<close>

section \<open>Pages and objects\<close>

record s3Object =
  ob_Key :: gostring
  ob_Size :: int
  ob_LastModified :: int
  ob_ETag :: gostring
  ob_StorageClass :: gostring
  ob_IsPrefix :: bool
  ob_VersionID :: gostring
  ob_IsLatest :: bool
  ob_DeleteMarker :: bool

definition newObject :: "gostring \<Rightarrow> s3Object" where
  "newObject key = \<lparr>ob_Key = key, ob_Size = 0, ob_LastModified = zeroTime, ob_ETag = [], ob_StorageClass = [],
     ob_IsPrefix = False, ob_VersionID = [], ob_IsLatest = False, ob_DeleteMarker = False\<rparr>"

record contentEntry =
  ce_Key :: gostring
  ce_Size :: int
  ce_LastModified :: gostring
  ce_ETag :: gostring
  ce_StorageClass :: gostring

record versionEntry = contentEntry +
  ve_VersionID :: gostring
  ve_IsLatest :: bool

record markerEntry =
  me_Key :: gostring
  me_VersionID :: gostring
  me_IsLatest :: bool
  me_LastModified :: gostring

record listObjectsPage =
  lp_IsTruncated :: bool
  lp_NextContinuationToken :: gostring
  lp_Contents :: "contentEntry list"
  lp_CommonPrefixes :: "gostring list"

record listVersionsPage =
  vp_IsTruncated :: bool
  vp_NextKeyMarker :: gostring
  vp_NextVersionIDMarker :: gostring
  vp_Versions :: "versionEntry list"
  vp_DeleteMarkers :: "markerEntry list"
  vp_CommonPrefixes :: "gostring list"

record listOptions =
  lo_Prefix :: gostring
  lo_Delimiter :: gostring
  lo_Limit :: int
  lo_Versions :: bool

definition maxKeysPerPage :: int where "maxKeysPerPage = 1000"

definition pageSize :: "int \<Rightarrow> int \<Rightarrow> int" where
  "pageSize limit have =
     (if limit \<le> 0 \<or> limit - have > maxKeysPerPage then maxKeysPerPage else limit - have)"

section \<open>One page\<close>

type_synonym 's callback = "s3Object \<Rightarrow> 's \<Rightarrow> s3err option \<times> 's"

text \<open>
  One loop over entries: how many have been seen, the callback's state, whether the limit was
  reached, and the error that stopped the walk.
\<close>

fun emitLoop :: "int \<Rightarrow> 's callback \<Rightarrow> s3Object list \<Rightarrow> nat \<Rightarrow> 's \<Rightarrow> nat \<times> 's \<times> bool \<times> s3err option" where
  "emitLoop limit fn [] seen s = (seen, s, False, None)"
| "emitLoop limit fn (ob # obs) seen s =
     (case fn ob s of
        (Some e, s') \<Rightarrow> (seen, s', False, Some e)
      | (None, s') \<Rightarrow>
          if limit > 0 \<and> int (Suc seen) \<ge> limit then (Suc seen, s', True, None)
          else emitLoop limit fn obs (Suc seen) s')"

definition prefixObject :: "gostring \<Rightarrow> s3Object" where
  "prefixObject p = (newObject p)\<lparr>ob_IsPrefix := True\<rparr>"

definition contentObject :: "s3Env \<Rightarrow> contentEntry \<Rightarrow> s3Object" where
  "contentObject v c = (newObject (ce_Key c))\<lparr>ob_Size := ce_Size c, ob_LastModified := parseS3Time v (ce_LastModified c),
     ob_ETag := trimQuotes (ce_ETag c), ob_StorageClass := ce_StorageClass c, ob_IsLatest := True\<rparr>"

definition emitPage :: "s3Env \<Rightarrow> listObjectsPage \<Rightarrow> int \<Rightarrow> 's callback \<Rightarrow> nat \<Rightarrow> 's \<Rightarrow> nat \<times> 's \<times> bool \<times> s3err option" where
  "emitPage v page limit fn seen s =
     (case emitLoop limit fn (map prefixObject (lp_CommonPrefixes page)) seen s of
        (seen', s', done, err) \<Rightarrow>
          if err \<noteq> None \<or> done then (seen', s', done, err)
          else emitLoop limit fn (map (contentObject v) (lp_Contents page)) seen' s')"

section \<open>Listing current objects\<close>

definition setIf :: "gostring \<Rightarrow> gostring \<Rightarrow> urlValues \<Rightarrow> urlValues" where
  "setIf k val q = (if val \<noteq> [] then setValue k val q else q)"

definition listObjectsQuery :: "listOptions \<Rightarrow> gostring \<Rightarrow> nat \<Rightarrow> urlValues" where
  "listObjectsQuery opts token seen =
     setIf ''continuation-token'' token (setIf ''delimiter'' (lo_Delimiter opts) (setIf ''prefix'' (lo_Prefix opts)
       [(''list-type'', [''2'']), (''max-keys'', [itoa (pageSize (lo_Limit opts) (int seen))])]))"

text \<open>
  The loops return the URLs requested, the callback's state and the outcome: \<^const>\<open>None\<close> while the
  listing has not returned, \<open>Some err\<close> with the error it returned, if any.
\<close>

type_synonym 's walk = "goURL list \<times> 's \<times> s3err option option"

fun listLoop :: "s3Env \<Rightarrow> (gostring \<Rightarrow> s3err + listObjectsPage) \<Rightarrow> gostring \<Rightarrow> listOptions \<Rightarrow> 's callback \<Rightarrow>
    gostring \<Rightarrow> nat \<Rightarrow> 's \<Rightarrow> attemptIn list list \<Rightarrow> 's walk" where
  "listLoop v decode bucket opts fn token seen s [] = ([], s, None)"
| "listLoop v decode bucket opts fn token seen s (i # is) =
     (let u = url (v_cfg v) bucket [] (listObjectsQuery opts token seen) in
      case snd (getXML v u decode i) of
        None \<Rightarrow> ([u], s, None)
      | Some (Inl e) \<Rightarrow> ([u], s, Some (Some e))
      | Some (Inr page) \<Rightarrow>
          (case emitPage v page (lo_Limit opts) fn seen s of
             (seen', s', done, err) \<Rightarrow>
               if err \<noteq> None \<or> done then ([u], s', Some err)
               else if \<not> lp_IsTruncated page \<or> lp_NextContinuationToken page = [] then ([u], s', Some None)
               else (case listLoop v decode bucket opts fn (lp_NextContinuationToken page) seen' s' is of
                       (us, r) \<Rightarrow> (u # us, r))))"

section \<open>Listing versions\<close>

definition versionObject :: "s3Env \<Rightarrow> versionEntry \<Rightarrow> s3Object" where
  "versionObject v e = (newObject (ce_Key e))\<lparr>ob_Size := ce_Size e, ob_LastModified := parseS3Time v (ce_LastModified e),
     ob_ETag := trimQuotes (ce_ETag e), ob_StorageClass := ce_StorageClass e, ob_VersionID := ve_VersionID e,
     ob_IsLatest := ve_IsLatest e\<rparr>"

definition markerObject :: "s3Env \<Rightarrow> markerEntry \<Rightarrow> s3Object" where
  "markerObject v d = (newObject (me_Key d))\<lparr>ob_LastModified := parseS3Time v (me_LastModified d),
     ob_VersionID := me_VersionID d, ob_IsLatest := me_IsLatest d, ob_DeleteMarker := True\<rparr>"

text \<open>\<^verbatim>\<open>sort.SliceStable\<close> by key and then newest first.\<close>

definition versionEntries :: "s3Env \<Rightarrow> listVersionsPage \<Rightarrow> s3Object list" where
  "versionEntries v page =
     map prefixObject (vp_CommonPrefixes page)
     @ sort_key (\<lambda>ob. (ob_Key ob, - ob_LastModified ob))
         (map (versionObject v) (vp_Versions page) @ map (markerObject v) (vp_DeleteMarkers page))"

definition listVersionsQuery :: "listOptions \<Rightarrow> gostring \<times> gostring \<Rightarrow> nat \<Rightarrow> urlValues" where
  "listVersionsQuery opts markers seen =
     setIf ''version-id-marker'' (snd markers) (setIf ''key-marker'' (fst markers)
       (setIf ''delimiter'' (lo_Delimiter opts) (setIf ''prefix'' (lo_Prefix opts)
         [(''versions'', [[]]), (''max-keys'', [itoa (pageSize (lo_Limit opts) (int seen))])])))"

fun versionsLoop :: "s3Env \<Rightarrow> (gostring \<Rightarrow> s3err + listVersionsPage) \<Rightarrow> gostring \<Rightarrow> listOptions \<Rightarrow> 's callback \<Rightarrow>
    gostring \<times> gostring \<Rightarrow> nat \<Rightarrow> 's \<Rightarrow> attemptIn list list \<Rightarrow> 's walk" where
  "versionsLoop v decode bucket opts fn markers seen s [] = ([], s, None)"
| "versionsLoop v decode bucket opts fn markers seen s (i # is) =
     (let u = url (v_cfg v) bucket [] (listVersionsQuery opts markers seen) in
      case snd (getXML v u decode i) of
        None \<Rightarrow> ([u], s, None)
      | Some (Inl e) \<Rightarrow> ([u], s, Some (Some e))
      | Some (Inr page) \<Rightarrow>
          (case emitLoop (lo_Limit opts) fn (versionEntries v page) seen s of
             (seen', s', done, err) \<Rightarrow>
               if err \<noteq> None \<or> done then ([u], s', Some err)
               else if \<not> vp_IsTruncated page \<or> vp_NextKeyMarker page = [] \<and> vp_NextVersionIDMarker page = []
               then ([u], s', Some None)
               else (case versionsLoop v decode bucket opts fn (vp_NextKeyMarker page, vp_NextVersionIDMarker page) seen' s' is of
                       (us, r) \<Rightarrow> (u # us, r))))"

definition ListObjectsFunc :: "s3Env \<Rightarrow> (gostring \<Rightarrow> s3err + listObjectsPage) \<Rightarrow> (gostring \<Rightarrow> s3err + listVersionsPage) \<Rightarrow>
    gostring \<Rightarrow> listOptions \<Rightarrow> 's callback \<Rightarrow> 's \<Rightarrow> attemptIn list list \<Rightarrow> 's walk" where
  "ListObjectsFunc v decode decodeVersions bucket opts fn s is =
     (if lo_Versions opts then versionsLoop v decodeVersions bucket opts fn ([], []) 0 s is
      else listLoop v decode bucket opts fn [] 0 s is)"

definition collect :: "s3Object list callback" where
  "collect ob acc = (None, acc @ [ob])"

definition ListObjects :: "s3Env \<Rightarrow> (gostring \<Rightarrow> s3err + listObjectsPage) \<Rightarrow> (gostring \<Rightarrow> s3err + listVersionsPage) \<Rightarrow>
    gostring \<Rightarrow> listOptions \<Rightarrow> attemptIn list list \<Rightarrow> (s3err + s3Object list) option" where
  "ListObjects v decode decodeVersions bucket opts is =
     (case ListObjectsFunc v decode decodeVersions bucket opts collect [] is of
        (us, out, None) \<Rightarrow> None
      | (us, out, Some (Some e)) \<Rightarrow> Some (Inl e)
      | (us, out, Some None) \<Rightarrow> Some (Inr out))"

section \<open>A walk over pages collects the capped concatenation of their entries\<close>

definition capped :: "int \<Rightarrow> nat \<Rightarrow> 'a list \<Rightarrow> 'a list" where
  "capped limit seen xs = (if limit > 0 then take (nat limit - seen) xs else xs)"

text \<open>Pages of which exactly the last has no continuation.\<close>

fun linked :: "('p \<Rightarrow> 'c option) \<Rightarrow> 'p list \<Rightarrow> bool" where
  "linked follow [] = False"
| "linked follow [p] = (follow p = None)"
| "linked follow (p # q # ps) = (follow p \<noteq> None \<and> linked follow (q # ps))"

lemma emitLoop_collect:
  "limit > 0 \<longrightarrow> int seen < limit \<Longrightarrow>
   emitLoop limit collect xs seen s =
     (if limit > 0 \<and> int (seen + length xs) \<ge> limit then (nat limit, s @ take (nat limit - seen) xs, True, None)
      else (seen + length xs, s @ xs, False, None))"
proof (induction xs arbitrary: seen s)
  case (Cons x xs)
  show ?case
  proof (cases "limit > 0 \<and> int (Suc seen) \<ge> limit")
    case True
    then have "nat limit = Suc seen" using Cons.prems by linarith
    then show ?thesis using True by (simp add: collect_def)
  next
    case False
    then have "nat limit - seen = Suc (nat limit - Suc seen)" if "limit > 0" using that by linarith
    then show ?thesis using False Cons.IH [of "Suc seen" "s @ [x]"] by (auto simp: collect_def)
  qed
qed auto

locale paged_walk =
  fixes walk :: "'c \<Rightarrow> nat \<Rightarrow> s3Object list \<Rightarrow> 'i list \<Rightarrow> s3Object list walk"
    and answers :: "'i \<Rightarrow> 'p \<Rightarrow> bool"
    and entries :: "'p \<Rightarrow> s3Object list"
    and follow :: "'p \<Rightarrow> 'c option"
    and limit :: int
  assumes walk_page: "answers i p \<Longrightarrow>
      snd (walk c seen s (i # is)) =
        (case emitLoop limit collect (entries p) seen s of
           (seen', s', done, err) \<Rightarrow>
             if err \<noteq> None \<or> done then (s', Some err)
             else case follow p of None \<Rightarrow> (s', Some None) | Some c' \<Rightarrow> snd (walk c' seen' s' is))"
begin

lemma walk_collects:
  "list_all2 answers is ps \<Longrightarrow> linked follow ps \<Longrightarrow> limit > 0 \<longrightarrow> int seen < limit \<Longrightarrow>
   snd (walk c seen s is) = (s @ capped limit seen (concat (map entries ps)), Some None)"
proof (induction ps arbitrary: "is" c seen s)
  case (Cons p ps)
  then obtain i js where ij: "is = i # js" "answers i p" "list_all2 answers js ps" by (cases "is") auto
  note step = walk_page [OF ij(2)] emitLoop_collect [OF Cons.prems(3)]
  show ?case
  proof (cases "limit > 0 \<and> int (seen + length (entries p)) \<ge> limit")
    case True
    then have "nat limit \<le> seen + length (entries p)" by linarith
    then show ?thesis using True ij(1) by (simp add: step capped_def)
  next
    case False
    show ?thesis
    proof (cases "follow p")
      case None
      then have "ps = []" using Cons.prems(2) by (cases ps) auto
      then show ?thesis using None False ij(1) by (auto simp: step capped_def)
    next
      case (Some c')
      then have "linked follow ps" using Cons.prems(2) by (cases ps) auto
      then have "snd (walk c' (seen + length (entries p)) (s @ entries p) js)
          = ((s @ entries p) @ capped limit (seen + length (entries p)) (concat (map entries ps)), Some None)"
        using False by (intro Cons.IH [OF ij(3)]) auto
      then show ?thesis using Some False ij(1) by (auto simp: step capped_def)
    qed
  qed
qed simp

end

text \<open>An input that answers a page: the first attempt is accepted and its body decodes to the page.\<close>

definition answersPage :: "(gostring \<Rightarrow> s3err + 'p) \<Rightarrow> attemptIn list \<Rightarrow> 'p \<Rightarrow> bool" where
  "answersPage decode i p =
     (case i of [] \<Rightarrow> False
      | a # _ \<Rightarrow> (case ai_http a of Inl e \<Rightarrow> False
         | Inr resp \<Rightarrow> 200 \<le> rs_StatusCode resp \<and> rs_StatusCode resp < 300 \<and> decode (rs_Body resp) = Inr p))"

lemma getXML_answers:
  assumes "u_RawQuery (c_base (v_cfg v)) = []" and "answersPage decode i p"
  shows "snd (getXML v (url (v_cfg v) bucket key q) decode i) = Some (Inr p)"
proof -
  from assms(2) obtain a as resp where a: "i = a # as" "ai_http a = Inr resp" "200 \<le> rs_StatusCode resp"
      "rs_StatusCode resp < 300" "decode (rs_Body resp) = Inr p"
    by (auto simp: answersPage_def split: list.splits sum.splits)
  let ?u = "url (v_cfg v) bucket key q"
  have "rq_url (bodyless ''GET'' ?u) = ?u" by (simp add: bodyless_def)
  from call_first_accepted [OF assms(1) this a(2-4), of "\<lambda>resp. case decode (rs_Body resp) of
      Inl e \<Rightarrow> Inl (ErrWrap (''decoding S3 response from '' @ u_Path ?u @ '': '') e) | Inr x \<Rightarrow> Inr x" as]
  obtain s where "getXML v ?u decode (a # as) = ([s], Some (Inr p))"
    using a(5) unfolding getXML_def by auto
  then show ?thesis by (simp add: a(1))
qed

section \<open>Both listings are such walks\<close>

definition pageEntries :: "s3Env \<Rightarrow> listObjectsPage \<Rightarrow> s3Object list" where
  "pageEntries v page = map prefixObject (lp_CommonPrefixes page) @ map (contentObject v) (lp_Contents page)"

definition nextToken :: "listObjectsPage \<Rightarrow> gostring option" where
  "nextToken page =
     (if \<not> lp_IsTruncated page \<or> lp_NextContinuationToken page = [] then None else Some (lp_NextContinuationToken page))"

definition nextMarkers :: "listVersionsPage \<Rightarrow> (gostring \<times> gostring) option" where
  "nextMarkers page =
     (if \<not> vp_IsTruncated page \<or> vp_NextKeyMarker page = [] \<and> vp_NextVersionIDMarker page = [] then None
      else Some (vp_NextKeyMarker page, vp_NextVersionIDMarker page))"

lemma emitLoop_append:
  "emitLoop limit fn (xs @ ys) seen s =
     (case emitLoop limit fn xs seen s of
        (seen', s', done, err) \<Rightarrow> if err \<noteq> None \<or> done then (seen', s', done, err) else emitLoop limit fn ys seen' s')"
  by (induction limit fn xs seen s rule: emitLoop.induct) (auto split: prod.splits option.splits)

lemma emitPage_entries: "emitPage v page limit fn seen s = emitLoop limit fn (pageEntries v page) seen s"
  by (simp add: emitPage_def pageEntries_def emitLoop_append)

interpretation objects: paged_walk
  "\<lambda>c seen s is. if u_RawQuery (c_base (v_cfg v)) = [] then listLoop v decode bucket opts collect c seen s is
     else ([], s, None)"
  "\<lambda>i p. u_RawQuery (c_base (v_cfg v)) = [] \<and> answersPage decode i p"
  "pageEntries v" nextToken "lo_Limit opts"
  for v decode bucket opts
  by unfold_locales
    (auto simp: getXML_answers emitPage_entries nextToken_def Let_def split: prod.splits)

interpretation versions: paged_walk
  "\<lambda>c seen s is. if u_RawQuery (c_base (v_cfg v)) = [] then versionsLoop v decode bucket opts collect c seen s is
     else ([], s, None)"
  "\<lambda>i p. u_RawQuery (c_base (v_cfg v)) = [] \<and> answersPage decode i p"
  "versionEntries v" nextMarkers "lo_Limit opts"
  for v decode bucket opts
  by unfold_locales
    (auto simp: getXML_answers nextMarkers_def Let_def split: prod.splits)

text \<open>
  C26. A listing returns every entry of every page, in the order the pages have them, cut off at the
  limit: when each request is answered by a page and exactly the last page has no continuation,
  the result is the concatenation of the pages' entries (common prefixes before keys), or its
  first \<^verbatim>\<open>Limit\<close> entries when a limit is given, for current objects and for versions alike.
\<close>

theorem listing_is_capped_concatenation:
  assumes "u_RawQuery (c_base (v_cfg v)) = []"
  shows "(list_all2 (answersPage decode) is ps \<and> linked nextToken ps \<longrightarrow>
      ListObjects v decode decodeVersions bucket (opts\<lparr>lo_Versions := False\<rparr>) is
        = Some (Inr (capped (lo_Limit opts) 0 (concat (map (pageEntries v) ps)))))
    \<and> (list_all2 (answersPage decodeVersions) is qs \<and> linked nextMarkers qs \<longrightarrow>
      ListObjects v decode decodeVersions bucket (opts\<lparr>lo_Versions := True\<rparr>) is
        = Some (Inr (capped (lo_Limit opts) 0 (concat (map (versionEntries v) qs)))))"
  using objects.walk_collects [of v decode "is" ps "opts\<lparr>lo_Versions := False\<rparr>" 0 bucket "[]" "[]"]
    versions.walk_collects [of v decodeVersions "is" qs "opts\<lparr>lo_Versions := True\<rparr>" 0 bucket "([], [])" "[]"] assms
  by (auto simp: ListObjects_def ListObjectsFunc_def split: prod.splits)

definition samplePage :: "gostring \<Rightarrow> s3err + listObjectsPage" where
  "samplePage body =
     (let keys = (\<lambda>k. \<lparr>ce_Key = k, ce_Size = 1, ce_LastModified = [], ce_ETag = [], ce_StorageClass = []\<rparr>) in
      Inr (if body = ''first'' then \<lparr>lp_IsTruncated = True, lp_NextContinuationToken = ''t'', lp_Contents = [keys ''a'', keys ''b''],
             lp_CommonPrefixes = [''p/'']\<rparr>
           else \<lparr>lp_IsTruncated = False, lp_NextContinuationToken = [], lp_Contents = [keys ''c'', keys ''d''], lp_CommonPrefixes = []\<rparr>))"

definition sampleBody :: "gostring \<Rightarrow> attemptIn" where
  "sampleBody body = (sampleAttempt 200)\<lparr>ai_http :=
     Inr \<lparr>rs_StatusCode = 200, rs_Header = [], rs_ContentLength = 0, rs_Body = body\<rparr>\<rparr>"

theorem listing_is_capped_concatenation_witness:
  "map_option (map_sum id (map ob_Key))
     (ListObjects sampleEnv samplePage (\<lambda>b. Inl (ErrText [])) ''b'' \<lparr>lo_Prefix = [], lo_Delimiter = ''/'', lo_Limit = 4, lo_Versions = False\<rparr>
       [[sampleBody ''first''], [sampleBody ''rest'']]) = Some (Inr [''p/'', ''a'', ''b'', ''c''])"
proof -
  let ?opts = "\<lparr>lo_Prefix = [], lo_Delimiter = ''/'', lo_Limit = 4, lo_Versions = False\<rparr>"
  have "ListObjects sampleEnv samplePage (\<lambda>b. Inl (ErrText [])) ''b'' (?opts\<lparr>lo_Versions := False\<rparr>)
      [[sampleBody ''first''], [sampleBody ''rest'']]
    = Some (Inr (capped 4 0 (concat (map (pageEntries sampleEnv) (map (projr \<circ> samplePage) [''first'', ''rest''])))))"
    using listing_is_capped_concatenation [of sampleEnv samplePage "[[sampleBody ''first''], [sampleBody ''rest'']]"
        "map (projr \<circ> samplePage) [''first'', ''rest'']" "\<lambda>b. Inl (ErrText [])" "''b''" ?opts]
    by (simp add: sampleEnv_def sampleCfg_def answersPage_def sampleBody_def samplePage_def nextToken_def)
  then show ?thesis
    by (simp add: capped_def pageEntries_def samplePage_def prefixObject_def contentObject_def newObject_def)
qed

end
