(* ===== verification/S3_Filter.thy ===== *)
theory S3_Filter
  imports S3_List
begin

text \<open>
  How the commands of \<^verbatim>\<open>src/internal/cli/s3\<close> name what they act on: the references of \<^verbatim>\<open>client.go\<close>, and
  the globs and the \<^verbatim>\<open>--include\<close>/\<^verbatim>\<open>--exclude\<close> filter of \<^verbatim>\<open>filter.go\<close>. The last section has what every command
  that walks a listing relies on: the state a callback ends in is the fold of the callback over
  the entries that \<^const>\<open>ListObjects\<close> returns for the same answers.
\<close>

section \<open>References\<close>

definition parseRef :: "gostring \<Rightarrow> s3err + gostring \<times> gostring" where
  "parseRef ref =
     (let trimmed = trimPrefix (trimPrefix ref ''s3://'') ''/'';
          (bucket, key) = (case indexByte trimmed (CHR ''/'') of
             Some i \<Rightarrow> (take i trimmed, drop (i + 1) trimmed)
           | None \<Rightarrow> (trimmed, []))
      in if bucket = [] then Inl (ErrText (ref @ '' names no bucket: expected <bucket>/<key> or s3://<bucket>/<key>''))
         else Inr (bucket, key))"

definition parseBucketRef :: "gostring \<Rightarrow> s3err + gostring" where
  "parseBucketRef ref =
     (case parseRef ref of
        Inl e \<Rightarrow> Inl e
      | Inr (bucket, key) \<Rightarrow>
          if trimRightByte (trimLeftByte key (CHR ''/'')) (CHR ''/'') \<noteq> []
          then Inl (ErrText (ref @ '' names an object, not a bucket: expected <bucket> or s3://<bucket>''))
          else Inr bucket)"

definition parseObjectRef :: "gostring \<Rightarrow> s3err + gostring \<times> gostring" where
  "parseObjectRef ref =
     (case parseRef ref of
        Inl e \<Rightarrow> Inl e
      | Inr (bucket, key) \<Rightarrow>
          if key = [] then Inl (ErrText (ref @ '' names no object: expected <bucket>/<key>'')) else Inr (bucket, key))"

section \<open>Globs\<close>

text \<open>
  The anchored regular expression \<^verbatim>\<open>compileGlob\<close> builds has three kinds of parts, and its dot does not
  match a line feed. It is matched against runes: a byte that is not UTF-8 is read as the
  replacement character, in the pattern and in the key.
\<close>

datatype globItem = DotStar | Dot | Literal rune

type_synonym glob = "globItem list"

definition compileItem :: "rune \<Rightarrow> globItem" where
  "compileItem r = (if r = ''*'' then DotStar else if r = ''?'' then Dot else Literal r)"

definition compileGlob :: "gostring \<Rightarrow> glob" where
  "compileGlob pattern = map compileItem (runes pattern)"

definition lineFeed :: rune where "lineFeed = [CHR 0x0A]"

fun matchRunes :: "glob \<Rightarrow> rune list \<Rightarrow> bool" where
  "matchRunes [] rs \<longleftrightarrow> rs = []"
| "matchRunes (Literal c # g) rs \<longleftrightarrow> (case rs of [] \<Rightarrow> False | r # rs' \<Rightarrow> r = c \<and> matchRunes g rs')"
| "matchRunes (Dot # g) rs \<longleftrightarrow> (case rs of [] \<Rightarrow> False | r # rs' \<Rightarrow> r \<noteq> lineFeed \<and> matchRunes g rs')"
| "matchRunes (DotStar # g) [] \<longleftrightarrow> matchRunes g []"
| "matchRunes (DotStar # g) (r # rs) \<longleftrightarrow> matchRunes g (r # rs) \<or> r \<noteq> lineFeed \<and> matchRunes (DotStar # g) rs"

definition MatchString :: "glob \<Rightarrow> gostring \<Rightarrow> bool" where
  "MatchString g key = matchRunes g (runes key)"

definition isWild :: "char \<Rightarrow> bool" where
  "isWild c \<longleftrightarrow> c = CHR ''*'' \<or> c = CHR ''?''"

definition hasGlob :: "gostring \<Rightarrow> bool" where
  "hasGlob ref = list_ex isWild ref"

definition globPrefix :: "gostring \<Rightarrow> gostring" where
  "globPrefix pattern = takeWhile (\<lambda>c. \<not> isWild c) pattern"

section \<open>The filter\<close>

record keyFilter =
  kf_include :: "gostring list"
  kf_exclude :: "gostring list"
  kf_cinclude :: "glob list"
  kf_cexclude :: "glob list"

definition newFilter :: "gostring list \<Rightarrow> gostring list \<Rightarrow> keyFilter" where
  "newFilter inc exc = \<lparr>kf_include = inc, kf_exclude = exc, kf_cinclude = [], kf_cexclude = []\<rparr>"

text \<open>Every pattern is a well-formed regular expression once quoted, so compiling does not fail.\<close>

definition compileGlobs :: "gostring list \<Rightarrow> glob list" where
  "compileGlobs pats = map compileGlob pats"

definition compileFilter :: "keyFilter \<Rightarrow> keyFilter" where
  "compileFilter f = f\<lparr>kf_cinclude := compileGlobs (kf_include f), kf_cexclude := compileGlobs (kf_exclude f)\<rparr>"

definition filterActive :: "keyFilter \<Rightarrow> bool" where
  "filterActive f \<longleftrightarrow> length (kf_include f) > 0 \<or> length (kf_exclude f) > 0"

definition matchesAny :: "glob list \<Rightarrow> gostring \<Rightarrow> bool" where
  "matchesAny pats key = list_ex (\<lambda>p. MatchString p key) pats"

definition filterMatch :: "keyFilter \<Rightarrow> gostring \<Rightarrow> bool" where
  "filterMatch f key =
     (if length (kf_cinclude f) > 0 \<and> \<not> matchesAny (kf_cinclude f) key then False
      else \<not> matchesAny (kf_cexclude f) key)"

text \<open>The matcher of a reference that may be a wildcard: \<^const>\<open>None\<close> when it is a plain prefix.\<close>

definition refGlob :: "gostring \<Rightarrow> glob option" where
  "refGlob pattern = (if hasGlob pattern then Some (compileGlob pattern) else None)"

definition selects :: "glob option \<Rightarrow> keyFilter \<Rightarrow> gostring \<Rightarrow> bool" where
  "selects g f key = (if (case g of None \<Rightarrow> False | Some p \<Rightarrow> \<not> MatchString p key) then False else filterMatch f key)"

section \<open>What a glob matches\<close>

text \<open>The reference semantics: one piece of the key for each part of the glob.\<close>

fun itemMatches :: "globItem \<Rightarrow> rune list \<Rightarrow> bool" where
  "itemMatches (Literal c) rs \<longleftrightarrow> rs = [c]"
| "itemMatches Dot rs \<longleftrightarrow> length rs = 1 \<and> lineFeed \<notin> set rs"
| "itemMatches DotStar rs \<longleftrightarrow> lineFeed \<notin> set rs"

definition globMeans :: "glob \<Rightarrow> rune list \<Rightarrow> bool" where
  "globMeans g rs \<longleftrightarrow> (\<exists>pieces. list_all2 itemMatches g pieces \<and> concat pieces = rs)"

lemma globMeans_Nil [simp]: "globMeans [] rs \<longleftrightarrow> rs = []"
  by (auto simp: globMeans_def)

lemma globMeans_Cons: "globMeans (i # g) rs \<longleftrightarrow> (\<exists>p rest. rs = p @ rest \<and> itemMatches i p \<and> globMeans g rest)"
  unfolding globMeans_def list_all2_Cons1 by (metis concat.simps(2))

lemma matchRunes_means: "matchRunes g rs \<longleftrightarrow> globMeans g rs"
proof (induction g rs rule: matchRunes.induct)
  case (2 c g rs)
  then show ?case by (cases rs) (auto simp: globMeans_Cons)
next
  case (3 g rs)
  show ?case
  proof (cases rs)
    case (Cons r rs')
    have "(\<exists>p rest. r # rs' = p @ rest \<and> itemMatches Dot p \<and> globMeans g rest) \<longleftrightarrow> r \<noteq> lineFeed \<and> globMeans g rs'"
      by (auto simp: length_Suc_conv intro: exI [of _ "[r]"])
    then show ?thesis using "3"(1) [OF Cons] Cons by (simp add: globMeans_Cons)
  qed (auto simp: globMeans_Cons)
next
  case (4 g)
  then show ?case by (auto simp: globMeans_Cons)
next
  case (5 g r rs)
  show ?case (is "?l \<longleftrightarrow> ?r")
  proof
    assume ?l
    then consider "globMeans g (r # rs)" | "r \<noteq> lineFeed" "globMeans (DotStar # g) rs" using 5 by auto
    then show ?r
    proof cases
      case 1
      then show ?thesis unfolding globMeans_Cons by (intro exI [of _ "[]"] exI [of _ "r # rs"]) auto
    next
      case 2
      then obtain p rest where "rs = p @ rest" "lineFeed \<notin> set p" "globMeans g rest" by (auto simp: globMeans_Cons)
      then show ?thesis using 2(1) unfolding globMeans_Cons by (intro exI [of _ "r # p"] exI [of _ rest]) auto
    qed
  next
    assume ?r
    then obtain p rest where p: "r # rs = p @ rest" "lineFeed \<notin> set p" "globMeans g rest" by (auto simp: globMeans_Cons)
    show ?l
    proof (cases p)
      case Nil
      then have "matchRunes g (r # rs)" using p 5 by simp
      then show ?thesis by simp
    next
      case (Cons q ps)
      then have "globMeans (DotStar # g) rs" using p by (auto simp: globMeans_Cons)
      then show ?thesis using p Cons 5 by auto
    qed
  qed
qed simp


lemma matchRunes_literals: "matchRunes (map Literal xs @ g) rs \<longleftrightarrow> (\<exists>t. rs = xs @ t \<and> matchRunes g t)"
  by (induction xs arbitrary: rs) (auto split: list.splits)

section \<open>Strings that are UTF-8\<close>

definition validUTF8 :: "gostring \<Rightarrow> bool" where
  "validUTF8 s \<longleftrightarrow> concat (runes s) = s"

lemma runes_grow: "length s \<le> length (concat (runes s))"
proof (induction s rule: runes.induct)
  case (2 c cs)
  let ?n = "decodeRuneSize (c # cs)"
  have "?n \<le> length (c # cs)" by (rule decodeRuneSize_le)
  then have "?n \<le> length (if ?n = 1 \<and> runeSelf \<le> byte c then runeError else take ?n (c # cs))"
    by (auto simp: runeError_def)
  then show ?case using "2.IH" [OF refl]
    by (subst runes.simps(2)) (auto simp: Let_def simp del: decodeRuneSize.simps)
qed simp

lemma validUTF8_append_ascii:
  assumes "validUTF8 (a @ c # b)" and "byte c < runeSelf"
  shows "validUTF8 a"
proof -
  have eq: "concat (runes a) @ concat (runes (c # b)) = a @ c # b"
    using assms runes_append_ascii [OF assms(2), of a b] by (simp add: validUTF8_def)
  then have "length (concat (runes a)) + length (concat (runes (c # b))) = length a + length (c # b)"
    by (metis length_append)
  then have "length (concat (runes a)) = length a"
    using runes_grow [of a] runes_grow [of "c # b"] by linarith
  then show ?thesis using eq by (simp add: validUTF8_def)
qed

section \<open>A wildcard's listing misses nothing\<close>

lemma compileGlob_prefix:
  assumes "validUTF8 pattern"
  shows "\<exists>g. compileGlob pattern = map Literal (runes (globPrefix pattern)) @ g"
    and "validUTF8 (globPrefix pattern)"
proof -
  let ?pre = "globPrefix pattern" and ?rest = "dropWhile (\<lambda>c. \<not> isWild c) pattern"
  have split: "pattern = ?pre @ ?rest" by (simp add: globPrefix_def)
  have noWild: "\<not> isWild c" if "c \<in> set ?pre" for c using that by (auto simp: globPrefix_def dest: set_takeWhileD)
  have both: "validUTF8 ?pre \<and> (\<exists>qs. runes pattern = runes ?pre @ qs)"
  proof (cases ?rest)
    case Nil
    then have "?pre = pattern" using split by (metis append_Nil2)
    then show ?thesis using assms by (metis append_Nil2)
  next
    case (Cons c b)
    then have "isWild c" using hd_dropWhile [of "\<lambda>c. \<not> isWild c" pattern] by simp
    then have ascii: "byte c < runeSelf" by (auto simp: isWild_def byte_def runeSelf_def)
    have p: "pattern = ?pre @ c # b" using split Cons by simp
    have "runes pattern = runes ?pre @ runes (c # b)" using runes_append_ascii [OF ascii, of ?pre b] p by metis
    moreover have "validUTF8 ?pre" using validUTF8_append_ascii [OF _ ascii] assms p by metis
    ultimately show ?thesis by blast
  qed
  then show "validUTF8 ?pre" by blast
  have "compileItem r = Literal r" if "r \<in> set (runes ?pre)" for r
  proof -
    have "set r \<subseteq> set ?pre" using both that unfolding validUTF8_def by (metis UN_I set_concat subsetI)
    then have "r \<noteq> ''*'' \<and> r \<noteq> ''?''" using noWild [of "CHR ''*''"] noWild [of "CHR ''?''"] by (auto simp: isWild_def)
    then show ?thesis by (simp add: compileItem_def)
  qed
  then have "map compileItem (runes ?pre) = map Literal (runes ?pre)" by simp
  then show "\<exists>g. compileGlob pattern = map Literal (runes ?pre) @ g"
    using both by (metis compileGlob_def map_append)
qed

lemma match_has_prefix:
  assumes "validUTF8 pattern" and "validUTF8 key" and "MatchString (compileGlob pattern) key"
  shows "hasPrefix key (globPrefix pattern)"
proof -
  from compileGlob_prefix [OF assms(1)] obtain g
    where g: "compileGlob pattern = map Literal (runes (globPrefix pattern)) @ g"
      "concat (runes (globPrefix pattern)) = globPrefix pattern"
    unfolding validUTF8_def by blast
  then obtain t where "runes key = runes (globPrefix pattern) @ t"
    using assms(3) by (auto simp: MatchString_def matchRunes_literals)
  then have "key = globPrefix pattern @ concat t"
    using assms(2) g(2) unfolding validUTF8_def by (metis concat_append)
  then show ?thesis by (metis hasPrefix_append)
qed

lemma filterMatch_compiled:
  "filterMatch (compileFilter f) key \<longleftrightarrow>
     (kf_include f = [] \<or> (\<exists>p \<in> set (kf_include f). globMeans (compileGlob p) (runes key)))
     \<and> \<not> (\<exists>p \<in> set (kf_exclude f). globMeans (compileGlob p) (runes key))"
  by (auto simp: filterMatch_def compileFilter_def compileGlobs_def matchesAny_def list_ex_iff MatchString_def matchRunes_means)

text \<open>
  C25. Filtering by the server and matching locally together take exactly the keys the operator
  wrote: a key is selected by a reference and a compiled filter when it splits into the pieces the
  wildcard's parts allow, matches some \<^verbatim>\<open>--include\<close> if there is any, and matches no \<^verbatim>\<open>--exclude\<close>; and every
  key a wildcard selects lies under the literal prefix that is sent to the server, so the listing
  the command walks misses none of them.
\<close>

theorem wildcard_listing_is_complete:
  assumes "validUTF8 pattern" and "validUTF8 key" and "hasGlob pattern"
  shows "selects (refGlob pattern) (compileFilter f) key \<longleftrightarrow>
      hasPrefix key (globPrefix pattern) \<and> globMeans (compileGlob pattern) (runes key)
      \<and> (kf_include f = [] \<or> list_ex (\<lambda>p. globMeans (compileGlob p) (runes key)) (kf_include f))
      \<and> \<not> list_ex (\<lambda>p. globMeans (compileGlob p) (runes key)) (kf_exclude f)"
  using match_has_prefix [OF assms(1,2)] assms(3) filterMatch_compiled [of f key]
  by (auto simp: selects_def refGlob_def MatchString_def matchRunes_means list_ex_iff)

lemma validUTF8_ascii: "list_all (\<lambda>c. byte c < runeSelf) s \<Longrightarrow> validUTF8 s"
  by (simp add: validUTF8_def runes_ascii concat_map_singleton)

theorem wildcard_listing_is_complete_witness:
  "selects (refGlob ''2026/*.gz'') (compileFilter (newFilter [] [''*e2e*''])) ''2026/08/dump.gz''
   \<and> hasPrefix ''2026/08/dump.gz'' (globPrefix ''2026/*.gz'')"
proof -
  have ascii: "validUTF8 ''2026/*.gz''" "validUTF8 ''2026/08/dump.gz''" "hasGlob ''2026/*.gz''"
    by (auto intro!: validUTF8_ascii simp: byte_def runeSelf_def hasGlob_def isWild_def)
  have "selects (refGlob ''2026/*.gz'') (compileFilter (newFilter [] [''*e2e*''])) ''2026/08/dump.gz''"
    by (simp add: selects_def refGlob_def hasGlob_def isWild_def filterMatch_def compileFilter_def compileGlobs_def
        newFilter_def matchesAny_def MatchString_def compileGlob_def compileItem_def runes_ascii byte_def runeSelf_def lineFeed_def)
  then show ?thesis using wildcard_listing_is_complete [OF ascii, of "newFilter [] [''*e2e*'']"] by blast
qed

section \<open>A walk folds its callback over the listing\<close>

type_synonym ('a, 's) visitor = "'a \<Rightarrow> 's \<Rightarrow> s3err option \<times> 's"

fun runCallback :: "('a, 's) visitor \<Rightarrow> 'a list \<Rightarrow> 's \<Rightarrow> s3err option \<times> 's" where
  "runCallback fn [] s = (None, s)"
| "runCallback fn (ob # obs) s = (case fn ob s of (Some e, s') \<Rightarrow> (Some e, s') | (None, s') \<Rightarrow> runCallback fn obs s')"

lemma runCallback_append:
  "runCallback fn (xs @ ys) s = (case runCallback fn xs s of (Some e, s') \<Rightarrow> (Some e, s') | (None, s') \<Rightarrow> runCallback fn ys s')"
  by (induction xs arbitrary: s) (auto split: prod.splits option.splits)

text \<open>Walking with any callback and walking with \<^const>\<open>collect\<close> visit the same entries.\<close>

lemma emitLoop_callback:
  "emitLoop limit fn xs seen s = (seen', s', done, None) \<Longrightarrow>
     \<exists>ys. emitLoop limit collect xs seen acc = (seen', acc @ ys, done, None) \<and> runCallback fn ys s = (None, s')"
proof (induction xs arbitrary: seen s acc)
  case (Cons x xs)
  obtain s1 where x: "fn x s = (None, s1)" using Cons.prems by (auto split: prod.splits option.splits)
  show ?case
  proof (cases "limit > 0 \<and> int (Suc seen) \<ge> limit")
    case True
    then show ?thesis using Cons.prems x by (intro exI [of _ "[x]"]) (auto simp: collect_def)
  next
    case False
    then have "emitLoop limit fn xs (Suc seen) s1 = (seen', s', done, None)" using Cons.prems x by auto
    from Cons.IH [OF this, of "acc @ [x]"] obtain ys
      where "emitLoop limit collect xs (Suc seen) (acc @ [x]) = (seen', (acc @ [x]) @ ys, done, None)"
        "runCallback fn ys s1 = (None, s')" by blast
    moreover have "emitLoop limit collect (x # xs) seen acc = emitLoop limit collect xs (Suc seen) (acc @ [x])"
      using False by (auto simp: collect_def [of x acc])
    ultimately show ?thesis using x by (intro exI [of _ "x # ys"]) auto
  qed
qed simp

text \<open>
  The two listings as one walk: \<open>answer\<close> is what a request gets, \<open>entries\<close> and \<open>follow\<close> what a page holds
  and where it continues. \<open>walk\<close> takes the callback \<open>fn\<close>, \<open>cwalk\<close> takes \<^const>\<open>collect\<close>.
\<close>

locale callback_walk =
  fixes fn :: "'s callback"
    and walk :: "'c \<Rightarrow> nat \<Rightarrow> 's \<Rightarrow> 'i list \<Rightarrow> 's walk"
    and cwalk :: "'c \<Rightarrow> nat \<Rightarrow> s3Object list \<Rightarrow> 'i list \<Rightarrow> s3Object list walk"
    and target :: "'c \<Rightarrow> nat \<Rightarrow> goURL"
    and answer :: "'c \<Rightarrow> nat \<Rightarrow> 'i \<Rightarrow> (s3err + 'p) option"
    and entries :: "'p \<Rightarrow> s3Object list"
    and follow :: "'p \<Rightarrow> 'c option"
    and limit :: int
  assumes walk_Nil: "walk c seen s [] = ([], s, None)"
    and cwalk_Nil: "cwalk c seen acc [] = ([], acc, None)"
    and walk_Cons: "walk c seen s (i # is) =
      (case answer c seen i of
         None \<Rightarrow> ([target c seen], s, None)
       | Some (Inl e) \<Rightarrow> ([target c seen], s, Some (Some e))
       | Some (Inr page) \<Rightarrow>
           (case emitLoop limit fn (entries page) seen s of
              (seen', s', done, err) \<Rightarrow>
                if err \<noteq> None \<or> done then ([target c seen], s', Some err)
                else case follow page of
                    None \<Rightarrow> ([target c seen], s', Some None)
                  | Some c' \<Rightarrow> (case walk c' seen' s' is of (us, r) \<Rightarrow> (target c seen # us, r))))"
    and cwalk_Cons: "cwalk c seen acc (i # is) =
      (case answer c seen i of
         None \<Rightarrow> ([target c seen], acc, None)
       | Some (Inl e) \<Rightarrow> ([target c seen], acc, Some (Some e))
       | Some (Inr page) \<Rightarrow>
           (case emitLoop limit collect (entries page) seen acc of
              (seen', acc', done, err) \<Rightarrow>
                if err \<noteq> None \<or> done then ([target c seen], acc', Some err)
                else case follow page of
                    None \<Rightarrow> ([target c seen], acc', Some None)
                  | Some c' \<Rightarrow> (case cwalk c' seen' acc' is of (us, r) \<Rightarrow> (target c seen # us, r))))"
begin

lemma walk_folds:
  "walk c seen s is = (us, s', Some None) \<Longrightarrow>
     \<exists>ys. cwalk c seen acc is = (us, acc @ ys, Some None) \<and> runCallback fn ys s = (None, s')"
proof (induction "is" arbitrary: c seen s us acc)
  case Nil
  then show ?case by (simp add: walk_Nil)
next
  case (Cons i "is")
  obtain page where page: "answer c seen i = Some (Inr page)"
    using Cons.prems by (auto simp: walk_Cons split: option.splits sum.splits)
  obtain seen1 s1 fin err where e: "emitLoop limit fn (entries page) seen s = (seen1, s1, fin, err)"
    by (metis prod_cases4)
  then have err: "err = None" using Cons.prems page by (auto simp: walk_Cons split: if_splits prod.splits)
  with e obtain ys where ys: "emitLoop limit collect (entries page) seen acc = (seen1, acc @ ys, fin, None)"
    "runCallback fn ys s = (None, s1)"
    using emitLoop_callback [of limit fn "entries page" seen s seen1 s1 fin acc] by blast
  show ?case
  proof (cases "fin \<or> follow page = None")
    case True
    then have "us = [target c seen]" "s' = s1"
      using Cons.prems page e err by (auto simp: walk_Cons split: if_splits)
    then show ?thesis using True page ys by (cases fin) (auto simp: cwalk_Cons)
  next
    case False
    then obtain c' us' where us: "follow page = Some c'" "us = target c seen # us'"
      "walk c' seen1 s1 is = (us', s', Some None)"
      using Cons.prems page e err by (auto simp: walk_Cons split: prod.splits option.splits)
    from Cons.IH [OF us(3), of "acc @ ys"] obtain zs
      where "cwalk c' seen1 (acc @ ys) is = (us', (acc @ ys) @ zs, Some None)" "runCallback fn zs s1 = (None, s')" by blast
    then show ?thesis using False page ys us(1,2)
      by (intro exI [of _ "ys @ zs"]) (auto simp: cwalk_Cons runCallback_append)
  qed
qed

lemma emitLoop_invariant:
  assumes "\<And>ob s. P s \<Longrightarrow> P (snd (fn ob s))"
  shows "emitLoop limit fn xs seen s = (seen', s', fin, err) \<Longrightarrow> P s \<Longrightarrow> P s'"
proof (induction xs arbitrary: seen s)
  case (Cons x xs)
  have "P (snd (fn x s))" using assms Cons.prems(2) .
  then show ?case using Cons.prems(1) Cons.IH by (auto split: prod.splits option.splits if_splits)
qed simp

lemma walk_invariant:
  assumes "\<And>ob s. P s \<Longrightarrow> P (snd (fn ob s))"
  shows "walk c seen s is = (us, s', r) \<Longrightarrow> P s \<Longrightarrow> P s'"
proof (induction "is" arbitrary: c seen s us)
  case (Cons i "is")
  have page: "P s1" if "emitLoop limit fn xs seen s = (seen1, s1, fin, err)" for xs seen1 s1 fin err
    using assms that Cons.prems(2) by (rule emitLoop_invariant [where P = P])
  show ?case using Cons.prems
    by (auto simp: walk_Cons split: option.splits sum.splits prod.splits if_splits dest: page Cons.IH)
qed (simp add: walk_Nil)

end

interpretation objectWalk: callback_walk fn "listLoop v decode bucket opts fn" "listLoop v decode bucket opts collect"
  "\<lambda>token seen. url (v_cfg v) bucket [] (listObjectsQuery opts token seen)"
  "\<lambda>token seen i. snd (getXML v (url (v_cfg v) bucket [] (listObjectsQuery opts token seen)) decode i)"
  "pageEntries v" nextToken "lo_Limit opts"
  for fn v decode bucket opts
  by unfold_locales
    (simp_all add: emitPage_entries nextToken_def Let_def split: prod.splits option.splits sum.splits)

interpretation versionWalk: callback_walk fn "versionsLoop v decode bucket opts fn" "versionsLoop v decode bucket opts collect"
  "\<lambda>markers seen. url (v_cfg v) bucket [] (listVersionsQuery opts markers seen)"
  "\<lambda>markers seen i. snd (getXML v (url (v_cfg v) bucket [] (listVersionsQuery opts markers seen)) decode i)"
  "versionEntries v" nextMarkers "lo_Limit opts"
  for fn v decode bucket opts
  by unfold_locales
    (simp_all add: nextMarkers_def Let_def split: prod.splits option.splits sum.splits)

lemma ListObjectsFunc_folds:
  assumes "ListObjectsFunc v decode decodeVersions bucket opts fn s is = (us, s', Some None)"
  shows "\<exists>obs. ListObjects v decode decodeVersions bucket opts is = Some (Inr obs) \<and> runCallback fn obs s = (None, s')"
proof (cases "lo_Versions opts")
  case True
  with assms versionWalk.walk_folds [of v decodeVersions bucket opts fn "([], [])" 0 s "is" us s' "[]"]
  show ?thesis by (auto simp: ListObjectsFunc_def ListObjects_def)
next
  case False
  with assms objectWalk.walk_folds [of v decode bucket opts fn "[]" 0 s "is" us s' "[]"]
  show ?thesis by (auto simp: ListObjectsFunc_def ListObjects_def)
qed

lemma ListObjectsFunc_invariant:
  assumes "\<And>ob s. P s \<Longrightarrow> P (snd (fn ob s))"
    and "ListObjectsFunc v decode decodeVersions bucket opts fn s is = (us, s', r)" and "P s"
  shows "P s'"
  using objectWalk.walk_invariant [of P fn, OF assms(1)] versionWalk.walk_invariant [of P fn, OF assms(1)] assms(2,3)
  by (auto simp: ListObjectsFunc_def split: if_splits)

end
