(* ===== verification/S3_Delete.thy ===== *)
theory S3_Delete
  imports S3_Filter
begin

text \<open>
  \<^verbatim>\<open>koc s3 object delete\<close>: \<^verbatim>\<open>src/internal/cli/s3/object_delete.go\<close> and the shared error contract of
  \<^verbatim>\<open>src/internal/cli/batchdelete\<close>. The callback of the recursive delete threads the pending batch, the
  batches it has handed to \<^const>\<open>DeleteObjects\<close>, the lines it has printed and the answers still to
  come.
\<close>

section \<open>Output and joined errors\<close>

text \<open>
  What the commands write their lines to: the lines so far, and how many more will be accepted
  (\<^const>\<open>None\<close> when writing never fails).
\<close>

record writer =
  w_lines :: "gostring list"
  w_room :: "nat option"

definition say :: "gostring \<Rightarrow> writer \<Rightarrow> s3err option \<times> writer" where
  "say line w =
     (case w_room w of
        None \<Rightarrow> (None, w\<lparr>w_lines := w_lines w @ [line]\<rparr>)
      | Some 0 \<Rightarrow> (Some (ErrText ''write error''), w)
      | Some (Suc n) \<Rightarrow> (None, w\<lparr>w_lines := w_lines w @ [line], w_room := Some n\<rparr>))"

fun sayEach :: "gostring list \<Rightarrow> writer \<Rightarrow> s3err option \<times> writer" where
  "sayEach [] w = (None, w)"
| "sayEach (l # ls) w = (case say l w of (Some e, w') \<Rightarrow> (Some e, w') | (None, w') \<Rightarrow> sayEach ls w')"

text \<open>\<^verbatim>\<open>errors.Join\<close>.\<close>

fun joinErrs :: "s3err list \<Rightarrow> s3err option" where
  "joinErrs [] = None"
| "joinErrs (e # es) = Some (case joinErrs es of None \<Rightarrow> e | Some e' \<Rightarrow> ErrBoth e [CHR 0x0A] e')"

section \<open>Flags\<close>

record objectDeleteFlags =
  df_recursive :: bool
  df_dryRun :: bool
  df_versionID :: gostring
  df_allVersions :: bool
  df_filter :: keyFilter

text \<open>The flags a validated command runs with: \<^verbatim>\<open>compile\<close> writes the matchers into the filter.\<close>

definition deleteValidate :: "objectDeleteFlags \<Rightarrow> gostring list \<Rightarrow> s3err + objectDeleteFlags" where
  "deleteValidate f refs =
     (if df_versionID f \<noteq> [] \<and> df_recursive f then
        Inl (ErrText ''--version-id names one object; it cannot be combined with --recursive'')
      else if df_versionID f \<noteq> [] \<and> df_allVersions f then
        Inl (ErrText ''--version-id and --all-versions are mutually exclusive'')
      else if df_versionID f \<noteq> [] \<and> length refs > 1 then
        Inl (ErrText ''--version-id names one object; pass a single reference'')
      else if \<not> df_recursive f \<and> \<not> df_allVersions f \<and> filterActive (df_filter f) then
        (if list_ex hasGlob refs then Inr f
         else Inl (ErrText ''--include/--exclude filter a listing; pass --recursive or a wildcard reference''))
      else Inr (f\<lparr>df_filter := compileFilter (df_filter f)\<rparr>))"

section \<open>One batch\<close>

definition describeTarget :: "gostring \<Rightarrow> gostring \<Rightarrow> gostring \<Rightarrow> gostring" where
  "describeTarget bucket key versionID =
     (if versionID = [] then bucket @ ''/'' @ key else bucket @ ''/'' @ key @ '' (version '' @ versionID @ '')'')"

definition deletedLine :: "gostring \<Rightarrow> deleteTarget \<Rightarrow> gostring" where
  "deletedLine bucket t = ''Deleted object: '' @ describeTarget bucket (dt_Key t) (dt_VersionID t)"

definition wouldDeleteLine :: "gostring \<Rightarrow> deleteTarget \<Rightarrow> gostring" where
  "wouldDeleteLine bucket t = ''Would delete object: '' @ describeTarget bucket (dt_Key t) (dt_VersionID t)"

definition deleteErrorText :: "deleteError \<Rightarrow> gostring" where
  "deleteErrorText f =
     (if de_Message f \<noteq> [] then dt_Key f @ '': '' @ de_Message f @ '' ('' @ de_Code f @ '')''
      else dt_Key f @ '': '' @ de_Code f)"

text \<open>The client and the XML codecs the commands use.\<close>

record s3Codec =
  x_env :: s3Env
  x_list :: "gostring \<Rightarrow> s3err + listObjectsPage"
  x_versions :: "gostring \<Rightarrow> s3err + listVersionsPage"
  x_marshalDelete :: "deleteTarget list \<Rightarrow> gostring"
  x_deleteResult :: "gostring \<Rightarrow> s3err + deleteError list"

definition refusalKey :: "gostring \<Rightarrow> gostring \<Rightarrow> gostring" where
  "refusalKey key versionID = key @ [CHR 0x00] @ versionID"

text \<open>
  The outcome of a step that sends requests: \<^const>\<open>None\<close> while it has not returned, otherwise its
  error, if any.
\<close>

type_synonym outcome = "s3err option option"

definition deleteBatch :: "s3Codec \<Rightarrow> gostring \<Rightarrow> deleteTarget list \<Rightarrow> bool \<Rightarrow> writer \<Rightarrow> attemptIn list \<Rightarrow> outcome \<times> writer" where
  "deleteBatch x bucket targets dryRun w is =
     (if dryRun then map_prod Some id (sayEach (map (wouldDeleteLine bucket) targets) w)
      else case snd (DeleteObjects (x_env x) (x_marshalDelete x) (x_deleteResult x) bucket targets is) of
          None \<Rightarrow> (None, w)
        | Some (Inl e) \<Rightarrow> (Some (Some e), w)
        | Some (Inr failures) \<Rightarrow>
            (let refused = map (\<lambda>f. refusalKey (dt_Key f) (dt_VersionID f)) failures;
                 done = filter (\<lambda>t. refusalKey (dt_Key t) (dt_VersionID t) \<notin> set refused) targets
             in case sayEach (map (deletedLine bucket) done) w of
                  (Some e, w') \<Rightarrow> (Some (Some e), w')
                | (None, w') \<Rightarrow>
                    (Some (joinErrs (map (\<lambda>f. ErrWrap (''deleting '' @ bucket @ ''/'' @ dt_Key f @ '': '')
                       (ErrText (deleteErrorText f))) failures)), w')))"

section \<open>A recursive delete\<close>

record deleteState =
  ds_pending :: "deleteTarget list"
  ds_seen :: nat
  ds_batches :: "deleteTarget list list"
  ds_out :: writer
  ds_calls :: "attemptIn list list"
  ds_stuck :: bool

definition targetOf :: "s3Object \<Rightarrow> deleteTarget" where
  "targetOf ob = \<lparr>dt_Key = ob_Key ob, dt_VersionID = ob_VersionID ob\<rparr>"

text \<open>
  \<open>ds_batches\<close> records what was handed to the client. A request that never returns leaves the command
  stuck inside the callback; the error then only ends the walk of the model.
\<close>

definition deleteFlush :: "s3Codec \<Rightarrow> gostring \<Rightarrow> bool \<Rightarrow> deleteState \<Rightarrow> s3err option \<times> deleteState" where
  "deleteFlush x bucket dryRun s =
     (if ds_pending s = [] then (None, s)
      else
        (let (is, rest) = (if dryRun then ([], ds_calls s)
               else case ds_calls s of [] \<Rightarrow> ([], []) | i # is' \<Rightarrow> (i, is'));
             s' = s\<lparr>ds_pending := [], ds_calls := rest,
                    ds_batches := ds_batches s @ (if dryRun then [] else [ds_pending s])\<rparr>
         in case deleteBatch x bucket (ds_pending s) dryRun (ds_out s) is of
              (None, w) \<Rightarrow> (Some (ErrText []), s'\<lparr>ds_out := w, ds_stuck := True\<rparr>)
            | (Some err, w) \<Rightarrow> (err, s'\<lparr>ds_out := w\<rparr>)))"

definition deleteVisit :: "s3Codec \<Rightarrow> gostring \<Rightarrow> glob option \<Rightarrow> objectDeleteFlags \<Rightarrow> deleteState callback" where
  "deleteVisit x bucket g f ob s =
     (if \<not> selects g (df_filter f) (ob_Key ob) then (None, s)
      else
        (let s' = s\<lparr>ds_seen := Suc (ds_seen s), ds_pending := ds_pending s @ [targetOf ob]\<rparr> in
         if length (ds_pending s') < MaxDeleteBatch then (None, s')
         else deleteFlush x bucket (df_dryRun f) s'))"

definition deleteListOptions :: "gostring \<Rightarrow> objectDeleteFlags \<Rightarrow> listOptions" where
  "deleteListOptions pattern f =
     \<lparr>lo_Prefix = globPrefix pattern, lo_Delimiter = [], lo_Limit = 0, lo_Versions = df_allVersions f\<rparr>"

definition startDelete :: "writer \<Rightarrow> attemptIn list list \<Rightarrow> deleteState" where
  "startDelete w calls = \<lparr>ds_pending = [], ds_seen = 0, ds_batches = [], ds_out = w, ds_calls = calls, ds_stuck = False\<rparr>"

definition deletePrefix :: "s3Codec \<Rightarrow> gostring \<Rightarrow> gostring \<Rightarrow> objectDeleteFlags \<Rightarrow> writer \<Rightarrow>
    attemptIn list list \<Rightarrow> attemptIn list list \<Rightarrow> outcome \<times> deleteState" where
  "deletePrefix x bucket pattern f w pages calls =
     (case ListObjectsFunc (x_env x) (x_list x) (x_versions x) bucket (deleteListOptions pattern f)
             (deleteVisit x bucket (refGlob pattern) f) (startDelete w calls) pages of
        (us, s, r) \<Rightarrow>
          if ds_stuck s then (None, s)
          else case r of
              None \<Rightarrow> (None, s)
            | Some (Some e) \<Rightarrow>
                (Some (Some (ErrWrap (''deleting '' @ bucket @ ''/'' @ pattern @ '' recursively: '') e)), s)
            | Some None \<Rightarrow>
                (case deleteFlush x bucket (df_dryRun f) s of
                   (err, s') \<Rightarrow>
                     if ds_stuck s' then (None, s')
                     else case err of
                         Some e \<Rightarrow> (Some (Some e), s')
                       | None \<Rightarrow>
                           if ds_seen s' = 0 then
                             (case say (''No objects under '' @ bucket @ ''/'' @ pattern) (ds_out s') of
                                (err, w') \<Rightarrow> (Some err, s'\<lparr>ds_out := w'\<rparr>))
                           else (Some None, s')))"

section \<open>The command\<close>

text \<open>The answers to the requests made for one reference: a listing's pages, and the other calls.\<close>

record refInputs =
  ri_pages :: "attemptIn list list"
  ri_calls :: "attemptIn list list"

record deleteRun =
  dr_batches :: "(gostring \<times> deleteTarget list) list"
  dr_singles :: "(gostring \<times> gostring \<times> gostring) list"
  dr_out :: writer

definition deleteRef :: "s3Codec \<Rightarrow> objectDeleteFlags \<Rightarrow> gostring \<Rightarrow> refInputs \<Rightarrow> deleteRun \<Rightarrow> outcome \<times> deleteRun" where
  "deleteRef x f ref ins st =
     (if df_recursive f \<or> df_allVersions f \<or> hasGlob ref then
        (case parseRef ref of
           Inl e \<Rightarrow> (Some (Some e), st)
         | Inr (bucket, pattern) \<Rightarrow>
             (case deletePrefix x bucket pattern f (dr_out st) (ri_pages ins) (ri_calls ins) of
                (r, s) \<Rightarrow> (r, st\<lparr>dr_batches := dr_batches st @ map (Pair bucket) (ds_batches s), dr_out := ds_out s\<rparr>)))
      else
        (case parseObjectRef ref of
           Inl e \<Rightarrow> (Some (Some e), st)
         | Inr (bucket, key) \<Rightarrow>
             (let t = \<lparr>dt_Key = key, dt_VersionID = df_versionID f\<rparr> in
              if df_dryRun f then (case say (wouldDeleteLine bucket t) (dr_out st) of (err, w) \<Rightarrow> (Some err, st\<lparr>dr_out := w\<rparr>))
              else
                (let st' = st\<lparr>dr_singles := dr_singles st @ [(bucket, key, df_versionID f)]\<rparr> in
                 case snd (DeleteObject (x_env x) bucket key (df_versionID f) (concat (take 1 (ri_calls ins)))) of
                   None \<Rightarrow> (None, st')
                 | Some (Inl e) \<Rightarrow> (Some (Some (ErrWrap (''deleting '' @ describeTarget bucket key (df_versionID f) @ '': '') e)), st')
                 | Some (Inr _) \<Rightarrow> (case say (deletedLine bucket t) (dr_out st') of (err, w) \<Rightarrow> (Some err, st'\<lparr>dr_out := w\<rparr>))))))"

text \<open>\<^verbatim>\<open>batchdelete.Each\<close>: every reference is attempted, and the failures are joined.\<close>

fun eachRef :: "('r \<Rightarrow> 's \<Rightarrow> outcome \<times> 's) \<Rightarrow> 'r list \<Rightarrow> 's \<Rightarrow> s3err list \<Rightarrow> outcome \<times> 's" where
  "eachRef del [] s errs = (Some (joinErrs errs), s)"
| "eachRef del (r # rs) s errs =
     (case del r s of
        (None, s') \<Rightarrow> (None, s')
      | (Some None, s') \<Rightarrow> eachRef del rs s' errs
      | (Some (Some e), s') \<Rightarrow> eachRef del rs s' (errs @ [e]))"

definition runObjectDelete :: "s3Codec \<Rightarrow> (gostring \<times> refInputs) list \<Rightarrow> objectDeleteFlags \<Rightarrow> writer \<Rightarrow> outcome \<times> deleteRun" where
  "runObjectDelete x refs f w =
     eachRef (\<lambda>(ref, ins). deleteRef x f ref ins) refs \<lparr>dr_batches = [], dr_singles = [], dr_out = w\<rparr> []"

section \<open>A recursive delete takes exactly the selected keys\<close>

lemma say_None: "say l w = (None, w') \<Longrightarrow> w_lines w' = w_lines w @ [l]"
  by (auto simp: say_def split: option.splits nat.splits)

lemma sayEach_None: "sayEach ls w = (None, w') \<Longrightarrow> w_lines w' = w_lines w @ ls"
  by (induction ls arbitrary: w) (auto split: prod.splits option.splits dest: say_None)

lemma deleteBatch_dry:
  "deleteBatch x bucket targets True w is = (Some None, w') \<Longrightarrow> w_lines w' = w_lines w @ map (wouldDeleteLine bucket) targets"
  by (auto simp: deleteBatch_def map_prod_def split: prod.splits dest: sayEach_None)

text \<open>What a run has dealt with so far: batches handed over, or lines printed by a dry run.\<close>

definition handled :: "gostring \<Rightarrow> bool \<Rightarrow> deleteState \<Rightarrow> deleteTarget list \<Rightarrow> bool" where
  "handled bucket dry s ts \<longleftrightarrow>
     (if dry then ds_batches s = [] \<and> w_lines (ds_out s) @ map (wouldDeleteLine bucket) (ds_pending s)
        = map (wouldDeleteLine bucket) ts
      else concat (ds_batches s) @ ds_pending s = ts)"

lemma deleteFlush_None:
  assumes "deleteFlush x bucket dry s = (None, s')" and "handled bucket dry s ts"
  shows "handled bucket dry s' ts" and "ds_pending s' = []" and "ds_seen s' = ds_seen s" and "ds_stuck s' = ds_stuck s"
proof -
  have cases: "ds_pending s = [] \<and> s' = s \<or> (\<exists>is. deleteBatch x bucket (ds_pending s) dry (ds_out s) is = (Some None, ds_out s')
      \<and> ds_pending s' = [] \<and> ds_batches s' = ds_batches s @ (if dry then [] else [ds_pending s])
      \<and> ds_seen s' = ds_seen s \<and> ds_stuck s' = ds_stuck s)"
    using assms(1) by (auto simp: deleteFlush_def Let_def split: if_splits prod.splits option.splits list.splits)
  then show "ds_pending s' = []" "ds_seen s' = ds_seen s" "ds_stuck s' = ds_stuck s" by auto
  show "handled bucket dry s' ts"
  proof (cases dry)
    case True
    then have "w_lines (ds_out s') = w_lines (ds_out s) @ map (wouldDeleteLine bucket) (ds_pending s)"
      using cases deleteBatch_dry by auto
    then show ?thesis using cases assms(2) True by (auto simp: handled_def)
  next
    case False
    then show ?thesis using cases assms(2) by (auto simp: handled_def)
  qed
qed

lemma deleteVisit_None:
  assumes "deleteVisit x bucket g f ob s = (None, s')" and "handled bucket (df_dryRun f) s ts"
  shows "handled bucket (df_dryRun f) s' (ts @ (if selects g (df_filter f) (ob_Key ob) then [targetOf ob] else []))
    \<and> ds_stuck s' = ds_stuck s
    \<and> ds_seen s' = ds_seen s + (if selects g (df_filter f) (ob_Key ob) then 1 else 0)"
proof (cases "selects g (df_filter f) (ob_Key ob)")
  case True
  let ?s = "s\<lparr>ds_seen := Suc (ds_seen s), ds_pending := ds_pending s @ [targetOf ob]\<rparr>"
  have "handled bucket (df_dryRun f) ?s (ts @ [targetOf ob])" using assms(2) by (auto simp: handled_def split: if_splits)
  moreover have "s' = ?s \<or> deleteFlush x bucket (df_dryRun f) ?s = (None, s')"
    using assms(1) True by (auto simp: deleteVisit_def Let_def split: if_splits)
  ultimately show ?thesis using True deleteFlush_None [of x bucket "df_dryRun f" ?s s'] by auto
next
  case False
  then show ?thesis using assms by (simp add: deleteVisit_def)
qed

lemma deleteVisit_folds:
  "runCallback (deleteVisit x bucket g f) obs s = (None, s') \<Longrightarrow> handled bucket (df_dryRun f) s ts \<Longrightarrow>
     handled bucket (df_dryRun f) s' (ts @ map targetOf (filter (\<lambda>ob. selects g (df_filter f) (ob_Key ob)) obs))
     \<and> ds_stuck s' = ds_stuck s \<and> ds_seen s' = ds_seen s + length (filter (\<lambda>ob. selects g (df_filter f) (ob_Key ob)) obs)"
proof (induction obs arbitrary: s ts)
  case (Cons ob obs)
  obtain s1 where s1: "deleteVisit x bucket g f ob s = (None, s1)" "runCallback (deleteVisit x bucket g f) obs s1 = (None, s')"
    using Cons.prems(1) by (auto split: prod.splits option.splits)
  from deleteVisit_None [OF s1(1) Cons.prems(2)] Cons.IH [OF s1(2)] show ?case by fastforce
qed simp

text \<open>What holds of a run at any moment, however it ends.\<close>

definition soundBatches :: "glob option \<Rightarrow> objectDeleteFlags \<Rightarrow> deleteState \<Rightarrow> bool" where
  "soundBatches g f s \<longleftrightarrow>
     list_all (\<lambda>b. 0 < length b \<and> length b \<le> MaxDeleteBatch \<and> list_all (\<lambda>t. selects g (df_filter f) (dt_Key t)) b) (ds_batches s)
     \<and> (df_dryRun f \<longrightarrow> ds_batches s = [])"

definition soundPending :: "glob option \<Rightarrow> objectDeleteFlags \<Rightarrow> deleteState \<Rightarrow> bool" where
  "soundPending g f s \<longleftrightarrow>
     length (ds_pending s) < MaxDeleteBatch \<and> list_all (\<lambda>t. selects g (df_filter f) (dt_Key t)) (ds_pending s)"

lemma deleteFlush_sound:
  assumes "soundBatches g f s" and "list_all (\<lambda>t. selects g (df_filter f) (dt_Key t)) (ds_pending s)"
    and "length (ds_pending s) \<le> MaxDeleteBatch"
  shows "soundBatches g f (snd (deleteFlush x bucket (df_dryRun f) s))
    \<and> ds_pending (snd (deleteFlush x bucket (df_dryRun f) s)) = []"
  using assms by (auto simp: deleteFlush_def soundBatches_def Let_def split: prod.splits option.splits list.splits)

lemma deleteVisit_sound:
  "soundBatches g f s \<and> soundPending g f s \<Longrightarrow>
     soundBatches g f (snd (deleteVisit x bucket g f ob s)) \<and> soundPending g f (snd (deleteVisit x bucket g f ob s))"
proof (cases "selects g (df_filter f) (ob_Key ob)")
  case True
  assume s: "soundBatches g f s \<and> soundPending g f s"
  let ?s = "s\<lparr>ds_seen := Suc (ds_seen s), ds_pending := ds_pending s @ [targetOf ob]\<rparr>"
  have "soundBatches g f ?s" "list_all (\<lambda>t. selects g (df_filter f) (dt_Key t)) (ds_pending ?s)" "length (ds_pending ?s) \<le> MaxDeleteBatch"
    using s True by (auto simp: soundBatches_def soundPending_def targetOf_def)
  from this deleteFlush_sound [OF this, of x bucket] True show ?thesis
    by (auto simp: deleteVisit_def Let_def soundPending_def MaxDeleteBatch_def)
qed (simp add: deleteVisit_def)

lemma deletePrefix_sound:
  assumes "deletePrefix x bucket pattern f w pages calls = (r, s)"
  shows "soundBatches (refGlob pattern) f s"
proof -
  let ?g = "refGlob pattern"
  obtain us s1 r1 where walk: "ListObjectsFunc (x_env x) (x_list x) (x_versions x) bucket (deleteListOptions pattern f)
      (deleteVisit x bucket ?g f) (startDelete w calls) pages = (us, s1, r1)" by (metis prod_cases3)
  have start: "soundBatches ?g f (startDelete w calls) \<and> soundPending ?g f (startDelete w calls)"
    by (simp add: soundBatches_def soundPending_def startDelete_def MaxDeleteBatch_def)
  have "soundBatches ?g f s1 \<and> soundPending ?g f s1"
    using deleteVisit_sound walk start
    by (rule ListObjectsFunc_invariant [where P = "\<lambda>s. soundBatches ?g f s \<and> soundPending ?g f s"])
  moreover from this have "soundBatches ?g f (snd (deleteFlush x bucket (df_dryRun f) s1))"
    using deleteFlush_sound [of ?g f s1] by (simp add: soundPending_def)
  ultimately show ?thesis using assms walk
    by (auto simp: deletePrefix_def soundBatches_def split: if_splits option.splits prod.splits)
qed

lemma deletePrefix_returns:
  assumes "deletePrefix x bucket pattern f w pages calls = (Some None, s)" and "w_lines w = []"
  shows "\<exists>obs. ListObjects (x_env x) (x_list x) (x_versions x) bucket (deleteListOptions pattern f) pages = Some (Inr obs)
    \<and> (let ts = map targetOf (filter (\<lambda>ob. selects (refGlob pattern) (df_filter f) (ob_Key ob)) obs) in
       if df_dryRun f then ds_batches s = [] \<and> (ts \<noteq> [] \<longrightarrow> w_lines (ds_out s) = map (wouldDeleteLine bucket) ts)
       else concat (ds_batches s) = ts)"
proof -
  let ?g = "refGlob pattern" and ?fn = "deleteVisit x bucket (refGlob pattern) f"
  obtain us s1 r1 where walk: "ListObjectsFunc (x_env x) (x_list x) (x_versions x) bucket (deleteListOptions pattern f)
      ?fn (startDelete w calls) pages = (us, s1, r1)" by (metis prod_cases3)
  obtain s2 where s2: "r1 = Some None" "deleteFlush x bucket (df_dryRun f) s1 = (None, s2)"
      "if ds_seen s2 = 0 then \<exists>w'. s = s2\<lparr>ds_out := w'\<rparr> else s = s2"
    using assms(1) walk by (auto simp: deletePrefix_def split: if_splits option.splits prod.splits)
  obtain obs where obs: "ListObjects (x_env x) (x_list x) (x_versions x) bucket (deleteListOptions pattern f) pages = Some (Inr obs)"
      "runCallback ?fn obs (startDelete w calls) = (None, s1)"
    using ListObjectsFunc_folds [OF walk [unfolded s2(1)]] by blast
  let ?ts = "map targetOf (filter (\<lambda>ob. selects ?g (df_filter f) (ob_Key ob)) obs)"
  have "handled bucket (df_dryRun f) (startDelete w calls) []" using assms(2) by (simp add: handled_def startDelete_def)
  from deleteVisit_folds [OF obs(2) this] have s1: "handled bucket (df_dryRun f) s1 ?ts" "ds_seen s1 = length ?ts"
    by (auto simp: startDelete_def)
  note flushed = deleteFlush_None [OF s2(2) s1(1)]
  have "ds_batches s = ds_batches s2" "?ts \<noteq> [] \<longrightarrow> ds_out s = ds_out s2"
    using s2(3) flushed(3) s1(2) by (auto split: if_splits)
  then show ?thesis using obs(1) flushed(1,2) by (auto simp: handled_def Let_def split: if_splits)
qed

lemma DeleteObjects_answers:
  assumes "u_RawQuery (c_base (v_cfg v)) = []" and "answersPage (decode \<circ> take errorBodyLimit) i failures"
    and "targets \<noteq> []" and "length targets \<le> MaxDeleteBatch"
  shows "snd (DeleteObjects v marshal decode bucket targets i) = Some (Inr failures)"
proof -
  from assms(2) obtain a as resp where a: "i = a # as" "ai_http a = Inr resp" "200 \<le> rs_StatusCode resp"
      "rs_StatusCode resp < 300" "decode (take errorBodyLimit (rs_Body resp)) = Inr failures"
    by (auto simp: answersPage_def split: list.splits sum.splits)
  let ?u = "url (v_cfg v) bucket [] [(''delete'', [[]])]" and ?body = "marshal targets"
  let ?req = "withBody v ''POST'' ?u ?body [(hdrContentType, ''application/xml''), (''Content-MD5'', contentMD5 v ?body)]"
  have "rq_url ?req = ?u" by (simp add: withBody_def)
  from call_first_accepted [OF assms(1) this a(2-4), of "\<lambda>resp. decode (take errorBodyLimit (rs_Body resp))" as]
  show ?thesis using a(1,5) assms(3,4) by (auto simp: DeleteObjects_def mapErr_def Let_def)
qed

text \<open>
  C12. A recursive or wildcard delete takes exactly what it was told to. Whatever happens, each batch it
  hands to the client has between one and a thousand keys, all of them selected by the reference
  and the filter, and a dry run hands over none. When it returns without an error, the batches
  together are the selected entries of the listing, each once and in order; and a dry run has
  printed the line of each of those entries instead.
\<close>

theorem recursive_delete_is_exact:
  assumes "deletePrefix x bucket pattern f w pages calls = (r, s)" and "w_lines w = []"
  shows "list_all (\<lambda>b. 0 < length b \<and> length b \<le> 1000
        \<and> list_all (\<lambda>t. selects (refGlob pattern) (df_filter f) (dt_Key t)) b) (ds_batches s)
    \<and> (df_dryRun f \<longrightarrow> ds_batches s = [])
    \<and> (r = Some None \<longrightarrow>
         (\<exists>obs. ListObjects (x_env x) (x_list x) (x_versions x) bucket (deleteListOptions pattern f) pages = Some (Inr obs)
            \<and> (let ts = map targetOf (filter (\<lambda>ob. selects (refGlob pattern) (df_filter f) (ob_Key ob)) obs) in
               if df_dryRun f then ts \<noteq> [] \<longrightarrow> w_lines (ds_out s) = map (wouldDeleteLine bucket) ts
               else concat (ds_batches s) = ts)))"
  using deletePrefix_sound [OF assms(1)] deletePrefix_returns [of x bucket pattern f w pages calls s] assms
  unfolding soundBatches_def MaxDeleteBatch_def Let_def by (auto split: if_splits)

definition sampleKeys :: "gostring \<Rightarrow> s3err + listObjectsPage" where
  "sampleKeys body =
     Inr \<lparr>lp_IsTruncated = False, lp_NextContinuationToken = [],
          lp_Contents = map (\<lambda>k. \<lparr>ce_Key = k, ce_Size = 1, ce_LastModified = [], ce_ETag = [], ce_StorageClass = []\<rparr>)
            (splitOn (CHR '','') body),
          lp_CommonPrefixes = []\<rparr>"

definition sampleCodec :: s3Codec where
  "sampleCodec = \<lparr>x_env = sampleEnv, x_list = sampleKeys, x_versions = (\<lambda>b. Inl (ErrText [])),
     x_marshalDelete = (\<lambda>ts. concat (map dt_Key ts)), x_deleteResult = (\<lambda>b. Inr [])\<rparr>"

definition deleteFlags :: "bool \<Rightarrow> keyFilter \<Rightarrow> objectDeleteFlags" where
  "deleteFlags recursive f = \<lparr>df_recursive = recursive, df_dryRun = False, df_versionID = [], df_allVersions = False, df_filter = f\<rparr>"

definition silent :: writer where "silent = \<lparr>w_lines = [], w_room = None\<rparr>"

lemma sampleCodec_listing:
  "listLoop sampleEnv sampleKeys bucket opts fn token seen s [[sampleBody body]] =
     (let u = url (v_cfg sampleEnv) bucket [] (listObjectsQuery opts token seen) in
      case emitLoop (lo_Limit opts) fn (pageEntries sampleEnv (projr (sampleKeys body))) seen s of
        (seen', s', done, err) \<Rightarrow> ([u], s', Some err))"
proof -
  let ?u = "url (v_cfg sampleEnv) bucket [] (listObjectsQuery opts token seen)"
  have "snd (getXML sampleEnv ?u sampleKeys [sampleBody body]) = Some (Inr (projr (sampleKeys body)))"
    by (rule getXML_answers) (simp_all add: sampleEnv_def sampleCfg_def answersPage_def sampleBody_def sampleKeys_def)
  then show ?thesis
    by (auto simp: Let_def emitPage_entries sampleKeys_def split: prod.splits)
qed

lemma sampleCodec_delete:
  "targets \<noteq> [] \<Longrightarrow> length targets \<le> MaxDeleteBatch \<Longrightarrow>
   snd (DeleteObjects sampleEnv (x_marshalDelete sampleCodec) (x_deleteResult sampleCodec) bucket targets [sampleAttempt 200])
     = Some (Inr [])"
  by (rule DeleteObjects_answers)
    (simp_all add: sampleEnv_def sampleCfg_def answersPage_def sampleAttempt_def sampleCodec_def)

lemma sampleCodec_sel [simp]: "x_env sampleCodec = sampleEnv" "x_list sampleCodec = sampleKeys"
  by (simp_all add: sampleCodec_def)

text \<open>A listing of two keys, both of them selected, is deleted in one batch.\<close>

lemma sample_delete:
  assumes "filterMatch f ''keep''" and "filterMatch f ''x''"
  shows "\<exists>s. deletePrefix sampleCodec ''b'' ''*'' (deleteFlags r f) silent [[sampleBody ''keep,x'']] [[sampleAttempt 200]] = (Some None, s)
    \<and> ds_batches s = [map (\<lambda>k. \<lparr>dt_Key = k, dt_VersionID = []\<rparr>) [''keep'', ''x'']]"
proof -
  have glob: "selects (refGlob ''*'') f ''keep''" "selects (refGlob ''*'') f ''x''"
    using assms by (simp_all add: selects_def refGlob_def hasGlob_def isWild_def MatchString_def compileGlob_def compileItem_def
        runes_ascii byte_def runeSelf_def lineFeed_def)
  have entries: "pageEntries sampleEnv (projr (sampleKeys ''keep,x''))
      = map (contentObject sampleEnv) (map (\<lambda>k. \<lparr>ce_Key = k, ce_Size = 1, ce_LastModified = [], ce_ETag = [], ce_StorageClass = []\<rparr>)
          [''keep'', ''x''])"
    by (simp add: pageEntries_def sampleKeys_def)
  show ?thesis
    by (simp add: deletePrefix_def ListObjectsFunc_def sampleCodec_listing sampleCodec_delete deleteVisit_def deleteFlush_def
        deleteBatch_def startDelete_def deleteListOptions_def say_def silent_def MaxDeleteBatch_def targetOf_def
        deleteFlags_def Let_def entries contentObject_def newObject_def glob del: listLoop.simps)
qed

theorem recursive_delete_is_exact_witness:
  "\<exists>s. deletePrefix sampleCodec ''b'' ''*'' (deleteFlags True (newFilter [] [])) silent [[sampleBody ''keep,x'']] [[sampleAttempt 200]]
        = (Some None, s)
     \<and> list_all (\<lambda>b. length b \<le> 1000) (ds_batches s) \<and> map dt_Key (concat (ds_batches s)) = [''keep'', ''x'']"
proof -
  obtain s where s: "deletePrefix sampleCodec ''b'' ''*'' (deleteFlags True (newFilter [] [])) silent [[sampleBody ''keep,x'']]
      [[sampleAttempt 200]] = (Some None, s)"
      "ds_batches s = [map (\<lambda>k. \<lparr>dt_Key = k, dt_VersionID = []\<rparr>) [''keep'', ''x'']]"
    using sample_delete [of "newFilter [] []" True] by (auto simp: filterMatch_def newFilter_def matchesAny_def)
  have "w_lines silent = []" by (simp add: silent_def)
  from recursive_delete_is_exact [OF s(1) this] s show ?thesis by (auto simp: list_all_iff)
qed

section \<open>A wildcard reference leaves the filter uncompiled\<close>

lemma uncompiled_filter_accepts: "kf_cinclude f = [] \<Longrightarrow> kf_cexclude f = [] \<Longrightarrow> filterMatch f key"
  by (simp add: filterMatch_def matchesAny_def)

text \<open>
  With a wildcard reference and neither \<^verbatim>\<open>--recursive\<close> nor \<^verbatim>\<open>--all-versions\<close>, \<^verbatim>\<open>--include\<close> and \<^verbatim>\<open>--exclude\<close> have
  no effect: validation accepts the flags and returns before it compiles the patterns, so the
  delete takes every key the wildcard matches, the excluded ones too.
\<close>

lemma wildcard_delete_ignores_filter:
  assumes "deleteValidate f refs = Inr f'" and "df_filter f = newFilter inc exc" and "inc \<noteq> [] \<or> exc \<noteq> []"
    and "\<not> df_recursive f" and "\<not> df_allVersions f" and "\<not> df_dryRun f" and "w_lines w = []"
    and "deletePrefix x bucket pattern f' w pages calls = (Some None, s)"
  shows "\<exists>obs. ListObjects (x_env x) (x_list x) (x_versions x) bucket (deleteListOptions pattern f') pages = Some (Inr obs)
    \<and> concat (ds_batches s) = map targetOf (filter (\<lambda>ob. case refGlob pattern of None \<Rightarrow> True
         | Some g \<Rightarrow> MatchString g (ob_Key ob)) obs)"
proof -
  have f': "f' = f" using assms(1-5) by (auto simp: deleteValidate_def filterActive_def newFilter_def split: if_splits)
  then have "selects g (df_filter f') key = (case g of None \<Rightarrow> True | Some p \<Rightarrow> MatchString p key)" for g key
    using uncompiled_filter_accepts [of "df_filter f" key] assms(2)
    by (auto simp: selects_def newFilter_def split: option.splits)
  then show ?thesis using deletePrefix_returns [OF assms(8,7)] f' assms(6) by (simp add: Let_def)
qed

lemma wildcard_delete_ignores_filter_witness:
  "\<exists>s. deleteValidate (deleteFlags False (newFilter [] [''keep*''])) [''b/*''] = Inr (deleteFlags False (newFilter [] [''keep*'']))
     \<and> deletePrefix sampleCodec ''b'' ''*'' (deleteFlags False (newFilter [] [''keep*''])) silent [[sampleBody ''keep,x'']]
         [[sampleAttempt 200]] = (Some None, s)
     \<and> \<lparr>dt_Key = ''keep'', dt_VersionID = []\<rparr> \<in> set (concat (ds_batches s))"
proof -
  let ?f = "deleteFlags False (newFilter [] [''keep*''])"
  have v: "deleteValidate ?f [''b/*''] = Inr ?f"
    by (simp add: deleteValidate_def deleteFlags_def newFilter_def filterActive_def hasGlob_def isWild_def)
  obtain s where s: "deletePrefix sampleCodec ''b'' ''*'' ?f silent [[sampleBody ''keep,x'']] [[sampleAttempt 200]] = (Some None, s)"
      "ds_batches s = [map (\<lambda>k. \<lparr>dt_Key = k, dt_VersionID = []\<rparr>) [''keep'', ''x'']]"
    using sample_delete [of "newFilter [] [''keep*'']" False] by (auto simp: filterMatch_def newFilter_def matchesAny_def)
  have "\<exists>obs. concat (ds_batches s) = map targetOf (filter (\<lambda>ob. case refGlob ''*'' of None \<Rightarrow> True
         | Some g \<Rightarrow> MatchString g (ob_Key ob)) obs)"
    using wildcard_delete_ignores_filter [OF v, of "[]" "[''keep*'']" silent sampleCodec "''b''" "''*''"
        "[[sampleBody ''keep,x'']]" "[[sampleAttempt 200]]" s] s(1)
    by (auto simp: deleteFlags_def silent_def)
  then show ?thesis using v s by auto
qed

end
