(* ===== verification/S3_Pool.thy ===== *)
theory S3_Pool
  imports S3_Delete "HOL-Library.Multiset"
begin

text \<open>
  The worker pool of \<^verbatim>\<open>src/internal/cli/s3/pool.go\<close>, and the shape every bulk transfer of the package has:
  a walk whose callback starts jobs, then \<^verbatim>\<open>wait\<close>. What the scheduler does between two calls is a list
  of events, so every interleaving of the workers is some input.
\<close>

section \<open>The pool\<close>

text \<open>
  \<open>pl_ctx\<close> is the error of the pool's context once it is done. A job is recorded when it starts and
  again, with its result, when its worker has given the slot back.
\<close>

record 'j pool =
  pl_slots :: nat
  pl_running :: "'j list"
  pl_finished :: "('j \<times> s3err option) list"
  pl_err :: "s3err option"
  pl_ctx :: "s3err option"

definition errCanceled :: s3err where "errCanceled = ErrText ''context canceled''"

definition newPool :: "int \<Rightarrow> s3err option \<Rightarrow> 'j pool" where
  "newPool n ctx =
     \<lparr>pl_slots = nat (if n < 1 then 1 else n), pl_running = [], pl_finished = [], pl_err = None, pl_ctx = ctx\<rparr>"

definition poolFail :: "s3err \<Rightarrow> 'j pool \<Rightarrow> 'j pool" where
  "poolFail e p =
     (if pl_err p = None
      then p\<lparr>pl_err := Some e, pl_ctx := (case pl_ctx p of None \<Rightarrow> Some errCanceled | Some c \<Rightarrow> Some c)\<rparr>
      else p)"

text \<open>The worker at a position ends with a result, or the caller's context is done.\<close>

datatype poolEvent = Finish nat "s3err option" | ParentDone s3err

definition removeAt :: "nat \<Rightarrow> 'a list \<Rightarrow> 'a list" where
  "removeAt i xs = take i xs @ drop (Suc i) xs"

fun poolAct :: "poolEvent \<Rightarrow> 'j pool \<Rightarrow> 'j pool" where
  "poolAct (Finish i res) p =
     (if i < length (pl_running p) then
        let p' = p\<lparr>pl_running := removeAt i (pl_running p), pl_finished := pl_finished p @ [(pl_running p ! i, res)]\<rparr>
        in case res of None \<Rightarrow> p' | Some e \<Rightarrow> poolFail e p'
      else p)"
| "poolAct (ParentDone e) p = (if pl_ctx p = None then p\<lparr>pl_ctx := Some e\<rparr> else p)"

text \<open>
  One call of \<^verbatim>\<open>run\<close>: the events before its \<^verbatim>\<open>select\<close> is decided, and which case is taken when both are
  ready. \<^const>\<open>None\<close> is a call that is still blocked.
\<close>

definition poolRun :: "poolEvent list \<Rightarrow> bool \<Rightarrow> 'j \<Rightarrow> 'j pool \<Rightarrow> bool option \<times> 'j pool" where
  "poolRun evs preferSlot j p0 =
     (let p = fold poolAct evs p0; free = length (pl_running p) < pl_slots p in
      case pl_ctx p of
        None \<Rightarrow> if free then (Some True, p\<lparr>pl_running := pl_running p @ [j]\<rparr>) else (None, p)
      | Some e \<Rightarrow>
          if free \<and> preferSlot then (Some True, p\<lparr>pl_running := pl_running p @ [j]\<rparr>)
          else (Some False, poolFail e p))"

definition poolWait :: "poolEvent list \<Rightarrow> 'j pool \<Rightarrow> s3err option option \<times> 'j pool" where
  "poolWait evs p0 =
     (let p = fold poolAct evs p0 in if pl_running p = [] then (Some (pl_err p), p) else (None, p))"

section \<open>What the pool keeps\<close>

text \<open>
  The slots bound the workers, every job started so far is running or finished, and the error is
  the first one that any of them, or a refused call, recorded.
\<close>

definition poolInv :: "'j list \<Rightarrow> 'j pool \<Rightarrow> bool" where
  "poolInv js p \<longleftrightarrow> 0 < pl_slots p \<and> length (pl_running p) \<le> pl_slots p
     \<and> mset (pl_running p) + mset (map fst (pl_finished p)) = mset js
     \<and> (pl_err p = None \<longrightarrow> list_all (\<lambda>r. snd r = None) (pl_finished p))
     \<and> (pl_err p \<noteq> None \<longrightarrow> pl_ctx p \<noteq> None)"

lemma newPool_inv: "poolInv [] (newPool n ctx)"
  by (simp add: poolInv_def newPool_def)

lemma mset_removeAt: "i < length xs \<Longrightarrow> add_mset (xs ! i) (mset (removeAt i xs)) = mset xs"
  by (metis removeAt_def id_take_nth_drop mset_append mset.simps(2) union_mset_add_mset_right)

lemma length_removeAt: "i < length xs \<Longrightarrow> length (removeAt i xs) = length xs - 1"
  by (auto simp: removeAt_def)

lemma poolFail_inv: "poolInv js (p\<lparr>pl_err := pl_err p\<rparr>) \<Longrightarrow> poolInv js (poolFail e p)"
  by (auto simp: poolInv_def poolFail_def split: option.splits)

lemma poolAct_inv:
  assumes "poolInv js p"
  shows "poolInv js (poolAct ev p)"
proof (cases ev)
  case (ParentDone e)
  then show ?thesis using assms by (auto simp: poolInv_def)
next
  case (Finish i res)
  show ?thesis
  proof (cases "i < length (pl_running p)")
    case True
    have jobs: "mset (removeAt i (pl_running p)) + mset (map fst (pl_finished p @ [(pl_running p ! i, res)])) = mset js"
      using assms mset_removeAt [OF True] by (simp add: poolInv_def) (metis union_mset_add_mset_left)
    have few: "length (removeAt i (pl_running p)) \<le> pl_slots p" using assms True by (auto simp: poolInv_def length_removeAt)
    show ?thesis using assms jobs few True Finish
      by (cases res) (auto simp: poolInv_def Let_def poolFail_def split: option.splits)
  qed (use assms Finish in simp)
qed

lemma poolActs_inv: "poolInv js p \<Longrightarrow> poolInv js (fold poolAct evs p)"
  by (induction evs arbitrary: p) (auto simp: poolAct_inv)

lemma poolRun_inv:
  assumes "poolInv js p" and "poolRun evs choice j p = (r, p')"
  shows "poolInv (if r = Some True then js @ [j] else js) p'"
    and "r = Some False \<Longrightarrow> pl_err p' \<noteq> None"
proof -
  let ?p = "fold poolAct evs p"
  have inv: "poolInv js ?p" using assms(1) by (rule poolActs_inv)
  then have fail: "poolInv js (poolFail e ?p)" for e by (intro poolFail_inv) simp
  have start: "length (pl_running ?p) < pl_slots ?p \<Longrightarrow> poolInv (js @ [j]) (?p\<lparr>pl_running := pl_running ?p @ [j]\<rparr>)"
    using inv by (auto simp: poolInv_def)
  show "poolInv (if r = Some True then js @ [j] else js) p'"
    using assms(2) inv fail start by (auto simp: poolRun_def Let_def split: option.splits if_splits)
  show "pl_err p' \<noteq> None" if "r = Some False"
    using assms(2) that by (auto simp: poolRun_def Let_def poolFail_def split: option.splits if_splits)
qed

lemma poolWait_inv:
  assumes "poolInv js p" and "poolWait evs p = (Some err, p')"
  shows "mset (map fst (pl_finished p')) = mset js" and "err = None \<Longrightarrow> list_all (\<lambda>r. snd r = None) (pl_finished p')"
    and "err = pl_err p'"
  using poolActs_inv [OF assms(1), of evs] assms(2)
  by (auto simp: poolWait_def poolInv_def Let_def split: if_splits)

text \<open>An error, once recorded, is the one that stays.\<close>

lemma poolAct_err: "pl_err p = Some e \<Longrightarrow> pl_err (poolAct ev p) = Some e"
  by (cases ev) (auto simp: Let_def poolFail_def split: option.splits)

lemma poolActs_err: "pl_err p = Some e \<Longrightarrow> pl_err (fold poolAct evs p) = Some e"
  by (induction evs arbitrary: p) (auto simp: poolAct_err)

lemma poolRun_err: "pl_err p = Some e \<Longrightarrow> poolRun evs choice j p = (r, p') \<Longrightarrow> pl_err p' = Some e"
  using poolActs_err [of p e evs] by (auto simp: poolRun_def Let_def poolFail_def split: option.splits if_splits)

section \<open>A walk that starts jobs\<close>

text \<open>
  \<^verbatim>\<open>stop.go\<close>: the sentinel that ends a walk. It is compared by identity, and a walk returns its callback's
  error as it is, so \<^verbatim>\<open>isStopListing\<close> holds of a walk's error when the callback has returned the
  sentinel; \<open>fn_stopped\<close> records that.
\<close>

definition errStopListing :: s3err where "errStopListing = ErrText ''stop listing''"

text \<open>
  What the callback of a bulk transfer does with an entry: pass over it, refuse it, or start a job
  for it. The schedule has one element for each call of \<^verbatim>\<open>run\<close>.
\<close>

datatype 'j decision = Skip | Refuse s3err | Start 'j

record 'j fan =
  fn_pool :: "'j pool"
  fn_taken :: nat
  fn_jobs :: "'j list"
  fn_sched :: "(poolEvent list \<times> bool) list"
  fn_stopped :: bool
  fn_stuck :: bool

definition startJob :: "('j, 'j fan) visitor" where
  "startJob j f =
     (let f' = f\<lparr>fn_taken := Suc (fn_taken f)\<rparr> in
      case fn_sched f of
        [] \<Rightarrow> (Some errStopListing, f'\<lparr>fn_stuck := True\<rparr>)
      | (evs, choice) # sched \<Rightarrow>
          (case poolRun evs choice j (fn_pool f) of
             (None, p) \<Rightarrow> (Some errStopListing, f'\<lparr>fn_pool := p, fn_sched := sched, fn_stuck := True\<rparr>)
           | (Some True, p) \<Rightarrow> (None, f'\<lparr>fn_pool := p, fn_sched := sched, fn_jobs := fn_jobs f @ [j]\<rparr>)
           | (Some False, p) \<Rightarrow> (Some errStopListing, f'\<lparr>fn_pool := p, fn_sched := sched, fn_stopped := True\<rparr>)))"

definition fanVisit :: "('a \<Rightarrow> 'j decision) \<Rightarrow> ('a, 'j fan) visitor" where
  "fanVisit decide a f =
     (case decide a of Skip \<Rightarrow> (None, f) | Refuse e \<Rightarrow> (Some e, f) | Start j \<Rightarrow> startJob j f)"

definition newFan :: "int \<Rightarrow> s3err option \<Rightarrow> (poolEvent list \<times> bool) list \<Rightarrow> 'j fan" where
  "newFan n ctx sched =
     \<lparr>fn_pool = newPool n ctx, fn_taken = 0, fn_jobs = [], fn_sched = sched, fn_stopped = False, fn_stuck = False\<rparr>"

text \<open>
  After the walk: wait for the workers, and let their error stand for a walk that was stopped. The
  walk's outcome is \<^const>\<open>None\<close> when a request of it, or a call of \<^verbatim>\<open>run\<close>, has not returned.
\<close>

definition fanWait :: "outcome \<Rightarrow> poolEvent list \<Rightarrow> 'j fan \<Rightarrow> outcome \<times> 'j fan" where
  "fanWait walked evs f =
     (if fn_stuck f then (None, f)
      else case walked of
          None \<Rightarrow> (None, f)
        | Some err \<Rightarrow>
            (case poolWait evs (fn_pool f) of
               (None, p) \<Rightarrow> (None, f\<lparr>fn_pool := p\<rparr>)
             | (Some waitErr, p) \<Rightarrow>
                 (Some (if err = None \<or> fn_stopped f then waitErr else err),
                  f\<lparr>fn_pool := p\<rparr>)))"

section \<open>A bulk transfer that succeeds has done every job\<close>

definition fanInv :: "'j fan \<Rightarrow> bool" where
  "fanInv f \<longleftrightarrow> poolInv (fn_jobs f) (fn_pool f) \<and> (fn_stopped f \<longrightarrow> pl_err (fn_pool f) \<noteq> None)"

lemma newFan_inv: "fanInv (newFan n ctx sched)"
  by (simp add: fanInv_def newFan_def newPool_inv)

lemma startJob_inv: "fanInv f \<Longrightarrow> fanInv (snd (startJob j f))"
proof -
  assume f: "fanInv f"
  show ?thesis
  proof (cases "fn_sched f")
    case (Cons e sched)
    obtain r p where run: "poolRun (fst e) (snd e) j (fn_pool f) = (r, p)" by fastforce
    have "poolInv (if r = Some True then fn_jobs f @ [j] else fn_jobs f) p" "r = Some False \<Longrightarrow> pl_err p \<noteq> None"
      using poolRun_inv [OF _ run] f by (auto simp: fanInv_def)
    moreover have "fn_stopped f \<Longrightarrow> pl_err p \<noteq> None" using poolRun_err [OF _ run] f by (auto simp: fanInv_def)
    ultimately show ?thesis using Cons run by (auto simp: startJob_def fanInv_def Let_def split: prod.splits option.splits bool.splits)
  qed (use f in \<open>simp add: startJob_def fanInv_def Let_def\<close>)
qed

lemma fanVisit_inv: "fanInv f \<Longrightarrow> fanInv (snd (fanVisit decide a f))"
  by (auto simp: fanVisit_def startJob_inv split: decision.splits)

lemma startJob_None:
  "startJob j f = (None, f') \<Longrightarrow>
     fn_jobs f' = fn_jobs f @ [j] \<and> fn_taken f' = Suc (fn_taken f) \<and> fn_stuck f' = fn_stuck f \<and> fn_stopped f' = fn_stopped f"
  by (auto simp: startJob_def Let_def split: list.splits prod.splits option.splits bool.splits)

fun jobsOf :: "('a \<Rightarrow> 'j decision) \<Rightarrow> 'a list \<Rightarrow> 'j list" where
  "jobsOf decide [] = []"
| "jobsOf decide (a # as) = (case decide a of Start j \<Rightarrow> j # jobsOf decide as | _ \<Rightarrow> jobsOf decide as)"

lemma fanVisit_folds:
  "runCallback (fanVisit decide) as f = (None, f') \<Longrightarrow>
     fn_jobs f' = fn_jobs f @ jobsOf decide as \<and> fn_taken f' = fn_taken f + length (jobsOf decide as)
     \<and> fn_stopped f' = fn_stopped f \<and> list_all (\<lambda>a. \<forall>e. decide a \<noteq> Refuse e) as"
proof (induction as arbitrary: f)
  case (Cons a as)
  obtain f1 where f1: "fanVisit decide a f = (None, f1)" "runCallback (fanVisit decide) as f1 = (None, f')"
    using Cons.prems by (auto split: prod.splits option.splits)
  show ?case
    using Cons.IH [OF f1(2)] f1(1) startJob_None [of _ f f1]
    by (cases "decide a") (auto simp: fanVisit_def)
qed simp

lemma fanWait_success:
  assumes "fanInv f" and "fanWait walked evs f = (Some None, f')"
  shows "walked = Some None \<and> mset (map fst (pl_finished (fn_pool f'))) = mset (fn_jobs f)
    \<and> list_all (\<lambda>r. snd r = None) (pl_finished (fn_pool f')) \<and> fn_taken f' = fn_taken f \<and> fn_jobs f' = fn_jobs f"
proof -
  from assms(2) obtain err p where w: "walked = Some err" "poolWait evs (fn_pool f) = (Some None, p)" "f' = f\<lparr>fn_pool := p\<rparr>"
      "err = None \<or> fn_stopped f"
    by (auto simp: fanWait_def split: if_splits option.splits prod.splits)
  have inv: "poolInv (fn_jobs f) (fn_pool f)" using assms(1) by (simp add: fanInv_def)
  note all = poolWait_inv [OF inv w(2)]
  have "\<not> fn_stopped f"
  proof
    assume "fn_stopped f"
    then obtain e where "pl_err (fn_pool f) = Some e" using assms(1) by (auto simp: fanInv_def)
    then have "pl_err p = Some e" using w(2) poolActs_err by (auto simp: poolWait_def Let_def split: if_splits)
    then show False using all(3) by simp
  qed
  then show ?thesis using w all by auto
qed

text \<open>
  A listing walked by such a callback: what the caller gets when it succeeds, and that its error is
  never dropped.
\<close>

definition fanOut :: "s3Codec \<Rightarrow> gostring \<Rightarrow> listOptions \<Rightarrow> (s3Object \<Rightarrow> 'j decision) \<Rightarrow> 'j fan \<Rightarrow>
    attemptIn list list \<Rightarrow> poolEvent list \<Rightarrow> outcome \<times> 'j fan" where
  "fanOut x bucket opts decide f0 pages evs =
     (case ListObjectsFunc (x_env x) (x_list x) (x_versions x) bucket opts (fanVisit decide) f0 pages of
        (us, f, walked) \<Rightarrow> fanWait walked evs f)"

lemma fanOut_success:
  assumes "fanOut x bucket opts decide (newFan n ctx sched) pages evs = (Some None, f)"
  shows "\<exists>obs. ListObjects (x_env x) (x_list x) (x_versions x) bucket opts pages = Some (Inr obs)
    \<and> mset (map fst (pl_finished (fn_pool f))) = mset (jobsOf decide obs)
    \<and> list_all (\<lambda>r. snd r = None) (pl_finished (fn_pool f))
    \<and> fn_taken f = length (jobsOf decide obs) \<and> list_all (\<lambda>a. \<forall>e. decide a \<noteq> Refuse e) obs"
proof -
  let ?f0 = "newFan n ctx sched :: 'a fan"
  obtain us f1 walked where walk: "ListObjectsFunc (x_env x) (x_list x) (x_versions x) bucket opts (fanVisit decide) ?f0 pages
      = (us, f1, walked)" by (metis prod_cases3)
  have inv: "fanInv f1"
    using fanVisit_inv walk newFan_inv by (rule ListObjectsFunc_invariant [where P = fanInv])
  have "fanWait walked evs f1 = (Some None, f)" using assms walk by (simp add: fanOut_def)
  note all = fanWait_success [OF inv this]
  obtain obs where obs: "ListObjects (x_env x) (x_list x) (x_versions x) bucket opts pages = Some (Inr obs)"
      "runCallback (fanVisit decide) obs ?f0 = (None, f1)"
    using ListObjectsFunc_folds [OF walk [unfolded all [THEN conjunct1]]] by blast
  show ?thesis using obs(1) fanVisit_folds [OF obs(2)] all by (auto simp: newFan_def)
qed

end
