(* ===== verification/S3_Copy.thy ===== *)
theory S3_Copy
  imports S3_Pool Output_Columns
begin

text \<open>
  \<^verbatim>\<open>koc s3 copy\<close> and \<^verbatim>\<open>koc s3 move\<close>, from \<^verbatim>\<open>src/internal/cli/s3/copy.go\<close>: the references, where each object goes,
  one object, and a whole prefix through the pool.
\<close>

section \<open>References and flags\<close>

record copyFlags =
  cf_recursive :: bool
  cf_dryRun :: bool
  cf_flatten :: bool
  cf_versionID :: gostring
  cf_contentType :: gostring
  cf_concurrency :: int
  cf_filter :: keyFilter
  cf_remove :: bool

definition parseCopyRefs :: "gostring \<Rightarrow> gostring \<Rightarrow> copyFlags \<Rightarrow> s3err + objectRef \<times> objectRef \<times> copyFlags" where
  "parseCopyRefs srcRef dstRef f =
     (case parseRef srcRef of
        Inl e \<Rightarrow> Inl e
      | Inr (srcBucket, srcKey) \<Rightarrow>
          (case parseRef dstRef of
             Inl e \<Rightarrow> Inl e
           | Inr (dstBucket, dstKey) \<Rightarrow>
               (let src = \<lparr>or_Bucket = srcBucket, or_Key = srcKey\<rparr>; dst = \<lparr>or_Bucket = dstBucket, or_Key = dstKey\<rparr>;
                    bulk = cf_recursive f \<or> hasGlob srcKey
                in if bulk \<and> cf_versionID f \<noteq> [] then
                     Inl (ErrText ''--version-id names one object; it cannot be combined with --recursive'')
                   else if \<not> bulk \<and> srcKey = [] then Inl (ErrText (srcRef @ '' names no object: expected <bucket>/<key>''))
                   else if \<not> bulk \<and> filterActive (cf_filter f) then
                     Inl (ErrText ''--include/--exclude filter a listing; pass --recursive or a wildcard source'')
                   else if \<not> bulk \<and> cf_flatten f then Inl (ErrText ''--flatten only applies to a recursive copy'')
                   else if \<not> bulk \<and> src = dst then
                     Inl (ErrText (''source and destination are the same object ('' @ refString src @ '')''))
                   else Inr (src, dst, f\<lparr>cf_filter := compileFilter (cf_filter f)\<rparr>))))"

definition keyBase :: "gostring \<Rightarrow> gostring" where
  "keyBase key = last (splitOn (CHR ''/'') key)"

definition copyDestKey :: "gostring \<Rightarrow> gostring \<Rightarrow> gostring \<Rightarrow> bool \<Rightarrow> gostring" where
  "copyDestKey dstPrefix srcPrefix key flatten =
     (let rel = (if flatten then keyBase key
                 else if srcPrefix \<noteq> [] then trimPrefix (trimPrefix key srcPrefix) ''/'' else key);
          rel = (if rel = [] then keyBase key else rel)
      in if dstPrefix = [] then rel else trimSuffix dstPrefix ''/'' @ ''/'' @ rel)"

definition copyLine :: "objectRef \<Rightarrow> objectRef \<Rightarrow> bool \<Rightarrow> bool \<Rightarrow> gostring" where
  "copyLine src dst remove dryRun =
     (if dryRun \<and> remove then ''Would move'' else if dryRun then ''Would copy'' else if remove then ''Moved'' else ''Copied'')
     @ '': '' @ refString src @ '' -> '' @ refString dst"

section \<open>One object\<close>

record copyCodec = s3Codec +
  x_errorDoc :: "gostring \<Rightarrow> gostring option"
  x_copyResult :: "gostring \<Rightarrow> s3err + gostring \<times> gostring"

text \<open>The answers to the copy request and to the delete request that may follow it.\<close>

type_synonym copyInputs = "attemptIn list \<times> attemptIn list"

definition copyOne :: "copyCodec \<Rightarrow> objectRef \<Rightarrow> objectRef \<Rightarrow> copyFlags \<Rightarrow> copyInputs \<Rightarrow> sent list \<times> outcome" where
  "copyOne x src dst f ins =
     (case CopyObject (x_env x) (x_errorDoc x) (x_copyResult x) src dst (cf_versionID f) (cf_contentType f) (fst ins) of
        (log, None) \<Rightarrow> (log, None)
      | (log, Some (Inl e)) \<Rightarrow> (log, Some (Some e))
      | (log, Some (Inr _)) \<Rightarrow>
          if \<not> cf_remove f then (log, Some None)
          else
            (case DeleteObject (x_env x) (or_Bucket src) (or_Key src) (cf_versionID f) (snd ins) of
               (log', None) \<Rightarrow> (log @ log', None)
             | (log', Some (Inl e)) \<Rightarrow>
                 (log @ log', Some (Some (ErrWrap (''copied '' @ refString src @ '' to '' @ refString dst
                    @ '' but could not delete the source: '') e)))
             | (log', Some (Inr _)) \<Rightarrow> (log @ log', Some None)))"

definition copyColumns :: "gostring list" where
  "copyColumns = [''Source'', ''Destination'']"

definition singleDest :: "objectRef \<Rightarrow> objectRef \<Rightarrow> objectRef" where
  "singleDest src dst =
     (if or_Key dst = [] \<or> hasSuffix (or_Key dst) ''/'' then dst\<lparr>or_Key := or_Key dst @ keyBase (or_Key src)\<rparr> else dst)"

section \<open>A prefix\<close>

text \<open>A job is the pair of references; a worker's own steps are \<open>copyWork\<close>.\<close>

type_synonym copyJob = "objectRef \<times> objectRef"

definition copyWork :: "copyCodec \<Rightarrow> copyFlags \<Rightarrow> copyJob \<Rightarrow> copyInputs \<Rightarrow> writer \<Rightarrow> sent list \<times> outcome \<times> writer" where
  "copyWork x f job ins w =
     (let (src, dst) = job in
      if cf_dryRun f then (case say (copyLine src dst (cf_remove f) True) w of (err, w') \<Rightarrow> ([], Some err, w'))
      else
        (case copyOne x src dst f ins of
           (log, Some None) \<Rightarrow> (case say (copyLine src dst (cf_remove f) False) w of (err, w') \<Rightarrow> (log, Some err, w'))
         | (log, r) \<Rightarrow> (log, r, w)))"

definition copyDecide :: "objectRef \<Rightarrow> objectRef \<Rightarrow> copyFlags \<Rightarrow> s3Object \<Rightarrow> copyJob decision" where
  "copyDecide src dst f ob =
     (if \<not> selects (refGlob (or_Key src)) (cf_filter f) (ob_Key ob) then Skip
      else
        (let from = \<lparr>or_Bucket = or_Bucket src, or_Key = ob_Key ob\<rparr>;
             to = \<lparr>or_Bucket = or_Bucket dst,
                    or_Key = copyDestKey (or_Key dst) (globPrefix (or_Key src)) (ob_Key ob) (cf_flatten f)\<rparr>
         in if from = to then Skip else Start (from, to)))"

definition prefixOptions :: "gostring \<Rightarrow> listOptions" where
  "prefixOptions prefix = \<lparr>lo_Prefix = prefix, lo_Delimiter = [], lo_Limit = 0, lo_Versions = False\<rparr>"

text \<open>What the scheduler and the wire do during a bulk transfer.\<close>

record bulkInputs =
  bi_ctx :: "s3err option"
  bi_pages :: "attemptIn list list"
  bi_sched :: "(poolEvent list \<times> bool) list"
  bi_wait :: "poolEvent list"

definition runCopyRecursive :: "copyCodec \<Rightarrow> objectRef \<Rightarrow> objectRef \<Rightarrow> copyFlags \<Rightarrow> bulkInputs \<Rightarrow> writer \<Rightarrow>
    outcome \<times> copyJob fan \<times> writer" where
  "runCopyRecursive x src dst f ins w =
     (case fanOut (s3Codec.truncate x) (or_Bucket src) (prefixOptions (globPrefix (or_Key src))) (copyDecide src dst f)
             (newFan (cf_concurrency f) (bi_ctx ins) (bi_sched ins)) (bi_pages ins) (bi_wait ins) of
        (None, fan) \<Rightarrow> (None, fan, w)
      | (Some (Some e), fan) \<Rightarrow> (Some (Some (ErrWrap (''copying '' @ refString src @ '': '') e)), fan, w)
      | (Some None, fan) \<Rightarrow>
          if fn_taken fan = 0 then
            (case say (''No objects under '' @ refString src) w of (err, w') \<Rightarrow> (Some err, fan, w'))
          else (Some None, fan, w))"

section \<open>The command\<close>

record copyRun =
  cr_sent :: "sent list"
  cr_outcome :: outcome
  cr_out :: writer
  cr_table :: "rendered option"
  cr_fan :: "copyJob fan option"

definition copyEnds :: "sent list \<Rightarrow> outcome \<Rightarrow> writer \<Rightarrow> copyRun" where
  "copyEnds log r w = \<lparr>cr_sent = log, cr_outcome = r, cr_out = w, cr_table = None, cr_fan = None\<rparr>"

definition runCopy :: "copyCodec \<Rightarrow> int \<Rightarrow> outOptions \<Rightarrow> objectRef \<Rightarrow> objectRef \<Rightarrow> copyFlags \<Rightarrow> bulkInputs \<Rightarrow> copyInputs \<Rightarrow>
    writer \<Rightarrow> copyRun" where
  "runCopy x width opts src dst f bulk ins w =
     (if cf_recursive f \<or> hasGlob (or_Key src) then
        (case runCopyRecursive x src dst f bulk w of (r, fan, w') \<Rightarrow> (copyEnds [] r w')\<lparr>cr_fan := Some fan\<rparr>)
      else
        case CheckColumns opts copyColumns of
          Some e \<Rightarrow> copyEnds [] (Some (Some (ErrText (columnErrorText e)))) w
        | None \<Rightarrow>
            (let dst = singleDest src dst in
             if cf_dryRun f then
               (case say (copyLine src dst (cf_remove f) True) w of (err, w') \<Rightarrow> copyEnds [] (Some err) w')
             else
               (case copyOne x src dst f ins of
                  (log, Some None) \<Rightarrow>
                    (case WriteSingle None width opts copyColumns [VStr (refString src), VStr (refString dst)] of
                       Some (Inr t) \<Rightarrow> (copyEnds log (Some None) w)\<lparr>cr_table := Some t\<rparr>
                     | Some (Inl e) \<Rightarrow> copyEnds log (Some (Some (ErrText (columnErrorText e)))) w
                     | None \<Rightarrow> copyEnds log (Some (Some (ErrText ''internal error''))) w)
                | (log, r) \<Rightarrow> copyEnds log r w)))"

section \<open>Where the requests of a call go\<close>

definition goesTo :: "gostring \<Rightarrow> goURL \<Rightarrow> sent \<Rightarrow> bool" where
  "goesTo method u s \<longleftrightarrow> q_Method (st_request s) = method
     \<and> map_option q_URL (newRequest method u []) = Some (q_URL (st_request s))"

definition addresses :: "s3Env \<Rightarrow> gostring \<Rightarrow> objectRef \<Rightarrow> sent \<Rightarrow> bool" where
  "addresses v method ref = goesTo method (url (v_cfg v) (or_Bucket ref) (or_Key ref) [])"

lemma sign_target: "q_Method (sign sha hmac cfg req h now) = q_Method req" "q_URL (sign sha hmac cfg req h now) = q_URL req"
  by (simp_all add: sign_def Let_def case_prod_unfold)

lemma newRequest_target:
  "newRequest method u hdr = Some req \<Longrightarrow> q_Method req = method \<and> map_option q_URL (newRequest method u []) = Some (q_URL req)"
  by (auto simp: newRequest_def Let_def split: option.splits)

lemma attempt_target:
  assumes "attempt g i pos = (log, r)"
  shows "list_all (goesTo (rq_method (en_req g)) (rq_url (en_req g))) log"
proof (cases "newRequest (rq_method (en_req g)) (rq_url (en_req g)) (rq_header (en_req g))")
  case None
  then show ?thesis using assms by (simp add: attempt_def Let_def)
next
  case (Some req)
  then show ?thesis using assms newRequest_target [OF Some]
    by (auto simp: attempt_def Let_def sign_target goesTo_def split: sum.splits if_splits)
qed

lemma doLoop_target:
  "doLoop g start n pos is = (log, r) \<Longrightarrow> list_all (goesTo (rq_method (en_req g)) (rq_url (en_req g))) log"
proof (induction "is" arbitrary: n pos log r)
  case (Cons i "is")
  from Cons.prems show ?case
    by (cases rule: doLoop_step) (use Cons.IH attempt_target in auto)
qed simp

lemma call_target: "call v req sink is = (log, r) \<Longrightarrow> list_all (goesTo (rq_method req) (rq_url req)) log"
  by (auto simp: call_def s3do_def split: sum.splits dest!: doLoop_target)

lemma CopyObject_target:
  assumes "CopyObject v errorDoc decode src dst ver ct is = (log, r)"
  shows "list_all (addresses v ''PUT'' dst) log"
proof -
  have "\<exists>hdr sink (r0 :: (s3err + gostring \<times> gostring) option).
      call v ((bodyless ''PUT'' (url (v_cfg v) (or_Bucket dst) (or_Key dst) []))\<lparr>rq_header := hdr\<rparr>) sink is = (log, r0)"
    using assms unfolding CopyObject_def Let_def map_prod_def by (auto split: prod.splits)
  then show ?thesis using call_target by (fastforce simp: addresses_def bodyless_def)
qed

lemma DeleteObject_target:
  "DeleteObject v bucket key [] is = (log, r) \<Longrightarrow> list_all (addresses v ''DELETE'' \<lparr>or_Bucket = bucket, or_Key = key\<rparr>) log"
  by (auto simp: DeleteObject_def addresses_def bodyless_def versionQuery_def dest!: call_target)

section \<open>A move deletes only what it has copied\<close>

lemma copyOne_deletes:
  assumes "copyOne x src dst f ins = (log, r)" and "list_ex (\<lambda>s. q_Method (st_request s) = ''DELETE'') log"
  shows "cf_remove f \<and> (\<exists>log' info. CopyObject (x_env x) (x_errorDoc x) (x_copyResult x) src dst (cf_versionID f)
    (cf_contentType f) (fst ins) = (log', Some (Inr info)))"
proof -
  obtain log' r' where copy: "CopyObject (x_env x) (x_errorDoc x) (x_copyResult x) src dst (cf_versionID f)
      (cf_contentType f) (fst ins) = (log', r')" by fastforce
  have "\<not> list_ex (\<lambda>s. q_Method (st_request s) = ''DELETE'') log'"
    using CopyObject_target [OF copy] by (auto simp: list_all_iff list_ex_iff addresses_def goesTo_def)
  then show ?thesis using assms copy
    by (auto simp: copyOne_def split: option.splits sum.splits if_splits)
qed

text \<open>
  C21. A move deletes a source only once the store has confirmed its copy, and a recursive copy or move
  that reports success has dealt with every selected object: the jobs that finished, all without an
  error, are one for each object of the listing that the wildcard and the filter select and that
  is not its own destination.
\<close>

lemma runCopyRecursive_complete:
  assumes "runCopyRecursive x src dst f bulk w = (Some None, fan, w')"
  shows "\<exists>obs. ListObjects (x_env x) (x_list x) (x_versions x) (or_Bucket src) (prefixOptions (globPrefix (or_Key src))) (bi_pages bulk)
      = Some (Inr obs)
    \<and> mset (map fst (pl_finished (fn_pool fan))) = mset (jobsOf (copyDecide src dst f) obs)
    \<and> list_all (\<lambda>r. snd r = None) (pl_finished (fn_pool fan))"
proof -
  have "fanOut (s3Codec.truncate x) (or_Bucket src) (prefixOptions (globPrefix (or_Key src))) (copyDecide src dst f)
      (newFan (cf_concurrency f) (bi_ctx bulk) (bi_sched bulk)) (bi_pages bulk) (bi_wait bulk) = (Some None, fan)"
    using assms by (auto simp: runCopyRecursive_def split: prod.splits option.splits if_splits)
  from fanOut_success [OF this] show ?thesis by (auto simp: s3Codec.defs)
qed

theorem move_deletes_only_copied_objects:
  "(copyOne x src dst f ins = (log, r) \<and> list_ex (\<lambda>s. q_Method (st_request s) = ''DELETE'') log \<longrightarrow>
      cf_remove f \<and> (\<exists>log' info. CopyObject (x_env x) (x_errorDoc x) (x_copyResult x) src dst (cf_versionID f)
        (cf_contentType f) (fst ins) = (log', Some (Inr info))))
   \<and> (runCopyRecursive x src dst f bulk w = (Some None, fan, w') \<longrightarrow>
      (\<exists>obs. ListObjects (x_env x) (x_list x) (x_versions x) (or_Bucket src) (prefixOptions (globPrefix (or_Key src))) (bi_pages bulk)
          = Some (Inr obs)
        \<and> mset (map fst (pl_finished (fn_pool fan))) = mset (jobsOf (copyDecide src dst f) obs)
        \<and> list_all (\<lambda>r. snd r = None) (pl_finished (fn_pool fan))))"
  using copyOne_deletes [of x src dst f ins log r] runCopyRecursive_complete [of x src dst f bulk w fan w'] by blast

section \<open>A move into its own directory\<close>

lemma copyOne_accepted:
  assumes "u_RawQuery (c_base (v_cfg (x_env x))) = []" and "cf_remove f" and "cf_versionID f = []"
    and "ai_http i = Inr resp" and "200 \<le> rs_StatusCode resp" and "rs_StatusCode resp < 300"
    and "x_errorDoc x (take errorBodyLimit (rs_Body resp)) = None"
    and "x_copyResult x (take errorBodyLimit (rs_Body resp)) = Inr info"
    and "ai_http j = Inr resp'" and "200 \<le> rs_StatusCode resp'" and "rs_StatusCode resp' < 300"
  shows "\<exists>put del. copyOne x src dst f (i # is, j # js) = ([put, del], Some None)
    \<and> addresses (x_env x) ''PUT'' dst put \<and> addresses (x_env x) ''DELETE'' src del"
proof -
  let ?v = "x_env x"
  have "\<exists>put inf. CopyObject ?v (x_errorDoc x) (x_copyResult x) src dst (cf_versionID f) (cf_contentType f) (i # is) = ([put], Some (Inr inf))"
  proof -
    let ?u = "url (v_cfg ?v) (or_Bucket dst) (or_Key dst) []"
    have "rq_url ((bodyless ''PUT'' ?u)\<lparr>rq_header := hdr\<rparr>) = ?u" for hdr by (simp add: bodyless_def)
    note acc = call_first_accepted [OF assms(1) this assms(4-6)]
    let ?hdr = "(''x-amz-copy-source'', copySource src (cf_versionID f)) # (if cf_contentType f \<noteq> []
      then [(hdrContentType, cf_contentType f), (''x-amz-metadata-directive'', ''REPLACE'')] else [])"
    let ?sink = "lateErrorSink (x_errorDoc x) (x_copyResult x) ''copy was refused after the request was accepted'' ''PUT'' (u_Path ?u)"
    have "?sink resp = Inr info" using assms(7,8) by (simp add: lateErrorSink_def errorCodeInBody_def Let_def)
    then obtain put where "call ?v ((bodyless ''PUT'' ?u)\<lparr>rq_header := ?hdr\<rparr>) ?sink (i # is) = ([put], Some (Inr info))"
      using acc [of ?hdr ?sink "is"] by auto
    then show ?thesis by (auto simp: CopyObject_def Let_def case_prod_unfold)
  qed
  then obtain put inf where put: "CopyObject ?v (x_errorDoc x) (x_copyResult x) src dst (cf_versionID f) (cf_contentType f) (i # is)
      = ([put], Some (Inr inf))" by blast
  have "rq_url (bodyless ''DELETE'' (url (v_cfg ?v) (or_Bucket src) (or_Key src) (versionQuery [])))
      = url (v_cfg ?v) (or_Bucket src) (or_Key src) (versionQuery [])" by (simp add: bodyless_def)
  from call_first_accepted [OF assms(1) this assms(9-11), of drainBody js]
  obtain del where del: "DeleteObject ?v (or_Bucket src) (or_Key src) [] (j # js) = ([del], Some (Inr ()))"
    by (auto simp: DeleteObject_def drainBody_def)
  have "addresses ?v ''PUT'' dst put" using CopyObject_target [OF put] by simp
  moreover have "addresses ?v ''DELETE'' src del" using DeleteObject_target [OF del] by (cases src) simp
  ultimately show ?thesis using put del assms(2,3) by (auto simp: copyOne_def)
qed

text \<open>
  A move whose destination is the directory the object is already in deletes the object. The
  check for a source that equals its destination is made before the destination takes the source's
  base name, so \<^verbatim>\<open>move b/a/k b/a/\<close> passes it; the copy then writes the object over itself, and when the
  store accepts that, the delete removes it and the command reports success.
\<close>

lemma move_into_own_directory_deletes:
  assumes "parseCopyRefs srcRef dstRef f = Inr (src, dst, f')" and "cf_remove f" and "\<not> cf_dryRun f"
    and "\<not> cf_recursive f" and "\<not> hasGlob (or_Key src)" and "cf_versionID f = []"
    and "or_Bucket dst = or_Bucket src" and "or_Key src = or_Key dst @ keyBase (or_Key src)"
    and "or_Key dst = [] \<or> hasSuffix (or_Key dst) ''/''"
    and "CheckColumns opts copyColumns = None" and "u_RawQuery (c_base (v_cfg (x_env x))) = []"
    and "ai_http i = Inr resp" and "200 \<le> rs_StatusCode resp" and "rs_StatusCode resp < 300"
    and "x_errorDoc x (take errorBodyLimit (rs_Body resp)) = None"
    and "x_copyResult x (take errorBodyLimit (rs_Body resp)) = Inr info"
    and "ai_http j = Inr resp'" and "200 \<le> rs_StatusCode resp'" and "rs_StatusCode resp' < 300"
  shows "\<exists>put del. cr_sent (runCopy x width opts src dst f' bulk (i # is, j # js) w) = [put, del]
    \<and> addresses (x_env x) ''PUT'' src put \<and> addresses (x_env x) ''DELETE'' src del
    \<and> cr_outcome (runCopy x width opts src dst f' bulk (i # is, j # js) w) = Some None"
proof -
  have f': "cf_remove f'" "\<not> cf_dryRun f'" "\<not> cf_recursive f'" "cf_versionID f' = []"
    using assms(1-4,6) by (auto simp: parseCopyRefs_def Let_def split: sum.splits prod.splits if_splits)
  have self: "singleDest src dst = src" using assms(7-9) by (cases dst; cases src) (auto simp: singleDest_def)
  from copyOne_accepted [OF assms(11) f'(1,4) assms(12-19), of src src "is" js] obtain put del where
    "copyOne x src src f' (i # is, j # js) = ([put, del], Some None)"
    "addresses (x_env x) ''PUT'' src put" "addresses (x_env x) ''DELETE'' src del" by blast
  moreover have "validateColumns opts copyColumns = None" using assms(10) by (auto simp: CheckColumns_def split: option.splits)
  then have "\<exists>t. WriteSingle None width opts copyColumns [VStr (refString src), VStr (refString src)] = Some (Inr t)"
    by (cases "selectFields opts [''Source'', ''Destination''] [VStr (refString src), VStr (refString src)]")
      (auto simp: WriteSingle_def copyColumns_def Let_def split: prod.splits)
  ultimately show ?thesis using f' assms(5,10) self by (auto simp: runCopy_def copyEnds_def Let_def)
qed

definition sampleCopyCodec :: copyCodec where
  "sampleCopyCodec = s3Codec.extend sampleCodec \<lparr>x_errorDoc = (\<lambda>b. None), x_copyResult = (\<lambda>b. Inr ([], []))\<rparr>"

definition moveFlags :: copyFlags where
  "moveFlags = \<lparr>cf_recursive = False, cf_dryRun = False, cf_flatten = False, cf_versionID = [], cf_contentType = ''text/plain'',
     cf_concurrency = 4, cf_filter = newFilter [] [], cf_remove = True\<rparr>"

lemma sampleCopyCodec_sel:
  "x_env sampleCopyCodec = sampleEnv" "x_errorDoc sampleCopyCodec b = None" "x_copyResult sampleCopyCodec b = Inr ([], [])"
  "x_list sampleCopyCodec = sampleKeys"
  by (simp_all add: sampleCopyCodec_def s3Codec.defs sampleCodec_def)

lemma move_into_own_directory_deletes_witness:
  "\<exists>put del. cr_sent (runCopy sampleCopyCodec 80 (sampleOut\<lparr>oo_Columns := [], oo_SortColumns := []\<rparr>) \<lparr>or_Bucket = ''b'', or_Key = ''a/k''\<rparr>
        \<lparr>or_Bucket = ''b'', or_Key = ''a/''\<rparr> (moveFlags\<lparr>cf_filter := compileFilter (newFilter [] [])\<rparr>)
        \<lparr>bi_ctx = None, bi_pages = [], bi_sched = [], bi_wait = []\<rparr> ([sampleAttempt 200], [sampleAttempt 204]) silent) = [put, del]
     \<and> addresses sampleEnv ''PUT'' \<lparr>or_Bucket = ''b'', or_Key = ''a/k''\<rparr> put
     \<and> addresses sampleEnv ''DELETE'' \<lparr>or_Bucket = ''b'', or_Key = ''a/k''\<rparr> del"
proof -
  let ?f = "moveFlags\<lparr>cf_filter := compileFilter (newFilter [] [])\<rparr>" and ?o = "sampleOut\<lparr>oo_Columns := [], oo_SortColumns := []\<rparr>"
  have parse: "parseCopyRefs ''b/a/k'' ''s3://b/a/'' moveFlags
      = Inr (\<lparr>or_Bucket = ''b'', or_Key = ''a/k''\<rparr>, \<lparr>or_Bucket = ''b'', or_Key = ''a/''\<rparr>, ?f)"
    by (simp add: parseCopyRefs_def parseRef_def trimPrefix_def hasPrefix_def hasGlob_def isWild_def moveFlags_def
        newFilter_def filterActive_def Let_def)
  have "CheckColumns ?o copyColumns = None" by (simp add: CheckColumns_def validateColumns_def)
  from move_into_own_directory_deletes [OF parse _ _ _ _ _ _ _ _ this, of sampleCopyCodec "sampleAttempt 200"
      "\<lparr>rs_StatusCode = 200, rs_Header = [], rs_ContentLength = 0, rs_Body = []\<rparr>" "([], [])" "sampleAttempt 204"
      "\<lparr>rs_StatusCode = 204, rs_Header = [], rs_ContentLength = 0, rs_Body = []\<rparr>" 80
      "\<lparr>bi_ctx = None, bi_pages = [], bi_sched = [], bi_wait = []\<rparr>" "[]" "[]" silent]
  show ?thesis
    by (auto simp: sampleCopyCodec_sel moveFlags_def hasGlob_def isWild_def keyBase_def hasSuffix_def hasPrefix_def
        sampleAttempt_def sampleEnv_def sampleCfg_def)
qed

theorem move_deletes_only_copied_objects_witness:
  "\<exists>log. copyOne sampleCopyCodec \<lparr>or_Bucket = ''b'', or_Key = ''k''\<rparr> \<lparr>or_Bucket = ''c'', or_Key = ''k''\<rparr> moveFlags
       ([sampleAttempt 200], [sampleAttempt 204]) = (log, Some None)
     \<and> list_ex (\<lambda>s. q_Method (st_request s) = ''DELETE'') log
     \<and> (\<exists>log' info. CopyObject sampleEnv (\<lambda>b. None) (\<lambda>b. Inr ([], [])) \<lparr>or_Bucket = ''b'', or_Key = ''k''\<rparr>
          \<lparr>or_Bucket = ''c'', or_Key = ''k''\<rparr> [] ''text/plain'' [sampleAttempt 200] = (log', Some (Inr info)))"
proof -
  let ?src = "\<lparr>or_Bucket = ''b'', or_Key = ''k''\<rparr>" and ?dst = "\<lparr>or_Bucket = ''c'', or_Key = ''k''\<rparr>"
  let ?ins = "([sampleAttempt 200], [sampleAttempt 204])"
  have "\<exists>put del. copyOne sampleCopyCodec ?src ?dst moveFlags ?ins = ([put, del], Some None)
      \<and> addresses sampleEnv ''PUT'' ?dst put \<and> addresses sampleEnv ''DELETE'' ?src del"
    using copyOne_accepted [of sampleCopyCodec moveFlags "sampleAttempt 200" _ "([], [])" "sampleAttempt 204" _ ?src ?dst "[]" "[]"]
    by (auto simp: sampleCopyCodec_sel moveFlags_def sampleAttempt_def sampleEnv_def sampleCfg_def)
  then obtain put del where one: "copyOne sampleCopyCodec ?src ?dst moveFlags ?ins = ([put, del], Some None)"
      "q_Method (st_request del) = ''DELETE''"
    by (auto simp: addresses_def goesTo_def)
  have codec: "x_errorDoc sampleCopyCodec = (\<lambda>b. None)" "x_copyResult sampleCopyCodec = (\<lambda>b. Inr ([], []))"
    by (simp_all add: fun_eq_iff sampleCopyCodec_sel)
  from move_deletes_only_copied_objects [of sampleCopyCodec ?src ?dst moveFlags ?ins "[put, del]" "Some None"] one
  have "\<exists>log' info. CopyObject (x_env sampleCopyCodec) (x_errorDoc sampleCopyCodec) (x_copyResult sampleCopyCodec) ?src ?dst
      (cf_versionID moveFlags) (cf_contentType moveFlags) (fst ?ins) = (log', Some (Inr info))" by auto
  then show ?thesis using one unfolding codec by (auto simp: sampleCopyCodec_sel moveFlags_def)
qed

end
