(* ===== verification/Go_Path.thy ===== *)
theory Go_Path
  imports Go_Strings
begin

text \<open>
  The lexical functions of Go's \<^verbatim>\<open>path/filepath\<close> on a system whose separator is the slash: \<^verbatim>\<open>Clean\<close>,
  \<^verbatim>\<open>Join\<close>, \<^verbatim>\<open>Base\<close>, \<^verbatim>\<open>Dir\<close> and \<^verbatim>\<open>Rel\<close> (\<^verbatim>\<open>FromSlash\<close> and \<^verbatim>\<open>ToSlash\<close> are the identity there). A clean path is
  the rendering of whether it is rooted and of a list of names, in which dot-dot occurs only in
  front and only in a relative path.
\<close>

section \<open>Paths\<close>

definition slashed :: "gostring \<Rightarrow> bool" where
  "slashed p \<longleftrightarrow> take 1 p = ''/''"

text \<open>The names read so far, the last one first.\<close>

definition cleanStep :: "bool \<Rightarrow> gostring \<Rightarrow> gostring list \<Rightarrow> gostring list" where
  "cleanStep rooted e st =
     (if e = [] \<or> e = ''.'' then st
      else if e = ''..'' then
        (case st of
           [] \<Rightarrow> if rooted then [] else [''..'']
         | n # st' \<Rightarrow> if n = ''..'' then ''..'' # st else st')
      else e # st)"

definition pathNames :: "gostring \<Rightarrow> gostring list" where
  "pathNames p = rev (fold (cleanStep (slashed p)) (splitOn (CHR ''/'') p) [])"

fun renderPath :: "bool \<Rightarrow> gostring list \<Rightarrow> gostring" where
  "renderPath True ns = ''/'' @ joinWith ''/'' ns"
| "renderPath False ns = (if ns = [] then ''.'' else joinWith ''/'' ns)"

definition Clean :: "gostring \<Rightarrow> gostring" where
  "Clean p = renderPath (slashed p) (pathNames p)"

definition JoinPath :: "gostring \<Rightarrow> gostring \<Rightarrow> gostring" where
  "JoinPath a b =
     (if a \<noteq> [] then Clean (a @ ''/'' @ b) else if b \<noteq> [] then Clean b else [])"

definition Base :: "gostring \<Rightarrow> gostring" where
  "Base p =
     (if p = [] then ''.''
      else let q = trimRightByte p (CHR ''/'') in
        if q = [] then ''/'' else last (splitOn (CHR ''/'') q))"

definition Dir :: "gostring \<Rightarrow> gostring" where
  "Dir p = Clean (concat (map (\<lambda>s. s @ ''/'') (butlast (splitOn (CHR ''/'') p))))"

fun dropCommon :: "'a list \<Rightarrow> 'a list \<Rightarrow> 'a list \<times> 'a list" where
  "dropCommon (b # bs) (t # ts) = (if b = t then dropCommon bs ts else (b # bs, t # ts))"
| "dropCommon bs ts = (bs, ts)"

definition relElems :: "gostring \<Rightarrow> gostring list" where
  "relElems p = (if p = [] then [] else if p = ''/'' then [[]] else splitOn (CHR ''/'') p)"

text \<open>\<^const>\<open>None\<close> is the error: one path is rooted and the other is not, or the working directory would have to be known.\<close>

definition Rel :: "gostring \<Rightarrow> gostring \<Rightarrow> gostring option" where
  "Rel basepath targpath =
     (let base = Clean basepath; targ = Clean targpath in
      if targ = base then Some ''.''
      else
        let base = (if base = ''.'' then [] else base) in
        if slashed base \<noteq> slashed targ then None
        else case dropCommon (relElems base) (relElems targ) of
            (bs, ts) \<Rightarrow>
              if bs \<noteq> [] \<and> hd bs = ''..'' then None
              else Some (joinWith ''/'' (replicate (length bs) ''..'' @ ts)))"

section \<open>Names of a clean path\<close>

definition plainName :: "gostring \<Rightarrow> bool" where
  "plainName n \<longleftrightarrow> n \<noteq> [] \<and> n \<noteq> ''.'' \<and> n \<noteq> ''..'' \<and> CHR ''/'' \<notin> set n"

definition cleanNames :: "bool \<Rightarrow> gostring list \<Rightarrow> bool" where
  "cleanNames rooted ns \<longleftrightarrow>
     (\<exists>k ps. ns = replicate k ''..'' @ ps \<and> list_all plainName ps \<and> (rooted \<longrightarrow> k = 0))"

lemma cleanNames_Nil [simp]: "cleanNames rooted []"
  by (auto simp: cleanNames_def)

lemma cleanNames_no_slash: "cleanNames rooted ns \<Longrightarrow> n \<in> set ns \<Longrightarrow> n \<noteq> [] \<and> n \<noteq> ''.'' \<and> CHR ''/'' \<notin> set n"
proof -
  assume "cleanNames rooted ns" and n: "n \<in> set ns"
  then obtain k ps where ns: "ns = replicate k ''..'' @ ps" "list_all plainName ps" unfolding cleanNames_def by blast
  then have "n = ''..'' \<or> plainName n" using n by (auto simp: list_all_iff split: if_splits)
  then show ?thesis by (auto simp: plainName_def)
qed

lemma cleanNamesI: "list_all plainName ps \<Longrightarrow> (rooted \<Longrightarrow> k = 0) \<Longrightarrow> cleanNames rooted (replicate k ''..'' @ ps)"
  unfolding cleanNames_def by blast

lemma cleanStep_clean:
  assumes "cleanNames rooted (rev st)" and "CHR ''/'' \<notin> set e"
  shows "cleanNames rooted (rev (cleanStep rooted e st))"
proof -
  from assms(1) obtain k ps where st: "rev st = replicate k ''..'' @ ps" "list_all plainName ps" "rooted \<longrightarrow> k = 0"
    by (auto simp: cleanNames_def)
  consider "e = [] \<or> e = ''.''" | "e = ''..''" | "plainName e" using assms(2) by (auto simp: plainName_def)
  then show ?thesis
  proof cases
    case 1
    then show ?thesis using assms(1) by (auto simp: cleanStep_def)
  next
    case 2
    show ?thesis
    proof (cases ps rule: rev_cases)
      case Nil
      then have st': "st = replicate k ''..''" using st(1) by (metis append_Nil2 rev_replicate rev_rev_ident)
      show ?thesis
      proof (cases k)
        case 0
        then show ?thesis using 2 st' by (auto simp: cleanStep_def cleanNames_def intro!: exI [of _ 1] exI [of _ "[]"])
      next
        case (Suc m)
        then have "cleanStep rooted e st = replicate (Suc k) ''..''" using 2 st' by (simp add: cleanStep_def)
        then show ?thesis using Suc st(3)
          by (auto simp: cleanNames_def simp del: replicate.simps intro!: exI [of _ "Suc k"] exI [of _ "[]"])
      qed
    next
      case (snoc qs q)
      then have "st = q # rev (replicate k ''..'' @ qs)" using st(1) by (metis append_assoc rev_append rev_rev_ident rev_singleton_conv append_Cons append_Nil)
      moreover have "q \<noteq> ''..''" using st(2) snoc by (simp add: plainName_def)
      ultimately have "rev (cleanStep rooted e st) = replicate k ''..'' @ qs" using 2 by (simp add: cleanStep_def)
      then show ?thesis using st(2,3) snoc by (auto simp: cleanNames_def)
    qed
  next
    case 3
    then have "rev (cleanStep rooted e st) = replicate k ''..'' @ (ps @ [e])" using st(1) by (simp add: cleanStep_def plainName_def)
    then show ?thesis using cleanNamesI [of "ps @ [e]" rooted k] 3 st(2,3) by simp
  qed
qed

lemma cleanFold_clean:
  "cleanNames rooted (rev st) \<Longrightarrow> list_all (\<lambda>e. CHR ''/'' \<notin> set e) es \<Longrightarrow> cleanNames rooted (rev (fold (cleanStep rooted) es st))"
  by (induction es arbitrary: st) (auto simp: cleanStep_clean)

lemma pathNames_clean: "cleanNames (slashed p) (pathNames p)"
  unfolding pathNames_def
  by (rule cleanFold_clean) (auto simp: list_all_iff dest: splitOn_fields)

text \<open>Reading the names of a clean path back changes nothing.\<close>

lemma cleanFold_names:
  "cleanNames rooted ns \<Longrightarrow> fold (cleanStep rooted) ns [] = rev ns"
proof -
  assume "cleanNames rooted ns"
  then obtain k ps where ns: "ns = replicate k ''..'' @ ps" "list_all plainName ps" "rooted \<longrightarrow> k = 0"
    by (auto simp: cleanNames_def)
  have dots: "fold (cleanStep rooted) (replicate k ''..'') [] = replicate k ''..''"
  proof (cases rooted)
    case False
    have "fold (cleanStep rooted) (replicate j ''..'') (replicate i ''..'') = replicate (j + i) ''..''" for i j
    proof (induction j arbitrary: i)
      case (Suc j)
      have "cleanStep rooted ''..'' (replicate i ''..'') = replicate (Suc i) ''..''" using False by (cases i) (auto simp: cleanStep_def)
      then show ?case using Suc [of "Suc i"] by simp
    qed simp
    from this [of k 0] show ?thesis by simp
  qed (use ns(3) in simp)
  have "fold (cleanStep rooted) ps st = rev ps @ st" for st
    using ns(2) by (induction ps arbitrary: st) (auto simp: cleanStep_def plainName_def)
  then show ?thesis using dots ns(1) by (simp add: rev_replicate)
qed

lemma slashed_render: "cleanNames rooted ns \<Longrightarrow> slashed (renderPath rooted ns) = rooted"
proof (cases rooted)
  case False
  assume c: "cleanNames rooted ns"
  show ?thesis
  proof (cases ns)
    case (Cons n ms)
    then have "n \<noteq> [] \<and> CHR ''/'' \<notin> set n" using cleanNames_no_slash [OF c] by simp
    then show ?thesis using False Cons by (cases ms; cases n) (auto simp: slashed_def)
  qed (use False in \<open>simp add: slashed_def\<close>)
qed (simp add: slashed_def)

lemma splitOn_names:
  assumes "cleanNames rooted ns" and "ns \<noteq> []"
  shows "splitOn (CHR ''/'') (joinWith ''/'' ns) = ns"
  using splitOn_join [of ns "CHR ''/''"] cleanNames_no_slash [OF assms(1)] assms(2) by auto

lemma pathNames_render:
  assumes "cleanNames rooted ns"
  shows "pathNames (renderPath rooted ns) = ns"
proof (cases "ns = []")
  case True
  then show ?thesis by (cases rooted) (auto simp: pathNames_def slashed_def cleanStep_def)
next
  case False
  have "splitOn (CHR ''/'') (renderPath rooted ns) = (if rooted then [[]] else []) @ ns"
    using False splitOn_names [OF assms False] by (cases rooted) auto
  moreover have "fold (cleanStep rooted) ((if rooted then [[]] else []) @ ns) [] = rev ns"
    using cleanFold_names [OF assms] by (cases rooted) (simp_all add: cleanStep_def)
  ultimately show ?thesis using slashed_render [OF assms] by (simp add: pathNames_def)
qed

lemma slashed_Clean [simp]: "slashed (Clean p) = slashed p"
  unfolding Clean_def by (rule slashed_render) (rule pathNames_clean)

lemma pathNames_Clean [simp]: "pathNames (Clean p) = pathNames p"
  unfolding Clean_def by (rule pathNames_render) (rule pathNames_clean)

lemma Clean_idem [simp]: "Clean (Clean p) = Clean p"
  unfolding Clean_def [of "Clean p"] slashed_Clean pathNames_Clean by (rule Clean_def [symmetric])

lemma Clean_eq_iff: "Clean p = Clean q \<longleftrightarrow> slashed p = slashed q \<and> pathNames p = pathNames q"
proof
  assume eq: "Clean p = Clean q"
  then have "slashed (Clean p) = slashed (Clean q)" "pathNames (Clean p) = pathNames (Clean q)" by simp_all
  then show "slashed p = slashed q \<and> pathNames p = pathNames q" by simp
qed (simp add: Clean_def)

section \<open>A relative path that does not go up names something inside\<close>

definition insidePath :: "gostring \<Rightarrow> gostring \<Rightarrow> bool" where
  "insidePath dir p \<longleftrightarrow> slashed p = slashed dir
     \<and> take (length (pathNames dir)) (pathNames p) = pathNames dir
     \<and> list_all plainName (drop (length (pathNames dir)) (pathNames p))"

lemma insidePath_iff:
  "insidePath dir p \<longleftrightarrow> slashed p = slashed dir \<and> (\<exists>ns. pathNames p = pathNames dir @ ns \<and> list_all plainName ns)"
  unfolding insidePath_def by (metis append_eq_conv_conj append_take_drop_id)

lemma insidePath_Clean [simp]: "insidePath (Clean dir) p = insidePath dir p" "insidePath dir (Clean p) = insidePath dir p"
  by (simp_all add: insidePath_def)

definition upward :: "gostring \<Rightarrow> bool" where
  "upward rel \<longleftrightarrow> rel = ''..'' \<or> hasPrefix rel ''../''"

lemma upward_join:
  assumes "CHR ''/'' \<notin> set n"
  shows "upward (joinWith ''/'' (n # ns)) \<longleftrightarrow> n = ''..''"
proof
  assume up: "upward (joinWith ''/'' (n # ns))"
  show "n = ''..''"
  proof (cases ns)
    case Nil
    then show ?thesis using up assms by (auto simp: upward_def hasPrefix_iff)
  next
    case (Cons m ms)
    then obtain t where t: "n @ CHR ''/'' # joinWith ''/'' ns = ''../'' @ t"
      using up by (auto simp: upward_def hasPrefix_iff dest: arg_cong [of _ _ "\<lambda>l. CHR ''/'' \<in> set l"])
    have "takeWhile (\<lambda>c. c \<noteq> CHR ''/'') (n @ CHR ''/'' # joinWith ''/'' ns) = n"
      using assms by (subst takeWhile_append2) auto
    moreover have "takeWhile (\<lambda>c. c \<noteq> CHR ''/'') (''../'' @ t) = ''..''" by simp
    ultimately show ?thesis using t by metis
  qed
next
  assume "n = ''..''"
  then show "upward (joinWith ''/'' (n # ns))" by (cases ns) (auto simp: upward_def hasPrefix_def)
qed

lemma cleanNames_suffix:
  assumes "cleanNames rooted (a @ ts)" and "ts \<noteq> []" and "hd ts \<noteq> ''..''"
  shows "list_all plainName ts"
proof -
  from assms(1) obtain k ps where ps: "a @ ts = replicate k ''..'' @ ps" "list_all plainName ps" by (auto simp: cleanNames_def)
  then consider u where "ts = u @ ps" "a @ u = replicate k ''..''" | u where "u @ ts = ps"
    by (auto simp: append_eq_append_conv2)
  then show ?thesis
  proof cases
    case 1
    show ?thesis
    proof (cases u)
      case (Cons x xs)
      then have "x = ''..''" using 1(2) by (metis in_set_conv_decomp in_set_replicate)
      then show ?thesis using assms(3) 1(1) Cons by simp
    qed (use 1 ps(2) in simp)
  next
    case 2
    then show ?thesis using ps(2) by auto
  qed
qed

lemma dropCommon_split:
  "dropCommon bs ts = (bs', ts') \<Longrightarrow> \<exists>c. bs = c @ bs' \<and> ts = c @ ts' \<and> (bs' = [] \<or> ts' = [] \<or> hd bs' \<noteq> hd ts')"
proof (induction bs ts rule: dropCommon.induct)
  case (1 b bs t ts)
  then show ?case by (auto split: if_splits intro: exI [of _ "[]"])
qed auto

lemma dropCommon_same [simp]: "dropCommon (c @ bs) (c @ ts) = dropCommon bs ts"
  by (induction c) auto

lemma relElems_base:
  "relElems (if Clean p = ''.'' then [] else Clean p) = (if slashed p then [[]] else []) @ pathNames p"
  and slashed_base: "slashed (if Clean p = ''.'' then [] else Clean p) = slashed p"
  and relElems_targ: "relElems (Clean p) = (if slashed p then [[]] @ pathNames p else if pathNames p = [] then [''.''] else pathNames p)"
proof -
  have dot: "Clean p = ''.'' \<longleftrightarrow> \<not> slashed p \<and> pathNames p = []"
  proof
    assume "Clean p = ''.''"
    moreover have "\<not> slashed ''.''" "pathNames ''.'' = []" by (simp_all add: slashed_def pathNames_def cleanStep_def)
    ultimately show "\<not> slashed p \<and> pathNames p = []" by (metis slashed_Clean pathNames_Clean)
  qed (simp add: Clean_def)
  moreover have "\<not> slashed []" by (simp add: slashed_def)
  ultimately show "slashed (if Clean p = ''.'' then [] else Clean p) = slashed p" by simp
  have join: "joinWith ''/'' ns \<noteq> [] \<and> joinWith ''/'' ns \<noteq> ''/''" if "cleanNames r ns" "ns \<noteq> []" for r ns
    using splitOn_names [OF that] cleanNames_no_slash [OF that(1)] that(2) by force
  show targ: "relElems (Clean p) = (if slashed p then [[]] @ pathNames p else if pathNames p = [] then [''.''] else pathNames p)"
  proof (cases "pathNames p = []")
    case True
    then show ?thesis by (cases "slashed p") (auto simp: Clean_def relElems_def)
  next
    case False
    note c = splitOn_names [OF pathNames_clean False] join [OF pathNames_clean False]
    show ?thesis using False c by (cases "slashed p") (auto simp: Clean_def relElems_def)
  qed
  show "relElems (if Clean p = ''.'' then [] else Clean p) = (if slashed p then [[]] else []) @ pathNames p"
    using dot targ by (auto simp: relElems_def)
qed

lemma Rel_inside: "(\<exists>r. Rel base targ = Some r \<and> \<not> upward r \<and> r \<noteq> []) \<longleftrightarrow> insidePath base targ"
proof (cases "Clean targ = Clean base")
  case True
  then show ?thesis by (auto simp: Rel_def upward_def hasPrefix_def insidePath_def Clean_eq_iff)
next
  case differ: False
  show ?thesis
  proof (cases "slashed base = slashed targ")
    case False
    then have "Rel base targ = None" using differ unfolding Rel_def Let_def slashed_base by simp
    then show ?thesis using False by (auto simp: insidePath_def)
  next
    case same: True
    let ?T = "if \<not> slashed targ \<and> pathNames targ = [] then [''.''] else pathNames targ"
    obtain bs ts where drop: "dropCommon (pathNames base) ?T = (bs, ts)" by fastforce
    have "dropCommon ((if slashed base then [[]] else []) @ pathNames base)
        (if slashed targ then [[]] @ pathNames targ else if pathNames targ = [] then [''.''] else pathNames targ) = (bs, ts)"
      using drop same by (cases "slashed targ") auto
    then have rel: "Rel base targ = (if bs \<noteq> [] \<and> hd bs = ''..'' then None
        else Some (joinWith ''/'' (replicate (length bs) ''..'' @ ts)))"
      using differ same unfolding Rel_def Let_def slashed_base relElems_base relElems_targ by simp
    from dropCommon_split [OF drop] obtain c
      where c: "pathNames base = c @ bs" "?T = c @ ts" "bs = [] \<or> ts = [] \<or> hd bs \<noteq> hd ts" by blast
    show ?thesis
    proof (cases bs)
      case (Cons b bs')
      then have "\<not> (\<exists>r. Rel base targ = Some r \<and> \<not> upward r \<and> r \<noteq> [])"
        using rel upward_join [of "''..''"] by simp
      moreover have "\<not> insidePath base targ"
      proof
        assume "insidePath base targ"
        then obtain ns where ns: "pathNames targ = c @ bs @ ns" using c(1) by (auto simp: insidePath_iff)
        then have "?T = pathNames targ" using Cons by auto
        then show False using c(2,3) ns Cons by auto
      qed
      ultimately show ?thesis by blast
    next
      case Nil
      have "pathNames targ \<noteq> pathNames base" using differ same by (auto simp: Clean_eq_iff)
      moreover have "pathNames base \<noteq> [''.'']"
        using cleanNames_no_slash [OF pathNames_clean [of base], of "''.''"] by (metis list.set_intros(1))
      moreover have "c = pathNames base" using c(1) Nil by simp
      ultimately have "?T = pathNames targ" using c(2) by (cases "pathNames base") (auto split: if_splits)
      then have targ: "pathNames targ = pathNames base @ ts" using c Nil by simp
      then have "ts \<noteq> []" using \<open>pathNames targ \<noteq> pathNames base\<close> by auto
      then obtain t tt where ts: "ts = t # tt" by (cases ts) auto
      have "t \<in> set (pathNames targ)" using targ ts by simp
      then have t: "CHR ''/'' \<notin> set t" "t \<noteq> []" using cleanNames_no_slash [OF pathNames_clean [of targ]] by blast+
      then have "joinWith ''/'' ts \<noteq> []" using ts by (cases tt) auto
      moreover have "upward (joinWith ''/'' ts) \<longleftrightarrow> t = ''..''" using upward_join t(1) ts by simp
      moreover have "list_all plainName ts \<longleftrightarrow> t \<noteq> ''..''"
        using cleanNames_suffix [of "slashed targ" "pathNames base" ts] pathNames_clean [of targ] targ ts
        by (auto simp: plainName_def)
      ultimately show ?thesis using rel Nil same targ by (auto simp: insidePath_iff)
    qed
  qed
qed

section \<open>Joining\<close>

lemma splitOn_append: "splitOn c (a @ c # b) = splitOn c a @ splitOn c b"
proof (induction a)
  case (Cons x a)
  then show ?case by (cases "splitOn c a") auto
qed simp

lemma JoinPath_names:
  assumes "dir \<noteq> []"
  shows "slashed (JoinPath dir rel) = slashed dir"
    and "pathNames (JoinPath dir rel) = rev (fold (cleanStep (slashed dir)) (splitOn (CHR ''/'') rel) (rev (pathNames dir)))"
proof -
  have s: "slashed (dir @ ''/'' @ rel) = slashed dir" using assms by (cases dir) (auto simp: slashed_def)
  then show "slashed (JoinPath dir rel) = slashed dir" using assms by (simp add: JoinPath_def)
  show "pathNames (JoinPath dir rel) = rev (fold (cleanStep (slashed dir)) (splitOn (CHR ''/'') rel) (rev (pathNames dir)))"
  proof -
    have "pathNames (JoinPath dir rel) = pathNames (dir @ ''/'' @ rel)" using assms by (simp add: JoinPath_def)
    then show ?thesis using s splitOn_append [of "CHR ''/''" dir rel] by (simp add: pathNames_def)
  qed
qed

lemma cleanFold_plain:
  "''..'' \<notin> set es \<Longrightarrow> fold (cleanStep rooted) es st = rev (filter (\<lambda>e. e \<noteq> [] \<and> e \<noteq> ''.'') es) @ st"
  by (induction es arbitrary: st) (auto simp: cleanStep_def)

text \<open>Joining a relative path that never names the parent stays inside; it only drops empty and dot names.\<close>

lemma JoinPath_plain:
  assumes "dir \<noteq> []" and "''..'' \<notin> set (splitOn (CHR ''/'') rel)"
  shows "pathNames (JoinPath dir rel) = pathNames dir @ filter (\<lambda>e. e \<noteq> [] \<and> e \<noteq> ''.'') (splitOn (CHR ''/'') rel)"
    and "insidePath dir (JoinPath dir rel)"
proof -
  show names: "pathNames (JoinPath dir rel) = pathNames dir @ filter (\<lambda>e. e \<noteq> [] \<and> e \<noteq> ''.'') (splitOn (CHR ''/'') rel)"
    using JoinPath_names(2) [OF assms(1)] cleanFold_plain [OF assms(2)] by simp
  have "list_all plainName (filter (\<lambda>e. e \<noteq> [] \<and> e \<noteq> ''.'') (splitOn (CHR ''/'') rel))"
    using assms(2) splitOn_fields by (force simp: list_all_iff plainName_def)
  then show "insidePath dir (JoinPath dir rel)" using names JoinPath_names(1) [OF assms(1)] by (auto simp: insidePath_iff)
qed

lemma JoinPath_Clean [simp]: "Clean (JoinPath a b) = JoinPath a b" if "a \<noteq> [] \<or> b \<noteq> []"
  using that by (auto simp: JoinPath_def)

end
