(* ===== verification/S3_Download.thy ===== *)
theory S3_Download
  imports S3_Copy Go_Path
begin

text \<open>
  \<^verbatim>\<open>koc s3 download\<close>, from \<^verbatim>\<open>src/internal/cli/s3/download.go\<close>. The local file system is a map from paths to
  contents; whether a path is a directory and the errors of opening, closing and removing a file
  are input.
\<close>

section \<open>The request\<close>

record downloadFlags =
  dl_force :: bool
  dl_recursive :: bool
  dl_dryRun :: bool
  dl_flatten :: bool
  dl_versionID :: gostring
  dl_concurrency :: int
  dl_filter :: keyFilter

record downloadRequest =
  dq_bucket :: gostring
  dq_key :: gostring
  dq_dest :: gostring
  dq_flags :: downloadFlags

definition newDownloadRequest :: "gostring list \<Rightarrow> downloadFlags \<Rightarrow> s3err + downloadRequest" where
  "newDownloadRequest args f =
     (case parseRef (hd args) of
        Inl e \<Rightarrow> Inl e
      | Inr (bucket, key) \<Rightarrow>
          (let dest = (if length args = 2 then args ! 1 else []);
               bulk = dl_recursive f \<or> hasGlob key
           in if bulk \<and> dest = ''-'' then Inl (ErrText ''a recursive download needs a directory, not stdout'')
              else if bulk \<and> dl_versionID f \<noteq> [] then
                Inl (ErrText ''--version-id names one object; it cannot be combined with --recursive'')
              else if \<not> bulk \<and> key = [] then Inl (ErrText (hd args @ '' names no object: expected <bucket>/<key>''))
              else if \<not> bulk \<and> filterActive (dl_filter f) then
                Inl (ErrText ''--include/--exclude filter a listing; pass --recursive or a wildcard reference'')
              else if \<not> bulk \<and> dl_flatten f then Inl (ErrText ''--flatten only applies to a recursive download'')
              else Inr \<lparr>dq_bucket = bucket, dq_key = key, dq_dest = dest,
                         dq_flags = f\<lparr>dl_filter := compileFilter (dl_filter f)\<rparr>\<rparr>))"

section \<open>Where a key goes\<close>

definition mustRel :: "gostring \<Rightarrow> gostring \<Rightarrow> gostring" where
  "mustRel base target =
     (case Rel base target of
        None \<Rightarrow> []
      | Some rel \<Rightarrow> if rel = ''..'' \<or> hasPrefix rel ''../'' then [] else rel)"

definition relForKey :: "gostring \<Rightarrow> gostring \<Rightarrow> bool \<Rightarrow> gostring" where
  "relForKey prefix key flatten =
     (let rel = (if flatten then Base key
                 else if prefix \<noteq> [] then trimPrefix (trimPrefix key prefix) ''/'' else key)
      in if rel = [] then Base key else rel)"

definition destForKey :: "gostring \<Rightarrow> gostring \<Rightarrow> gostring \<Rightarrow> bool \<Rightarrow> s3err + gostring" where
  "destForKey dir prefix key flatten =
     (let dest = JoinPath dir (relForKey prefix key flatten); clean = Clean dir in
      if mustRel clean dest = [] then
        Inl (ErrText (''object key '' @ key @ '' would be written outside '' @ clean @ ''; refusing''))
      else Inr dest)"

section \<open>One file\<close>

type_synonym files = "gostring \<rightharpoonup> gostring"

text \<open>
  What a download meets: the answers on the wire, what \<^verbatim>\<open>io.Copy\<close> does with the body of the response, the
  errors of opening and closing the file, and whether removing it works.
\<close>

record fileInputs =
  fi_attempts :: "attemptIn list"
  fi_copy :: "response \<Rightarrow> nat \<times> s3err option"
  fi_open :: "s3err option"
  fi_close :: "s3err option"
  fi_removes :: bool

definition firstAccepted :: "attemptIn list \<Rightarrow> response option" where
  "firstAccepted is = (case filter accepted is of [] \<Rightarrow> None | i # _ \<Rightarrow> (case ai_http i of Inl e \<Rightarrow> None | Inr resp \<Rightarrow> Some resp))"

text \<open>
  The bytes that reached the writer, given the requests sent: an accepted response is the last one,
  so no other body is copied.
\<close>

definition copied :: "fileInputs \<Rightarrow> sent list \<Rightarrow> gostring" where
  "copied fin log =
     (case firstAccepted (take (length log) (fi_attempts fin)) of
        None \<Rightarrow> []
      | Some resp \<Rightarrow> take (fst (fi_copy fin resp)) (rs_Body resp))"

definition downloadError :: "gostring \<Rightarrow> gostring \<Rightarrow> s3err \<Rightarrow> s3err" where
  "downloadError bucket key e =
     (if IsNotFound e then ErrText (''no object '' @ key @ '' in bucket '' @ bucket)
      else ErrWrap (''downloading '' @ bucket @ ''/'' @ key @ '': '') e)"

definition downloadToFile :: "s3Env \<Rightarrow> gostring \<Rightarrow> gostring \<Rightarrow> gostring \<Rightarrow> gostring \<Rightarrow> bool \<Rightarrow> fileInputs \<Rightarrow> files \<Rightarrow>
    (s3err + nat) option \<times> files" where
  "downloadToFile v bucket key versionID dest force fin fs =
     (if \<not> force \<and> fs dest \<noteq> None then (Some (Inl (ErrText (dest @ '' already exists (pass --force to overwrite)''))), fs)
      else case fi_open fin of
          Some e \<Rightarrow> (Some (Inl (ErrWrap (''creating '' @ dest @ '': '') e)), fs)
        | None \<Rightarrow>
            (let (log, res) = GetObject v (fi_copy fin) bucket key versionID (fi_attempts fin);
                 kept = fs(dest \<mapsto> copied fin log);
                 failed = (if fi_removes fin then fs(dest := None) else kept)
             in case res of
                  None \<Rightarrow> (None, kept)
                | Some (Inl e) \<Rightarrow> (Some (Inl (downloadError bucket key e)), failed)
                | Some (Inr n) \<Rightarrow>
                    (case fi_close fin of
                       Some e \<Rightarrow> (Some (Inl (ErrWrap (''closing '' @ dest @ '': '') e)), failed)
                     | None \<Rightarrow> (Some (Inr n), kept))))"

text \<open>\<open>mkdir\<close> is the error of creating the directory of the destination.\<close>

definition downloadOne :: "s3Env \<Rightarrow> gostring \<Rightarrow> gostring \<Rightarrow> gostring \<Rightarrow> downloadFlags \<Rightarrow> fileInputs \<Rightarrow> s3err option \<Rightarrow>
    files \<times> writer \<Rightarrow> outcome \<times> files \<times> writer" where
  "downloadOne v bucket key dest f fin mkdir st =
     (let (fs, w) = st in
      if dl_dryRun f then
        (case say (''Would download '' @ bucket @ ''/'' @ key @ '' to '' @ dest) w of (err, w') \<Rightarrow> (Some err, fs, w'))
      else if \<not> dl_force f \<and> fs dest \<noteq> None then
        (case say (''Skipped (exists): '' @ dest) w of (err, w') \<Rightarrow> (Some err, fs, w'))
      else case mkdir of
          Some e \<Rightarrow> (Some (Some (ErrWrap (''creating '' @ Dir dest @ '': '') e)), fs, w)
        | None \<Rightarrow>
            (case downloadToFile v bucket key [] dest (dl_force f) fin fs of
               (None, fs') \<Rightarrow> (None, fs', w)
             | (Some (Inl e), fs') \<Rightarrow> (Some (Some e), fs', w)
             | (Some (Inr n), fs') \<Rightarrow>
                 (case say (''Downloaded: '' @ bucket @ ''/'' @ key @ '' -> '' @ dest @ '' ('' @ itoa (int n) @ '' bytes)'') w of
                    (err, w') \<Rightarrow> (Some err, fs', w'))))"

section \<open>A prefix\<close>

text \<open>A job is a key and the path it is written to.\<close>

type_synonym downloadJob = "gostring \<times> gostring"

definition downloadDecide :: "gostring \<Rightarrow> gostring \<Rightarrow> downloadFlags \<Rightarrow> s3Object \<Rightarrow> downloadJob decision" where
  "downloadDecide dir pattern f ob =
     (if hasSuffix (ob_Key ob) ''/'' then Skip
      else if \<not> selects (refGlob pattern) (dl_filter f) (ob_Key ob) then Skip
      else case destForKey dir (globPrefix pattern) (ob_Key ob) (dl_flatten f) of
          Inl e \<Rightarrow> Refuse e
        | Inr dest \<Rightarrow> Start (ob_Key ob, dest))"

definition downloadDir :: "downloadRequest \<Rightarrow> gostring" where
  "downloadDir r = (if dq_dest r = [] then ''.'' else dq_dest r)"

definition runDownloadRecursive :: "s3Codec \<Rightarrow> downloadRequest \<Rightarrow> bulkInputs \<Rightarrow> writer \<Rightarrow> outcome \<times> downloadJob fan \<times> writer" where
  "runDownloadRecursive x r ins w =
     (case fanOut x (dq_bucket r) (prefixOptions (globPrefix (dq_key r))) (downloadDecide (downloadDir r) (dq_key r) (dq_flags r))
             (newFan (dl_concurrency (dq_flags r)) (bi_ctx ins) (bi_sched ins)) (bi_pages ins) (bi_wait ins) of
        (None, fan) \<Rightarrow> (None, fan, w)
      | (Some (Some e), fan) \<Rightarrow>
          (Some (Some (ErrWrap (''downloading '' @ dq_bucket r @ ''/'' @ dq_key r @ '': '') e)), fan, w)
      | (Some None, fan) \<Rightarrow>
          if fn_taken fan = 0 then
            (case say (''No objects under '' @ dq_bucket r @ ''/'' @ dq_key r) w of (err, w') \<Rightarrow> (Some err, fan, w'))
          else (Some None, fan, w))"

section \<open>The command\<close>

definition singlePath :: "downloadRequest \<Rightarrow> (gostring \<Rightarrow> bool) \<Rightarrow> gostring" where
  "singlePath r isDir =
     (let dest = (if dq_dest r = [] then Base (dq_key r) else dq_dest r)
      in if isDir dest then JoinPath dest (Base (dq_key r)) else dest)"

record downloadRun =
  dn_outcome :: outcome
  dn_files :: files
  dn_out :: writer
  dn_stdout :: gostring
  dn_table :: "rendered option"
  dn_fan :: "downloadJob fan option"

definition downloadEnds :: "outcome \<Rightarrow> files \<Rightarrow> writer \<Rightarrow> downloadRun" where
  "downloadEnds r fs w = \<lparr>dn_outcome = r, dn_files = fs, dn_out = w, dn_stdout = [], dn_table = None, dn_fan = None\<rparr>"

text \<open>
  \<open>isDir\<close> is what \<^verbatim>\<open>os.Stat\<close> says of a path. The files a recursive run writes are those of \<^const>\<open>downloadOne\<close>,
  job by job.
\<close>

definition runDownload :: "s3Codec \<Rightarrow> int \<Rightarrow> outOptions \<Rightarrow> downloadRequest \<Rightarrow> (gostring \<Rightarrow> bool) \<Rightarrow> bulkInputs \<Rightarrow> fileInputs \<Rightarrow>
    files \<Rightarrow> writer \<Rightarrow> downloadRun" where
  "runDownload x width opts r isDir bulk fin fs w =
     (let f = dq_flags r in
      if dl_recursive f \<or> hasGlob (dq_key r) then
        (case runDownloadRecursive x r bulk w of (res, fan, w') \<Rightarrow> (downloadEnds res fs w')\<lparr>dn_fan := Some fan\<rparr>)
      else if dq_dest r = ''-'' then
        (if dl_dryRun f then
           (case say (''Would download '' @ dq_bucket r @ ''/'' @ dq_key r @ '' to stdout'') w of
              (err, w') \<Rightarrow> downloadEnds (Some err) fs w')
         else
           (case GetObject (x_env x) (fi_copy fin) (dq_bucket r) (dq_key r) (dl_versionID f) (fi_attempts fin) of
              (log, res) \<Rightarrow>
                (downloadEnds (map_option (\<lambda>res. case res of Inl e \<Rightarrow> Some (downloadError (dq_bucket r) (dq_key r) e) | Inr n \<Rightarrow> None) res)
                   fs w)\<lparr>dn_stdout := copied fin log\<rparr>))
      else
        (let dest = singlePath r isDir in
         if dl_dryRun f then
           (case say (''Would download '' @ dq_bucket r @ ''/'' @ dq_key r @ '' to '' @ dest) w of
              (err, w') \<Rightarrow> downloadEnds (Some err) fs w')
         else
           (case downloadToFile (x_env x) (dq_bucket r) (dq_key r) (dl_versionID f) dest (dl_force f) fin fs of
              (None, fs') \<Rightarrow> downloadEnds None fs' w
            | (Some (Inl e), fs') \<Rightarrow> downloadEnds (Some (Some e)) fs' w
            | (Some (Inr n), fs') \<Rightarrow>
                (case WriteSingle None width opts [''Bucket'', ''Key'', ''File'', ''Size'']
                        [VStr (dq_bucket r), VStr (dq_key r), VStr dest, VInt (int n)] of
                   Some (Inr t) \<Rightarrow> (downloadEnds (Some None) fs' w)\<lparr>dn_table := Some t\<rparr>
                 | Some (Inl e) \<Rightarrow> downloadEnds (Some (Some (ErrText (columnErrorText e)))) fs' w
                 | None \<Rightarrow> downloadEnds (Some (Some (ErrText ''internal error''))) fs' w))))"

section \<open>Downloads stay inside their directory\<close>

lemma mustRel_inside: "mustRel base target \<noteq> [] \<longleftrightarrow> insidePath base target"
  unfolding Rel_inside [symmetric] by (auto simp: mustRel_def upward_def split: option.splits)

lemma destForKey_inside:
  "destForKey dir prefix key flatten = (if insidePath dir (JoinPath dir (relForKey prefix key flatten))
     then Inr (JoinPath dir (relForKey prefix key flatten))
     else Inl (ErrText (''object key '' @ key @ '' would be written outside '' @ Clean dir @ ''; refusing'')))"
  using mustRel_inside [of "Clean dir" "JoinPath dir (relForKey prefix key flatten)"]
  by (auto simp: destForKey_def Let_def)

lemma destForKey_accepts:
  assumes "dir \<noteq> []" and "''..'' \<notin> set (splitOn (CHR ''/'') (relForKey prefix key flatten))"
  shows "destForKey dir prefix key flatten = Inr (JoinPath dir (relForKey prefix key flatten))"
  using JoinPath_plain(2) [OF assms] by (simp add: destForKey_inside)

definition jobInside :: "gostring \<Rightarrow> downloadJob \<Rightarrow> bool" where
  "jobInside dir job = insidePath dir (snd job)"

lemma downloadVisit_inside:
  assumes "list_all (jobInside dir) (fn_jobs s)"
  shows "list_all (jobInside dir) (fn_jobs (snd (fanVisit (downloadDecide dir pattern f) ob s)))"
proof (cases "downloadDecide dir pattern f ob")
  case (Start j)
  then have "jobInside dir j"
    by (auto simp: downloadDecide_def destForKey_inside jobInside_def split: if_splits)
  moreover have "fn_jobs (snd (startJob j s)) = fn_jobs s \<or> fn_jobs (snd (startJob j s)) = fn_jobs s @ [j]"
    by (auto simp: startJob_def Let_def split: list.splits prod.splits option.splits bool.splits)
  ultimately show ?thesis using assms Start by (auto simp: fanVisit_def)
qed (use assms in \<open>simp_all add: fanVisit_def\<close>)

lemma fanOut_invariant:
  assumes "\<And>ob s. P (fn_jobs s) \<Longrightarrow> P (fn_jobs (snd (fanVisit decide ob s)))"
    and "fanOut x bucket opts decide (newFan n ctx sched) pages evs = (r, f)" and "P []"
  shows "P (fn_jobs f)"
proof -
  obtain us f1 walked where walk: "ListObjectsFunc (x_env x) (x_list x) (x_versions x) bucket opts (fanVisit decide)
      (newFan n ctx sched) pages = (us, f1, walked)" by (metis prod_cases3)
  have "P (fn_jobs (newFan n ctx sched))" using assms(3) by (simp add: newFan_def)
  from ListObjectsFunc_invariant [where P = "\<lambda>s. P (fn_jobs s)", OF assms(1) walk this] have "P (fn_jobs f1)" .
  then show ?thesis using assms(2) walk
    by (auto simp: fanOut_def fanWait_def split: if_splits option.splits prod.splits)
qed

text \<open>
  C11. A recursive download never writes outside its directory, whatever the keys are: however it ends,
  every job it started has a path inside the directory. When it succeeds, each selected key has
  been downloaded without an error, and none was refused; a key is refused only if its path goes
  up, so a key without a dot-dot element never is.
\<close>

theorem downloads_stay_inside:
  assumes "runDownloadRecursive x r ins w = (res, fan, w')"
  shows "list_all (\<lambda>job. insidePath (downloadDir r) (snd job)) (fn_jobs fan)
    \<and> (res = Some None \<longrightarrow> (\<exists>obs. ListObjects (x_env x) (x_list x) (x_versions x) (dq_bucket r)
          (prefixOptions (globPrefix (dq_key r))) (bi_pages ins) = Some (Inr obs)
        \<and> mset (map fst (pl_finished (fn_pool fan))) = mset (jobsOf (downloadDecide (downloadDir r) (dq_key r) (dq_flags r)) obs)
        \<and> list_all (\<lambda>e. snd e = None) (pl_finished (fn_pool fan))))
    \<and> (''..'' \<notin> set (splitOn (CHR ''/'') (relForKey prefix key flatten)) \<longrightarrow>
         destForKey (downloadDir r) prefix key flatten = Inr (JoinPath (downloadDir r) (relForKey prefix key flatten)))"
proof -
  let ?decide = "downloadDecide (downloadDir r) (dq_key r) (dq_flags r)"
  obtain res' where out: "fanOut x (dq_bucket r) (prefixOptions (globPrefix (dq_key r))) ?decide
      (newFan (dl_concurrency (dq_flags r)) (bi_ctx ins) (bi_sched ins)) (bi_pages ins) (bi_wait ins) = (res', fan)"
    "res = Some None \<Longrightarrow> res' = Some None"
    using assms by (auto simp: runDownloadRecursive_def split: prod.splits option.splits if_splits)
  have "list_all (jobInside (downloadDir r)) (fn_jobs fan)"
    by (rule fanOut_invariant [where P = "list_all (jobInside (downloadDir r))", OF downloadVisit_inside out(1)]) simp_all
  moreover have "downloadDir r \<noteq> []" by (simp add: downloadDir_def)
  ultimately show ?thesis
    using fanOut_success [of x "dq_bucket r" _ ?decide] out destForKey_accepts [of "downloadDir r" prefix key flatten]
    by (fastforce simp: jobInside_def list_all_iff)
qed

section \<open>A download is the whole object or nothing\<close>

lemma doLoop_first_accepted:
  "doLoop g start n pos is = (log, Some (Inr x)) \<Longrightarrow>
     \<exists>resp. firstAccepted (take (length log) is) = Some resp \<and> en_sink g resp = Inr x"
proof (induction "is" arbitrary: n pos log)
  case (Cons i "is")
  from Cons.prems show ?case
  proof (cases rule: doLoop_step)
    case (last l r)
    then have "attempt g i (replayFrom g start n pos) = (log, Inr x)" by auto
    then have "length log = 1" "accepted i" "\<exists>resp. ai_http i = Inr resp \<and> en_sink g resp = Inr x"
      by (auto simp: attempt_def Let_def accepted_def split: option.splits sum.splits if_splits)
    then show ?thesis by (auto simp: firstAccepted_def)
  next
    case (again l e l')
    from Cons.IH [OF again(5)] obtain resp where resp: "firstAccepted (take (length l') is) = Some resp" "en_sink g resp = Inr x"
      by blast
    have "l \<noteq> []"
    proof
      assume "l = []"
      then have "badURL g" using attempt_length [OF again(1)] by (simp split: if_splits)
      then have "l' = []" using doLoop_badURL again(5) by blast
      then show False using resp(1) by (simp add: firstAccepted_def)
    qed
    then have "length l = 1" "\<not> accepted i"
      using attempt_length [OF again(1)] attempt_accepted [OF again(1)] again(3) by (auto split: if_splits)
    then show ?thesis using resp again(2) by (simp add: firstAccepted_def)
  qed auto
qed simp

lemma GetObject_copied:
  assumes "GetObject v copy bucket key ver is = (log, Some (Inr n))"
  shows "\<exists>resp. firstAccepted (take (length log) is) = Some resp \<and> copy resp = (n, None)"
proof -
  have "\<exists>resp. firstAccepted (take (length log) is) = Some resp
      \<and> (case copy resp of (n, None) \<Rightarrow> Inr n | (n, Some e) \<Rightarrow> Inl (ErrWrap (''reading '' @ bucket @ ''/'' @ key @ '': '') e)) = Inr n"
    using assms by (auto simp: GetObject_def call_def s3do_def bodyless_def bodyOffset_def dest!: doLoop_first_accepted)
  then obtain resp m err where "firstAccepted (take (length log) is) = Some resp" "copy resp = (m, err)"
      "(case err of None \<Rightarrow> Inr m | Some e \<Rightarrow> Inl (ErrWrap (''reading '' @ bucket @ ''/'' @ key @ '': '') e)) = (Inr n :: s3err + nat)"
    by (metis (no_types, lifting) case_prod_conv surj_pair)
  then show ?thesis by (auto split: option.splits)
qed

text \<open>
  Downloading to a file is all or nothing: on success the file is the body of the accepted response
  and its length is what is reported; on an error an existing file that may not be overwritten is
  untouched and otherwise nothing is left at the path, provided removing works; no other file is
  touched in any case. (\<^verbatim>\<open>io.Copy\<close> returns no error only after the whole body has been copied.) With
  \<^verbatim>\<open>--force\<close> this means that a failed download also takes away the file that was there before.
\<close>

lemma download_is_all_or_nothing:
  assumes "downloadToFile v bucket key ver dest force fin fs = (Some res, fs')"
    and "\<And>resp n. fi_copy fin resp = (n, None) \<Longrightarrow> n = length (rs_Body resp)" and "fi_removes fin"
  shows "(case res of
       Inr n \<Rightarrow> \<exists>resp. resp \<in> {resp. \<exists>i \<in> set (fi_attempts fin). accepted i \<and> ai_http i = Inr resp}
         \<and> fs' = fs(dest \<mapsto> rs_Body resp) \<and> n = length (rs_Body resp)
     | Inl e \<Rightarrow> if \<not> force \<and> fs dest \<noteq> None \<or> fi_open fin \<noteq> None then fs' = fs else fs' = fs(dest := None))"
proof (cases res)
  case (Inl e)
  then show ?thesis using assms(1,3)
    by (auto simp: downloadToFile_def Let_def split: if_splits option.splits prod.splits sum.splits)
next
  case (Inr n)
  obtain log where get: "GetObject v (fi_copy fin) bucket key ver (fi_attempts fin) = (log, Some (Inr n))"
      "fs' = fs(dest \<mapsto> copied fin log)"
    using assms(1) Inr by (auto simp: downloadToFile_def Let_def split: if_splits option.splits prod.splits sum.splits)
  from GetObject_copied [OF get(1)] obtain resp where
    resp: "firstAccepted (take (length log) (fi_attempts fin)) = Some resp" "fi_copy fin resp = (n, None)" by blast
  have n: "n = length (rs_Body resp)" using assms(2) resp(2) by blast
  obtain i "is" where i: "filter accepted (take (length log) (fi_attempts fin)) = i # is" "ai_http i = Inr resp"
    using resp(1) by (auto simp: firstAccepted_def split: list.splits sum.splits)
  have "i \<in> set (filter accepted (take (length log) (fi_attempts fin)))" unfolding i(1) by simp
  then have "i \<in> set (fi_attempts fin)" "accepted i" by (auto dest: in_set_takeD)
  then show ?thesis using Inr get(2) resp n i(2) by (auto simp: copied_def)
qed

definition downFlags :: downloadFlags where
  "downFlags = \<lparr>dl_force = False, dl_recursive = True, dl_dryRun = False, dl_flatten = False, dl_versionID = [],
     dl_concurrency = 4, dl_filter = newFilter [] []\<rparr>"

definition downRequest :: downloadRequest where
  "downRequest = \<lparr>dq_bucket = ''b'', dq_key = [], dq_dest = ''out'', dq_flags = downFlags\<rparr>"

text \<open>A listing of one key, which one worker downloads.\<close>

definition oneJob :: bulkInputs where
  "oneJob = \<lparr>bi_ctx = None, bi_pages = [[sampleBody ''2026/a'']], bi_sched = [([], True)], bi_wait = [Finish 0 None]\<rparr>"

lemma oneJob_runs:
  "\<exists>fan. runDownloadRecursive sampleCodec downRequest oneJob silent = (Some None, fan, silent)
     \<and> fn_jobs fan = [(''2026/a'', ''out/2026/a'')]"
proof -
  have key: "splitOn (CHR '','') ''2026/a'' = [''2026/a'']" by simp
  have dest: "destForKey ''out'' [] ''2026/a'' False = Inr ''out/2026/a''"
    by (simp add: destForKey_def relForKey_def mustRel_def Rel_def JoinPath_def Clean_def pathNames_def slashed_def cleanStep_def
        relElems_def hasPrefix_def Let_def)
  have entries: "pageEntries sampleEnv (projr (sampleKeys ''2026/a''))
      = [contentObject sampleEnv \<lparr>ce_Key = ''2026/a'', ce_Size = 1, ce_LastModified = [], ce_ETag = [], ce_StorageClass = []\<rparr>]"
    by (simp add: pageEntries_def sampleKeys_def)
  show ?thesis
    by (simp add: runDownloadRecursive_def fanOut_def ListObjectsFunc_def prefixOptions_def globPrefix_def downRequest_def oneJob_def
        sampleCodec_listing entries contentObject_def newObject_def fanVisit_def downloadDecide_def downloadDir_def hasSuffix_def
        hasPrefix_def selects_def refGlob_def hasGlob_def filterMatch_def downFlags_def newFilter_def matchesAny_def dest startJob_def
        newFan_def newPool_def poolRun_def fanWait_def poolWait_def removeAt_def Let_def del: listLoop.simps)
qed

theorem downloads_stay_inside_witness:
  "\<exists>fan. runDownloadRecursive sampleCodec downRequest oneJob silent = (Some None, fan, silent)
     \<and> list_all (\<lambda>job. insidePath ''out'' (snd job)) (fn_jobs fan) \<and> fn_jobs fan = [(''2026/a'', ''out/2026/a'')]"
proof -
  obtain fan where fan: "runDownloadRecursive sampleCodec downRequest oneJob silent = (Some None, fan, silent)"
      "fn_jobs fan = [(''2026/a'', ''out/2026/a'')]" using oneJob_runs by blast
  have "downloadDir downRequest = ''out''" by (simp add: downloadDir_def downRequest_def)
  then have "list_all (\<lambda>job. insidePath ''out'' (snd job)) (fn_jobs fan)" using downloads_stay_inside [OF fan(1)] by auto
  then show ?thesis using fan by blast
qed

definition wholeCopy :: fileInputs where
  "wholeCopy = \<lparr>fi_attempts = [sampleBody ''data''], fi_copy = (\<lambda>resp. (length (rs_Body resp), None)), fi_open = None,
     fi_close = None, fi_removes = True\<rparr>"

lemma wholeCopy_runs: "\<exists>s. GetObject sampleEnv (\<lambda>resp. (length (rs_Body resp), None)) ''b'' ''k'' [] [sampleBody ''data''] = ([s], Some (Inr 4))"
proof -
  let ?u = "url (v_cfg sampleEnv) ''b'' ''k'' (versionQuery [])"
  have "rq_url (bodyless ''GET'' ?u) = ?u" by (simp add: bodyless_def)
  from call_first_accepted [OF _ this, of "sampleBody ''data''"
      "\<lparr>rs_StatusCode = 200, rs_Header = [], rs_ContentLength = 0, rs_Body = ''data''\<rparr>" "\<lambda>resp. Inr (length (rs_Body resp))" "[]"]
  show ?thesis by (auto simp: GetObject_def sampleBody_def sampleEnv_def sampleCfg_def)
qed

lemma download_is_all_or_nothing_witness:
  "\<exists>fs'. downloadToFile sampleEnv ''b'' ''k'' [] ''f'' False wholeCopy Map.empty = (Some (Inr 4), fs') \<and> fs' ''f'' = Some ''data''"
proof -
  obtain s where s: "GetObject sampleEnv (fi_copy wholeCopy) ''b'' ''k'' [] (fi_attempts wholeCopy) = ([s], Some (Inr 4))"
    using wholeCopy_runs by (auto simp: wholeCopy_def)
  then obtain fs' where run: "downloadToFile sampleEnv ''b'' ''k'' [] ''f'' False wholeCopy Map.empty = (Some (Inr 4), fs')"
    by (auto simp: downloadToFile_def Let_def wholeCopy_def)
  have "fi_copy wholeCopy resp = (n, None) \<Longrightarrow> n = length (rs_Body resp)" for resp n by (simp add: wholeCopy_def)
  from download_is_all_or_nothing [OF run this] have "fs' ''f'' = Some ''data''"
    by (auto simp: wholeCopy_def sampleBody_def accepted_def)
  then show ?thesis using run by blast
qed

end
