(* ===== verification/S3_Multipart.thy ===== *)
theory S3_Multipart
  imports S3_Calls "HOL-Library.Multiset"
begin

text \<open>
  \<^verbatim>\<open>src/internal/s3/multipart.go\<close>: uploads in parts. The reading loop, its workers and the context they
  share run concurrently; \<open>uploadStep\<close> is the relation of their interleaved steps over the state of
  a \<^verbatim>\<open>partUploader\<close>, of which the slots are the parts in flight. What a worker does is one call of
  \<^verbatim>\<open>uploadPart\<close>, whose attempts the relation picks. The state also records, beside the list the code
  keeps, which bytes the store was given for each finished part.
\<close>

section \<open>Options\<close>

definition MinPartSize :: int where "MinPartSize = 5 * 2 ^ 20"
definition DefaultPartSize :: int where "DefaultPartSize = 16 * 2 ^ 20"
definition DefaultConcurrency :: int where "DefaultConcurrency = 4"
definition maxParts :: nat where "maxParts = 10000"

record uploadOptions =
  uo_ContentType :: gostring
  uo_PartSize :: int
  uo_Concurrency :: int
  uo_Size :: int

definition withDefaults :: "uploadOptions \<Rightarrow> s3err + uploadOptions" where
  "withDefaults o0 =
     (let o1 = (if uo_PartSize o0 = 0 then o0\<lparr>uo_PartSize := DefaultPartSize\<rparr> else o0) in
      if uo_PartSize o1 < MinPartSize then Inl (ErrText ''part size must be at least 5242880 bytes'')
      else
        let o2 = (if uo_Concurrency o1 = 0 then o1\<lparr>uo_Concurrency := DefaultConcurrency\<rparr> else o1) in
        if uo_Concurrency o2 < 1 then Inl (ErrText ''concurrency must be at least 1'')
        else Inr o2)"

section \<open>The requests of an upload\<close>

record completedPart =
  cp_PartNumber :: nat
  cp_ETag :: gostring
  cp_size :: int

definition createMultipartUpload :: "s3Env \<Rightarrow> (gostring \<Rightarrow> s3err + gostring) \<Rightarrow> gostring \<Rightarrow> gostring \<Rightarrow> gostring \<Rightarrow> gostring call" where
  "createMultipartUpload v decode bucket key contentType is =
     (let at = ''starting multipart upload of '' @ bucket @ ''/'' @ key @ '': '';
          hdr = (if contentType \<noteq> [] then [(hdrContentType, contentType)] else [])
      in map_prod id (map_option (\<lambda>r. case r of
             Inl e \<Rightarrow> Inl (ErrWrap at e)
           | Inr uploadID \<Rightarrow> if uploadID = [] then Inl (ErrText (at @ ''server returned no upload ID'')) else Inr uploadID))
           (call v ((bodyless ''POST'' (url (v_cfg v) bucket key [(''uploads'', [[]])]))\<lparr>rq_header := hdr\<rparr>)
             (\<lambda>resp. decode (rs_Body resp)) is))"

definition uploadPart :: "s3Env \<Rightarrow> gostring \<Rightarrow> gostring \<Rightarrow> gostring \<Rightarrow> nat \<Rightarrow> gostring \<Rightarrow> gostring call" where
  "uploadPart v bucket key uploadID number body is =
     mapErr (ErrWrap (''uploading part '' @ itoa (int number) @ '' of '' @ bucket @ ''/'' @ key @ '': ''))
       (call v (withBody v ''PUT'' (url (v_cfg v) bucket key [(''partNumber'', [itoa (int number)]), (''uploadId'', [uploadID])]) body [])
         (\<lambda>resp. let etag = getHeader ''ETag'' resp in
            if etag = [] then Inl (ErrText (''part '' @ itoa (int number) @ '': server returned no ETag'')) else Inr etag) is)"

definition abortMultipartUpload :: "s3Env \<Rightarrow> gostring \<Rightarrow> gostring \<Rightarrow> gostring \<Rightarrow> unit call" where
  "abortMultipartUpload v bucket key uploadID is =
     mapErr (ErrWrap (''aborting multipart upload of '' @ bucket @ ''/'' @ key @ '': ''))
       (call v (bodyless ''DELETE'' (url (v_cfg v) bucket key [(''uploadId'', [uploadID])])) drainBody is)"

record codec =
  cd_uploadID :: "gostring \<Rightarrow> s3err + gostring"
  cd_parts :: "completedPart list \<Rightarrow> gostring"
  cd_errorDoc :: "gostring \<Rightarrow> gostring option"
  cd_etag :: "gostring \<Rightarrow> s3err + gostring"

text \<open>\<^verbatim>\<open>bytes.NewReader(nil)\<close>.\<close>

definition emptyReader :: seeker where
  "emptyReader = \<lparr>sk_data = [], sk_pos = 0, sk_tell = None, sk_read = None, sk_rewind = None\<rparr>"

text \<open>\<open>inAbort\<close> and \<open>inPut\<close> are the attempts of the two calls that replace a completion without parts.\<close>

definition completeMultipartUpload :: "s3Env \<Rightarrow> codec \<Rightarrow> gostring \<Rightarrow> gostring \<Rightarrow> gostring \<Rightarrow> completedPart list \<Rightarrow> gostring \<Rightarrow>
    attemptIn list \<Rightarrow> attemptIn list \<Rightarrow> objectInfo call" where
  "completeMultipartUpload v cd bucket key uploadID parts contentType inAbort inPut is =
     (if parts = [] then
        (case abortMultipartUpload v bucket key uploadID inAbort of
           (log, None) \<Rightarrow> (log, None)
         | (log, Some (Inl e)) \<Rightarrow> (log, Some (Inl e))
         | (log, Some (Inr _)) \<Rightarrow>
             (case PutObject v bucket key emptyReader 0 contentType inPut of (log', r) \<Rightarrow> (log @ log', r)))
      else
        (let u = url (v_cfg v) bucket key [(''uploadId'', [uploadID])];
             total = sum_list (map cp_size parts);
             finish = (\<lambda>etag. (newInfo bucket key)\<lparr>oi_Size := total, oi_ETag := trimQuotes etag, oi_ContentType := contentType\<rparr>)
         in map_prod id (map_option (map_sum (ErrWrap (''completing multipart upload of '' @ bucket @ ''/'' @ key @ '': '')) finish))
              (call v (withBody v ''POST'' u (cd_parts cd parts) [(hdrContentType, ''application/xml'')])
                (lateErrorSink (cd_errorDoc cd) (cd_etag cd)
                   ''multipart completion was refused after the request was accepted'' ''POST'' (u_Path u)) is)))"

section \<open>Reading the source\<close>

text \<open>A source by the bytes it still gives and the error it then gives instead of an end.\<close>

record source =
  src_data :: gostring
  src_end :: "s3err option"

datatype readErr = ReadOK | ReadEOF | ReadUnexpectedEOF | ReadErr s3err

definition readFull :: "nat \<Rightarrow> source \<Rightarrow> gostring \<times> readErr \<times> source" where
  "readFull n r =
     (if n \<le> length (src_data r) then (take n (src_data r), ReadOK, r\<lparr>src_data := drop n (src_data r)\<rparr>)
      else (src_data r,
            (case src_end r of Some e \<Rightarrow> ReadErr e | None \<Rightarrow> if src_data r = [] then ReadEOF else ReadUnexpectedEOF),
            r\<lparr>src_data := []\<rparr>))"

section \<open>The part uploader\<close>

text \<open>
  The reading loop is about to read part \<open>n\<close>, is in \<^verbatim>\<open>send\<close> with the buffer and the error the read
  gave, or has been left and waits for the workers.
\<close>

datatype phase = Reading nat | Sending nat gostring readErr | Waiting

record partUploader =
  up_phase :: phase
  up_source :: source
  up_flight :: "(nat \<times> gostring) list"
  up_parts :: "completedPart list"
  up_stored :: "(nat \<times> gostring) list"
  up_err :: "s3err option"
  up_done :: bool

definition newUploader :: "source \<Rightarrow> partUploader" where
  "newUploader r = \<lparr>up_phase = Reading 1, up_source = r, up_flight = [], up_parts = [], up_stored = [], up_err = None, up_done = False\<rparr>"

definition fail :: "s3err \<Rightarrow> partUploader \<Rightarrow> partUploader" where
  "fail e u = (if up_err u = None then u\<lparr>up_err := Some e, up_done := True\<rparr> else u)"

definition ctxErr :: s3err where "ctxErr = ErrText ''context canceled''"

text \<open>What the loop does once the buffer of part \<open>n\<close> is out of its hands.\<close>

definition afterRead :: "nat \<Rightarrow> readErr \<Rightarrow> partUploader \<Rightarrow> partUploader" where
  "afterRead n err u =
     (case err of
        ReadOK \<Rightarrow> u\<lparr>up_phase := Reading (Suc n)\<rparr>
      | ReadErr e \<Rightarrow> (fail (ErrWrap ''reading upload source: '' e) u)\<lparr>up_phase := Waiting\<rparr>
      | _ \<Rightarrow> u\<lparr>up_phase := Waiting\<rparr>)"

definition tooManyParts :: s3err where
  "tooManyParts = ErrText ''object needs more than 10000 parts; raise --part-size''"

text \<open>The loop's turn when it is about to read part \<open>n\<close>.\<close>

definition readPart :: "nat \<Rightarrow> nat \<Rightarrow> partUploader \<Rightarrow> partUploader" where
  "readPart partSize n u =
     (if n > maxParts then (fail tooManyParts u)\<lparr>up_phase := Waiting\<rparr>
      else case readFull partSize (up_source u) of
        (buf, err, r) \<Rightarrow>
          if buf \<noteq> [] then u\<lparr>up_source := r, up_phase := Sending n buf err\<rparr>
          else afterRead n err (u\<lparr>up_source := r\<rparr>))"

definition takeSlot :: "nat \<Rightarrow> gostring \<Rightarrow> readErr \<Rightarrow> partUploader \<Rightarrow> partUploader" where
  "takeSlot n buf err u = afterRead n err (u\<lparr>up_flight := up_flight u @ [(n, buf)]\<rparr>)"

definition giveUp :: "partUploader \<Rightarrow> partUploader" where
  "giveUp u = (fail ctxErr u)\<lparr>up_phase := Waiting\<rparr>"

definition finishPart :: "nat \<Rightarrow> gostring \<Rightarrow> s3err + gostring \<Rightarrow> partUploader \<Rightarrow> partUploader" where
  "finishPart n body r u =
     (let u = u\<lparr>up_flight := remove1 (n, body) (up_flight u)\<rparr> in
      case r of
        Inl e \<Rightarrow> fail e u
      | Inr etag \<Rightarrow> u\<lparr>up_parts := up_parts u @ [\<lparr>cp_PartNumber = n, cp_ETag = etag, cp_size = int (length body)\<rparr>],
                     up_stored := up_stored u @ [(n, body)]\<rparr>)"

text \<open>
  \<open>upload\<close> is the call a worker makes for a part, and \<open>slots\<close> the capacity of the channel of slots.
  When both a slot is free and the context is done, \<^verbatim>\<open>select\<close> may take either.
\<close>

inductive uploadStep :: "(nat \<Rightarrow> gostring \<Rightarrow> gostring call) \<Rightarrow> nat \<Rightarrow> nat \<Rightarrow> partUploader \<Rightarrow> partUploader \<Rightarrow> bool"
  for upload partSize slots where
  reads: "up_phase u = Reading n \<Longrightarrow> uploadStep upload partSize slots u (readPart partSize n u)"
| slot: "up_phase u = Sending n buf err \<Longrightarrow> length (up_flight u) < slots \<Longrightarrow>
    uploadStep upload partSize slots u (takeSlot n buf err u)"
| stopped: "up_phase u = Sending n buf err \<Longrightarrow> up_done u \<Longrightarrow> uploadStep upload partSize slots u (giveUp u)"
| part: "(n, body) \<in> set (up_flight u) \<Longrightarrow> snd (upload n body is) = Some r \<Longrightarrow>
    uploadStep upload partSize slots u (finishPart n body r u)"
| cancel: "\<not> up_done u \<Longrightarrow> uploadStep upload partSize slots u (u\<lparr>up_done := True\<rparr>)"

inductive uploadRun :: "(nat \<Rightarrow> gostring \<Rightarrow> gostring call) \<Rightarrow> nat \<Rightarrow> nat \<Rightarrow> source \<Rightarrow> partUploader \<Rightarrow> bool"
  for upload partSize slots r where
  start: "uploadRun upload partSize slots r (newUploader r)"
| step: "uploadRun upload partSize slots r u \<Longrightarrow> uploadStep upload partSize slots u u' \<Longrightarrow> uploadRun upload partSize slots r u'"

definition uploadOver :: "partUploader \<Rightarrow> bool" where
  "uploadOver u \<longleftrightarrow> up_phase u = Waiting \<and> up_flight u = []"

definition uploadResult :: "partUploader \<Rightarrow> s3err + completedPart list" where
  "uploadResult u = (case up_err u of Some e \<Rightarrow> Inl e | None \<Rightarrow> Inr (sort_key cp_PartNumber (up_parts u)))"

section \<open>The uploader's invariant\<close>

definition phaseInv :: "nat \<Rightarrow> source \<Rightarrow> gostring list \<Rightarrow> partUploader \<Rightarrow> bool" where
  "phaseInv partSize r bs u \<longleftrightarrow>
     list_all (\<lambda>b. b \<noteq> [] \<and> length b \<le> partSize) bs \<and> src_end (up_source u) = src_end r \<and>
     (case up_phase u of
        Reading n \<Rightarrow> n = Suc (length bs) \<and> list_all (\<lambda>b. length b = partSize) bs
          \<and> src_data r = concat bs @ src_data (up_source u)
      | Sending n buf err \<Rightarrow> n = Suc (length bs) \<and> list_all (\<lambda>b. length b = partSize) bs
          \<and> buf \<noteq> [] \<and> length buf \<le> partSize \<and> src_data r = concat bs @ buf @ src_data (up_source u)
          \<and> (case err of ReadOK \<Rightarrow> length buf = partSize
             | ReadUnexpectedEOF \<Rightarrow> length buf < partSize \<and> src_data (up_source u) = [] \<and> src_end r = None
             | ReadErr e \<Rightarrow> True | ReadEOF \<Rightarrow> False)
      | Waiting \<Rightarrow> src_data r = concat bs \<and> src_end r = None \<and> list_all (\<lambda>b. length b = partSize) (butlast bs)
          \<and> length (src_data r) < maxParts * partSize)"

definition uploadInv :: "nat \<Rightarrow> nat \<Rightarrow> source \<Rightarrow> partUploader \<Rightarrow> bool" where
  "uploadInv partSize slots r u \<longleftrightarrow>
     length (up_flight u) \<le> slots
     \<and> map cp_PartNumber (up_parts u) = map fst (up_stored u)
     \<and> map cp_size (up_parts u) = map (int \<circ> length \<circ> snd) (up_stored u)
     \<and> (case up_phase u of Reading n \<Rightarrow> 1 \<le> n \<and> n \<le> Suc maxParts | Sending n _ _ \<Rightarrow> 1 \<le> n \<and> n \<le> maxParts | Waiting \<Rightarrow> True)
     \<and> (up_err u = None \<longrightarrow> (\<exists>bs. mset (up_flight u @ up_stored u) = mset (enumerate 1 bs) \<and> phaseInv partSize r bs u))"

lemma fail_simps [simp]:
  "up_err (fail e u) \<noteq> None" "up_flight (fail e u) = up_flight u" "up_parts (fail e u) = up_parts u"
  "up_stored (fail e u) = up_stored u" "up_phase (fail e u) = up_phase u" "up_source (fail e u) = up_source u"
  by (auto simp: fail_def)

lemma fail_err [simp]: "up_err (fail e u) = None \<longleftrightarrow> False"
  by (simp add: fail_def)

lemma full_length: "list_all (\<lambda>b. length b = k) bs \<Longrightarrow> length (concat bs) = length bs * k"
  by (induction bs) auto

lemma phaseInv_cong:
  "up_phase u' = up_phase u \<Longrightarrow> up_source u' = up_source u \<Longrightarrow> phaseInv partSize r bs u' = phaseInv partSize r bs u"
  unfolding phaseInv_def by (simp only:)

lemma inv_newUploader: "uploadInv partSize slots r (newUploader r)"
  by (auto simp: uploadInv_def newUploader_def phaseInv_def maxParts_def intro!: exI [of _ "[]"])

lemma inv_readPart:
  assumes "0 < partSize" and "uploadInv partSize slots r u" and "up_phase u = Reading n"
  shows "uploadInv partSize slots r (readPart partSize n u)"
proof (cases "n > maxParts")
  case True
  then show ?thesis using assms by (auto simp: readPart_def uploadInv_def)
next
  case False
  obtain buf err r' where rf: "readFull partSize (up_source u) = (buf, err, r')" using prod_cases3 by blast
  let ?u = "readPart partSize n u"
  have keep: "up_flight ?u = up_flight u" "up_parts ?u = up_parts u" "up_stored ?u = up_stored u"
    using False rf by (auto simp: readPart_def afterRead_def split: readErr.splits)
  have ph: "case up_phase ?u of Reading n \<Rightarrow> 1 \<le> n \<and> n \<le> Suc maxParts | Sending n _ _ \<Rightarrow> 1 \<le> n \<and> n \<le> maxParts | Waiting \<Rightarrow> True"
    using False rf assms(2,3) by (auto simp: readPart_def afterRead_def uploadInv_def split: readErr.splits)
  have "phaseInv partSize r bs ?u" if ne: "up_err ?u = None" and bs: "phaseInv partSize r bs u" for bs
  proof (cases "partSize \<le> length (src_data (up_source u))")
    case True
    then have "take partSize (src_data (up_source u)) \<noteq> []" using assms(1) by auto
    then show ?thesis using True False bs assms(3)
      by (auto simp: readPart_def readFull_def phaseInv_def)
  next
    case short: False
    show ?thesis
    proof (cases "src_data (up_source u) = []")
      case True
      then have "src_end r = None" using ne short False bs
        by (auto simp: readPart_def readFull_def afterRead_def phaseInv_def split: option.splits)
      moreover have "length (concat bs) < maxParts * partSize"
        using bs assms False by (auto simp: phaseInv_def full_length)
      ultimately show ?thesis using True short False bs assms(3)
        by (auto simp: readPart_def readFull_def afterRead_def phaseInv_def list_all_iff dest: in_set_butlastD)
    next
      case nonempty: False
      then show ?thesis using short False bs assms(3)
        by (auto simp: readPart_def readFull_def phaseInv_def split: option.splits)
    qed
  qed
  moreover have "up_err u = None" if "up_err ?u = None"
    using that False rf by (auto simp: readPart_def afterRead_def fail_def split: readErr.splits if_splits)
  ultimately show ?thesis using assms(2) ph unfolding uploadInv_def keep by blast
qed

lemma inv_takeSlot:
  assumes "uploadInv partSize slots r u" and "up_phase u = Sending n buf err" and "length (up_flight u) < slots"
  shows "uploadInv partSize slots r (takeSlot n buf err u)"
proof -
  let ?u = "takeSlot n buf err u"
  have keep: "up_flight ?u = up_flight u @ [(n, buf)]" "up_parts ?u = up_parts u" "up_stored ?u = up_stored u"
    by (auto simp: takeSlot_def afterRead_def split: readErr.splits)
  have ph: "case up_phase ?u of Reading n \<Rightarrow> 1 \<le> n \<and> n \<le> Suc maxParts | Sending n _ _ \<Rightarrow> 1 \<le> n \<and> n \<le> maxParts | Waiting \<Rightarrow> True"
    using assms(1,2) by (auto simp: takeSlot_def afterRead_def uploadInv_def split: readErr.splits)
  have "\<exists>bs. mset (up_flight ?u @ up_stored ?u) = mset (enumerate 1 bs) \<and> phaseInv partSize r bs ?u" if ne: "up_err ?u = None"
  proof -
    have "up_err u = None" using ne by (auto simp: takeSlot_def afterRead_def fail_def split: readErr.splits if_splits)
    then obtain bs where bs: "mset (up_flight u @ up_stored u) = mset (enumerate 1 bs)" "phaseInv partSize r bs u"
      using assms(1) by (auto simp: uploadInv_def)
    have n: "n = Suc (length bs)" "n \<le> maxParts" "length (concat bs) = length bs * partSize"
      using bs(2) assms(1,2) by (auto simp: phaseInv_def uploadInv_def full_length)
    have "length bs * partSize + length buf < maxParts * partSize" if "length buf < partSize"
    proof -
      have "length bs * partSize + length buf < Suc (length bs) * partSize" using that by simp
      also have "\<dots> \<le> maxParts * partSize" using n by (intro mult_le_mono1) simp
      finally show ?thesis .
    qed
    then have "phaseInv partSize r (bs @ [buf]) ?u"
      using bs(2) assms(2) ne n by (auto simp: takeSlot_def afterRead_def phaseInv_def split: readErr.splits)
    moreover have "mset (up_flight ?u @ up_stored ?u) = mset (enumerate 1 (bs @ [buf]))"
      using bs(1) n(1) unfolding keep by (simp add: enumerate_append_eq)
    ultimately show ?thesis by blast
  qed
  then show ?thesis using assms(1,3) ph unfolding uploadInv_def keep by simp
qed

lemma inv_giveUp: "uploadInv partSize slots r u \<Longrightarrow> uploadInv partSize slots r (giveUp u)"
  by (auto simp: uploadInv_def giveUp_def)

lemma inv_finishPart:
  assumes "uploadInv partSize slots r u" and "(n, body) \<in> set (up_flight u)"
  shows "uploadInv partSize slots r (finishPart n body res u)"
proof (cases res)
  case (Inl e)
  then show ?thesis using assms by (auto simp: uploadInv_def finishPart_def Let_def length_remove1)
next
  case (Inr etag)
  have m: "add_mset (n, body) (mset (remove1 (n, body) (up_flight u)) + mset (up_stored u)) = mset (up_flight u) + mset (up_stored u)"
    using assms(2) by (simp flip: union_mset_add_mset_left)
  have ph: "phaseInv partSize r bs (finishPart n body res u) = phaseInv partSize r bs u" for bs
    using Inr by (intro phaseInv_cong) (simp_all add: finishPart_def Let_def)
  show ?thesis using assms Inr unfolding uploadInv_def ph
    by (auto simp: finishPart_def Let_def length_remove1 m simp del: mset_remove1)
qed

lemma inv_cancel: "uploadInv partSize slots r u \<Longrightarrow> uploadInv partSize slots r (u\<lparr>up_done := True\<rparr>)"
  using phaseInv_cong [of "u\<lparr>up_done := True\<rparr>" u] by (simp add: uploadInv_def)

lemmas upload_invs = inv_readPart inv_takeSlot inv_giveUp inv_finishPart inv_cancel

lemma uploadRun_inv:
  "uploadRun upload partSize slots r u \<Longrightarrow> 0 < partSize \<Longrightarrow> uploadInv partSize slots r u"
proof (induction rule: uploadRun.induct)
  case start
  show ?case by (rule inv_newUploader)
next
  case (step u u')
  from step(2) show ?case
    by (cases rule: uploadStep.cases) (use step upload_invs in auto)
qed

section \<open>A finished upload is the source\<close>

abbreviation sized :: "nat \<times> gostring \<Rightarrow> nat \<times> int" where
  "sized e \<equiv> (fst e, int (length (snd e)))"

lemma enumerate_sized:
  "map fst (map sized (enumerate k bs)) = [k..<k + length bs]"
  "map snd (map sized (enumerate k bs)) = map (int \<circ> length) bs"
  by (induction bs arbitrary: k) (auto simp: upt_rec)

lemma sorted_keys_unique:
  assumes "mset xs = mset ys" and "sorted (map fst xs)" and "sorted (map fst ys)" and "distinct (map fst ys)"
  shows "xs = ys"
proof -
  have "distinct (map fst xs)" using assms(1,4) by (metis mset_eq_imp_distinct_iff mset_map)
  moreover have "inj_on fst (set xs \<union> set ys)" using assms(4) mset_eq_setD [OF assms(1)] by (simp add: distinct_map)
  ultimately show ?thesis
    using assms(2-4) mset_eq_setD [OF assms(1)] by (intro map_sorted_distinct_set_unique [of fst xs ys]) simp_all
qed

lemma sort_parts:
  fixes bs :: "gostring list"
  assumes "map cp_PartNumber parts = map fst st" and "map cp_size parts = map (int \<circ> length \<circ> snd) st"
    and "mset st = mset (enumerate 1 bs)"
  shows "map cp_PartNumber (sort_key cp_PartNumber parts) = [1..<Suc (length bs)]
    \<and> map cp_size (sort_key cp_PartNumber parts) = map (int \<circ> length) bs"
proof -
  let ?pair = "\<lambda>p. (cp_PartNumber p, cp_size p)"
  let ?Q = "map ?pair (sort_key cp_PartNumber parts)" and ?R = "map sized (enumerate 1 bs)"
  have pairs: "map ?pair ps = map sized st" if "map cp_PartNumber ps = map fst st" "map cp_size ps = map (int \<circ> length \<circ> snd) st" for ps
    using that by (induction ps arbitrary: st) (auto simp: Cons_eq_map_conv)
  have "mset ?Q = mset (map ?pair parts)" by simp
  also have "\<dots> = mset (map sized st)" by (simp only: pairs [OF assms(1,2)])
  also have "\<dots> = mset ?R" by (simp only: mset_map assms(3))
  finally have m: "mset ?Q = mset ?R" .
  have Q: "map fst ?Q = map cp_PartNumber (sort_key cp_PartNumber parts)"
    "map snd ?Q = map cp_size (sort_key cp_PartNumber parts)" by simp_all
  have R: "map fst ?R = [1..<Suc (length bs)]" "map snd ?R = map (int \<circ> length) bs"
    by (simp_all only: enumerate_sized plus_1_eq_Suc)
  have "?Q = ?R"
    by (rule sorted_keys_unique [OF m]) (simp_all only: Q R sorted_sort_key sorted_upt distinct_upt)
  then show ?thesis using Q R by metis
qed

lemma few_parts:
  assumes "list_all (\<lambda>b. length b = k) (butlast bs)" and "list_all (\<lambda>b. b \<noteq> []) bs" and "length (concat bs) < m * k"
  shows "length bs \<le> m"
proof (cases bs rule: rev_cases)
  case (snoc cs b)
  then have "length cs * k + length b < m * k" using assms by (simp add: full_length)
  then have "length cs * k < m * k" by linarith
  then show ?thesis using snoc by simp
qed simp

lemma upload_success:
  assumes "0 < partSize" and "uploadRun upload partSize slots r u" and "uploadOver u" and "uploadResult u = Inr ps"
  shows "\<exists>bs. concat bs = src_data r \<and> src_end r = None
    \<and> map cp_PartNumber ps = [1..<Suc (length bs)] \<and> map cp_size ps = map (int \<circ> length) bs
    \<and> mset (up_stored u) = mset (enumerate 1 bs)
    \<and> list_all (\<lambda>b. length b = partSize) (butlast bs) \<and> list_all (\<lambda>b. b \<noteq> [] \<and> length b \<le> partSize) bs
    \<and> length bs \<le> maxParts"
proof -
  note inv = uploadRun_inv [OF assms(2,1)]
  have err: "up_err u = None" and ps: "ps = sort_key cp_PartNumber (up_parts u)"
    using assms(4) by (auto simp: uploadResult_def split: option.splits)
  obtain bs where m: "mset (up_stored u) = mset (enumerate 1 bs)" and ph: "phaseInv partSize r bs u"
    using inv err assms(3) by (auto simp: uploadInv_def uploadOver_def)
  have w: "src_data r = concat bs" "src_end r = None" "list_all (\<lambda>b. length b = partSize) (butlast bs)"
      "list_all (\<lambda>b. b \<noteq> [] \<and> length b \<le> partSize) bs" "length (src_data r) < maxParts * partSize"
    using ph assms(3) by (auto simp: phaseInv_def uploadOver_def)
  moreover have "length bs \<le> maxParts" using w by (intro few_parts [of partSize]) (auto simp: list_all_iff)
  moreover have "map cp_PartNumber ps = [1..<Suc (length bs)] \<and> map cp_size ps = map (int \<circ> length) bs"
    unfolding ps by (rule sort_parts [OF _ _ m]) (use inv in \<open>simp_all add: uploadInv_def\<close>)
  ultimately show ?thesis using m by (intro exI [of _ bs]) simp
qed

text \<open>
  C1. However reads, workers and cancellations interleave, an upload that succeeds has sent the
  source, all of it and in order: the completed parts are numbered from one without gaps, their
  sizes are those of consecutive pieces of the source, all but the last of the full part size,
  and the store was given exactly those pieces under those numbers.
\<close>

theorem finished_upload_is_the_source:
  assumes "0 < partSize" and "uploadRun upload partSize slots r u" and "uploadOver u" and "uploadResult u = Inr ps"
  shows "\<exists>bs. concat bs = src_data r \<and> src_end r = None
    \<and> map cp_PartNumber ps = [1..<Suc (length bs)] \<and> map cp_size ps = map (int \<circ> length) bs
    \<and> mset (up_stored u) = mset (enumerate 1 bs)
    \<and> list_all (\<lambda>b. length b = partSize) (butlast bs) \<and> list_all (\<lambda>b. b \<noteq> [] \<and> length b \<le> partSize) bs
    \<and> length bs \<le> maxParts"
  using upload_success [OF assms] .

section \<open>An upload always ends\<close>

definition phaseWeight :: "phase \<Rightarrow> nat" where
  "phaseWeight p = (case p of Reading n \<Rightarrow> 2 * (maxParts + 2 - n) | Sending n _ _ \<Rightarrow> 2 * (maxParts + 2 - n) - 1 | Waiting \<Rightarrow> 0)"

definition uploadMeasure :: "partUploader \<Rightarrow> nat" where
  "uploadMeasure u = 3 * phaseWeight (up_phase u) + length (up_flight u) + (if up_done u then 0 else 1)"

lemma up_done_mono:
  "up_done u \<Longrightarrow> up_done (fail e u)" "up_done u \<Longrightarrow> up_done (afterRead n err u)"
  by (auto simp: fail_def afterRead_def split: readErr.splits)

lemma flight_afterRead [simp]: "up_flight (afterRead n err u) = up_flight u"
  by (auto simp: afterRead_def split: readErr.splits)

lemma phase_afterRead: "phaseWeight (up_phase (afterRead n err u)) \<le> 2 * (maxParts + 1 - n)"
  by (auto simp: afterRead_def phaseWeight_def split: readErr.splits)

lemma readPart_facts:
  assumes "n \<le> Suc maxParts" and "up_phase u = Reading n"
  shows "up_flight (readPart partSize n u) = up_flight u"
    and "up_done u \<Longrightarrow> up_done (readPart partSize n u)"
    and "phaseWeight (up_phase (readPart partSize n u)) < phaseWeight (up_phase u)"
proof -
  obtain buf err r where "readFull partSize (up_source u) = (buf, err, r)" using prod_cases3 by blast
  then have step: "readPart partSize n u = (if n > maxParts then (fail tooManyParts u)\<lparr>up_phase := Waiting\<rparr>
      else if buf \<noteq> [] then u\<lparr>up_source := r, up_phase := Sending n buf err\<rparr> else afterRead n err (u\<lparr>up_source := r\<rparr>))"
    by (simp add: readPart_def)
  show "up_flight (readPart partSize n u) = up_flight u" by (simp add: step)
  show "up_done u \<Longrightarrow> up_done (readPart partSize n u)" by (simp add: step up_done_mono)
  have "phaseWeight (up_phase (afterRead n err (u\<lparr>up_source := r\<rparr>))) < phaseWeight (Reading n)"
    using phase_afterRead [of n err "u\<lparr>up_source := r\<rparr>"] assms(1) by (simp add: phaseWeight_def)
  then show "phaseWeight (up_phase (readPart partSize n u)) < phaseWeight (up_phase u)"
    using assms by (simp add: step) (simp add: phaseWeight_def)
qed

lemma uploadStep_decreases:
  assumes "uploadStep upload partSize slots u u'" and "uploadInv partSize slots r u"
  shows "uploadMeasure u' < uploadMeasure u"
  using assms(1)
proof cases
  case (reads n)
  have n: "n \<le> Suc maxParts" using assms(2) reads(2) by (simp add: uploadInv_def)
  have "up_flight u' = up_flight u" "up_done u \<Longrightarrow> up_done u'" "phaseWeight (up_phase u') < phaseWeight (up_phase u)"
    using reads(1) readPart_facts [OF n reads(2)] by simp_all
  then show ?thesis by (simp add: uploadMeasure_def)
next
  case (slot n buf err)
  have n: "n \<le> maxParts" using assms(2) slot(2) by (simp add: uploadInv_def)
  have "phaseWeight (up_phase u') \<le> 2 * (maxParts + 1 - n)" using slot(1) phase_afterRead by (simp add: takeSlot_def)
  also have "\<dots> < phaseWeight (up_phase u)" using n slot(2) by (simp add: phaseWeight_def)
  finally have "phaseWeight (up_phase u') < phaseWeight (up_phase u)" .
  moreover have "up_done u \<Longrightarrow> up_done u'" using slot(1) up_done_mono(2) by (simp add: takeSlot_def)
  moreover have "length (up_flight u') = Suc (length (up_flight u))" using slot(1) by (simp add: takeSlot_def)
  ultimately show ?thesis by (simp add: uploadMeasure_def)
next
  case (stopped n buf err)
  have "n \<le> maxParts" using assms(2) stopped(2) by (simp add: uploadInv_def)
  then have "phaseWeight (up_phase u) > 0" using stopped(2) by (simp add: phaseWeight_def)
  then show ?thesis using stopped by (auto simp: uploadMeasure_def giveUp_def fail_def phaseWeight_def)
next
  case (part n body "is" r)
  then have "length (up_flight u) - Suc 0 < length (up_flight u)" using length_pos_if_in_set by fastforce
  with part show ?thesis
    by (auto simp: uploadMeasure_def finishPart_def fail_def Let_def length_remove1 split: sum.splits)
qed (auto simp: uploadMeasure_def)

lemma call_returns: "nat (c_MaxRetries (v_cfg v)) < length is \<Longrightarrow> snd (call v req sink is) \<noteq> None"
proof -
  assume len: "nat (c_MaxRetries (v_cfg v)) < length is"
  let ?g = "\<lparr>en_cfg = v_cfg v, en_sha = v_sha v, en_hmac = v_hmac v, en_xmlErr = v_xmlErr v, en_req = req, en_sink = sink\<rparr>"
  obtain log res where d: "doLoop ?g 0 0 0 is = (log, res)" by fastforce
  then have "call v req sink is = (log, res)" by (simp add: call_def s3do_def bodyOffset_def split: option.splits)
  then show ?thesis using doLoop_attempts [OF d] len by simp
qed

lemma uploadPart_returns: "\<exists>is r. snd (uploadPart v bucket key uploadID n body is) = Some r"
proof -
  let ?is = "replicate (Suc (nat (c_MaxRetries (v_cfg v)))) (undefined :: attemptIn)"
  have "snd (uploadPart v bucket key uploadID n body ?is) \<noteq> None"
    using call_returns [of v ?is] by (simp add: uploadPart_def mapErr_def)
  then show ?thesis by blast
qed

lemma uploadStep_progress:
  assumes "uploadInv partSize slots r u" and "0 < slots" and "\<not> uploadOver u"
    and "\<And>n body. \<exists>is res. snd (upload n body is) = Some res"
  shows "\<exists>u'. uploadStep upload partSize slots u u' \<and> (up_phase u', up_flight u') \<noteq> (up_phase u, up_flight u)"
proof -
  have worker: "\<exists>u'. uploadStep upload partSize slots u u' \<and> up_flight u' \<noteq> up_flight u" if flight: "up_flight u \<noteq> []"
  proof -
    obtain n body fs where f: "up_flight u = (n, body) # fs" using flight by (cases "up_flight u") auto
    obtain "is" res where res: "snd (upload n body is) = Some res" using assms(4) by blast
    have "length (up_flight (finishPart n body res u)) < length (up_flight u)"
      using f by (simp add: finishPart_def Let_def split: sum.splits)
    then show ?thesis using uploadStep.part [of n body u upload "is" res partSize slots] f res by fastforce
  qed
  show ?thesis
  proof (cases "up_phase u")
    case (Reading n)
    then have "n \<le> Suc maxParts" using assms(1) by (simp add: uploadInv_def)
    from readPart_facts(3) [OF this Reading, of partSize] show ?thesis
      using uploadStep.reads [OF Reading, of upload partSize slots] by fastforce
  next
    case (Sending n buf err)
    show ?thesis
    proof (cases "length (up_flight u) < slots")
      case True
      have "up_flight (takeSlot n buf err u) \<noteq> up_flight u" by (simp add: takeSlot_def)
      then show ?thesis using uploadStep.slot [OF Sending True, of upload partSize] by blast
    qed (use worker assms(2) in force)
  qed (use worker assms(3) in \<open>force simp: uploadOver_def\<close>)
qed

text \<open>
  C18. A multipart upload never hangs: at most \<^verbatim>\<open>Concurrency\<close> parts are in flight, as long as it is not
  over some step other than the caller's cancellation is possible, every step of the reading
  loop, of a worker or of a cancellation brings it closer to its end.
\<close>

theorem upload_never_hangs:
  assumes "0 < partSize" and "0 < slots" and "uploadRun (uploadPart v bucket key uploadID) partSize slots r u"
  shows "length (up_flight u) \<le> slots
    \<and> (uploadOver u \<or> (\<exists>u'. uploadStep (uploadPart v bucket key uploadID) partSize slots u u'
          \<and> (up_phase u', up_flight u') \<noteq> (up_phase u, up_flight u)))
    \<and> (\<forall>u'. uploadStep (uploadPart v bucket key uploadID) partSize slots u u' \<longrightarrow> uploadMeasure u' < uploadMeasure u)"
proof -
  note inv = uploadRun_inv [OF assms(3,1)]
  have "length (up_flight u) \<le> slots" using inv by (simp add: uploadInv_def)
  then show ?thesis
    using uploadStep_progress [where upload = "uploadPart v bucket key uploadID", OF inv assms(2) _ uploadPart_returns]
      uploadStep_decreases [OF _ inv] by blast
qed

lemma upload_reaches_end:
  assumes "0 < partSize" and "0 < slots" and "\<And>n body. \<exists>is res. snd (upload n body is) = Some res"
    and "uploadRun upload partSize slots r u"
  shows "\<exists>u'. uploadRun upload partSize slots r u' \<and> uploadOver u'"
  using assms(4)
proof (induction "uploadMeasure u" arbitrary: u rule: less_induct)
  case less
  note inv = uploadRun_inv [OF less.prems assms(1)]
  show ?case
  proof (cases "uploadOver u")
    case False
    then obtain u' where "uploadStep upload partSize slots u u'" using uploadStep_progress [where upload = upload, OF inv assms(2) _ assms(3)] by blast
    then show ?thesis using less uploadStep_decreases [OF _ inv] uploadRun.step by blast
  qed (use less.prems in blast)
qed

text \<open>
  The part limit is off by one: a source of exactly \<^verbatim>\<open>maxParts\<close> full parts fits the protocol's
  limit, but the loop checks the number of the next part before it looks for the end of the
  source, so no run of such an upload succeeds.
\<close>

lemma exactly_max_parts_is_refused:
  assumes "0 < partSize" and "length (src_data r) = maxParts * partSize"
    and "uploadRun upload partSize slots r u" and "uploadOver u"
  shows "\<exists>e. uploadResult u = Inl e"
proof (cases "up_err u")
  case None
  then obtain bs where "phaseInv partSize r bs u" using uploadRun_inv [OF assms(3,1)] by (auto simp: uploadInv_def)
  then show ?thesis using assms(2,4) by (simp add: phaseInv_def uploadOver_def)
qed (simp add: uploadResult_def)

section \<open>Streaming an object\<close>

text \<open>
  A source is either a seekable reader or a stream. \<open>uploadParts\<close> is what the part uploader returned
  for an upload: the requests its workers sent, and its result; \<^const>\<open>None\<close> while it is running.
\<close>

datatype reader = Seekable seeker | Stream source

fun readerSource :: "reader \<Rightarrow> source" where
  "readerSource (Seekable s) = \<lparr>src_data = drop (sk_pos s) (sk_data s), src_end = sk_read s\<rparr>"
| "readerSource (Stream r) = r"

record streamIn =
  si_create :: "attemptIn list"
  si_put :: "attemptIn list"
  si_abort :: "attemptIn list"
  si_complete :: "attemptIn list"

definition singlePut :: "reader \<Rightarrow> uploadOptions \<Rightarrow> bool" where
  "singlePut rd opts = (case rd of Seekable s \<Rightarrow> uo_Size opts \<ge> 0 \<and> uo_Size opts \<le> uo_PartSize opts | Stream r \<Rightarrow> False)"

definition seekerOf :: "reader \<Rightarrow> seeker" where
  "seekerOf rd = (case rd of Seekable s \<Rightarrow> s | Stream r \<Rightarrow> emptyReader)"

definition abortAfter :: "s3Env \<Rightarrow> gostring \<Rightarrow> gostring \<Rightarrow> gostring \<Rightarrow> attemptIn list \<Rightarrow> s3err \<Rightarrow> sent list \<times> (s3err + objectInfo) option" where
  "abortAfter v bucket key uploadID inAbort e =
     (case abortMultipartUpload v bucket key uploadID inAbort of
        (log, None) \<Rightarrow> (log, None)
      | (log, Some (Inl ae)) \<Rightarrow> (log, Some (Inl (ErrBoth e ('' (and aborting upload '' @ uploadID @ '' failed: '') ae)))
      | (log, Some (Inr _)) \<Rightarrow> (log, Some (Inl e)))"

definition PutObjectStream :: "s3Env \<Rightarrow> codec \<Rightarrow>
    (gostring \<Rightarrow> source \<Rightarrow> uploadOptions \<Rightarrow> sent list \<times> (s3err + completedPart list) option) \<Rightarrow>
    gostring \<Rightarrow> gostring \<Rightarrow> reader \<Rightarrow> uploadOptions \<Rightarrow> streamIn \<Rightarrow> sent list \<times> (s3err + objectInfo) option" where
  "PutObjectStream v cd uploadParts bucket key rd opts0 si =
     (case withDefaults opts0 of
        Inl e \<Rightarrow> ([], Some (Inl e))
      | Inr opts \<Rightarrow>
          if singlePut rd opts then
            PutObject v bucket key (seekerOf rd) (uo_Size opts) (uo_ContentType opts) (si_put si)
          else
            (case createMultipartUpload v (cd_uploadID cd) bucket key (uo_ContentType opts) (si_create si) of
               (log, None) \<Rightarrow> (log, None)
             | (log, Some (Inl e)) \<Rightarrow> (log, Some (Inl e))
             | (log, Some (Inr uploadID)) \<Rightarrow>
                 (case uploadParts uploadID (readerSource rd) opts of
                    (plog, None) \<Rightarrow> (log @ plog, None)
                  | (plog, Some (Inl e)) \<Rightarrow> map_prod (\<lambda>l. log @ plog @ l) id (abortAfter v bucket key uploadID (si_abort si) e)
                  | (plog, Some (Inr parts)) \<Rightarrow> map_prod (\<lambda>l. log @ plog @ l) id
                      (completeMultipartUpload v cd bucket key uploadID parts (uo_ContentType opts)
                         (si_abort si) (si_put si) (si_complete si)))))"

lemma attempt_method:
  "attempt g i pos = (log, res) \<Longrightarrow> list_all (\<lambda>s. q_Method (st_request s) = rq_method (en_req g)) log"
  by (auto simp: attempt_def Let_def sign_def newRequest_def case_prod_unfold split: option.splits sum.splits if_splits)

lemma doLoop_method:
  "doLoop g start n pos is = (log, res) \<Longrightarrow> list_all (\<lambda>s. q_Method (st_request s) = rq_method (en_req g)) log"
proof (induction "is" arbitrary: n pos log res)
  case (Cons i "is")
  from Cons.prems show ?case
    by (cases rule: doLoop_step) (use attempt_method Cons.IH in fastforce)+
qed auto

lemma call_method: "s \<in> set (fst (call v req sink is)) \<Longrightarrow> q_Method (st_request s) = rq_method req"
proof -
  let ?g = "\<lparr>en_cfg = v_cfg v, en_sha = v_sha v, en_hmac = v_hmac v, en_xmlErr = v_xmlErr v, en_req = req, en_sink = sink\<rparr>"
  obtain log res where d: "doLoop ?g 0 0 0 is = (log, res)" by fastforce
  then have "call v req sink is = (log, res)" by (simp add: call_def s3do_def bodyOffset_def split: option.splits)
  then show "s \<in> set (fst (call v req sink is)) \<Longrightarrow> ?thesis" using doLoop_method [OF d] by (simp add: list_all_iff)
qed

lemma call_sends:
  assumes "u_RawQuery (c_base (v_cfg v)) = []" and "rq_url req = url (v_cfg v) bucket key q" and "is \<noteq> []"
  shows "fst (call v req sink is) \<noteq> []"
proof -
  obtain i js where "is": "is = i # js" using assms(3) by (cases "is") auto
  let ?g = "\<lparr>en_cfg = v_cfg v, en_sha = v_sha v, en_hmac = v_hmac v, en_xmlErr = v_xmlErr v, en_req = req, en_sink = sink\<rparr>"
  have ok: "\<not> badURL ?g" using newRequest_url [OF assms(1), of "rq_method req" bucket key q "rq_header req"] assms(2)
    by (auto simp: badURL_def)
  obtain log res where d: "doLoop ?g 0 0 0 (i # js) = (log, res)" by fastforce
  from d have "log \<noteq> [] \<or> (\<exists>e. res = Some (Inl e) \<and> log = [])"
    by (cases rule: doLoop_step) (use ok attempt_length in force)+
  moreover have "log \<noteq> []"
  proof (cases "attempt ?g i 0")
    case (Pair l r)
    then have "l \<noteq> []" using attempt_length ok by fastforce
    then show ?thesis using d Pair by (auto simp: Let_def split: sum.splits if_splits prod.splits)
  qed
  moreover have "call v req sink is = (log, res)" using d "is" by (simp add: call_def s3do_def bodyOffset_def split: option.splits)
  ultimately show ?thesis by simp
qed

lemma abortAfter_error:
  assumes "call v (bodyless ''DELETE'' (url (v_cfg v) bucket key [(''uploadId'', [uploadID])])) drainBody inAbort = (alog, ares)"
    and "ares \<noteq> None"
  shows "\<exists>e'. abortAfter v bucket key uploadID inAbort e = (alog, Some (Inl e')) \<and> (e' = e \<or> (\<exists>m ae. e' = ErrBoth e m ae))"
proof (cases ares)
  case (Some r)
  then show ?thesis using assms(1) by (cases r) (simp_all add: abortAfter_def abortMultipartUpload_def mapErr_def)
qed (use assms(2) in simp)

text \<open>
  An upload whose parts fail is given up cleanly: the call returns an error that still carries
  the cause, and a request that deletes the upload has been put on the wire.
\<close>

lemma failed_parts_are_aborted:
  assumes "u_RawQuery (c_base (v_cfg v)) = []" and "nat (c_MaxRetries (v_cfg v)) < length (si_abort si)"
    and "withDefaults opts0 = Inr opts" and "\<not> singlePut rd opts"
    and "createMultipartUpload v (cd_uploadID cd) bucket key (uo_ContentType opts) (si_create si) = (clog, Some (Inr uploadID))"
    and "uploadParts uploadID (readerSource rd) opts = (plog, Some (Inl e))"
  shows "\<exists>log e' m ae. PutObjectStream v cd uploadParts bucket key rd opts0 si = (log, Some (Inl e'))
    \<and> (e' = e \<or> e' = ErrBoth e m ae)
    \<and> (\<exists>s \<in> set log. q_Method (st_request s) = ''DELETE'')"
proof -
  let ?req = "bodyless ''DELETE'' (url (v_cfg v) bucket key [(''uploadId'', [uploadID])])"
  obtain alog ares where a: "call v ?req drainBody (si_abort si) = (alog, ares)" by fastforce
  have ne: "si_abort si \<noteq> []" using assms(2) by auto
  have "alog \<noteq> []"
    using call_sends [OF assms(1), of ?req bucket key "[(''uploadId'', [uploadID])]" "si_abort si" drainBody] a ne
    by (auto simp: bodyless_def)
  moreover have "ares \<noteq> None" using call_returns [OF assms(2), of ?req drainBody] a by simp
  moreover have "q_Method (st_request s) = ''DELETE''" if "s \<in> set alog" for s
    using call_method [of s v ?req drainBody "si_abort si"] a that by (simp add: bodyless_def)
  ultimately obtain s where s: "s \<in> set alog" "q_Method (st_request s) = ''DELETE''" by (cases alog) auto
  have "PutObjectStream v cd uploadParts bucket key rd opts0 si
      = map_prod (\<lambda>l. clog @ plog @ l) id (abortAfter v bucket key uploadID (si_abort si) e)"
    using assms(3-6) by (simp add: PutObjectStream_def)
  moreover obtain e' where "abortAfter v bucket key uploadID (si_abort si) e = (alog, Some (Inl e'))"
      "e' = e \<or> (\<exists>m ae. e' = ErrBoth e m ae)"
    using abortAfter_error [OF _ \<open>ares \<noteq> None\<close>] a by blast
  ultimately show ?thesis using s by auto
qed

text \<open>
  A completion that fails is not cleaned up: the call returns the error, but every request
  after the parts is a \<^verbatim>\<open>POST\<close>, so the parts stay in the store although nothing refers to them.
\<close>

lemma failed_completion_is_not_aborted:
  assumes "withDefaults opts0 = Inr opts" and "\<not> singlePut rd opts"
    and "createMultipartUpload v (cd_uploadID cd) bucket key (uo_ContentType opts) (si_create si) = (clog, Some (Inr uploadID))"
    and "uploadParts uploadID (readerSource rd) opts = (plog, Some (Inr parts))" and "parts \<noteq> []"
    and "PutObjectStream v cd uploadParts bucket key rd opts0 si = (log, Some (Inl e))"
  shows "\<exists>rest. log = clog @ plog @ rest \<and> (\<forall>s \<in> set rest. q_Method (st_request s) = ''POST'')"
proof -
  have "log = clog @ plog @ fst (completeMultipartUpload v cd bucket key uploadID parts (uo_ContentType opts)
      (si_abort si) (si_put si) (si_complete si))"
    using assms(1-4,6) by (simp add: PutObjectStream_def) (metis fst_conv fst_map_prod)
  moreover have "q_Method (st_request s) = ''POST''" if "s \<in> set (fst (completeMultipartUpload v cd bucket key uploadID parts
      (uo_ContentType opts) (si_abort si) (si_put si) (si_complete si)))" for s
    using that assms(5) by (auto simp: completeMultipartUpload_def Let_def withBody_def dest!: call_method)
  ultimately show ?thesis by blast
qed

lemma sum_lengths: "sum_list (map (int \<circ> length) bs) = int (length (concat bs))"
  by (induction bs) auto

lemma PutObject_size: "PutObject v bucket key body sz contentType is = (log, Some (Inr info)) \<Longrightarrow> oi_Size info = sz"
  by (auto simp: PutObject_def s3do_def bodyOffset_def putInfo_def split: sum.splits dest!: doLoop_sink)

lemma map_sum_Inr: "map_sum f g z = Inr y \<longleftrightarrow> (\<exists>x. z = Inr x \<and> y = g x)"
  by (cases z) auto

lemma complete_size:
  assumes "completeMultipartUpload v cd bucket key uploadID parts contentType inAbort inPut is = (log, Some (Inr info))"
  shows "oi_Size info = sum_list (map cp_size parts)"
  using assms PutObject_size
  by (auto simp: completeMultipartUpload_def Let_def map_prod_def map_sum_Inr split: if_splits prod.splits option.splits sum.splits)

text \<open>
  The size a streamed upload reports is the size of its source: when the part uploader's result
  is that of one of its runs and the call succeeds, the whole source was read without an error
  and its length is the size of the object returned, for an empty source too.
\<close>

lemma streamed_size_is_source_size:
  assumes "withDefaults opts0 = Inr opts" and "\<not> singlePut rd opts"
    and "createMultipartUpload v (cd_uploadID cd) bucket key (uo_ContentType opts) (si_create si) = (clog, Some (Inr uploadID))"
    and "uploadRun (uploadPart v bucket key uploadID) (nat (uo_PartSize opts)) (nat (uo_Concurrency opts)) (readerSource rd) u"
    and "uploadOver u" and "uploadParts uploadID (readerSource rd) opts = (plog, Some (uploadResult u))"
    and "PutObjectStream v cd uploadParts bucket key rd opts0 si = (log, Some (Inr info))"
  shows "oi_Size info = int (length (src_data (readerSource rd))) \<and> src_end (readerSource rd) = None"
proof -
  have pos: "0 < nat (uo_PartSize opts)"
    using assms(1) by (auto simp: withDefaults_def Let_def MinPartSize_def split: if_splits)
  have run: "PutObjectStream v cd uploadParts bucket key rd opts0 si =
      (case uploadResult u of
         Inl e \<Rightarrow> map_prod (\<lambda>l. clog @ plog @ l) id (abortAfter v bucket key uploadID (si_abort si) e)
       | Inr parts \<Rightarrow> map_prod (\<lambda>l. clog @ plog @ l) id (completeMultipartUpload v cd bucket key uploadID parts
           (uo_ContentType opts) (si_abort si) (si_put si) (si_complete si)))"
    using assms(1,2,3,6) by (cases "uploadResult u") (simp_all add: PutObjectStream_def)
  show ?thesis
  proof (cases "uploadResult u")
    case (Inl e)
    then show ?thesis using assms(7) run
      by (auto simp: abortAfter_def split: prod.splits option.splits sum.splits)
  next
    case (Inr parts)
    obtain bs where bs: "concat bs = src_data (readerSource rd)" "src_end (readerSource rd) = None"
        "map cp_size parts = map (int \<circ> length) bs"
      using upload_success [OF pos assms(4,5) Inr] by blast
    obtain log' where "completeMultipartUpload v cd bucket key uploadID parts (uo_ContentType opts)
        (si_abort si) (si_put si) (si_complete si) = (log', Some (Inr info))"
      using assms(7) run Inr by (auto simp: map_prod_def split: prod.splits)
    from complete_size [OF this] show ?thesis using bs sum_lengths [of bs] by simp
  qed
qed

section \<open>Sample runs\<close>

definition sampleCodec :: codec where
  "sampleCodec = \<lparr>cd_uploadID = (\<lambda>b. Inr ''id''), cd_parts = (\<lambda>ps. []), cd_errorDoc = (\<lambda>b. if b = ''bad'' then Some ''SlowDown'' else None),
     cd_etag = (\<lambda>b. Inr ''e'')\<rparr>"

definition sampleUpload :: "nat \<Rightarrow> gostring \<Rightarrow> gostring call" where
  "sampleUpload n body is = ([], Some (Inr ''etag''))"

definition sampleOpts :: uploadOptions where
  "sampleOpts = \<lparr>uo_ContentType = [], uo_PartSize = 0, uo_Concurrency = 2, uo_Size = -1\<rparr>"

definition sampleIn :: "gostring \<Rightarrow> streamIn" where
  "sampleIn body = \<lparr>si_create = [sampleAttempt 200], si_put = replicate 4 (sampleAttempt 200),
     si_abort = replicate 4 (sampleAttempt 200),
     si_complete = [(sampleAttempt 200)\<lparr>ai_http := Inr \<lparr>rs_StatusCode = 200, rs_Header = [], rs_ContentLength = 0, rs_Body = body\<rparr>\<rparr>]\<rparr>"

lemma sample_base: "u_RawQuery (c_base (v_cfg sampleEnv)) = []"
  by (simp add: sampleEnv_def sampleCfg_def)

lemma sample_opts: "withDefaults sampleOpts = Inr (sampleOpts\<lparr>uo_PartSize := DefaultPartSize\<rparr>)"
  by (simp add: withDefaults_def sampleOpts_def DefaultPartSize_def MinPartSize_def Let_def)

lemma sample_create:
  "\<exists>log. createMultipartUpload sampleEnv (cd_uploadID sampleCodec) ''b'' ''k'' [] (si_create (sampleIn body)) = (log, Some (Inr ''id''))"
proof -
  let ?u = "url (v_cfg sampleEnv) ''b'' ''k'' [(''uploads'', [[]])]"
  let ?resp = "\<lparr>rs_StatusCode = 200, rs_Header = [], rs_ContentLength = 0, rs_Body = []\<rparr>"
  have "ai_http (sampleAttempt 200) = Inr ?resp" by (simp add: sampleAttempt_def)
  from call_first_accepted [OF sample_base _ this, of "(bodyless ''POST'' ?u)\<lparr>rq_header := []\<rparr>" "''b''" "''k''" "[(''uploads'', [[]])]"
      "\<lambda>resp. cd_uploadID sampleCodec (rs_Body resp)" "[]"]
  obtain s where "call sampleEnv ((bodyless ''POST'' ?u)\<lparr>rq_header := []\<rparr>) (\<lambda>resp. cd_uploadID sampleCodec (rs_Body resp)) [sampleAttempt 200]
      = ([s], Some (Inr ''id''))"
    by (auto simp: bodyless_def sampleCodec_def)
  then show ?thesis by (simp add: createMultipartUpload_def sampleIn_def Let_def)
qed

lemma sample_run:
  "\<exists>u. uploadRun sampleUpload 2 1 \<lparr>src_data = ''abc'', src_end = None\<rparr> u \<and> uploadOver u
     \<and> uploadResult u = Inr [\<lparr>cp_PartNumber = 1, cp_ETag = ''etag'', cp_size = 2\<rparr>, \<lparr>cp_PartNumber = 2, cp_ETag = ''etag'', cp_size = 1\<rparr>]"
proof -
  let ?r = "\<lparr>src_data = ''abc'', src_end = None\<rparr>" and ?run = "uploadRun sampleUpload 2 1 \<lparr>src_data = ''abc'', src_end = None\<rparr>"
  let ?u1 = "readPart 2 1 (newUploader ?r)"
  let ?u2 = "takeSlot 1 ''ab'' ReadOK ?u1"
  let ?u3 = "finishPart 1 ''ab'' (Inr ''etag'') ?u2"
  let ?u4 = "readPart 2 2 ?u3"
  let ?u5 = "takeSlot 2 ''c'' ReadUnexpectedEOF ?u4"
  let ?u6 = "finishPart 2 ''c'' (Inr ''etag'') ?u5"
  note defs = readPart_def takeSlot_def finishPart_def afterRead_def readFull_def newUploader_def maxParts_def
  have 1: "?run ?u1" by (rule uploadRun.step [OF uploadRun.start uploadStep.reads]) (simp add: newUploader_def)
  have 2: "?run ?u2" by (rule uploadRun.step [OF 1 uploadStep.slot]) (simp_all add: defs)
  have 3: "?run ?u3" by (rule uploadRun.step [OF 2 uploadStep.part]) (simp_all add: defs sampleUpload_def)
  have 4: "?run ?u4" by (rule uploadRun.step [OF 3 uploadStep.reads]) (simp add: defs)
  have 5: "?run ?u5" by (rule uploadRun.step [OF 4 uploadStep.slot]) (simp_all add: defs)
  have 6: "?run ?u6" by (rule uploadRun.step [OF 5 uploadStep.part]) (simp_all add: defs sampleUpload_def)
  have "uploadOver ?u6" by (simp add: uploadOver_def defs)
  moreover have "uploadResult ?u6 = Inr [\<lparr>cp_PartNumber = 1, cp_ETag = ''etag'', cp_size = 2\<rparr>, \<lparr>cp_PartNumber = 2, cp_ETag = ''etag'', cp_size = 1\<rparr>]"
    by (simp add: uploadResult_def defs)
  ultimately show ?thesis using 6 by blast
qed

theorem finished_upload_is_the_source_witness:
  "\<exists>u bs. uploadRun sampleUpload 2 1 \<lparr>src_data = ''abc'', src_end = None\<rparr> u
     \<and> concat bs = ''abc'' \<and> mset (up_stored u) = mset (enumerate 1 bs)"
proof -
  from sample_run obtain u where u: "uploadRun sampleUpload 2 1 \<lparr>src_data = ''abc'', src_end = None\<rparr> u" "uploadOver u"
      "uploadResult u = Inr [\<lparr>cp_PartNumber = 1, cp_ETag = ''etag'', cp_size = 2\<rparr>, \<lparr>cp_PartNumber = 2, cp_ETag = ''etag'', cp_size = 1\<rparr>]"
    by blast
  from finished_upload_is_the_source [OF _ u] u(1) show ?thesis by auto
qed

theorem upload_never_hangs_witness:
  "\<exists>u'. uploadStep (uploadPart sampleEnv ''b'' ''k'' ''id'') 2 1 (newUploader \<lparr>src_data = ''abc'', src_end = None\<rparr>) u'
     \<and> uploadMeasure u' < uploadMeasure (newUploader \<lparr>src_data = ''abc'', src_end = None\<rparr>)"
proof -
  let ?u = "newUploader \<lparr>src_data = ''abc'', src_end = None\<rparr>"
  have "\<not> uploadOver ?u" by (simp add: uploadOver_def newUploader_def)
  with upload_never_hangs [of 2 1 sampleEnv "''b''" "''k''" "''id''", OF _ _ uploadRun.start] show ?thesis by auto
qed

lemma exactly_max_parts_is_refused_witness:
  "\<exists>u. uploadRun sampleUpload 1 1 \<lparr>src_data = replicate maxParts CHR ''x'', src_end = None\<rparr> u \<and> uploadOver u
     \<and> (\<exists>e. uploadResult u = Inl e)"
proof -
  obtain u where u: "uploadRun sampleUpload 1 1 \<lparr>src_data = replicate maxParts CHR ''x'', src_end = None\<rparr> u" "uploadOver u"
    using upload_reaches_end [where upload = sampleUpload, OF _ _ _ uploadRun.start] by (force simp: sampleUpload_def)
  with exactly_max_parts_is_refused [OF _ _ u] show ?thesis by auto
qed

abbreviation sampleSource :: reader where
  "sampleSource \<equiv> Stream \<lparr>src_data = ''abc'', src_end = None\<rparr>"

lemma failed_parts_are_aborted_witness:
  "\<exists>log e. PutObjectStream sampleEnv sampleCodec (\<lambda>uploadID r opts. ([], Some (Inl (ErrText ''boom'')))) ''b'' ''k'' sampleSource
       sampleOpts (sampleIn []) = (log, Some (Inl e))
     \<and> (\<exists>s \<in> set log. q_Method (st_request s) = ''DELETE'')"
proof -
  obtain clog where "createMultipartUpload sampleEnv (cd_uploadID sampleCodec) ''b'' ''k'' [] (si_create (sampleIn [])) = (clog, Some (Inr ''id''))"
    using sample_create by blast
  moreover have "uo_ContentType (sampleOpts\<lparr>uo_PartSize := DefaultPartSize\<rparr>) = []" by (simp add: sampleOpts_def)
  ultimately have c: "createMultipartUpload sampleEnv (cd_uploadID sampleCodec) ''b'' ''k'' (uo_ContentType (sampleOpts\<lparr>uo_PartSize := DefaultPartSize\<rparr>))
      (si_create (sampleIn [])) = (clog, Some (Inr ''id''))" by simp
  have len: "nat (c_MaxRetries (v_cfg sampleEnv)) < length (si_abort (sampleIn []))"
    by (simp add: sampleEnv_def sampleCfg_def sampleIn_def)
  from failed_parts_are_aborted [OF sample_base len sample_opts _ c, of sampleSource "\<lambda>uploadID r opts. ([], Some (Inl (ErrText ''boom'')))"]
  show ?thesis by (simp add: singlePut_def) blast
qed

lemma sample_complete:
  "\<exists>log. completeMultipartUpload sampleEnv sampleCodec ''b'' ''k'' ''id'' [\<lparr>cp_PartNumber = 1, cp_ETag = ''etag'', cp_size = 3\<rparr>] []
       inAbort inPut (si_complete (sampleIn [])) = (log, Some (Inr ((newInfo ''b'' ''k'')\<lparr>oi_Size := 3, oi_ETag := trimQuotes ''e''\<rparr>)))"
  "\<exists>log e. completeMultipartUpload sampleEnv sampleCodec ''b'' ''k'' ''id'' [\<lparr>cp_PartNumber = 1, cp_ETag = ''etag'', cp_size = 3\<rparr>] []
       inAbort inPut (si_complete (sampleIn ''bad'')) = (log, Some (Inl e))"
proof -
  let ?u = "url (v_cfg sampleEnv) ''b'' ''k'' [(''uploadId'', [''id''])]"
  let ?req = "withBody sampleEnv ''POST'' ?u [] [(hdrContentType, ''application/xml'')]"
  let ?sink = "lateErrorSink (cd_errorDoc sampleCodec) (cd_etag sampleCodec)
    ''multipart completion was refused after the request was accepted'' ''POST'' (u_Path ?u)"
  have sent: "\<exists>s. call sampleEnv ?req ?sink (si_complete (sampleIn body))
      = ([s], Some (case ?sink \<lparr>rs_StatusCode = 200, rs_Header = [], rs_ContentLength = 0, rs_Body = body\<rparr> of Inl e \<Rightarrow> Inl e | Inr x \<Rightarrow> Inr x))" for body
    unfolding sampleIn_def streamIn.simps
    by (rule call_first_accepted [OF sample_base, of _ "''b''" "''k''" "[(''uploadId'', [''id''])]"]) (simp_all add: withBody_def)
  show "\<exists>log. completeMultipartUpload sampleEnv sampleCodec ''b'' ''k'' ''id'' [\<lparr>cp_PartNumber = 1, cp_ETag = ''etag'', cp_size = 3\<rparr>] []
       inAbort inPut (si_complete (sampleIn [])) = (log, Some (Inr ((newInfo ''b'' ''k'')\<lparr>oi_Size := 3, oi_ETag := trimQuotes ''e''\<rparr>)))"
    using sent [of "[]"]
    by (auto simp: completeMultipartUpload_def Let_def sampleCodec_def lateErrorSink_def errorCodeInBody_def newInfo_def)
  show "\<exists>log e. completeMultipartUpload sampleEnv sampleCodec ''b'' ''k'' ''id'' [\<lparr>cp_PartNumber = 1, cp_ETag = ''etag'', cp_size = 3\<rparr>] []
       inAbort inPut (si_complete (sampleIn ''bad'')) = (log, Some (Inl e))"
    using sent [of "''bad''"]
    by (auto simp: completeMultipartUpload_def Let_def sampleCodec_def lateErrorSink_def errorCodeInBody_def errorBodyLimit_def)
qed

lemma sample_created:
  "\<exists>log. createMultipartUpload sampleEnv (cd_uploadID sampleCodec) ''b'' ''k'' (uo_ContentType (sampleOpts\<lparr>uo_PartSize := DefaultPartSize\<rparr>))
      (si_create (sampleIn body)) = (log, Some (Inr ''id''))"
  using sample_create [of body] by (simp add: sampleOpts_def)

abbreviation samplePart :: completedPart where
  "samplePart \<equiv> \<lparr>cp_PartNumber = 1, cp_ETag = ''etag'', cp_size = 3\<rparr>"

abbreviation sampleStream :: "gostring \<Rightarrow> sent list \<times> (s3err + objectInfo) option" where
  "sampleStream body \<equiv> PutObjectStream sampleEnv sampleCodec (\<lambda>uploadID r opts. ([], Some (Inr [samplePart]))) ''b'' ''k'' sampleSource
     sampleOpts (sampleIn body)"

lemma sample_streams: "\<exists>log e. sampleStream ''bad'' = (log, Some (Inl e))" "\<exists>log info. sampleStream [] = (log, Some (Inr info))"
proof -
  have st: "sampleStream body = map_prod ((@) clog) id (completeMultipartUpload sampleEnv sampleCodec ''b'' ''k'' ''id'' [samplePart] []
      (si_abort (sampleIn body)) (si_put (sampleIn body)) (si_complete (sampleIn body)))"
    if "createMultipartUpload sampleEnv (cd_uploadID sampleCodec) ''b'' ''k'' [] (si_create (sampleIn body)) = (clog, Some (Inr ''id''))" for body clog
    using that by (simp add: PutObjectStream_def sample_opts singlePut_def) (simp add: sampleOpts_def)
  show "\<exists>log e. sampleStream ''bad'' = (log, Some (Inl e))" "\<exists>log info. sampleStream [] = (log, Some (Inr info))"
    using sample_create [of "''bad''"] sample_create [of "[]"] st sample_complete [of "si_abort (sampleIn ''bad'')" "si_put (sampleIn ''bad'')"]
      sample_complete [of "si_abort (sampleIn [])" "si_put (sampleIn [])"] by fastforce+
qed

lemma failed_completion_is_not_aborted_witness:
  "\<exists>log e. sampleStream ''bad'' = (log, Some (Inl e)) \<and> (\<exists>clog rest. log = clog @ rest \<and> list_all (\<lambda>s. q_Method (st_request s) = ''POST'') rest)"
proof -
  obtain clog where c: "createMultipartUpload sampleEnv (cd_uploadID sampleCodec) ''b'' ''k'' (uo_ContentType (sampleOpts\<lparr>uo_PartSize := DefaultPartSize\<rparr>))
      (si_create (sampleIn ''bad'')) = (clog, Some (Inr ''id''))" using sample_created by blast
  obtain log e where s: "sampleStream ''bad'' = (log, Some (Inl e))" using sample_streams by blast
  have "\<not> singlePut sampleSource (sampleOpts\<lparr>uo_PartSize := DefaultPartSize\<rparr>)" by (simp add: singlePut_def)
  from failed_completion_is_not_aborted [OF sample_opts this c _ _ s] s show ?thesis by (auto simp: list_all_iff)
qed

lemma sample_part: "\<exists>is. snd (uploadPart sampleEnv ''b'' ''k'' ''id'' 1 ''abc'' is) = Some (Inr ''etag'')"
proof -
  let ?q = "[(''partNumber'', [itoa (int 1)]), (''uploadId'', [''id''])]"
  let ?u = "url (v_cfg sampleEnv) ''b'' ''k'' ?q"
  let ?req = "withBody sampleEnv ''PUT'' ?u ''abc'' []"
  let ?resp = "\<lparr>rs_StatusCode = 200, rs_Header = [(canonicalKeyGo True ''ETag'', [''etag''])], rs_ContentLength = 0, rs_Body = []\<rparr>"
  let ?sink = "\<lambda>resp. let etag = getHeader ''ETag'' resp in
      if etag = [] then Inl (ErrText (''part '' @ itoa (int 1) @ '': server returned no ETag'')) else Inr etag"
  have "\<exists>s. call sampleEnv ?req ?sink [(sampleAttempt 200)\<lparr>ai_http := Inr ?resp\<rparr>] = ([s], Some (case ?sink ?resp of Inl e \<Rightarrow> Inl e | Inr x \<Rightarrow> Inr x))"
    by (rule call_first_accepted [OF sample_base, of _ "''b''" "''k''" ?q]) (simp_all add: withBody_def)
  moreover have "?sink ?resp = Inr ''etag''" by (simp add: getHeader_def)
  ultimately obtain s where "call sampleEnv ?req ?sink [(sampleAttempt 200)\<lparr>ai_http := Inr ?resp\<rparr>] = ([s], Some (Inr ''etag''))"
    by (auto simp only: sum.case)
  then show ?thesis
    unfolding uploadPart_def mapErr_def
    by (intro exI [of _ "[(sampleAttempt 200)\<lparr>ai_http := Inr ?resp\<rparr>]"])
      (simp only: map_prod_simp snd_conv option.map map_sum.simps id_apply)
qed

lemma sample_part_run:
  "\<exists>u. uploadRun (uploadPart sampleEnv ''b'' ''k'' ''id'') (nat DefaultPartSize) 2 (readerSource sampleSource) u \<and> uploadOver u
     \<and> uploadResult u = Inr [samplePart]"
proof -
  let ?run = "uploadRun (uploadPart sampleEnv ''b'' ''k'' ''id'') (nat DefaultPartSize) 2 (readerSource sampleSource)"
  let ?u1 = "readPart (nat DefaultPartSize) 1 (newUploader (readerSource sampleSource))"
  let ?u2 = "takeSlot 1 ''abc'' ReadUnexpectedEOF ?u1"
  let ?u3 = "finishPart 1 ''abc'' (Inr ''etag'') ?u2"
  note defs = readPart_def takeSlot_def finishPart_def afterRead_def readFull_def newUploader_def maxParts_def DefaultPartSize_def
  obtain "is" where "is": "snd (uploadPart sampleEnv ''b'' ''k'' ''id'' 1 ''abc'' is) = Some (Inr ''etag'')" using sample_part by blast
  have 1: "?run ?u1" by (rule uploadRun.step [OF uploadRun.start uploadStep.reads]) (simp add: newUploader_def)
  have 2: "?run ?u2" by (rule uploadRun.step [OF 1 uploadStep.slot]) (simp_all add: defs)
  have 3: "?run ?u3" by (rule uploadRun.step [OF 2 uploadStep.part [of 1 "''abc''" ?u2 "uploadPart sampleEnv ''b'' ''k'' ''id''" "is" "Inr ''etag''"]])
      (use "is" in \<open>simp_all add: defs\<close>)
  have "uploadOver ?u3" "uploadResult ?u3 = Inr [samplePart]" by (simp_all add: uploadOver_def uploadResult_def defs)
  with 3 show ?thesis by blast
qed

lemma streamed_size_is_source_size_witness:
  "\<exists>log info. sampleStream [] = (log, Some (Inr info)) \<and> oi_Size info = 3"
proof -
  obtain clog where c: "createMultipartUpload sampleEnv (cd_uploadID sampleCodec) ''b'' ''k'' (uo_ContentType (sampleOpts\<lparr>uo_PartSize := DefaultPartSize\<rparr>))
      (si_create (sampleIn [])) = (clog, Some (Inr ''id''))" using sample_created by blast
  obtain log info where s: "sampleStream [] = (log, Some (Inr info))" using sample_streams by blast
  obtain u where "uploadRun (uploadPart sampleEnv ''b'' ''k'' ''id'') (nat DefaultPartSize) 2 (readerSource sampleSource) u" "uploadOver u"
      "uploadResult u = Inr [samplePart]" using sample_part_run by blast
  moreover have "\<not> singlePut sampleSource (sampleOpts\<lparr>uo_PartSize := DefaultPartSize\<rparr>)" by (simp add: singlePut_def)
  ultimately have "oi_Size info = int (length (src_data (readerSource sampleSource)))"
    using streamed_size_is_source_size [OF sample_opts _ c _ _ _ s] by (auto simp: sampleOpts_def)
  with s show ?thesis by auto
qed

end
