(* ===== verification/S3_Sync.thy ===== *)
theory S3_Sync
  imports S3_Download S3_Multipart
begin

text \<open>
  \<^verbatim>\<open>koc s3 sync\<close>, from \<^verbatim>\<open>src/internal/cli/s3/sync.go\<close>: the two sides, what has to be transferred, the
  transfers through the pool, and the deletions. A walk of a local directory is the list of what
  \<^verbatim>\<open>filepath.WalkDir\<close> visits; a remote side is a listing.
\<close>

section \<open>Endpoints\<close>

record syncFlags =
  sf_del :: bool
  sf_sizeOnly :: bool
  sf_dryRun :: bool
  sf_force :: bool
  sf_concurrency :: int
  sf_partSizeMiB :: int
  sf_filter :: keyFilter

record syncEndpoint =
  se_dir :: gostring
  se_bucket :: gostring
  se_prefix :: gostring

definition isLocal :: "syncEndpoint \<Rightarrow> bool" where
  "isLocal e \<longleftrightarrow> se_bucket e = []"

definition endpointString :: "syncEndpoint \<Rightarrow> gostring" where
  "endpointString e = (if isLocal e then se_dir e else ''s3://'' @ se_bucket e @ ''/'' @ se_prefix e)"

definition endpointJoin :: "syncEndpoint \<Rightarrow> gostring \<Rightarrow> gostring" where
  "endpointJoin e key = (if isLocal e then JoinPath (se_dir e) key else se_prefix e @ key)"

definition parseSyncEndpoint :: "gostring \<Rightarrow> s3err + syncEndpoint" where
  "parseSyncEndpoint ref =
     (case cutPrefix ref ''s3://'' of
        None \<Rightarrow>
          if ref = [] then Inl (ErrText ''a sync side cannot be empty'')
          else Inr \<lparr>se_dir = ref, se_bucket = [], se_prefix = []\<rparr>
      | Some rest \<Rightarrow>
          (case cut (trimPrefix rest ''/'') (CHR ''/'') of
             (bucket, prefix, _) \<Rightarrow>
               if bucket = [] then Inl (ErrText (ref @ '' names no bucket: expected s3://<bucket>[/<prefix>]''))
               else Inr \<lparr>se_dir = [], se_bucket = bucket,
                         se_prefix = (if prefix \<noteq> [] \<and> \<not> hasSuffix prefix ''/'' then prefix @ ''/'' else prefix)\<rparr>))"

definition parseSyncEndpoints :: "gostring \<Rightarrow> gostring \<Rightarrow> s3err + syncEndpoint \<times> syncEndpoint" where
  "parseSyncEndpoints srcRef dstRef =
     (case parseSyncEndpoint srcRef of
        Inl e \<Rightarrow> Inl e
      | Inr src \<Rightarrow>
          (case parseSyncEndpoint dstRef of
             Inl e \<Rightarrow> Inl e
           | Inr dst \<Rightarrow>
               if isLocal src \<and> isLocal dst then
                 Inl (ErrText ''at least one side must be an s3:// location; two local paths are a job for cp or rsync'')
               else if src = dst then
                 Inl (ErrText (''source and destination are the same location ('' @ endpointString src @ '')''))
               else Inr (src, dst)))"

text \<open>\<open>stat\<close> is \<^verbatim>\<open>os.Stat\<close>: an error, or whether the path is a directory.\<close>

definition checkLocalSides :: "(gostring \<Rightarrow> s3err + bool) \<Rightarrow> syncEndpoint \<Rightarrow> syncEndpoint \<Rightarrow> s3err option" where
  "checkLocalSides stat src dst =
     (let dstErr = (if isLocal dst \<and> stat (se_dir dst) = Inr False
                    then Some (ErrText (''destination '' @ se_dir dst @ '' is not a directory'')) else None)
      in if isLocal src then
           (case stat (se_dir src) of
              Inl e \<Rightarrow> Some (ErrWrap (''reading source '' @ se_dir src @ '': '') e)
            | Inr False \<Rightarrow> Some (ErrText (''source '' @ se_dir src @ '' is not a directory; sync mirrors trees''))
            | Inr True \<Rightarrow> dstErr)
         else dstErr)"

section \<open>Entries\<close>

record syncEntry =
  sy_key :: gostring
  sy_size :: int
  sy_mtime :: int
  sy_path :: gostring

text \<open>\<^verbatim>\<open>time.Truncate\<close> rounds down to a multiple of the unit since the zero time.\<close>

definition truncateTime :: "int \<Rightarrow> int" where
  "truncateTime t = t - t mod second"

definition needsTransfer :: "syncFlags \<Rightarrow> syncEntry \<Rightarrow> syncEntry \<Rightarrow> bool" where
  "needsTransfer f src dst =
     (if sy_size src \<noteq> sy_size dst then True
      else if sf_sizeOnly f then False
      else truncateTime (sy_mtime src) > truncateTime (sy_mtime dst))"

section \<open>Walking a side\<close>

text \<open>
  What \<^verbatim>\<open>WalkDir\<close> hands to its callback: an error, or an entry with its path, whether it is a regular
  file, and what asking for its size and modification time gives.
\<close>

datatype treeItem = WalkError s3err | TreeEntry gostring bool "s3err + int \<times> int"

definition localVisit :: "gostring \<Rightarrow> (syncEntry, 's) visitor \<Rightarrow> (treeItem, 's) visitor" where
  "localVisit root fn item s =
     (case item of
        WalkError e \<Rightarrow> (Some e, s)
      | TreeEntry path regular info \<Rightarrow>
          if \<not> regular then (None, s)
          else (case Rel root path of
                  None \<Rightarrow> (Some (ErrText (''resolving '' @ path @ '' under '' @ root)), s)
                | Some rel \<Rightarrow>
                    (case info of
                       Inl e \<Rightarrow> (Some (ErrWrap (''stat '' @ path @ '': '') e), s)
                     | Inr (sz, mtime) \<Rightarrow>
                         fn \<lparr>sy_key = rel, sy_size = sz, sy_mtime = mtime, sy_path = path\<rparr> s)))"

definition remoteEntry :: "gostring \<Rightarrow> s3Object \<Rightarrow> syncEntry" where
  "remoteEntry prefix ob =
     \<lparr>sy_key = trimPrefix (ob_Key ob) prefix, sy_size = ob_Size ob, sy_mtime = ob_LastModified ob, sy_path = []\<rparr>"

definition remoteVisit :: "gostring \<Rightarrow> (syncEntry, 's) visitor \<Rightarrow> (s3Object, 's) visitor" where
  "remoteVisit prefix fn ob s = (if hasSuffix (ob_Key ob) ''/'' then (None, s) else fn (remoteEntry prefix ob) s)"

definition keepVisit :: "syncFlags \<Rightarrow> (syncEntry, 's) visitor \<Rightarrow> (syncEntry, 's) visitor" where
  "keepVisit f fn entry s = (if \<not> filterMatch (sf_filter f) (sy_key entry) then (None, s) else fn entry s)"

record sideInputs =
  si_tree :: "treeItem list"
  si_pages :: "attemptIn list list"

definition walkEndpoint :: "s3Codec \<Rightarrow> syncEndpoint \<Rightarrow> syncFlags \<Rightarrow> (syncEntry, 's) visitor \<Rightarrow> sideInputs \<Rightarrow> 's \<Rightarrow> outcome \<times> 's" where
  "walkEndpoint x e f fn ins s =
     (if isLocal e then
        (case runCallback (localVisit (se_dir e) (keepVisit f fn)) (si_tree ins) s of (err, s') \<Rightarrow> (Some err, s'))
      else
        (case ListObjectsFunc (x_env x) (x_list x) (x_versions x) (se_bucket e) (prefixOptions (se_prefix e))
                (remoteVisit (se_prefix e) (keepVisit f fn)) s (si_pages ins) of
           (us, s', r) \<Rightarrow> (r, s')))"

section \<open>The index of the destination\<close>

text \<open>A Go map as a list of pairs with one entry for each key.\<close>

type_synonym syncIndex = "(gostring \<times> syncEntry) list"

definition indexVisit :: "(syncEntry, syncIndex) visitor" where
  "indexVisit e index = (None, (sy_key e, e) # filter (\<lambda>p. fst p \<noteq> sy_key e) index)"

definition errNotExist :: s3err where "errNotExist = ErrText ''file does not exist''"

fun isNotExist :: "s3err \<Rightarrow> bool" where
  "isNotExist (ErrWrap m e) = isNotExist e"
| "isNotExist (ErrSink e) = isNotExist e"
| "isNotExist (ErrBoth e m e') \<longleftrightarrow> isNotExist e \<or> isNotExist e'"
| "isNotExist e \<longleftrightarrow> e = errNotExist"

definition indexEndpoint :: "s3Codec \<Rightarrow> syncEndpoint \<Rightarrow> syncFlags \<Rightarrow> sideInputs \<Rightarrow> (s3err + syncIndex) option" where
  "indexEndpoint x e f ins =
     (case walkEndpoint x e f indexVisit ins [] of
        (None, index) \<Rightarrow> None
      | (Some None, index) \<Rightarrow> Some (Inr index)
      | (Some (Some err), index) \<Rightarrow>
          if isLocal e \<and> isNotExist err then Some (Inr index)
          else Some (Inl (ErrWrap (''reading '' @ endpointString e @ '': '') err)))"

section \<open>Transferring one entry\<close>

text \<open>The answers to the requests of a transfer, and what the local file gives.\<close>

record transferInputs =
  ti_open :: "s3err option"
  ti_reader :: reader
  ti_stream :: streamIn
  ti_uploadParts :: "gostring \<Rightarrow> source \<Rightarrow> uploadOptions \<Rightarrow> sent list \<times> (s3err + completedPart list) option"
  ti_mkdir :: "s3err option"
  ti_file :: fileInputs
  ti_copy :: "attemptIn list"

definition syncUpload :: "copyCodec \<Rightarrow> codec \<Rightarrow> (gostring \<Rightarrow> gostring) \<Rightarrow> syncEndpoint \<Rightarrow> syncEntry \<Rightarrow> syncFlags \<Rightarrow> transferInputs \<Rightarrow>
    files \<times> writer \<Rightarrow> outcome \<times> files \<times> writer" where
  "syncUpload x cd contentTypeFor dst e f ti st =
     (let (fs, w) = st; key = endpointJoin dst (sy_key e) in
      if sf_dryRun f then
        (case say (''Would upload '' @ sy_path e @ '' to '' @ se_bucket dst @ ''/'' @ key) w of (err, w') \<Rightarrow> (Some err, fs, w'))
      else case ti_open ti of
          Some err \<Rightarrow> (Some (Some (ErrWrap (''opening '' @ sy_path e @ '': '') err)), fs, w)
        | None \<Rightarrow>
            (let opts = \<lparr>uo_ContentType = contentTypeFor (sy_path e), uo_PartSize = sf_partSizeMiB f * 2 ^ 20,
                         uo_Concurrency = 1, uo_Size = sy_size e\<rparr>
             in case snd (PutObjectStream (x_env x) cd (ti_uploadParts ti) (se_bucket dst) key (ti_reader ti) opts (ti_stream ti)) of
                  None \<Rightarrow> (None, fs, w)
                | Some (Inl err) \<Rightarrow>
                    (Some (Some (ErrWrap (''uploading '' @ sy_path e @ '' to '' @ se_bucket dst @ ''/'' @ key @ '': '') err)), fs, w)
                | Some (Inr ob) \<Rightarrow>
                    (case say (''Uploaded: '' @ sy_path e @ '' -> '' @ se_bucket dst @ ''/'' @ key @ '' ('' @ itoa (oi_Size ob) @ '' bytes)'') w of
                       (err, w') \<Rightarrow> (Some err, fs, w'))))"

definition syncDownload :: "copyCodec \<Rightarrow> syncEndpoint \<Rightarrow> syncEndpoint \<Rightarrow> syncEntry \<Rightarrow> syncFlags \<Rightarrow> transferInputs \<Rightarrow>
    files \<times> writer \<Rightarrow> outcome \<times> files \<times> writer" where
  "syncDownload x src dst e f ti st =
     (let (fs, w) = st; key = endpointJoin src (sy_key e) in
      case destForKey (se_dir dst) [] (sy_key e) False of
        Inl err \<Rightarrow> (Some (Some err), fs, w)
      | Inr path \<Rightarrow>
          if sf_dryRun f then
            (case say (''Would download '' @ se_bucket src @ ''/'' @ key @ '' to '' @ path) w of (err, w') \<Rightarrow> (Some err, fs, w'))
          else case ti_mkdir ti of
              Some err \<Rightarrow> (Some (Some (ErrWrap (''creating '' @ Dir path @ '': '') err)), fs, w)
            | None \<Rightarrow>
                (case downloadToFile (x_env x) (se_bucket src) key [] path True (ti_file ti) fs of
                   (None, fs') \<Rightarrow> (None, fs', w)
                 | (Some (Inl err), fs') \<Rightarrow> (Some (Some err), fs', w)
                 | (Some (Inr n), fs') \<Rightarrow>
                     (case say (''Downloaded: '' @ se_bucket src @ ''/'' @ key @ '' -> '' @ path @ '' ('' @ itoa (int n) @ '' bytes)'') w of
                        (err, w') \<Rightarrow> (Some err, fs', w'))))"

definition syncCopy :: "copyCodec \<Rightarrow> syncEndpoint \<Rightarrow> syncEndpoint \<Rightarrow> syncEntry \<Rightarrow> syncFlags \<Rightarrow> transferInputs \<Rightarrow>
    files \<times> writer \<Rightarrow> outcome \<times> files \<times> writer" where
  "syncCopy x src dst e f ti st =
     (let (fs, w) = st;
          from = \<lparr>or_Bucket = se_bucket src, or_Key = endpointJoin src (sy_key e)\<rparr>;
          to = \<lparr>or_Bucket = se_bucket dst, or_Key = endpointJoin dst (sy_key e)\<rparr>
      in if sf_dryRun f then (case say (copyLine from to False True) w of (err, w') \<Rightarrow> (Some err, fs, w'))
         else case snd (CopyObject (x_env x) (x_errorDoc x) (x_copyResult x) from to [] [] (ti_copy ti)) of
             None \<Rightarrow> (None, fs, w)
           | Some (Inl err) \<Rightarrow> (Some (Some err), fs, w)
           | Some (Inr _) \<Rightarrow> (case say (copyLine from to False False) w of (err, w') \<Rightarrow> (Some err, fs, w')))"

definition syncOne :: "copyCodec \<Rightarrow> codec \<Rightarrow> (gostring \<Rightarrow> gostring) \<Rightarrow> syncEndpoint \<Rightarrow> syncEndpoint \<Rightarrow> syncEntry \<Rightarrow> syncFlags \<Rightarrow>
    transferInputs \<Rightarrow> files \<times> writer \<Rightarrow> outcome \<times> files \<times> writer" where
  "syncOne x cd contentTypeFor src dst e f ti st =
     (if isLocal src then syncUpload x cd contentTypeFor dst e f ti st
      else if isLocal dst then syncDownload x src dst e f ti st
      else syncCopy x src dst e f ti st)"

section \<open>Deleting what the source does not have\<close>

record syncScan =
  sc_index :: syncIndex
  sc_seen :: "gostring list"
  sc_source :: nat

text \<open>What the deletions did: the files removed, the batches handed to the client, and the output.\<close>

record syncDeletes =
  sd_removed :: "gostring list"
  sd_batches :: "deleteTarget list list"
  sd_out :: writer

definition pathOf :: "syncIndex \<Rightarrow> gostring \<Rightarrow> gostring" where
  "pathOf index key = (case map_of index key of None \<Rightarrow> [] | Some e \<Rightarrow> sy_path e)"

text \<open>\<open>rm\<close> is the error of removing a path.\<close>

fun deleteLocalExtras :: "(gostring \<Rightarrow> s3err option) \<Rightarrow> syncIndex \<Rightarrow> gostring list \<Rightarrow> syncFlags \<Rightarrow> syncDeletes \<Rightarrow>
    s3err option \<times> syncDeletes" where
  "deleteLocalExtras rm index [] f st = (None, st)"
| "deleteLocalExtras rm index (key # keys) f st =
     (let path = pathOf index key in
      if sf_dryRun f then
        (case say (''Would delete file: '' @ path) (sd_out st) of
           (Some e, w) \<Rightarrow> (Some e, st\<lparr>sd_out := w\<rparr>)
         | (None, w) \<Rightarrow> deleteLocalExtras rm index keys f (st\<lparr>sd_out := w\<rparr>))
      else case rm path of
          Some e \<Rightarrow> (Some (ErrWrap (''deleting '' @ path @ '': '') e), st)
        | None \<Rightarrow>
            (let st' = st\<lparr>sd_removed := sd_removed st @ [path]\<rparr> in
             case say (''Deleted file: '' @ path) (sd_out st') of
               (Some e, w) \<Rightarrow> (Some e, st'\<lparr>sd_out := w\<rparr>)
             | (None, w) \<Rightarrow> deleteLocalExtras rm index keys f (st'\<lparr>sd_out := w\<rparr>)))"

function deleteRemoteBatches :: "s3Codec \<Rightarrow> gostring \<Rightarrow> bool \<Rightarrow> deleteTarget list \<Rightarrow> attemptIn list list \<Rightarrow> syncDeletes \<Rightarrow>
    outcome \<times> syncDeletes" where
  "deleteRemoteBatches x bucket dryRun targets calls st =
     (if targets = [] then (Some None, st)
      else
        (let batch = (if length targets > MaxDeleteBatch then take MaxDeleteBatch targets else targets);
             st' = st\<lparr>sd_batches := sd_batches st @ (if dryRun then [] else [batch])\<rparr>
         in case deleteBatch x bucket batch dryRun (sd_out st) (concat (take 1 calls)) of
              (None, w) \<Rightarrow> (None, st'\<lparr>sd_out := w\<rparr>)
            | (Some (Some e), w) \<Rightarrow> (Some (Some e), st'\<lparr>sd_out := w\<rparr>)
            | (Some None, w) \<Rightarrow>
                deleteRemoteBatches x bucket dryRun (drop (length batch) targets) (drop 1 calls) (st'\<lparr>sd_out := w\<rparr>)))"
  by pat_completeness auto
termination
  by (relation "measure (\<lambda>(x, bucket, dryRun, targets, calls, st). length targets)") (auto simp: MaxDeleteBatch_def)

declare deleteRemoteBatches.simps [simp del]

definition deleteRemoteExtras :: "s3Codec \<Rightarrow> syncEndpoint \<Rightarrow> gostring list \<Rightarrow> syncFlags \<Rightarrow> attemptIn list list \<Rightarrow> syncDeletes \<Rightarrow>
    outcome \<times> syncDeletes" where
  "deleteRemoteExtras x dst extra f calls st =
     deleteRemoteBatches x (se_bucket dst) (sf_dryRun f)
       (map (\<lambda>key. \<lparr>dt_Key = endpointJoin dst key, dt_VersionID = []\<rparr>) extra) calls st"

definition extraKeys :: "syncScan \<Rightarrow> gostring list" where
  "extraKeys scan = sort (filter (\<lambda>key. key \<notin> set (sc_seen scan)) (map fst (sc_index scan)))"

definition syncDelete :: "s3Codec \<Rightarrow> (gostring \<Rightarrow> s3err option) \<Rightarrow> syncEndpoint \<Rightarrow> syncScan \<Rightarrow> syncFlags \<Rightarrow> attemptIn list list \<Rightarrow>
    syncDeletes \<Rightarrow> nat \<times> outcome \<times> syncDeletes" where
  "syncDelete x rm dst scan f calls st =
     (if \<not> sf_del f then (0, Some None, st)
      else if sc_source scan = 0 \<and> \<not> sf_force f then
        (0, Some (Some (ErrText (''the source is empty, so --delete would remove all '' @ itoa (int (length (sc_index scan)))
            @ '' entries under '' @ endpointString dst @ ''; pass --force if that is what you meant''))), st)
      else
        (let extra = extraKeys scan in
         if extra = [] then (0, Some None, st)
         else if isLocal dst then
           (case deleteLocalExtras rm (sc_index scan) extra f st of (err, st') \<Rightarrow> (length extra, Some err, st'))
         else
           (case deleteRemoteExtras x dst extra f calls st of (r, st') \<Rightarrow> (length extra, r, st'))))"

section \<open>The command\<close>

record syncWalk =
  sw_fan :: "syncEntry fan"
  sw_seen :: "gostring list"
  sw_source :: nat

definition syncVisit :: "syncIndex \<Rightarrow> syncFlags \<Rightarrow> (syncEntry, syncWalk) visitor" where
  "syncVisit index f e s =
     (let s' = s\<lparr>sw_source := Suc (sw_source s), sw_seen := sw_seen s @ [sy_key e]\<rparr> in
      if (case map_of index (sy_key e) of None \<Rightarrow> False | Some d \<Rightarrow> \<not> needsTransfer f e d) then (None, s')
      else (case startJob e (sw_fan s') of (err, fan) \<Rightarrow> (err, s'\<lparr>sw_fan := fan\<rparr>)))"

record syncInputs =
  yi_stat :: "gostring \<Rightarrow> s3err + bool"
  yi_dst :: sideInputs
  yi_src :: sideInputs
  yi_ctx :: "s3err option"
  yi_sched :: "(poolEvent list \<times> bool) list"
  yi_wait :: "poolEvent list"
  yi_rm :: "gostring \<Rightarrow> s3err option"
  yi_calls :: "attemptIn list list"

text \<open>
  The result: the outcome, what the walk of the source started (if it came to that), and what was
  deleted. \<open>w\<close> is the writer the command has; the lines of the workers are those of \<^const>\<open>syncOne\<close>.
\<close>

record syncRun =
  sn_outcome :: outcome
  sn_walk :: "syncWalk option"
  sn_deletes :: syncDeletes

definition startWalk :: "syncFlags \<Rightarrow> syncInputs \<Rightarrow> syncWalk" where
  "startWalk f ins = \<lparr>sw_fan = newFan (sf_concurrency f) (yi_ctx ins) (yi_sched ins), sw_seen = [], sw_source = 0\<rparr>"

definition runSync :: "s3Codec \<Rightarrow> syncEndpoint \<Rightarrow> syncEndpoint \<Rightarrow> syncFlags \<Rightarrow> syncInputs \<Rightarrow> writer \<Rightarrow> syncRun" where
  "runSync x src dst f ins w =
     (let none = \<lparr>sd_removed = [], sd_batches = [], sd_out = w\<rparr> in
      case checkLocalSides (yi_stat ins) src dst of
        Some e \<Rightarrow> \<lparr>sn_outcome = Some (Some e), sn_walk = None, sn_deletes = none\<rparr>
      | None \<Rightarrow>
          (case indexEndpoint x dst f (yi_dst ins) of
             None \<Rightarrow> \<lparr>sn_outcome = None, sn_walk = None, sn_deletes = none\<rparr>
           | Some (Inl e) \<Rightarrow> \<lparr>sn_outcome = Some (Some e), sn_walk = None, sn_deletes = none\<rparr>
           | Some (Inr index) \<Rightarrow>
               (case walkEndpoint x src f (syncVisit index f) (yi_src ins) (startWalk f ins) of
                  (walked, s) \<Rightarrow>
                    (case fanWait walked (yi_wait ins) (sw_fan s) of
                       (None, fan) \<Rightarrow> \<lparr>sn_outcome = None, sn_walk = Some (s\<lparr>sw_fan := fan\<rparr>), sn_deletes = none\<rparr>
                     | (Some (Some e), fan) \<Rightarrow>
                         \<lparr>sn_outcome = Some (Some (ErrWrap (''syncing '' @ endpointString src @ '' to '' @ endpointString dst @ '': '') e)),
                          sn_walk = Some (s\<lparr>sw_fan := fan\<rparr>), sn_deletes = none\<rparr>
                     | (Some None, fan) \<Rightarrow>
                         (let scan = \<lparr>sc_index = index, sc_seen = sw_seen s, sc_source = sw_source s\<rparr> in
                          case syncDelete x (yi_rm ins) dst scan f (yi_calls ins) none of
                            (removed, r, del) \<Rightarrow>
                              if r = Some None \<and> fn_taken fan = 0 \<and> removed = 0 then
                                (case say (''Already in sync: '' @ endpointString src @ '' and '' @ endpointString dst @ '' (''
                                         @ itoa (int (sw_source s)) @ '' objects)'') (sd_out del) of
                                   (err, w') \<Rightarrow> \<lparr>sn_outcome = Some err, sn_walk = Some (s\<lparr>sw_fan := fan\<rparr>),
                                                 sn_deletes = del\<lparr>sd_out := w'\<rparr>\<rparr>)
                              else \<lparr>sn_outcome = r, sn_walk = Some (s\<lparr>sw_fan := fan\<rparr>), sn_deletes = del\<rparr>)))))"

section \<open>The entries of a side\<close>

text \<open>Both walks hand some of what they visit to the callback, and may fail at an item.\<close>

definition via :: "('a \<Rightarrow> s3err + 'b option) \<Rightarrow> ('b, 's) visitor \<Rightarrow> ('a, 's) visitor" where
  "via sel fn a s = (case sel a of Inl e \<Rightarrow> (Some e, s) | Inr None \<Rightarrow> (None, s) | Inr (Some b) \<Rightarrow> fn b s)"

definition picks :: "('a \<Rightarrow> s3err + 'b option) \<Rightarrow> 'a list \<Rightarrow> 'b list" where
  "picks sel as = List.map_filter (\<lambda>a. case sel a of Inr (Some b) \<Rightarrow> Some b | _ \<Rightarrow> None) as"

definition keepEntry :: "syncFlags \<Rightarrow> syncEntry \<Rightarrow> s3err + syncEntry option" where
  "keepEntry f e = Inr (if filterMatch (sf_filter f) (sy_key e) then Some e else None)"

definition localPick :: "gostring \<Rightarrow> syncFlags \<Rightarrow> treeItem \<Rightarrow> s3err + syncEntry option" where
  "localPick root f item =
     (case item of
        WalkError e \<Rightarrow> Inl e
      | TreeEntry path regular info \<Rightarrow>
          if \<not> regular then Inr None
          else (case Rel root path of
                  None \<Rightarrow> Inl (ErrText (''resolving '' @ path @ '' under '' @ root))
                | Some rel \<Rightarrow>
                    (case info of
                       Inl e \<Rightarrow> Inl (ErrWrap (''stat '' @ path @ '': '') e)
                     | Inr (sz, mtime) \<Rightarrow> keepEntry f \<lparr>sy_key = rel, sy_size = sz, sy_mtime = mtime, sy_path = path\<rparr>)))"

definition remotePick :: "gostring \<Rightarrow> syncFlags \<Rightarrow> s3Object \<Rightarrow> s3err + syncEntry option" where
  "remotePick prefix f ob = (if hasSuffix (ob_Key ob) ''/'' then Inr None else keepEntry f (remoteEntry prefix ob))"

lemma localVisit_via: "localVisit root (keepVisit f fn) = via (localPick root f) fn"
  by (auto simp: fun_eq_iff localVisit_def via_def localPick_def keepEntry_def keepVisit_def
      split: treeItem.splits option.splits sum.splits prod.splits)

lemma remoteVisit_via: "remoteVisit prefix (keepVisit f fn) = via (remotePick prefix f) fn"
  by (auto simp: fun_eq_iff remoteVisit_def via_def remotePick_def keepEntry_def keepVisit_def)

lemma runCallback_via: "runCallback (via sel fn) as s = (None, s') \<Longrightarrow> runCallback fn (picks sel as) s = (None, s')"
  by (induction as arbitrary: s) (auto simp: via_def picks_def map_filter_simps split: sum.splits option.splits prod.splits)

definition sideEntries :: "s3Codec \<Rightarrow> syncEndpoint \<Rightarrow> syncFlags \<Rightarrow> sideInputs \<Rightarrow> syncEntry list option" where
  "sideEntries x e f ins =
     (if isLocal e then Some (picks (localPick (se_dir e) f) (si_tree ins))
      else case ListObjects (x_env x) (x_list x) (x_versions x) (se_bucket e) (prefixOptions (se_prefix e)) (si_pages ins) of
          Some (Inr obs) \<Rightarrow> Some (picks (remotePick (se_prefix e) f) obs)
        | _ \<Rightarrow> None)"

lemma walkEndpoint_folds:
  assumes "walkEndpoint x e f fn ins s = (Some None, s')"
  shows "\<exists>es. sideEntries x e f ins = Some es \<and> runCallback fn es s = (None, s')"
proof (cases "isLocal e")
  case True
  then show ?thesis using assms
    by (auto simp: walkEndpoint_def sideEntries_def localVisit_via split: prod.splits dest: runCallback_via)
next
  case False
  then obtain us where "ListObjectsFunc (x_env x) (x_list x) (x_versions x) (se_bucket e) (prefixOptions (se_prefix e))
      (via (remotePick (se_prefix e) f) fn) s (si_pages ins) = (us, s', Some None)"
    using assms by (auto simp: walkEndpoint_def remoteVisit_via split: prod.splits)
  from ListObjectsFunc_folds [OF this] show ?thesis using False by (auto simp: sideEntries_def dest: runCallback_via)
qed

lemma runCallback_invariant:
  assumes "\<And>a s. P s \<Longrightarrow> P (snd (fn a s))"
  shows "P s \<Longrightarrow> P (snd (runCallback fn as s))"
proof (induction as arbitrary: s)
  case (Cons a as)
  obtain err s1 where s1: "fn a s = (err, s1)" by fastforce
  then have "P s1" using assms [OF Cons.prems, of a] by simp
  then show ?case using Cons.IH s1 by (cases err) auto
qed simp

lemma via_invariant:
  assumes "\<And>b s. sel a = Inr (Some b) \<Longrightarrow> P s \<Longrightarrow> P (snd (fn b s))"
  shows "P s \<Longrightarrow> P (snd (via sel fn a s))"
  using assms by (auto simp: via_def split: sum.splits option.splits)

lemma localPick_kept: "localPick root f item = Inr (Some e) \<Longrightarrow> filterMatch (sf_filter f) (sy_key e)"
  by (auto simp: localPick_def keepEntry_def split: treeItem.splits if_splits option.splits sum.splits)

lemma remotePick_kept: "remotePick prefix f ob = Inr (Some e) \<Longrightarrow> filterMatch (sf_filter f) (sy_key e)"
  by (auto simp: remotePick_def keepEntry_def split: if_splits)

lemma walkEndpoint_invariant:
  assumes "\<And>e s. filterMatch (sf_filter f) (sy_key e) \<Longrightarrow> P s \<Longrightarrow> P (snd (fn e s))"
    and "walkEndpoint x e f fn ins s = (r, s')" and "P s"
  shows "P s'"
proof (cases "isLocal e")
  case True
  then have s': "s' = snd (runCallback (via (localPick (se_dir e) f) fn) (si_tree ins) s)"
    using assms(2) by (auto simp: walkEndpoint_def localVisit_via split: prod.splits)
  have "P t \<Longrightarrow> P (snd (via (localPick (se_dir e) f) fn a t))" for a t
    by (rule via_invariant [where P = P]) (rule assms(1) [OF localPick_kept])
  from runCallback_invariant [where P = P, OF this assms(3)] show ?thesis using s' by simp
next
  case False
  then obtain us where walk: "ListObjectsFunc (x_env x) (x_list x) (x_versions x) (se_bucket e) (prefixOptions (se_prefix e))
      (via (remotePick (se_prefix e) f) fn) s (si_pages ins) = (us, s', r)"
    using assms(2) by (auto simp: walkEndpoint_def remoteVisit_via split: prod.splits)
  have "P t \<Longrightarrow> P (snd (via (remotePick (se_prefix e) f) fn a t))" for a t
    by (rule via_invariant [where P = P]) (rule assms(1) [OF remotePick_kept])
  from ListObjectsFunc_invariant [where P = P, OF this walk assms(3)] show ?thesis .
qed

section \<open>The walk of the source\<close>

definition needed :: "syncIndex \<Rightarrow> syncFlags \<Rightarrow> syncEntry \<Rightarrow> bool" where
  "needed index f e = (case map_of index (sy_key e) of None \<Rightarrow> True | Some d \<Rightarrow> needsTransfer f e d)"

lemma syncVisit_folds:
  "runCallback (syncVisit index f) es s = (None, s') \<Longrightarrow>
     sw_seen s' = sw_seen s @ map sy_key es \<and> sw_source s' = sw_source s + length es
     \<and> fn_jobs (sw_fan s') = fn_jobs (sw_fan s) @ filter (needed index f) es
     \<and> fn_taken (sw_fan s') = fn_taken (sw_fan s) + length (filter (needed index f) es)"
proof (induction es arbitrary: s)
  case (Cons e es)
  obtain s1 where s1: "syncVisit index f e s = (None, s1)" "runCallback (syncVisit index f) es s1 = (None, s')"
    using Cons.prems by (auto split: prod.splits option.splits)
  have "sw_seen s1 = sw_seen s @ [sy_key e] \<and> sw_source s1 = Suc (sw_source s)
      \<and> fn_jobs (sw_fan s1) = fn_jobs (sw_fan s) @ filter (needed index f) [e]
      \<and> fn_taken (sw_fan s1) = fn_taken (sw_fan s) + length (filter (needed index f) [e])"
    using s1(1) startJob_None [of e "sw_fan s"]
    by (auto simp: syncVisit_def needed_def Let_def split: if_splits option.splits prod.splits)
  then show ?case using Cons.IH [OF s1(2)] by simp
qed simp

lemma syncVisit_inv: "fanInv (sw_fan s) \<Longrightarrow> fanInv (sw_fan (snd (syncVisit index f e s)))"
  using startJob_inv [of "sw_fan s" e] by (auto simp: syncVisit_def Let_def split: prod.splits)

lemma sync_transfers:
  assumes "walkEndpoint x src f (syncVisit index f) ins (startWalk f yi) = (walked, s)"
    and "fanWait walked evs (sw_fan s) = (Some None, fan)"
  shows "\<exists>es. sideEntries x src f ins = Some es \<and> sw_seen s = map sy_key es \<and> sw_source s = length es
    \<and> fn_taken fan = length (filter (needed index f) es)
    \<and> mset (map fst (pl_finished (fn_pool fan))) = mset (filter (needed index f) es)
    \<and> list_all (\<lambda>r. snd r = None) (pl_finished (fn_pool fan))"
proof -
  have "fanInv (sw_fan s)"
    by (rule walkEndpoint_invariant [where P = "\<lambda>s. fanInv (sw_fan s)", OF syncVisit_inv assms(1)])
      (simp_all add: startWalk_def newFan_inv)
  note all = fanWait_success [OF this assms(2)]
  then have "walkEndpoint x src f (syncVisit index f) ins (startWalk f yi) = (Some None, s)" using assms(1) by simp
  from walkEndpoint_folds [OF this] obtain es where es: "sideEntries x src f ins = Some es"
      "runCallback (syncVisit index f) es (startWalk f yi) = (None, s)" by blast
  show ?thesis using es(1) syncVisit_folds [OF es(2)] all by (auto simp: startWalk_def newFan_def)
qed

section \<open>The deletions\<close>

lemma deleteLocalExtras_removes:
  "deleteLocalExtras rm index keys f st = (err, st') \<Longrightarrow>
     sd_batches st' = sd_batches st
     \<and> (\<exists>k. sd_removed st' = sd_removed st @ (if sf_dryRun f then [] else map (pathOf index) (take k keys))
          \<and> (err = None \<longrightarrow> k = length keys))"
proof (induction keys arbitrary: st)
  case (Cons key keys)
  show ?case
  proof (cases "sf_dryRun f")
    case True
    obtain err1 w1 where w: "say (''Would delete file: '' @ pathOf index key) (sd_out st) = (err1, w1)" by fastforce
    show ?thesis
    proof (cases err1)
      case None
      then have "deleteLocalExtras rm index keys f (st\<lparr>sd_out := w1\<rparr>) = (err, st')" using Cons.prems True w by (simp add: Let_def)
      from Cons.IH [OF this] show ?thesis using True by auto
    next
      case (Some e)
      then show ?thesis using Cons.prems True w by (auto simp: Let_def)
    qed
  next
    case live: False
    show ?thesis
    proof (cases "rm (pathOf index key)")
      case (Some e)
      then show ?thesis using Cons.prems live by (auto simp: Let_def intro: exI [of _ 0])
    next
      case None
      let ?st = "st\<lparr>sd_removed := sd_removed st @ [pathOf index key]\<rparr>"
      obtain err1 w1 where w: "say (''Deleted file: '' @ pathOf index key) (sd_out ?st) = (err1, w1)" by fastforce
      show ?thesis
      proof (cases err1)
        case (Some e)
        then show ?thesis using Cons.prems live None w by (auto simp: Let_def intro: exI [of _ 1])
      next
        case ok: None
        then have "deleteLocalExtras rm index keys f (?st\<lparr>sd_out := w1\<rparr>) = (err, st')"
          using Cons.prems live None w by (simp add: Let_def)
        from Cons.IH [OF this] obtain k where "sd_removed st' = sd_removed st @ map (pathOf index) (take (Suc k) (key # keys))"
            "err = None \<longrightarrow> k = length keys" "sd_batches st' = sd_batches st" using live by auto
        then show ?thesis using live by (intro conjI exI [of _ "Suc k"]) simp_all
      qed
    qed
  qed
qed auto

definition nextBatch :: "deleteTarget list \<Rightarrow> deleteTarget list" where
  "nextBatch targets = (if length targets > MaxDeleteBatch then take MaxDeleteBatch targets else targets)"

lemma nextBatch_take: "nextBatch targets = take (length (nextBatch targets)) targets"
  by (simp add: nextBatch_def)

lemma nextBatch_size: "targets \<noteq> [] \<Longrightarrow> 0 < length (nextBatch targets) \<and> length (nextBatch targets) \<le> MaxDeleteBatch"
  by (simp add: nextBatch_def MaxDeleteBatch_def)

lemma deleteRemoteBatches_step:
  assumes "targets \<noteq> []" and "deleteRemoteBatches x bucket dry targets calls st = (r, st')"
  shows "\<exists>res w. (if res = Some None
      then deleteRemoteBatches x bucket dry (drop (length (nextBatch targets)) targets) (drop 1 calls)
        (st\<lparr>sd_batches := sd_batches st @ (if dry then [] else [nextBatch targets]), sd_out := w\<rparr>) = (r, st')
      else r = res \<and> st' = st\<lparr>sd_batches := sd_batches st @ (if dry then [] else [nextBatch targets]), sd_out := w\<rparr>)"
proof -
  obtain res w where "deleteBatch x bucket (nextBatch targets) dry (sd_out st) (concat (take 1 calls)) = (res, w)" by fastforce
  then show ?thesis using assms
    unfolding deleteRemoteBatches.simps [of x bucket dry targets] Let_def nextBatch_def [symmetric]
    by (intro exI [of _ res] exI [of _ w]) (auto split: option.splits)
qed

lemma deleteRemoteBatches_hands_over:
  "deleteRemoteBatches x bucket dry targets calls st = (r, st') \<Longrightarrow>
     sd_removed st' = sd_removed st
     \<and> (\<exists>bs k. sd_batches st' = sd_batches st @ bs \<and> list_all (\<lambda>b. 0 < length b \<and> length b \<le> MaxDeleteBatch) bs
          \<and> concat bs = (if dry then [] else take k targets) \<and> (r = Some None \<longrightarrow> k = length targets))"
proof (induction targets arbitrary: calls st rule: length_induct)
  case (1 targets)
  show ?case
  proof (cases "targets = []")
    case True
    then show ?thesis using 1(2) by (auto simp: deleteRemoteBatches.simps)
  next
    case some: False
    define b where "b = nextBatch targets"
    note size = nextBatch_size [OF some, folded b_def] and prefix = nextBatch_take [of targets, folded b_def]
    from deleteRemoteBatches_step [OF some 1(2), folded b_def] obtain res w where
      step: "if res = Some None then deleteRemoteBatches x bucket dry (drop (length b) targets) (drop 1 calls)
          (st\<lparr>sd_batches := sd_batches st @ (if dry then [] else [b]), sd_out := w\<rparr>) = (r, st')
        else r = res \<and> st' = st\<lparr>sd_batches := sd_batches st @ (if dry then [] else [b]), sd_out := w\<rparr>" by blast
    show ?thesis
    proof (cases "res = Some None")
      case False
      then show ?thesis using step size prefix
        by (intro conjI exI [of _ "if dry then [] else [b]"] exI [of _ "length b"]) auto
    next
      case True
      have "length (drop (length b) targets) < length targets" using size some by simp
      with 1(1) step True obtain bs k
        where ih: "sd_removed st' = sd_removed st" "sd_batches st' = sd_batches st @ (if dry then [] else [b]) @ bs"
          "list_all (\<lambda>b. 0 < length b \<and> length b \<le> MaxDeleteBatch) bs"
          "concat bs = (if dry then [] else take k (drop (length b) targets))" "r = Some None \<longrightarrow> k = length targets - length b"
        by fastforce
      have "length b \<le> length targets" using prefix by (metis length_take min.cobounded1)
      moreover have "b @ take k (drop (length b) targets) = take (length b + k) targets" using prefix by (metis take_add)
      ultimately show ?thesis using ih size
        by (intro conjI exI [of _ "(if dry then [] else [b]) @ bs"] exI [of _ "length b + k"]) auto
    qed
  qed
qed

definition extraTarget :: "syncEndpoint \<Rightarrow> gostring \<Rightarrow> deleteTarget" where
  "extraTarget dst key = \<lparr>dt_Key = endpointJoin dst key, dt_VersionID = []\<rparr>"

definition noDeletes :: "writer \<Rightarrow> syncDeletes" where
  "noDeletes w = \<lparr>sd_removed = [], sd_batches = [], sd_out = w\<rparr>"

text \<open>What has been deleted is the beginning of the sorted extra keys, and all of them on success.\<close>

definition deletedFirst :: "syncEndpoint \<Rightarrow> syncScan \<Rightarrow> nat \<Rightarrow> syncDeletes \<Rightarrow> bool" where
  "deletedFirst dst scan k del \<longleftrightarrow>
     sd_removed del = (if isLocal dst then map (pathOf (sc_index scan)) (take k (extraKeys scan)) else [])
     \<and> concat (sd_batches del) = (if isLocal dst then [] else map (extraTarget dst) (take k (extraKeys scan)))
     \<and> list_all (\<lambda>b. 0 < length b \<and> length b \<le> MaxDeleteBatch) (sd_batches del)"

lemma syncDelete_deletes:
  assumes "syncDelete x rm dst scan f calls (noDeletes w) = (n, r, del)"
  shows "\<exists>k. deletedFirst dst scan k del \<and> k \<le> length (extraKeys scan)
    \<and> (0 < k \<longrightarrow> sf_del f \<and> \<not> sf_dryRun f \<and> (0 < sc_source scan \<or> sf_force f))
    \<and> (r = Some None \<and> sf_del f \<and> \<not> sf_dryRun f \<longrightarrow> k = length (extraKeys scan))"
proof (cases "sf_del f \<and> (0 < sc_source scan \<or> sf_force f) \<and> extraKeys scan \<noteq> []")
  case False
  then have "del = noDeletes w" "r = Some None \<and> sf_del f \<longrightarrow> extraKeys scan = []"
    using assms by (auto simp: syncDelete_def Let_def split: if_splits)
  then show ?thesis by (intro exI [of _ 0]) (auto simp: deletedFirst_def noDeletes_def)
next
  case go: True
  show ?thesis
  proof (cases "isLocal dst")
    case True
    then obtain err where d: "deleteLocalExtras rm (sc_index scan) (extraKeys scan) f (noDeletes w) = (err, del)" "r = Some err"
      using assms go by (auto simp: syncDelete_def Let_def split: prod.splits)
    from deleteLocalExtras_removes [OF d(1)] obtain k where k: "sd_batches del = []"
        "sd_removed del = (if sf_dryRun f then [] else map (pathOf (sc_index scan)) (take k (extraKeys scan)))"
        "err = None \<longrightarrow> k = length (extraKeys scan)" by (auto simp: noDeletes_def)
    let ?k = "if sf_dryRun f then 0 else min k (length (extraKeys scan))"
    have "deletedFirst dst scan ?k del" using k True by (auto simp: deletedFirst_def min_def)
    then show ?thesis using k(3) d(2) go by (intro exI [of _ ?k]) auto
  next
    case False
    then have d: "deleteRemoteBatches x (se_bucket dst) (sf_dryRun f) (map (extraTarget dst) (extraKeys scan)) calls (noDeletes w) = (r, del)"
      using assms go by (auto simp: syncDelete_def deleteRemoteExtras_def extraTarget_def [abs_def] Let_def split: prod.splits)
    from deleteRemoteBatches_hands_over [OF d] obtain bs k where k: "sd_removed del = []" "sd_batches del = bs"
        "list_all (\<lambda>b. 0 < length b \<and> length b \<le> MaxDeleteBatch) bs"
        "concat bs = (if sf_dryRun f then [] else take k (map (extraTarget dst) (extraKeys scan)))"
        "r = Some None \<longrightarrow> k = length (extraKeys scan)" by (auto simp: noDeletes_def)
    let ?k = "if sf_dryRun f then 0 else min k (length (extraKeys scan))"
    have "deletedFirst dst scan ?k del" using k False by (auto simp: deletedFirst_def min_def take_map)
    then show ?thesis using k(5) go by (intro exI [of _ ?k]) auto
  qed
qed

lemma index_keys:
  assumes "indexEndpoint x e f ins = Some (Inr index)"
  shows "list_all (\<lambda>p. filterMatch (sf_filter f) (fst p)) index"
proof -
  obtain r where walk: "walkEndpoint x e f indexVisit ins [] = (r, index)"
    using assms by (auto simp: indexEndpoint_def split: prod.splits option.splits if_splits)
  show ?thesis
    by (rule walkEndpoint_invariant [where P = "list_all (\<lambda>p. filterMatch (sf_filter f) (fst p))", OF _ walk])
      (auto simp: indexVisit_def list_all_iff)
qed

text \<open>Whoever runs a sync that got as far as deciding about deletions: the state it decided on.\<close>

lemma runSync_cases:
  assumes "runSync x src dst f ins w = run"
  obtains (early) "sn_deletes run = noDeletes w" "sn_outcome run \<noteq> Some None"
  | (full) index s es fan n r del where "indexEndpoint x dst f (yi_dst ins) = Some (Inr index)"
      "sideEntries x src f (yi_src ins) = Some es"
      "syncDelete x (yi_rm ins) dst \<lparr>sc_index = index, sc_seen = map sy_key es, sc_source = length es\<rparr> f (yi_calls ins) (noDeletes w)
         = (n, r, del)"
      "mset (map fst (pl_finished (fn_pool fan))) = mset (filter (needed index f) es)"
      "list_all (\<lambda>r. snd r = None) (pl_finished (fn_pool fan))"
      "sn_walk run = Some s" "sw_fan s = fan" "sd_removed (sn_deletes run) = sd_removed del"
      "sd_batches (sn_deletes run) = sd_batches del" "sn_outcome run = Some None \<longrightarrow> r = Some None"
proof (cases "\<exists>index. checkLocalSides (yi_stat ins) src dst = None \<and> indexEndpoint x dst f (yi_dst ins) = Some (Inr index)")
  case False
  then show thesis using assms early
    by (auto simp: runSync_def noDeletes_def Let_def split: option.splits sum.splits)
next
  case True
  then obtain index where index: "checkLocalSides (yi_stat ins) src dst = None"
      "indexEndpoint x dst f (yi_dst ins) = Some (Inr index)" by blast
  obtain walked s where walk: "walkEndpoint x src f (syncVisit index f) (yi_src ins) (startWalk f ins) = (walked, s)" by fastforce
  obtain res fan where wait: "fanWait walked (yi_wait ins) (sw_fan s) = (res, fan)" by fastforce
  show thesis
  proof (cases "res = Some None")
    case False
    then show thesis using assms early index walk wait
      by (auto simp: runSync_def noDeletes_def Let_def split: option.splits)
  next
    case True
    from sync_transfers [OF walk wait [unfolded True]] obtain es where es: "sideEntries x src f (yi_src ins) = Some es"
      "sw_seen s = map sy_key es" "sw_source s = length es"
      "mset (map fst (pl_finished (fn_pool fan))) = mset (filter (needed index f) es)"
      "list_all (\<lambda>r. snd r = None) (pl_finished (fn_pool fan))" by blast
    obtain n r del where del: "syncDelete x (yi_rm ins) dst \<lparr>sc_index = index, sc_seen = map sy_key es, sc_source = length es\<rparr> f
        (yi_calls ins) (noDeletes w) = (n, r, del)" by (metis prod_cases3)
    have "sn_walk run = Some (s\<lparr>sw_fan := fan\<rparr>) \<and> sd_removed (sn_deletes run) = sd_removed del
        \<and> sd_batches (sn_deletes run) = sd_batches del \<and> (sn_outcome run = Some None \<longrightarrow> r = Some None)"
      using assms [symmetric] index walk wait True del [unfolded noDeletes_def] es(2,3)
      by (auto simp: runSync_def Let_def split: if_splits prod.splits)
    then show thesis using full [OF index(2) es(1) del es(4,5), of "s\<lparr>sw_fan := fan\<rparr>"] by simp
  qed
qed

lemma deletedFirst_some:
  "deletedFirst dst scan k del \<Longrightarrow> sd_removed del \<noteq> [] \<or> sd_batches del \<noteq> [] \<Longrightarrow> 0 < k"
proof (rule ccontr)
  assume d: "deletedFirst dst scan k del" and some: "sd_removed del \<noteq> [] \<or> sd_batches del \<noteq> []" and "\<not> 0 < k"
  then have "sd_removed del = []" "concat (sd_batches del) = []" by (simp_all add: deletedFirst_def)
  moreover from this(2) d have "sd_batches del = []"
    by (cases "sd_batches del") (auto simp: deletedFirst_def)
  ultimately show False using some by simp
qed

text \<open>
  C5. A sync deletes only what the source lacks, and only after everything else went well. Whenever it
  has deleted a file or handed over a batch, \<^verbatim>\<open>--delete\<close> was given and it is not a dry run, the whole
  source had been walked and was not empty (or \<^verbatim>\<open>--force\<close> was given), every entry that needed it had
  been transferred without an error, and what was deleted are destination keys that the filter
  accepts and the source does not have, in sorted order. When the command succeeds, all of those
  have been deleted.
\<close>

theorem sync_deletes_only_extras:
  assumes "runSync x src dst f ins w = run"
    and "sd_removed (sn_deletes run) \<noteq> [] \<or> sd_batches (sn_deletes run) \<noteq> []"
  shows "sf_del f \<and> \<not> sf_dryRun f
    \<and> (\<exists>index es s k. indexEndpoint x dst f (yi_dst ins) = Some (Inr index) \<and> sideEntries x src f (yi_src ins) = Some es
        \<and> (es \<noteq> [] \<or> sf_force f)
        \<and> sn_walk run = Some s \<and> mset (map fst (pl_finished (fn_pool (sw_fan s)))) = mset (filter (needed index f) es)
        \<and> list_all (\<lambda>r. snd r = None) (pl_finished (fn_pool (sw_fan s)))
        \<and> (let scan = \<lparr>sc_index = index, sc_seen = map sy_key es, sc_source = length es\<rparr> in
            deletedFirst dst scan k (sn_deletes run)
            \<and> list_all (\<lambda>key. key \<in> fst ` set index \<and> key \<notin> sy_key ` set es \<and> filterMatch (sf_filter f) key) (extraKeys scan)
            \<and> (sn_outcome run = Some None \<longrightarrow> k = length (extraKeys scan))))"
  using assms(1)
proof (cases rule: runSync_cases)
  case early
  then show ?thesis using assms(2) by (simp add: noDeletes_def)
next
  case (full index s es fan n r del)
  let ?scan = "\<lparr>sc_index = index, sc_seen = map sy_key es, sc_source = length es\<rparr>"
  from syncDelete_deletes [OF full(3)] obtain k where k: "deletedFirst dst ?scan k del"
      "0 < k \<longrightarrow> sf_del f \<and> \<not> sf_dryRun f \<and> (0 < sc_source ?scan \<or> sf_force f)"
      "r = Some None \<and> sf_del f \<and> \<not> sf_dryRun f \<longrightarrow> k = length (extraKeys ?scan)" by blast
  have source: "0 < sc_source ?scan \<longleftrightarrow> es \<noteq> []" by simp
  have same: "deletedFirst dst ?scan k (sn_deletes run)" using k(1) full(8,9) by (simp add: deletedFirst_def)
  then have "0 < k" using deletedFirst_some assms(2) by blast
  then have on: "sf_del f" "\<not> sf_dryRun f" "es \<noteq> [] \<or> sf_force f" using k(2) source by blast+
  moreover have "sn_outcome run = Some None \<longrightarrow> k = length (extraKeys ?scan)" using full(10) k(3) on(1,2) by blast
  moreover have "list_all (\<lambda>key. key \<in> fst ` set index \<and> key \<notin> sy_key ` set es \<and> filterMatch (sf_filter f) key) (extraKeys ?scan)"
    using index_keys [OF full(1)] by (auto simp: list_all_iff extraKeys_def)
  ultimately show ?thesis using same full(1,2,4-7) unfolding Let_def by blast
qed

section \<open>A key that is not a clean path\<close>

text \<open>
  \<^verbatim>\<open>sync --delete\<close> into a directory can delete the file it has just downloaded. The sides are matched
  by key as it stands, but a key is written to its cleaned path: when the path of a source key
  that is not in the index (such as \<^verbatim>\<open>a//b\<close>) is the path of an indexed file whose own key (\<^verbatim>\<open>a/b\<close>) the
  source does not have, a successful run downloads the object to that path and then removes it.
\<close>

lemma sync_deletes_fresh_download:
  assumes "runSync x src dst f ins w = run" and "sn_outcome run = Some None"
    and "sf_del f" and "\<not> sf_dryRun f" and "isLocal dst"
    and "indexEndpoint x dst f (yi_dst ins) = Some (Inr index)" and "sideEntries x src f (yi_src ins) = Some es"
    and "e \<in> set es" and "sy_key e \<notin> fst ` set index" and "key \<in> fst ` set index" and "key \<notin> sy_key ` set es"
    and "destForKey (se_dir dst) [] (sy_key e) False = Inr path" and "pathOf index key = path"
  shows "(\<exists>s. sn_walk run = Some s \<and> (e, None) \<in> set (pl_finished (fn_pool (sw_fan s))))
    \<and> path \<in> set (sd_removed (sn_deletes run))"
  using assms(1)
proof (cases rule: runSync_cases)
  case early
  then show ?thesis using assms(2) by simp
next
  case (full index' s es' fan n r del)
  have eq: "index' = index" "es' = es" using full(1,2) assms(6,7) by simp_all
  let ?scan = "\<lparr>sc_index = index, sc_seen = map sy_key es, sc_source = length es\<rparr>"
  have "needed index f e" using assms(9) by (simp add: needed_def map_of_eq_None_iff [THEN iffD2])
  then have "e \<in># mset (map fst (pl_finished (fn_pool fan)))" using full(4) eq assms(8) by simp
  then obtain res where "(e, res) \<in> set (pl_finished (fn_pool fan))" by auto
  moreover from this full(5) have "res = None" by (auto simp: list_all_iff)
  moreover from syncDelete_deletes [OF full(3)] obtain k where "deletedFirst dst ?scan k del"
      "r = Some None \<and> sf_del f \<and> \<not> sf_dryRun f \<longrightarrow> k = length (extraKeys ?scan)" unfolding eq by blast
  then have "sd_removed del = map (pathOf index) (extraKeys ?scan)"
    using full(10) assms(2-5) by (simp add: deletedFirst_def)
  moreover have "key \<in> set (extraKeys ?scan)" using assms(10,11) by (simp add: extraKeys_def)
  ultimately show ?thesis using full(6-8) assms(13) by auto
qed

definition mirrorFlags :: syncFlags where
  "mirrorFlags = \<lparr>sf_del = True, sf_sizeOnly = False, sf_dryRun = False, sf_force = False, sf_concurrency = 1, sf_partSizeMiB = 16,
     sf_filter = newFilter [] []\<rparr>"

definition mirrorSource :: syncEndpoint where "mirrorSource = \<lparr>se_dir = [], se_bucket = ''b'', se_prefix = []\<rparr>"

definition mirrorDir :: syncEndpoint where "mirrorDir = \<lparr>se_dir = ''d'', se_bucket = [], se_prefix = []\<rparr>"

text \<open>The bucket holds one key, the directory one file, and one worker transfers the key.\<close>

definition mirrorInputs :: "gostring \<Rightarrow> gostring \<Rightarrow> syncInputs" where
  "mirrorInputs key path = \<lparr>yi_stat = (\<lambda>p. Inr True),
     yi_dst = \<lparr>si_tree = [TreeEntry path True (Inr (1, 0))], si_pages = []\<rparr>,
     yi_src = \<lparr>si_tree = [], si_pages = [[sampleBody key]]\<rparr>,
     yi_ctx = None, yi_sched = [([], True)], yi_wait = [Finish 0 None], yi_rm = (\<lambda>p. None), yi_calls = []\<rparr>"

definition mirrorEntry :: "gostring \<Rightarrow> syncEntry" where
  "mirrorEntry key = \<lparr>sy_key = key, sy_size = 1, sy_mtime = 0, sy_path = []\<rparr>"

lemma mirror_entries:
  assumes "splitOn (CHR '','') key = [key]" and "\<not> hasSuffix key ''/''"
  shows "pageEntries sampleEnv (projr (sampleKeys key))
      = [contentObject sampleEnv \<lparr>ce_Key = key, ce_Size = 1, ce_LastModified = [], ce_ETag = [], ce_StorageClass = []\<rparr>]"
    and "remoteVisit [] (keepVisit mirrorFlags fn) (contentObject sampleEnv \<lparr>ce_Key = key, ce_Size = 1, ce_LastModified = [],
      ce_ETag = [], ce_StorageClass = []\<rparr>) s = fn (mirrorEntry key) s"
proof -
  show "pageEntries sampleEnv (projr (sampleKeys key))
      = [contentObject sampleEnv \<lparr>ce_Key = key, ce_Size = 1, ce_LastModified = [], ce_ETag = [], ce_StorageClass = []\<rparr>]"
    using assms(1) by (simp add: pageEntries_def sampleKeys_def)
  show "remoteVisit [] (keepVisit mirrorFlags fn) (contentObject sampleEnv \<lparr>ce_Key = key, ce_Size = 1, ce_LastModified = [],
      ce_ETag = [], ce_StorageClass = []\<rparr>) s = fn (mirrorEntry key) s"
    using assms(2) by (simp add: remoteVisit_def keepVisit_def remoteEntry_def contentObject_def newObject_def mirrorFlags_def
        newFilter_def filterMatch_def matchesAny_def trimPrefix_def mirrorEntry_def parseS3Time_def zeroTime_def)
qed

lemma mirror_index:
  "indexEndpoint x mirrorDir mirrorFlags (yi_dst (mirrorInputs key ''d/a/b''))
     = Some (Inr [(''a/b'', \<lparr>sy_key = ''a/b'', sy_size = 1, sy_mtime = 0, sy_path = ''d/a/b''\<rparr>)])"
  by (simp add: indexEndpoint_def walkEndpoint_def isLocal_def mirrorDir_def mirrorInputs_def localVisit_def Rel_def Clean_def
      pathNames_def slashed_def cleanStep_def relElems_def keepVisit_def mirrorFlags_def newFilter_def filterMatch_def matchesAny_def
      indexVisit_def Let_def)

lemma mirror_source:
  assumes "splitOn (CHR '','') key = [key]" and "\<not> hasSuffix key ''/''"
  shows "walkEndpoint S3_Delete.sampleCodec mirrorSource mirrorFlags fn (yi_src (mirrorInputs key path)) s
    = (case fn (mirrorEntry key) s of (err, s') \<Rightarrow> (Some err, s'))"
  using assms
  by (simp add: walkEndpoint_def isLocal_def mirrorSource_def ListObjectsFunc_def prefixOptions_def mirrorInputs_def
      sampleCodec_listing mirror_entries Let_def del: listLoop.simps split: prod.splits option.splits)

definition mirrorRun :: syncRun where
  "mirrorRun = runSync S3_Delete.sampleCodec mirrorSource mirrorDir mirrorFlags (mirrorInputs ''a//b'' ''d/a/b'') silent"

lemma mirror_key: "splitOn (CHR '','') ''a//b'' = [''a//b'']" "\<not> hasSuffix ''a//b'' ''/''"
  by (simp_all add: hasSuffix_def hasPrefix_def)

lemma mirror_run: "sn_outcome mirrorRun = Some None" "sd_removed (sn_deletes mirrorRun) = [''d/a/b'']"
proof -
  let ?index = "[(''a/b'', \<lparr>sy_key = ''a/b'', sy_size = 1, sy_mtime = 0, sy_path = ''d/a/b''\<rparr>)]"
  have check: "checkLocalSides (yi_stat (mirrorInputs ''a//b'' ''d/a/b'')) mirrorSource mirrorDir = None"
    by (simp add: checkLocalSides_def mirrorInputs_def isLocal_def mirrorSource_def mirrorDir_def)
  have visit: "\<exists>s. syncVisit ?index mirrorFlags (mirrorEntry ''a//b'') (startWalk mirrorFlags (mirrorInputs ''a//b'' ''d/a/b'')) = (None, s)
      \<and> sw_seen s = [''a//b''] \<and> sw_source s = 1
      \<and> (\<exists>fan. fanWait (Some None) (yi_wait (mirrorInputs ''a//b'' ''d/a/b'')) (sw_fan s) = (Some None, fan) \<and> fn_taken fan = 1)"
    by (simp add: syncVisit_def mirrorEntry_def startWalk_def mirrorFlags_def mirrorInputs_def startJob_def newFan_def newPool_def
        poolRun_def fanWait_def poolWait_def removeAt_def Let_def)
  then obtain s fan where s: "syncVisit ?index mirrorFlags (mirrorEntry ''a//b'') (startWalk mirrorFlags (mirrorInputs ''a//b'' ''d/a/b'')) = (None, s)"
    "sw_seen s = [''a//b'']" "sw_source s = 1"
    "fanWait (Some None) (yi_wait (mirrorInputs ''a//b'' ''d/a/b'')) (sw_fan s) = (Some None, fan)" "fn_taken fan = 1" by blast
  have extra: "extraKeys \<lparr>sc_index = ?index, sc_seen = [''a//b''], sc_source = 1\<rparr> = [''a/b'']" by (simp add: extraKeys_def)
  have "\<exists>w. syncDelete S3_Delete.sampleCodec (yi_rm (mirrorInputs ''a//b'' ''d/a/b'')) mirrorDir
      \<lparr>sc_index = ?index, sc_seen = [''a//b''], sc_source = 1\<rparr> mirrorFlags (yi_calls (mirrorInputs ''a//b'' ''d/a/b''))
      \<lparr>sd_removed = [], sd_batches = [], sd_out = silent\<rparr> = (1, Some None, \<lparr>sd_removed = [''d/a/b''], sd_batches = [], sd_out = w\<rparr>)"
    by (simp add: syncDelete_def extra mirrorFlags_def isLocal_def mirrorDir_def mirrorInputs_def pathOf_def say_def silent_def Let_def
        del: One_nat_def)
  then show "sn_outcome mirrorRun = Some None" "sd_removed (sn_deletes mirrorRun) = [''d/a/b'']"
    using check s mirror_source [OF mirror_key, where path = "''d/a/b''" and fn = "syncVisit ?index mirrorFlags"]
    by (auto simp: mirrorRun_def runSync_def mirror_index Let_def)
qed

lemma sync_deletes_fresh_download_witness:
  "(\<exists>s. sn_walk mirrorRun = Some s \<and> (mirrorEntry ''a//b'', None) \<in> set (pl_finished (fn_pool (sw_fan s))))
    \<and> ''d/a/b'' \<in> set (sd_removed (sn_deletes mirrorRun))"
proof (rule sync_deletes_fresh_download)
  show "runSync S3_Delete.sampleCodec mirrorSource mirrorDir mirrorFlags (mirrorInputs ''a//b'' ''d/a/b'') silent = mirrorRun"
    by (simp add: mirrorRun_def)
  show "indexEndpoint S3_Delete.sampleCodec mirrorDir mirrorFlags (yi_dst (mirrorInputs ''a//b'' ''d/a/b''))
      = Some (Inr [(''a/b'', \<lparr>sy_key = ''a/b'', sy_size = 1, sy_mtime = 0, sy_path = ''d/a/b''\<rparr>)])" by (rule mirror_index)
  show "sideEntries S3_Delete.sampleCodec mirrorSource mirrorFlags (yi_src (mirrorInputs ''a//b'' ''d/a/b'')) = Some [mirrorEntry ''a//b'']"
  proof -
    have "walkEndpoint S3_Delete.sampleCodec mirrorSource mirrorFlags (\<lambda>e acc. (None, acc @ [e])) (yi_src (mirrorInputs ''a//b'' ''d/a/b'')) []
        = (Some None, [mirrorEntry ''a//b''])"
      using mirror_source [OF mirror_key, where path = "''d/a/b''" and fn = "\<lambda>e acc. (None, acc @ [e])" and s = "[]"] by simp
    from walkEndpoint_folds [OF this] obtain es where es: "sideEntries S3_Delete.sampleCodec mirrorSource mirrorFlags
        (yi_src (mirrorInputs ''a//b'' ''d/a/b'')) = Some es" "runCallback (\<lambda>e acc. (None, acc @ [e])) es [] = (None, [mirrorEntry ''a//b''])"
      by blast
    have "runCallback (\<lambda>e acc. (None, acc @ [e])) es acc = (None, acc @ es)" for es acc :: "syncEntry list"
      by (induction es arbitrary: acc) auto
    then show ?thesis using es by simp
  qed
  show "destForKey (se_dir mirrorDir) [] (sy_key (mirrorEntry ''a//b'')) False = Inr ''d/a/b''"
    by (simp add: destForKey_def relForKey_def mustRel_def Rel_def JoinPath_def Clean_def pathNames_def slashed_def cleanStep_def
        relElems_def hasPrefix_def mirrorDir_def mirrorEntry_def Let_def)
qed (simp_all add: mirror_run mirrorFlags_def isLocal_def mirrorDir_def mirrorEntry_def pathOf_def)

theorem sync_deletes_only_extras_witness:
  "\<exists>index (es :: syncEntry list) k. indexEndpoint S3_Delete.sampleCodec mirrorDir mirrorFlags (yi_dst (mirrorInputs ''a//b'' ''d/a/b'')) = Some (Inr index)
     \<and> es \<noteq> []
     \<and> deletedFirst mirrorDir \<lparr>sc_index = index, sc_seen = map sy_key es, sc_source = length es\<rparr> k (sn_deletes mirrorRun)
     \<and> sd_removed (sn_deletes mirrorRun) = [''d/a/b'']"
proof -
  let ?ins = "mirrorInputs ''a//b'' ''d/a/b''"
  have run: "runSync S3_Delete.sampleCodec mirrorSource mirrorDir mirrorFlags ?ins silent = mirrorRun"
    by (simp add: mirrorRun_def)
  have some: "sd_removed (sn_deletes mirrorRun) \<noteq> [] \<or> sd_batches (sn_deletes mirrorRun) \<noteq> []"
    unfolding mirror_run(2) by (rule disjI1) (rule list.distinct)
  note d = sync_deletes_only_extras [OF run some, unfolded Let_def, THEN conjunct2, THEN conjunct2]
  have force: "\<not> sf_force mirrorFlags" by (simp add: mirrorFlags_def)
  from d obtain index k and es :: "syncEntry list" where
    e: "indexEndpoint S3_Delete.sampleCodec mirrorDir mirrorFlags (yi_dst ?ins) = Some (Inr index)" "es \<noteq> [] \<or> sf_force mirrorFlags"
      "deletedFirst mirrorDir \<lparr>sc_index = index, sc_seen = map sy_key es, sc_source = length es\<rparr> k (sn_deletes mirrorRun)"
    by blast
  then have "es \<noteq> []" using force by blast
  then show ?thesis using e(1,3) mirror_run(2) by (intro exI conjI)
qed

end
