(* ===== verification/Resolve.thy ===== *)
theory Resolve
  imports Go_Values
begin

text \<open>
  Turning names into IDs: \<^verbatim>\<open>src/pkg/openstack/resolve\<close>, the strict resolvers with their cache, and
  \<^verbatim>\<open>src/internal/cli/resolve\<close>, the command line's policy over them. A service is what its name-filtered
  listings answer; a resolution also returns how many listings it made. The clock a cache reads is
  input: the instants at which an entry is looked up and at which it is stored.
\<close>

section \<open>References\<close>

definition isHexDigit :: "char \<Rightarrow> bool" where
  "isHexDigit c \<longleftrightarrow> 48 \<le> byte c \<and> byte c \<le> 57 \<or> 97 \<le> byte c \<and> byte c \<le> 102 \<or> 65 \<le> byte c \<and> byte c \<le> 70"

definition dashedForm :: "gostring \<Rightarrow> bool" where
  "dashedForm s \<longleftrightarrow> length s = 36
     \<and> list_all (\<lambda>(i, c). if i \<in> {8, 13, 18, 23} then c = CHR ''-'' else isHexDigit c) (enumerate 0 s)"

definition IsUUID :: "gostring \<Rightarrow> bool" where
  "IsUUID ref \<longleftrightarrow> dashedForm ref \<or> length ref = 32 \<and> list_all isHexDigit ref"

datatype resolveErr =
    NotFoundError gostring gostring
  | AmbiguousError gostring gostring nat
  | LookupError gostring gostring gostring

section \<open>The cache\<close>

text \<open>
  A service client, by its base URL, what its token says of a project (\<^const>\<open>None\<close> without a provider
  client or a Keystone result, \<open>Some None\<close> when no project can be extracted), and the answers of its
  listings by kind, scope and name: an error, or the matches as pairs of ID and name.
\<close>

record serviceClient =
  sc_ResourceBaseURL :: gostring
  sc_authResult :: "gostring option option"
  sc_list :: "gostring \<Rightarrow> gostring \<Rightarrow> gostring \<Rightarrow> gostring + (gostring \<times> gostring) list"

record cacheKey =
  ck_endpoint :: gostring
  ck_project :: gostring
  ck_kind :: gostring
  ck_scope :: gostring
  ck_ref :: gostring

record cache =
  ca_ttl :: duration
  ca_m :: "cacheKey \<rightharpoonup> gostring \<times> int"

definition NewCache :: "duration \<Rightarrow> cache" where
  "NewCache ttl = \<lparr>ca_ttl = ttl, ca_m = Map.empty\<rparr>"

definition Purge :: "cache \<Rightarrow> cache" where
  "Purge c = c\<lparr>ca_m := Map.empty\<rparr>"

definition tokenProject :: "serviceClient \<Rightarrow> gostring" where
  "tokenProject client = (case sc_authResult client of Some (Some p) \<Rightarrow> p | _ \<Rightarrow> [])"

definition newCacheKey :: "serviceClient \<Rightarrow> gostring \<Rightarrow> gostring \<Rightarrow> gostring \<Rightarrow> cacheKey" where
  "newCacheKey client kind scope ref = \<lparr>ck_endpoint = sc_ResourceBaseURL client, ck_project = tokenProject client,
     ck_kind = kind, ck_scope = scope, ck_ref = ref\<rparr>"

definition cacheGet :: "cache \<Rightarrow> cacheKey \<Rightarrow> int \<Rightarrow> gostring option" where
  "cacheGet c k now =
     (case ca_m c k of
        None \<Rightarrow> None
      | Some (i, at) \<Rightarrow> if now - at \<ge> ca_ttl c then None else Some i)"

definition cachePut :: "cache \<Rightarrow> cacheKey \<Rightarrow> gostring \<Rightarrow> int \<Rightarrow> cache" where
  "cachePut c k i now = c\<lparr>ca_m := (ca_m c)(k \<mapsto> (i, now))\<rparr>"

section \<open>The strict resolvers\<close>

record lookup =
  lk_client :: serviceClient
  lk_kind :: gostring
  lk_scope :: gostring
  lk_ref :: gostring

text \<open>The instants at which \<^verbatim>\<open>byName\<close> reads the cache's clock.\<close>

record instants =
  in_get :: int
  in_put :: int

type_synonym answer = "resolveErr + gostring"

definition byName :: "cache option \<Rightarrow> instants \<Rightarrow> lookup \<Rightarrow> gostring + gostring list \<Rightarrow> cache option \<times> nat \<times> answer" where
  "byName ca t l fetched =
     (let kind = lk_kind l; ref = lk_ref l in
      if ref = [] \<or> IsUUID ref then (ca, 0, Inr ref)
      else
        let key = newCacheKey (lk_client l) kind (lk_scope l) ref in
        case Option.bind ca (\<lambda>c. cacheGet c key (in_get t)) of
          Some i \<Rightarrow> (ca, 0, Inr i)
        | None \<Rightarrow>
            (case fetched of
               Inl e \<Rightarrow> (ca, 1, Inl (LookupError kind ref e))
             | Inr [] \<Rightarrow> (ca, 1, Inl (NotFoundError kind ref))
             | Inr [i] \<Rightarrow> (map_option (\<lambda>c. cachePut c key i (in_put t)) ca, 1, Inr i)
             | Inr all \<Rightarrow> (ca, 1, Inl (AmbiguousError kind ref (length all)))))"

text \<open>The listings: most are filtered by the service, servers by exact name here.\<close>

definition listIDs :: "serviceClient \<Rightarrow> gostring \<Rightarrow> gostring \<Rightarrow> gostring \<Rightarrow> gostring + gostring list" where
  "listIDs client kind scope ref = map_sum id (map fst) (sc_list client kind scope ref)"

definition exactServers :: "serviceClient \<Rightarrow> gostring \<Rightarrow> gostring + gostring list" where
  "exactServers client ref =
     map_sum id (\<lambda>all. map fst (filter (\<lambda>s. snd s = ref) all)) (sc_list client ''server'' [] ref)"

type_synonym resolver = "cache option \<Rightarrow> instants \<Rightarrow> serviceClient \<Rightarrow> gostring \<Rightarrow> cache option \<times> nat \<times> answer"

definition simpleID :: "gostring \<Rightarrow> resolver" where
  "simpleID kind ca t client ref =
     byName ca t \<lparr>lk_client = client, lk_kind = kind, lk_scope = [], lk_ref = ref\<rparr> (listIDs client kind [] ref)"

definition ImageID :: resolver where "ImageID = simpleID ''image''"
definition NetworkID :: resolver where "NetworkID = simpleID ''network''"
definition SubnetID :: resolver where "SubnetID = simpleID ''subnet''"
definition PortID :: resolver where "PortID = simpleID ''port''"
definition VolumeID :: resolver where "VolumeID = simpleID ''volume''"
definition DomainID :: resolver where "DomainID = simpleID ''domain''"

definition ServerID :: resolver where
  "ServerID ca t client ref =
     byName ca t \<lparr>lk_client = client, lk_kind = ''server'', lk_scope = [], lk_ref = ref\<rparr> (exactServers client ref)"

definition inDomainID :: "gostring \<Rightarrow> gostring \<Rightarrow> resolver" where
  "inDomainID kind domainID ca t client ref =
     byName ca t \<lparr>lk_client = client, lk_kind = kind, lk_scope = domainID, lk_ref = ref\<rparr> (listIDs client kind domainID ref)"

definition ProjectIDInDomainID :: "gostring \<Rightarrow> resolver" where
  "ProjectIDInDomainID domainID = inDomainID ''project'' domainID"

definition UserIDInDomainID :: "gostring \<Rightarrow> resolver" where
  "UserIDInDomainID domainID = inDomainID ''user'' domainID"

definition ProjectID :: resolver where "ProjectID = ProjectIDInDomainID []"
definition UserID :: resolver where "UserID = UserIDInDomainID []"

text \<open>The domain is resolved first, by a resolution of its own with its own instants.\<close>

definition inDomain :: "(gostring \<Rightarrow> resolver) \<Rightarrow> gostring \<Rightarrow> instants \<Rightarrow> resolver" where
  "inDomain byID domainRef t' ca t client ref =
     (if domainRef = [] \<or> ref = [] \<or> IsUUID ref then byID [] ca t client ref
      else case DomainID ca t' client domainRef of
        (ca', n, Inl e) \<Rightarrow> (ca', n, Inl e)
      | (ca', n, Inr domainID) \<Rightarrow> (case byID domainID ca' t client ref of (ca'', m, r) \<Rightarrow> (ca'', n + m, r)))"

definition ProjectIDInDomain :: "gostring \<Rightarrow> instants \<Rightarrow> resolver" where
  "ProjectIDInDomain = inDomain ProjectIDInDomainID"

definition UserIDInDomain :: "gostring \<Rightarrow> instants \<Rightarrow> resolver" where
  "UserIDInDomain = inDomain UserIDInDomainID"

section \<open>The command line's policy\<close>

definition orRef :: "gostring \<Rightarrow> answer \<Rightarrow> answer" where
  "orRef ref r = (case r of Inl (NotFoundError kind ref') \<Rightarrow> Inr ref | _ \<Rightarrow> r)"

definition lenient :: "resolver \<Rightarrow> resolver" where
  "lenient res memo t client ref = (case res memo t client ref of (memo', n, r) \<Rightarrow> (memo', n, orRef ref r))"

definition cliImageID :: resolver where "cliImageID = lenient ImageID"
definition cliNetworkID :: resolver where "cliNetworkID = lenient NetworkID"
definition cliSubnetID :: resolver where "cliSubnetID = lenient SubnetID"
definition cliPortID :: resolver where "cliPortID = lenient PortID"
definition cliVolumeID :: resolver where "cliVolumeID = lenient VolumeID"
definition cliServerID :: resolver where "cliServerID = lenient ServerID"
definition cliDomainID :: resolver where "cliDomainID = lenient DomainID"
definition cliProjectID :: resolver where "cliProjectID = lenient ProjectID"
definition cliUserID :: resolver where "cliUserID = lenient UserID"

definition cliProjectIDInDomainID :: "gostring \<Rightarrow> resolver" where
  "cliProjectIDInDomainID domainID = lenient (ProjectIDInDomainID domainID)"

definition cliProjectIDInDomain :: "gostring \<Rightarrow> instants \<Rightarrow> resolver" where
  "cliProjectIDInDomain domainRef t' memo t client ref =
     (if domainRef = [] then cliProjectID memo t client ref
      else if ref = [] \<or> IsUUID ref then (memo, 0, Inr ref)
      else case cliDomainID memo t' client domainRef of
        (memo', n, Inl e) \<Rightarrow> (memo', n, Inl e)
      | (memo', n, Inr domainID) \<Rightarrow>
          (case cliProjectIDInDomainID domainID memo' t client ref of (memo'', m, r) \<Rightarrow> (memo'', n + m, r)))"

definition cliUserIDInDomain :: "gostring \<Rightarrow> instants \<Rightarrow> resolver" where
  "cliUserIDInDomain domainRef t' memo t client ref =
     (if domainRef = [] then cliUserID memo t client ref
      else if ref = [] \<or> IsUUID ref then (memo, 0, Inr ref)
      else case cliDomainID memo t' client domainRef of
        (memo', n, Inl e) \<Rightarrow> (memo', n, Inl e)
      | (memo', n, Inr domainID) \<Rightarrow>
          (case lenient (UserIDInDomainID domainID) memo' t client ref of (memo'', m, r) \<Rightarrow> (memo'', n + m, r)))"

definition cacheTTL :: duration where "cacheTTL = 5 * minute"

definition Enable :: "cache option \<Rightarrow> cache option" where
  "Enable memo = (case memo of None \<Rightarrow> Some (NewCache cacheTTL) | Some c \<Rightarrow> Some c)"

definition Reset :: "cache option \<Rightarrow> cache option" where
  "Reset memo = None"

section \<open>Sequences of resolutions\<close>

fun runAll :: "('c \<Rightarrow> 'e \<Rightarrow> 'c \<times> 'a) \<Rightarrow> 'c \<Rightarrow> 'e list \<Rightarrow> 'c \<times> 'a list" where
  "runAll step c [] = (c, [])"
| "runAll step c (e # es) = (case step c e of (c', a) \<Rightarrow> (case runAll step c' es of (c'', as) \<Rightarrow> (c'', a # as)))"

lemma runAll_Cons [simp]:
  "snd (runAll step c (e # es)) = snd (step c e) # snd (runAll step (fst (step c e)) es)"
  "fst (runAll step c (e # es)) = fst (runAll step (fst (step c e)) es)"
  by (simp_all add: case_prod_unfold)

lemma runAll_length: "length (snd (runAll step c es)) = length es"
  by (induction es arbitrary: c) (simp_all del: runAll.simps(2))

text \<open>
  A memo whose steps touch only the entry of their own key: what happened to other keys is
  invisible to the answers for one key.
\<close>

locale keyed_memo =
  fixes step :: "'c \<Rightarrow> 'e \<Rightarrow> 'c \<times> 'a" and key :: "'e \<Rightarrow> 'k" and entry :: "'c \<Rightarrow> 'k \<Rightarrow> 'v"
  assumes other: "key e \<noteq> k \<Longrightarrow> entry (fst (step c e)) k = entry c k"
    and local_answer: "entry c (key e) = entry c' (key e) \<Longrightarrow> snd (step c e) = snd (step c' e)"
    and local_entry: "entry c (key e) = entry c' (key e) \<Longrightarrow>
      entry (fst (step c e)) (key e) = entry (fst (step c' e)) (key e)"
begin

lemma isolated:
  "entry c k = entry c' k \<Longrightarrow>
   map snd (filter (\<lambda>(e, a). key e = k) (zip es (snd (runAll step c es))))
     = snd (runAll step c' (filter (\<lambda>e. key e = k) es))"
proof (induction es arbitrary: c c')
  case (Cons e es)
  obtain d a where s: "step c e = (d, a)" by fastforce
  obtain d' a' where s': "step c' e = (d', a')" by fastforce
  show ?case
  proof (cases "key e = k")
    case True
    then have "a = a'" "entry d k = entry d' k"
      using Cons.prems local_answer [of c e c'] local_entry [of c e c'] s s' by simp_all
    then show ?thesis using True Cons.IH [of d d'] s s' by (simp del: runAll.simps(2))
  next
    case False
    then have "entry d k = entry c' k" using other [of e k c] s Cons.prems by simp
    then show ?thesis using False Cons.IH [of d c'] s by (simp del: runAll.simps(2))
  qed
qed simp

end

record resolution =
  rv_lookup :: lookup
  rv_fetched :: "gostring + gostring list"
  rv_at :: instants

definition resolveStep :: "cache option \<Rightarrow> resolution \<Rightarrow> cache option \<times> answer" where
  "resolveStep ca r = (case byName ca (rv_at r) (rv_lookup r) (rv_fetched r) of (ca', n, a) \<Rightarrow> (ca', a))"

definition keyOf :: "resolution \<Rightarrow> cacheKey" where
  "keyOf r = newCacheKey (lk_client (rv_lookup r)) (lk_kind (rv_lookup r)) (lk_scope (rv_lookup r)) (lk_ref (rv_lookup r))"

definition cacheEntryOf :: "cache option \<Rightarrow> cacheKey \<Rightarrow> (duration \<times> (gostring \<times> int) option) option" where
  "cacheEntryOf ca k = map_option (\<lambda>c. (ca_ttl c, ca_m c k)) ca"

lemma byName_cache:
  assumes "byName ca t l fetched = (ca', n, a)"
  shows "ca' = ca \<or> (\<exists>c i. ca = Some c \<and> a = Inr i \<and> n = 1 \<and> fetched = Inr [i]
      \<and> ca' = Some (cachePut c (newCacheKey (lk_client l) (lk_kind l) (lk_scope l) (lk_ref l)) i (in_put t)))"
  using assms
  by (auto simp: byName_def Let_def split: if_splits option.splits sum.splits list.splits)

interpretation resolve_memo: keyed_memo resolveStep keyOf cacheEntryOf
proof
  fix e k c
  assume "keyOf e \<noteq> k"
  then show "cacheEntryOf (fst (resolveStep c e)) k = cacheEntryOf c k"
    using byName_cache [of c "rv_at e" "rv_lookup e" "rv_fetched e"]
    by (auto simp: resolveStep_def cacheEntryOf_def cachePut_def keyOf_def split: prod.splits)
next
  fix c e c'
  assume eq: "cacheEntryOf c (keyOf e) = cacheEntryOf c' (keyOf e)"
  have hit: "Option.bind c (\<lambda>c. cacheGet c (keyOf e) now) = Option.bind c' (\<lambda>c. cacheGet c (keyOf e) now)" for now
    using eq by (cases c; cases c') (auto simp: cacheEntryOf_def cacheGet_def split: option.splits)
  show "snd (resolveStep c e) = snd (resolveStep c' e)"
    using hit by (auto simp: resolveStep_def byName_def keyOf_def Let_def split: option.splits sum.splits list.splits)
  show "cacheEntryOf (fst (resolveStep c e)) (keyOf e) = cacheEntryOf (fst (resolveStep c' e)) (keyOf e)"
    using hit [of "in_get (rv_at e)"] eq
    by (cases c; cases c') (auto simp: resolveStep_def byName_def keyOf_def Let_def cacheEntryOf_def cachePut_def
        split: option.splits sum.splits list.splits)
qed

text \<open>
  One cache may serve several regions and credentials: in any sequence of resolutions, the
  answers for one endpoint, token project, kind, scope and name are those the same cache would
  have given had nothing else been resolved.
\<close>

lemma cache_isolates_keys:
  "map snd (filter (\<lambda>(r, a). keyOf r = k) (zip rs (snd (runAll resolveStep ca rs))))
     = snd (runAll resolveStep ca (filter (\<lambda>r. keyOf r = k) rs))"
  by (rule resolve_memo.isolated) (rule refl)

section \<open>A cached answer is one the service gave recently\<close>

definition strictAnswer :: "resolution \<Rightarrow> answer" where
  "strictAnswer r = snd (resolveStep None r)"

text \<open>Every entry of the cache was put there by one of the resolutions so far.\<close>

definition sourced :: "resolution list \<Rightarrow> cache option \<Rightarrow> bool" where
  "sourced rs ca \<longleftrightarrow> (\<forall>c k i at. ca = Some c \<longrightarrow> ca_m c k = Some (i, at) \<longrightarrow>
     (\<exists>r \<in> set rs. keyOf r = k \<and> strictAnswer r = Inr i \<and> in_put (rv_at r) = at))"

lemma strictAnswer_single:
  "\<not> (lk_ref (rv_lookup r) = [] \<or> IsUUID (lk_ref (rv_lookup r))) \<Longrightarrow> rv_fetched r = Inr [i] \<Longrightarrow> strictAnswer r = Inr i"
  by (auto simp: strictAnswer_def resolveStep_def byName_def Let_def)

lemma byName_put:
  assumes "byName ca t l fetched = (ca', n, a)" and "ca' \<noteq> ca"
  shows "\<not> (lk_ref l = [] \<or> IsUUID (lk_ref l))"
  using assms by (auto simp: byName_def Let_def)

lemma sourced_step:
  assumes "sourced rs ca"
  shows "sourced (rs @ [r]) (fst (resolveStep ca r))"
proof -
  obtain ca' n a where b: "byName ca (rv_at r) (rv_lookup r) (rv_fetched r) = (ca', n, a)" using prod_cases3 by blast
  then have fst: "fst (resolveStep ca r) = ca'" by (simp add: resolveStep_def)
  show ?thesis
  proof (cases "ca' = ca")
    case False
    then obtain c i where c: "ca = Some c" "rv_fetched r = Inr [i]" "ca' = Some (cachePut c (keyOf r) i (in_put (rv_at r)))"
      using byName_cache [OF b] by (auto simp: keyOf_def)
    have "strictAnswer r = Inr i" using strictAnswer_single [OF byName_put [OF b False] c(2)] .
    then show ?thesis using assms c unfolding fst sourced_def by (auto simp: cachePut_def split: if_splits)
  qed (use assms fst in \<open>auto simp: sourced_def\<close>)
qed

lemma step_answer:
  "snd (resolveStep ca r) = strictAnswer r
   \<or> (\<exists>c i. ca = Some c \<and> cacheGet c (keyOf r) (in_get (rv_at r)) = Some i \<and> snd (resolveStep ca r) = Inr i)"
proof (cases "Option.bind ca (\<lambda>c. cacheGet c (keyOf r) (in_get (rv_at r)))")
  case None
  then show ?thesis
    by (auto simp: strictAnswer_def resolveStep_def byName_def keyOf_def Let_def split: sum.splits list.splits)
next
  case (Some i)
  then show ?thesis
    by (cases ca) (auto simp: strictAnswer_def resolveStep_def byName_def keyOf_def Let_def)
qed

lemma runAll_recent:
  assumes "sourced past ca" and "\<And>c. ca = Some c \<Longrightarrow> ca_ttl c = ttl" and "k < length rs"
  shows "snd (runAll resolveStep ca rs) ! k = strictAnswer (rs ! k)
    \<or> (\<exists>r \<in> set (past @ take k rs). keyOf r = keyOf (rs ! k) \<and> snd (runAll resolveStep ca rs) ! k = strictAnswer r
        \<and> isl (strictAnswer r) = False \<and> in_get (rv_at (rs ! k)) - in_put (rv_at r) < ttl)"
  using assms
proof (induction rs arbitrary: past ca k)
  case (Cons r rs)
  show ?case
  proof (cases k)
    case 0
    from step_answer [of ca r] show ?thesis
    proof
      assume "\<exists>c i. ca = Some c \<and> cacheGet c (keyOf r) (in_get (rv_at r)) = Some i \<and> snd (resolveStep ca r) = Inr i"
      then obtain c i where c: "ca = Some c" "cacheGet c (keyOf r) (in_get (rv_at r)) = Some i" "snd (resolveStep ca r) = Inr i" by blast
      then obtain at where "ca_m c (keyOf r) = Some (i, at)" "in_get (rv_at r) - at < ca_ttl c"
        by (auto simp: cacheGet_def split: option.splits if_splits)
      moreover from this(1) obtain q where "q \<in> set past" "keyOf q = keyOf r" "strictAnswer q = Inr i" "in_put (rv_at q) = at"
        using Cons.prems(1) c(1) unfolding sourced_def by blast
      ultimately show ?thesis using Cons.prems(2) c 0 by (intro disjI2 bexI [of _ q]) (simp_all del: runAll.simps(2))
    qed (simp add: 0 del: runAll.simps(2))
  next
    case (Suc m)
    have "ca_ttl c = ttl" if "fst (resolveStep ca r) = Some c" for c
    proof -
      obtain ca' n a where b: "byName ca (rv_at r) (rv_lookup r) (rv_fetched r) = (ca', n, a)" using prod_cases3 by blast
      then have "ca' = Some c" using that by (simp add: resolveStep_def)
      then show ?thesis using byName_cache [OF b] Cons.prems(2) by (auto simp: cachePut_def)
    qed
    from Cons.IH [OF sourced_step [OF Cons.prems(1), of r] this, where k = m] Suc Cons.prems(3) show ?thesis
      by (simp del: runAll.simps(2))
  qed
qed simp

text \<open>
  C17. A cached answer is never older than the cache allows: each answer in a sequence of
  resolutions is the one the service itself would have given then, or the one it gave to an
  earlier resolution of the same key whose entry is younger than the time to live. Failed,
  ambiguous and empty lookups are therefore never served from the cache.
\<close>

theorem cached_answers_are_recent:
  assumes "k < length rs"
  shows "snd (runAll resolveStep (Some (NewCache ttl)) rs) ! k = strictAnswer (rs ! k)
    \<or> (\<exists>r \<in> set (take k rs). keyOf r = keyOf (rs ! k)
        \<and> snd (runAll resolveStep (Some (NewCache ttl)) rs) ! k = strictAnswer r
        \<and> isl (strictAnswer r) = False \<and> in_get (rv_at (rs ! k)) - in_put (rv_at r) < ttl)"
  using runAll_recent [of "[]" "Some (NewCache ttl)" ttl k rs] assms by (simp add: sourced_def NewCache_def)

definition sampleClient :: serviceClient where
  "sampleClient = \<lparr>sc_ResourceBaseURL = ''https://k'', sc_authResult = Some (Some ''p''), sc_list = (\<lambda>kind scope ref. Inr [])\<rparr>"

definition sampleResolution :: "gostring list \<Rightarrow> int \<Rightarrow> resolution" where
  "sampleResolution matches now = \<lparr>rv_lookup = \<lparr>lk_client = sampleClient, lk_kind = ''project'', lk_scope = [], lk_ref = ''demo''\<rparr>,
     rv_fetched = Inr matches, rv_at = \<lparr>in_get = now, in_put = now\<rparr>\<rparr>"

theorem cached_answers_are_recent_witness:
  "snd (runAll resolveStep (Some (NewCache 10)) [sampleResolution [''id''] 0, sampleResolution [] 5]) = [Inr ''id'', Inr ''id'']
   \<and> strictAnswer (sampleResolution [] 5) = Inl (NotFoundError ''project'' ''demo'')
   \<and> (\<exists>r \<in> set (take 1 [sampleResolution [''id''] 0, sampleResolution [] 5]). strictAnswer r = Inr ''id'')"
proof -
  have run: "snd (runAll resolveStep (Some (NewCache 10)) [sampleResolution [''id''] 0, sampleResolution [] 5]) = [Inr ''id'', Inr ''id'']"
    by (simp add: resolveStep_def byName_def sampleResolution_def NewCache_def cacheGet_def cachePut_def newCacheKey_def
        IsUUID_def dashedForm_def Let_def)
  have strict: "strictAnswer (sampleResolution [] 5) = Inl (NotFoundError ''project'' ''demo'')"
    by (simp add: strictAnswer_def resolveStep_def byName_def sampleResolution_def IsUUID_def dashedForm_def Let_def)
  from cached_answers_are_recent [of 1 "[sampleResolution [''id''] 0, sampleResolution [] 5]" 10] run strict
  show ?thesis by auto
qed

end
