(* ===== verification/Auth_Env.thy ===== *)
theory Auth_Env
  imports Go_Values Go_Path
begin

text \<open>
  The environment of an invocation: the variables koc reads, the recorder of variables it could
  not parse (\<^verbatim>\<open>badEnv\<close> of \<^verbatim>\<open>internal/auth/options.go\<close>), and the resolver of configuration paths
  (\<^verbatim>\<open>internal/kochome/kochome.go\<close>). An environment is the list of its entries in the order of
  \<^verbatim>\<open>os.Environ\<close>; a variable that is not set reads as the empty string. What a program learns of the
  machine besides (the working directory, the user's home) is a record of its own. The parsers of
  durations and of floating-point numbers are arguments of \<open>envDuration\<close>.
\<close>

type_synonym environ = "(gostring \<times> gostring) list"

definition Getenv :: "environ \<Rightarrow> gostring \<Rightarrow> gostring" where
  "Getenv env k = (case map_of env k of None \<Rightarrow> [] | Some v \<Rightarrow> v)"

text \<open>
  \<^verbatim>\<open>strings.ToLower\<close>, as far as a comparison with an ASCII word can tell: besides the ASCII capitals,
  only the Kelvin sign U+212A and the dotted capital U+0130 become ASCII letters.
\<close>

definition lowerRune :: "rune \<Rightarrow> rune" where
  "lowerRune r =
     (if r = [CHR 0xE2, CHR 0x84, CHR 0xAA] then ''k''
      else if r = [CHR 0xC4, CHR 0xB0] then ''i''
      else if length r = 1 then map lowerByte r else r)"

definition lowerWord :: "gostring \<Rightarrow> gostring" where
  "lowerWord s = concat (map lowerRune (runes s))"

text \<open>Printable ASCII words are their own trimmed form.\<close>

definition plainWord :: "gostring \<Rightarrow> bool" where
  "plainWord s \<longleftrightarrow> list_all (\<lambda>c. 33 \<le> byte c \<and> byte c < 0x80) s"

lemma plainWord_runes: "plainWord s \<Longrightarrow> runes s = map (\<lambda>c. [c]) s"
  by (rule runes_ascii) (auto simp: plainWord_def runeSelf_def list_all_iff)

lemma plainWord_space: "33 \<le> byte c \<Longrightarrow> \<not> isSpaceRune [c]"
  by (auto simp: isSpaceRune_def byte_def)

lemma trimSpace_plain [simp]: "plainWord s \<Longrightarrow> trimSpace s = s"
proof -
  assume s: "plainWord s"
  then have sp: "list_all (\<lambda>r. \<not> isSpaceRune r) (runes s)"
    using plainWord_space by (auto simp: plainWord_runes plainWord_def list_all_iff)
  have "dropWhile isSpaceRune (runes s) = runes s"
    using sp by (cases "runes s") auto
  moreover have "dropWhile isSpaceRune (rev (runes s)) = rev (runes s)"
    using sp by (cases "rev (runes s)") (auto simp: list_all_iff dest: arg_cong [of _ _ set])
  ultimately have "trimSpace s = concat (runes s)" by (simp add: trimSpace_def)
  then show ?thesis using s by (simp add: plainWord_runes concat_map_singleton)
qed

text \<open>Words without capitals are their own lower case.\<close>

definition lowerPlain :: "gostring \<Rightarrow> bool" where
  "lowerPlain s \<longleftrightarrow> list_all (\<lambda>c. byte c < 0x80 \<and> (byte c < 65 \<or> 90 < byte c)) s"

lemma lowerWord_plain: "lowerPlain s \<Longrightarrow> lowerWord s = s"
proof -
  assume s: "lowerPlain s"
  then have "runes s = map (\<lambda>c. [c]) s" by (intro runes_ascii) (auto simp: lowerPlain_def runeSelf_def list_all_iff)
  moreover have "lowerRune [c] = [c]" if "c \<in> set s" for c
    using s that by (auto simp: lowerPlain_def list_all_iff lowerRune_def lowerByte_def)
  ultimately have "map lowerRune (runes s) = map (\<lambda>c. [c]) s" by simp
  then show ?thesis by (simp add: lowerWord_def concat_map_singleton)
qed

lemma map_of_rev_distinct: "distinct (map fst kvs) \<Longrightarrow> map_of (rev kvs) = map_of kvs"
proof -
  assume "distinct (map fst kvs)"
  moreover from this have "distinct (map fst (rev kvs))" by (simp only: rev_map [symmetric] distinct_rev)
  ultimately show ?thesis by (intro ext) (metis map_of_eq_Some_iff option.exhaust set_rev)
qed

lemma Getenv_Nil [simp]: "Getenv [] k = []"
  by (simp add: Getenv_def)

section \<open>Booleans and durations that fail closed\<close>

record envMsg =
  em_key :: gostring
  em_val :: gostring
  em_hint :: gostring

record badEnv =
  be_seen :: "envMsg list"
  be_msgs :: "envMsg list"

definition cleanEnvState :: badEnv where
  "cleanEnvState = \<lparr>be_seen = [], be_msgs = []\<rparr>"

definition recordBadEnv :: "gostring \<Rightarrow> gostring \<Rightarrow> gostring \<Rightarrow> badEnv \<Rightarrow> badEnv" where
  "recordBadEnv key val hint b =
     (let msg = \<lparr>em_key = key, em_val = val, em_hint = hint\<rparr> in
      if msg \<in> set (be_seen b) then b
      else b\<lparr>be_seen := msg # be_seen b, be_msgs := be_msgs b @ [msg]\<rparr>)"

text \<open>The error names every recorded message; \<^const>\<open>None\<close> is nil.\<close>

definition envError :: "badEnv \<Rightarrow> envMsg list option" where
  "envError b = (if be_msgs b = [] then None else Some (be_msgs b))"

definition resetBadEnv :: "badEnv \<Rightarrow> badEnv" where
  "resetBadEnv b = b\<lparr>be_seen := [], be_msgs := []\<rparr>"

definition parseBoolLax :: "gostring \<Rightarrow> bool option" where
  "parseBoolLax v =
     (let w = lowerWord v in
      if w \<in> {''1'', ''t'', ''true'', ''y'', ''yes'', ''on'', ''enable'', ''enabled''} then Some True
      else if w \<in> {''0'', ''f'', ''false'', ''n'', ''no'', ''off'', ''disable'', ''disabled''} then Some False
      else None)"

definition boolHint :: gostring where
  "boolHint = ''expected a boolean: true/false, yes/no, on/off, 1/0''"

definition EnvBool :: "environ \<Rightarrow> gostring \<Rightarrow> badEnv \<Rightarrow> bool \<times> badEnv" where
  "EnvBool env key b =
     (let v = trimSpace (Getenv env key) in
      if v = [] then (False, b)
      else case parseBoolLax v of
          None \<Rightarrow> (False, recordBadEnv key v boolHint b)
        | Some x \<Rightarrow> (x, b))"

definition envOr :: "environ \<Rightarrow> gostring \<Rightarrow> gostring \<Rightarrow> gostring" where
  "envOr env key def = (let v = Getenv env key in if v \<noteq> [] then v else def)"

text \<open>The second parser gives the nanoseconds of a number of seconds, when it is a number that is not negative.\<close>

definition envDuration :: "(gostring \<Rightarrow> duration option) \<Rightarrow> (gostring \<Rightarrow> duration option) \<Rightarrow> environ \<Rightarrow> gostring \<Rightarrow>
    duration \<Rightarrow> badEnv \<Rightarrow> duration \<times> badEnv" where
  "envDuration parseDuration parseSeconds env key def b =
     (let v = trimSpace (Getenv env key);
          other = (case parseSeconds v of
             Some d \<Rightarrow> (d, b)
           | None \<Rightarrow> (def, recordBadEnv key v ''expected a duration (90s, 2m) or a number of seconds'' b))
      in if v = [] then (def, b)
         else case parseDuration v of
             Some d \<Rightarrow> if d \<ge> 0 then (d, b) else other
           | None \<Rightarrow> other)"

definition DebugFormatHTTP :: gostring where
  "DebugFormatHTTP = ''http''"

definition DebugFormatCurl :: gostring where
  "DebugFormatCurl = ''curl''"

text \<open>\<^verbatim>\<open>debugFormatValue.Set\<close>: the new value, or nothing for the error.\<close>

definition debugFormatSet :: "gostring \<Rightarrow> gostring option" where
  "debugFormatSet s = (if s = DebugFormatHTTP \<or> s = DebugFormatCurl then Some s else None)"

definition envDebugFormat :: "environ \<Rightarrow> gostring \<Rightarrow> badEnv \<Rightarrow> gostring \<times> badEnv" where
  "envDebugFormat env key b =
     (let v = Getenv env key in
      if v = [] then (DebugFormatHTTP, b)
      else if v = DebugFormatHTTP \<or> v = DebugFormatCurl then (v, b)
      else (DebugFormatHTTP, recordBadEnv key v (''must be '' @ DebugFormatHTTP @ '' or '' @ DebugFormatCurl) b))"

text \<open>Everything recorded is reported, and nothing recorded is forgotten.\<close>

definition badEnvOk :: "badEnv \<Rightarrow> bool" where
  "badEnvOk b \<longleftrightarrow> set (be_seen b) = set (be_msgs b) \<and> distinct (be_msgs b)"

lemma recordBadEnv_ok: "badEnvOk b \<Longrightarrow> badEnvOk (recordBadEnv k v h b)"
  by (auto simp: badEnvOk_def recordBadEnv_def Let_def)

lemma recordBadEnv_mono: "set (be_msgs b) \<subseteq> set (be_msgs (recordBadEnv k v h b))"
  by (auto simp: recordBadEnv_def Let_def)

lemma recordBadEnv_reports:
  "badEnvOk b \<Longrightarrow> \<lparr>em_key = k, em_val = v, em_hint = h\<rparr> \<in> set (be_msgs (recordBadEnv k v h b))"
  by (auto simp: badEnvOk_def recordBadEnv_def Let_def)

lemma EnvBool_ok: "badEnvOk b \<Longrightarrow> badEnvOk (snd (EnvBool env k b))"
  by (simp add: EnvBool_def Let_def recordBadEnv_ok split: option.split)

lemma EnvBool_mono: "set (be_msgs b) \<subseteq> set (be_msgs (snd (EnvBool env k b)))"
  using recordBadEnv_mono by (auto simp: EnvBool_def Let_def split: option.split)

lemma envDuration_ok: "badEnvOk b \<Longrightarrow> badEnvOk (snd (envDuration pd ps env k d b))"
  by (simp add: envDuration_def Let_def recordBadEnv_ok split: option.split)

lemma envDuration_mono: "set (be_msgs b) \<subseteq> set (be_msgs (snd (envDuration pd ps env k d b)))"
  using recordBadEnv_mono by (auto simp: envDuration_def Let_def split: option.split)

lemma envDebugFormat_ok: "badEnvOk b \<Longrightarrow> badEnvOk (snd (envDebugFormat env k b))"
  by (simp add: envDebugFormat_def Let_def recordBadEnv_ok)

lemma envDebugFormat_mono: "set (be_msgs b) \<subseteq> set (be_msgs (snd (envDebugFormat env k b)))"
  using recordBadEnv_mono by (auto simp: envDebugFormat_def Let_def)

text \<open>A security toggle is on only when its variable says so; what cannot be understood is off and is reported.\<close>

lemma EnvBool_fails_closed:
  assumes "badEnvOk b"
  shows "fst (EnvBool env k b) \<longleftrightarrow> parseBoolLax (trimSpace (Getenv env k)) = Some True"
    and "trimSpace (Getenv env k) \<noteq> [] \<Longrightarrow> parseBoolLax (trimSpace (Getenv env k)) = None \<Longrightarrow>
      \<lparr>em_key = k, em_val = trimSpace (Getenv env k), em_hint = boolHint\<rparr> \<in> set (be_msgs (snd (EnvBool env k b)))"
  using recordBadEnv_reports [OF assms]
  by (auto simp: EnvBool_def Let_def parseBoolLax_def lowerWord_def split: option.split)

lemma envError_Some: "m \<in> set (be_msgs b) \<Longrightarrow> \<exists>ms. envError b = Some ms \<and> m \<in> set ms"
  by (auto simp: envError_def)

end
