(* ===== verification/Auth_Options.thy ===== *)
theory Auth_Options
  imports Auth_Env
begin

text \<open>
  The global options (\<^verbatim>\<open>internal/auth/options.go\<close>): the record of every auth, TLS, microversion and
  credential-source setting, its defaults from the environment (\<open>AddFlags\<close>), and how an explicitly
  given flag is told from a default (\<open>explicitlySet\<close>). The flag set that pflag keeps is the list of the
  flags given on the command line, and \<^const>\<open>None\<close> for options built without one. \<open>stringFlags\<close> lists which
  flag is bound to which field, so that the code that assigns fields by flag name (the Vault openrc,
  the scope file, the command line) is one function, \<open>setField\<close>; the locale \<open>flag_store\<close> states what such
  assignments promise and is interpreted on it. The negotiated API versions of \<^verbatim>\<open>services.go\<close> are here
  too. The test hooks of the source have no counterpart.
\<close>

definition defaultHTTPTimeout :: duration where
  "defaultHTTPTimeout = 0"

record Options =
  op_Cloud :: gostring
  op_AuthURL :: gostring
  op_Username :: gostring
  op_UserID :: gostring
  op_Password :: gostring
  op_PasswordStdin :: bool
  op_Token :: gostring
  op_AuthType :: gostring
  op_Passcode :: gostring
  op_TrustID :: gostring
  op_Endpoint :: gostring
  op_tenantName :: gostring
  op_tenantID :: gostring
  op_authKind :: gostring
  op_endpointOverrides :: "(gostring \<times> gostring) list"
  op_ProjectName :: gostring
  op_ProjectID :: gostring
  op_ProjectDomainName :: gostring
  op_UserDomainName :: gostring
  op_DomainName :: gostring
  op_ProjectDomainID :: gostring
  op_UserDomainID :: gostring
  op_DomainID :: gostring
  op_DefaultDomain :: gostring
  op_RegionName :: gostring
  op_Interface :: gostring
  op_SystemScope :: gostring
  op_AppCredID :: gostring
  op_AppCredName :: gostring
  op_AppCredSecret :: gostring
  op_CACert :: gostring
  op_ClientCert :: gostring
  op_ClientKey :: gostring
  op_Insecure :: bool
  op_ClientCertPEM :: gostring
  op_ClientKeyPEM :: gostring
  op_BaremetalAPIVersion :: gostring
  op_ComputeAPIVersion :: gostring
  op_VolumeAPIVersion :: gostring
  op_PlacementAPIVersion :: gostring
  op_KeyVRMEndpoint :: gostring
  op_CredsFromNS :: gostring
  op_CredsFromVault :: gostring
  op_Kubeconfig :: gostring
  op_KubeContext :: gostring
  op_VaultAddr :: gostring
  op_VaultNamespace :: gostring
  op_VaultToken :: gostring
  op_VaultRoleID :: gostring
  op_VaultSecretID :: gostring
  op_VaultApprolePath :: gostring
  op_VaultKVMount :: gostring
  op_VaultKVPrefix :: gostring
  op_VaultCACert :: gostring
  op_VaultInsecure :: bool
  op_Timeout :: duration
  op_Debug :: bool
  op_DebugFormat :: gostring
  op_Timing :: bool
  op_fs :: "gostring list option"
  op_forced :: "gostring list"

text \<open>Defaults, in the order the flags are registered; what the booleans and the duration record is threaded through.\<close>

definition AddFlags :: "(gostring \<Rightarrow> duration option) \<Rightarrow> (gostring \<Rightarrow> duration option) \<Rightarrow> environ \<Rightarrow> badEnv \<Rightarrow> Options \<times> badEnv" where
  "AddFlags parseDuration parseSeconds env b0 =
     (let (insecure, b1) = EnvBool env ''OS_INSECURE'' b0;
          (timeout, b2) = envDuration parseDuration parseSeconds env ''OS_TIMEOUT'' defaultHTTPTimeout b1;
          (debug, b3) = EnvBool env ''OS_DEBUG'' b2;
          (debugFormat, b4) = envDebugFormat env ''KOC_DEBUG_FORMAT'' b3;
          (_, b5) = EnvBool env ''VAULT_SKIP_VERIFY'' b4;
          (vaultInsecure, b6) = EnvBool env ''VAULT_SKIP_VERIFY'' b5
      in (\<lparr>op_Cloud = Getenv env ''OS_CLOUD'',
          op_AuthURL = Getenv env ''OS_AUTH_URL'',
          op_Username = Getenv env ''OS_USERNAME'',
          op_UserID = Getenv env ''OS_USER_ID'',
          op_Password = Getenv env ''OS_PASSWORD'',
          op_PasswordStdin = False,
          op_Token = Getenv env ''OS_TOKEN'',
          op_AuthType = Getenv env ''OS_AUTH_TYPE'',
          op_Passcode = Getenv env ''OS_PASSCODE'',
          op_TrustID = Getenv env ''OS_TRUST_ID'',
          op_Endpoint = Getenv env ''OS_ENDPOINT'',
          op_tenantName = [],
          op_tenantID = [],
          op_authKind = [],
          op_endpointOverrides = [],
          op_ProjectName = envOr env ''OS_PROJECT_NAME'' (Getenv env ''OS_TENANT_NAME''),
          op_ProjectID = envOr env ''OS_PROJECT_ID'' (Getenv env ''OS_TENANT_ID''),
          op_ProjectDomainName = Getenv env ''OS_PROJECT_DOMAIN_NAME'',
          op_UserDomainName = Getenv env ''OS_USER_DOMAIN_NAME'',
          op_DomainName = Getenv env ''OS_DOMAIN_NAME'',
          op_ProjectDomainID = Getenv env ''OS_PROJECT_DOMAIN_ID'',
          op_UserDomainID = Getenv env ''OS_USER_DOMAIN_ID'',
          op_DomainID = Getenv env ''OS_DOMAIN_ID'',
          op_DefaultDomain = envOr env ''OS_DEFAULT_DOMAIN'' ''default'',
          op_RegionName = Getenv env ''OS_REGION_NAME'',
          op_Interface = envOr env ''OS_INTERFACE'' (Getenv env ''OS_ENDPOINT_TYPE''),
          op_SystemScope = Getenv env ''OS_SYSTEM_SCOPE'',
          op_AppCredID = Getenv env ''OS_APPLICATION_CREDENTIAL_ID'',
          op_AppCredName = Getenv env ''OS_APPLICATION_CREDENTIAL_NAME'',
          op_AppCredSecret = Getenv env ''OS_APPLICATION_CREDENTIAL_SECRET'',
          op_CACert = Getenv env ''OS_CACERT'',
          op_ClientCert = Getenv env ''OS_CERT'',
          op_ClientKey = Getenv env ''OS_KEY'',
          op_Insecure = insecure,
          op_ClientCertPEM = [],
          op_ClientKeyPEM = [],
          op_BaremetalAPIVersion = envOr env ''OS_BAREMETAL_API_VERSION'' ''latest'',
          op_ComputeAPIVersion = envOr env ''OS_COMPUTE_API_VERSION'' ''latest'',
          op_VolumeAPIVersion = envOr env ''OS_VOLUME_API_VERSION'' ''latest'',
          op_PlacementAPIVersion = envOr env ''OS_PLACEMENT_API_VERSION'' ''latest'',
          op_KeyVRMEndpoint = Getenv env ''OS_KEYVRM_ENDPOINT_OVERRIDE'',
          op_CredsFromNS = Getenv env ''KOC_CREDS_FROM_NS'',
          op_CredsFromVault = Getenv env ''KOC_CREDS_FROM_VAULT'',
          op_Kubeconfig = Getenv env ''KUBECONFIG'',
          op_KubeContext = Getenv env ''KUBE_CONTEXT'',
          op_VaultAddr = Getenv env ''VAULT_ADDR'',
          op_VaultNamespace = Getenv env ''VAULT_NAMESPACE'',
          op_VaultToken = Getenv env ''VAULT_TOKEN'',
          op_VaultRoleID = Getenv env ''VAULT_ROLE_ID'',
          op_VaultSecretID = Getenv env ''VAULT_SECRET_ID'',
          op_VaultApprolePath = envOr env ''VAULT_APPROLE_PATH'' ''approle'',
          op_VaultKVMount = envOr env ''VAULT_KV_MOUNT'' (envOr env ''VAULT_ENGINE'' ''secret_v2''),
          op_VaultKVPrefix = envOr env ''VAULT_KV_PREFIX'' (Getenv env ''VAULT_PREFIX''),
          op_VaultCACert = Getenv env ''VAULT_CACERT'',
          op_VaultInsecure = vaultInsecure,
          op_Timeout = timeout,
          op_Debug = debug,
          op_DebugFormat = debugFormat,
          op_Timing = False,
          op_fs = Some [],
          op_forced = []\<rparr>, b6))"

section \<open>Flags and fields\<close>

record optField =
  of_flag :: gostring
  of_get :: "Options \<Rightarrow> gostring"
  of_set :: "gostring \<Rightarrow> Options \<Rightarrow> Options"

definition flagField :: "gostring \<Rightarrow> (Options \<Rightarrow> gostring) \<Rightarrow> ((gostring \<Rightarrow> gostring) \<Rightarrow> Options \<Rightarrow> Options) \<Rightarrow> optField" where
  "flagField flag g u = \<lparr>of_flag = flag, of_get = g, of_set = (\<lambda>v. u (\<lambda>_. v))\<rparr>"

text \<open>The variable each string flag is bound to.\<close>

definition stringFlags :: "optField list" where
  "stringFlags =
     [flagField ''os-cloud'' op_Cloud op_Cloud_update,
      flagField ''os-auth-url'' op_AuthURL op_AuthURL_update,
      flagField ''os-username'' op_Username op_Username_update,
      flagField ''os-user-id'' op_UserID op_UserID_update,
      flagField ''os-password'' op_Password op_Password_update,
      flagField ''os-token'' op_Token op_Token_update,
      flagField ''os-auth-type'' op_AuthType op_AuthType_update,
      flagField ''os-passcode'' op_Passcode op_Passcode_update,
      flagField ''os-trust-id'' op_TrustID op_TrustID_update,
      flagField ''os-endpoint'' op_Endpoint op_Endpoint_update,
      flagField ''os-project-name'' op_ProjectName op_ProjectName_update,
      flagField ''os-project-id'' op_ProjectID op_ProjectID_update,
      flagField ''os-tenant-name'' op_tenantName op_tenantName_update,
      flagField ''os-tenant-id'' op_tenantID op_tenantID_update,
      flagField ''os-project-domain-name'' op_ProjectDomainName op_ProjectDomainName_update,
      flagField ''os-user-domain-name'' op_UserDomainName op_UserDomainName_update,
      flagField ''os-domain-name'' op_DomainName op_DomainName_update,
      flagField ''os-project-domain-id'' op_ProjectDomainID op_ProjectDomainID_update,
      flagField ''os-user-domain-id'' op_UserDomainID op_UserDomainID_update,
      flagField ''os-domain-id'' op_DomainID op_DomainID_update,
      flagField ''os-default-domain'' op_DefaultDomain op_DefaultDomain_update,
      flagField ''os-region-name'' op_RegionName op_RegionName_update,
      flagField ''os-interface'' op_Interface op_Interface_update,
      flagField ''os-system-scope'' op_SystemScope op_SystemScope_update,
      flagField ''os-application-credential-id'' op_AppCredID op_AppCredID_update,
      flagField ''os-application-credential-name'' op_AppCredName op_AppCredName_update,
      flagField ''os-application-credential-secret'' op_AppCredSecret op_AppCredSecret_update,
      flagField ''os-cacert'' op_CACert op_CACert_update,
      flagField ''os-cert'' op_ClientCert op_ClientCert_update,
      flagField ''os-key'' op_ClientKey op_ClientKey_update,
      flagField ''os-baremetal-api-version'' op_BaremetalAPIVersion op_BaremetalAPIVersion_update,
      flagField ''os-compute-api-version'' op_ComputeAPIVersion op_ComputeAPIVersion_update,
      flagField ''os-volume-api-version'' op_VolumeAPIVersion op_VolumeAPIVersion_update,
      flagField ''os-placement-api-version'' op_PlacementAPIVersion op_PlacementAPIVersion_update,
      flagField ''keyvrm-endpoint'' op_KeyVRMEndpoint op_KeyVRMEndpoint_update,
      flagField ''creds-from-ns'' op_CredsFromNS op_CredsFromNS_update,
      flagField ''creds-from-vault'' op_CredsFromVault op_CredsFromVault_update,
      flagField ''kubeconfig'' op_Kubeconfig op_Kubeconfig_update,
      flagField ''kube-context'' op_KubeContext op_KubeContext_update,
      flagField ''vault-addr'' op_VaultAddr op_VaultAddr_update,
      flagField ''vault-namespace'' op_VaultNamespace op_VaultNamespace_update,
      flagField ''vault-token'' op_VaultToken op_VaultToken_update,
      flagField ''vault-role-id'' op_VaultRoleID op_VaultRoleID_update,
      flagField ''vault-secret-id'' op_VaultSecretID op_VaultSecretID_update,
      flagField ''vault-approle-path'' op_VaultApprolePath op_VaultApprolePath_update,
      flagField ''vault-kv-mount'' op_VaultKVMount op_VaultKVMount_update,
      flagField ''vault-kv-prefix'' op_VaultKVPrefix op_VaultKVPrefix_update,
      flagField ''vault-cacert'' op_VaultCACert op_VaultCACert_update]"

definition lookupField :: "gostring \<Rightarrow> optField option" where
  "lookupField flag = List.find (\<lambda>fd. of_flag fd = flag) stringFlags"

definition getField :: "gostring \<Rightarrow> Options \<Rightarrow> gostring" where
  "getField flag opts = (case lookupField flag of None \<Rightarrow> [] | Some fd \<Rightarrow> of_get fd opts)"

definition setField :: "gostring \<Rightarrow> gostring \<Rightarrow> Options \<Rightarrow> Options" where
  "setField flag v opts = (case lookupField flag of None \<Rightarrow> opts | Some fd \<Rightarrow> of_set fd v opts)"

definition knownFlag :: "gostring \<Rightarrow> bool" where
  "knownFlag flag \<longleftrightarrow> flag \<in> set (map of_flag stringFlags)"

text \<open>\<^verbatim>\<open>FlagSet.Changed\<close>.\<close>

definition changed :: "Options \<Rightarrow> gostring \<Rightarrow> bool" where
  "changed opts flag \<longleftrightarrow> (case op_fs opts of None \<Rightarrow> False | Some given \<Rightarrow> flag \<in> set given)"

definition markForced :: "gostring \<Rightarrow> Options \<Rightarrow> Options" where
  "markForced flag opts = opts\<lparr>op_forced := flag # op_forced opts\<rparr>"

definition explicitlySet :: "Options \<Rightarrow> gostring \<Rightarrow> bool" where
  "explicitlySet opts flag \<longleftrightarrow>
     (if flag \<in> set (op_forced opts) then True
      else case op_fs opts of None \<Rightarrow> True | Some _ \<Rightarrow> changed opts flag)"

text \<open>A string flag parsed from the command line: its value is assigned and the flag counts as changed.\<close>

definition typeFlag :: "gostring \<times> gostring \<Rightarrow> Options \<Rightarrow> Options" where
  "typeFlag fv opts = (setField (fst fv) (snd fv) opts)\<lparr>op_fs := map_option ((#) (fst fv)) (op_fs opts)\<rparr>"

definition insecureExplicit :: "environ \<Rightarrow> Options \<Rightarrow> bool" where
  "insecureExplicit env opts \<longleftrightarrow> changed opts ''insecure'' \<or> Getenv env ''OS_INSECURE'' \<noteq> []"


lemma stringFlags_distinct: "distinct (map of_flag stringFlags)"
  by (simp add: stringFlags_def flagField_def)

lemma stringFlags_get_set:
  "list_all (\<lambda>fd. \<forall>v opts. of_get fd (of_set fd v opts) = v) stringFlags"
  by (simp add: stringFlags_def flagField_def)

lemma stringFlags_independent:
  "list_all (\<lambda>fd. list_all (\<lambda>fd'. of_flag fd \<noteq> of_flag fd' \<longrightarrow> (\<forall>v opts. of_get fd (of_set fd' v opts) = of_get fd opts)) stringFlags) stringFlags"
  by (simp add: stringFlags_def flagField_def)

lemma stringFlags_frame:
  "list_all (\<lambda>fd. \<forall>v opts. op_fs (of_set fd v opts) = op_fs opts \<and> op_forced (of_set fd v opts) = op_forced opts) stringFlags"
  by (simp add: stringFlags_def flagField_def)


lemma stringFlags_marks:
  "list_all (\<lambda>fd. \<forall>x y opts. of_get fd (opts\<lparr>op_fs := x\<rparr>) = of_get fd opts \<and> of_get fd (opts\<lparr>op_forced := y\<rparr>) = of_get fd opts) stringFlags"
  by (simp add: stringFlags_def flagField_def)

lemma lookupField_Some: "lookupField flag = Some fd \<Longrightarrow> fd \<in> set stringFlags \<and> of_flag fd = flag"
  by (auto simp: lookupField_def find_Some_iff)

lemma knownFlag_lookup: "knownFlag flag \<longleftrightarrow> (\<exists>fd. lookupField flag = Some fd)"
  by (cases "lookupField flag") (auto simp: knownFlag_def lookupField_def find_None_iff find_Some_iff)

text \<open>
  What assignments by name promise: a known name reads back what was assigned to it last, and an
  assignment to one name leaves the others alone. A client may run a list of conditional assignments;
  each name then has the value its own condition chose, whatever the order.
\<close>

locale flag_store =
  fixes get :: "'f \<Rightarrow> 's \<Rightarrow> 'v"
    and put :: "'f \<Rightarrow> 'v \<Rightarrow> 's \<Rightarrow> 's"
    and known :: "'f \<Rightarrow> bool"
  assumes get_put: "known f \<Longrightarrow> get f (put g v s) = (if f = g then v else get f s)"
begin

lemma fold_choices:
  assumes step: "\<And>f s g. known g \<Longrightarrow> get g (step f s) = (if g = f then (case want f s of None \<Rightarrow> get f s | Some v \<Rightarrow> v) else get g s)"
    and stable: "\<And>f g s. want g (step f s) = want g s"
    and g: "known g" and "distinct fs"
  shows "get g (fold step fs s) = (if g \<in> set fs then (case want g s of None \<Rightarrow> get g s | Some v \<Rightarrow> v) else get g s)"
  using \<open>distinct fs\<close>
proof (induction fs arbitrary: s)
  case (Cons f fs)
  then show ?case using stable step [OF g] by (auto split: option.split)
qed simp

lemma fold_puts:
  assumes "known g"
  shows "get g (fold (\<lambda>fv. put (fst fv) (snd fv)) fvs s) = (case map_of (rev fvs) g of None \<Rightarrow> get g s | Some v \<Rightarrow> v)"
proof (induction fvs rule: rev_induct)
  case (snoc fv fvs)
  then show ?case using get_put [OF assms] by (cases fv) auto
qed simp

end

interpretation opts: flag_store getField setField knownFlag
proof
  fix f g :: gostring and v :: gostring and s :: Options
  assume "knownFlag f"
  then obtain fd where fd: "lookupField f = Some fd" "fd \<in> set stringFlags" "of_flag fd = f"
    by (auto simp: knownFlag_lookup dest: lookupField_Some)
  show "getField f (setField g v s) = (if f = g then v else getField f s)"
  proof (cases "lookupField g")
    case None
    then show ?thesis using fd by (auto simp: getField_def setField_def)
  next
    case (Some fd')
    then have fd': "fd' \<in> set stringFlags" "of_flag fd' = g" by (auto dest: lookupField_Some)
    show ?thesis
    proof (cases "f = g")
      case True
      then show ?thesis using fd Some stringFlags_get_set by (auto simp: getField_def setField_def list_all_iff)
    next
      case False
      then have "of_get fd (of_set fd' v s) = of_get fd s"
        using stringFlags_independent fd fd' unfolding list_all_iff by blast
      then show ?thesis using fd Some False by (simp add: getField_def setField_def)
    qed
  qed
qed

lemma setField_frame [simp]:
  "op_fs (setField f v opts) = op_fs opts" "op_forced (setField f v opts) = op_forced opts"
  using stringFlags_frame by (auto simp: setField_def list_all_iff split: option.split dest: lookupField_Some)

lemma changed_setField [simp]: "changed (setField f v opts) g = changed opts g"
  by (simp add: changed_def)

lemma explicitlySet_setField [simp]: "explicitlySet (setField f v opts) g = explicitlySet opts g"
  by (simp add: explicitlySet_def split: option.split)

lemma getField_marks [simp]:
  "getField f (opts\<lparr>op_fs := x\<rparr>) = getField f opts" "getField f (opts\<lparr>op_forced := y\<rparr>) = getField f opts"
  "getField f (markForced g opts) = getField f opts"
  using stringFlags_marks by (auto simp: getField_def markForced_def list_all_iff split: option.split dest: lookupField_Some)

lemma typeFlag_field: "knownFlag f \<Longrightarrow> getField f (typeFlag fv opts) = (if f = fst fv then snd fv else getField f opts)"
  by (simp add: typeFlag_def opts.get_put)

text \<open>The last value typed for a flag is its value.\<close>

lemma typed_field:
  assumes "knownFlag f"
  shows "getField f (fold typeFlag typed opts) = (case map_of (rev typed) f of None \<Rightarrow> getField f opts | Some v \<Rightarrow> v)"
proof (induction typed rule: rev_induct)
  case (snoc fv typed)
  then show ?case using typeFlag_field [OF assms] by (cases fv) auto
qed simp

section \<open>API versions\<close>

text \<open>\<^verbatim>\<open>strconv.Atoi\<close> with a 64-bit \<^verbatim>\<open>int\<close>.\<close>

definition atoi :: "gostring \<Rightarrow> int option" where
  "atoi s =
     (let neg = (take 1 s = ''-'');
          ds = (if neg \<or> take 1 s = ''+'' then drop 1 s else s);
          n = (if neg then - int (digitsVal ds) else int (digitsVal ds))
      in if ds = [] \<or> \<not> list_all (\<lambda>c. 48 \<le> byte c \<and> byte c \<le> 57) ds then None
         else if - (2 ^ 63) \<le> n \<and> n < 2 ^ 63 then Some n else None)"

definition bareMajor :: "gostring \<Rightarrow> int option" where
  "bareMajor v = atoi v"

definition isMajorOnly :: "gostring \<Rightarrow> int \<Rightarrow> bool" where
  "isMajorOnly v major \<longleftrightarrow> bareMajor v = Some major"

text \<open>\<^const>\<open>None\<close> is the error that names the flag.\<close>

definition apiMicroversion :: "int \<Rightarrow> gostring \<Rightarrow> gostring option" where
  "apiMicroversion major v =
     (case bareMajor v of
        None \<Rightarrow> Some v
      | Some n \<Rightarrow> if n \<noteq> major then None else Some ''latest'')"

definition computeAPIMajor :: int where
  "computeAPIMajor = 2"

definition ComputeAPIVersionPinnable :: "environ \<Rightarrow> Options \<Rightarrow> bool" where
  "ComputeAPIVersionPinnable env opts \<longleftrightarrow>
     (if isMajorOnly (op_ComputeAPIVersion opts) computeAPIMajor then True
      else if explicitlySet opts ''os-compute-api-version'' then False
      else Getenv env ''OS_COMPUTE_API_VERSION'' = [] \<and> op_ComputeAPIVersion opts = ''latest'')"

lemma atoi_natDigits:
  assumes "n < 2 ^ 63"
  shows "atoi (natDigits n) = Some (int n)"
proof -
  obtain c cs where c: "natDigits n = c # cs" by (cases "natDigits n") auto
  then have "48 \<le> byte c" using natDigits_chars [of c n] by simp
  then have "c \<noteq> CHR ''-''" "c \<noteq> CHR ''+''" by (auto simp: byte_def)
  moreover have "list_all (\<lambda>c. 48 \<le> byte c \<and> byte c \<le> 57) (natDigits n)"
    using natDigits_chars by (auto simp: list_all_iff)
  moreover have "int n < 2 ^ 63" using assms by (metis of_nat_less_iff of_nat_numeral of_nat_power)
  ultimately show ?thesis using c digitsVal_natDigits [of n] by (simp add: atoi_def)
qed

text \<open>A bare major version never reaches the wire: what is sent is the default or not a bare number.\<close>

lemma apiMicroversion_sent: "apiMicroversion major v = Some w \<Longrightarrow> bareMajor w = None"
  by (auto simp: apiMicroversion_def bareMajor_def atoi_def byte_def split: option.splits if_splits)

lemma apiMicroversion_pinnable:
  "ComputeAPIVersionPinnable env opts \<Longrightarrow> apiMicroversion computeAPIMajor (op_ComputeAPIVersion opts) = Some ''latest''"
  by (auto simp: ComputeAPIVersionPinnable_def isMajorOnly_def apiMicroversion_def bareMajor_def atoi_def byte_def split: if_splits)

text \<open>The options of an invocation with an empty environment.\<close>

definition sampleOptions :: Options where
  "sampleOptions = fst (AddFlags (\<lambda>_. None) (\<lambda>_. None) [] cleanEnvState)"

lemma sampleOptions_fields [simp]:
  "op_Cloud sampleOptions = []"
  "op_AuthURL sampleOptions = []"
  "op_Username sampleOptions = []"
  "op_UserID sampleOptions = []"
  "op_Password sampleOptions = []"
  "op_Token sampleOptions = []"
  "op_AuthType sampleOptions = []"
  "op_Passcode sampleOptions = []"
  "op_TrustID sampleOptions = []"
  "op_Endpoint sampleOptions = []"
  "op_ProjectName sampleOptions = []"
  "op_ProjectID sampleOptions = []"
  "op_tenantName sampleOptions = []"
  "op_tenantID sampleOptions = []"
  "op_ProjectDomainName sampleOptions = []"
  "op_UserDomainName sampleOptions = []"
  "op_DomainName sampleOptions = []"
  "op_ProjectDomainID sampleOptions = []"
  "op_UserDomainID sampleOptions = []"
  "op_DomainID sampleOptions = []"
  "op_DefaultDomain sampleOptions = ''default''"
  "op_RegionName sampleOptions = []"
  "op_Interface sampleOptions = []"
  "op_SystemScope sampleOptions = []"
  "op_AppCredID sampleOptions = []"
  "op_AppCredName sampleOptions = []"
  "op_AppCredSecret sampleOptions = []"
  "op_CACert sampleOptions = []"
  "op_ClientCert sampleOptions = []"
  "op_ClientKey sampleOptions = []"
  "op_BaremetalAPIVersion sampleOptions = ''latest''"
  "op_ComputeAPIVersion sampleOptions = ''latest''"
  "op_VolumeAPIVersion sampleOptions = ''latest''"
  "op_PlacementAPIVersion sampleOptions = ''latest''"
  "op_KeyVRMEndpoint sampleOptions = []"
  "op_CredsFromNS sampleOptions = []"
  "op_CredsFromVault sampleOptions = []"
  "op_Kubeconfig sampleOptions = []"
  "op_KubeContext sampleOptions = []"
  "op_VaultAddr sampleOptions = []"
  "op_VaultNamespace sampleOptions = []"
  "op_VaultToken sampleOptions = []"
  "op_VaultRoleID sampleOptions = []"
  "op_VaultSecretID sampleOptions = []"
  "op_VaultApprolePath sampleOptions = ''approle''"
  "op_VaultKVMount sampleOptions = ''secret_v2''"
  "op_VaultKVPrefix sampleOptions = []"
  "op_VaultCACert sampleOptions = []"
  "op_PasswordStdin sampleOptions = False" "op_fs sampleOptions = Some []" "op_forced sampleOptions = []"
  by (simp_all add: sampleOptions_def AddFlags_def EnvBool_def envDuration_def envDebugFormat_def envOr_def Let_def trimSpace_def)

end
