(* ===== verification/Koc_Home.thy ===== *)
theory Koc_Home
  imports Auth_Env
begin

text \<open>
  Where configuration lives: \<^verbatim>\<open>internal/kochome\<close> and the search for \<^verbatim>\<open>clouds.yaml\<close> in
  \<^verbatim>\<open>internal/auth/cloudsfile.go\<close>, on the Unix systems (the Windows branches are left out). The machine is a
  record: the working directory, whether it is macOS, and what opening a path gives. With \<^verbatim>\<open>KOC_HOME\<close> set,
  or under the embedded profile, no implicit location outside that directory is looked at.
\<close>

datatype fileState = Missing | Denied | Directory | Regular gostring

record machine =
  m_cwd :: "gostring option"
  m_darwin :: bool
  m_file :: "gostring \<Rightarrow> fileState"

section \<open>The confined directory\<close>

definition Embedded :: "environ \<Rightarrow> bool" where
  "Embedded env \<longleftrightarrow> equalFoldAscii (trimSpace (Getenv env ''KOC_PROFILE'')) ''embedded''"

text \<open>\<^verbatim>\<open>filepath.Abs\<close>; it fails when the working directory cannot be had.\<close>

definition absPath :: "machine \<Rightarrow> gostring \<Rightarrow> gostring option" where
  "absPath m p = (if slashed p then Some (Clean p) else map_option (\<lambda>wd. JoinPath wd p) (m_cwd m))"

definition tempDir :: "environ \<Rightarrow> gostring" where
  "tempDir env = envOr env ''TMPDIR'' ''/tmp''"

definition homeDir :: "environ \<Rightarrow> machine \<Rightarrow> gostring" where
  "homeDir env m =
     (let d = trimSpace (Getenv env ''KOC_HOME'') in
      if d \<noteq> [] then (case absPath m d of Some a \<Rightarrow> a | None \<Rightarrow> d)
      else if Embedded env then JoinPath (tempDir env) ''koc-home''
      else [])"

definition Confined :: "environ \<Rightarrow> machine \<Rightarrow> bool" where
  "Confined env m \<longleftrightarrow> homeDir env m \<noteq> []"

text \<open>\<^verbatim>\<open>os.UserHomeDir\<close> fails when \<^verbatim>\<open>HOME\<close> is empty.\<close>

definition osUserHomeDir :: "environ \<Rightarrow> gostring option" where
  "osUserHomeDir env = (let h = Getenv env ''HOME'' in if h = [] then None else Some h)"

definition UserHomeDir :: "environ \<Rightarrow> machine \<Rightarrow> gostring option" where
  "UserHomeDir env m = (let d = homeDir env m in if d \<noteq> [] then Some d else osUserHomeDir env)"

definition ResolvePath :: "environ \<Rightarrow> machine \<Rightarrow> gostring \<Rightarrow> gostring" where
  "ResolvePath env m p =
     (if p = [] \<or> slashed p then p
      else let d = homeDir env m in
        if d \<noteq> [] then JoinPath d p
        else case absPath m p of Some a \<Rightarrow> a | None \<Rightarrow> p)"

definition ExplicitPath :: "environ \<Rightarrow> gostring \<Rightarrow> gostring" where
  "ExplicitPath env var = (if Embedded env then [] else Getenv env var)"

text \<open>What \<^verbatim>\<open>Lstat\<close> says of a directory entry: is it a directory, is it owned by this user, its permission bits.\<close>

record dirInfo =
  di_isDir :: bool
  di_owned :: bool
  di_perm :: nat

definition unsafeDir :: "dirInfo \<Rightarrow> gostring" where
  "unsafeDir fi =
     (if \<not> di_owned fi then ''belongs to another user''
      else if (di_perm fi div 16) mod 2 = 1 \<or> (di_perm fi div 2) mod 2 = 1 then ''is writable by group or others''
      else [])"

datatype homeErr = MkdirFailed | LstatFailed | NotADirectory | UnsafeDir gostring

text \<open>\<open>mkdir\<close> is whether the creation succeeded or the entry was there, \<open>lstat\<close> the entry found afterwards.\<close>

definition CheckEmbeddedHome :: "environ \<Rightarrow> bool \<Rightarrow> dirInfo option \<Rightarrow> homeErr option" where
  "CheckEmbeddedHome env mkdir lstat =
     (if \<not> Embedded env \<or> trimSpace (Getenv env ''KOC_HOME'') \<noteq> [] then None
      else if \<not> mkdir then Some MkdirFailed
      else case lstat of
          None \<Rightarrow> Some LstatFailed
        | Some fi \<Rightarrow>
            if \<not> di_isDir fi then Some NotADirectory
            else if unsafeDir fi \<noteq> [] then Some (UnsafeDir (unsafeDir fi))
            else None)"

section \<open>The search path\<close>

definition configSuffixes :: "gostring list" where
  "configSuffixes = [''.yaml'', ''.yml'', ''.json'']"

definition userConfigDirs :: "environ \<Rightarrow> machine \<Rightarrow> gostring list" where
  "userConfigDirs env m =
     (let home = Getenv env ''HOME'';
          platform =
            (if m_darwin m then (if home \<noteq> [] then [JoinPath home ''Library/Application Support/openstack''] else [])
             else let d = Getenv env ''XDG_CONFIG_HOME'' in
               if d \<noteq> [] then [JoinPath d ''openstack'']
               else if home \<noteq> [] then [JoinPath home ''.config/openstack''] else []);
          snapHome = Getenv env ''SNAP_REAL_HOME'';
          home' = (if snapHome \<noteq> [] then snapHome else home)
      in platform @ (if home' \<noteq> [] then [JoinPath home' ''.config/openstack''] else []))"

text \<open>\<^verbatim>\<open>filepath.SplitList\<close> splits at colons; the empty string has no elements, and is replaced by the default here.\<close>

definition siteConfigDirs :: "environ \<Rightarrow> machine \<Rightarrow> gostring list" where
  "siteConfigDirs env m =
     (if m_darwin m then [''/Library/Application Support/openstack'']
      else let xdg = envOr env ''XDG_CONFIG_DIRS'' ''/etc/xdg'' in
        map (\<lambda>d. JoinPath d ''openstack'') (filter (\<lambda>d. d \<noteq> []) (splitOn (CHR '':'') xdg)))"

text \<open>The first occurrence of each directory is kept.\<close>

definition configSearchDirs :: "environ \<Rightarrow> machine \<Rightarrow> gostring list" where
  "configSearchDirs env m =
     (let d = homeDir env m in
      if d \<noteq> [] then [d]
      else let dirs = (case m_cwd m of None \<Rightarrow> [] | Some wd \<Rightarrow> [wd]) @ userConfigDirs env m @ siteConfigDirs env m @ [''/etc/openstack''] in
        rev (remdups (rev (filter (\<lambda>d. d \<noteq> []) dirs))))"

definition configCandidates :: "environ \<Rightarrow> machine \<Rightarrow> gostring \<Rightarrow> gostring \<Rightarrow> gostring list" where
  "configCandidates env m base override =
     (if Embedded env then []
      else
        (let p = (if override \<noteq> [] then ExplicitPath env override else []) in if p \<noteq> [] then [p] else [])
        @ concat (map (\<lambda>d. map (\<lambda>s. JoinPath d (base @ s)) configSuffixes) (configSearchDirs env m)))"

text \<open>The first candidate that opens and is not a directory.\<close>

fun firstReadable :: "machine \<Rightarrow> gostring list \<Rightarrow> gostring" where
  "firstReadable m [] = []"
| "firstReadable m (p # ps) = (case m_file m p of Regular _ \<Rightarrow> p | _ \<Rightarrow> firstReadable m ps)"

definition readFile :: "machine \<Rightarrow> gostring \<Rightarrow> gostring option" where
  "readFile m p = (case m_file m p of Regular s \<Rightarrow> Some s | _ \<Rightarrow> None)"

section \<open>Confinement\<close>

lemma firstReadable_result:
  "firstReadable m ps = [] \<or> (firstReadable m ps \<in> set ps \<and> (\<exists>s. m_file m (firstReadable m ps) = Regular s))"
  by (induction m ps rule: firstReadable.induct) (auto split: fileState.split)

lemma firstReadable_first:
  "m_file m p = Regular s \<Longrightarrow> p \<noteq> [] \<Longrightarrow> list_all (\<lambda>q. \<forall>t. m_file m q \<noteq> Regular t) qs \<Longrightarrow> firstReadable m (qs @ p # ps) = p"
  by (induction qs) (auto split: fileState.split)

lemma configSearchDirs_confined: "Confined env m \<Longrightarrow> configSearchDirs env m = [homeDir env m]"
  by (simp add: configSearchDirs_def Confined_def Let_def)

lemma configCandidates_embedded: "Embedded env \<Longrightarrow> configCandidates env m base override = []"
  by (simp add: configCandidates_def)

lemma JoinPath_inside: "d \<noteq> [] \<Longrightarrow> plainName n \<Longrightarrow> insidePath d (JoinPath d n)"
  by (rule JoinPath_plain) (auto simp: plainName_def splitOn_no_sep)

definition configNames :: "gostring list" where
  "configNames = [''clouds'', ''secure'', ''clouds-public'']"

lemma configNames_plain: "base \<in> set configNames \<Longrightarrow> s \<in> set configSuffixes \<Longrightarrow> plainName (base @ s)"
  by (auto simp: configNames_def configSuffixes_def plainName_def)

text \<open>
  C27. With \<^verbatim>\<open>KOC_HOME\<close> set, or under the embedded profile, the configuration file koc finds is inside that
  directory unless the operator named another one, and the embedded profile reads none at all.
\<close>

theorem confined_config_stays_inside:
  assumes "Confined env m" and "base \<in> set configNames" and "firstReadable m (configCandidates env m base override) \<noteq> []"
  shows "\<not> Embedded env
    \<and> (insidePath (homeDir env m) (firstReadable m (configCandidates env m base override))
       \<or> firstReadable m (configCandidates env m base override) = Getenv env override)"
proof -
  let ?p = "firstReadable m (configCandidates env m base override)"
  have mem: "?p \<in> set (configCandidates env m base override)" using firstReadable_result assms(3) by blast
  then have "\<not> Embedded env" by (auto simp: configCandidates_embedded)
  moreover have "insidePath (homeDir env m) q \<or> q = Getenv env override" if "q \<in> set (configCandidates env m base override)" for q
    using that assms(1) configNames_plain [OF assms(2)]
    by (auto simp: configCandidates_def configSearchDirs_confined ExplicitPath_def Let_def Confined_def JoinPath_inside split: if_splits)
  ultimately show ?thesis using mem by blast
qed

definition sampleConfined :: machine where
  "sampleConfined = \<lparr>m_cwd = Some ''/work'', m_darwin = False,
     m_file = (\<lambda>p. if p = ''/srv/koc/clouds.yml'' \<or> p = ''/work/clouds.yaml'' then Regular ''clouds: {}'' else Missing)\<rparr>"

lemma sampleConfined_home: "homeDir [(''KOC_HOME'', ''/srv/koc'')] sampleConfined = ''/srv/koc''"
proof -
  have "Clean ''/srv/koc'' = ''/srv/koc''" by (simp add: Clean_def slashed_def pathNames_def cleanStep_def)
  moreover have "plainWord ''/srv/koc''" by (simp add: plainWord_def byte_def)
  ultimately show ?thesis by (simp add: homeDir_def Getenv_def absPath_def slashed_def)
qed

lemma sampleConfined_candidates:
  "configCandidates [(''KOC_HOME'', ''/srv/koc'')] sampleConfined ''clouds'' ''OS_CLIENT_CONFIG_FILE''
     = [''/srv/koc/clouds.yaml'', ''/srv/koc/clouds.yml'', ''/srv/koc/clouds.json'']"
proof -
  have e: "\<not> Embedded [(''KOC_HOME'', ''/srv/koc'')]" by (simp add: Embedded_def Getenv_def plainWord_def equalFoldAscii_def)
  have c: "Confined [(''KOC_HOME'', ''/srv/koc'')] sampleConfined" by (simp add: Confined_def sampleConfined_home)
  have "JoinPath ''/srv/koc'' (''clouds'' @ s) = ''/srv/koc/clouds'' @ s" if "s \<in> set configSuffixes" for s
    using that by (auto simp: configSuffixes_def JoinPath_def Clean_def slashed_def pathNames_def cleanStep_def)
  then have "map (\<lambda>s. JoinPath ''/srv/koc'' (''clouds'' @ s)) configSuffixes = map (\<lambda>s. ''/srv/koc/clouds'' @ s) configSuffixes"
    by (intro map_cong) auto
  then show ?thesis
    using e configSearchDirs_confined [OF c] unfolding sampleConfined_home
    by (simp add: configCandidates_def ExplicitPath_def Getenv_def configSuffixes_def)
qed

theorem confined_config_stays_inside_witness:
  "firstReadable sampleConfined (configCandidates [(''KOC_HOME'', ''/srv/koc'')] sampleConfined ''clouds'' ''OS_CLIENT_CONFIG_FILE'')
     = ''/srv/koc/clouds.yml''
   \<and> insidePath ''/srv/koc'' ''/srv/koc/clouds.yml''"
proof -
  let ?env = "[(''KOC_HOME'', ''/srv/koc'')]"
  have first: "firstReadable sampleConfined (configCandidates ?env sampleConfined ''clouds'' ''OS_CLIENT_CONFIG_FILE'') = ''/srv/koc/clouds.yml''"
    unfolding sampleConfined_candidates by (simp add: sampleConfined_def)
  moreover have "Getenv ?env ''OS_CLIENT_CONFIG_FILE'' = []" by (simp add: Getenv_def)
  moreover have "Confined ?env sampleConfined" by (simp add: Confined_def sampleConfined_home)
  ultimately show ?thesis
    using confined_config_stays_inside [of ?env sampleConfined "''clouds''" "''OS_CLIENT_CONFIG_FILE''"]
    unfolding sampleConfined_home by (simp add: configNames_def)
qed

end
