(* ===== verification/Auth_Clouds.thy ===== *)
theory Auth_Clouds
  imports Auth_Options Koc_Home "HOL-Library.AList"
begin

text \<open>
  What koc itself reads of \<^verbatim>\<open>clouds.yaml\<close> and \<^verbatim>\<open>secure.yaml\<close> (\<^verbatim>\<open>internal/auth/cloudsfile.go\<close>), and the endpoint
  overrides (\<^verbatim>\<open>internal/auth/endpoints.go\<close>). The YAML decoder is an argument; a decoded mapping is a list of
  entries with distinct keys in the order a Go range loop happens to visit them, so a theorem about
  every such list is a theorem about every iteration order.
\<close>

section \<open>Cloud entries\<close>

datatype yamlVal = YString gostring | YMap "(gostring \<times> yamlVal) list" | YOther

type_synonym yamlMap = "(gostring \<times> yamlVal) list"
type_synonym cloudsDoc = "(gostring \<times> yamlMap) list"

record cloudExtra =
  ce_authType :: gostring
  ce_endpoint :: gostring
  ce_passcode :: gostring
  ce_hasAuth :: bool
  ce_overrides :: "(gostring \<times> gostring) list"

definition emptyExtra :: cloudExtra where
  "emptyExtra = \<lparr>ce_authType = [], ce_endpoint = [], ce_passcode = [], ce_hasAuth = False, ce_overrides = []\<rparr>"

text \<open>The string at a key, and the empty string when there is none.\<close>

definition yamlStr :: "yamlVal option \<Rightarrow> gostring" where
  "yamlStr v = (case v of Some (YString s) \<Rightarrow> s | _ \<Rightarrow> [])"

text \<open>One turn of the loop over the entry's keys.\<close>

definition overrideStep :: "gostring \<times> yamlVal \<Rightarrow> (gostring \<times> gostring) list \<Rightarrow> (gostring \<times> gostring) list" where
  "overrideStep kv ovs =
     (let u = yamlStr (Some (snd kv)) in
      if u = [] then ovs
      else case cutSuffix (fst kv) ''_endpoint_override'' of
          Some key \<Rightarrow> AList.update key u ovs
        | None \<Rightarrow>
            (case cutSuffix (fst kv) ''_endpoint'' of
               None \<Rightarrow> ovs
             | Some key \<Rightarrow> if map_of ovs key = None then AList.update key u ovs else ovs))"

definition mergeExtra :: "cloudExtra \<Rightarrow> yamlMap \<Rightarrow> cloudExtra" where
  "mergeExtra e c =
     (let t = yamlStr (map_of c ''auth_type'');
          e1 = (if t \<noteq> [] then e\<lparr>ce_authType := t\<rparr> else e);
          e2 = (case map_of c ''auth'' of
                  Some (YMap a) \<Rightarrow>
                    (let p = yamlStr (map_of a ''endpoint''); q = yamlStr (map_of a ''passcode'') in
                     e1\<lparr>ce_hasAuth := True,
                        ce_endpoint := if p \<noteq> [] then p else ce_endpoint e1,
                        ce_passcode := if q \<noteq> [] then q else ce_passcode e1\<rparr>)
                | _ \<Rightarrow> e1)
      in e2\<lparr>ce_overrides := fold overrideStep c (ce_overrides e2)\<rparr>)"

text \<open>
  The overrides an entry leaves behind do not depend on the order its keys were visited in: an
  override key wins, then what was there before, then a plain endpoint key.
\<close>

lemma override_keys_differ: "a @ ''_endpoint_override'' \<noteq> b @ ''_endpoint''"
proof
  assume "a @ ''_endpoint_override'' = b @ ''_endpoint''"
  from arg_cong [OF this, of rev] show False by simp
qed

lemma overrideStep_map:
  "map_of (overrideStep (k, v) ovs) s =
     (if k = s @ ''_endpoint_override'' \<and> yamlStr (Some v) \<noteq> [] then Some (yamlStr (Some v))
      else if k = s @ ''_endpoint'' \<and> yamlStr (Some v) \<noteq> [] \<and> map_of ovs s = None then Some (yamlStr (Some v))
      else map_of ovs s)"
  using override_keys_differ
  by (auto simp: overrideStep_def Let_def update_conv' cutSuffix_Some cutSuffix_def hasSuffix_iff split: option.split)

lemma yamlStr_None [simp]: "yamlStr None = []"
  by (simp add: yamlStr_def)

lemma overrides_order_irrelevant:
  assumes "distinct (map fst c)"
  shows "map_of (fold overrideStep c ovs) s =
    (let o1 = yamlStr (map_of c (s @ ''_endpoint_override'')); p = yamlStr (map_of c (s @ ''_endpoint'')) in
     if o1 \<noteq> [] then Some o1 else case map_of ovs s of Some u \<Rightarrow> Some u | None \<Rightarrow> if p \<noteq> [] then Some p else None)"
  using assms
proof (induction c arbitrary: ovs)
  case Nil
  then show ?case by (simp split: option.split)
next
  case (Cons kv c)
  obtain k v where kv: "kv = (k, v)" by fastforce
  have "map_of c k = None" using Cons.prems kv by (simp add: map_of_eq_None_iff)
  then show ?case using Cons.IH [of "overrideStep kv ovs"] Cons.prems override_keys_differ
    by (auto simp: kv overrideStep_map Let_def split: option.splits)
qed

section \<open>Finding the files\<close>

record cloudsFile =
  cf_path :: gostring
  cf_securePath :: gostring
  cf_names :: "gostring list"
  cf_extras :: "(gostring \<times> cloudExtra) list"

datatype cloudsErr = ReadFailed gostring | ParseFailed gostring

definition readCloudsDoc :: "(gostring \<Rightarrow> cloudsDoc option) \<Rightarrow> machine \<Rightarrow> gostring \<Rightarrow> cloudsErr + cloudsDoc" where
  "readCloudsDoc decode m p =
     (case readFile m p of
        None \<Rightarrow> Inl (ReadFailed p)
      | Some raw \<Rightarrow> (case decode raw of None \<Rightarrow> Inl (ParseFailed p) | Some doc \<Rightarrow> Inr doc))"

definition extraOf :: "cloudsFile \<Rightarrow> gostring \<Rightarrow> cloudExtra" where
  "extraOf cf name = (case map_of (cf_extras cf) name of None \<Rightarrow> emptyExtra | Some e \<Rightarrow> e)"

definition mergeCloud :: "gostring \<times> yamlMap \<Rightarrow> cloudsFile \<Rightarrow> cloudsFile" where
  "mergeCloud nc cf =
     cf\<lparr>cf_names := (if fst nc \<in> set (cf_names cf) then cf_names cf else cf_names cf @ [fst nc]),
        cf_extras := AList.update (fst nc) (mergeExtra (extraOf cf (fst nc)) (snd nc)) (cf_extras cf)\<rparr>"

fun mergeFiles :: "(gostring \<Rightarrow> cloudsDoc option) \<Rightarrow> machine \<Rightarrow> gostring list \<Rightarrow> cloudsFile \<Rightarrow> cloudsErr + cloudsFile" where
  "mergeFiles decode m [] cf = Inr cf"
| "mergeFiles decode m (p # ps) cf =
     (if p = [] then mergeFiles decode m ps cf
      else case readCloudsDoc decode m p of
          Inl e \<Rightarrow> Inl e
        | Inr doc \<Rightarrow> mergeFiles decode m ps (fold mergeCloud doc cf))"

text \<open>\<^term>\<open>Inr None\<close> when there is no \<^verbatim>\<open>clouds.yaml\<close>.\<close>

definition findCloudsFile :: "(gostring \<Rightarrow> cloudsDoc option) \<Rightarrow> environ \<Rightarrow> machine \<Rightarrow> cloudsErr + cloudsFile option" where
  "findCloudsFile decode env m =
     (let p = firstReadable m (configCandidates env m ''clouds'' ''OS_CLIENT_CONFIG_FILE'') in
      if p = [] then Inr None
      else
        let cf = \<lparr>cf_path = p, cf_securePath = firstReadable m (configCandidates env m ''secure'' ''OS_CLIENT_SECURE_FILE''),
                  cf_names = [], cf_extras = []\<rparr>
        in case mergeFiles decode m [cf_path cf, cf_securePath cf] cf of
             Inl e \<Rightarrow> Inl e
           | Inr cf' \<Rightarrow> Inr (Some cf'))"

lemma findCloudsFile_embedded: "Embedded env \<Longrightarrow> findCloudsFile decode env m = Inr None"
  by (simp add: findCloudsFile_def configCandidates_embedded)

section \<open>Endpoint overrides\<close>

definition authTypeNone :: gostring where "authTypeNone = ''none''"
definition authTypeAdminToken :: gostring where "authTypeAdminToken = ''admin_token''"
definition authTypeHTTPBasic :: gostring where "authTypeHTTPBasic = ''http_basic''"

definition keystoneless :: "gostring \<Rightarrow> bool" where
  "keystoneless kind \<longleftrightarrow> kind \<in> {authTypeNone, authTypeAdminToken, authTypeHTTPBasic}"

definition overrideKey :: "gostring \<Rightarrow> gostring" where
  "overrideKey serviceType = lowerWord (replaceByte serviceType (CHR ''-'') ''_'')"

text \<open>Which list an environment entry goes to: overrides before plain endpoints.\<close>

definition envOverride :: "gostring \<times> gostring \<Rightarrow> (bool \<times> gostring \<times> gostring) option" where
  "envOverride kv =
     (case cutPrefix (fst kv) ''OS_'' of
        None \<Rightarrow> None
      | Some name \<Rightarrow>
          if snd kv = [] then None
          else case cutSuffix name ''_ENDPOINT_OVERRIDE'' of
              Some svc \<Rightarrow> if svc \<noteq> [] then Some (True, overrideKey svc, snd kv)
                 else (case cutSuffix name ''_ENDPOINT'' of
                         Some svc' \<Rightarrow> if svc' \<noteq> [] then Some (False, overrideKey svc', snd kv) else None
                       | None \<Rightarrow> None)
            | None \<Rightarrow>
                (case cutSuffix name ''_ENDPOINT'' of
                   Some svc \<Rightarrow> if svc \<noteq> [] then Some (False, overrideKey svc, snd kv) else None
                 | None \<Rightarrow> None))"

definition putAll :: "(gostring \<times> gostring) list \<Rightarrow> (gostring \<times> gostring) list \<Rightarrow> (gostring \<times> gostring) list" where
  "putAll kvs m = fold (\<lambda>kv. AList.update (fst kv) (snd kv)) kvs m"

definition collectEndpointOverrides :: "environ \<Rightarrow> (gostring \<times> gostring) list \<Rightarrow> (gostring \<times> gostring) list" where
  "collectEndpointOverrides env fromCloud =
     (let found = List.map_filter envOverride env;
          plain = map snd (filter (\<lambda>x. \<not> fst x) found);
          override = map snd (filter fst found)
      in putAll (plain @ override) (putAll (map (\<lambda>(k, v). (overrideKey k, v)) fromCloud) []))"

record endpointOpts =
  eo_Type :: gostring
  eo_Aliases :: "gostring list"
  eo_Region :: gostring
  eo_Availability :: gostring

text \<open>\<^verbatim>\<open>gophercloud.NormalizeURL\<close>.\<close>

definition NormalizeURL :: "gostring \<Rightarrow> gostring" where
  "NormalizeURL u = (if hasSuffix u ''/'' then u else u @ ''/'')"

definition lookupOverride :: "Options \<Rightarrow> endpointOpts \<Rightarrow> gostring option" where
  "lookupOverride opts eo =
     (case List.map_filter (\<lambda>t. map_of (op_endpointOverrides opts) (overrideKey t)) (eo_Type eo # eo_Aliases eo) of
        [] \<Rightarrow> None
      | u # _ \<Rightarrow> Some (NormalizeURL u))"

datatype 'e located = Located gostring | CatalogErr 'e | NoCatalog gostring gostring

text \<open>\<open>next\<close> is the catalog lookup of the authenticated provider, \<^const>\<open>None\<close> for the auth types without Keystone.\<close>

definition endpointLocator :: "Options \<Rightarrow> (endpointOpts \<Rightarrow> 'e + gostring) option \<Rightarrow> endpointOpts \<Rightarrow> 'e located" where
  "endpointLocator opts next eo =
     (case lookupOverride opts eo of
        Some u \<Rightarrow> Located u
      | None \<Rightarrow>
          (case next of
             Some f \<Rightarrow> (case f eo of Inl e \<Rightarrow> CatalogErr e | Inr u \<Rightarrow> Located u)
           | None \<Rightarrow>
               if op_Endpoint opts \<noteq> [] then Located (NormalizeURL (op_Endpoint opts))
               else NoCatalog (op_authKind opts) (overrideKey (eo_Type eo))))"

text \<open>\<open>host\<close> is the host of a URL that parses, and the empty string otherwise.\<close>

definition endpointHosts :: "(gostring \<Rightarrow> gostring) \<Rightarrow> Options \<Rightarrow> gostring list" where
  "endpointHosts host opts = filter (\<lambda>h. h \<noteq> []) (map host (op_Endpoint opts # map snd (op_endpointOverrides opts)))"

text \<open>\<^verbatim>\<open>basicAuthTransport.RoundTrip\<close>: whether the request of this host carries the credentials.\<close>

definition basicAuthSends :: "gostring list \<Rightarrow> gostring \<Rightarrow> bool" where
  "basicAuthSends hosts reqHost \<longleftrightarrow> \<not> (hosts \<noteq> [] \<and> reqHost \<notin> set hosts)"

lemma putAll_map: "map_of (putAll kvs m) k = (case map_of (rev kvs) k of None \<Rightarrow> map_of m k | Some v \<Rightarrow> Some v)"
  unfolding putAll_def
proof (induction kvs rule: rev_induct)
  case (snoc kv kvs)
  then show ?case by (auto simp: update_conv' split: option.split)
qed simp

lemma collect_map:
  "map_of (collectEndpointOverrides env fromCloud) svc =
    (case map_of (rev (map snd (filter fst (List.map_filter envOverride env)))) svc of
       Some u \<Rightarrow> Some u
     | None \<Rightarrow>
         (case map_of (rev (map snd (filter (\<lambda>x. \<not> fst x) (List.map_filter envOverride env)))) svc of
            Some u \<Rightarrow> Some u
          | None \<Rightarrow> map_of (rev (map (\<lambda>(k, v). (overrideKey k, v)) fromCloud)) svc))"
  by (simp add: collectEndpointOverrides_def Let_def putAll_map map_add_def split: option.split)

end
