(* ===== verification/Auth_Resolve.thy ===== *)
theory Auth_Resolve
  imports Auth_Clouds
begin

text \<open>
  Which credentials and which scope an invocation authenticates with: \<^verbatim>\<open>internal/auth/provider.go\<close> and
  \<^verbatim>\<open>password.go\<close>. \<open>AuthOptions\<close> and \<open>AuthScope\<close> are gophercloud's records. What the code takes from outside is
  an argument: the environment, the clouds file \<open>findCloudsFile\<close> found, gophercloud's \<^verbatim>\<open>clouds.Parse\<close>, standard
  input, and the terminal prompt. The checks gophercloud makes when it builds the token request are
  modelled from the vendored source, so that the theorems can say which requests reach Keystone.
\<close>

section \<open>Auth options\<close>

record AuthScope =
  as_ProjectID :: gostring
  as_ProjectName :: gostring
  as_DomainID :: gostring
  as_DomainName :: gostring
  as_System :: bool
  as_TrustID :: gostring

definition noScope :: AuthScope where
  "noScope = \<lparr>as_ProjectID = [], as_ProjectName = [], as_DomainID = [], as_DomainName = [], as_System = False, as_TrustID = []\<rparr>"

record AuthOptions =
  ao_IdentityEndpoint :: gostring
  ao_Username :: gostring
  ao_UserID :: gostring
  ao_Password :: gostring
  ao_Passcode :: gostring
  ao_DomainID :: gostring
  ao_DomainName :: gostring
  ao_TenantID :: gostring
  ao_TenantName :: gostring
  ao_AllowReauth :: bool
  ao_TokenID :: gostring
  ao_Scope :: "AuthScope option"
  ao_AppCredID :: gostring
  ao_AppCredName :: gostring
  ao_AppCredSecret :: gostring

definition noAuth :: AuthOptions where
  "noAuth = \<lparr>ao_IdentityEndpoint = [], ao_Username = [], ao_UserID = [], ao_Password = [], ao_Passcode = [], ao_DomainID = [],
     ao_DomainName = [], ao_TenantID = [], ao_TenantName = [], ao_AllowReauth = False, ao_TokenID = [], ao_Scope = None,
     ao_AppCredID = [], ao_AppCredName = [], ao_AppCredSecret = []\<rparr>"

datatype authErr =
    EBadEnv "envMsg list"
  | EExclusive gostring gostring
  | EStdinRead | EStdinEmpty | EStdinLines
  | ESystemScope gostring
  | EInterface gostring
  | EAuthType gostring
  | EClouds cloudsErr
  | ENoCloudsFile gostring
  | ECloudParse gostring
  | ESeveralClouds "gostring list"
  | ENoAuthURL
  | ENoSecret
  | ENeedsAppCred
  | ENeedsToken gostring
  | ENeedsPasscode gostring
  | ENeedsUser gostring
  | ENeedsEndpoint gostring
  | EPrompt
  | EPromptEmpty

section \<open>Auth types and interfaces\<close>

definition authTypePassword :: gostring where "authTypePassword = ''password''"
definition authTypeToken :: gostring where "authTypeToken = ''token''"
definition authTypeAppCred :: gostring where "authTypeAppCred = ''v3applicationcredential''"
definition authTypeTOTP :: gostring where "authTypeTOTP = ''v3totp''"
definition authTypeMFA :: gostring where "authTypeMFA = ''v3multifactor''"

definition canonicalAuthType :: "gostring \<Rightarrow> authErr + gostring" where
  "canonicalAuthType v =
     (let w = lowerWord (replaceByte v (CHR ''-'') ''_'') in
      if w = [] then Inr []
      else if w \<in> {''password'', ''v3password''} then Inr authTypePassword
      else if w \<in> {''token'', ''v3token''} then Inr authTypeToken
      else if w \<in> {''v3applicationcredential'', ''applicationcredential'', ''v3_application_credential'', ''application_credential''}
        then Inr authTypeAppCred
      else if w \<in> {''v3totp'', ''totp''} then Inr authTypeTOTP
      else if w \<in> {''v3multifactor'', ''multifactor''} then Inr authTypeMFA
      else if w \<in> {''none'', ''noauth''} then Inr authTypeNone
      else if w \<in> {''admin_token'', ''token_endpoint''} then Inr authTypeAdminToken
      else if w = ''http_basic'' then Inr authTypeHTTPBasic
      else Inl (EAuthType v))"

definition normalizeInterface :: "gostring \<Rightarrow> authErr + gostring" where
  "normalizeInterface v =
     (if v = [] then Inr []
      else let n = lowerWord (trimSuffix (trimSuffix v ''URL'') ''url'') in
        if n \<in> {''public'', ''internal'', ''admin''} then Inr n else Inl (EInterface v))"

fun firstNonEmpty :: "gostring list \<Rightarrow> gostring" where
  "firstNonEmpty [] = []"
| "firstNonEmpty (v # vs) = (if v \<noteq> [] then v else firstNonEmpty vs)"

definition applyEndpointOverrides :: "Options \<Rightarrow> endpointOpts \<Rightarrow> endpointOpts" where
  "applyEndpointOverrides opts eo =
     (let eo1 = (if op_RegionName opts \<noteq> [] then eo\<lparr>eo_Region := op_RegionName opts\<rparr> else eo) in
      case normalizeInterface (op_Interface opts) of
        Inr n \<Rightarrow> if n \<noteq> [] then eo1\<lparr>eo_Availability := n\<rparr> else eo1
      | Inl _ \<Rightarrow> eo1)"

section \<open>Domains and scopes\<close>

record domainRef =
  dr_ID :: gostring
  dr_Name :: gostring

definition emptyDomain :: domainRef where
  "emptyDomain = \<lparr>dr_ID = [], dr_Name = []\<rparr>"

definition domainEmpty :: "domainRef \<Rightarrow> bool" where
  "domainEmpty d \<longleftrightarrow> dr_ID d = [] \<and> dr_Name d = []"

definition domainOption :: "Options \<Rightarrow> gostring \<Rightarrow> gostring \<Rightarrow> gostring \<Rightarrow> gostring \<Rightarrow> domainRef" where
  "domainOption opts idFlag i nameFlag n =
     (if i \<noteq> [] \<and> n \<noteq> [] then
        (if explicitlySet opts nameFlag \<and> \<not> explicitlySet opts idFlag then \<lparr>dr_ID = [], dr_Name = n\<rparr>
         else \<lparr>dr_ID = i, dr_Name = []\<rparr>)
      else \<lparr>dr_ID = i, dr_Name = n\<rparr>)"

fun firstDomain :: "domainRef list \<Rightarrow> domainRef" where
  "firstDomain [] = emptyDomain"
| "firstDomain (d # ds) = (if domainEmpty d then firstDomain ds else d)"

definition reconcileCloudDomains :: "AuthOptions \<Rightarrow> AuthOptions" where
  "reconcileCloudDomains ao =
     (case ao_Scope ao of
        None \<Rightarrow> ao
      | Some s \<Rightarrow>
          if as_System s \<or> as_TrustID s \<noteq> [] then ao
          else
            let ao1 = (if ao_DomainID ao = [] \<and> ao_DomainName ao = []
                       then ao\<lparr>ao_DomainID := as_DomainID s, ao_DomainName := as_DomainName s\<rparr> else ao)
            in if as_ProjectName s \<noteq> [] \<and> as_ProjectID s = [] \<and> as_DomainID s = [] \<and> as_DomainName s = []
               then ao1\<lparr>ao_Scope := Some (s\<lparr>as_DomainID := ao_DomainID ao1, as_DomainName := ao_DomainName ao1\<rparr>)\<rparr>
               else ao1)"

definition applyProjectScope :: "Options \<Rightarrow> AuthOptions \<Rightarrow> AuthOptions" where
  "applyProjectScope opts ao =
     (case ao_Scope ao of
        None \<Rightarrow> ao
      | Some s \<Rightarrow>
          if as_System s \<or> as_TrustID s \<noteq> [] then ao
          else if op_ProjectID opts \<noteq> [] then ao\<lparr>ao_Scope := Some (noScope\<lparr>as_ProjectID := op_ProjectID opts\<rparr>)\<rparr>
          else if op_ProjectName opts \<noteq> []
            then ao\<lparr>ao_Scope := Some (s\<lparr>as_ProjectName := op_ProjectName opts, as_ProjectID := []\<rparr>)\<rparr>
          else ao)"

definition userDomain :: "Options \<Rightarrow> domainRef" where
  "userDomain opts = domainOption opts ''os-user-domain-id'' (op_UserDomainID opts) ''os-user-domain-name'' (op_UserDomainName opts)"

definition projectDomain :: "Options \<Rightarrow> domainRef" where
  "projectDomain opts = domainOption opts ''os-project-domain-id'' (op_ProjectDomainID opts) ''os-project-domain-name'' (op_ProjectDomainName opts)"

definition scopeDomain :: "Options \<Rightarrow> domainRef" where
  "scopeDomain opts = domainOption opts ''os-domain-id'' (op_DomainID opts) ''os-domain-name'' (op_DomainName opts)"

definition applyDomainScope :: "Options \<Rightarrow> AuthOptions \<Rightarrow> AuthOptions" where
  "applyDomainScope opts ao =
     (let user = userDomain opts; project = projectDomain opts; domain = scopeDomain opts in
      if domainEmpty user \<and> domainEmpty project \<and> domainEmpty domain then ao
      else
        let ud = firstDomain [user, domain, project];
            ao1 = (if domainEmpty ud then ao else ao\<lparr>ao_DomainID := dr_ID ud, ao_DomainName := dr_Name ud\<rparr>);
            projectName = firstNonEmpty [op_ProjectName opts, ao_TenantName ao1];
            projectID = firstNonEmpty [op_ProjectID opts, ao_TenantID ao1]
        in if projectID \<noteq> [] then ao1\<lparr>ao_Scope := Some (noScope\<lparr>as_ProjectID := projectID\<rparr>)\<rparr>
           else if projectName \<noteq> [] then
             (let pd = firstDomain [project, user, domain] in
              ao1\<lparr>ao_Scope := Some (noScope\<lparr>as_ProjectName := projectName, as_DomainID := dr_ID pd, as_DomainName := dr_Name pd\<rparr>)\<rparr>)
           else if \<not> domainEmpty domain then
             ao1\<lparr>ao_Scope := Some (noScope\<lparr>as_DomainID := dr_ID domain, as_DomainName := dr_Name domain\<rparr>)\<rparr>
           else ao1)"

definition applySystemScope :: "Options \<Rightarrow> AuthOptions \<Rightarrow> AuthOptions" where
  "applySystemScope opts ao =
     (if op_SystemScope opts = [] then ao
      else ao\<lparr>ao_Scope := Some (noScope\<lparr>as_System := True\<rparr>), ao_TenantName := [], ao_TenantID := []\<rparr>)"

definition applyTrustScope :: "Options \<Rightarrow> AuthOptions \<Rightarrow> AuthOptions" where
  "applyTrustScope opts ao =
     (if op_TrustID opts = [] then ao
      else ao\<lparr>ao_Scope := Some (noScope\<lparr>as_TrustID := op_TrustID opts\<rparr>), ao_TenantName := [], ao_TenantID := []\<rparr>)"

definition applyDefaultDomain :: "Options \<Rightarrow> AuthOptions \<Rightarrow> AuthOptions" where
  "applyDefaultDomain opts ao =
     (if op_DefaultDomain opts = [] \<or> ao_AppCredID ao \<noteq> [] \<or> ao_AppCredName ao \<noteq> [] then ao
      else
        let ao1 = (if ao_Username ao \<noteq> [] \<and> ao_UserID ao = [] \<and> ao_DomainID ao = [] \<and> ao_DomainName ao = []
                   then ao\<lparr>ao_DomainID := op_DefaultDomain opts\<rparr> else ao)
        in case ao_Scope ao1 of
             None \<Rightarrow> ao1
           | Some s \<Rightarrow>
               if as_ProjectName s \<noteq> [] \<and> as_ProjectID s = [] \<and> as_DomainID s = [] \<and> as_DomainName s = []
               then ao1\<lparr>ao_Scope := Some (s\<lparr>as_DomainID := op_DefaultDomain opts\<rparr>)\<rparr> else ao1)"

definition setAuth :: "gostring \<Rightarrow> ((gostring \<Rightarrow> gostring) \<Rightarrow> AuthOptions \<Rightarrow> AuthOptions) \<Rightarrow> AuthOptions \<Rightarrow> AuthOptions" where
  "setAuth v upd ao = (if v \<noteq> [] then upd (\<lambda>_. v) ao else ao)"

definition applyFields :: "Options \<Rightarrow> AuthOptions \<Rightarrow> AuthOptions" where
  "applyFields opts ao =
     setAuth (op_AppCredSecret opts) ao_AppCredSecret_update
     (setAuth (op_AppCredName opts) ao_AppCredName_update
     (setAuth (op_AppCredID opts) ao_AppCredID_update
     (setAuth (op_ProjectID opts) ao_TenantID_update
     (setAuth (op_ProjectName opts) ao_TenantName_update
     (setAuth (op_Token opts) ao_TokenID_update
     (setAuth (op_Password opts) ao_Password_update
     (setAuth (op_UserID opts) ao_UserID_update
     (setAuth (op_Username opts) ao_Username_update
     (setAuth (op_AuthURL opts) ao_IdentityEndpoint_update ao)))))))))"

definition applyAuthOverrides :: "Options \<Rightarrow> AuthOptions \<Rightarrow> AuthOptions" where
  "applyAuthOverrides opts ao =
     applyDefaultDomain opts (applyTrustScope opts (applySystemScope opts (applyDomainScope opts (applyProjectScope opts (applyFields opts ao)))))"

section \<open>The auth method\<close>

definition tokenAuth :: "AuthOptions \<Rightarrow> AuthOptions" where
  "tokenAuth ao =
     (let scope = (case ao_Scope ao of
            Some s \<Rightarrow> Some s
          | None \<Rightarrow>
              if ao_TenantID ao \<noteq> [] then Some (noScope\<lparr>as_ProjectID := ao_TenantID ao\<rparr>)
              else if ao_TenantName ao \<noteq> [] then
                Some (noScope\<lparr>as_ProjectName := ao_TenantName ao, as_DomainID := ao_DomainID ao, as_DomainName := ao_DomainName ao\<rparr>)
              else None)
      in ao\<lparr>ao_Scope := scope, ao_Username := [], ao_UserID := [], ao_Password := [], ao_DomainID := [], ao_DomainName := []\<rparr>)"

definition clearToken :: "AuthOptions \<Rightarrow> AuthOptions" where
  "clearToken ao = ao\<lparr>ao_TokenID := []\<rparr>"

definition clearAppCred :: "AuthOptions \<Rightarrow> AuthOptions" where
  "clearAppCred ao = ao\<lparr>ao_AppCredID := [], ao_AppCredName := [], ao_AppCredSecret := []\<rparr>"

text \<open>The settled auth type (\<^verbatim>\<open>o.authKind\<close>) and the options it leaves.\<close>

definition applyAuthType :: "Options \<Rightarrow> gostring \<Rightarrow> AuthOptions \<Rightarrow> authErr + gostring \<times> AuthOptions" where
  "applyAuthType opts cloudAuthType ao0 =
     (case canonicalAuthType (firstNonEmpty [op_AuthType opts, cloudAuthType]) of
        Inl e \<Rightarrow> Inl e
      | Inr t \<Rightarrow>
          let appCred = (ao_AppCredID ao0 \<noteq> [] \<or> ao_AppCredName ao0 \<noteq> []);
              ao = (if t \<noteq> authTypeTOTP \<and> t \<noteq> authTypeMFA then ao0\<lparr>ao_Passcode := []\<rparr> else ao0);
              noUser = (ao_Username ao = [] \<and> ao_UserID ao = [])
          in if t = [] then
               (if ao_TokenID ao = [] then Inr ([], ao)
                else if \<not> noUser \<or> ao_Password ao \<noteq> [] \<or> appCred then Inr ([], clearToken ao)
                else Inr (authTypeToken, tokenAuth ao))
             else if t = authTypePassword then Inr (t, clearAppCred (clearToken ao))
             else if t = authTypeAppCred then
               (if \<not> appCred then Inl ENeedsAppCred else Inr (t, (clearToken ao)\<lparr>ao_Password := []\<rparr>))
             else if t = authTypeToken then
               (if ao_TokenID ao = [] then Inl (ENeedsToken t) else Inr (t, tokenAuth (clearAppCred ao)))
             else if t = authTypeTOTP \<or> t = authTypeMFA then
               (if ao_Passcode ao = [] then Inl (ENeedsPasscode t)
                else if noUser then Inl (ENeedsUser t)
                else
                  let ao1 = clearAppCred (clearToken ao) in
                  Inr (t, if t = authTypeTOTP then ao1\<lparr>ao_Password := []\<rparr> else ao1))
             else if t = authTypeAdminToken then
               (if ao_TokenID ao = [] then Inl (ENeedsToken t) else Inr (t, ao))
             else if t = authTypeHTTPBasic then
               (if noUser then Inl (ENeedsUser t) else Inr (t, ao))
             else Inr (t, ao))"

section \<open>Resolving the credentials\<close>

record tlsConfig =
  tc_MinVersion :: nat
  tc_RootCAs :: gostring
  tc_Certificates :: "gostring list"
  tc_InsecureSkipVerify :: bool

text \<open>
  What the resolution meets: \<open>w_parse\<close> is \<^verbatim>\<open>clouds.Parse\<close> on the files found, given the cloud, the region and the
  interface; \<open>w_prompt\<close> is the terminal, if standard input is one, and what reading a password from it
  gives; \<open>w_stdin\<close> is the whole of standard input.
\<close>

record authWorld =
  w_env :: environ
  w_clouds :: "cloudsErr + cloudsFile option"
  w_parse :: "gostring \<Rightarrow> gostring \<Rightarrow> gostring \<Rightarrow> (AuthOptions \<times> endpointOpts \<times> tlsConfig option) option"
  w_prompt :: "gostring option option"
  w_stdin :: "gostring option"

definition regionOnly :: "gostring \<Rightarrow> endpointOpts" where
  "regionOnly r = \<lparr>eo_Type = [], eo_Aliases = [], eo_Region = r, eo_Availability = []\<rparr>"

definition selectDefaultCloud :: "authWorld \<Rightarrow> Options \<Rightarrow> authErr + Options" where
  "selectDefaultCloud w opts =
     (if op_Cloud opts \<noteq> [] \<or> op_AuthURL opts \<noteq> [] then Inr opts
      else case w_clouds w of
          Inl e \<Rightarrow> Inl (EClouds e)
        | Inr None \<Rightarrow> Inr opts
        | Inr (Some cf) \<Rightarrow>
            (case cf_names cf of
               [] \<Rightarrow> Inr opts
             | [n] \<Rightarrow> Inr (opts\<lparr>op_Cloud := n\<rparr>)
             | _ \<Rightarrow> Inl (ESeveralClouds (sort (cf_names cf)))))"

definition parseCloud :: "authWorld \<Rightarrow> Options \<Rightarrow> gostring \<Rightarrow> authErr + AuthOptions \<times> endpointOpts \<times> tlsConfig option \<times> cloudExtra" where
  "parseCloud w opts iface =
     (case w_clouds w of
        Inl e \<Rightarrow> Inl (EClouds e)
      | Inr None \<Rightarrow> Inl (ENoCloudsFile (op_Cloud opts))
      | Inr (Some cf) \<Rightarrow>
          (case w_parse w (op_Cloud opts) (op_RegionName opts) iface of
             None \<Rightarrow> Inl (ECloudParse (op_Cloud opts))
           | Some (ao, eo, tls) \<Rightarrow> Inr (ao, eo, tls, extraOf cf (op_Cloud opts))))"

definition terminalPassword :: "authWorld \<Rightarrow> Options \<Rightarrow> gostring option option" where
  "terminalPassword w opts = (if Embedded (w_env w) \<or> op_PasswordStdin opts then None else w_prompt w)"

definition willPromptForPassword :: "authWorld \<Rightarrow> Options \<Rightarrow> bool" where
  "willPromptForPassword w opts \<longleftrightarrow> (op_Username opts \<noteq> [] \<or> op_UserID opts \<noteq> []) \<and> terminalPassword w opts \<noteq> None"

text \<open>The environment path's up-front check.\<close>

definition envCredentials :: "authWorld \<Rightarrow> Options \<Rightarrow> authErr option" where
  "envCredentials w opts =
     (if op_AuthURL opts = [] then Some ENoAuthURL
      else if op_Password opts = [] \<and> op_AppCredID opts = [] \<and> op_AppCredName opts = [] \<and> op_Token opts = [] \<and> op_Passcode opts = []
        \<and> \<not> willPromptForPassword w opts then Some ENoSecret
      else None)"

text \<open>The base of the options: a named cloud, nothing for the auth types without Keystone, or the environment.\<close>

definition resolveBase :: "authWorld \<Rightarrow> Options \<Rightarrow> gostring \<Rightarrow> gostring \<Rightarrow> authErr + AuthOptions \<times> endpointOpts \<times> tlsConfig option \<times> cloudExtra" where
  "resolveBase w opts iface envKind =
     (if op_Cloud opts \<noteq> [] then
        (case parseCloud w opts iface of
           Inl e \<Rightarrow> Inl e
         | Inr (ao, eo, tls, extra) \<Rightarrow> Inr (reconcileCloudDomains ao, eo, tls, extra))
      else if keystoneless envKind then Inr (noAuth, regionOnly (op_RegionName opts), None, emptyExtra)
      else case envCredentials w opts of
          Some e \<Rightarrow> Inl e
        | None \<Rightarrow> Inr (noAuth, regionOnly (op_RegionName opts), None, emptyExtra))"

text \<open>The part of \<^verbatim>\<open>resolveAuth\<close> after the base is known.\<close>

definition resolveOverrides :: "authWorld \<Rightarrow> Options \<Rightarrow> AuthOptions \<times> endpointOpts \<times> tlsConfig option \<times> cloudExtra \<Rightarrow>
    authErr + Options \<times> AuthOptions \<times> endpointOpts \<times> tlsConfig option" where
  "resolveOverrides w opts b =
     (case b of (ao0, eo, tls, extra) \<Rightarrow>
        let ao1 = (applyAuthOverrides opts ao0)\<lparr>ao_Passcode := firstNonEmpty [op_Passcode opts, ce_passcode extra]\<rparr> in
        case applyAuthType opts (ce_authType extra) ao1 of
          Inl e \<Rightarrow> Inl e
        | Inr (kind, ao2) \<Rightarrow>
            let opts' = opts\<lparr>op_authKind := kind, op_Endpoint := firstNonEmpty [op_Endpoint opts, ce_endpoint extra],
                  op_endpointOverrides := collectEndpointOverrides (w_env w) (ce_overrides extra)\<rparr>
            in if keystoneless kind \<and> op_Endpoint opts' = [] \<and> op_endpointOverrides opts' = []
               then Inl (ENeedsEndpoint kind)
               else Inr (opts', ao2, applyEndpointOverrides opts' eo, tls))"

definition resolveAuth :: "authWorld \<Rightarrow> Options \<Rightarrow> authErr + Options \<times> AuthOptions \<times> endpointOpts \<times> tlsConfig option" where
  "resolveAuth w opts0 =
     (case normalizeInterface (op_Interface opts0) of
        Inl e \<Rightarrow> Inl e
      | Inr iface \<Rightarrow>
          (case canonicalAuthType (op_AuthType opts0) of
             Inl e \<Rightarrow> Inl e
           | Inr envKind \<Rightarrow>
               (case (if op_Endpoint opts0 = [] \<and> \<not> keystoneless envKind then selectDefaultCloud w opts0 else Inr opts0) of
                  Inl e \<Rightarrow> Inl e
                | Inr opts \<Rightarrow>
                    (case resolveBase w opts iface envKind of
                       Inl e \<Rightarrow> Inl e
                     | Inr b \<Rightarrow> resolveOverrides w opts b))))"

section \<open>Before the resolution\<close>

definition tenantAlias :: "gostring \<Rightarrow> gostring \<Rightarrow> gostring \<Rightarrow> Options \<Rightarrow> Options" where
  "tenantAlias alias flag v opts =
     (if changed opts alias \<and> \<not> changed opts flag then markForced flag (setField flag v opts) else opts)"

definition applyTenantAliases :: "Options \<Rightarrow> Options" where
  "applyTenantAliases opts =
     (case op_fs opts of
        None \<Rightarrow> opts
      | Some _ \<Rightarrow>
          tenantAlias ''os-tenant-id'' ''os-project-id'' (op_tenantID opts)
            (tenantAlias ''os-tenant-name'' ''os-project-name'' (op_tenantName opts) opts))"

definition validateSystemScope :: "Options \<Rightarrow> authErr option" where
  "validateSystemScope opts =
     (if op_SystemScope opts = [] then None
      else if op_SystemScope opts \<noteq> ''all'' then Some (ESystemScope (op_SystemScope opts))
      else if \<not> changed opts ''os-system-scope'' then None
      else map_option (\<lambda>name. EExclusive ''os-system-scope'' name)
        (List.find (explicitlySet opts) [''os-project-name'', ''os-project-id'', ''os-domain-name'', ''os-domain-id'']))"

definition readPasswordStdin :: "gostring option \<Rightarrow> authErr + gostring" where
  "readPasswordStdin r =
     (case r of
        None \<Rightarrow> Inl EStdinRead
      | Some raw \<Rightarrow>
          let pw = trimSuffix (trimSuffix raw [CHR 0x0A]) [CHR 0x0D] in
          if pw = [] then Inl EStdinEmpty
          else if CHR 0x0D \<in> set pw \<or> CHR 0x0A \<in> set pw then Inl EStdinLines
          else Inr pw)"

definition rememberPassword :: "gostring \<Rightarrow> Options \<Rightarrow> Options" where
  "rememberPassword pw opts = markForced ''os-password'' (opts\<lparr>op_Password := pw\<rparr>)"

definition applyPasswordStdin :: "authWorld \<Rightarrow> Options \<Rightarrow> authErr + Options" where
  "applyPasswordStdin w opts =
     (if \<not> op_PasswordStdin opts \<or> ''os-password'' \<in> set (op_forced opts) then Inr opts
      else if op_Password opts \<noteq> [] \<and> explicitlySet opts ''os-password'' then Inl (EExclusive ''os-password-stdin'' ''os-password'')
      else if op_CredsFromNS opts \<noteq> [] then Inl (EExclusive ''os-password-stdin'' ''creds-from-ns'')
      else if op_CredsFromVault opts \<noteq> [] then Inl (EExclusive ''os-password-stdin'' ''creds-from-vault'')
      else case readPasswordStdin (w_stdin w) of
          Inl e \<Rightarrow> Inl e
        | Inr pw \<Rightarrow> Inr (rememberPassword pw opts))"

definition needsPassword :: "AuthOptions \<Rightarrow> bool" where
  "needsPassword ao \<longleftrightarrow>
     (if ao_Password ao \<noteq> [] \<or> ao_TokenID ao \<noteq> [] then False
      else if ao_AppCredID ao \<noteq> [] \<or> ao_AppCredName ao \<noteq> [] then False
      else ao_Username ao \<noteq> [] \<or> ao_UserID ao \<noteq> [])"

definition authTakesPassword :: "gostring \<Rightarrow> bool" where
  "authTakesPassword kind \<longleftrightarrow> kind \<in> {[], authTypePassword, authTypeMFA, authTypeHTTPBasic}"

definition promptMissingPassword :: "authWorld \<Rightarrow> Options \<Rightarrow> AuthOptions \<Rightarrow> authErr + Options \<times> AuthOptions" where
  "promptMissingPassword w opts ao =
     (if \<not> needsPassword ao then Inr (opts, ao)
      else case terminalPassword w opts of
          None \<Rightarrow> Inr (opts, ao)
        | Some None \<Rightarrow> Inl EPrompt
        | Some (Some pw) \<Rightarrow>
            if pw = [] then Inl EPromptEmpty
            else Inr (rememberPassword pw opts, ao\<lparr>ao_Password := pw\<rparr>))"

section \<open>The token request\<close>

text \<open>
  gophercloud's \<^verbatim>\<open>ToTokenV3CreateMap\<close>: the methods of the request and how its user is named, or nothing
  for the errors.
\<close>

datatype tokenUser = NoUser | UserByID gostring | UserByName gostring domainRef

definition userRequest :: "AuthOptions \<Rightarrow> tokenUser option" where
  "userRequest ao =
     (if ao_Username ao = [] \<and> ao_UserID ao = [] then None
      else if ao_Username ao \<noteq> [] then
        (if ao_UserID ao \<noteq> [] then None
         else if (ao_DomainID ao = []) = (ao_DomainName ao = []) then None
         else Some (UserByName (ao_Username ao) \<lparr>dr_ID = ao_DomainID ao, dr_Name = ao_DomainName ao\<rparr>))
      else if ao_DomainID ao \<noteq> [] \<or> ao_DomainName ao \<noteq> [] then None
      else Some (UserByID (ao_UserID ao)))"

definition appCredUser :: "AuthOptions \<Rightarrow> tokenUser option" where
  "appCredUser ao =
     (if ao_UserID ao \<noteq> [] then Some (UserByID (ao_UserID ao))
      else if ao_Username ao = [] then None
      else if ao_DomainID ao \<noteq> [] then Some (UserByName (ao_Username ao) \<lparr>dr_ID = ao_DomainID ao, dr_Name = []\<rparr>)
      else if ao_DomainName ao \<noteq> [] then Some (UserByName (ao_Username ao) \<lparr>dr_ID = [], dr_Name = ao_DomainName ao\<rparr>)
      else None)"

definition tokenRequest :: "AuthOptions \<Rightarrow> (gostring list \<times> tokenUser) option" where
  "tokenRequest ao =
     (if ao_Password ao = [] \<and> ao_Passcode ao = [] then
        (if ao_TokenID ao \<noteq> [] then
           (if ao_Username ao \<noteq> [] \<or> ao_UserID ao \<noteq> [] \<or> ao_DomainID ao \<noteq> [] \<or> ao_DomainName ao \<noteq> [] then None
            else Some ([''token''], NoUser))
         else if ao_AppCredID ao \<noteq> [] then
           (if ao_AppCredSecret ao = [] then None else Some ([''application_credential''], NoUser))
         else if ao_AppCredName ao \<noteq> [] then
           (if ao_AppCredSecret ao = [] then None
            else map_option (Pair [''application_credential'']) (appCredUser ao))
         else None)
      else
        map_option (Pair ((if ao_Password ao \<noteq> [] then [''password''] else []) @ (if ao_Passcode ao \<noteq> [] then [''totp''] else [])))
          (userRequest ao))"

text \<open>gophercloud's \<^verbatim>\<open>ToTokenV3ScopeMap\<close>.\<close>

datatype tokenScope = Unscoped | SystemScoped | TrustScoped gostring | ProjectIDScoped gostring | ProjectNameScoped gostring domainRef | DomainScoped domainRef

definition scopeObject :: "AuthOptions \<Rightarrow> AuthScope" where
  "scopeObject ao =
     (case ao_Scope ao of
        Some s \<Rightarrow> s
      | None \<Rightarrow>
          if ao_TenantID ao \<noteq> [] then noScope\<lparr>as_ProjectID := ao_TenantID ao\<rparr>
          else if ao_TenantName ao \<noteq> []
            then noScope\<lparr>as_ProjectName := ao_TenantName ao, as_DomainID := ao_DomainID ao, as_DomainName := ao_DomainName ao\<rparr>
          else noScope)"

definition scopeMap :: "AuthScope \<Rightarrow> tokenScope option" where
  "scopeMap s =
     (if as_System s then Some SystemScoped
      else if as_TrustID s \<noteq> [] then Some (TrustScoped (as_TrustID s))
      else if as_ProjectName s \<noteq> [] then
        (if as_DomainID s = [] \<and> as_DomainName s = [] then None
         else if as_ProjectID s \<noteq> [] then None
         else if as_DomainID s \<noteq> [] then Some (ProjectNameScoped (as_ProjectName s) \<lparr>dr_ID = as_DomainID s, dr_Name = []\<rparr>)
         else Some (ProjectNameScoped (as_ProjectName s) \<lparr>dr_ID = [], dr_Name = as_DomainName s\<rparr>))
      else if as_ProjectID s \<noteq> [] then
        (if as_DomainID s \<noteq> [] \<or> as_DomainName s \<noteq> [] then None else Some (ProjectIDScoped (as_ProjectID s)))
      else if as_DomainID s \<noteq> [] then
        (if as_DomainName s \<noteq> [] then None else Some (DomainScoped \<lparr>dr_ID = as_DomainID s, dr_Name = []\<rparr>))
      else if as_DomainName s \<noteq> [] then Some (DomainScoped \<lparr>dr_ID = [], dr_Name = as_DomainName s\<rparr>)
      else Some Unscoped)"

definition scopeRequest :: "AuthOptions \<Rightarrow> tokenScope option" where
  "scopeRequest ao =
     (if ao_AppCredID ao \<noteq> [] \<or> ao_AppCredName ao \<noteq> [] then Some Unscoped else scopeMap (scopeObject ao))"

end
