(* ===== verification/Auth_Precedence.thy ===== *)
theory Auth_Precedence
  imports Auth_Resolve
begin

text \<open>
  The precedence rules of \<open>Auth_Resolve\<close> as theorems: what the settled auth type leaves of the
  credentials, which user and scope the environment alone produces, and the combinations for which
  the outcome is not what the options ask for.
\<close>

section \<open>What each step changes\<close>

lemma applyFields_sel [simp]:
  "ao_IdentityEndpoint (applyFields opts ao) = firstNonEmpty [op_AuthURL opts, ao_IdentityEndpoint ao]"
  "ao_Username (applyFields opts ao) = firstNonEmpty [op_Username opts, ao_Username ao]"
  "ao_UserID (applyFields opts ao) = firstNonEmpty [op_UserID opts, ao_UserID ao]"
  "ao_Password (applyFields opts ao) = firstNonEmpty [op_Password opts, ao_Password ao]"
  "ao_TokenID (applyFields opts ao) = firstNonEmpty [op_Token opts, ao_TokenID ao]"
  "ao_TenantName (applyFields opts ao) = firstNonEmpty [op_ProjectName opts, ao_TenantName ao]"
  "ao_TenantID (applyFields opts ao) = firstNonEmpty [op_ProjectID opts, ao_TenantID ao]"
  "ao_AppCredID (applyFields opts ao) = firstNonEmpty [op_AppCredID opts, ao_AppCredID ao]"
  "ao_AppCredName (applyFields opts ao) = firstNonEmpty [op_AppCredName opts, ao_AppCredName ao]"
  "ao_AppCredSecret (applyFields opts ao) = firstNonEmpty [op_AppCredSecret opts, ao_AppCredSecret ao]"
  "ao_Scope (applyFields opts ao) = ao_Scope ao"
  "ao_DomainID (applyFields opts ao) = ao_DomainID ao"
  "ao_DomainName (applyFields opts ao) = ao_DomainName ao"
  "ao_Passcode (applyFields opts ao) = ao_Passcode ao"
  by (simp_all add: applyFields_def setAuth_def)


lemma applyProjectScope_frame [simp]:
  "ao_IdentityEndpoint (applyProjectScope opts ao) = ao_IdentityEndpoint ao"
  "ao_Username (applyProjectScope opts ao) = ao_Username ao"
  "ao_UserID (applyProjectScope opts ao) = ao_UserID ao"
  "ao_Password (applyProjectScope opts ao) = ao_Password ao"
  "ao_Passcode (applyProjectScope opts ao) = ao_Passcode ao"
  "ao_TokenID (applyProjectScope opts ao) = ao_TokenID ao"
  "ao_AppCredID (applyProjectScope opts ao) = ao_AppCredID ao"
  "ao_AppCredName (applyProjectScope opts ao) = ao_AppCredName ao"
  "ao_AppCredSecret (applyProjectScope opts ao) = ao_AppCredSecret ao"
  "ao_DomainID (applyProjectScope opts ao) = ao_DomainID ao"
  "ao_DomainName (applyProjectScope opts ao) = ao_DomainName ao"
  "ao_TenantID (applyProjectScope opts ao) = ao_TenantID ao"
  "ao_TenantName (applyProjectScope opts ao) = ao_TenantName ao"
  by (simp_all add: applyProjectScope_def Let_def split: option.split)

lemma applyDomainScope_frame [simp]:
  "ao_IdentityEndpoint (applyDomainScope opts ao) = ao_IdentityEndpoint ao"
  "ao_Username (applyDomainScope opts ao) = ao_Username ao"
  "ao_UserID (applyDomainScope opts ao) = ao_UserID ao"
  "ao_Password (applyDomainScope opts ao) = ao_Password ao"
  "ao_Passcode (applyDomainScope opts ao) = ao_Passcode ao"
  "ao_TokenID (applyDomainScope opts ao) = ao_TokenID ao"
  "ao_AppCredID (applyDomainScope opts ao) = ao_AppCredID ao"
  "ao_AppCredName (applyDomainScope opts ao) = ao_AppCredName ao"
  "ao_AppCredSecret (applyDomainScope opts ao) = ao_AppCredSecret ao"
  "ao_TenantID (applyDomainScope opts ao) = ao_TenantID ao"
  "ao_TenantName (applyDomainScope opts ao) = ao_TenantName ao"
  by (simp_all add: applyDomainScope_def Let_def)

lemma applySystemScope_frame [simp]:
  "ao_IdentityEndpoint (applySystemScope opts ao) = ao_IdentityEndpoint ao"
  "ao_Username (applySystemScope opts ao) = ao_Username ao"
  "ao_UserID (applySystemScope opts ao) = ao_UserID ao"
  "ao_Password (applySystemScope opts ao) = ao_Password ao"
  "ao_Passcode (applySystemScope opts ao) = ao_Passcode ao"
  "ao_TokenID (applySystemScope opts ao) = ao_TokenID ao"
  "ao_AppCredID (applySystemScope opts ao) = ao_AppCredID ao"
  "ao_AppCredName (applySystemScope opts ao) = ao_AppCredName ao"
  "ao_AppCredSecret (applySystemScope opts ao) = ao_AppCredSecret ao"
  "ao_DomainID (applySystemScope opts ao) = ao_DomainID ao"
  "ao_DomainName (applySystemScope opts ao) = ao_DomainName ao"
  by (simp_all add: applySystemScope_def Let_def)

lemma applyTrustScope_frame [simp]:
  "ao_IdentityEndpoint (applyTrustScope opts ao) = ao_IdentityEndpoint ao"
  "ao_Username (applyTrustScope opts ao) = ao_Username ao"
  "ao_UserID (applyTrustScope opts ao) = ao_UserID ao"
  "ao_Password (applyTrustScope opts ao) = ao_Password ao"
  "ao_Passcode (applyTrustScope opts ao) = ao_Passcode ao"
  "ao_TokenID (applyTrustScope opts ao) = ao_TokenID ao"
  "ao_AppCredID (applyTrustScope opts ao) = ao_AppCredID ao"
  "ao_AppCredName (applyTrustScope opts ao) = ao_AppCredName ao"
  "ao_AppCredSecret (applyTrustScope opts ao) = ao_AppCredSecret ao"
  "ao_DomainID (applyTrustScope opts ao) = ao_DomainID ao"
  "ao_DomainName (applyTrustScope opts ao) = ao_DomainName ao"
  by (simp_all add: applyTrustScope_def Let_def)

lemma applyDefaultDomain_frame [simp]:
  "ao_IdentityEndpoint (applyDefaultDomain opts ao) = ao_IdentityEndpoint ao"
  "ao_Username (applyDefaultDomain opts ao) = ao_Username ao"
  "ao_UserID (applyDefaultDomain opts ao) = ao_UserID ao"
  "ao_Password (applyDefaultDomain opts ao) = ao_Password ao"
  "ao_Passcode (applyDefaultDomain opts ao) = ao_Passcode ao"
  "ao_TokenID (applyDefaultDomain opts ao) = ao_TokenID ao"
  "ao_AppCredID (applyDefaultDomain opts ao) = ao_AppCredID ao"
  "ao_AppCredName (applyDefaultDomain opts ao) = ao_AppCredName ao"
  "ao_AppCredSecret (applyDefaultDomain opts ao) = ao_AppCredSecret ao"
  "ao_TenantID (applyDefaultDomain opts ao) = ao_TenantID ao"
  "ao_TenantName (applyDefaultDomain opts ao) = ao_TenantName ao"
  by (simp_all add: applyDefaultDomain_def Let_def split: option.split)

lemma applyAuthOverrides_frame [simp]:
  "ao_IdentityEndpoint (applyAuthOverrides opts ao) = ao_IdentityEndpoint (applyFields opts ao)"
  "ao_Username (applyAuthOverrides opts ao) = ao_Username (applyFields opts ao)"
  "ao_UserID (applyAuthOverrides opts ao) = ao_UserID (applyFields opts ao)"
  "ao_Password (applyAuthOverrides opts ao) = ao_Password (applyFields opts ao)"
  "ao_Passcode (applyAuthOverrides opts ao) = ao_Passcode (applyFields opts ao)"
  "ao_TokenID (applyAuthOverrides opts ao) = ao_TokenID (applyFields opts ao)"
  "ao_AppCredID (applyAuthOverrides opts ao) = ao_AppCredID (applyFields opts ao)"
  "ao_AppCredName (applyAuthOverrides opts ao) = ao_AppCredName (applyFields opts ao)"
  "ao_AppCredSecret (applyAuthOverrides opts ao) = ao_AppCredSecret (applyFields opts ao)"
  by (simp_all only: applyAuthOverrides_def applyProjectScope_frame applyDomainScope_frame applySystemScope_frame applyTrustScope_frame applyDefaultDomain_frame)

definition singleDomain :: "domainRef \<Rightarrow> bool" where
  "singleDomain d \<longleftrightarrow> dr_ID d = [] \<or> dr_Name d = []"

lemma domainOption_single [simp]: "singleDomain (domainOption opts f i g n)"
  by (auto simp: singleDomain_def domainOption_def)

lemma option_domains_single [simp]:
  "singleDomain (userDomain opts)" "singleDomain (projectDomain opts)" "singleDomain (scopeDomain opts)"
  by (simp_all add: userDomain_def projectDomain_def scopeDomain_def)

lemma firstDomain_single: "list_all singleDomain ds \<Longrightarrow> singleDomain (firstDomain ds)"
  by (induction ds) (auto simp: singleDomain_def emptyDomain_def)

text \<open>
  The specification: a user or project that no option qualifies is in the default domain, and the
  scopes rank as trust, system, project by ID, project by name, domain.
\<close>

definition qualify :: "Options \<Rightarrow> domainRef list \<Rightarrow> domainRef" where
  "qualify opts ds = (let d = firstDomain ds in if domainEmpty d then \<lparr>dr_ID = op_DefaultDomain opts, dr_Name = []\<rparr> else d)"

definition wantedScope :: "Options \<Rightarrow> tokenScope" where
  "wantedScope opts =
     (if op_TrustID opts \<noteq> [] then TrustScoped (op_TrustID opts)
      else if op_SystemScope opts \<noteq> [] then SystemScoped
      else if op_ProjectID opts \<noteq> [] then ProjectIDScoped (op_ProjectID opts)
      else if op_ProjectName opts \<noteq> [] then
        ProjectNameScoped (op_ProjectName opts) (qualify opts [projectDomain opts, userDomain opts, scopeDomain opts])
      else if \<not> domainEmpty (scopeDomain opts) then DomainScoped (scopeDomain opts)
      else Unscoped)"

lemma domain_record: "(d :: domainRef) = \<lparr>dr_ID = i, dr_Name = n\<rparr> \<longleftrightarrow> dr_ID d = i \<and> dr_Name d = n"
  by (cases d) simp

lemma domainEmpty_empty [simp]: "domainEmpty emptyDomain"
  by (simp add: domainEmpty_def emptyDomain_def)

lemma firstDomain_empty [simp]: "domainEmpty (firstDomain ds) \<longleftrightarrow> list_all domainEmpty ds"
  by (induction ds) (auto simp: domainEmpty_def emptyDomain_def)

lemma applyDomainScope_domain:
  "ao_DomainID (applyDomainScope opts ao) = (let d = firstDomain [userDomain opts, scopeDomain opts, projectDomain opts] in
     if domainEmpty d then ao_DomainID ao else dr_ID d)"
  "ao_DomainName (applyDomainScope opts ao) = (let d = firstDomain [userDomain opts, scopeDomain opts, projectDomain opts] in
     if domainEmpty d then ao_DomainName ao else dr_Name d)"
  by (auto simp: applyDomainScope_def Let_def)

lemma applyDefaultDomain_domain:
  "ao_DomainID (applyDefaultDomain opts ao) =
     (if ao_AppCredID ao = [] \<and> ao_AppCredName ao = [] \<and> ao_Username ao \<noteq> [] \<and> ao_UserID ao = []
         \<and> ao_DomainID ao = [] \<and> ao_DomainName ao = []
      then op_DefaultDomain opts else ao_DomainID ao)"
  "ao_DomainName (applyDefaultDomain opts ao) = ao_DomainName ao"
  by (auto simp: applyDefaultDomain_def Let_def split: option.split)

lemma env_domain:
  assumes "op_Username opts \<noteq> []" "op_UserID opts = []" "op_AppCredID opts = []" "op_AppCredName opts = []"
  shows "\<lparr>dr_ID = ao_DomainID (applyAuthOverrides opts noAuth), dr_Name = ao_DomainName (applyAuthOverrides opts noAuth)\<rparr>
    = qualify opts [userDomain opts, scopeDomain opts, projectDomain opts]"
proof -
  let ?d = "firstDomain [userDomain opts, scopeDomain opts, projectDomain opts]"
  have n: "ao_DomainID noAuth = []" "ao_DomainName noAuth = []" "ao_UserID noAuth = []" "ao_AppCredID noAuth = []" "ao_AppCredName noAuth = []"
    by (simp_all add: noAuth_def)
  show ?thesis
    using assms n
    by (cases "domainEmpty ?d")
      (auto simp: applyAuthOverrides_def applyDefaultDomain_domain applyDomainScope_domain Let_def qualify_def domain_record domainEmpty_def
        simp del: firstDomain.simps firstDomain_empty)
qed

lemma qualify_single: "op_DefaultDomain opts \<noteq> [] \<Longrightarrow> list_all singleDomain ds \<Longrightarrow>
    singleDomain (qualify opts ds) \<and> \<not> domainEmpty (qualify opts ds)"
  using firstDomain_single [of ds] by (auto simp: qualify_def Let_def singleDomain_def domainEmpty_def simp del: firstDomain_empty)

lemma env_user_qualified:
  assumes "op_Username opts \<noteq> []" "op_UserID opts = []" "op_AppCredID opts = []" "op_AppCredName opts = []" "op_DefaultDomain opts \<noteq> []"
  shows "userRequest (applyAuthOverrides opts noAuth)
    = Some (UserByName (op_Username opts) (qualify opts [userDomain opts, scopeDomain opts, projectDomain opts]))"
proof -
  let ?q = "qualify opts [userDomain opts, scopeDomain opts, projectDomain opts]"
  have q: "dr_ID ?q = ao_DomainID (applyAuthOverrides opts noAuth)" "dr_Name ?q = ao_DomainName (applyAuthOverrides opts noAuth)"
    using env_domain [OF assms(1-4)] by (metis domainRef.select_convs)+
  have "singleDomain ?q \<and> \<not> domainEmpty ?q" by (rule qualify_single) (use assms(5) in simp_all)
  then show ?thesis using assms q [symmetric]
    by (auto simp: userRequest_def singleDomain_def domainEmpty_def noAuth_def)
qed


lemma applyDomainScope_scope:
  "ao_Scope (applyDomainScope opts ao) =
     (if domainEmpty (userDomain opts) \<and> domainEmpty (projectDomain opts) \<and> domainEmpty (scopeDomain opts) then ao_Scope ao
      else if firstNonEmpty [op_ProjectID opts, ao_TenantID ao] \<noteq> []
        then Some (noScope\<lparr>as_ProjectID := firstNonEmpty [op_ProjectID opts, ao_TenantID ao]\<rparr>)
      else if firstNonEmpty [op_ProjectName opts, ao_TenantName ao] \<noteq> []
        then Some (noScope\<lparr>as_ProjectName := firstNonEmpty [op_ProjectName opts, ao_TenantName ao],
          as_DomainID := dr_ID (firstDomain [projectDomain opts, userDomain opts, scopeDomain opts]),
          as_DomainName := dr_Name (firstDomain [projectDomain opts, userDomain opts, scopeDomain opts])\<rparr>)
      else if \<not> domainEmpty (scopeDomain opts)
        then Some (noScope\<lparr>as_DomainID := dr_ID (scopeDomain opts), as_DomainName := dr_Name (scopeDomain opts)\<rparr>)
      else ao_Scope ao)"
  by (simp add: applyDomainScope_def Let_def del: firstDomain.simps firstNonEmpty.simps)

lemma applyDefaultDomain_scope:
  "op_DefaultDomain opts \<noteq> [] \<Longrightarrow> ao_AppCredID ao = [] \<Longrightarrow> ao_AppCredName ao = [] \<Longrightarrow>
   ao_Scope (applyDefaultDomain opts ao) =
     map_option (\<lambda>s. if as_ProjectName s \<noteq> [] \<and> as_ProjectID s = [] \<and> as_DomainID s = [] \<and> as_DomainName s = []
       then s\<lparr>as_DomainID := op_DefaultDomain opts\<rparr> else s) (ao_Scope ao)"
  by (simp add: applyDefaultDomain_def Let_def split: option.split)

text \<open>The scope object the environment alone produces, and the tenant it leaves beside it.\<close>

lemma env_scope_object:
  assumes "op_AppCredID opts = []" "op_AppCredName opts = []" "op_DefaultDomain opts \<noteq> []"
  shows "ao_Scope (applyAuthOverrides opts noAuth) =
    (if op_TrustID opts \<noteq> [] then Some (noScope\<lparr>as_TrustID := op_TrustID opts\<rparr>)
     else if op_SystemScope opts \<noteq> [] then Some (noScope\<lparr>as_System := True\<rparr>)
     else if domainEmpty (userDomain opts) \<and> domainEmpty (projectDomain opts) \<and> domainEmpty (scopeDomain opts) then None
     else if op_ProjectID opts \<noteq> [] then Some (noScope\<lparr>as_ProjectID := op_ProjectID opts\<rparr>)
     else if op_ProjectName opts \<noteq> []
       then Some (noScope\<lparr>as_ProjectName := op_ProjectName opts,
          as_DomainID := dr_ID (qualify opts [projectDomain opts, userDomain opts, scopeDomain opts]),
          as_DomainName := dr_Name (qualify opts [projectDomain opts, userDomain opts, scopeDomain opts])\<rparr>)
     else if \<not> domainEmpty (scopeDomain opts)
       then Some (noScope\<lparr>as_DomainID := dr_ID (scopeDomain opts), as_DomainName := dr_Name (scopeDomain opts)\<rparr>)
     else None)"
proof -
  have base: "ao_Scope (applyProjectScope opts (applyFields opts noAuth)) = None"
    by (simp add: applyProjectScope_def noAuth_def)
  have t: "ao_TenantID (applyProjectScope opts (applyFields opts noAuth)) = op_ProjectID opts"
    "ao_TenantName (applyProjectScope opts (applyFields opts noAuth)) = op_ProjectName opts"
    by (simp_all add: noAuth_def)
  have q: "dr_ID (firstDomain ds) = [] \<and> dr_Name (firstDomain ds) = [] \<longleftrightarrow> list_all domainEmpty ds" for ds
    using firstDomain_empty [of ds] unfolding domainEmpty_def .
  let ?m = "applyDomainScope opts (applyProjectScope opts (applyFields opts noAuth))"
  have d: "ao_Scope ?m =
     (if domainEmpty (userDomain opts) \<and> domainEmpty (projectDomain opts) \<and> domainEmpty (scopeDomain opts) then None
     else if op_ProjectID opts \<noteq> [] then Some (noScope\<lparr>as_ProjectID := op_ProjectID opts\<rparr>)
     else if op_ProjectName opts \<noteq> []
       then Some (noScope\<lparr>as_ProjectName := op_ProjectName opts,
          as_DomainID := dr_ID (firstDomain [projectDomain opts, userDomain opts, scopeDomain opts]),
          as_DomainName := dr_Name (firstDomain [projectDomain opts, userDomain opts, scopeDomain opts])\<rparr>)
     else if \<not> domainEmpty (scopeDomain opts)
       then Some (noScope\<lparr>as_DomainID := dr_ID (scopeDomain opts), as_DomainName := dr_Name (scopeDomain opts)\<rparr>)
     else None)"
    unfolding applyDomainScope_scope base t by simp
  have creds: "ao_AppCredID (applyTrustScope opts (applySystemScope opts ?m)) = []" "ao_AppCredName (applyTrustScope opts (applySystemScope opts ?m)) = []"
    using assms by (simp_all add: noAuth_def)
  show ?thesis
    unfolding applyAuthOverrides_def applyDefaultDomain_scope [OF assms(3) creds]
    using q [of "[projectDomain opts, userDomain opts, scopeDomain opts]"] q [of "[scopeDomain opts]"]
    by (auto simp: applyTrustScope_def applySystemScope_def d qualify_def Let_def noScope_def simp del: firstDomain.simps)
qed


lemma scope_domains:
  assumes "singleDomain d" "\<not> domainEmpty d"
  shows "dr_ID d = [] \<Longrightarrow> dr_Name d \<noteq> []" "dr_ID d \<noteq> [] \<Longrightarrow> dr_Name d = []"
  using assms by (auto simp: singleDomain_def domainEmpty_def)

lemma env_tenant:
  "op_TrustID opts = [] \<Longrightarrow> op_SystemScope opts = [] \<Longrightarrow>
     ao_TenantID (applyAuthOverrides opts noAuth) = op_ProjectID opts \<and> ao_TenantName (applyAuthOverrides opts noAuth) = op_ProjectName opts"
  by (simp add: applyAuthOverrides_def applyTrustScope_def applySystemScope_def noAuth_def)

lemma scopeRequest_object:
  assumes "ao_AppCredID ao = []" "ao_AppCredName ao = []"
  shows "ao_Scope ao = Some (noScope\<lparr>as_TrustID := t\<rparr>) \<Longrightarrow> t \<noteq> [] \<Longrightarrow> scopeRequest ao = Some (TrustScoped t)"
    and "ao_Scope ao = Some (noScope\<lparr>as_System := True\<rparr>) \<Longrightarrow> scopeRequest ao = Some SystemScoped"
    and "ao_Scope ao = Some (noScope\<lparr>as_ProjectID := i\<rparr>) \<Longrightarrow> i \<noteq> [] \<Longrightarrow> scopeRequest ao = Some (ProjectIDScoped i)"
    and "ao_Scope ao = Some (noScope\<lparr>as_ProjectName := n, as_DomainID := dr_ID d, as_DomainName := dr_Name d\<rparr>) \<Longrightarrow> n \<noteq> [] \<Longrightarrow>
      singleDomain d \<Longrightarrow> \<not> domainEmpty d \<Longrightarrow> scopeRequest ao = Some (ProjectNameScoped n d)"
    and "ao_Scope ao = Some (noScope\<lparr>as_DomainID := dr_ID d, as_DomainName := dr_Name d\<rparr>) \<Longrightarrow>
      singleDomain d \<Longrightarrow> \<not> domainEmpty d \<Longrightarrow> scopeRequest ao = Some (DomainScoped d)"
  using assms by (auto simp: scopeRequest_def scopeObject_def scopeMap_def noScope_def Let_def singleDomain_def domainEmpty_def)

lemma env_scope_wanted:
  assumes "op_Username opts \<noteq> []" "op_UserID opts = []" and app: "op_AppCredID opts = []" "op_AppCredName opts = []"
    and def: "op_DefaultDomain opts \<noteq> []"
  shows "scopeRequest (applyAuthOverrides opts noAuth) = Some (wantedScope opts)"
proof -
  let ?ao = "applyAuthOverrides opts noAuth"
  note obj = env_scope_object [OF app def]
  have creds: "ao_AppCredID ?ao = []" "ao_AppCredName ?ao = []" using app by (simp_all add: noAuth_def)
  note req = scopeRequest_object [OF creds]
  have q: "singleDomain (qualify opts ds) \<and> \<not> domainEmpty (qualify opts ds)" if "list_all singleDomain ds" for ds
    using qualify_single [OF def that] .
  let ?none = "domainEmpty (userDomain opts) \<and> domainEmpty (projectDomain opts) \<and> domainEmpty (scopeDomain opts)"
  consider "op_TrustID opts \<noteq> []" | "op_TrustID opts = []" "op_SystemScope opts \<noteq> []"
    | "op_TrustID opts = []" "op_SystemScope opts = []" "\<not> ?none" | "op_TrustID opts = []" "op_SystemScope opts = []" "?none" by blast
  then show ?thesis
  proof cases
    case 1
    then show ?thesis using req(1) obj by (simp add: wantedScope_def)
  next
    case 2
    then show ?thesis using req(2) obj by (simp add: wantedScope_def)
  next
    case 3
    note tenant = env_tenant [OF 3(1,2)]
    let ?ds = "[projectDomain opts, userDomain opts, scopeDomain opts]"
    consider "op_ProjectID opts \<noteq> []" | "op_ProjectID opts = []" "op_ProjectName opts \<noteq> []"
      | "op_ProjectID opts = []" "op_ProjectName opts = []" "\<not> domainEmpty (scopeDomain opts)"
      | "op_ProjectID opts = []" "op_ProjectName opts = []" "domainEmpty (scopeDomain opts)" by blast
    then show ?thesis
    proof cases
      case 1
      then show ?thesis using 3 obj req(3) by (simp add: wantedScope_def)
    next
      case 2
      then show ?thesis using 3 obj req(4) [where n = "op_ProjectName opts" and d = "qualify opts ?ds"] q [of ?ds] by (simp add: wantedScope_def)
    next
      case 3
      then show ?thesis using \<open>op_TrustID opts = []\<close> \<open>op_SystemScope opts = []\<close> obj req(5) by (simp add: wantedScope_def)
    next
      case 4
      then have "ao_Scope ?ao = None" using 3 obj by simp
      then show ?thesis using 3 4 tenant creds by (simp add: wantedScope_def scopeRequest_def scopeObject_def scopeMap_def noScope_def)
    qed
  next
    case 4
    note tenant = env_tenant [OF 4(1,2)]
    have dom: "ao_DomainID ?ao = op_DefaultDomain opts" "ao_DomainName ?ao = []"
      using env_domain [OF assms(1,2) app] 4(3) by (simp_all add: qualify_def)
    show ?thesis
      using 4 obj tenant creds dom def
      by (auto simp: wantedScope_def scopeRequest_def scopeObject_def scopeMap_def noScope_def qualify_def Let_def)
  qed
qed


lemmas authTypes = authTypePassword_def authTypeToken_def authTypeAppCred_def authTypeTOTP_def authTypeMFA_def
  authTypeNone_def authTypeAdminToken_def authTypeHTTPBasic_def

text \<open>What the settled auth type leaves of the options, type by type.\<close>

lemma applyAuthType_cases:
  assumes "applyAuthType opts c ao0 = Inr (kind, ao)"
  obtains (inferred) "kind = []" "ao = ao0\<lparr>ao_Passcode := [], ao_TokenID := []\<rparr>"
  | (token) a where "kind = authTypeToken" "ao = tokenAuth a" "ao_TokenID a \<noteq> []" "ao_Passcode a = []"
  | (password) "kind = authTypePassword" "ao = clearAppCred (clearToken (ao0\<lparr>ao_Passcode := []\<rparr>))"
  | (appCred) "kind = authTypeAppCred" "ao = (clearToken (ao0\<lparr>ao_Passcode := []\<rparr>))\<lparr>ao_Password := []\<rparr>"
      "ao_AppCredID ao0 \<noteq> [] \<or> ao_AppCredName ao0 \<noteq> []"
  | (totp) "kind = authTypeTOTP" "ao = (clearAppCred (clearToken ao0))\<lparr>ao_Password := []\<rparr>" "ao_Passcode ao0 \<noteq> []"
      "ao_Username ao0 \<noteq> [] \<or> ao_UserID ao0 \<noteq> []"
  | (mfa) "kind = authTypeMFA" "ao = clearAppCred (clearToken ao0)" "ao_Passcode ao0 \<noteq> []" "ao_Username ao0 \<noteq> [] \<or> ao_UserID ao0 \<noteq> []"
  | (keystoneless) "keystoneless kind" "ao = ao0\<lparr>ao_Passcode := []\<rparr>"
proof -
  from assms obtain t where t: "canonicalAuthType (firstNonEmpty [op_AuthType opts, c]) = Inr t"
    by (auto simp: applyAuthType_def split: sum.splits)
  have ts: "t \<in> {[], authTypePassword, authTypeToken, authTypeAppCred, authTypeTOTP, authTypeMFA, authTypeNone, authTypeAdminToken, authTypeHTTPBasic}"
    using t by (auto simp: canonicalAuthType_def Let_def split: if_splits)
  have self: "ao0\<lparr>ao_Passcode := [], ao_TokenID := []\<rparr> = ao0\<lparr>ao_Passcode := []\<rparr>" if "ao_TokenID ao0 = []"
    using that by (cases ao0) simp
  have run: "applyAuthType opts c ao0 = Inr (kind, ao)" "canonicalAuthType (firstNonEmpty [op_AuthType opts, c]) = Inr t" by fact+
  note step = run(1) [unfolded applyAuthType_def run(2) sum.case Let_def]
  from ts consider "t = []" | "t = authTypePassword" | "t = authTypeToken" | "t = authTypeAppCred" | "t = authTypeTOTP" | "t = authTypeMFA"
    | "keystoneless t" "t \<in> {authTypeNone, authTypeAdminToken, authTypeHTTPBasic}" by (auto simp: keystoneless_def)
  then show thesis
  proof cases
    case 1
    show thesis
    proof (cases "kind = []")
      case True
      with step 1 self show thesis by (intro inferred) (auto simp: authTypes clearToken_def split: if_splits)
    next
      case False
      with step 1 show thesis by (intro token [of "ao0\<lparr>ao_Passcode := []\<rparr>"]) (auto simp: authTypes split: if_splits)
    qed
  next
    case 2
    with step show thesis by (intro password) (auto simp: authTypes)
  next
    case 3
    with step show thesis
      by (intro token [of "clearAppCred (ao0\<lparr>ao_Passcode := []\<rparr>)"]) (auto simp: authTypes clearAppCred_def split: if_splits)
  next
    case 4
    with step show thesis by (intro appCred) (auto simp: authTypes split: if_splits)
  next
    case 5
    with step show thesis by (intro totp) (auto simp: authTypes split: if_splits)
  next
    case 6
    with step show thesis by (intro mfa) (auto simp: authTypes split: if_splits)
  next
    case 7
    with step show thesis by (intro keystoneless) (auto simp: authTypes split: if_splits)
  qed
qed

lemma tokenAuth_request: "ao_TokenID a \<noteq> [] \<Longrightarrow> ao_Passcode a = [] \<Longrightarrow> tokenRequest (tokenAuth a) = Some ([''token''], NoUser)"
  by (simp add: tokenRequest_def tokenAuth_def Let_def)

lemma resolveOverrides_settled:
  "resolveOverrides w opts (ao0, eo0, tls0, extra) = Inr (opts', ao, eo, tls) \<Longrightarrow>
   applyAuthType opts (ce_authType extra) ((applyAuthOverrides opts ao0)\<lparr>ao_Passcode := firstNonEmpty [op_Passcode opts, ce_passcode extra]\<rparr>)
     = Inr (op_authKind opts', ao)"
  by (auto simp: resolveOverrides_def Let_def simp del: firstNonEmpty.simps split: sum.splits if_splits prod.splits)

definition methodsOf :: "gostring \<Rightarrow> gostring list list" where
  "methodsOf kind =
     (if kind = authTypeToken then [[''token'']]
      else if kind = authTypePassword then [[''password'']]
      else if kind = authTypeAppCred then [[''application_credential'']]
      else if kind = authTypeTOTP then [[''totp'']]
      else if kind = authTypeMFA then [[''password'', ''totp''], [''totp'']]
      else [[''password''], [''application_credential'']])"

text \<open>
  C8. Whatever mixture of flags, variables and cloud settings supplied the credentials, the token
  request uses the method of the settled auth type and no other: a leftover token, passcode,
  password or application credential of another method is never sent in its place, and a token
  request is always one gophercloud accepts.
\<close>

theorem request_uses_settled_method:
  assumes "resolveOverrides w opts b = Inr (opts', ao, eo, tls)" and "\<not> keystoneless (op_authKind opts')"
  shows "(case tokenRequest ao of None \<Rightarrow> op_authKind opts' \<noteq> authTypeToken | Some (ms, u) \<Rightarrow> ms \<in> set (methodsOf (op_authKind opts')))
    \<and> (op_authKind opts' \<noteq> authTypeToken \<longrightarrow> ao_TokenID ao = [])"
proof -
  obtain ao0 eo0 tls0 extra where b: "b = (ao0, eo0, tls0, extra)" by (cases b) auto
  note defs = methodsOf_def tokenRequest_def authTypes clearToken_def clearAppCred_def
  show ?thesis
  proof (cases rule: applyAuthType_cases [OF resolveOverrides_settled [OF assms(1) [unfolded b]], case_names inferred token password appCred totp mfa keystoneless])
    case (token a)
    then show ?thesis by (simp add: tokenAuth_request methodsOf_def)
  next
    case keystoneless
    then show ?thesis using assms(2) by simp
  qed (auto simp: defs split: option.split if_splits)
qed


lemma resolveOverrides_cloud: "resolveOverrides w opts b = Inr (opts', ao, eo, tls) \<Longrightarrow> op_Cloud opts' = op_Cloud opts"
  by (auto simp: resolveOverrides_def Let_def simp del: firstNonEmpty.simps split: sum.splits if_splits prod.splits)

lemma selectDefaultCloud_none:
  "selectDefaultCloud w opts = Inr opts1 \<Longrightarrow> op_Cloud opts1 = [] \<Longrightarrow> opts1 = opts"
  by (cases opts) (auto simp: selectDefaultCloud_def split: sum.splits option.splits list.splits if_splits)

text \<open>Without a cloud the options come from the flags and the environment alone.\<close>

lemma resolveAuth_env:
  assumes "resolveAuth w opts = Inr (opts', ao, eo, tls)" and "op_Cloud opts' = []"
  shows "resolveOverrides w opts (noAuth, regionOnly (op_RegionName opts), None, emptyExtra) = Inr (opts', ao, eo, tls)"
proof -
  from assms(1) obtain iface kind opts1 b where
    sel: "(if op_Endpoint opts = [] \<and> \<not> keystoneless kind then selectDefaultCloud w opts else Inr opts) = Inr opts1"
    and b: "resolveBase w opts1 iface kind = Inr b" and run: "resolveOverrides w opts1 b = Inr (opts', ao, eo, tls)"
    unfolding resolveAuth_def by (auto split: sum.splits)
  have none: "op_Cloud opts1 = []" using resolveOverrides_cloud [OF run] assms(2) by simp
  then have "opts1 = opts" using sel selectDefaultCloud_none by (auto split: if_splits)
  moreover have "b = (noAuth, regionOnly (op_RegionName opts1), None, emptyExtra)"
    using b none by (auto simp: resolveBase_def split: if_splits option.splits)
  ultimately show ?thesis using run by simp
qed

lemma scopeObject_cong: "ao_Scope a = ao_Scope b \<Longrightarrow> ao_TenantID a = ao_TenantID b \<Longrightarrow> ao_TenantName a = ao_TenantName b \<Longrightarrow>
    ao_DomainID a = ao_DomainID b \<Longrightarrow> ao_DomainName a = ao_DomainName b \<Longrightarrow> scopeObject a = scopeObject b"
  by (simp only: scopeObject_def)

lemma requests_ignore_secrets [simp]:
  "userRequest (ao\<lparr>ao_Passcode := p\<rparr>) = userRequest ao" "userRequest (ao\<lparr>ao_TokenID := p\<rparr>) = userRequest ao"
  "userRequest (ao\<lparr>ao_Password := p\<rparr>) = userRequest ao" "userRequest (clearAppCred ao) = userRequest ao"
  by (simp_all add: userRequest_def clearAppCred_def)

lemma scopeObject_ignores_secrets [simp]:
  "scopeObject (ao\<lparr>ao_Passcode := p\<rparr>) = scopeObject ao" "scopeObject (ao\<lparr>ao_TokenID := p\<rparr>) = scopeObject ao"
  "scopeObject (ao\<lparr>ao_Password := p\<rparr>) = scopeObject ao" "scopeObject (clearAppCred ao) = scopeObject ao"
  by (rule scopeObject_cong; simp add: clearAppCred_def)+

lemma clearAppCred_none: "ao_AppCredID ao = [] \<Longrightarrow> ao_AppCredName ao = [] \<Longrightarrow> scopeRequest (clearAppCred ao) = scopeRequest ao"
  by (simp add: scopeRequest_def) (simp add: clearAppCred_def)

text \<open>
  C7. Without a named cloud, a user named by name is sent with exactly one domain, the user's own
  before the scope's before the project's before the default one; the token is scoped to the trust,
  the system, the project ID, the project name in its domain, or the domain, in this order of
  preference; and the password is the one the flags or the environment gave.
\<close>

theorem env_user_and_scope_precedence:
  assumes "resolveAuth w opts = Inr (opts', ao, eo, tls)" and "op_Cloud opts' = []"
    and "op_Username opts \<noteq> []" and "op_UserID opts = []" and "op_AppCredID opts = []" and "op_AppCredName opts = []"
    and "op_DefaultDomain opts \<noteq> []" and "op_authKind opts' \<in> {[], authTypePassword, authTypeTOTP, authTypeMFA}"
  shows "userRequest ao = Some (UserByName (op_Username opts) (qualify opts [userDomain opts, scopeDomain opts, projectDomain opts]))
    \<and> singleDomain (qualify opts [userDomain opts, scopeDomain opts, projectDomain opts])
    \<and> scopeRequest ao = Some (wantedScope opts)
    \<and> ao_Password ao = (if op_authKind opts' = authTypeTOTP then [] else op_Password opts)"
proof -
  note settled = resolveOverrides_settled [OF resolveAuth_env [OF assms(1,2)]]
  let ?ao = "applyAuthOverrides opts noAuth"
  have u: "userRequest ?ao = Some (UserByName (op_Username opts) (qualify opts [userDomain opts, scopeDomain opts, projectDomain opts]))"
    by (rule env_user_qualified) (use assms in simp_all)
  have s: "scopeRequest ?ao = Some (wantedScope opts)" by (rule env_scope_wanted) (use assms in simp_all)
  have q: "singleDomain (qualify opts [userDomain opts, scopeDomain opts, projectDomain opts])"
    by (rule conjunct1 [OF qualify_single]) (use assms in simp_all)
  have app: "ao_AppCredID ?ao = []" "ao_AppCredName ?ao = []" and pw: "ao_Password ?ao = op_Password opts"
    using assms by (simp_all add: noAuth_def)
  show ?thesis
  proof (cases rule: applyAuthType_cases [OF settled, case_names inferred token password appCred totp mfa keystoneless])
    case keystoneless
    then show ?thesis using assms(8) by (auto simp: keystoneless_def authTypes)
  qed (use assms(8) u s q app pw in \<open>auto simp: authTypes clearToken_def scopeRequest_def, (auto simp: clearAppCred_def)?\<close>)
qed


section \<open>Where the resolution surprises\<close>

lemma applyDefaultDomain_keeps:
  "ao_Scope ao = Some s \<Longrightarrow> as_ProjectName s = [] \<Longrightarrow> ao_Scope (applyDefaultDomain opts ao) = Some s"
  by (auto simp: applyDefaultDomain_def Let_def)

text \<open>
  A project named on the command line or in the environment is ignored when a domain is given
  too and the cloud entry carries a project ID: the token is scoped to the cloud's project.
\<close>

lemma cloud_project_id_beats_named_project:
  assumes "op_ProjectName opts \<noteq> []" and "op_ProjectID opts = []" and "op_TrustID opts = []" and "op_SystemScope opts = []"
    and "\<not> domainEmpty (projectDomain opts)" and "ao_TenantID ao0 \<noteq> []"
    and "ao_AppCredID (applyFields opts ao0) = []" and "ao_AppCredName (applyFields opts ao0) = []"
  shows "scopeRequest (applyAuthOverrides opts ao0) = Some (ProjectIDScoped (ao_TenantID ao0))"
proof -
  let ?m = "applyDomainScope opts (applyProjectScope opts (applyFields opts ao0))"
  have "ao_Scope ?m = Some (noScope\<lparr>as_ProjectID := ao_TenantID ao0\<rparr>)"
    using assms(2,5,6) by (simp add: applyDomainScope_scope)
  then have "ao_Scope (applyAuthOverrides opts ao0) = Some (noScope\<lparr>as_ProjectID := ao_TenantID ao0\<rparr>)"
    using assms(3,4) unfolding applyAuthOverrides_def
    by (intro applyDefaultDomain_keeps) (simp_all add: applyTrustScope_def applySystemScope_def noScope_def)
  moreover have creds: "ao_AppCredID (applyAuthOverrides opts ao0) = []" "ao_AppCredName (applyAuthOverrides opts ao0) = []"
    using assms(7,8) by (simp_all only: applyAuthOverrides_frame)
  ultimately show ?thesis using scopeRequest_object(3) [OF creds] assms(6) by blast
qed

text \<open>
  Without a named cloud, a user given by ID cannot get a token for a project given by name: with
  any domain option the user's request carries a domain and is refused, without one the project has
  none and the scope is refused.
\<close>

lemma user_id_with_project_name_is_refused:
  assumes "resolveAuth w opts = Inr (opts', ao, eo, tls)" and "op_Cloud opts' = []"
    and "op_Username opts = []" and "op_UserID opts \<noteq> []" and "op_AppCredID opts = []" and "op_AppCredName opts = []"
    and "op_ProjectName opts \<noteq> []" and "op_ProjectID opts = []" and "op_TrustID opts = []" and "op_SystemScope opts = []"
    and "op_authKind opts' \<in> {[], authTypePassword}"
  shows "tokenRequest ao = None \<or> scopeRequest ao = None"
proof -
  note settled = resolveOverrides_settled [OF resolveAuth_env [OF assms(1,2)]]
  let ?ao = "applyAuthOverrides opts noAuth"
  let ?none = "domainEmpty (userDomain opts) \<and> domainEmpty (projectDomain opts) \<and> domainEmpty (scopeDomain opts)"
  have id: "ao_UserID ?ao = op_UserID opts" "ao_Username ?ao = []" "ao_AppCredID ?ao = []" "ao_AppCredName ?ao = []"
    using assms by (simp_all add: noAuth_def)
  have dom: "(ao_DomainID ?ao = [] \<and> ao_DomainName ?ao = []) = ?none"
    using assms(3) firstDomain_empty [of "[userDomain opts, scopeDomain opts, projectDomain opts]"]
    by (auto simp: applyAuthOverrides_def applyDefaultDomain_domain applyDomainScope_domain Let_def noAuth_def domainEmpty_def
        simp del: firstDomain.simps firstDomain_empty)
  have "userRequest ?ao = None \<or> scopeMap (scopeObject ?ao) = None"
  proof (cases ?none)
    case True
    have "ao_Scope (applyDomainScope opts (applyProjectScope opts (applyFields opts noAuth))) = None"
      using True by (simp add: applyDomainScope_scope applyProjectScope_def noAuth_def)
    then have "ao_Scope ?ao = None"
      using assms(9,10) by (simp add: applyAuthOverrides_def applyDefaultDomain_def applyTrustScope_def applySystemScope_def Let_def)
    then have "scopeMap (scopeObject ?ao) = None"
      using True dom env_tenant [OF assms(9,10)] assms(7,8) by (simp add: scopeObject_def scopeMap_def noScope_def)
    then show ?thesis ..
  next
    case False
    then show ?thesis using dom id assms(4) by (auto simp: userRequest_def)
  qed
  then show ?thesis
  proof (cases rule: applyAuthType_cases [OF settled, case_names inferred token password appCred totp mfa keystoneless])
    case inferred
    then show ?thesis using \<open>userRequest ?ao = None \<or> _\<close> id by (auto simp: tokenRequest_def scopeRequest_def)
  next
    case password
    then show ?thesis using \<open>userRequest ?ao = None \<or> _\<close> id
      by (auto simp: tokenRequest_def scopeRequest_def clearToken_def) (simp_all add: clearAppCred_def)
  qed (use assms(11) in \<open>auto simp: authTypes keystoneless_def\<close>)
qed

text \<open>An application credential given beside a password is not used, and its presence keeps the password's token from being scoped.\<close>

lemma password_hides_app_credential:
  assumes "applyAuthType opts c ao0 = Inr ([], ao)" and "ao_Password ao0 \<noteq> []" and "ao_AppCredID ao0 \<noteq> []" and "userRequest ao0 = Some u"
  shows "tokenRequest ao = Some ([''password''], u) \<and> scopeRequest ao = Some Unscoped"
proof (cases rule: applyAuthType_cases [OF assms(1), case_names inferred token password appCred totp mfa keystoneless])
  case inferred
  then show ?thesis using assms(2-4) by (simp add: tokenRequest_def scopeRequest_def)
qed (simp_all add: authTypes keystoneless_def)


section \<open>Witnesses\<close>

definition sampleWorld :: authWorld where
  "sampleWorld = \<lparr>w_env = [], w_clouds = Inr None, w_parse = (\<lambda>_ _ _. None), w_prompt = None, w_stdin = None\<rparr>"

definition sampleToken :: Options where
  "sampleToken = sampleOptions\<lparr>op_AuthType := ''token'', op_Token := ''t0'', op_Username := ''ann'', op_Password := ''pw'', op_ProjectID := ''p1''\<rparr>"

definition sampleUser :: Options where
  "sampleUser = sampleOptions\<lparr>op_AuthURL := ''u'', op_Username := ''ann'', op_Password := ''pw'', op_ProjectName := ''demo'', op_ProjectDomainName := ''corp''\<rparr>"

definition sampleUserID :: Options where
  "sampleUserID = sampleOptions\<lparr>op_AuthURL := ''u'', op_UserID := ''u-1'', op_Password := ''pw'', op_ProjectName := ''demo''\<rparr>"

lemmas resolve_eval = resolveOverrides_def applyAuthType_def canonicalAuthType_def applyAuthOverrides_def applyFields_def setAuth_def
  applyProjectScope_def applyDomainScope_def applySystemScope_def applyTrustScope_def applyDefaultDomain_def userDomain_def projectDomain_def
  scopeDomain_def domainOption_def domainEmpty_def emptyDomain_def Let_def noAuth_def noScope_def emptyExtra_def authTypes keystoneless_def

lemma lowerWord_token [simp]: "lowerWord ''token'' = ''token''" "lowerWord [] = []"
  by (simp_all add: lowerWord_plain lowerPlain_def byte_def)

lemma request_uses_settled_method_witness:
  "\<exists>opts' ao eo tls. resolveOverrides sampleWorld sampleToken (noAuth, regionOnly [], None, emptyExtra) = Inr (opts', ao, eo, tls)
     \<and> op_authKind opts' = ''token'' \<and> tokenRequest ao \<noteq> None"
proof -
  obtain opts' ao eo tls where r: "resolveOverrides sampleWorld sampleToken (noAuth, regionOnly [], None, emptyExtra) = Inr (opts', ao, eo, tls)"
    and k: "op_authKind opts' = ''token''"
    by (simp add: resolve_eval sampleToken_def replaceByte_def)
  have "\<not> keystoneless (op_authKind opts')" using k by (simp add: keystoneless_def authTypes)
  from request_uses_settled_method [OF r this] have "tokenRequest ao \<noteq> None" using k by (auto simp: authTypes split: option.splits)
  with r k show ?thesis by blast
qed

lemma sampleUser_resolves:
  "\<exists>opts' ao eo tls. resolveAuth sampleWorld sampleUser = Inr (opts', ao, eo, tls) \<and> op_Cloud opts' = [] \<and> op_authKind opts' = []"
  by (simp add: resolveAuth_def normalizeInterface_def selectDefaultCloud_def resolveBase_def envCredentials_def resolve_eval sampleUser_def
      replaceByte_def)

lemma sampleUserID_resolves:
  "\<exists>opts' ao eo tls. resolveAuth sampleWorld sampleUserID = Inr (opts', ao, eo, tls) \<and> op_Cloud opts' = [] \<and> op_authKind opts' = []"
  by (simp add: resolveAuth_def normalizeInterface_def selectDefaultCloud_def resolveBase_def envCredentials_def resolve_eval sampleUserID_def
      replaceByte_def)

lemma env_user_and_scope_precedence_witness:
  "\<exists>opts' ao eo tls. resolveAuth sampleWorld sampleUser = Inr (opts', ao, eo, tls)
     \<and> scopeRequest ao = Some (ProjectNameScoped ''demo'' \<lparr>dr_ID = [], dr_Name = ''corp''\<rparr>)"
proof -
  obtain opts' ao eo tls where r: "resolveAuth sampleWorld sampleUser = Inr (opts', ao, eo, tls)" "op_Cloud opts' = []" "op_authKind opts' = []"
    using sampleUser_resolves by blast
  have w: "wantedScope sampleUser = ProjectNameScoped ''demo'' \<lparr>dr_ID = [], dr_Name = ''corp''\<rparr>"
    by (simp add: wantedScope_def sampleUser_def qualify_def projectDomain_def userDomain_def domainOption_def domainEmpty_def)
  have "scopeRequest ao = Some (wantedScope sampleUser)"
    using env_user_and_scope_precedence [OF r(1,2)] r(3) by (simp add: sampleUser_def)
  with r(1) w show ?thesis by auto
qed

lemma cloud_project_id_beats_named_project_witness:
  "scopeRequest (applyAuthOverrides sampleUser (noAuth\<lparr>ao_TenantID := ''cloud-project'', ao_Scope := Some (noScope\<lparr>as_ProjectID := ''cloud-project''\<rparr>)\<rparr>))
     = Some (ProjectIDScoped ''cloud-project'')"
  using cloud_project_id_beats_named_project [of sampleUser
      "noAuth\<lparr>ao_TenantID := ''cloud-project'', ao_Scope := Some (noScope\<lparr>as_ProjectID := ''cloud-project''\<rparr>)\<rparr>"]
  by (simp add: sampleUser_def projectDomain_def domainOption_def domainEmpty_def noAuth_def)

lemma user_id_with_project_name_is_refused_witness:
  "\<exists>opts' ao eo tls. resolveAuth sampleWorld sampleUserID = Inr (opts', ao, eo, tls)
     \<and> (tokenRequest ao = None \<or> scopeRequest ao = None)"
proof -
  obtain opts' ao eo tls where r: "resolveAuth sampleWorld sampleUserID = Inr (opts', ao, eo, tls)" "op_Cloud opts' = []" "op_authKind opts' = []"
    using sampleUserID_resolves by blast
  have "tokenRequest ao = None \<or> scopeRequest ao = None"
    using user_id_with_project_name_is_refused [OF r(1,2)] r(3) by (simp add: sampleUserID_def)
  with r(1) show ?thesis by blast
qed

end
