(* ===== verification/Auth_Scope.thy ===== *)
theory Auth_Scope
  imports Auth_Precedence
begin

text \<open>
  Scope files: \<^verbatim>\<open>internal/auth/scopefile.go\<close> and \<^verbatim>\<open>internal/cli/shell/scope.go\<close>. A host hands koc the signed-in user's
  token and project in a file that is read again before every line of the shell. The JSON decoder, the
  hash and what \<^verbatim>\<open>stat\<close> and reading the file give at each line are arguments. Instants are integers; the
  zero time is \<^const>\<open>None\<close>.
\<close>

section \<open>The file\<close>

record ScopeFile =
  sf_AuthURL :: gostring
  sf_Token :: gostring
  sf_Region :: gostring
  sf_ProjectID :: gostring
  sf_ProjectName :: gostring
  sf_UserName :: gostring
  sf_ExpiresAt :: "int option"
  sf_CACert :: gostring

datatype scopeErr = ScopeStat | ScopeRead | ScopeJSON | ScopeMissing "gostring list" | ScopeUnread

definition ParseScopeFile :: "(gostring \<Rightarrow> ScopeFile option) \<Rightarrow> gostring \<Rightarrow> scopeErr + ScopeFile" where
  "ParseScopeFile decode raw =
     (case decode raw of
        None \<Rightarrow> Inl ScopeJSON
      | Some sf \<Rightarrow>
          let missing = map fst (filter (\<lambda>f. trimSpace (snd f) = [])
                [(''auth_url'', sf_AuthURL sf), (''token'', sf_Token sf), (''project_id'', sf_ProjectID sf)])
              @ (if sf_ExpiresAt sf = None then [''expires_at''] else [])
          in if missing \<noteq> [] then Inl (ScopeMissing missing) else Inr sf)"

definition Expired :: "ScopeFile \<Rightarrow> int \<Rightarrow> bool" where
  "Expired sf now \<longleftrightarrow> (case sf_ExpiresAt sf of None \<Rightarrow> True | Some t \<Rightarrow> \<not> now < t)"

definition scopeClearedFlags :: "gostring list" where
  "scopeClearedFlags =
     [''os-cloud'', ''os-username'', ''os-user-id'', ''os-password'', ''os-passcode'', ''os-project-name'',
      ''os-project-domain-name'', ''os-project-domain-id'', ''os-user-domain-name'', ''os-user-domain-id'',
      ''os-domain-name'', ''os-domain-id'', ''os-system-scope'', ''os-trust-id'', ''os-endpoint'',
      ''os-application-credential-id'', ''os-application-credential-name'', ''os-application-credential-secret'',
      ''os-cert'', ''os-key'']"

definition FlagValues :: "ScopeFile \<Rightarrow> (gostring \<times> gostring) list" where
  "FlagValues sf =
     [(''os-auth-type'', authTypeToken), (''os-auth-url'', sf_AuthURL sf), (''os-token'', sf_Token sf),
      (''os-region-name'', sf_Region sf), (''os-project-id'', sf_ProjectID sf), (''os-cacert'', sf_CACert sf)]
     @ map (\<lambda>name. (name, [])) scopeClearedFlags"

text \<open>The values are set without marking the flags as changed.\<close>

definition applyScope :: "ScopeFile \<Rightarrow> Options \<Rightarrow> Options" where
  "applyScope sf opts = fold (\<lambda>fv. setField (fst fv) (snd fv)) (FlagValues sf) opts"

section \<open>The file between lines\<close>

record scopeTracker =
  st_modTime :: int
  st_size :: int
  st_sum :: gostring
  st_current :: "ScopeFile option"
  st_err :: "scopeErr option"
  st_loaded :: bool

definition newScopeFile :: scopeTracker where
  "newScopeFile = \<lparr>st_modTime = 0, st_size = 0, st_sum = [], st_current = None, st_err = None, st_loaded = False\<rparr>"

text \<open>\<open>stat\<close> is the modification time and size, \<open>raw\<close> the content a read gives; \<^const>\<open>None\<close> is the error of either.\<close>

definition scopeRefresh :: "(gostring \<Rightarrow> gostring) \<Rightarrow> (gostring \<Rightarrow> ScopeFile option) \<Rightarrow> (int \<times> int) option \<Rightarrow> gostring option \<Rightarrow>
    scopeTracker \<Rightarrow> bool \<times> scopeTracker" where
  "scopeRefresh sha decode stat raw f =
     (case stat of
        None \<Rightarrow> (False, f\<lparr>st_err := Some ScopeStat\<rparr>)
      | Some (mt, sz) \<Rightarrow>
          if st_loaded f \<and> st_err f = None \<and> mt = st_modTime f \<and> sz = st_size f then (False, f)
          else case raw of
              None \<Rightarrow> (False, f\<lparr>st_err := Some ScopeRead\<rparr>)
            | Some content \<Rightarrow>
                let f1 = f\<lparr>st_modTime := mt, st_size := sz\<rparr> in
                if st_loaded f1 \<and> st_err f1 = None \<and> sha content = st_sum f1 then (False, f1)
                else case ParseScopeFile decode content of
                    Inl e \<Rightarrow> (False, f1\<lparr>st_err := Some e\<rparr>)
                  | Inr sf \<Rightarrow>
                      ((case st_current f1 of
                          None \<Rightarrow> False
                        | Some prev \<Rightarrow> sf_Region prev \<noteq> sf_Region sf \<or> sf_ProjectID prev \<noteq> sf_ProjectID sf),
                       f1\<lparr>st_sum := sha content, st_current := Some sf, st_err := None, st_loaded := True\<rparr>))"

datatype lineVerdict = LineRuns | RefusedScope scopeErr | RefusedExpired

definition checkLine :: "scopeTracker \<Rightarrow> int \<Rightarrow> lineVerdict" where
  "checkLine f now =
     (case st_err f of
        Some e \<Rightarrow> RefusedScope e
      | None \<Rightarrow>
          (case st_current f of
             None \<Rightarrow> RefusedScope ScopeUnread
           | Some sf \<Rightarrow> if Expired sf now then RefusedExpired else LineRuns))"

definition scopeApply :: "scopeTracker \<Rightarrow> Options \<Rightarrow> Options" where
  "scopeApply f opts = (case st_current f of None \<Rightarrow> opts | Some sf \<Rightarrow> applyScope sf opts)"

section \<open>Precedence of flags in the shell\<close>

lemma FlagValues_distinct: "distinct (map fst (FlagValues sf))"
  by (simp add: FlagValues_def scopeClearedFlags_def)

lemma applyScope_field:
  assumes "knownFlag f"
  shows "getField f (applyScope sf opts) = (case map_of (FlagValues sf) f of None \<Rightarrow> getField f opts | Some v \<Rightarrow> v)"
  using opts.fold_puts [OF assms] map_of_rev_distinct [OF FlagValues_distinct] by (simp add: applyScope_def)

lemma applyScope_frame [simp]: "op_fs (applyScope sf opts) = op_fs opts" "op_forced (applyScope sf opts) = op_forced opts"
proof -
  have "op_fs (fold (\<lambda>fv. setField (fst fv) (snd fv)) fvs opts) = op_fs opts
    \<and> op_forced (fold (\<lambda>fv. setField (fst fv) (snd fv)) fvs opts) = op_forced opts" for fvs
    by (induction fvs arbitrary: opts) auto
  then show "op_fs (applyScope sf opts) = op_fs opts" "op_forced (applyScope sf opts) = op_forced opts"
    by (simp_all add: applyScope_def)
qed


lemma applyScope_eq:
  "applyScope sf opts = opts\<lparr>op_AuthType := authTypeToken, op_AuthURL := sf_AuthURL sf, op_Token := sf_Token sf, op_RegionName := sf_Region sf,
     op_ProjectID := sf_ProjectID sf, op_CACert := sf_CACert sf, op_Cloud := [], op_Username := [], op_UserID := [], op_Password := [],
     op_Passcode := [], op_ProjectName := [], op_ProjectDomainName := [], op_ProjectDomainID := [], op_UserDomainName := [],
     op_UserDomainID := [], op_DomainName := [], op_DomainID := [], op_SystemScope := [], op_TrustID := [], op_Endpoint := [],
     op_AppCredID := [], op_AppCredName := [], op_AppCredSecret := [], op_ClientCert := [], op_ClientKey := []\<rparr>"
  by (simp add: applyScope_def FlagValues_def scopeClearedFlags_def setField_def lookupField_def stringFlags_def flagField_def)

text \<open>
  In the shell a string flag has the value last typed on the line, else the value of the scope
  file if the file sets it (the cleared ones included), else the default the environment gave.
\<close>

lemma shell_flag_precedence:
  assumes "knownFlag f"
  shows "getField f (fold typeFlag typed (applyScope sf opts)) =
    (case map_of (rev typed) f of
       Some v \<Rightarrow> v
     | None \<Rightarrow> (case map_of (FlagValues sf) f of Some v \<Rightarrow> v | None \<Rightarrow> getField f opts))"
  by (simp add: typed_field [OF assms] applyScope_field [OF assms] split: option.split)

section \<open>The session acts as its user\<close>

lemma ParseScopeFile_fields:
  assumes "ParseScopeFile decode raw = Inr sf"
  shows "sf_AuthURL sf \<noteq> []" "sf_Token sf \<noteq> []" "sf_ProjectID sf \<noteq> []" "sf_ExpiresAt sf \<noteq> None"
proof -
  have "trimSpace [] = []" by (simp add: trimSpace_def)
  then show "sf_AuthURL sf \<noteq> []" "sf_Token sf \<noteq> []" "sf_ProjectID sf \<noteq> []" "sf_ExpiresAt sf \<noteq> None"
    using assms by (auto simp: ParseScopeFile_def Let_def split: option.splits if_splits)
qed

text \<open>
  A scope file that parses decides the session: whatever the environment and the clouds files
  hold, a line without auth flags of its own authenticates at the file's URL with the file's token,
  scoped to the file's project; the one way to fail is an interface that does not exist.
\<close>

lemma scope_file_decides_session:
  assumes "ParseScopeFile decode raw = Inr sf"
  shows "case resolveAuth w (applyScope sf opts) of
      Inl e \<Rightarrow> e = EInterface (op_Interface opts) \<and> normalizeInterface (op_Interface opts) = Inl e
    | Inr (opts', ao, eo, tls) \<Rightarrow> ao_IdentityEndpoint ao = sf_AuthURL sf \<and> ao_TokenID ao = sf_Token sf
        \<and> tokenRequest ao = Some ([''token''], NoUser) \<and> scopeRequest ao = Some (ProjectIDScoped (sf_ProjectID sf))"
proof -
  note sf = ParseScopeFile_fields [OF assms]
  show ?thesis
  proof (cases "normalizeInterface (op_Interface opts)")
    case (Inl e)
    then have "e = EInterface (op_Interface opts)" by (auto simp: normalizeInterface_def Let_def split: if_splits)
    then show ?thesis using Inl by (simp add: resolveAuth_def applyScope_eq)
  next
    case (Inr iface)
    then have "resolveAuth w (applyScope sf opts) =
        resolveOverrides w (applyScope sf opts) (noAuth, regionOnly (sf_Region sf), None, emptyExtra)"
      using sf by (simp add: resolveAuth_def selectDefaultCloud_def resolveBase_def envCredentials_def applyScope_eq
          canonicalAuthType_def replaceByte_def authTypes keystoneless_def Let_def)
    then show ?thesis
      using sf by (simp add: resolve_eval applyScope_eq replaceByte_def tokenAuth_def clearAppCred_def tokenRequest_def scopeRequest_def
          scopeObject_def scopeMap_def split: option.split)
  qed
qed

text \<open>
  A line runs only in a scope that was read and accepted and has not expired: through any
  sequence of readings, failures included, a line that is let through has a current scope that parsed
  from content the file really had, and the last look at the file succeeded.
\<close>

definition scopeReads :: "(gostring \<Rightarrow> gostring) \<Rightarrow> (gostring \<Rightarrow> ScopeFile option) \<Rightarrow> ((int \<times> int) option \<times> gostring option) list \<Rightarrow> scopeTracker" where
  "scopeReads sha decode reads = fold (\<lambda>sr f. snd (scopeRefresh sha decode (fst sr) (snd sr) f)) reads newScopeFile"

lemma scopeReads_invariant:
  "st_err (scopeReads sha decode reads) = None \<Longrightarrow> reads \<noteq> [] \<Longrightarrow>
     (\<exists>sf content stat. st_current (scopeReads sha decode reads) = Some sf \<and> ParseScopeFile decode content = Inr sf
        \<and> (Some stat, Some content) \<in> set reads) \<and> fst (last reads) \<noteq> None"
  "st_loaded (scopeReads sha decode reads) \<Longrightarrow> \<exists>sf content stat. st_current (scopeReads sha decode reads) = Some sf
        \<and> ParseScopeFile decode content = Inr sf \<and> (Some stat, Some content) \<in> set reads"
proof (induction reads rule: rev_induct)
  case Nil
  { case 1 then show ?case by simp next case 2 then show ?case by (simp add: scopeReads_def newScopeFile_def) }
next
  case (snoc sr reads)
  let ?f = "scopeReads sha decode reads"
  have step: "scopeReads sha decode (reads @ [sr]) = snd (scopeRefresh sha decode (fst sr) (snd sr) ?f)"
    by (simp add: scopeReads_def)
  obtain stat raw where sr: "sr = (stat, raw)" by fastforce
  have loaded: "st_loaded ?f \<Longrightarrow> \<exists>sf content stat. st_current ?f = Some sf \<and> ParseScopeFile decode content = Inr sf
      \<and> (Some stat, Some content) \<in> set (reads @ [sr])" using snoc(2) by fastforce
  show "st_err (scopeReads sha decode (reads @ [sr])) = None \<Longrightarrow> reads @ [sr] \<noteq> [] \<Longrightarrow>
     (\<exists>sf content stat. st_current (scopeReads sha decode (reads @ [sr])) = Some sf \<and> ParseScopeFile decode content = Inr sf
        \<and> (Some stat, Some content) \<in> set (reads @ [sr])) \<and> fst (last (reads @ [sr])) \<noteq> None"
    using loaded unfolding step unfolding sr
    by (auto simp: scopeRefresh_def Let_def split: option.splits sum.splits if_splits)
  show "st_loaded (scopeReads sha decode (reads @ [sr])) \<Longrightarrow> \<exists>sf content stat. st_current (scopeReads sha decode (reads @ [sr])) = Some sf
        \<and> ParseScopeFile decode content = Inr sf \<and> (Some stat, Some content) \<in> set (reads @ [sr])"
    using loaded unfolding step unfolding sr
    by (auto simp: scopeRefresh_def Let_def split: option.splits sum.splits if_splits)
qed

lemma lines_run_only_in_a_valid_scope:
  assumes "checkLine (scopeReads sha decode reads) now = LineRuns"
  shows "\<exists>sf content stat t. st_current (scopeReads sha decode reads) = Some sf \<and> ParseScopeFile decode content = Inr sf
    \<and> (Some stat, Some content) \<in> set reads \<and> fst (last reads) \<noteq> None \<and> sf_ExpiresAt sf = Some t \<and> now < t"
proof -
  let ?f = "scopeReads sha decode reads"
  have e: "st_err ?f = None" and c: "\<And>sf. st_current ?f = Some sf \<Longrightarrow> \<not> Expired sf now" and n: "st_current ?f \<noteq> None"
    using assms by (auto simp: checkLine_def split: option.splits if_splits)
  have ne: "reads \<noteq> []" using n by (auto simp: scopeReads_def newScopeFile_def)
  from scopeReads_invariant(1) [OF e ne] obtain sf content stat where
    sf: "st_current ?f = Some sf" "ParseScopeFile decode content = Inr sf" "(Some stat, Some content) \<in> set reads" "fst (last reads) \<noteq> None"
    by blast
  with c [OF sf(1)] show ?thesis by (fastforce simp: Expired_def split: option.splits)
qed


section \<open>Witnesses\<close>

definition sampleScope :: ScopeFile where
  "sampleScope = \<lparr>sf_AuthURL = ''https://k'', sf_Token = ''tok'', sf_Region = ''r1'', sf_ProjectID = ''p1'', sf_ProjectName = [],
     sf_UserName = [], sf_ExpiresAt = Some 100, sf_CACert = []\<rparr>"

definition sampleDecode :: "gostring \<Rightarrow> ScopeFile option" where
  "sampleDecode raw = (if raw = ''doc'' then Some sampleScope else None)"

lemma sampleScope_parses: "ParseScopeFile sampleDecode ''doc'' = Inr sampleScope"
proof -
  have "plainWord ''https://k''" "plainWord ''tok''" "plainWord ''p1''" by (simp_all add: plainWord_def byte_def)
  then show ?thesis by (simp add: ParseScopeFile_def sampleDecode_def sampleScope_def)
qed

lemma shell_flag_precedence_witness:
  "getField ''os-project-id'' (fold typeFlag [(''os-region-name'', ''r2'')] (applyScope sampleScope sampleOptions)) = ''p1''
   \<and> getField ''os-region-name'' (fold typeFlag [(''os-region-name'', ''r2'')] (applyScope sampleScope sampleOptions)) = ''r2''"
proof -
  have k: "knownFlag ''os-project-id''" "knownFlag ''os-region-name''" by (simp_all add: knownFlag_def stringFlags_def flagField_def)
  show ?thesis unfolding shell_flag_precedence [OF k(1)] shell_flag_precedence [OF k(2)] by (simp add: FlagValues_def sampleScope_def)
qed

lemma scope_file_decides_session_witness:
  "\<exists>opts' ao eo tls. resolveAuth sampleWorld (applyScope sampleScope sampleUser) = Inr (opts', ao, eo, tls)
     \<and> ao_TokenID ao = ''tok'' \<and> scopeRequest ao = Some (ProjectIDScoped ''p1'')"
proof -
  have "normalizeInterface (op_Interface sampleUser) = Inr []" by (simp add: normalizeInterface_def sampleUser_def)
  then show ?thesis
    using scope_file_decides_session [OF sampleScope_parses, where w = sampleWorld and opts = sampleUser]
    by (auto simp: sampleScope_def split: sum.splits)
qed

lemma lines_run_only_in_a_valid_scope_witness:
  "\<exists>sf. st_current (scopeReads (\<lambda>s. s) sampleDecode [(None, None), (Some (1, 3), Some ''doc'')]) = Some sf \<and> sf_ExpiresAt sf = Some 100"
proof -
  let ?reads = "[(None, None), (Some (1, 3), Some ''doc'')]"
  have r: "checkLine (scopeReads (\<lambda>s. s) sampleDecode ?reads) 50 = LineRuns"
    by (simp add: scopeReads_def scopeRefresh_def newScopeFile_def sampleScope_parses checkLine_def Expired_def) (simp add: sampleScope_def)
  from lines_run_only_in_a_valid_scope [OF r] obtain sf content t where
    "st_current (scopeReads (\<lambda>s. s) sampleDecode ?reads) = Some sf" "ParseScopeFile sampleDecode content = Inr sf" "sf_ExpiresAt sf = Some t"
    by blast
  moreover have "t = 100" using calculation(2,3)
    by (auto simp: ParseScopeFile_def sampleDecode_def Let_def sampleScope_def split: if_splits)
  ultimately show ?thesis by blast
qed

end
