(* ===== verification/Auth_Creds.thy ===== *)
theory Auth_Creds
  imports Auth_Scope
begin

text \<open>
  Credentials from Vault (\<^verbatim>\<open>internal/auth/credsfrom.go\<close>), the TLS settings (\<^verbatim>\<open>tls.go\<close>) and the whole of
  \<^verbatim>\<open>Authenticate\<close> (\<^verbatim>\<open>provider.go\<close>) with its memo (\<^verbatim>\<open>services.go\<close>). The cluster's configuration, the Vault
  client and the decoders of base64, certificates and key pairs are arguments. The standalone Ironic
  client is what the namespace gives, and is not looked into.
\<close>

section \<open>The openrc of a secret\<close>

datatype kvVal = KString gostring | KOther
type_synonym kvData = "(gostring \<times> kvVal) list"

definition kvString :: "kvData \<Rightarrow> gostring \<Rightarrow> gostring option" where
  "kvString data k = (case map_of data k of Some (KString s) \<Rightarrow> Some s | _ \<Rightarrow> None)"

fun containsStr :: "gostring \<Rightarrow> gostring \<Rightarrow> bool" where
  "containsStr [] p = (p = [])"
| "containsStr (c # s) p = (hasPrefix (c # s) p \<or> containsStr s p)"

text \<open>The lines of the flat keys come in the order the map is visited.\<close>

definition flatOpenrc :: "kvData \<Rightarrow> gostring" where
  "flatOpenrc data =
     concat (map (\<lambda>(k, v). case v of KString s \<Rightarrow> if hasPrefix k ''OS_'' then k @ ''='' @ s @ [CHR 0x0A] else [] | KOther \<Rightarrow> []) data)"

definition openrcFromKV :: "(gostring \<Rightarrow> gostring option) \<Rightarrow> kvData \<Rightarrow> gostring option" where
  "openrcFromKV base64 data =
     (let flat = (if flatOpenrc data \<noteq> [] then Some (flatOpenrc data) else None);
          encoded = (case kvString data ''openrc'' of
             Some w \<Rightarrow>
               if w \<noteq> [] then
                 (case base64 (trimSpace w) of
                    Some d \<Rightarrow> if containsStr d ''OS_'' then Some d else Some w
                  | None \<Rightarrow> Some w)
               else flat
           | None \<Rightarrow> flat)
      in case kvString data ''value'' of
           Some v \<Rightarrow> if containsStr v ''OS_'' then Some v else encoded
         | None \<Rightarrow> encoded)"

definition trimQuotesRc :: "gostring \<Rightarrow> gostring" where
  "trimQuotesRc s =
     (if length s \<ge> 2 \<and> (hd s = CHR 0x22 \<and> last s = CHR 0x22 \<or> hd s = CHR 0x27 \<and> last s = CHR 0x27)
      then butlast (tl s) else s)"

text \<open>The assignment of one line, if it is one.\<close>

definition openrcLine :: "gostring \<Rightarrow> (gostring \<times> gostring) option" where
  "openrcLine raw =
     (let line = trimSpace raw in
      if line = [] \<or> hasPrefix line ''#'' then None
      else
        let l = trimPrefix line ''export '' in
        case indexByte l (CHR ''='') of
          None \<Rightarrow> None
        | Some eq \<Rightarrow>
            let key = trimSpace (take eq l) in
            if \<not> hasPrefix key ''OS_'' then None
            else Some (key, trimQuotesRc (trimSpace (drop (Suc eq) l))))"

definition parseOpenrc :: "gostring \<Rightarrow> (gostring \<times> gostring) list" where
  "parseOpenrc s = putAll (List.map_filter openrcLine (splitOn (CHR 0x0A) s)) []"

definition openrcVars :: "(gostring \<times> gostring list) list" where
  "openrcVars =
     [(''os-auth-url'', [''OS_AUTH_URL'']), (''os-username'', [''OS_USERNAME'']), (''os-user-id'', [''OS_USER_ID'']),
      (''os-password'', [''OS_PASSWORD'']), (''os-project-name'', [''OS_PROJECT_NAME'', ''OS_TENANT_NAME'']),
      (''os-project-id'', [''OS_PROJECT_ID'', ''OS_TENANT_ID'']), (''os-project-domain-name'', [''OS_PROJECT_DOMAIN_NAME'']),
      (''os-user-domain-name'', [''OS_USER_DOMAIN_NAME'']), (''os-domain-name'', [''OS_DOMAIN_NAME'']),
      (''os-project-domain-id'', [''OS_PROJECT_DOMAIN_ID'']), (''os-user-domain-id'', [''OS_USER_DOMAIN_ID'']),
      (''os-domain-id'', [''OS_DOMAIN_ID'']), (''os-region-name'', [''OS_REGION_NAME'']),
      (''os-interface'', [''OS_INTERFACE'', ''OS_ENDPOINT_TYPE'']), (''os-cacert'', [''OS_CACERT'']),
      (''os-cert'', [''OS_CERT'']), (''os-key'', [''OS_KEY'']),
      (''os-application-credential-id'', [''OS_APPLICATION_CREDENTIAL_ID'']),
      (''os-application-credential-name'', [''OS_APPLICATION_CREDENTIAL_NAME'']),
      (''os-application-credential-secret'', [''OS_APPLICATION_CREDENTIAL_SECRET'']),
      (''os-auth-type'', [''OS_AUTH_TYPE'']), (''os-token'', [''OS_TOKEN'']), (''os-trust-id'', [''OS_TRUST_ID'']),
      (''os-endpoint'', [''OS_ENDPOINT'']), (''os-system-scope'', [''OS_SYSTEM_SCOPE''])]"

definition lookupVar :: "(gostring \<times> gostring) list \<Rightarrow> gostring \<Rightarrow> gostring" where
  "lookupVar kv k = (case map_of kv k of None \<Rightarrow> [] | Some v \<Rightarrow> v)"

text \<open>The value an openrc has for a flag: that of the first variable that is not empty.\<close>

definition openrcValue :: "(gostring \<times> gostring) list \<Rightarrow> gostring \<Rightarrow> gostring" where
  "openrcValue kv flag = (case map_of openrcVars flag of None \<Rightarrow> [] | Some keys \<Rightarrow> firstNonEmpty (map (lookupVar kv) keys))"

definition setOpenrc :: "(gostring \<times> gostring) list \<Rightarrow> gostring \<Rightarrow> Options \<Rightarrow> Options" where
  "setOpenrc kv flag opts =
     (if changed opts flag \<or> openrcValue kv flag = [] then opts
      else markForced flag (setField flag (openrcValue kv flag) opts))"

definition applyOpenrcVars :: "(gostring \<times> gostring) list \<Rightarrow> Options \<Rightarrow> Options" where
  "applyOpenrcVars kv opts =
     (let opts1 = fold (setOpenrc kv) (map fst openrcVars) opts in
      if \<not> changed opts1 ''os-interface'' then setField ''os-interface'' (trimSuffix (getField ''os-interface'' opts1) ''URL'') opts1
      else opts1)"

lemma openrcVars_known: "list_all knownFlag (map fst openrcVars)" "distinct (map fst openrcVars)"
  by (simp_all add: openrcVars_def knownFlag_def stringFlags_def flagField_def)

lemma changed_markForced [simp]: "changed (markForced g opts) f = changed opts f"
  by (simp add: markForced_def changed_def)

lemma changed_setOpenrc [simp]: "changed (setOpenrc kv g opts) f = changed opts f"
  by (simp add: setOpenrc_def)

lemma changed_fold_setOpenrc [simp]: "changed (fold (setOpenrc kv) fs opts) f = changed opts f"
  by (induction fs arbitrary: opts) auto

lemma setOpenrc_field:
  "knownFlag g \<Longrightarrow> getField g (setOpenrc kv f opts) =
     (if g = f then (case (if changed opts f \<or> openrcValue kv f = [] then None else Some (openrcValue kv f)) of
        None \<Rightarrow> getField f opts | Some v \<Rightarrow> v) else getField g opts)"
  by (auto simp: setOpenrc_def opts.get_put)

lemma openrc_fields:
  assumes "knownFlag g"
  shows "getField g (fold (setOpenrc kv) (map fst openrcVars) opts) =
    (if g \<in> set (map fst openrcVars) \<and> \<not> changed opts g \<and> openrcValue kv g \<noteq> [] then openrcValue kv g else getField g opts)"
  using opts.fold_choices [where step = "setOpenrc kv" and want = "\<lambda>f s. if changed s f \<or> openrcValue kv f = [] then None else Some (openrcValue kv f)",
      OF setOpenrc_field _ assms openrcVars_known(2)]
  by simp

lemma applyOpenrcVars_field:
  assumes "knownFlag f"
  shows "getField f (applyOpenrcVars kv opts) =
    (let v = (if changed opts f \<or> openrcValue kv f = [] then getField f opts else openrcValue kv f)
     in if f = ''os-interface'' \<and> \<not> changed opts f then trimSuffix v ''URL'' else v)"
proof -
  have k: "knownFlag ''os-interface''" by (simp add: knownFlag_def stringFlags_def flagField_def)
  have "openrcValue kv f = []" if "f \<notin> set (map fst openrcVars)" using that by (cases "map_of openrcVars f") (auto simp: openrcValue_def dest!: map_of_SomeD intro: rev_image_eqI)
  then show ?thesis
    using openrc_fields [OF assms] openrc_fields [OF k]
    by (auto simp: applyOpenrcVars_def Let_def opts.get_put [OF assms] opts.get_put [OF k] simp del: set_map)
qed

text \<open>
  An openrc from Vault sets exactly the fields it names that were not given on the command line:
  a typed flag always wins, a variable that is absent or empty leaves the field alone, and a field set
  this way counts as explicitly given; only the suffix of an old-style interface is dropped on the way.
\<close>

lemma openrc_respects_typed_flags:
  assumes "knownFlag f"
  shows "getField f (applyOpenrcVars kv opts) =
    (let v = (if changed opts f \<or> openrcValue kv f = [] then getField f opts else openrcValue kv f)
     in if f = ''os-interface'' \<and> \<not> changed opts f then trimSuffix v ''URL'' else v)"
  by (rule applyOpenrcVars_field [OF assms])

section \<open>The Vault connection\<close>

definition vaultOptionExplicit :: "environ \<Rightarrow> Options \<Rightarrow> gostring \<Rightarrow> gostring list \<Rightarrow> bool" where
  "vaultOptionExplicit env opts flag envs \<longleftrightarrow> changed opts flag \<or> list_ex (\<lambda>e. Getenv env e \<noteq> []) envs"

definition fillVaultOption :: "environ \<Rightarrow> gostring \<Rightarrow> gostring \<Rightarrow> gostring list \<Rightarrow> Options \<Rightarrow> Options" where
  "fillVaultOption env flag val envs opts =
     (if val = [] \<or> vaultOptionExplicit env opts flag envs then opts else setField flag val opts)"

definition vaultNeedsDiscovery :: "Options \<Rightarrow> bool" where
  "vaultNeedsDiscovery opts \<longleftrightarrow>
     (if op_VaultAddr opts = [] then True
      else if op_VaultToken opts \<noteq> [] then False
      else op_VaultRoleID opts = [] \<or> op_VaultSecretID opts = [])"

record lcmVaultConfig =
  lc_Addr :: gostring
  lc_Namespace :: gostring
  lc_RoleID :: gostring
  lc_KVEngine :: gostring
  lc_KVPrefix :: gostring

datatype credErr = CredCluster gostring | CredNotConfigured credErr | CredCACert gostring | CredVault gostring
  | CredNoOpenrc gostring | CredNoClientCert gostring | CredEnv "envMsg list"

text \<open>
  The cluster and the Vault server: the decoded configuration, the AppRole secret, the token file, the
  CA bundle's file, whether a path exists, and what a client with a given configuration reads.
\<close>

record vaultConfig =
  vc_Addr :: gostring
  vc_Namespace :: gostring
  vc_Token :: gostring
  vc_RoleID :: gostring
  vc_SecretID :: gostring
  vc_ApprolePath :: gostring
  vc_KVMount :: gostring
  vc_CACertPEM :: gostring
  vc_Insecure :: bool
  vc_Timeout :: duration

record vaultWorld =
  vw_lcm :: "credErr + lcmVaultConfig"
  vw_secretID :: "credErr + gostring"
  vw_tokenFile :: gostring
  vw_caFile :: "gostring \<Rightarrow> gostring option"
  vw_exists :: "gostring \<Rightarrow> bool"
  vw_base64 :: "gostring \<Rightarrow> gostring option"
  vw_client :: "vaultConfig \<Rightarrow> credErr + (gostring \<Rightarrow> credErr + kvData)"

definition discoverVaultFromCluster :: "environ \<Rightarrow> vaultWorld \<Rightarrow> Options \<Rightarrow> credErr option \<times> Options" where
  "discoverVaultFromCluster env v opts =
     (case vw_lcm v of
        Inl e \<Rightarrow> (Some e, opts)
      | Inr lc \<Rightarrow>
          let opts1 =
            fillVaultOption env ''vault-kv-prefix'' (lc_KVPrefix lc) [''VAULT_KV_PREFIX'', ''VAULT_PREFIX'']
            (fillVaultOption env ''vault-kv-mount'' (lc_KVEngine lc) [''VAULT_KV_MOUNT'', ''VAULT_ENGINE'']
            (fillVaultOption env ''vault-role-id'' (lc_RoleID lc) [''VAULT_ROLE_ID'']
            (fillVaultOption env ''vault-namespace'' (lc_Namespace lc) [''VAULT_NAMESPACE'']
            (fillVaultOption env ''vault-addr'' (lc_Addr lc) [''VAULT_ADDR''] opts))))
          in if op_VaultSecretID opts1 = [] \<and> \<not> vaultOptionExplicit env opts1 ''vault-secret-id'' [''VAULT_SECRET_ID'']
             then (case vw_secretID v of
                     Inl e \<Rightarrow> (Some e, opts1)
                   | Inr s \<Rightarrow> (None, opts1\<lparr>op_VaultSecretID := s\<rparr>))
             else (None, opts1))"

definition autoDiscoverVault :: "environ \<Rightarrow> vaultWorld \<Rightarrow> Options \<Rightarrow> credErr option \<times> Options" where
  "autoDiscoverVault env v opts =
     (if \<not> vaultNeedsDiscovery opts then (None, opts)
      else case discoverVaultFromCluster env v opts of
          (None, opts') \<Rightarrow> (None, opts')
        | (Some e, opts') \<Rightarrow> (if op_VaultAddr opts' = [] then Some (CredNotConfigured e) else None, opts'))"

definition useTokenFile :: "environ \<Rightarrow> vaultWorld \<Rightarrow> Options \<Rightarrow> Options" where
  "useTokenFile env v opts =
     (if op_VaultToken opts = [] \<and> \<not> vaultOptionExplicit env opts ''vault-role-id'' [''VAULT_ROLE_ID'']
         \<and> \<not> vaultOptionExplicit env opts ''vault-secret-id'' [''VAULT_SECRET_ID''] \<and> vw_tokenFile v \<noteq> []
      then opts\<lparr>op_VaultToken := vw_tokenFile v\<rparr> else opts)"

definition VaultConfig :: "environ \<Rightarrow> badEnv \<Rightarrow> vaultWorld \<Rightarrow> Options \<Rightarrow> (credErr + vaultConfig) \<times> Options" where
  "VaultConfig env b v opts =
     (case envError b of
        Some ms \<Rightarrow> (Inl (CredEnv ms), opts)
      | None \<Rightarrow>
          (case autoDiscoverVault env v (useTokenFile env v opts) of
             (Some e, opts') \<Rightarrow> (Inl e, opts')
           | (None, opts') \<Rightarrow>
               (case (if op_VaultCACert opts' = [] then Some [] else vw_caFile v (op_VaultCACert opts')) of
                  None \<Rightarrow> (Inl (CredCACert (op_VaultCACert opts')), opts')
                | Some ca \<Rightarrow>
                    (Inr \<lparr>vc_Addr = op_VaultAddr opts', vc_Namespace = op_VaultNamespace opts', vc_Token = op_VaultToken opts',
                          vc_RoleID = op_VaultRoleID opts', vc_SecretID = op_VaultSecretID opts', vc_ApprolePath = op_VaultApprolePath opts',
                          vc_KVMount = op_VaultKVMount opts', vc_CACertPEM = ca, vc_Insecure = op_VaultInsecure opts',
                          vc_Timeout = op_Timeout opts'\<rparr>, opts'))))"

section \<open>The client certificate of the openrc\<close>

text \<open>The last slash splits a path; without one the whole is the name.\<close>

definition lastSegment :: "gostring \<Rightarrow> gostring" where
  "lastSegment p = last (splitOn (CHR ''/'') p)"

definition baseName :: "gostring \<Rightarrow> gostring" where
  "baseName p = lastSegment p"

definition siblingVaultPath :: "gostring \<Rightarrow> gostring \<Rightarrow> gostring" where
  "siblingVaultPath path name = take (length path - length (lastSegment path)) path @ name"

definition certKeyKVNames :: "gostring \<Rightarrow> gostring \<Rightarrow> gostring \<times> gostring" where
  "certKeyKVNames certPath keyPath =
     (let prefix =
        (if certPath \<noteq> [] then trimSuffix (trimSuffix (baseName certPath) ''.pem'') ''-cert''
         else if keyPath \<noteq> [] then trimSuffix (trimSuffix (baseName keyPath) ''.pem'') ''-key''
         else [])
      in if prefix = [] then ([], []) else (prefix @ ''_pem'', prefix @ ''_key_pem''))"

fun pemFromKV :: "kvData \<Rightarrow> gostring list \<Rightarrow> gostring" where
  "pemFromKV data [] = []"
| "pemFromKV data (n # ns) =
     (if n = [] then pemFromKV data ns
      else case kvString data n of
          Some v \<Rightarrow> if v \<noteq> [] then v else pemFromKV data ns
        | None \<Rightarrow> pemFromKV data ns)"

definition fileExists :: "vaultWorld \<Rightarrow> gostring \<Rightarrow> bool" where
  "fileExists v p \<longleftrightarrow> p \<noteq> [] \<and> vw_exists v p"

definition loadVaultClientCert :: "vaultWorld \<Rightarrow> (gostring \<Rightarrow> credErr + kvData) \<Rightarrow> gostring \<Rightarrow> Options \<Rightarrow> credErr + Options" where
  "loadVaultClientCert v readKV openrcPath opts =
     (let certFromOpenrc = (op_ClientCert opts \<noteq> [] \<and> \<not> changed opts ''os-cert'');
          keyFromOpenrc = (op_ClientKey opts \<noteq> [] \<and> \<not> changed opts ''os-key'')
      in if \<not> certFromOpenrc \<and> \<not> keyFromOpenrc then Inr opts
         else if fileExists v (op_ClientCert opts) \<and> fileExists v (op_ClientKey opts) then Inr opts
         else
           let sibling = siblingVaultPath openrcPath ''ssl_certificates'' in
           case readKV sibling of
             Inl e \<Rightarrow> Inl e
           | Inr data \<Rightarrow>
               let (certName, keyName) = certKeyKVNames (op_ClientCert opts) (op_ClientKey opts);
                   certPEM = pemFromKV data [certName, ''backend_pem''];
                   keyPEM = pemFromKV data [keyName, ''backend_key_pem'']
               in if certPEM = [] \<or> keyPEM = [] then Inl (CredNoClientCert sibling)
                  else Inr (opts\<lparr>op_ClientCertPEM := certPEM, op_ClientKeyPEM := keyPEM, op_ClientCert := [], op_ClientKey := []\<rparr>))"

text \<open>\<^verbatim>\<open>vault.ResolvePath\<close>.\<close>

definition trimSlashes :: "gostring \<Rightarrow> gostring" where
  "trimSlashes s = trimRightByte (trimLeftByte s (CHR ''/'')) (CHR ''/'')"

definition kvResolvePath :: "gostring \<Rightarrow> gostring \<Rightarrow> gostring \<Rightarrow> gostring" where
  "kvResolvePath prefix0 mount0 arg =
     (let prefix = trimSlashes prefix0; mount = trimSlashes mount0; p0 = trimSlashes arg;
          mounted = (mount \<noteq> [] \<and> (p0 = mount \<or> hasPrefix p0 (mount @ ''/'')));
          p = (if mounted then trimLeftByte (trimPrefix p0 mount) (CHR ''/'') else p0)
      in if hasPrefix arg ''/'' \<or> mounted then p
         else if prefix = [] \<or> p = prefix \<or> hasPrefix p (prefix @ ''/'') then p
         else prefix @ ''/'' @ p)"

definition applyVaultOpenrc :: "environ \<Rightarrow> badEnv \<Rightarrow> vaultWorld \<Rightarrow> Options \<Rightarrow> credErr + Options" where
  "applyVaultOpenrc env b v opts =
     (case VaultConfig env b v opts of
        (Inl e, _) \<Rightarrow> Inl e
      | (Inr cfg, opts1) \<Rightarrow>
          (case vw_client v cfg of
             Inl e \<Rightarrow> Inl e
           | Inr readKV \<Rightarrow>
               let path = kvResolvePath (op_VaultKVPrefix opts1) (op_VaultKVMount opts1) (op_CredsFromVault opts1) in
               case readKV path of
                 Inl e \<Rightarrow> Inl e
               | Inr data \<Rightarrow>
                   (case openrcFromKV (vw_base64 v) data of
                      None \<Rightarrow> Inl (CredNoOpenrc path)
                    | Some openrc \<Rightarrow> loadVaultClientCert v readKV path (applyOpenrcVars (parseOpenrc openrc) opts1))))"

section \<open>TLS\<close>

datatype tlsErr = TLSReadCA gostring | TLSNoCerts gostring | TLSKeyPair | TLSNoKey | TLSNoCert

record tlsWorld =
  tw_read :: "gostring \<Rightarrow> gostring option"
  tw_pool :: "gostring \<Rightarrow> bool"
  tw_keyPair :: "gostring \<Rightarrow> gostring \<Rightarrow> gostring option"
  tw_loadKeyPair :: "gostring \<Rightarrow> gostring \<Rightarrow> gostring option"

definition VersionTLS12 :: nat where
  "VersionTLS12 = 0x0303"

definition tlsClientCert :: "tlsWorld \<Rightarrow> Options \<Rightarrow> tlsErr + gostring option" where
  "tlsClientCert t opts =
     (if op_ClientCertPEM opts \<noteq> [] \<and> op_ClientKeyPEM opts \<noteq> [] then
        (case tw_keyPair t (op_ClientCertPEM opts) (op_ClientKeyPEM opts) of None \<Rightarrow> Inl TLSKeyPair | Some c \<Rightarrow> Inr (Some c))
      else if op_ClientCert opts \<noteq> [] \<and> op_ClientKey opts \<noteq> [] then
        (case tw_loadKeyPair t (op_ClientCert opts) (op_ClientKey opts) of None \<Rightarrow> Inl TLSKeyPair | Some c \<Rightarrow> Inr (Some c))
      else if op_ClientCert opts \<noteq> [] then Inl TLSNoKey
      else if op_ClientKey opts \<noteq> [] then Inl TLSNoCert
      else Inr None)"

definition resolveTLSConfig :: "environ \<Rightarrow> tlsWorld \<Rightarrow> Options \<Rightarrow> tlsConfig option \<Rightarrow> tlsErr + tlsConfig \<times> bool" where
  "resolveTLSConfig env t opts base =
     (let cfg0 = (case base of
            None \<Rightarrow> \<lparr>tc_MinVersion = VersionTLS12, tc_RootCAs = [], tc_Certificates = [], tc_InsecureSkipVerify = False\<rparr>
          | Some c \<Rightarrow> c);
          cfg1 = (if tc_MinVersion cfg0 = 0 then cfg0\<lparr>tc_MinVersion := VersionTLS12\<rparr> else cfg0)
      in case (if op_CACert opts = [] then Inr cfg1
               else case tw_read t (op_CACert opts) of
                   None \<Rightarrow> Inl (TLSReadCA (op_CACert opts))
                 | Some pem \<Rightarrow>
                     if tw_pool t (trimSpace pem) then Inr (cfg1\<lparr>tc_RootCAs := trimSpace pem\<rparr>) else Inl (TLSNoCerts (op_CACert opts))) of
           Inl e \<Rightarrow> Inl e
         | Inr cfg2 \<Rightarrow>
             (case tlsClientCert t opts of
                Inl e \<Rightarrow> Inl e
              | Inr cert \<Rightarrow>
                  let cfg3 = (case cert of None \<Rightarrow> cfg2 | Some c \<Rightarrow> cfg2\<lparr>tc_Certificates := [c]\<rparr>);
                      cfg4 = (if insecureExplicit env opts then cfg3\<lparr>tc_InsecureSkipVerify := op_Insecure opts\<rparr> else cfg3)
                  in Inr (cfg4, tc_InsecureSkipVerify cfg4)))"

section \<open>Authentication\<close>

datatype authFail = FailEnv "envMsg list" | FailAuth authErr | FailCred credErr | FailTLS tlsErr | FailIronic gostring

text \<open>What the invocation authenticates with: a standalone Ironic, the service endpoints directly, or a token request.\<close>

datatype session =
    IronicSession
  | KeystonelessSession Options AuthOptions endpointOpts tlsConfig
  | KeystoneSession Options AuthOptions endpointOpts tlsConfig

record authInputs =
  ai_world :: authWorld
  ai_vault :: vaultWorld
  ai_tls :: tlsWorld
  ai_bad :: badEnv
  ai_ironic :: "gostring \<Rightarrow> bool"

text \<open>From the resolved options to the session.\<close>

definition openSession :: "authInputs \<Rightarrow> Options \<Rightarrow> AuthOptions \<Rightarrow> endpointOpts \<Rightarrow> tlsConfig option \<Rightarrow> authFail + session" where
  "openSession ins opts ao eo base =
     (case (if authTakesPassword (op_authKind opts) then promptMissingPassword (ai_world ins) opts ao else Inr (opts, ao)) of
        Inl e \<Rightarrow> Inl (FailAuth e)
      | Inr (opts1, ao1) \<Rightarrow>
          let ao2 = ao1\<lparr>ao_AllowReauth := (ao_TokenID ao1 = [])\<rparr> in
          case resolveTLSConfig (w_env (ai_world ins)) (ai_tls ins) opts1 base of
            Inl e \<Rightarrow> Inl (FailTLS e)
          | Inr (tls, insecure) \<Rightarrow>
              if keystoneless (op_authKind opts1) then Inr (KeystonelessSession opts1 ao2 eo tls)
              else Inr (KeystoneSession opts1 ao2 eo tls))"

definition Authenticate :: "authInputs \<Rightarrow> Options \<Rightarrow> authFail + session" where
  "Authenticate ins opts0 =
     (case envError (ai_bad ins) of
        Some ms \<Rightarrow> Inl (FailEnv ms)
      | None \<Rightarrow>
          if op_CredsFromNS opts0 \<noteq> [] \<and> op_CredsFromVault opts0 \<noteq> [] then Inl (FailAuth (EExclusive ''creds-from-ns'' ''creds-from-vault''))
          else
            let opts1 = applyTenantAliases opts0 in
            case validateSystemScope opts1 of
              Some e \<Rightarrow> Inl (FailAuth e)
            | None \<Rightarrow>
                (case applyPasswordStdin (ai_world ins) opts1 of
                   Inl e \<Rightarrow> Inl (FailAuth e)
                 | Inr opts2 \<Rightarrow>
                     (case (if op_CredsFromVault opts2 \<noteq> [] then applyVaultOpenrc (w_env (ai_world ins)) (ai_bad ins) (ai_vault ins) opts2
                            else Inr opts2) of
                        Inl e \<Rightarrow> Inl (FailCred e)
                      | Inr opts3 \<Rightarrow>
                          if op_CredsFromNS opts3 \<noteq> [] then
                            (if ai_ironic ins (op_CredsFromNS opts3) then Inr IronicSession else Inl (FailIronic (op_CredsFromNS opts3)))
                          else
                            (case resolveAuth (ai_world ins) opts3 of
                               Inl e \<Rightarrow> Inl (FailAuth e)
                             | Inr (opts4, ao, eo, base) \<Rightarrow> openSession ins opts4 ao eo base))))"

record authMemo =
  mm_done :: bool
  mm_result :: "(authFail + session) option"
  mm_calls :: nat

text \<open>\<^verbatim>\<open>authenticated\<close>, counting how often it authenticates.\<close>

definition authenticated :: "authInputs \<Rightarrow> Options \<Rightarrow> authMemo \<Rightarrow> (authFail + session) option \<times> authMemo" where
  "authenticated ins opts m =
     (if mm_done m then (mm_result m, m)
      else let r = Some (Authenticate ins opts) in (r, m\<lparr>mm_result := r, mm_done := True, mm_calls := Suc (mm_calls m)\<rparr>))"

section \<open>Verification is only off when asked\<close>

lemma AddFlags_state:
  assumes "badEnvOk b"
  shows "badEnvOk (snd (AddFlags pd ps env b))"
    and "set (be_msgs (snd (EnvBool env ''OS_INSECURE'' b))) \<subseteq> set (be_msgs (snd (AddFlags pd ps env b)))"
    and "op_Insecure (fst (AddFlags pd ps env b)) = fst (EnvBool env ''OS_INSECURE'' b)"
proof -
  let ?b1 = "snd (EnvBool env ''OS_INSECURE'' b)"
  let ?b2 = "snd (envDuration pd ps env ''OS_TIMEOUT'' defaultHTTPTimeout ?b1)"
  let ?b3 = "snd (EnvBool env ''OS_DEBUG'' ?b2)"
  let ?b4 = "snd (envDebugFormat env ''KOC_DEBUG_FORMAT'' ?b3)"
  let ?b5 = "snd (EnvBool env ''VAULT_SKIP_VERIFY'' ?b4)"
  have last: "snd (AddFlags pd ps env b) = snd (EnvBool env ''VAULT_SKIP_VERIFY'' ?b5)"
    by (simp add: AddFlags_def Let_def case_prod_unfold)
  show "badEnvOk (snd (AddFlags pd ps env b))" unfolding last by (intro EnvBool_ok envDebugFormat_ok envDuration_ok assms)
  show "set (be_msgs ?b1) \<subseteq> set (be_msgs (snd (AddFlags pd ps env b)))"
    unfolding last by (meson EnvBool_mono envDebugFormat_mono envDuration_mono order_trans)
  show "op_Insecure (fst (AddFlags pd ps env b)) = fst (EnvBool env ''OS_INSECURE'' b)"
    by (simp add: AddFlags_def Let_def case_prod_unfold)
qed


text \<open>A client skips verification only if the toggle was given and on, or the cloud entry says so and no toggle was given.\<close>

lemma verification_off_only_when_asked:
  "resolveTLSConfig env t opts base = Inr (cfg, insecure) \<Longrightarrow>
     insecure = tc_InsecureSkipVerify cfg
     \<and> insecure = (if insecureExplicit env opts then op_Insecure opts else case base of None \<Rightarrow> False | Some c \<Rightarrow> tc_InsecureSkipVerify c)
     \<and> tc_MinVersion cfg \<noteq> 0"
  by (auto simp: resolveTLSConfig_def Let_def VersionTLS12_def split: option.splits sum.splits if_splits)

lemma authenticated_memo:
  assumes "authenticated ins opts m = (r, m')"
  shows "authenticated ins' opts' m' = (r, m')" and "mm_calls m' \<le> Suc (mm_calls m)"
  using assms by (auto simp: authenticated_def Let_def split: if_splits)

section \<open>A flat secret is read back\<close>

definition flatValue :: "gostring \<Rightarrow> bool" where
  "flatValue v \<longleftrightarrow> plainWord v \<and> trimQuotesRc v = v"

definition flatKey :: "gostring \<Rightarrow> bool" where
  "flatKey k \<longleftrightarrow> plainWord k \<and> hasPrefix k ''OS_'' \<and> CHR ''='' \<notin> set k"

lemma plainWord_append [simp]: "plainWord (s @ t) \<longleftrightarrow> plainWord s \<and> plainWord t"
  by (simp add: plainWord_def)

lemma plainWord_newline: "plainWord s \<Longrightarrow> CHR 0x0A \<notin> set s"
  by (auto simp: plainWord_def list_all_iff byte_def)

lemma indexByte_key: "c \<notin> set k \<Longrightarrow> indexByte (k @ c # v) c = Some (length k)"
  by (induction k) auto

lemma openrcLine_flat:
  assumes "flatKey k" "flatValue v"
  shows "openrcLine (k @ ''='' @ v) = Some (k, v)"
proof -
  obtain r where k: "k = ''OS_'' @ r" using assms(1) by (auto simp: flatKey_def hasPrefix_iff)
  have w: "plainWord (k @ ''='' @ v)" using assms by (simp add: flatKey_def flatValue_def plainWord_def byte_def)
  have "\<not> hasPrefix (k @ ''='' @ v) ''#''" "trimPrefix (k @ ''='' @ v) ''export '' = k @ ''='' @ v"
    by (simp_all add: k hasPrefix_def trimPrefix_def)
  moreover have "indexByte (k @ ''='' @ v) (CHR ''='') = Some (length k)" using assms(1) indexByte_key by (simp add: flatKey_def)
  moreover have "trimSpace k = k" "trimSpace v = v" "hasPrefix k ''OS_''" "trimQuotesRc v = v"
    using assms by (simp_all add: flatKey_def flatValue_def)
  ultimately show ?thesis using trimSpace_plain [OF w] by (simp add: openrcLine_def Let_def)
qed

lemma openrcLine_empty: "openrcLine [] = None"
  by (simp add: openrcLine_def trimSpace_def)

lemma flatOpenrc_lines:
  assumes "list_all (\<lambda>(k, v). flatKey k \<and> flatValue v) kvs"
  shows "List.map_filter openrcLine (splitOn (CHR 0x0A) (flatOpenrc (map (\<lambda>(k, v). (k, KString v)) kvs))) = kvs"
  using assms
proof (induction kvs)
  case Nil
  then show ?case by (simp add: flatOpenrc_def openrcLine_empty List.map_filter_simps)
next
  case (Cons kv kvs)
  obtain k v where kv: "kv = (k, v)" by fastforce
  have kvok: "flatKey k" "flatValue v" using Cons.prems kv by auto
  let ?rest = "flatOpenrc (map (\<lambda>(k, v). (k, KString v)) kvs)"
  have "flatOpenrc (map (\<lambda>(k, v). (k, KString v)) (kv # kvs)) = (k @ ''='' @ v) @ CHR 0x0A # ?rest"
    using kvok(1) by (simp add: flatOpenrc_def kv flatKey_def)
  moreover have "CHR 0x0A \<notin> set (k @ ''='' @ v)"
    using kvok plainWord_newline by (auto simp: flatKey_def flatValue_def)
  ultimately have "splitOn (CHR 0x0A) (flatOpenrc (map (\<lambda>(k, v). (k, KString v)) (kv # kvs)))
      = (k @ ''='' @ v) # splitOn (CHR 0x0A) ?rest"
    using splitOn_append_sep by metis
  then show ?case using Cons kv openrcLine_flat [OF kvok] by (simp add: List.map_filter_simps)
qed

text \<open>
  A Vault secret that holds the variables as flat keys is read back as those variables, in
  whatever order its keys are visited: every key has its own value afterwards and no other name is
  defined, for keys and values of printable characters that carry no quotes of their own.
\<close>

lemma flat_secret_roundtrip:
  assumes "list_all (\<lambda>(k, v). flatKey k \<and> flatValue v) kvs" and "distinct (map fst kvs)" and "kvs \<noteq> []"
  shows "\<exists>rc. openrcFromKV base64 (map (\<lambda>(k, v). (k, KString v)) kvs) = Some rc \<and> map_of (parseOpenrc rc) = map_of kvs"
proof -
  let ?data = "map (\<lambda>(k, v). (k, KString v)) kvs"
  have os: "hasPrefix k ''OS_''" if "(k, v) \<in> set ?data" for k v
    using assms(1) that by (auto simp: list_all_iff flatKey_def)
  have "kvString ?data n = None" if "\<not> hasPrefix n ''OS_''" for n
    using os that by (auto simp: kvString_def split: option.splits dest: map_of_SomeD)
  then have none: "kvString ?data ''value'' = None" "kvString ?data ''openrc'' = None" by (simp_all add: hasPrefix_def)
  obtain k v kvs' where "kvs = (k, v) # kvs'" using assms(3) by (cases kvs) auto
  then have ne: "flatOpenrc ?data \<noteq> []" using os [of k "KString v"] by (simp add: flatOpenrc_def)
  then have "openrcFromKV base64 ?data = Some (flatOpenrc ?data)" using none by (simp add: openrcFromKV_def)
  moreover have "map_of (parseOpenrc (flatOpenrc ?data)) = map_of kvs"
  proof
    fix n
    have "map_of (rev kvs) n = map_of kvs n" by (simp add: map_of_rev_distinct [OF assms(2)])
    then show "map_of (parseOpenrc (flatOpenrc ?data)) n = map_of kvs n"
      by (simp add: parseOpenrc_def flatOpenrc_lines [OF assms(1)] putAll_map split: option.split)
  qed
  ultimately show ?thesis by blast
qed

section \<open>Where credentials are not what was asked for\<close>

text \<open>
  A scope file does not keep a leftover \<^verbatim>\<open>KOC_CREDS_FROM_VAULT\<close> out of the session: the file clears
  neither credential source, and the token of the Vault openrc replaces the token of the file.
\<close>

lemma vault_replaces_scope_token:
  assumes "\<not> changed opts ''os-token''" and "lookupVar kv ''OS_TOKEN'' \<noteq> []"
  shows "op_CredsFromVault (applyScope sf opts) = op_CredsFromVault opts
    \<and> getField ''os-token'' (applyOpenrcVars kv (applyScope sf opts)) = lookupVar kv ''OS_TOKEN''"
proof -
  have k: "knownFlag ''os-token''" by (simp add: knownFlag_def stringFlags_def flagField_def)
  have "openrcValue kv ''os-token'' = lookupVar kv ''OS_TOKEN''" by (simp add: openrcValue_def openrcVars_def)
  moreover have "\<not> changed (applyScope sf opts) ''os-token''" using assms(1) by (simp add: changed_def)
  ultimately show ?thesis using assms(2) applyOpenrcVars_field [OF k] by (simp add: applyScope_eq)
qed

text \<open>A certificate given on the command line is dropped when only the key comes from the openrc.\<close>

lemma typed_certificate_is_dropped:
  assumes "op_ClientKey opts \<noteq> []" and "\<not> changed opts ''os-key''" and "\<not> fileExists v (op_ClientKey opts)"
    and "loadVaultClientCert v readKV p opts = Inr opts'"
  shows "op_ClientCert opts' = [] \<and> op_ClientCertPEM opts' \<noteq> []"
  using assms by (auto simp: loadVaultClientCert_def Let_def split: sum.splits prod.splits if_splits)

section \<open>Witnesses\<close>

lemma openrc_respects_typed_flags_witness:
  "getField ''os-password'' (applyOpenrcVars [(''OS_PASSWORD'', ''vault''), (''OS_USERNAME'', ''ann'')] (typeFlag (''os-password'', ''typed'') sampleOptions)) = ''typed''
   \<and> getField ''os-username'' (applyOpenrcVars [(''OS_PASSWORD'', ''vault''), (''OS_USERNAME'', ''ann'')] (typeFlag (''os-password'', ''typed'') sampleOptions)) = ''ann''"
proof -
  have k: "knownFlag ''os-password''" "knownFlag ''os-username''" by (simp_all add: knownFlag_def stringFlags_def flagField_def)
  have c: "changed (typeFlag (''os-password'', ''typed'') sampleOptions) ''os-password''"
    "\<not> changed (typeFlag (''os-password'', ''typed'') sampleOptions) ''os-username''" by (simp_all add: typeFlag_def changed_def)
  have v: "openrcValue [(''OS_PASSWORD'', ''vault''), (''OS_USERNAME'', ''ann'')] ''os-username'' = ''ann''"
    by (simp add: openrcValue_def openrcVars_def lookupVar_def)
  show ?thesis
    unfolding openrc_respects_typed_flags [OF k(1)] openrc_respects_typed_flags [OF k(2)]
    using c v typeFlag_field [OF k(1)] by simp
qed

definition sampleInputs :: "badEnv \<Rightarrow> authInputs" where
  "sampleInputs b = \<lparr>ai_world = sampleWorld,
     ai_vault = \<lparr>vw_lcm = Inl (CredCluster []), vw_secretID = Inl (CredCluster []), vw_tokenFile = [], vw_caFile = (\<lambda>_. None),
       vw_exists = (\<lambda>_. False), vw_base64 = (\<lambda>_. None), vw_client = (\<lambda>_. Inl (CredVault []))\<rparr>,
     ai_tls = \<lparr>tw_read = (\<lambda>_. None), tw_pool = (\<lambda>_. True), tw_keyPair = (\<lambda>_ _. None), tw_loadKeyPair = (\<lambda>_ _. None)\<rparr>,
     ai_bad = b, ai_ironic = (\<lambda>_. False)\<rparr>"


lemma flat_secret_roundtrip_witness:
  "\<exists>rc. openrcFromKV (\<lambda>_. None) [(''OS_TOKEN'', KString ''t0''), (''OS_REGION'', KString ''r1'')] = Some rc
     \<and> map_of (parseOpenrc rc) ''OS_TOKEN'' = Some ''t0''"
  using flat_secret_roundtrip [where kvs = "[(''OS_TOKEN'', ''t0''), (''OS_REGION'', ''r1'')]" and ?base64.0 = "\<lambda>_. None"]
  by (fastforce simp: flatKey_def flatValue_def plainWord_def byte_def hasPrefix_def trimQuotesRc_def)

lemma vault_replaces_scope_token_witness:
  "getField ''os-token'' (applyOpenrcVars [(''OS_TOKEN'', ''other'')] (applyScope sampleScope sampleOptions)) = ''other''"
  using vault_replaces_scope_token [of sampleOptions "[(''OS_TOKEN'', ''other'')]" sampleScope]
  by (simp add: changed_def lookupVar_def)

end
