(* ===== verification/Vault_KV.thy ===== *)
theory Vault_KV
  imports Auth_Creds S3_Sign Output_Columns
begin

text \<open>
  The Vault client: \<^verbatim>\<open>src/internal/vault/vault.go\<close> and \<^verbatim>\<open>transport.go\<close>. The network is a function from a
  request and its state to a reply and the next state, so a server may answer anything and may change
  between two calls; a wire is that state with the log of what was sent and answered. The JSON codec
  and \<^verbatim>\<open>url.Parse\<close> are arguments, gathered in a record. A walk recurses on fuel, the depth of the
  folders it may open, since a server may invent folders without end.
\<close>

section \<open>Paths\<close>

text \<open>\<^verbatim>\<open>url.PathEscape\<close>.\<close>

definition PathEscape :: "gostring \<Rightarrow> gostring" where
  "PathEscape s = concat (map (\<lambda>ch. if unreserved ch \<or> ch \<in> set ''$&+:=@'' then [ch] else pctByte ch) s)"

definition kvSegments :: "gostring \<Rightarrow> gostring list" where
  "kvSegments path = filter (\<lambda>seg. seg \<noteq> []) (splitOn (CHR ''/'') (trimSlashes path))"

definition kvPath :: "gostring \<Rightarrow> gostring \<Rightarrow> gostring \<Rightarrow> gostring" where
  "kvPath mount api path =
     fold (\<lambda>seg p. p @ ''/'' @ PathEscape seg) (kvSegments path)
       (''/v1/'' @ PathEscape (trimSlashes mount) @ ''/'' @ api)"

fun badSegment :: "gostring \<Rightarrow> gostring list \<Rightarrow> gostring option" where
  "badSegment rel [] = None"
| "badSegment rel (seg # segs) =
     (if seg = [] \<or> seg = ''.'' then Some (''empty path segment in '' @ rel)
      else if containsStr seg ''..'' then Some (''path segment '' @ seg @ '' traverses out of the subtree'')
      else if list_ex (\<lambda>c. c \<in> set ''?#'') seg then Some (''path segment '' @ seg @ '' contains a URL metacharacter'')
      else badSegment rel segs)"

definition ValidateRelPath :: "gostring \<Rightarrow> gostring option" where
  "ValidateRelPath rel =
     (if rel = [] then None
      else if hasPrefix rel ''/'' then Some (''must be relative, not '' @ rel)
      else badSegment rel (splitOn (CHR ''/'') rel))"

definition joinKV :: "gostring \<Rightarrow> gostring \<Rightarrow> gostring" where
  "joinKV a0 b0 =
     (let a = trimSlashes a0; b = trimSlashes b0 in
      if a = [] then b else if b = [] then a else a @ ''/'' @ b)"

section \<open>Errors\<close>

datatype vaultErr =
    VNotFound gostring gostring gostring
  | VStatus gostring gostring gostring gostring
  | VTransport gostring gostring gostring
  | VDecode
  | VPlain gostring
  | VWrap gostring vaultErr
  | VColumn columnError

text \<open>\<^verbatim>\<open>errors.Is(err, ErrNotFound)\<close> and \<^verbatim>\<open>NotFoundReason\<close> look through the wrapped errors.\<close>

fun isNotFound :: "vaultErr \<Rightarrow> bool" where
  "isNotFound (VNotFound m p r) = True"
| "isNotFound (VWrap s e) = isNotFound e"
| "isNotFound _ = False"

fun NotFoundReason :: "vaultErr \<Rightarrow> gostring" where
  "NotFoundReason (VNotFound m p r) = r"
| "NotFoundReason (VWrap s e) = NotFoundReason e"
| "NotFoundReason _ = []"

fun vaultErrText :: "vaultErr \<Rightarrow> gostring" where
  "vaultErrText (VNotFound m p r) =
     ''vault '' @ m @ '' '' @ p @ '': not found'' @ (if r = [] then [] else '': '' @ r)"
| "vaultErrText (VStatus m p st msg) = ''vault '' @ m @ '' '' @ p @ '': '' @ st @ '': '' @ msg"
| "vaultErrText (VTransport m p e) = m @ '' '' @ p @ '': '' @ e"
| "vaultErrText VDecode = ''decoding vault response''"
| "vaultErrText (VPlain s) = s"
| "vaultErrText (VWrap s e) = s @ '': '' @ vaultErrText e"
| "vaultErrText (VColumn e) = columnErrorText e"

section \<open>The wire\<close>

type_synonym secret = "(gostring \<times> anyval) list"

record vreq =
  q_method :: gostring
  q_url :: gostring
  q_headers :: "(gostring \<times> gostring) list"
  q_body :: "gostring option"

text \<open>An answer has a status code, the status line's text and a body.\<close>

datatype vreply = NoReply gostring | Reply int gostring gostring

record 'v wire =
  wr_state :: 'v
  wr_log :: "(vreq \<times> vreply) list"

type_synonym 'v network = "vreq \<Rightarrow> 'v \<Rightarrow> vreply \<times> 'v"

text \<open>
  What is used of \<^verbatim>\<open>net/url\<close>, \<^verbatim>\<open>crypto/x509\<close> and \<^verbatim>\<open>encoding/json\<close>: a URL's scheme and host name, whether a bundle
  has a certificate, the encoders of the two bodies and the decoders of the five shapes. A decoder
  is \<^const>\<open>None\<close> where \<^verbatim>\<open>json.Unmarshal\<close> fails; a secret's map may be absent from the document.
\<close>

record vaultLib =
  vl_url :: "gostring \<Rightarrow> (gostring \<times> gostring) option"
  vl_pool :: "gostring \<Rightarrow> bool"
  vl_login :: "gostring \<Rightarrow> gostring \<Rightarrow> gostring"
  vl_body :: "secret \<Rightarrow> gostring option"
  vl_token :: "gostring \<Rightarrow> gostring option"
  vl_secret :: "gostring \<Rightarrow> secret option option"
  vl_keys :: "gostring \<Rightarrow> gostring list option"
  vl_errors :: "gostring \<Rightarrow> gostring list option"
  vl_notFound :: "gostring \<Rightarrow> (gostring list \<times> int \<times> gostring \<times> bool) option"

record vaultClient =
  vk_cfg :: vaultConfig
  vk_token :: gostring
  vk_timeout :: duration
  vk_verify :: bool
  vk_roots :: "gostring option"

definition notFoundDetail :: "vaultLib \<Rightarrow> gostring \<Rightarrow> gostring" where
  "notFoundDetail lib body =
     (case vl_notFound lib body of
        None \<Rightarrow> []
      | Some (errs, version, deletionTime, destroyed) \<Rightarrow>
          if errs \<noteq> [] then joinWith ''; '' errs
          else if destroyed then ''version '' @ itoa version @ '' was destroyed''
          else if deletionTime \<noteq> [] then ''version '' @ itoa version @ '' was deleted at '' @ deletionTime
          else [])"

definition vaultError :: "vaultLib \<Rightarrow> gostring \<Rightarrow> gostring" where
  "vaultError lib body =
     (case vl_errors lib body of
        Some (e # es) \<Rightarrow> joinWith ''; '' (e # es)
      | _ \<Rightarrow> if length body > 300 then take 300 body else body)"

text \<open>\<^verbatim>\<open>http.NewRequestWithContext\<close> fails on a URL that does not parse, before anything is sent.\<close>

definition vaultRequest :: "vaultClient \<Rightarrow> gostring \<Rightarrow> gostring \<Rightarrow> gostring option \<Rightarrow> vreq" where
  "vaultRequest c m path body =
     \<lparr>q_method = m, q_url = trimRightByte (vc_Addr (vk_cfg c)) (CHR ''/'') @ path,
      q_headers = (''Accept'', ''application/json'')
        # (if body \<noteq> None then [(''Content-Type'', ''application/json'')] else [])
        @ (if vk_token c \<noteq> [] then [(''X-Vault-Token'', vk_token c)] else [])
        @ (if vc_Namespace (vk_cfg c) \<noteq> [] then [(''X-Vault-Namespace'', vc_Namespace (vk_cfg c))] else []),
      q_body = body\<rparr>"

definition vaultReply :: "vaultLib \<Rightarrow> gostring \<Rightarrow> gostring \<Rightarrow> (gostring \<Rightarrow> 'o option) \<Rightarrow> vreply \<Rightarrow> vaultErr + 'o" where
  "vaultReply lib m path dec reply =
     (case reply of
        NoReply e \<Rightarrow> Inl (VTransport m path e)
      | Reply code st body \<Rightarrow>
          (let payload = take 1048576 body in
           if code = 404 then Inl (VNotFound m path (notFoundDetail lib payload))
           else if code < 200 \<or> code \<ge> 300 then Inl (VStatus m path st (vaultError lib payload))
           else case dec payload of None \<Rightarrow> Inl VDecode | Some x \<Rightarrow> Inr x))"

definition vaultDo :: "vaultLib \<Rightarrow> 'v network \<Rightarrow> vaultClient \<Rightarrow> gostring \<Rightarrow> gostring \<Rightarrow> gostring option
    \<Rightarrow> (gostring \<Rightarrow> 'o option) \<Rightarrow> 'v wire \<Rightarrow> (vaultErr + 'o) \<times> 'v wire" where
  "vaultDo lib net c m path body dec w =
     (let q = vaultRequest c m path body in
      if vl_url lib (q_url q) = None then (Inl (VPlain ''invalid URL''), w)
      else
        let (reply, s) = net q (wr_state w)
        in (vaultReply lib m path dec reply, \<lparr>wr_state = s, wr_log = wr_log w @ [(q, reply)]\<rparr>))"

section \<open>The client\<close>

definition DefaultApprolePath :: gostring where "DefaultApprolePath = ''approle''"
definition DefaultKVMount :: gostring where "DefaultKVMount = ''secret_v2''"

definition defaultTimeout :: duration where
  "defaultTimeout = 30 * second"

definition approleLogin :: "vaultLib \<Rightarrow> 'v network \<Rightarrow> vaultClient \<Rightarrow> 'v wire \<Rightarrow> (vaultErr + vaultClient) \<times> 'v wire" where
  "approleLogin lib net c w =
     (let cfg = vk_cfg c; path = ''/v1/auth/'' @ trimSlashes (vc_ApprolePath cfg) @ ''/login'';
          body = vl_login lib (vc_RoleID cfg) (vc_SecretID cfg)
      in case vaultDo lib net c ''POST'' path (Some body) (vl_token lib) w of
           (Inl e, w') \<Rightarrow> (Inl (VWrap ''vault AppRole login'' e), w')
         | (Inr token, w') \<Rightarrow>
             if token = [] then (Inl (VPlain ''vault AppRole login: no client token returned''), w')
             else (Inr (c\<lparr>vk_token := token\<rparr>), w'))"

definition warnCleartext :: "vaultLib \<Rightarrow> gostring \<Rightarrow> gostring \<Rightarrow> gostring list" where
  "warnCleartext lib target rawURL =
     (case vl_url lib rawURL of
        None \<Rightarrow> []
      | Some (scheme, host) \<Rightarrow>
          if scheme \<noteq> ''http'' \<or> host \<in> {''localhost'', ''127.0.0.1'', ''::1''} then []
          else [''WARNING: '' @ target @ '' is plain HTTP ('' @ rawURL @ ''); tokens and secret data are sent unencrypted'' @ [CHR 0x0A]])"

definition warnInsecure :: "gostring \<Rightarrow> gostring" where
  "warnInsecure target =
     ''WARNING: TLS certificate verification is disabled for '' @ target @ ''; connections are not secure'' @ [CHR 0x0A]"

text \<open>The warnings on standard error come with the result.\<close>

definition vaultDefaults :: "vaultConfig \<Rightarrow> vaultConfig" where
  "vaultDefaults cfg =
     cfg\<lparr>vc_ApprolePath := (if vc_ApprolePath cfg = [] then DefaultApprolePath else vc_ApprolePath cfg),
         vc_KVMount := (if vc_KVMount cfg = [] then DefaultKVMount else vc_KVMount cfg)\<rparr>"

definition vaultNew :: "vaultLib \<Rightarrow> 'v network \<Rightarrow> vaultConfig \<Rightarrow> 'v wire
    \<Rightarrow> (vaultErr + vaultClient) \<times> gostring list \<times> 'v wire" where
  "vaultNew lib net cfg0 w =
     (if vc_Addr cfg0 = [] then (Inl (VPlain ''vault address is required (--vault-addr / VAULT_ADDR)''), [], w)
      else
        let cfg = vaultDefaults cfg0 in
        if \<not> vc_Insecure cfg \<and> vc_CACertPEM cfg \<noteq> [] \<and> \<not> vl_pool lib (vc_CACertPEM cfg)
        then (Inl (VPlain ''no certificates parsed from vault CA bundle''), [], w)
        else
          let warnings =
                (if vc_Insecure cfg
                 then [warnInsecure (''Vault at '' @ trimRightByte (vc_Addr cfg) (CHR ''/'') @ '' (--insecure-vault)'')] else [])
                @ warnCleartext lib ''the Vault endpoint'' (vc_Addr cfg);
              timeout = (if vc_Timeout cfg = 0 then defaultTimeout else if vc_Timeout cfg < 0 then 0 else vc_Timeout cfg);
              c = \<lparr>vk_cfg = cfg, vk_token = vc_Token cfg, vk_timeout = timeout, vk_verify = (\<not> vc_Insecure cfg),
                   vk_roots = (if \<not> vc_Insecure cfg \<and> vc_CACertPEM cfg \<noteq> [] then Some (vc_CACertPEM cfg) else None)\<rparr>
          in if vk_token c \<noteq> [] then (Inr c, warnings, w)
             else if vc_RoleID cfg = [] \<or> vc_SecretID cfg = []
             then (Inl (VPlain ''vault: provide a token (--vault-token) or an AppRole (--vault-role-id and --vault-secret-id)''), warnings, w)
             else let (r, w') = approleLogin lib net c w in (r, warnings, w'))"

definition vaultAddr :: "vaultClient \<Rightarrow> gostring" where
  "vaultAddr c = trimRightByte (vc_Addr (vk_cfg c)) (CHR ''/'')"

definition vaultNamespace :: "vaultClient \<Rightarrow> gostring" where
  "vaultNamespace c = vc_Namespace (vk_cfg c)"

definition KVMount :: "vaultClient \<Rightarrow> gostring" where
  "KVMount c = trimSlashes (vc_KVMount (vk_cfg c))"

section \<open>The KV v2 calls\<close>

text \<open>A version is a positive number, whose digits need no escaping.\<close>

definition ReadKVDataAt :: "vaultLib \<Rightarrow> 'v network \<Rightarrow> vaultClient \<Rightarrow> gostring \<Rightarrow> gostring \<Rightarrow> int \<Rightarrow> 'v wire
    \<Rightarrow> (vaultErr + secret) \<times> 'v wire" where
  "ReadKVDataAt lib net c mount path version w =
     (let full = kvPath mount ''data'' path @ (if version > 0 then ''?version='' @ itoa version else []) in
      case vaultDo lib net c ''GET'' full None (vl_secret lib) w of
        (Inl e, w') \<Rightarrow> (Inl e, w')
      | (Inr None, w') \<Rightarrow> (Inl (VPlain (''vault: secret '' @ path @ '' has no data'')), w')
      | (Inr (Some data), w') \<Rightarrow> (Inr data, w'))"

definition ReadKVData :: "vaultLib \<Rightarrow> 'v network \<Rightarrow> vaultClient \<Rightarrow> gostring \<Rightarrow> 'v wire \<Rightarrow> (vaultErr + secret) \<times> 'v wire" where
  "ReadKVData lib net c path w = ReadKVDataAt lib net c (vc_KVMount (vk_cfg c)) path 0 w"

definition WriteKVData :: "vaultLib \<Rightarrow> 'v network \<Rightarrow> vaultClient \<Rightarrow> gostring \<Rightarrow> gostring \<Rightarrow> secret \<Rightarrow> 'v wire
    \<Rightarrow> (vaultErr + unit) \<times> 'v wire" where
  "WriteKVData lib net c mount path data w =
     (case vl_body lib data of
        None \<Rightarrow> (Inl (VPlain (''encoding secret '' @ path)), w)
      | Some body \<Rightarrow> vaultDo lib net c ''POST'' (kvPath mount ''data'' path) (Some body) (\<lambda>_. Some ()) w)"

definition ListKV :: "vaultLib \<Rightarrow> 'v network \<Rightarrow> vaultClient \<Rightarrow> gostring \<Rightarrow> gostring \<Rightarrow> 'v wire
    \<Rightarrow> (vaultErr + gostring list) \<times> 'v wire" where
  "ListKV lib net c mount path w =
     vaultDo lib net c ''GET'' (kvPath mount ''metadata'' path @ ''?list=true'') None (vl_keys lib) w"

definition HasKV :: "vaultLib \<Rightarrow> 'v network \<Rightarrow> vaultClient \<Rightarrow> gostring \<Rightarrow> gostring \<Rightarrow> 'v wire
    \<Rightarrow> (vaultErr + bool) \<times> 'v wire" where
  "HasKV lib net c mount path w =
     (case vaultDo lib net c ''GET'' (kvPath mount ''metadata'' path) None (\<lambda>_. Some ()) w of
        (Inr _, w') \<Rightarrow> (Inr True, w')
      | (Inl e, w') \<Rightarrow> (if isNotFound e then Inr False else Inl e, w'))"

section \<open>Walking a subtree\<close>

record kvChild =
  ch_name :: gostring
  ch_folder :: bool

fun kvChildren :: "gostring \<Rightarrow> gostring list \<Rightarrow> vaultErr + kvChild list" where
  "kvChildren path [] = Inr []"
| "kvChildren path (k # ks) =
     (if k = [] then kvChildren path ks
      else
        let name = trimSuffix k ''/'' in
        case ValidateRelPath name of
          Some e \<Rightarrow> Inl (VWrap (''vault listing of '' @ path @ '' returned an unusable key '' @ k) (VPlain e))
        | None \<Rightarrow> map_sum id (Cons \<lparr>ch_name = name, ch_folder = hasSuffix k ''/''\<rparr>) (kvChildren path ks))"

definition listKVChildren :: "vaultLib \<Rightarrow> 'v network \<Rightarrow> vaultClient \<Rightarrow> gostring \<Rightarrow> gostring \<Rightarrow> 'v wire
    \<Rightarrow> (vaultErr + kvChild list) \<times> 'v wire" where
  "listKVChildren lib net c mount path w =
     (case ListKV lib net c mount path w of
        (Inl e, w') \<Rightarrow> (if isNotFound e then Inr [] else Inl e, w')
      | (Inr keys, w') \<Rightarrow> (kvChildren path keys, w'))"

text \<open>The loop over the children of one folder; \<open>walk\<close> is the recursive call.\<close>

fun walkChildren :: "(gostring \<Rightarrow> 'w \<Rightarrow> ((vaultErr + gostring list) \<times> 'w) option) \<Rightarrow> gostring \<Rightarrow> kvChild list \<Rightarrow> 'w
    \<Rightarrow> ((vaultErr + gostring list) \<times> 'w) option" where
  "walkChildren walk rel [] w = Some (Inr [], w)"
| "walkChildren walk rel (ch # chs) w =
     (if ch_folder ch then
        (case walk (joinKV rel (ch_name ch)) w of
           None \<Rightarrow> None
         | Some (Inl e, w') \<Rightarrow> Some (Inl e, w')
         | Some (Inr out, w') \<Rightarrow> map_option (apfst (map_sum id ((@) out))) (walkChildren walk rel chs w'))
      else map_option (apfst (map_sum id (Cons (joinKV rel (ch_name ch))))) (walkChildren walk rel chs w))"

fun walkFrom :: "(gostring \<Rightarrow> 'w \<Rightarrow> (vaultErr + kvChild list) \<times> 'w) \<Rightarrow> gostring \<Rightarrow> nat \<Rightarrow> gostring \<Rightarrow> 'w
    \<Rightarrow> ((vaultErr + gostring list) \<times> 'w) option" where
  "walkFrom children root 0 rel w = None"
| "walkFrom children root (Suc n) rel w =
     (case children (joinKV root rel) w of
        (Inl e, w') \<Rightarrow> Some (Inl e, w')
      | (Inr chs, w') \<Rightarrow> walkChildren (walkFrom children root n) rel chs w')"

definition WalkKV :: "vaultLib \<Rightarrow> 'v network \<Rightarrow> nat \<Rightarrow> vaultClient \<Rightarrow> gostring \<Rightarrow> gostring \<Rightarrow> 'v wire
    \<Rightarrow> ((vaultErr + gostring list) \<times> 'v wire) option" where
  "WalkKV lib net fuel c mount root w =
     map_option (apfst (map_sum id sort)) (walkFrom (listKVChildren lib net c mount) root fuel [] w)"

section \<open>Redirects\<close>

definition vaultMaxRedirects :: nat where "vaultMaxRedirects = 5"

definition vaultCredentialHeaders :: "gostring list" where
  "vaultCredentialHeaders = [''Authorization'', ''Proxy-Authorization'', ''Cookie'', ''X-Vault-Token'', ''X-Vault-Namespace'']"

text \<open>A request by its scheme, its host with the port, and its headers under canonical names.\<close>

record hop =
  hp_scheme :: gostring
  hp_host :: gostring
  hp_headers :: "(gostring \<times> gostring) list"

definition vaultSameHostRedirect :: "hop \<Rightarrow> hop list \<Rightarrow> gostring + hop" where
  "vaultSameHostRedirect req via =
     (if length via \<ge> vaultMaxRedirects then Inl (''stopped after '' @ itoa (int vaultMaxRedirects) @ '' redirects'')
      else
        let origin = hd via in
        if hp_host req = hp_host origin \<and> hp_scheme req = hp_scheme origin then Inr req
        else Inr (req\<lparr>hp_headers := filter (\<lambda>(h, v). h \<notin> set vaultCredentialHeaders) (hp_headers req)\<rparr>))"

section \<open>Paths of requests\<close>

lemma pctByte_no_slash: "CHR ''/'' \<notin> set (pctByte ch)"
proof -
  have "upperhex n \<noteq> CHR ''/''" if "n < 16" for n
    using that by (simp add: upperhex_def eval_nat_numeral less_Suc_eq) auto
  then have "upperhex (byte ch div 16) \<noteq> CHR ''/''" "upperhex (byte ch mod 16) \<noteq> CHR ''/''"
    by (simp_all add: byte_def div_less_mono less_mult_imp_div_less)
  then show ?thesis by (auto simp: pctByte_def dest: sym)
qed

lemma PathEscape_append: "PathEscape (s @ t) = PathEscape s @ PathEscape t"
  by (simp add: PathEscape_def)

lemma PathEscape_no_slash: "CHR ''/'' \<notin> set (PathEscape s)"
  using pctByte_no_slash by (auto simp: PathEscape_def unreserved_def isAlnum_def byte_def split: if_splits)

lemma PathEscape_Nil [simp]: "PathEscape s = [] \<longleftrightarrow> s = []"
  by (cases s) (auto simp: PathEscape_def pctByte_def)

lemma kvPath_segments:
  "splitOn (CHR ''/'') (kvPath mount api path)
     = [[], ''v1'', PathEscape (trimSlashes mount)] @ splitOn (CHR ''/'') api @ map PathEscape (kvSegments path)"
proof -
  have step: "splitOn (CHR ''/'') (fold (\<lambda>seg p. p @ ''/'' @ PathEscape seg) segs p)
      = splitOn (CHR ''/'') p @ map PathEscape segs" for segs p
  proof (induction segs arbitrary: p)
    case (Cons s segs)
    then show ?case
      by (simp add: splitOn_append splitOn_no_sep PathEscape_no_slash)
  qed simp
  have "splitOn (CHR ''/'') (''/v1/'' @ PathEscape (trimSlashes mount) @ ''/'' @ api)
      = [[], ''v1''] @ splitOn (CHR ''/'') (PathEscape (trimSlashes mount) @ CHR ''/'' # api)"
    by simp
  also have "\<dots> = [[], ''v1'', PathEscape (trimSlashes mount)] @ splitOn (CHR ''/'') api"
    by (simp only: splitOn_append splitOn_no_sep [OF PathEscape_no_slash]) simp
  finally show ?thesis unfolding kvPath_def step by simp
qed

text \<open>Trimming slashes only drops empty segments.\<close>

lemma filter_splitOn_trimLeft:
  "filter (\<lambda>s. s \<noteq> []) (splitOn c (dropWhile (\<lambda>x. x = c) s)) = filter (\<lambda>s. s \<noteq> []) (splitOn c s)"
  by (induction s) auto

lemma filter_splitOn_trimRight:
  "filter (\<lambda>s. s \<noteq> []) (splitOn c (trimRightByte s c)) = filter (\<lambda>s. s \<noteq> []) (splitOn c s)"
proof (induction s rule: rev_induct)
  case (snoc x s)
  show ?case
  proof (cases "x = c")
    case True
    then show ?thesis using snoc splitOn_append [of c s "[]"] by (simp add: trimRightByte_def)
  qed (simp add: trimRightByte_def)
qed (simp add: trimRightByte_def)

lemma kvSegments_filter: "kvSegments p = filter (\<lambda>s. s \<noteq> []) (splitOn (CHR ''/'') p)"
  by (simp add: kvSegments_def trimSlashes_def trimLeftByte_def filter_splitOn_trimRight filter_splitOn_trimLeft)

lemma kvSegments_Nil [simp]: "kvSegments [] = []"
  by (simp add: kvSegments_filter)

lemma kvSegments_slash [simp]: "kvSegments (a @ CHR ''/'' # b) = kvSegments a @ kvSegments b"
  by (simp add: kvSegments_filter splitOn_append)

lemma kvSegments_trim [simp]: "kvSegments (trimSlashes p) = kvSegments p"
  by (simp add: kvSegments_filter trimSlashes_def trimLeftByte_def filter_splitOn_trimRight filter_splitOn_trimLeft)

lemma kvSegments_joinKV [simp]: "kvSegments (joinKV a b) = kvSegments a @ kvSegments b"
proof -
  have "kvSegments x = []" if "trimSlashes x = []" for x
    using kvSegments_trim [of x] that by simp
  then show ?thesis by (simp add: joinKV_def Let_def)
qed

definition safeSegment :: "gostring \<Rightarrow> bool" where
  "safeSegment seg \<longleftrightarrow> seg \<noteq> [] \<and> seg \<noteq> ''.'' \<and> \<not> containsStr seg ''..'' \<and> CHR ''?'' \<notin> set seg \<and> CHR ''#'' \<notin> set seg"

lemma badSegment_None: "badSegment rel segs = None \<longleftrightarrow> list_all safeSegment segs"
  by (induction segs) (auto simp: safeSegment_def list_ex_iff)

lemma ValidateRelPath_None:
  "ValidateRelPath rel = None \<longleftrightarrow> rel = [] \<or> list_all safeSegment (splitOn (CHR ''/'') rel)"
proof (cases "hasPrefix rel ''/''")
  case True
  then show ?thesis by (auto simp: hasPrefix_iff ValidateRelPath_def safeSegment_def)
qed (simp add: ValidateRelPath_def badSegment_None)

lemma valid_segments:
  "ValidateRelPath rel = None \<Longrightarrow> rel \<noteq> [] \<Longrightarrow> kvSegments rel = splitOn (CHR ''/'') rel"
  by (auto simp: ValidateRelPath_None kvSegments_filter list_all_iff safeSegment_def intro!: filter_True)

lemma valid_safe: "ValidateRelPath rel = None \<Longrightarrow> list_all safeSegment (kvSegments rel)"
  using valid_segments [of rel] by (cases "rel = []") (auto simp: ValidateRelPath_None)

lemma valid_trim:
  assumes "ValidateRelPath rel = None"
  shows "trimSlashes rel = rel"
proof (cases "rel = []")
  case False
  have safe: "list_all safeSegment (splitOn (CHR ''/'') rel)" using assms False by (simp add: ValidateRelPath_None)
  have hd: "hd rel \<noteq> CHR ''/''" using safe False by (cases rel) (auto simp: safeSegment_def)
  have last: "last rel \<noteq> CHR ''/''"
  proof
    assume "last rel = CHR ''/''"
    then have "rel = butlast rel @ CHR ''/'' # []" using False by (metis append_butlast_last_id)
    then have "[] \<in> set (splitOn (CHR ''/'') rel)" by (metis splitOn_append Un_iff list.set_intros(1) set_append splitOn.simps(1))
    then show False using safe by (auto simp: list_all_iff safeSegment_def)
  qed
  have "dropWhile (\<lambda>x. x = CHR ''/'') rel = rel" using hd False by (cases rel) auto
  moreover have "dropWhile (\<lambda>x. x = CHR ''/'') (rev rel) = rev rel"
    using last False by (cases "rev rel") (auto simp: last_rev [of "rev rel", simplified])
  ultimately show ?thesis by (simp add: trimSlashes_def trimLeftByte_def trimRightByte_def)
qed (simp add: trimSlashes_def trimLeftByte_def trimRightByte_def)

text \<open>A safe segment is a plain name of a URL path, and escaping keeps it one.\<close>

lemma PathEscape_dots: "PathEscape s = ''..'' \<longleftrightarrow> s = ''..''" "PathEscape s = ''.'' \<longleftrightarrow> s = ''.''"
proof -
  have one: "PathEscape (c # s) = CHR ''.'' # t \<longleftrightarrow> c = CHR ''.'' \<and> PathEscape s = t" for c s t
    by (auto simp: PathEscape_def pctByte_def unreserved_def)
  show "PathEscape s = ''..'' \<longleftrightarrow> s = ''..''" "PathEscape s = ''.'' \<longleftrightarrow> s = ''.''"
    by (cases s; cases "tl s"; simp add: one; simp add: PathEscape_def)+
qed

lemma safe_plain: "safeSegment seg \<Longrightarrow> seg \<noteq> ''..''"
  by (auto simp: safeSegment_def hasPrefix_iff)

text \<open>What is below a directory stays below it when a server cleans the path.\<close>

lemma kvPath_inside:
  assumes "kvSegments to = kvSegments base @ rels" and "''..'' \<notin> set rels" and "[] \<notin> set rels"
  shows "insidePath (kvPath mount api base) (kvPath mount api to)"
proof -
  have s: "slashed (kvPath mount api p)" for p
    using arg_cong [OF kvPath_segments [of mount api p], of hd] arg_cong [OF kvPath_segments [of mount api p], of length]
    by (cases "kvPath mount api p") (auto simp: slashed_def split: if_splits)
  let ?es = "map PathEscape rels"
  have "''..'' \<notin> set ?es" using assms(2) by (auto simp: PathEscape_dots dest: sym)
  then have "pathNames (kvPath mount api to)
      = pathNames (kvPath mount api base) @ filter (\<lambda>e. e \<noteq> [] \<and> e \<noteq> ''.'') ?es"
    by (simp add: pathNames_def s kvPath_segments assms(1) cleanFold_plain)
  moreover have "list_all plainName (filter (\<lambda>e. e \<noteq> [] \<and> e \<noteq> ''.'') ?es)"
    using assms(2) PathEscape_no_slash by (auto simp: list_all_iff plainName_def PathEscape_dots)
  ultimately show ?thesis using s by (auto simp: insidePath_iff)
qed

section \<open>What a call leaves in the log\<close>

definition logged :: "(vreq \<times> vreply \<Rightarrow> bool) \<Rightarrow> 'v wire \<Rightarrow> 'v wire \<Rightarrow> bool" where
  "logged P w w' \<longleftrightarrow> take (length (wr_log w)) (wr_log w') = wr_log w \<and> list_all P (drop (length (wr_log w)) (wr_log w'))"

lemma logged_iff: "logged P w w' \<longleftrightarrow> (\<exists>ex. wr_log w' = wr_log w @ ex \<and> list_all P ex)"
  unfolding logged_def by (metis append_eq_conv_conj append_take_drop_id)

lemma logged_refl [simp]: "logged P w w"
  by (simp add: logged_def)

lemma logged_trans [trans]: "logged P a b \<Longrightarrow> logged P b c \<Longrightarrow> logged P a c"
  by (fastforce simp: logged_iff)

lemma logged_mono: "logged P a b \<Longrightarrow> (\<And>x. P x \<Longrightarrow> Q x) \<Longrightarrow> logged Q a b"
  by (auto simp: logged_iff list_all_iff)

definition isGet :: "vreq \<times> vreply \<Rightarrow> bool" where
  "isGet e \<longleftrightarrow> q_method (fst e) = ''GET''"

lemma vaultDo_logged:
  "vl_url lib (q_url (vaultRequest c m path body)) = None \<and> snd (vaultDo lib net c m path body dec w) = w
   \<or> (\<exists>reply. wr_log (snd (vaultDo lib net c m path body dec w)) = wr_log w @ [(vaultRequest c m path body, reply)]
        \<and> fst (vaultDo lib net c m path body dec w) = vaultReply lib m path dec reply)"
  by (auto simp: vaultDo_def Let_def split: prod.splits)

lemma vaultDo_get: "logged isGet w (snd (vaultDo lib net c ''GET'' path body dec w))"
  using vaultDo_logged [of lib c "''GET''" path body net dec w]
  by (auto simp: logged_iff isGet_def vaultRequest_def)

lemma ListKV_get: "logged isGet w (snd (ListKV lib net c mount path w))"
  unfolding ListKV_def by (rule vaultDo_get)

lemma HasKV_get: "logged isGet w (snd (HasKV lib net c mount path w))"
  using vaultDo_get [of w lib net c "kvPath mount ''metadata'' path" None "\<lambda>_. Some ()"]
  by (auto simp: HasKV_def split: prod.splits sum.splits)

lemma ReadKVDataAt_get: "logged isGet w (snd (ReadKVDataAt lib net c mount path version w))"
  using vaultDo_get [of w lib net c
      "kvPath mount ''data'' path @ (if version > 0 then ''?version='' @ itoa version else [])" None "vl_secret lib"]
  by (auto simp: ReadKVDataAt_def Let_def split: prod.splits sum.splits option.splits)

lemma listKVChildren_get: "logged isGet w (snd (listKVChildren lib net c mount path w))"
  using ListKV_get [of w lib net c mount path] by (auto simp: listKVChildren_def split: prod.splits sum.splits)

lemma map_sum_id_Inr: "map_sum id f x = Inr y \<longleftrightarrow> (\<exists>z. x = Inr z \<and> y = f z)"
  by (cases x) auto

lemma map_sum_Inl: "map_sum id f x = Inl e \<longleftrightarrow> x = Inl e"
  by (cases x) auto

definition usableChild :: "kvChild \<Rightarrow> bool" where
  "usableChild ch \<longleftrightarrow> ValidateRelPath (ch_name ch) = None \<and> (ch_folder ch \<or> ch_name ch \<noteq> [])"

lemma kvChildren_valid: "kvChildren path ks = Inr chs \<Longrightarrow> list_all usableChild chs"
proof (induction ks arbitrary: chs)
  case (Cons k ks)
  have "trimSuffix k ''/'' \<noteq> []" if "k \<noteq> []" "\<not> hasSuffix k ''/''"
    using that by (simp add: trimSuffix_def)
  with Cons show ?case
    by (auto simp: Let_def map_sum_id_Inr usableChild_def split: if_splits option.splits)
qed simp

section \<open>What a walk returns\<close>

text \<open>
  Whatever lists the children of a folder: a relation between wires that every listing respects is
  respected by the walk, and the paths returned are safe to join when the children are.
\<close>

lemma valid_joinKV:
  assumes "ValidateRelPath a = None" "ValidateRelPath b = None"
  shows "ValidateRelPath (joinKV a b) = None"
proof -
  have "list_all safeSegment (splitOn (CHR ''/'') (a @ CHR ''/'' # b))" if "a \<noteq> []" "b \<noteq> []"
    using assms that by (simp add: ValidateRelPath_None splitOn_append)
  then show ?thesis
    using assms by (auto simp: joinKV_def valid_trim ValidateRelPath_None Let_def)
qed

locale kv_lister =
  fixes children :: "gostring \<Rightarrow> 'w \<Rightarrow> (vaultErr + kvChild list) \<times> 'w"
    and R :: "'w \<Rightarrow> 'w \<Rightarrow> bool"
  assumes refl: "R w w"
    and trans: "R a b \<Longrightarrow> R b c \<Longrightarrow> R a c"
    and lists: "R w (snd (children path w))"
    and usable: "fst (children path w) = Inr chs \<Longrightarrow> list_all usableChild chs"
begin

definition sound :: "gostring \<Rightarrow> 'w \<Rightarrow> ((vaultErr + gostring list) \<times> 'w) option \<Rightarrow> bool" where
  "sound rel w r \<longleftrightarrow>
     (\<forall>out w'. r = Some (out, w') \<longrightarrow>
        R w w' \<and> (\<forall>rels. out = Inr rels \<longrightarrow> list_all (\<lambda>p. ValidateRelPath p = None) rels))"

lemma children_sound:
  assumes "\<And>rel w. ValidateRelPath rel = None \<Longrightarrow> sound rel w (walk rel w)"
    and "list_all usableChild chs" and "ValidateRelPath rel = None"
  shows "sound rel w (walkChildren walk rel chs w)"
  using assms(2)
proof (induction chs arbitrary: w)
  case Nil
  then show ?case by (simp add: sound_def refl)
next
  case (Cons ch chs)
  have v: "ValidateRelPath (joinKV rel (ch_name ch)) = None"
    using Cons.prems assms(3) by (simp add: usableChild_def valid_joinKV)
  have rest: "sound rel w (walkChildren walk rel chs w)" for w using Cons by simp
  show ?case
  proof (cases "ch_folder ch")
    case True
    show ?thesis
    proof (cases "walk (joinKV rel (ch_name ch)) w")
      case (Some p)
      with assms(1) [OF v, of w] rest [of "snd p"] True show ?thesis
        by (cases p; cases "fst p") (auto simp: sound_def apfst_def map_prod_def map_sum_id_Inr intro: trans split: prod.splits)
    qed (simp add: True sound_def)
  next
    case False
    with rest [of w] v show ?thesis by (auto simp: sound_def map_sum_id_Inr)
  qed
qed

lemma walk_sound: "ValidateRelPath rel = None \<Longrightarrow> sound rel w (walkFrom children root n rel w)"
proof (induction n arbitrary: rel w)
  case (Suc n)
  obtain r w' where c: "children (joinKV root rel) w = (r, w')" by fastforce
  have R: "R w w'" using lists [of w "joinKV root rel"] c by simp
  show ?case
  proof (cases r)
    case (Inr chs)
    have "sound rel w' (walkChildren (walkFrom children root n) rel chs w')"
      using usable [of "joinKV root rel" w] c Inr Suc by (intro children_sound) auto
    with R show ?thesis using c Inr by (auto simp: sound_def intro: trans)
  qed (use R c in \<open>simp add: sound_def\<close>)
qed (simp add: sound_def)

end

interpretation vault_lister: kv_lister "listKVChildren lib net c mount" "logged isGet"
proof
  fix path w chs
  show "list_all usableChild chs" if "fst (listKVChildren lib net c mount path w) = Inr chs"
    using that by (auto simp: listKVChildren_def kvChildren_valid split: prod.splits sum.splits if_splits)
qed (auto intro: logged_trans listKVChildren_get)

lemma WalkKV_sound:
  assumes "WalkKV lib net fuel c mount root w = Some (r, w')"
  shows "logged isGet w w'" and "r = Inr rels \<Longrightarrow> list_all (\<lambda>p. ValidateRelPath p = None) rels"
proof -
  have "ValidateRelPath [] = None" by (simp add: ValidateRelPath_def)
  then have s: "vault_lister.sound [] w (walkFrom (listKVChildren lib net c mount) root fuel [] w)"
    by (rule vault_lister.walk_sound)
  obtain r0 where r0: "walkFrom (listKVChildren lib net c mount) root fuel [] w = Some (r0, w')" "r = map_sum id sort r0"
    using assms by (auto simp: WalkKV_def)
  then show "logged isGet w w'" using s by (simp add: vault_lister.sound_def)
  show "list_all (\<lambda>p. ValidateRelPath p = None) rels" if "r = Inr rels"
    using s r0 that by (cases r0) (auto simp: vault_lister.sound_def list_all_iff)
qed

section \<open>A walk finds every secret\<close>

text \<open>
  A store is the set of the paths of its secrets, each the list of its segments. A folder's children
  are the secrets directly in it and the folders that lead to another.
\<close>

definition childKeys :: "gostring list set \<Rightarrow> gostring list \<Rightarrow> gostring set" where
  "childKeys T p = {n. p @ [n] \<in> T} \<union> {n @ ''/'' | n. \<exists>m. m \<noteq> [] \<and> p @ n # m \<in> T}"

definition childNodes :: "gostring list set \<Rightarrow> gostring list \<Rightarrow> kvChild set" where
  "childNodes T p =
     {\<lparr>ch_name = n, ch_folder = False\<rparr> | n. p @ [n] \<in> T}
     \<union> {\<lparr>ch_name = n, ch_folder = True\<rparr> | n. \<exists>m. m \<noteq> [] \<and> p @ n # m \<in> T}"

definition below :: "gostring list set \<Rightarrow> gostring list \<Rightarrow> gostring list set" where
  "below T p = {r. r \<noteq> [] \<and> p @ r \<in> T}"

definition deepest :: "gostring list set \<Rightarrow> gostring list \<Rightarrow> nat \<Rightarrow> bool" where
  "deepest T p n \<longleftrightarrow> (\<forall>r \<in> below T p. length r \<le> n)"

definition plainSegment :: "gostring \<Rightarrow> bool" where
  "plainSegment n \<longleftrightarrow> safeSegment n \<and> CHR ''/'' \<notin> set n"

lemma plain_valid:
  assumes "list_all plainSegment rs"
  shows "ValidateRelPath (joinWith ''/'' rs) = None" and "kvSegments (joinWith ''/'' rs) = rs"
proof -
  have split: "splitOn (CHR ''/'') (joinWith ''/'' rs) = rs" if "rs \<noteq> []"
    using assms that splitOn_join [of rs "CHR ''/''"] by (auto simp: list_all_iff plainSegment_def)
  with assms show "ValidateRelPath (joinWith ''/'' rs) = None"
    by (cases "rs = []") (auto simp: ValidateRelPath_None list_all_iff plainSegment_def)
  show "kvSegments (joinWith ''/'' rs) = rs"
    using split assms by (cases "rs = []") (auto simp: kvSegments_filter list_all_iff plainSegment_def safeSegment_def intro!: filter_True)
qed

lemma joinWith_plain_Nil: "list_all plainSegment rs \<Longrightarrow> joinWith ''/'' rs = [] \<longleftrightarrow> rs = []"
  using plain_valid(2) [of rs] by auto

lemma joinKV_plain:
  assumes "list_all plainSegment (rs @ [n])"
  shows "joinKV (joinWith ''/'' rs) n = joinWith ''/'' (rs @ [n])"
proof -
  have "trimSlashes (joinWith ''/'' rs) = joinWith ''/'' rs" "trimSlashes n = n" "n \<noteq> []"
    using assms valid_trim [OF plain_valid(1), of rs] valid_trim [OF plain_valid(1), of "[n]"]
    by (auto simp: plainSegment_def safeSegment_def)
  then show ?thesis using assms joinWith_plain_Nil [of rs] by (auto simp: joinKV_def Let_def joinWith_snoc)
qed

lemma joinWith_plain_inj: "list_all plainSegment a \<Longrightarrow> list_all plainSegment b \<Longrightarrow> joinWith ''/'' a = joinWith ''/'' b \<Longrightarrow> a = b"
  by (metis plain_valid(2))

text \<open>What one child contributes to a walk, relative to the folder it is in.\<close>

definition contribution :: "gostring list set \<Rightarrow> gostring list \<Rightarrow> kvChild \<Rightarrow> gostring list set" where
  "contribution T p ch = (if ch_folder ch then Cons (ch_name ch) ` below T (p @ [ch_name ch]) else {[ch_name ch]})"

lemma below_contributions: "below T p = (\<Union>ch \<in> childNodes T p. contribution T p ch)"
proof (intro set_eqI iffI)
  fix r assume "r \<in> below T p"
  then obtain n m where r: "r = n # m" "p @ n # m \<in> T" by (cases r) (auto simp: below_def)
  show "r \<in> (\<Union>ch \<in> childNodes T p. contribution T p ch)"
  proof (cases "m = []")
    case True
    with r have "\<lparr>ch_name = n, ch_folder = False\<rparr> \<in> childNodes T p" by (simp add: childNodes_def)
    then show ?thesis using True r by (auto simp: contribution_def intro: rev_bexI)
  next
    case False
    with r have "\<lparr>ch_name = n, ch_folder = True\<rparr> \<in> childNodes T p" by (auto simp: childNodes_def)
    moreover have "r \<in> contribution T p \<lparr>ch_name = n, ch_folder = True\<rparr>"
      using False r by (simp add: contribution_def below_def)
    ultimately show ?thesis by blast
  qed
qed (auto simp: childNodes_def contribution_def below_def)

lemma contributions_disjoint: "a \<noteq> b \<Longrightarrow> contribution T p a \<inter> contribution T p b = {}"
  by (cases a; cases b) (auto simp: contribution_def below_def)

definition stringsOf :: "gostring list \<Rightarrow> gostring list set \<Rightarrow> gostring set" where
  "stringsOf rs S = joinWith ''/'' ` (@) rs ` S"

locale tree_lister =
  fixes children :: "gostring \<Rightarrow> 'w \<Rightarrow> (vaultErr + kvChild list) \<times> 'w"
    and T :: "gostring list set" and I :: "'w \<Rightarrow> bool"
  assumes plain: "I w \<Longrightarrow> p \<in> T \<Longrightarrow> list_all plainSegment p"
    and lists: "I w \<Longrightarrow> \<exists>chs w'. children path w = (Inr chs, w') \<and> I w' \<and> distinct chs \<and> set chs = childNodes T (kvSegments path)"
begin

definition finds :: "gostring set \<Rightarrow> ((vaultErr + gostring list) \<times> 'w) option \<Rightarrow> bool" where
  "finds S r \<longleftrightarrow> (\<exists>out w'. r = Some (Inr out, w') \<and> I w' \<and> distinct out \<and> set out = S)"

lemma children_find:
  assumes "\<And>n w. \<lparr>ch_name = n, ch_folder = True\<rparr> \<in> set chs \<Longrightarrow> I w
      \<Longrightarrow> finds (stringsOf (rs @ [n]) (below T (p @ [n]))) (walk (joinWith ''/'' (rs @ [n])) w)"
    and "set chs \<subseteq> childNodes T p" and "distinct chs" and "list_all plainSegment rs" and "I w"
  shows "finds (stringsOf rs (\<Union>ch \<in> set chs. contribution T p ch)) (walkChildren walk (joinWith ''/'' rs) chs w)"
  using assms
proof (induction chs arbitrary: w)
  case Nil
  then show ?case by (simp add: finds_def stringsOf_def)
next
  case (Cons ch chs)
  have T: "list_all plainSegment q" if "q \<in> T" for q using plain Cons.prems(5) that by blast
  have pl: "list_all plainSegment m" if "m \<in> contribution T p c" "c \<in> set (ch # chs)" for m c
    using Cons.prems(2) that T by (fastforce simp: contribution_def below_def childNodes_def split: if_splits)
  have n: "plainSegment (ch_name ch)"
    using Cons.prems(2) T by (fastforce simp: childNodes_def)
  then have j: "joinKV (joinWith ''/'' rs) (ch_name ch) = joinWith ''/'' (rs @ [ch_name ch])"
    using Cons.prems(4) by (simp add: joinKV_plain)
  have rest: "finds (stringsOf rs (\<Union>c \<in> set chs. contribution T p c)) (walkChildren walk (joinWith ''/'' rs) chs w')"
    if "I w'" for w'
    using Cons.IH Cons.prems that by auto
  have disj: "stringsOf rs (contribution T p ch) \<inter> stringsOf rs (\<Union>c \<in> set chs. contribution T p c) = {}"
  proof -
    have "m = m'" if "m \<in> contribution T p ch" "m' \<in> contribution T p c" "c \<in> set chs"
        "joinWith ''/'' (rs @ m) = joinWith ''/'' (rs @ m')" for m m' c
      using joinWith_plain_inj [OF _ _ that(4)] pl [OF that(1)] pl [OF that(2)] that(3) Cons.prems(4) by simp
    moreover have "contribution T p ch \<inter> contribution T p c = {}" if "c \<in> set chs" for c
      using contributions_disjoint Cons.prems(3) that by (metis distinct.simps(2))
    ultimately show ?thesis by (fastforce simp: stringsOf_def)
  qed
  show ?case
  proof (cases "ch_folder ch")
    case True
    have "ch = \<lparr>ch_name = ch_name ch, ch_folder = True\<rparr>" using True by simp
    then have "finds (stringsOf (rs @ [ch_name ch]) (below T (p @ [ch_name ch]))) (walk (joinWith ''/'' (rs @ [ch_name ch])) w)"
      using Cons.prems(1,5) by (metis list.set_intros(1))
    moreover have "stringsOf (rs @ [ch_name ch]) (below T (p @ [ch_name ch])) = stringsOf rs (contribution T p ch)"
      using True by (simp add: stringsOf_def contribution_def image_image)
    ultimately obtain out w' where out: "walk (joinWith ''/'' (rs @ [ch_name ch])) w = Some (Inr out, w')" "I w'" "distinct out"
        "set out = stringsOf rs (contribution T p ch)"
      by (auto simp: finds_def)
    obtain out2 w2 where "walkChildren walk (joinWith ''/'' rs) chs w' = Some (Inr out2, w2)" "I w2" "distinct out2"
        "set out2 = stringsOf rs (\<Union>c \<in> set chs. contribution T p c)"
      using rest [OF out(2)] by (auto simp: finds_def)
    then show ?thesis using True out disj j by (auto simp: finds_def stringsOf_def image_Un)
  next
    case False
    obtain out2 w2 where "walkChildren walk (joinWith ''/'' rs) chs w = Some (Inr out2, w2)" "I w2" "distinct out2"
        "set out2 = stringsOf rs (\<Union>c \<in> set chs. contribution T p c)"
      using rest [OF Cons.prems(5)] by (auto simp: finds_def)
    moreover have "stringsOf rs (contribution T p ch) = {joinWith ''/'' (rs @ [ch_name ch])}"
      using False by (simp add: stringsOf_def contribution_def)
    ultimately show ?thesis using False disj j by (auto simp: finds_def stringsOf_def image_Un)
  qed
qed

lemma walk_finds:
  assumes "list_all plainSegment rs" and "I w" and "deepest T (kvSegments root @ rs) n" and "0 < n"
  shows "finds (stringsOf rs (below T (kvSegments root @ rs))) (walkFrom children root n (joinWith ''/'' rs) w)"
  using assms
proof (induction n arbitrary: rs w)
  case (Suc n)
  let ?p = "kvSegments root @ rs"
  obtain chs w' where c: "children (joinKV root (joinWith ''/'' rs)) w = (Inr chs, w')" "I w'" "distinct chs"
      "set chs = childNodes T ?p"
    using lists [OF Suc.prems(2), of "joinKV root (joinWith ''/'' rs)"] plain_valid(2) [OF Suc.prems(1)] by auto
  have "finds (stringsOf rs (\<Union>ch \<in> set chs. contribution T ?p ch))
      (walkChildren (walkFrom children root n) (joinWith ''/'' rs) chs w')"
  proof (rule children_find)
    fix m v assume m: "\<lparr>ch_name = m, ch_folder = True\<rparr> \<in> set chs" and "I v"
    then obtain q where q: "q \<noteq> []" "?p @ m # q \<in> T" by (auto simp: c(4) childNodes_def)
    then have "plainSegment m" using plain \<open>I v\<close> by fastforce
    moreover have "deepest T (kvSegments root @ rs @ [m]) n"
      using Suc.prems(3) by (force simp: deepest_def below_def)
    moreover have "m # q \<in> below T ?p" using q by (simp add: below_def)
    then have "length (m # q) \<le> Suc n" using Suc.prems(3) by (auto simp: deepest_def)
    then have "0 < n" using q(1) by (cases q) auto
    ultimately show "finds (stringsOf (rs @ [m]) (below T (?p @ [m]))) (walkFrom children root n (joinWith ''/'' (rs @ [m])) v)"
      using Suc.IH [of "rs @ [m]" v] Suc.prems(1) \<open>I v\<close> by simp
  qed (use c Suc.prems in auto)
  then show ?case using c by (simp add: below_contributions [symmetric])
qed simp

end

subsection \<open>A server that keeps its promise\<close>

text \<open>
  What Vault documents of a listing: the keys directly under the path, each once, a folder with a
  trailing slash, and a 404 for a path without any. \<open>S\<close> are the states in which the store is \<open>T\<close>.
\<close>

definition listsKeys :: "vaultLib \<Rightarrow> gostring set \<Rightarrow> vreply \<Rightarrow> bool" where
  "listsKeys lib keys reply \<longleftrightarrow>
     (\<exists>code st body. reply = Reply code st body \<and>
        (code = 404 \<and> keys = {}
         \<or> code = 200 \<and> length body \<le> 1048576 \<and> (\<exists>ks. vl_keys lib body = Some ks \<and> distinct ks \<and> set ks = keys)))"

definition servesTree :: "vaultLib \<Rightarrow> 'v network \<Rightarrow> vaultClient \<Rightarrow> gostring \<Rightarrow> gostring list set \<Rightarrow> 'v set \<Rightarrow> bool" where
  "servesTree lib net c mount T S \<longleftrightarrow>
     (\<forall>p \<in> T. list_all plainSegment p) \<and>
     (\<forall>s \<in> S. \<forall>path.
        (let q = vaultRequest c ''GET'' (kvPath mount ''metadata'' path @ ''?list=true'') None
         in vl_url lib (q_url q) \<noteq> None \<and> snd (net q s) \<in> S \<and> listsKeys lib (childKeys T (kvSegments path)) (fst (net q s))))"

definition nodeOf :: "gostring \<Rightarrow> kvChild" where
  "nodeOf k = \<lparr>ch_name = trimSuffix k ''/'', ch_folder = hasSuffix k ''/''\<rparr>"

lemma plain_valid_segment: "plainSegment n \<Longrightarrow> ValidateRelPath n = None"
  using plain_valid(1) [of "[n]"] by simp

lemma nodeOf_simps:
  "plainSegment n \<Longrightarrow> nodeOf n = \<lparr>ch_name = n, ch_folder = False\<rparr>"
  "nodeOf (n @ ''/'') = \<lparr>ch_name = n, ch_folder = True\<rparr>"
proof -
  assume "plainSegment n"
  then have "\<not> hasSuffix n ''/''" by (auto simp: plainSegment_def hasSuffix_iff)
  then show "nodeOf n = \<lparr>ch_name = n, ch_folder = False\<rparr>" by (simp add: nodeOf_def trimSuffix_def)
qed (simp add: nodeOf_def hasSuffix_iff)

definition plainKey :: "gostring \<Rightarrow> bool" where
  "plainKey k \<longleftrightarrow> plainSegment k \<or> (\<exists>n. plainSegment n \<and> k = n @ ''/'')"

lemma nodeOf_inj: "plainKey a \<Longrightarrow> plainKey b \<Longrightarrow> nodeOf a = nodeOf b \<Longrightarrow> a = b"
  by (auto simp: plainKey_def nodeOf_simps)

lemma kvChildren_plain: "list_all plainKey ks \<Longrightarrow> kvChildren path ks = Inr (map nodeOf ks)"
proof (induction ks)
  case (Cons k ks)
  have "k \<noteq> []" "ValidateRelPath (trimSuffix k ''/'') = None"
    using Cons.prems nodeOf_simps [of k]
    by (auto simp: plainKey_def plain_valid_segment nodeOf_def plainSegment_def safeSegment_def)
  with Cons show ?case by (simp add: Let_def nodeOf_def)
qed simp

lemma childKeys_plain:
  assumes "\<forall>q \<in> T. list_all plainSegment q"
  shows "k \<in> childKeys T p \<Longrightarrow> plainKey k" and "nodeOf ` childKeys T p = childNodes T p"
proof -
  have a: "plainSegment n" if "p @ n # m \<in> T" for n m using assms that by (auto dest: bspec)
  then show "k \<in> childKeys T p \<Longrightarrow> plainKey k" by (auto simp: childKeys_def plainKey_def)
  let ?A = "{n. p @ [n] \<in> T}" and ?B = "{n. \<exists>m. m \<noteq> [] \<and> p @ n # m \<in> T}"
  have "nodeOf ` ?A = (\<lambda>n. \<lparr>ch_name = n, ch_folder = False\<rparr>) ` ?A"
    using a by (intro image_cong refl) (auto simp: nodeOf_simps)
  moreover have "nodeOf ` (\<lambda>n. n @ ''/'') ` ?B = (\<lambda>n. \<lparr>ch_name = n, ch_folder = True\<rparr>) ` ?B"
    by (simp add: image_image nodeOf_simps)
  moreover have "childKeys T p = ?A \<union> (\<lambda>n. n @ ''/'') ` ?B" by (auto simp: childKeys_def)
  moreover have "childNodes T p = (\<lambda>n. \<lparr>ch_name = n, ch_folder = False\<rparr>) ` ?A \<union> (\<lambda>n. \<lparr>ch_name = n, ch_folder = True\<rparr>) ` ?B"
    by (auto simp: childNodes_def)
  ultimately show "nodeOf ` childKeys T p = childNodes T p" by (simp add: image_Un)
qed

lemma listKVChildren_tree:
  assumes "servesTree lib net c mount T S" and "wr_state w \<in> S"
  shows "\<exists>chs w'. listKVChildren lib net c mount path w = (Inr chs, w') \<and> wr_state w' \<in> S
    \<and> distinct chs \<and> set chs = childNodes T (kvSegments path)"
proof -
  let ?u = "kvPath mount ''metadata'' path @ ''?list=true''"
  let ?q = "vaultRequest c ''GET'' ?u None" and ?K = "childKeys T (kvSegments path)"
  have plain: "\<forall>p \<in> T. list_all plainSegment p" using assms(1) by (simp add: servesTree_def)
  obtain reply s where net: "net ?q (wr_state w) = (reply, s)" by fastforce
  have "vl_url lib (q_url ?q) \<noteq> None \<and> snd (net ?q (wr_state w)) \<in> S \<and> listsKeys lib ?K (fst (net ?q (wr_state w)))"
    using assms unfolding servesTree_def Let_def by blast
  with net have ok: "vl_url lib (q_url ?q) \<noteq> None" "s \<in> S" "listsKeys lib ?K reply" by simp_all
  then have list: "ListKV lib net c mount path w = (vaultReply lib ''GET'' ?u (vl_keys lib) reply,
      \<lparr>wr_state = s, wr_log = wr_log w @ [(?q, reply)]\<rparr>)"
    using net by (auto simp: ListKV_def vaultDo_def Let_def)
  from ok(3) consider
      st body where "reply = Reply 404 st body" "?K = {}"
    | st body ks where "reply = Reply 200 st body" "length body \<le> 1048576" "vl_keys lib body = Some ks" "distinct ks" "set ks = ?K"
    by (auto simp: listsKeys_def)
  then show ?thesis
  proof cases
    case 1
    then have "childNodes T (kvSegments path) = {}" using childKeys_plain(2) [OF plain] by (metis image_empty)
    then show ?thesis using list 1 ok(2) by (simp add: listKVChildren_def vaultReply_def Let_def)
  next
    case (2 st body ks)
    have "list_all plainKey ks" using childKeys_plain(1) [OF plain] 2 by (auto simp: list_all_iff)
    moreover from this have "distinct (map nodeOf ks)"
      using 2 nodeOf_inj by (auto simp: distinct_map inj_on_def list_all_iff)
    moreover have "set (map nodeOf ks) = childNodes T (kvSegments path)"
      using 2 childKeys_plain(2) [OF plain] by simp
    ultimately show ?thesis using list 2 ok(2)
      by (simp add: listKVChildren_def vaultReply_def Let_def kvChildren_plain)
  qed
qed

interpretation vault_tree: tree_lister "listKVChildren lib net c mount" T "\<lambda>w. servesTree lib net c mount T S \<and> wr_state w \<in> S"
proof
  show "list_all plainSegment p" if "servesTree lib net c mount T S \<and> wr_state w \<in> S" "p \<in> T" for w p
    using that by (auto simp: servesTree_def)
qed (use listKVChildren_tree in blast)

lemma walkFrom_tree:
  assumes "servesTree lib net c mount T S" and "wr_state w \<in> S" and "deepest T (kvSegments root) fuel" and "0 < fuel"
  shows "\<exists>out w'. walkFrom (listKVChildren lib net c mount) root fuel [] w = Some (Inr out, w') \<and> wr_state w' \<in> S
    \<and> distinct out \<and> set out = joinWith ''/'' ` below T (kvSegments root)"
proof -
  have "vault_tree.finds lib net c mount T S (stringsOf [] (below T (kvSegments root)))
      (walkFrom (listKVChildren lib net c mount) root fuel [] w)"
    using vault_tree.walk_finds [of "[]" lib net c mount T S w root fuel] assms by simp
  then show ?thesis by (auto simp: vault_tree.finds_def stringsOf_def)
qed

lemma WalkKV_complete:
  assumes "servesTree lib net c mount T S" and "wr_state w \<in> S" and "deepest T (kvSegments root) fuel" and "0 < fuel"
  shows "\<exists>w'. WalkKV lib net fuel c mount root w
      = Some (Inr (sorted_list_of_set (joinWith ''/'' ` below T (kvSegments root))), w') \<and> wr_state w' \<in> S"
    and "finite (joinWith ''/'' ` below T (kvSegments root))"
proof -
  obtain out w' where o: "walkFrom (listKVChildren lib net c mount) root fuel [] w = Some (Inr out, w')"
      "wr_state w' \<in> S" "distinct out" "set out = joinWith ''/'' ` below T (kvSegments root)"
    using walkFrom_tree [OF assms] by blast
  have "sort out = sorted_list_of_set (set out)"
    using o(3) by (simp add: sorted_list_of_set_sort_remdups distinct_remdups_id)
  then show "\<exists>w'. WalkKV lib net fuel c mount root w
      = Some (Inr (sorted_list_of_set (joinWith ''/'' ` below T (kvSegments root))), w') \<and> wr_state w' \<in> S"
    using o by (simp add: WalkKV_def)
  show "finite (joinWith ''/'' ` below T (kvSegments root))" using o(4) by (metis finite_set)
qed

section \<open>A walk need not end\<close>

text \<open>
  A key that is a slash alone passes the check: it trims to the empty name, which names the folder
  itself. Against a server that lists it a walk opens the same folder for ever.
\<close>

lemma WalkKV_slash_diverges:
  assumes "\<And>w. fst (ListKV lib net c mount (joinKV root []) w) = Inr [''/'']"
  shows "WalkKV lib net fuel c mount root w = None"
proof -
  have "listKVChildren lib net c mount (joinKV root []) w
      = (Inr [\<lparr>ch_name = [], ch_folder = True\<rparr>], snd (ListKV lib net c mount (joinKV root []) w))" for w
    using assms [of w]
    by (auto simp: listKVChildren_def ValidateRelPath_def Let_def trimSuffix_def hasSuffix_iff hasPrefix_def hasSuffix_def split: prod.splits)
  then have "walkFrom (listKVChildren lib net c mount) root fuel [] w = None" for w
  proof (induction fuel arbitrary: w)
    case (Suc fuel)
    have "joinKV [] [] = []" by (simp add: joinKV_def trimSlashes_def trimLeftByte_def trimRightByte_def)
    with Suc show ?case by simp
  qed simp
  then show ?thesis by (simp add: WalkKV_def)
qed

end
