(* ===== verification/Vault_Copy.thy ===== *)
theory Vault_Copy
  imports Vault_KV
begin

text \<open>
  \<^verbatim>\<open>koc vault kv\<close>: the source's connection flags (\<^verbatim>\<open>src/internal/cli/vault/client.go\<close>), \<^verbatim>\<open>kv copy\<close>
  (\<^verbatim>\<open>copy.go\<close> and the command of \<^verbatim>\<open>kv.go\<close>) and \<^verbatim>\<open>kv list\<close> and \<^verbatim>\<open>kv get\<close> (\<^verbatim>\<open>read.go\<close>). The copy of a run is
  seen in the log of the wire.
\<close>

section \<open>The source's flags\<close>

text \<open>\<open>sf_changed\<close> are the flags typed; the other fields hold the typed value or the default, which is the environment's.\<close>

record srcFlags =
  sf_addr :: gostring
  sf_namespace :: gostring
  sf_token :: gostring
  sf_roleID :: gostring
  sf_secretID :: gostring
  sf_kvMount :: gostring
  sf_kvPrefix :: gostring
  sf_cacert :: gostring
  sf_insecure :: bool
  sf_changed :: "gostring list"

definition srcDefaults :: "environ \<Rightarrow> badEnv \<Rightarrow> srcFlags \<times> badEnv" where
  "srcDefaults env b =
    (let (insecure, b') = EnvBool env ''VAULT_SRC_SKIP_VERIFY'' b in
     (\<lparr>sf_addr = Getenv env ''VAULT_SRC_ADDR'', sf_namespace = Getenv env ''VAULT_SRC_NAMESPACE'',
      sf_token = Getenv env ''VAULT_SRC_TOKEN'', sf_roleID = Getenv env ''VAULT_SRC_ROLE_ID'',
      sf_secretID = Getenv env ''VAULT_SRC_SECRET_ID'', sf_kvMount = Getenv env ''VAULT_SRC_ENGINE'',
      sf_kvPrefix = Getenv env ''VAULT_SRC_PREFIX'', sf_cacert = Getenv env ''VAULT_SRC_CACERT'',
      sf_insecure = insecure, sf_changed = []\<rparr>, b'))"

definition srcExplicit :: "environ \<Rightarrow> srcFlags \<Rightarrow> gostring \<Rightarrow> gostring \<Rightarrow> bool" where
  "srcExplicit env s flag var \<longleftrightarrow> flag \<in> set (sf_changed s) \<or> Getenv env var \<noteq> []"

definition srcStr :: "environ \<Rightarrow> srcFlags \<Rightarrow> gostring \<Rightarrow> gostring \<Rightarrow> gostring \<Rightarrow> gostring \<Rightarrow> gostring" where
  "srcStr env s flag var val dst = (if srcExplicit env s flag var then val else dst)"

definition srcConfig :: "environ \<Rightarrow> (gostring \<Rightarrow> gostring option) \<Rightarrow> srcFlags \<Rightarrow> vaultConfig \<Rightarrow> vaultErr + vaultConfig" where
  "srcConfig env readPEM s dst =
     (let cfg = dst\<lparr>vc_Addr := srcStr env s ''src-vault-addr'' ''VAULT_SRC_ADDR'' (sf_addr s) (vc_Addr dst),
                    vc_Namespace := srcStr env s ''src-vault-namespace'' ''VAULT_SRC_NAMESPACE'' (sf_namespace s) (vc_Namespace dst),
                    vc_KVMount := srcStr env s ''src-vault-kv-mount'' ''VAULT_SRC_ENGINE'' (sf_kvMount s) (vc_KVMount dst)\<rparr>;
          cfg = (if srcExplicit env s ''src-vault-token'' ''VAULT_SRC_TOKEN''
                    \<or> srcExplicit env s ''src-vault-role-id'' ''VAULT_SRC_ROLE_ID''
                    \<or> srcExplicit env s ''src-vault-secret-id'' ''VAULT_SRC_SECRET_ID''
                 then cfg\<lparr>vc_Token := sf_token s, vc_RoleID := sf_roleID s, vc_SecretID := sf_secretID s\<rparr> else cfg)
      in case (if srcExplicit env s ''src-vault-cacert'' ''VAULT_SRC_CACERT'' then readPEM (sf_cacert s) else Some (vc_CACertPEM cfg)) of
           None \<Rightarrow> Inl (VPlain (''reading --src-vault-cacert '' @ sf_cacert s))
         | Some ca \<Rightarrow>
             let cfg = cfg\<lparr>vc_CACertPEM := ca\<rparr> in
             Inr (if srcExplicit env s ''insecure-src-vault'' ''VAULT_SRC_SKIP_VERIFY''
                  then cfg\<lparr>vc_Insecure := sf_insecure s\<rparr> else cfg))"

text \<open>The source client is built first; the warnings of both come with the result.\<close>

definition newVaultClientPair :: "environ \<Rightarrow> (gostring \<Rightarrow> gostring option) \<Rightarrow> vaultLib \<Rightarrow> 'v network \<Rightarrow> srcFlags \<Rightarrow> vaultConfig
    \<Rightarrow> 'v wire \<Rightarrow> (vaultErr + vaultClient \<times> vaultClient) \<times> gostring list \<times> 'v wire" where
  "newVaultClientPair env readPEM lib net s dstCfg w =
     (case srcConfig env readPEM s dstCfg of
        Inl e \<Rightarrow> (Inl e, [], w)
      | Inr srcCfg \<Rightarrow>
          (case vaultNew lib net srcCfg w of
             (Inl e, ws1, w1) \<Rightarrow> (Inl (VWrap ''source vault'' e), ws1, w1)
           | (Inr src, ws1, w1) \<Rightarrow>
               (case vaultNew lib net dstCfg w1 of
                  (Inl e, ws2, w2) \<Rightarrow> (Inl (VWrap ''destination vault'' e), ws1 @ ws2, w2)
                | (Inr dst, ws2, w2) \<Rightarrow> (Inr (src, dst), ws1 @ ws2, w2))))"

section \<open>\<^verbatim>\<open>kv copy\<close>\<close>

record copyOptions =
  co_recursive :: bool
  co_dryRun :: bool
  co_skipExisting :: bool
  co_srcVersion :: int
  co_srcPath :: gostring
  co_dstPath :: gostring
  co_srcDisplay :: gostring

definition statusCopied :: gostring where "statusCopied = ''copied''"
definition statusSkipped :: gostring where "statusSkipped = ''skipped''"
definition statusWould :: gostring where "statusWould = ''would copy''"

definition joinPath :: "gostring \<Rightarrow> gostring \<Rightarrow> gostring" where
  "joinPath base rel = (if rel = [] then base else trimSlashes base @ ''/'' @ rel)"

definition copyVerb :: "bool \<Rightarrow> gostring" where
  "copyVerb dryRun = (if dryRun then ''to copy'' else ''copied'')"

definition kvDescribeTarget :: "vaultClient \<Rightarrow> vaultClient \<Rightarrow> gostring" where
  "kvDescribeTarget src dst =
     (if vaultAddr src = vaultAddr dst \<and> vaultNamespace src = vaultNamespace dst then vaultAddr dst
      else vaultAddr src @ '' -> '' @ vaultAddr dst)"

definition guardSelfCopy :: "vaultClient \<Rightarrow> vaultClient \<Rightarrow> copyOptions \<Rightarrow> vaultErr option" where
  "guardSelfCopy src dst opts =
     (if \<not> (vaultAddr src = vaultAddr dst \<and> vaultNamespace src = vaultNamespace dst \<and> KVMount src = KVMount dst) then None
      else if co_srcPath opts = co_dstPath opts then Some (VPlain ''source and destination are the same secret'')
      else if co_recursive opts \<and> hasPrefix (co_dstPath opts @ ''/'') (co_srcPath opts @ ''/'')
      then Some (VPlain ''destination is inside the source subtree'')
      else None)"

definition copyPlan :: "vaultLib \<Rightarrow> 'v network \<Rightarrow> nat \<Rightarrow> vaultClient \<Rightarrow> gostring \<Rightarrow> copyOptions \<Rightarrow> 'v wire
    \<Rightarrow> ((vaultErr + gostring list) \<times> 'v wire) option" where
  "copyPlan lib net fuel src srcMount opts w =
     (if \<not> co_recursive opts then
        (case ListKV lib net src srcMount (co_srcPath opts) w of
           (Inl e, w') \<Rightarrow>
             Some (if isNotFound e then Inr [[]] else Inl (VWrap (''inspecting source '' @ co_srcPath opts) e), w')
         | (Inr keys, w') \<Rightarrow>
             Some (if keys \<noteq> [] then Inl (VPlain (co_srcDisplay opts @ '' is a folder, not a secret; pass -r to copy the subtree beneath it''))
                   else Inr [[]], w'))
      else
        (case WalkKV lib net fuel src srcMount (co_srcPath opts) w of
           None \<Rightarrow> None
         | Some (Inl e, w') \<Rightarrow> Some (Inl (VWrap (''listing source '' @ co_srcPath opts) e), w')
         | Some (Inr rels, w') \<Rightarrow> Some (Inr (if rels = [] then [[]] else rels), w')))"

definition copyRow :: "gostring \<Rightarrow> gostring \<Rightarrow> nat \<Rightarrow> gostring \<Rightarrow> anyval list" where
  "copyRow from to n status = [VStr from, VStr to, VInt (int n), VStr status]"

text \<open>The part of \<^verbatim>\<open>kvCopyOne\<close> after the probe of \<^verbatim>\<open>--skip-existing\<close>.\<close>

definition copyData :: "vaultLib \<Rightarrow> 'v network \<Rightarrow> vaultClient \<Rightarrow> vaultClient \<Rightarrow> gostring \<Rightarrow> gostring \<Rightarrow> copyOptions
    \<Rightarrow> gostring \<Rightarrow> gostring \<Rightarrow> 'v wire \<Rightarrow> (vaultErr + anyval list \<times> bool) \<times> 'v wire" where
  "copyData lib net src dst srcMount dstMount opts from to w =
     (case ReadKVDataAt lib net src srcMount from (co_srcVersion opts) w of
        (Inl e, w1) \<Rightarrow> (Inl (VWrap (''reading source '' @ from) e), w1)
      | (Inr data, w1) \<Rightarrow>
          if co_dryRun opts then (Inr (copyRow from to (length data) statusWould, False), w1)
          else
            (case WriteKVData lib net dst dstMount to data w1 of
               (Inl e, w2) \<Rightarrow> (Inl (VWrap (''writing destination '' @ to) e), w2)
             | (Inr _, w2) \<Rightarrow> (Inr (copyRow from to (length data) statusCopied, False), w2)))"

definition kvCopyOne :: "vaultLib \<Rightarrow> 'v network \<Rightarrow> vaultClient \<Rightarrow> vaultClient \<Rightarrow> gostring \<Rightarrow> gostring \<Rightarrow> copyOptions
    \<Rightarrow> gostring \<Rightarrow> 'v wire \<Rightarrow> (vaultErr + anyval list \<times> bool) \<times> 'v wire" where
  "kvCopyOne lib net src dst srcMount dstMount opts rel w =
     (case ValidateRelPath rel of
        Some e \<Rightarrow> (Inl (VWrap (''source '' @ co_srcDisplay opts @ '' returned an unsafe secret path '' @ rel) (VPlain e)), w)
      | None \<Rightarrow>
          let from = joinPath (co_srcPath opts) rel; to = joinPath (co_dstPath opts) rel in
          if co_skipExisting opts then
            (case HasKV lib net dst dstMount to w of
               (Inl e, w1) \<Rightarrow> (Inl (VWrap (''checking destination '' @ to) e), w1)
             | (Inr True, w1) \<Rightarrow> (Inr (copyRow from to 0 statusSkipped, True), w1)
             | (Inr False, w1) \<Rightarrow> copyData lib net src dst srcMount dstMount opts from to w1)
          else copyData lib net src dst srcMount dstMount opts from to w)"

text \<open>The loop stops at the first error; the rows come with whether they were skipped.\<close>

fun copyAll :: "(gostring \<Rightarrow> 'w \<Rightarrow> (vaultErr + 'r) \<times> 'w) \<Rightarrow> gostring list \<Rightarrow> 'w \<Rightarrow> (vaultErr + 'r list) \<times> 'w" where
  "copyAll one [] w = (Inr [], w)"
| "copyAll one (rel # rels) w =
     (case one rel w of
        (Inl e, w1) \<Rightarrow> (Inl e, w1)
      | (Inr row, w1) \<Rightarrow> apfst (map_sum id (Cons row)) (copyAll one rels w1))"

definition kvCopyColumns :: "gostring list" where
  "kvCopyColumns = [''Source'', ''Destination'', ''Keys'', ''Status'']"

text \<open>The output layer: the options, the sort of the rows, the highlighter and the width that \<^verbatim>\<open>WriteList\<close> uses.\<close>

record outEnv =
  oe_opts :: outOptions
  oe_sort :: "nat list \<Rightarrow> anyval list list \<Rightarrow> anyval list list"
  oe_hl :: "highlighter option"
  oe_width :: int

definition writeRows :: "outEnv \<Rightarrow> gostring list \<Rightarrow> anyval list list \<Rightarrow> vaultErr + rendered" where
  "writeRows oe cols rows = map_sum VColumn id (WriteList (oe_sort oe) (oe_hl oe) (oe_width oe) (oe_opts oe) cols rows)"

definition copySummary :: "vaultClient \<Rightarrow> vaultClient \<Rightarrow> bool \<Rightarrow> nat \<Rightarrow> nat \<Rightarrow> gostring" where
  "copySummary src dst dryRun n skipped =
     kvDescribeTarget src dst @ '': '' @ itoa (int n - int skipped) @ '' secret(s) '' @ copyVerb dryRun @ '', ''
       @ itoa (int skipped) @ '' skipped'' @ [CHR 0x0A]"

text \<open>The result is the summary on standard error with what is written, or the error.\<close>

definition runKVCopy :: "vaultLib \<Rightarrow> 'v network \<Rightarrow> nat \<Rightarrow> outEnv \<Rightarrow> vaultClient \<Rightarrow> vaultClient \<Rightarrow> copyOptions \<Rightarrow> 'v wire
    \<Rightarrow> ((vaultErr + gostring \<times> (vaultErr + rendered)) \<times> 'v wire) option" where
  "runKVCopy lib net fuel oe src dst opts w =
     (case CheckColumns (oe_opts oe) kvCopyColumns of
        Some e \<Rightarrow> Some (Inl (VColumn e), w)
      | None \<Rightarrow>
          (case guardSelfCopy src dst opts of
             Some e \<Rightarrow> Some (Inl e, w)
           | None \<Rightarrow>
               (case copyPlan lib net fuel src (KVMount src) opts w of
                  None \<Rightarrow> None
                | Some (Inl e, w1) \<Rightarrow> Some (Inl e, w1)
                | Some (Inr rels, w1) \<Rightarrow>
                    if co_srcVersion opts > 0 \<and> length rels > 1
                    then Some (Inl (VPlain (''--src-version applies to a single secret, but '' @ itoa (int (length rels))
                      @ '' were selected under '' @ co_srcDisplay opts)), w1)
                    else
                      (case copyAll (kvCopyOne lib net src dst (KVMount src) (KVMount dst) opts) rels w1 of
                         (Inl e, w2) \<Rightarrow> Some (Inl e, w2)
                       | (Inr rows, w2) \<Rightarrow>
                           Some (Inr (copySummary src dst (co_dryRun opts) (length rows) (length (filter snd rows)),
                             writeRows oe kvCopyColumns (map fst rows)), w2)))))"

text \<open>The command resolves its two paths after the clients are built.\<close>

definition copyCommandOptions :: "environ \<Rightarrow> srcFlags \<Rightarrow> gostring \<Rightarrow> vaultClient \<Rightarrow> vaultClient \<Rightarrow> copyOptions \<Rightarrow> gostring \<Rightarrow> gostring \<Rightarrow> copyOptions" where
  "copyCommandOptions env s dstPrefix src dst flags arg0 arg1 =
     flags\<lparr>co_srcPath := kvResolvePath (srcStr env s ''src-vault-kv-prefix'' ''VAULT_SRC_PREFIX'' (sf_kvPrefix s) dstPrefix) (KVMount src) arg0,
           co_dstPath := kvResolvePath dstPrefix (KVMount dst) arg1, co_srcDisplay := arg0\<rparr>"

section \<open>\<^verbatim>\<open>kv list\<close> and \<^verbatim>\<open>kv get\<close>\<close>

text \<open>The reason of a 404 is appended to the command's own message.\<close>

definition withReason :: "gostring \<Rightarrow> vaultErr \<Rightarrow> vaultErr" where
  "withReason msg e = VPlain (if NotFoundReason e \<noteq> [] then msg @ '' (vault: '' @ NotFoundReason e @ '')'' else msg)"

definition runKVList :: "vaultLib \<Rightarrow> 'v network \<Rightarrow> vaultClient \<Rightarrow> outEnv \<Rightarrow> gostring \<Rightarrow> 'v wire \<Rightarrow> (vaultErr + rendered) \<times> 'v wire" where
  "runKVList lib net c oe path w =
     (case ListKV lib net c (KVMount c) path w of
        (Inl e, w') \<Rightarrow> (Inl (if isNotFound e then withReason (''no keys under '' @ path @ '' in mount '' @ KVMount c) e else e), w')
      | (Inr keys, w') \<Rightarrow> (writeRows oe [''Key''] (map (\<lambda>k. [VStr k]) (sort keys)), w'))"

definition runKVGet :: "vaultLib \<Rightarrow> 'v network \<Rightarrow> vaultClient \<Rightarrow> outEnv \<Rightarrow> gostring \<Rightarrow> int \<Rightarrow> 'v wire
    \<Rightarrow> (vaultErr + (columnError + rendered) option) \<times> 'v wire" where
  "runKVGet lib net c oe path version w =
     (case ReadKVDataAt lib net c (KVMount c) path version w of
        (Inl e, w') \<Rightarrow> (Inl (if isNotFound e then withReason (''no secret at '' @ path @ '' in mount '' @ KVMount c) e else e), w')
      | (Inr data, w') \<Rightarrow>
          (let fields = sort (map fst data)
           in (Inr (WriteSingle (oe_hl oe) (oe_width oe) (oe_opts oe) fields (map (\<lambda>f. the (map_of data f)) fields)), w')))"

section \<open>What a copy sends\<close>

lemma kvSegments_joinPath [simp]: "kvSegments (joinPath base rel) = kvSegments base @ kvSegments rel"
  by (simp add: joinPath_def)

definition isPost :: "vreq \<times> vreply \<Rightarrow> bool" where
  "isPost e \<longleftrightarrow> q_method (fst e) = ''POST''"

definition dataURL :: "vaultClient \<Rightarrow> gostring \<Rightarrow> gostring" where
  "dataURL c path = vaultAddr c @ kvPath (KVMount c) ''data'' path"

definition metadataURL :: "vaultClient \<Rightarrow> gostring \<Rightarrow> gostring" where
  "metadataURL c path = vaultAddr c @ kvPath (KVMount c) ''metadata'' path"

text \<open>
  A request of a copy: a read, or, unless nothing is to be written, a write whose URL names the
  destination or something below it, also after the server cleaned it.
\<close>

definition copyRequest :: "vaultClient \<Rightarrow> copyOptions \<Rightarrow> vreq \<times> vreply \<Rightarrow> bool" where
  "copyRequest dst opts e \<longleftrightarrow>
     isGet e \<or>
     \<not> co_dryRun opts \<and> isPost e \<and> hasPrefix (q_url (fst e)) (vaultAddr dst) \<and>
       insidePath (kvPath (KVMount dst) ''data'' (co_dstPath opts)) (drop (length (vaultAddr dst)) (q_url (fst e)))"

text \<open>
  With \<^verbatim>\<open>--skip-existing\<close> a write comes after a probe of the same secret that answered 404. \<open>S\<close> are the
  URLs already found absent.
\<close>

definition absentURL :: "vreq \<times> vreply \<Rightarrow> gostring set" where
  "absentURL e =
     (case snd e of Reply code st body \<Rightarrow> if q_method (fst e) = ''GET'' \<and> code = 404 then {q_url (fst e)} else {}
      | NoReply s \<Rightarrow> {})"

fun probedFirst :: "vaultClient \<Rightarrow> gostring set \<Rightarrow> (vreq \<times> vreply) list \<Rightarrow> bool" where
  "probedFirst dst S [] = True"
| "probedFirst dst S (e # es) =
     ((isGet e \<or> (\<exists>to. q_url (fst e) = dataURL dst to \<and> metadataURL dst to \<in> S))
      \<and> probedFirst dst (S \<union> absentURL e) es)"

definition allowedTrace :: "vaultClient \<Rightarrow> copyOptions \<Rightarrow> gostring set \<Rightarrow> (vreq \<times> vreply) list \<Rightarrow> bool" where
  "allowedTrace dst opts S es \<longleftrightarrow> list_all (copyRequest dst opts) es \<and> (if co_skipExisting opts then probedFirst dst S es else True)"

definition traced :: "vaultClient \<Rightarrow> copyOptions \<Rightarrow> gostring set \<Rightarrow> 'v wire \<Rightarrow> 'v wire \<Rightarrow> bool" where
  "traced dst opts S w w' \<longleftrightarrow> (\<exists>es. wr_log w' = wr_log w @ es \<and> allowedTrace dst opts S es)"

lemma probedFirst_mono: "probedFirst dst S es \<Longrightarrow> S \<subseteq> S' \<Longrightarrow> probedFirst dst S' es"
proof (induction es arbitrary: S S')
  case (Cons e es)
  then have "probedFirst dst (S' \<union> absentURL e) es" by (metis Un_mono order_refl probedFirst.simps(2))
  with Cons.prems show ?case by auto
qed simp

lemma probedFirst_append: "probedFirst dst S a \<Longrightarrow> probedFirst dst S b \<Longrightarrow> probedFirst dst S (a @ b)"
proof (induction a arbitrary: S)
  case (Cons e a)
  then have "probedFirst dst (S \<union> absentURL e) (a @ b)" by (auto intro: probedFirst_mono)
  with Cons.prems show ?case by simp
qed simp

lemma probedFirst_gets: "list_all isGet es \<Longrightarrow> probedFirst dst S es"
  by (induction es arbitrary: S) auto

lemma allowedTrace_Nil [simp]: "allowedTrace dst opts S []"
  by (simp add: allowedTrace_def)

lemma traced_refl [simp]: "traced dst opts S w w"
  by (simp add: traced_def allowedTrace_def)

lemma traced_trans: "traced dst opts S a b \<Longrightarrow> traced dst opts S b c \<Longrightarrow> traced dst opts S a c"
  by (fastforce simp: traced_def allowedTrace_def intro: probedFirst_append)

lemma get_traced: "logged isGet w w' \<Longrightarrow> traced dst opts S w w'"
  by (auto simp: logged_iff traced_def allowedTrace_def copyRequest_def probedFirst_gets list_all_iff)

lemma safeSegment_dots: "list_all safeSegment segs \<Longrightarrow> ''..'' \<notin> set segs" "list_all safeSegment segs \<Longrightarrow> [] \<notin> set segs"
  using safe_plain by (auto simp: list_all_iff safeSegment_def)

lemma WriteKVData_traced:
  assumes "ValidateRelPath rel = None" and "\<not> co_dryRun opts"
    and "co_skipExisting opts \<Longrightarrow> metadataURL dst (joinPath (co_dstPath opts) rel) \<in> S"
  shows "traced dst opts S w (snd (WriteKVData lib net dst (KVMount dst) (joinPath (co_dstPath opts) rel) data w))"
proof (cases "vl_body lib data")
  case (Some body)
  let ?to = "joinPath (co_dstPath opts) rel"
  let ?path = "kvPath (KVMount dst) ''data'' ?to" and ?e = "\<lambda>reply. (vaultRequest dst ''POST'' (kvPath (KVMount dst) ''data'' ?to) (Some body), reply)"
  have "insidePath (kvPath (KVMount dst) ''data'' (co_dstPath opts)) ?path"
    using valid_safe [OF assms(1)] by (intro kvPath_inside) (auto simp: safeSegment_dots)
  then have "copyRequest dst opts (?e reply)" for reply
    using assms(2) by (simp add: copyRequest_def isPost_def vaultRequest_def vaultAddr_def)
  moreover have "q_url (fst (?e reply)) = dataURL dst ?to" for reply
    by (simp add: vaultRequest_def dataURL_def vaultAddr_def)
  ultimately have "allowedTrace dst opts S [?e reply]" for reply
    using assms(3) by (auto simp: allowedTrace_def)
  then show ?thesis
    using Some vaultDo_logged [of lib dst "''POST''" ?path "Some body" net "\<lambda>_. Some ()" w]
    by (auto simp: WriteKVData_def traced_def)
qed (simp add: WriteKVData_def)

lemma copyData_traced:
  assumes "ValidateRelPath rel = None"
    and "co_skipExisting opts \<Longrightarrow> metadataURL dst (joinPath (co_dstPath opts) rel) \<in> S"
  shows "traced dst opts S w
    (snd (copyData lib net src dst srcMount (KVMount dst) opts frm (joinPath (co_dstPath opts) rel) w))"
proof -
  obtain r w1 where r: "ReadKVDataAt lib net src srcMount frm (co_srcVersion opts) w = (r, w1)" by fastforce
  then have 1: "traced dst opts S w w1"
    using get_traced [OF ReadKVDataAt_get [of w lib net src srcMount frm "co_srcVersion opts"]] by simp
  show ?thesis
  proof (cases r)
    case (Inr data)
    have 2: "traced dst opts S w1 (snd (WriteKVData lib net dst (KVMount dst) (joinPath (co_dstPath opts) rel) data w1))"
      if "\<not> co_dryRun opts" using assms(1) that assms(2) by (rule WriteKVData_traced)
    show ?thesis
      using 1 2 Inr r traced_trans [OF 1 2] by (auto simp: copyData_def split: prod.splits sum.splits)
  qed (use 1 r in \<open>simp add: copyData_def\<close>)
qed

lemma vaultReply_notFound:
  "vaultReply lib m path dec reply = Inl e \<Longrightarrow> isNotFound e \<Longrightarrow> \<exists>st body. reply = Reply 404 st body"
  by (auto simp: vaultReply_def Let_def split: vreply.splits if_splits option.splits)

lemma HasKV_absent:
  assumes "HasKV lib net dst (KVMount dst) path w = (Inr False, w1)"
  shows "\<exists>e. wr_log w1 = wr_log w @ [e] \<and> isGet e \<and> absentURL e = {metadataURL dst path}"
proof -
  let ?u = "kvPath (KVMount dst) ''metadata'' path" and ?q = "vaultRequest dst ''GET'' (kvPath (KVMount dst) ''metadata'' path) None"
  obtain r w2 where r: "vaultDo lib net dst ''GET'' ?u None (\<lambda>_. Some ()) w = (r, w2)" by fastforce
  then obtain e where e: "r = Inl e" "isNotFound e" "w2 = w1"
    using assms by (auto simp: HasKV_def split: sum.splits if_splits)
  then obtain reply where reply: "wr_log w1 = wr_log w @ [(?q, reply)]" "vaultReply lib ''GET'' ?u (\<lambda>_. Some ()) reply = Inl e"
    using r vaultDo_logged [of lib dst "''GET''" ?u None net "\<lambda>_. Some ()" w]
    by (auto simp: vaultDo_def Let_def split: if_splits prod.splits)
  moreover from vaultReply_notFound [OF this(2) e(2)] obtain st body where "reply = Reply 404 st body" by blast
  ultimately show ?thesis
    by (simp add: isGet_def absentURL_def vaultRequest_def metadataURL_def vaultAddr_def)
qed

lemma kvCopyOne_traced:
  "traced dst opts {} w (snd (kvCopyOne lib net src dst srcMount (KVMount dst) opts rel w))"
proof (cases "ValidateRelPath rel")
  case None
  let ?to = "joinPath (co_dstPath opts) rel"
  show ?thesis
  proof (cases "co_skipExisting opts")
    case False
    then show ?thesis
      using None copyData_traced [OF None, of opts dst "{}" w lib net src srcMount "joinPath (co_srcPath opts) rel"]
      by (simp add: kvCopyOne_def Let_def)
  next
    case True
    obtain r w1 where r: "HasKV lib net dst (KVMount dst) ?to w = (r, w1)" by fastforce
    show ?thesis
    proof (cases "r = Inr False")
      case absent: True
      with r obtain e where e: "wr_log w1 = wr_log w @ [e]" "isGet e" "absentURL e = {metadataURL dst ?to}"
        using HasKV_absent by blast
      from copyData_traced [OF None, of opts dst "{metadataURL dst ?to}" w1 lib net src srcMount "joinPath (co_srcPath opts) rel"]
      have "traced dst opts {} w (snd (copyData lib net src dst srcMount (KVMount dst) opts (joinPath (co_srcPath opts) rel) ?to w1))"
        using e True by (auto simp: traced_def allowedTrace_def copyRequest_def)
      then show ?thesis using None True r absent by (simp add: kvCopyOne_def Let_def)
    next
      case False
      then have "snd (kvCopyOne lib net src dst srcMount (KVMount dst) opts rel w) = w1"
        using None True r by (auto simp: kvCopyOne_def Let_def split: sum.splits bool.splits)
      moreover have "traced dst opts {} w w1" using get_traced [OF HasKV_get [of w lib net dst "KVMount dst" ?to]] r by simp
      ultimately show ?thesis by simp
    qed
  qed
qed (simp add: kvCopyOne_def)

lemma copyAll_traced:
  assumes "\<And>rel w. traced dst opts S w (snd (one rel w))"
  shows "traced dst opts S w (snd (copyAll one rels w))"
proof (induction rels arbitrary: w)
  case (Cons rel rels)
  obtain r w1 where r: "one rel w = (r, w1)" by fastforce
  then have "traced dst opts S w w1" using assms [of w rel] by simp
  then show ?case using r Cons [of w1] by (auto split: sum.splits intro: traced_trans)
qed simp

lemma copyPlan_get: "copyPlan lib net fuel src srcMount opts w = Some (r, w') \<Longrightarrow> logged isGet w w'"
  using ListKV_get [of w lib net src srcMount "co_srcPath opts"]
  by (auto simp: copyPlan_def split: if_splits prod.splits sum.splits option.splits dest: WalkKV_sound(1))

lemma runKVCopy_traced:
  assumes "runKVCopy lib net fuel oe src dst opts w = Some (r, w')"
  shows "traced dst opts {} w w'"
proof (cases "copyPlan lib net fuel src (KVMount src) opts w")
  case None
  then show ?thesis using assms by (auto simp: runKVCopy_def split: option.splits)
next
  case (Some p)
  obtain plan w1 where p: "p = (plan, w1)" by fastforce
  then have 1: "traced dst opts {} w w1" using Some copyPlan_get get_traced by blast
  have 2: "traced dst opts {} w1
      (snd (copyAll (kvCopyOne lib net src dst (KVMount src) (KVMount dst) opts) rels w1))" for rels
    by (intro copyAll_traced kvCopyOne_traced)
  have 3: "traced dst opts {} w v"
    if "copyAll (kvCopyOne lib net src dst (KVMount src) (KVMount dst) opts) rels w1 = (x, v)" for rels x v
    using traced_trans [OF 1 2 [of rels]] that by simp
  show ?thesis
    using assms Some p 1 3
    by (auto simp: runKVCopy_def split: option.splits sum.splits if_splits prod.splits)
qed

section \<open>A copy that succeeds mirrors the source\<close>

text \<open>The two requests that copy one secret: what the source answered is what the destination accepted.\<close>

definition copiedBy :: "vaultLib \<Rightarrow> vaultClient \<Rightarrow> vaultClient \<Rightarrow> copyOptions \<Rightarrow> gostring \<Rightarrow> (vreq \<times> vreply) list \<Rightarrow> bool" where
  "copiedBy lib src dst opts rel es \<longleftrightarrow>
     (\<exists>data body q1 r1 q2 r2. es = [(q1, r1), (q2, r2)]
        \<and> isGet (q1, r1) \<and> hasPrefix (q_url q1) (dataURL src (joinPath (co_srcPath opts) rel))
        \<and> vaultReply lib ''GET'' (drop (length (vaultAddr src)) (q_url q1)) (vl_secret lib) r1 = Inr (Some data)
        \<and> isPost (q2, r2) \<and> q_url q2 = dataURL dst (joinPath (co_dstPath opts) rel)
        \<and> vl_body lib data = Some body \<and> q_body q2 = Some body
        \<and> (\<exists>code st b. r2 = Reply code st b \<and> 200 \<le> code \<and> code < 300))"

lemma vaultDo_Inr:
  assumes "vaultDo lib net c m path body dec w = (Inr x, w')"
  shows "\<exists>reply. wr_log w' = wr_log w @ [(vaultRequest c m path body, reply)] \<and> vaultReply lib m path dec reply = Inr x"
  using assms by (auto simp: vaultDo_def Let_def split: if_splits prod.splits)

lemma kvCopyOne_copied:
  assumes "kvCopyOne lib net src dst (KVMount src) (KVMount dst) opts rel w = (Inr row, w')"
    and "\<not> co_dryRun opts" and "\<not> co_skipExisting opts"
  shows "\<exists>es. wr_log w' = wr_log w @ es \<and> copiedBy lib src dst opts rel es"
proof -
  let ?from = "joinPath (co_srcPath opts) rel" and ?to = "joinPath (co_dstPath opts) rel"
  have "copyData lib net src dst (KVMount src) (KVMount dst) opts ?from ?to w = (Inr row, w')"
    using assms by (auto simp: kvCopyOne_def Let_def split: option.splits)
  then obtain data w1 where rd: "ReadKVDataAt lib net src (KVMount src) ?from (co_srcVersion opts) w = (Inr data, w1)"
      and wr: "WriteKVData lib net dst (KVMount dst) ?to data w1 = (Inr (), w')"
    using assms(2) by (auto simp: copyData_def split: prod.splits sum.splits)
  let ?u = "kvPath (KVMount src) ''data'' ?from @ (if co_srcVersion opts > 0 then ''?version='' @ itoa (co_srcVersion opts) else [])"
  have "vaultDo lib net src ''GET'' ?u None (vl_secret lib) w = (Inr (Some data), w1)"
    using rd by (auto simp: ReadKVDataAt_def Let_def split: prod.splits sum.splits option.splits)
  from vaultDo_Inr [OF this] obtain r1 where r1: "wr_log w1 = wr_log w @ [(vaultRequest src ''GET'' ?u None, r1)]"
      "vaultReply lib ''GET'' ?u (vl_secret lib) r1 = Inr (Some data)" by blast
  obtain body where body: "vl_body lib data = Some body"
      "vaultDo lib net dst ''POST'' (kvPath (KVMount dst) ''data'' ?to) (Some body) (\<lambda>_. Some ()) w1 = (Inr (), w')"
    using wr by (auto simp: WriteKVData_def split: option.splits)
  from vaultDo_Inr [OF this(2)] obtain r2 where
      r2: "wr_log w' = wr_log w1 @ [(vaultRequest dst ''POST'' (kvPath (KVMount dst) ''data'' ?to) (Some body), r2)]"
        "vaultReply lib ''POST'' (kvPath (KVMount dst) ''data'' ?to) (\<lambda>_. Some ()) r2 = Inr ()" by blast
  have ok: "\<exists>code st b. r2 = Reply code st b \<and> 200 \<le> code \<and> code < 300"
    using r2(2) by (auto simp: vaultReply_def Let_def split: vreply.splits if_splits)
  have url: "q_url (vaultRequest src ''GET'' ?u None) = vaultAddr src @ ?u"
    by (simp add: vaultRequest_def vaultAddr_def)
  have "copiedBy lib src dst opts rel
      [(vaultRequest src ''GET'' ?u None, r1), (vaultRequest dst ''POST'' (kvPath (KVMount dst) ''data'' ?to) (Some body), r2)]"
    unfolding copiedBy_def
    by (rule exI [of _ data], rule exI [of _ body]) (use r1(2) body(1) ok url in \<open>auto simp: isGet_def isPost_def vaultRequest_def dataURL_def vaultAddr_def hasPrefix_iff\<close>)
  then show ?thesis using r1(1) r2(1) by auto
qed

lemma copyAll_copied:
  assumes "copyAll (kvCopyOne lib net src dst (KVMount src) (KVMount dst) opts) rels w = (Inr rows, w')"
    and "\<not> co_dryRun opts" and "\<not> co_skipExisting opts"
  shows "\<exists>ess. wr_log w' = wr_log w @ concat ess \<and> list_all2 (copiedBy lib src dst opts) rels ess"
  using assms(1)
proof (induction rels arbitrary: w rows)
  case (Cons rel rels)
  obtain row w1 where one: "kvCopyOne lib net src dst (KVMount src) (KVMount dst) opts rel w = (Inr row, w1)"
    using Cons.prems by (auto split: prod.splits sum.splits)
  then obtain rows1 where rest: "copyAll (kvCopyOne lib net src dst (KVMount src) (KVMount dst) opts) rels w1 = (Inr rows1, w')"
    using Cons.prems by (auto simp: apfst_def map_prod_def map_sum_id_Inr split: prod.splits)
  from kvCopyOne_copied [OF one assms(2,3)] obtain es where "wr_log w1 = wr_log w @ es" "copiedBy lib src dst opts rel es" by blast
  moreover from Cons.IH [OF rest] obtain ess where "wr_log w' = wr_log w1 @ concat ess" "list_all2 (copiedBy lib src dst opts) rels ess" by blast
  ultimately show ?case by (intro exI [of _ "es # ess"]) simp
qed simp

lemma runKVCopy_plan:
  assumes "runKVCopy lib net fuel oe src dst opts w = Some (Inr res, w')"
    and "copyPlan lib net fuel src (KVMount src) opts w = Some (Inr rels, w1)"
  shows "\<exists>rows. copyAll (kvCopyOne lib net src dst (KVMount src) (KVMount dst) opts) rels w1 = (Inr rows, w')"
  using assms by (auto simp: runKVCopy_def split: option.splits sum.splits if_splits prod.splits)

section \<open>The properties\<close>

text \<open>
  C13. Whatever the two servers answer, a \<^verbatim>\<open>kv copy\<close> that ran has sent, besides reads, only writes whose
  URL names the destination path or something below it, also after the dot segments are resolved;
  with \<^verbatim>\<open>--dry-run\<close> none; and with \<^verbatim>\<open>--skip-existing\<close> only writes of secrets whose probe, earlier in
  the same run, answered 404.
\<close>

theorem copy_writes_only_where_allowed:
  "case runKVCopy lib net fuel oe src dst opts w of
     None \<Rightarrow> walkFrom (listKVChildren lib net src (KVMount src)) (co_srcPath opts) fuel [] w = None
   | Some (r, w') \<Rightarrow> \<exists>es. wr_log w' = wr_log w @ es \<and> allowedTrace dst opts {} es"
proof (cases "runKVCopy lib net fuel oe src dst opts w")
  case None
  then show ?thesis
    by (auto simp: runKVCopy_def copyPlan_def WalkKV_def split: option.splits sum.splits prod.splits if_splits)
next
  case (Some p)
  then show ?thesis
    using runKVCopy_traced [of lib net fuel oe src dst opts w "fst p" "snd p"] by (auto simp: traced_def split: prod.splits)
qed

text \<open>
  C14. A recursive copy that succeeds has, after the listings, read every secret of the source subtree
  once, in the order of their paths, and written what was read under the same relative path of the
  destination, where the server accepted it.
\<close>

theorem recursive_copy_mirrors:
  assumes "servesTree lib net src (KVMount src) T S" and "wr_state w \<in> S"
    and "deepest T (kvSegments (co_srcPath opts)) fuel" and "0 < fuel"
    and "below T (kvSegments (co_srcPath opts)) \<noteq> {}"
    and "co_recursive opts" and "\<not> co_dryRun opts" and "\<not> co_skipExisting opts"
    and "runKVCopy lib net fuel oe src dst opts w = Some (Inr res, w')"
  shows "\<exists>gets ess. wr_log w' = wr_log w @ gets @ concat ess \<and> list_all isGet gets
    \<and> list_all2 (copiedBy lib src dst opts)
        (sorted_list_of_set (joinWith ''/'' ` below T (kvSegments (co_srcPath opts)))) ess"
proof -
  let ?rels = "sorted_list_of_set (joinWith ''/'' ` below T (kvSegments (co_srcPath opts)))"
  obtain w1 where walk: "WalkKV lib net fuel src (KVMount src) (co_srcPath opts) w = Some (Inr ?rels, w1)"
    using WalkKV_complete(1) [OF assms(1-4)] by blast
  show ?thesis
  proof (cases "?rels = []")
    case False
    then have "copyPlan lib net fuel src (KVMount src) opts w = Some (Inr ?rels, w1)"
      using walk assms(6) by (simp add: copyPlan_def)
    from runKVCopy_plan [OF assms(9) this] obtain rows where
        "copyAll (kvCopyOne lib net src dst (KVMount src) (KVMount dst) opts) ?rels w1 = (Inr rows, w')" by blast
    from copyAll_copied [OF this assms(7,8)] obtain ess where
        "wr_log w' = wr_log w1 @ concat ess" "list_all2 (copiedBy lib src dst opts) ?rels ess" by blast
    moreover obtain gets where "wr_log w1 = wr_log w @ gets" "list_all isGet gets"
      using WalkKV_sound(1) [OF walk] by (auto simp: logged_iff)
    ultimately show ?thesis by (intro exI [of _ gets] exI [of _ ess]) simp
  next
    case True
    then show ?thesis using WalkKV_complete(2) [OF assms(1-4)] assms(5) by simp
  qed
qed

text \<open>
  On the paths of one Vault that have no empty segment the guard of \<^verbatim>\<open>kv copy\<close> is exact: it
  refuses a copy if and only if the destination is the source, or lies below it and the copy is
  recursive.
\<close>

definition canonicalPath :: "gostring \<Rightarrow> bool" where
  "canonicalPath p \<longleftrightarrow> p \<noteq> [] \<and> list_all (\<lambda>s. s \<noteq> []) (splitOn (CHR ''/'') p)"

lemma canonical_segments: "canonicalPath p \<Longrightarrow> joinWith ''/'' (kvSegments p) = p"
  using join_splitOn [of "CHR ''/''" p] by (simp add: canonicalPath_def kvSegments_filter list_all_iff filter_True)

lemma canonical_prefix:
  assumes "canonicalPath a" "canonicalPath b"
  shows "hasPrefix (b @ ''/'') (a @ ''/'') \<longleftrightarrow> take (length (kvSegments a)) (kvSegments b) = kvSegments a"
proof
  assume "hasPrefix (b @ ''/'') (a @ ''/'')"
  then obtain r where r: "b @ ''/'' = a @ CHR ''/'' # r" by (auto simp: hasPrefix_iff)
  then have "kvSegments (b @ CHR ''/'' # []) = kvSegments a @ kvSegments r"
    by (simp only: kvSegments_slash)
  then show "take (length (kvSegments a)) (kvSegments b) = kvSegments a" by (simp only: kvSegments_slash) simp
next
  assume "take (length (kvSegments a)) (kvSegments b) = kvSegments a"
  then obtain m where m: "kvSegments b = kvSegments a @ m" by (metis append_take_drop_id)
  have ne: "kvSegments a \<noteq> []" using canonical_segments [OF assms(1)] assms(1) by (auto simp: canonicalPath_def)
  have "joinWith ''/'' (x @ m) @ ''/'' = joinWith ''/'' x @ ''/'' @ (if m = [] then [] else joinWith ''/'' m @ ''/'')" if "x \<noteq> []" for x
    using that by (induction x rule: induct_list012) (auto simp: joinWith_Cons)
  from this [OF ne] show "hasPrefix (b @ ''/'') (a @ ''/'')"
    using canonical_segments [OF assms(1)] canonical_segments [OF assms(2)] m by (auto simp: hasPrefix_iff)
qed

lemma self_copy_guard_is_exact:
  assumes "vaultAddr src = vaultAddr dst" "vaultNamespace src = vaultNamespace dst" "KVMount src = KVMount dst"
    and "canonicalPath (co_srcPath opts)" "canonicalPath (co_dstPath opts)"
  shows "guardSelfCopy src dst opts \<noteq> None \<longleftrightarrow>
    kvSegments (co_dstPath opts) = kvSegments (co_srcPath opts)
    \<or> co_recursive opts \<and> take (length (kvSegments (co_srcPath opts))) (kvSegments (co_dstPath opts)) = kvSegments (co_srcPath opts)"
proof -
  have "co_srcPath opts = co_dstPath opts \<longleftrightarrow> kvSegments (co_dstPath opts) = kvSegments (co_srcPath opts)"
    using canonical_segments assms(4,5) by metis
  then show ?thesis using assms canonical_prefix [OF assms(4,5)] by (auto simp: guardSelfCopy_def)
qed

text \<open>
  Off those paths it is not. The root of a mount does not count as a source above anything, and a
  doubled slash, which the request drops, makes two spellings of one secret differ.
\<close>

lemma self_copy_guard_gaps:
  assumes "co_srcPath opts = [] \<and> co_dstPath opts = ''backup'' \<or> co_srcPath opts = ''a//b'' \<and> co_dstPath opts = ''a/b''"
  shows "guardSelfCopy c c opts = None"
  using assms by (auto simp: guardSelfCopy_def hasPrefix_iff)

section \<open>A sample\<close>

text \<open>A store with one secret, \<open>k\<close>, in the mount \<open>src\<close>, whose server accepts every write.\<close>

definition kvLib :: vaultLib where
  "kvLib = \<lparr>vl_url = (\<lambda>u. Some (''https'', ''v'')), vl_pool = (\<lambda>p. True), vl_login = (\<lambda>r s. r @ s),
     vl_body = (\<lambda>d. Some ''B''), vl_token = (\<lambda>b. Some b), vl_secret = (\<lambda>b. Some (Some [(''f'', VStr ''x'')])),
     vl_keys = (\<lambda>b. Some [''k'']), vl_errors = (\<lambda>b. Some []), vl_notFound = (\<lambda>b. None)\<rparr>"

definition kvNet :: "unit network" where
  "kvNet q s =
     (if q_method q = ''POST'' then Reply 204 [] []
      else if q_url q = ''https://v/v1/src/metadata?list=true'' then Reply 200 [] ''K''
      else if hasPrefix (q_url q) ''https://v/v1/src/data'' then Reply 200 [] ''D''
      else Reply 404 [] [], s)"

definition kvClient :: "gostring \<Rightarrow> vaultClient" where
  "kvClient mount =
     \<lparr>vk_cfg = \<lparr>vc_Addr = ''https://v'', vc_Namespace = [], vc_Token = ''t'', vc_RoleID = [], vc_SecretID = [],
        vc_ApprolePath = [], vc_KVMount = mount, vc_CACertPEM = [], vc_Insecure = False, vc_Timeout = 0\<rparr>,
      vk_token = ''t'', vk_timeout = 0, vk_verify = True, vk_roots = None\<rparr>"

definition kvOpts :: copyOptions where
  "kvOpts = \<lparr>co_recursive = True, co_dryRun = False, co_skipExisting = False, co_srcVersion = 0, co_srcPath = [],
     co_dstPath = ''b'', co_srcDisplay = ''/''\<rparr>"

definition kvOut :: outEnv where
  "kvOut = \<lparr>oe_opts = \<lparr>oo_Format = FormatJSON, oo_Columns = [], oo_MaxWidth = 0, oo_FitWidth = False,
     oo_SortColumns = [], oo_displayWidth = 0, oo_compactRows = False\<rparr>, oe_sort = (\<lambda>k r. r), oe_hl = None, oe_width = 0\<rparr>"

lemma kvPath_concat:
  "kvPath mount api path = ''/v1/'' @ PathEscape (trimSlashes mount) @ ''/'' @ api
     @ concat (map (\<lambda>s. ''/'' @ PathEscape s) (kvSegments path))"
proof -
  have "fold (\<lambda>seg p. p @ ''/'' @ PathEscape seg) segs p = p @ concat (map (\<lambda>s. ''/'' @ PathEscape s) segs)" for segs p
    by (induction segs arbitrary: p) simp_all
  then show ?thesis by (simp add: kvPath_def)
qed

lemma kv_names:
  "KVMount (kvClient ''src'') = ''src''" "PathEscape ''src'' = ''src''" "trimSlashes ''src'' = ''src''"
  "KVMount (kvClient ''dst'') = ''dst''" "PathEscape ''dst'' = ''dst''" "trimSlashes ''dst'' = ''dst''"
  "PathEscape ''k'' = ''k''" "PathEscape ''b'' = ''b''" "trimSlashes [] = []" "trimSlashes ''k'' = ''k''" "trimSlashes ''b'' = ''b''"
  "trimRightByte ''https://v'' (CHR ''/'') = ''https://v''"
  "vk_token (kvClient m) = ''t''" "vc_Addr (vk_cfg (kvClient m)) = ''https://v''" "vc_Namespace (vk_cfg (kvClient m)) = []"
  by (simp_all add: KVMount_def kvClient_def trimSlashes_def trimLeftByte_def trimRightByte_def PathEscape_def
      unreserved_def isAlnum_def byte_def)

lemma kv_plain: "plainSegment ''k''"
  by (simp add: plainSegment_def safeSegment_def hasPrefix_def)

lemma kv_serves: "servesTree kvLib kvNet (kvClient ''src'') ''src'' {[''k'']} {()}"
proof -
  have "listsKeys kvLib (childKeys {[''k'']} (kvSegments path))
      (fst (kvNet (vaultRequest (kvClient ''src'') ''GET'' (kvPath ''src'' ''metadata'' path @ ''?list=true'') None) ()))" for path
  proof (cases "kvSegments path")
    case Nil
    then show ?thesis
      by (auto simp: listsKeys_def childKeys_def kvNet_def vaultRequest_def kvPath_concat kv_names kvClient_def kvLib_def)
  next
    case (Cons x xs)
    then have "childKeys {[''k'']} (kvSegments path) = {}" by (auto simp: childKeys_def Cons_eq_append_conv)
    then show ?thesis using Cons
      by (auto simp: listsKeys_def kvNet_def vaultRequest_def kvPath_concat kv_names kvClient_def kvLib_def hasPrefix_def)
  qed
  then show ?thesis by (simp add: servesTree_def kv_plain kvLib_def Let_def) 
qed

lemma kv_below: "below {[''k'']} (kvSegments (co_srcPath kvOpts)) = {[''k'']}"
  by (auto simp: below_def kvOpts_def)

lemma recursive_copy_mirrors_witness:
  "\<exists>res w'. runKVCopy kvLib kvNet 1 kvOut (kvClient ''src'') (kvClient ''dst'') kvOpts \<lparr>wr_state = (), wr_log = []\<rparr> = Some (Inr res, w')
     \<and> (\<exists>gets ess. wr_log w' = gets @ concat ess \<and> list_all isGet gets
          \<and> list_all2 (copiedBy kvLib (kvClient ''src'') (kvClient ''dst'') kvOpts) [''k''] ess)"
proof -
  have "\<exists>res w'. runKVCopy kvLib kvNet 1 kvOut (kvClient ''src'') (kvClient ''dst'') kvOpts \<lparr>wr_state = (), wr_log = []\<rparr>
      = Some (Inr res, w')"
    by (simp add: runKVCopy_def CheckColumns_def validateColumns_def kvOut_def guardSelfCopy_def kv_names copyPlan_def kvOpts_def
        WalkKV_def listKVChildren_def ListKV_def vaultDo_def kvNet_def vaultRequest_def kvPath_concat kvLib_def Let_def
        vaultReply_def joinKV_def ValidateRelPath_def trimSuffix_def hasSuffix_def hasPrefix_def kvCopyOne_def joinPath_def copyData_def
        ReadKVDataAt_def WriteKVData_def kvSegments_filter copyRow_def)
  then obtain res w' where run: "runKVCopy kvLib kvNet 1 kvOut (kvClient ''src'') (kvClient ''dst'') kvOpts \<lparr>wr_state = (), wr_log = []\<rparr>
      = Some (Inr res, w')" by blast
  moreover have "servesTree kvLib kvNet (kvClient ''src'') (KVMount (kvClient ''src'')) {[''k'']} {()}" by (simp add: kv_names kv_serves)
  from recursive_copy_mirrors [OF this _ _ _ _ _ _ _ run] kv_below
  have "\<exists>gets ess. wr_log w' = gets @ concat ess \<and> list_all isGet gets
          \<and> list_all2 (copiedBy kvLib (kvClient ''src'') (kvClient ''dst'') kvOpts) [''k''] ess"
    by (simp add: deepest_def kvOpts_def)
  ultimately show ?thesis by blast
qed

lemma self_copy_guard_is_exact_witness:
  "guardSelfCopy (kvClient ''src'') (kvClient ''src'') (kvOpts\<lparr>co_srcPath := ''a'', co_dstPath := ''a/b''\<rparr>) \<noteq> None"
  using self_copy_guard_is_exact [of "kvClient ''src''" "kvClient ''src''" "kvOpts\<lparr>co_srcPath := ''a'', co_dstPath := ''a/b''\<rparr>"]
  by (simp add: canonicalPath_def kvSegments_filter kvOpts_def)

end
