(* ===== verification/Vault_Export.thy ===== *)
theory Vault_Export
  imports Vault_Copy
begin

text \<open>
  \<^verbatim>\<open>koc vault kv export\<close> and \<^verbatim>\<open>decrypt\<close>: the envelope (\<^verbatim>\<open>src/internal/cli/vault/crypt.go\<close>), the report
  (\<^verbatim>\<open>export.go\<close>) and its decryption (\<^verbatim>\<open>decrypt.go\<close>). AES-GCM, RSA-OAEP, the parsers of keys and the JSON
  and XML codecs are arguments, as is the randomness of each payload; base64 is defined here.
\<close>

section \<open>Base64\<close>

definition b64Alphabet :: gostring where
  "b64Alphabet = ''ABCDEFGHIJKLMNOPQRSTUVWXYZabcdefghijklmnopqrstuvwxyz0123456789+/''"

definition b64Char :: "nat \<Rightarrow> char" where
  "b64Char n = b64Alphabet ! n"

definition b64Val :: "char \<Rightarrow> nat option" where
  "b64Val c = indexByte b64Alphabet c"

fun b64Encode :: "gostring \<Rightarrow> gostring" where
  "b64Encode [] = []"
| "b64Encode [a] = [b64Char (byte a div 4), b64Char (byte a mod 4 * 16), CHR ''='', CHR ''='']"
| "b64Encode [a, b] =
     [b64Char (byte a div 4), b64Char (byte a mod 4 * 16 + byte b div 16), b64Char (byte b mod 16 * 4), CHR ''='']"
| "b64Encode (a # b # c # s) =
     [b64Char (byte a div 4), b64Char (byte a mod 4 * 16 + byte b div 16),
      b64Char (byte b mod 16 * 4 + byte c div 64), b64Char (byte c mod 64)] @ b64Encode s"

text \<open>Decoding, after the line breaks it ignores; \<^const>\<open>None\<close> is a \<^verbatim>\<open>CorruptInputError\<close>.\<close>

fun b64Quanta :: "gostring \<Rightarrow> gostring option" where
  "b64Quanta [] = Some []"
| "b64Quanta (c1 # c2 # c3 # c4 # s) =
     (case (b64Val c1, b64Val c2) of
        (Some v1, Some v2) \<Rightarrow>
          let x1 = char_of (v1 * 4 + v2 div 16) in
          if c3 = CHR ''='' then (if c4 = CHR ''='' \<and> s = [] then Some [x1] else None)
          else (case b64Val c3 of
              None \<Rightarrow> None
            | Some v3 \<Rightarrow>
                let x2 = char_of (v2 mod 16 * 16 + v3 div 4) in
                if c4 = CHR ''='' then (if s = [] then Some [x1, x2] else None)
                else (case b64Val c4 of
                    None \<Rightarrow> None
                  | Some v4 \<Rightarrow> map_option ((@) [x1, x2, char_of (v3 mod 4 * 64 + v4)]) (b64Quanta s)))
      | _ \<Rightarrow> None)"
| "b64Quanta _ = None"

definition b64Decode :: "gostring \<Rightarrow> gostring option" where
  "b64Decode s = b64Quanta (filter (\<lambda>c. c \<noteq> CHR 0x0A \<and> c \<noteq> CHR 0x0D) s)"

section \<open>The envelope\<close>

text \<open>
  AES-GCM by key, nonce, text and additional data, and RSA-OAEP by the key of either side; wrapping
  takes randomness of its own and fails for a text too long for the key.
\<close>

record ('pub, 'priv) crypto =
  cr_seal :: "gostring \<Rightarrow> gostring \<Rightarrow> gostring \<Rightarrow> gostring \<Rightarrow> gostring"
  cr_open :: "gostring \<Rightarrow> gostring \<Rightarrow> gostring \<Rightarrow> gostring \<Rightarrow> gostring option"
  cr_wrap :: "'pub \<Rightarrow> gostring \<Rightarrow> gostring \<Rightarrow> gostring option"
  cr_unwrap :: "'priv \<Rightarrow> gostring \<Rightarrow> gostring option"

text \<open>What \<^verbatim>\<open>crypto/rand\<close> returns for one payload; a read may fail.\<close>

record randomness =
  rn_key :: "gostring option"
  rn_nonce :: "gostring option"
  rn_oaep :: gostring

datatype cryptErr =
    NoDataKey | NoNonce | BadKeySize nat | WrapFailed | NoHeaderLine | UnsupportedFormat gostring | BadBase64
  | Truncated | UnwrapFailed | NotAuthentic gostring

definition envelopeHeader :: gostring where
  "envelopeHeader = ''koc-enc:v1:rsa-oaep-sha256:aes-256-gcm''"

definition gcmNonceLen :: nat where "gcmNonceLen = 12"
definition minRecipientBits :: nat where "minRecipientBits = 2048"

text \<open>\<^verbatim>\<open>aes.NewCipher\<close> takes keys of three sizes.\<close>

definition aesKeySize :: "nat \<Rightarrow> bool" where
  "aesKeySize n \<longleftrightarrow> n \<in> {16, 24, 32}"

definition appendUint16 :: "nat \<Rightarrow> gostring" where
  "appendUint16 n = [char_of (n mod 65536 div 256), char_of (n mod 256)]"

definition encryptPayload :: "('pub, 'priv) crypto \<Rightarrow> 'pub \<Rightarrow> randomness \<Rightarrow> gostring \<Rightarrow> gostring \<Rightarrow> cryptErr + gostring" where
  "encryptPayload cr pub rnd aad plaintext =
     (case rn_key rnd of
        None \<Rightarrow> Inl NoDataKey
      | Some key \<Rightarrow>
          if \<not> aesKeySize (length key) then Inl (BadKeySize (length key))
          else (case rn_nonce rnd of
              None \<Rightarrow> Inl NoNonce
            | Some nonce \<Rightarrow>
                let ct = cr_seal cr key nonce plaintext aad in
                (case cr_wrap cr pub (rn_oaep rnd) key of
                   None \<Rightarrow> Inl WrapFailed
                 | Some wrapped \<Rightarrow>
                     Inr (envelopeHeader @ [CHR 0x0A] @ b64Encode (appendUint16 (length wrapped) @ wrapped @ nonce @ ct)))))"

definition decryptPayload :: "('pub, 'priv) crypto \<Rightarrow> 'priv \<Rightarrow> gostring \<Rightarrow> gostring \<Rightarrow> cryptErr + gostring" where
  "decryptPayload cr priv aad envelope =
     (let (header, b64, ok) = cut (trimSpace envelope) (CHR 0x0A) in
      if \<not> ok then Inl NoHeaderLine
      else if trimSpace header \<noteq> envelopeHeader then Inl (UnsupportedFormat (trimSpace header))
      else case b64Decode (concat (Go_Strings.fields b64)) of
          None \<Rightarrow> Inl BadBase64
        | Some raw \<Rightarrow>
            if length raw < 2 then Inl Truncated
            else
              let wrappedLen = byte (raw ! 0) * 256 + byte (raw ! 1) in
              if length raw < 2 + wrappedLen + gcmNonceLen then Inl Truncated
              else
                let wrapped = take wrappedLen (drop 2 raw);
                    nonce = take gcmNonceLen (drop (2 + wrappedLen) raw);
                    ct = drop (2 + wrappedLen + gcmNonceLen) raw
                in case cr_unwrap cr priv wrapped of
                     None \<Rightarrow> Inl UnwrapFailed
                   | Some key \<Rightarrow>
                       if \<not> aesKeySize (length key) then Inl (BadKeySize (length key))
                       else (case cr_open cr key nonce ct aad of
                           None \<Rightarrow> Inl (NotAuthentic aad)
                         | Some plaintext \<Rightarrow> Inr plaintext))"

text \<open>
  The key files. A PEM block has a type, whether it names the \<^verbatim>\<open>DEK-Info\<close> header, and its bytes; a parsed
  key is RSA, with its modulus size, or of another type.
\<close>

datatype 'k parsedKey = RSAKey 'k nat | OtherKey gostring

record ('pub, 'priv) keyFiles =
  kf_read :: "gostring \<Rightarrow> gostring option"
  kf_pem :: "gostring \<Rightarrow> (gostring \<times> bool \<times> gostring) option"
  kf_pkixPublic :: "gostring \<Rightarrow> 'pub parsedKey option"
  kf_pkcs1Public :: "gostring \<Rightarrow> 'pub parsedKey option"
  kf_certificate :: "gostring \<Rightarrow> 'pub parsedKey option"
  kf_pkcs1Private :: "gostring \<Rightarrow> 'priv parsedKey option"
  kf_pkcs8Private :: "gostring \<Rightarrow> 'priv parsedKey option"

datatype keyErr =
    KeyUnreadable | KeyNotPEM | KeyWrongBlock gostring | KeyUnparsable | KeyNotRSA gostring | KeyTooSmall nat | KeyEncrypted

definition loadRecipient :: "('pub, 'priv) keyFiles \<Rightarrow> gostring \<Rightarrow> keyErr + 'pub" where
  "loadRecipient kf path =
     (case kf_read kf path of
        None \<Rightarrow> Inl KeyUnreadable
      | Some b \<Rightarrow>
          (case kf_pem kf b of
             None \<Rightarrow> Inl KeyNotPEM
           | Some (type, _, bytes) \<Rightarrow>
               if type \<notin> {''PUBLIC KEY'', ''RSA PUBLIC KEY'', ''CERTIFICATE''} then Inl (KeyWrongBlock type)
               else (case (if type = ''PUBLIC KEY'' then kf_pkixPublic kf bytes
                           else if type = ''RSA PUBLIC KEY'' then kf_pkcs1Public kf bytes
                           else kf_certificate kf bytes) of
                   None \<Rightarrow> Inl KeyUnparsable
                 | Some (OtherKey t) \<Rightarrow> Inl (KeyNotRSA t)
                 | Some (RSAKey pub bits) \<Rightarrow> if bits < minRecipientBits then Inl (KeyTooSmall bits) else Inr pub)))"

definition loadIdentity :: "('pub, 'priv) keyFiles \<Rightarrow> gostring \<Rightarrow> keyErr + 'priv" where
  "loadIdentity kf path =
     (case kf_read kf path of
        None \<Rightarrow> Inl KeyUnreadable
      | Some b \<Rightarrow>
          (case kf_pem kf b of
             None \<Rightarrow> Inl KeyNotPEM
           | Some (type, dekInfo, bytes) \<Rightarrow>
               if dekInfo then Inl KeyEncrypted
               else if type = ''ENCRYPTED PRIVATE KEY'' then Inl KeyEncrypted
               else if type \<notin> {''RSA PRIVATE KEY'', ''PRIVATE KEY''} then Inl (KeyWrongBlock type)
               else (case (if type = ''RSA PRIVATE KEY'' then kf_pkcs1Private kf bytes else kf_pkcs8Private kf bytes) of
                   None \<Rightarrow> Inl KeyUnparsable
                 | Some (OtherKey t) \<Rightarrow> Inl (KeyNotRSA t)
                 | Some (RSAKey priv bits) \<Rightarrow> Inr priv)))"

section \<open>The report\<close>

record junitCase =
  jc_Classname :: gostring
  jc_Name :: gostring
  jc_Skipped :: "gostring option"
  jc_Failure :: "gostring option"
  jc_SystemOut :: gostring

record junitSuite =
  js_Name :: gostring
  js_Tests :: nat
  js_Failures :: nat
  js_Skipped :: nat
  js_Cases :: "junitCase list"

definition classKV :: gostring where "classKV = ''vault.kv''"
definition classKVSSL :: gostring where "classKVSSL = ''vault.kv.ssl''"
definition sslCertsSecret :: gostring where "sslCertsSecret = ''ssl_certificates''"

definition tally :: "junitSuite \<Rightarrow> junitSuite" where
  "tally s =
     s\<lparr>js_Tests := length (js_Cases s),
       js_Failures := length (filter (\<lambda>tc. jc_Failure tc \<noteq> None) (js_Cases s)),
       js_Skipped := length (filter (\<lambda>tc. jc_Failure tc = None \<and> jc_Skipped tc \<noteq> None) (js_Cases s))\<rparr>"

definition sortedKeys :: "secret \<Rightarrow> gostring list" where
  "sortedKeys data = sort (map fst data)"

text \<open>The JSON codec of a secret and the XML codec of a report; \<open>xm_decode\<close> is the decoder on a stream's contents.\<close>

record reportCodec =
  rc_marshal :: "secret \<Rightarrow> gostring option"
  rc_unmarshal :: "gostring \<Rightarrow> secret option"
  rc_encode :: "junitSuite \<Rightarrow> gostring option"
  rc_decode :: "gostring \<Rightarrow> junitSuite option"

datatype exportErr = ExportCrypt gostring cryptErr | ExportJSON gostring | ExportXML | ExportVault vaultErr

definition stringValue :: "secret \<Rightarrow> gostring \<Rightarrow> gostring" where
  "stringValue data k = (case map_of data k of Some (VStr s) \<Rightarrow> s | _ \<Rightarrow> [])"

text \<open>Each payload draws fresh randomness, numbered in the order of the payloads.\<close>

fun sslCases :: "('pub, 'priv) crypto \<Rightarrow> 'pub \<Rightarrow> (nat \<Rightarrow> randomness) \<Rightarrow> gostring \<Rightarrow> secret \<Rightarrow> gostring list \<Rightarrow> nat
    \<Rightarrow> (exportErr + junitCase list) \<times> nat" where
  "sslCases cr pub rnds path data [] i = (Inr [], i)"
| "sslCases cr pub rnds path data (k # ks) i =
     (let name = path @ '':'' @ k; s = stringValue data k in
      if s = [] then
        apfst (map_sum id (Cons \<lparr>jc_Classname = classKVSSL, jc_Name = name, jc_Skipped = Some ''empty value'', jc_Failure = None,
          jc_SystemOut = []\<rparr>)) (sslCases cr pub rnds path data ks i)
      else (case encryptPayload cr pub (rnds i) name s of
          Inl e \<Rightarrow> (Inl (ExportCrypt name e), Suc i)
        | Inr payload \<Rightarrow>
            apfst (map_sum id (Cons \<lparr>jc_Classname = classKVSSL, jc_Name = name, jc_Skipped = None, jc_Failure = None,
              jc_SystemOut = payload\<rparr>)) (sslCases cr pub rnds path data ks (Suc i))))"

definition isSSLSecret :: "gostring \<Rightarrow> bool" where
  "isSSLSecret path \<longleftrightarrow> hasSuffix path (''/'' @ sslCertsSecret) \<or> path = sslCertsSecret"

definition exportCases :: "('pub, 'priv) crypto \<Rightarrow> reportCodec \<Rightarrow> 'pub \<Rightarrow> (nat \<Rightarrow> randomness) \<Rightarrow> gostring \<Rightarrow> secret \<Rightarrow> nat
    \<Rightarrow> (exportErr + junitCase list) \<times> nat" where
  "exportCases cr rc pub rnds path data i =
     (if data = [] then
        (Inr [\<lparr>jc_Classname = classKV, jc_Name = path, jc_Skipped = Some ''empty secret'', jc_Failure = None, jc_SystemOut = []\<rparr>], i)
      else if isSSLSecret path then sslCases cr pub rnds path data (sortedKeys data) i
      else (case rc_marshal rc data of
          None \<Rightarrow> (Inl (ExportJSON path), i)
        | Some plaintext \<Rightarrow>
            (case encryptPayload cr pub (rnds i) path plaintext of
               Inl e \<Rightarrow> (Inl (ExportCrypt path e), Suc i)
             | Inr payload \<Rightarrow>
                 (Inr [\<lparr>jc_Classname = classKV, jc_Name = path, jc_Skipped = None, jc_Failure = None, jc_SystemOut = payload\<rparr>], Suc i))))"

definition readFailure :: "vaultErr \<Rightarrow> gostring" where
  "readFailure e =
     (if isNotFound e then
        ''secret not found or has no readable version''
          @ (if NotFoundReason e \<noteq> [] then '' (vault: '' @ NotFoundReason e @ '')'' else [])
      else vaultErrText e)"

text \<open>The report's cases of what was read at a path.\<close>

definition readCases :: "('pub, 'priv) crypto \<Rightarrow> reportCodec \<Rightarrow> 'pub \<Rightarrow> (nat \<Rightarrow> randomness) \<Rightarrow> gostring \<Rightarrow> vaultErr + secret \<Rightarrow> nat
    \<Rightarrow> (exportErr + junitCase list) \<times> nat" where
  "readCases cr rc pub rnds path r i =
     (case r of
        Inl e \<Rightarrow> (Inr [\<lparr>jc_Classname = classKV, jc_Name = path, jc_Skipped = None, jc_Failure = Some (readFailure e), jc_SystemOut = []\<rparr>], i)
      | Inr data \<Rightarrow> exportCases cr rc pub rnds path data i)"

definition exportSecret :: "vaultLib \<Rightarrow> 'v network \<Rightarrow> ('pub, 'priv) crypto \<Rightarrow> reportCodec \<Rightarrow> vaultClient \<Rightarrow> 'pub \<Rightarrow> (nat \<Rightarrow> randomness)
    \<Rightarrow> gostring \<Rightarrow> gostring \<Rightarrow> nat \<Rightarrow> 'v wire \<Rightarrow> (exportErr + junitCase list) \<times> nat \<times> 'v wire" where
  "exportSecret lib net cr rc c pub rnds mount path i w =
     (let (r, w') = ReadKVDataAt lib net c mount path 0 w; (cases, i') = readCases cr rc pub rnds path r i
      in (cases, i', w'))"

fun exportAll :: "(gostring \<Rightarrow> nat \<Rightarrow> 'w \<Rightarrow> (exportErr + junitCase list) \<times> nat \<times> 'w) \<Rightarrow> gostring \<Rightarrow> gostring list \<Rightarrow> nat \<Rightarrow> 'w
    \<Rightarrow> (exportErr + junitCase list) \<times> nat \<times> 'w" where
  "exportAll one base [] i w = (Inr [], i, w)"
| "exportAll one base (rel # rels) i w =
     (case ValidateRelPath rel of
        Some e \<Rightarrow> (Inl (ExportVault (VWrap (''listing '' @ base @ '' returned an unsafe secret path '' @ rel) (VPlain e))), i, w)
      | None \<Rightarrow>
          (case one (joinPath base rel) i w of
             (Inl e, i1, w1) \<Rightarrow> (Inl e, i1, w1)
           | (Inr cases, i1, w1) \<Rightarrow> apfst (map_sum id ((@) cases)) (exportAll one base rels i1 w1)))"

text \<open>The result is the suite; writing it is the XML encoder's and the writer's.\<close>

definition runKVExport :: "vaultLib \<Rightarrow> 'v network \<Rightarrow> nat \<Rightarrow> ('pub, 'priv) crypto \<Rightarrow> reportCodec \<Rightarrow> vaultClient \<Rightarrow> 'pub
    \<Rightarrow> (nat \<Rightarrow> randomness) \<Rightarrow> gostring \<Rightarrow> 'v wire \<Rightarrow> ((exportErr + junitSuite \<times> gostring) \<times> 'v wire) option" where
  "runKVExport lib net fuel cr rc c pub rnds base w =
     (case WalkKV lib net fuel c (KVMount c) base w of
        None \<Rightarrow> None
      | Some (Inl e, w1) \<Rightarrow> Some (Inl (ExportVault (VWrap (''listing '' @ base) e)), w1)
      | Some (Inr rels0, w1) \<Rightarrow>
          (let rels = (if rels0 = [] then [[]] else rels0) in
           case exportAll (exportSecret lib net cr rc c pub rnds (KVMount c)) base rels 0 w1 of
             (Inl e, _, w2) \<Rightarrow> Some (Inl e, w2)
           | (Inr cases, _, w2) \<Rightarrow>
               (let suite = tally \<lparr>js_Name = ''vault:'' @ base, js_Tests = 0, js_Failures = 0, js_Skipped = 0, js_Cases = cases\<rparr> in
                case rc_encode rc suite of
                  None \<Rightarrow> Some (Inl ExportXML, w2)
                | Some text \<Rightarrow> Some (Inr (suite, text), w2))))"

section \<open>Decryption\<close>

datatype decryptErr = DecryptXML | DecryptPayload gostring cryptErr | NotASecret gostring | NoPayloads | DecryptColumn columnError

definition decryptCase :: "('pub, 'priv) crypto \<Rightarrow> reportCodec \<Rightarrow> 'priv \<Rightarrow> junitCase \<Rightarrow> decryptErr + anyval list list option" where
  "decryptCase cr rc priv tc =
     (if trimSpace (jc_SystemOut tc) = [] then Inr None
      else case decryptPayload cr priv (jc_Name tc) (jc_SystemOut tc) of
          Inl e \<Rightarrow> Inl (DecryptPayload (jc_Name tc) e)
        | Inr plaintext \<Rightarrow>
            if jc_Classname tc = classKVSSL then
              (let (path, key, _) = cut (jc_Name tc) (CHR '':'') in Inr (Some [[VStr path, VStr key, VStr plaintext]]))
            else (case rc_unmarshal rc plaintext of
                None \<Rightarrow> Inl (NotASecret (jc_Name tc))
              | Some data \<Rightarrow> Inr (Some (map (\<lambda>k. [VStr (jc_Name tc), VStr k, the (map_of data k)]) (sortedKeys data)))))"

text \<open>The rows, and how many payloads were decrypted.\<close>

fun decryptCases :: "('pub, 'priv) crypto \<Rightarrow> reportCodec \<Rightarrow> 'priv \<Rightarrow> junitCase list \<Rightarrow> decryptErr + anyval list list \<times> nat" where
  "decryptCases cr rc priv [] = Inr ([], 0)"
| "decryptCases cr rc priv (tc # tcs) =
     (case decryptCase cr rc priv tc of
        Inl e \<Rightarrow> Inl e
      | Inr None \<Rightarrow> decryptCases cr rc priv tcs
      | Inr (Some rows) \<Rightarrow> map_sum id (map_prod ((@) rows) Suc) (decryptCases cr rc priv tcs))"

definition runKVDecrypt :: "('pub, 'priv) crypto \<Rightarrow> reportCodec \<Rightarrow> 'priv \<Rightarrow> outEnv \<Rightarrow> gostring \<Rightarrow> decryptErr + rendered" where
  "runKVDecrypt cr rc priv oe report =
     (case rc_decode rc report of
        None \<Rightarrow> Inl DecryptXML
      | Some suite \<Rightarrow>
          (case decryptCases cr rc priv (js_Cases suite) of
             Inl e \<Rightarrow> Inl e
           | Inr (rows, decrypted) \<Rightarrow>
               if decrypted = 0 then Inl NoPayloads
               else map_sum DecryptColumn id
                 (WriteList (oe_sort oe) (oe_hl oe) (oe_width oe) (oe_opts oe) [''Path'', ''Key'', ''Value''] rows)))"

section \<open>The envelope opens\<close>

lemma b64_alphabet:
  assumes "n < 64"
  shows "b64Val (b64Char n) = Some n" "b64Char n \<noteq> CHR ''=''" "33 \<le> byte (b64Char n)" "byte (b64Char n) < 0x80"
proof -
  have "list_all (\<lambda>n. b64Val (b64Char n) = Some n \<and> b64Char n \<noteq> CHR ''='' \<and> 33 \<le> byte (b64Char n) \<and> byte (b64Char n) < 0x80) [0..<64]"
    by code_simp
  then show "b64Val (b64Char n) = Some n" "b64Char n \<noteq> CHR ''=''" "33 \<le> byte (b64Char n)" "byte (b64Char n) < 0x80"
    using assms by (auto simp: list_all_iff)
qed

lemma byte_bound: "byte c < 256"
  by (simp add: byte_def)

lemma b64_bounds:
  "byte a div 4 < 64" "byte a mod 4 * 16 < 64" "byte a mod 4 * 16 + byte b div 16 < 64" "byte b mod 16 * 4 < 64"
  "byte b mod 16 * 4 + byte c div 64 < 64" "byte c mod 64 < 64"
  using byte_bound [of a] byte_bound [of b] byte_bound [of c] by auto

lemma b64_joins:
  "byte b div 16 div 16 = 0" "byte b div 16 mod 16 = byte b div 16" "byte c div 64 div 4 = 0" "byte c div 64 mod 4 = byte c div 64"
  using byte_bound [of b] byte_bound [of c] by auto

lemma b64_roundtrip: "b64Quanta (b64Encode s) = Some s"
  by (induction s rule: b64Encode.induct) (simp_all add: b64_alphabet b64_bounds Let_def b64_joins)

lemma b64_plain: "plainWord (b64Encode s)"
  by (induction s rule: b64Encode.induct)
    (simp_all add: plainWord_def b64_alphabet b64_bounds, simp_all add: byte_def)

lemma fieldsGo_noSpace: "noSpace rs \<Longrightarrow> cur @ rs \<noteq> [] \<Longrightarrow> fieldsGo cur rs = [cur @ rs]"
  by (induction rs arbitrary: cur) auto

lemma fields_plain:
  assumes "plainWord s" "s \<noteq> []"
  shows "Go_Strings.fields s = [s]"
proof -
  have "noSpace (runes s)" "runes s \<noteq> []"
    using assms plainWord_space by (auto simp: plainWord_runes plainWord_def list_all_iff)
  then show ?thesis using assms by (simp add: Go_Strings.fields_def fieldsGo_noSpace plainWord_runes concat_map_singleton)
qed

lemma b64Decode_encode: "b64Decode (b64Encode s) = Some s"
proof -
  have "filter (\<lambda>c. c \<noteq> CHR 0x0A \<and> c \<noteq> CHR 0x0D) (b64Encode s) = b64Encode s"
    using b64_plain [of s] by (auto simp: plainWord_def list_all_iff byte_def intro!: filter_True)
  then show ?thesis by (simp add: b64Decode_def b64_roundtrip)
qed

lemma dropWhile_id: "xs \<noteq> [] \<Longrightarrow> \<not> P (hd xs) \<Longrightarrow> dropWhile P xs = xs"
  by (cases xs) auto

text \<open>Plain words around a line break are trimmed already.\<close>

lemma trimSpace_lines:
  assumes "plainWord a" "a \<noteq> []" "plainWord b" "b \<noteq> []"
  shows "trimSpace (a @ CHR 0x0A # b) = a @ CHR 0x0A # b"
proof -
  have r: "runes (a @ CHR 0x0A # b) = map (\<lambda>c. [c]) (a @ CHR 0x0A # b)"
    using assms by (intro runes_ascii) (auto simp: plainWord_def runeSelf_def list_all_iff byte_def)
  have "\<not> isSpaceRune [hd a]" "\<not> isSpaceRune [last b]"
    using assms plainWord_space by (auto simp: plainWord_def list_all_iff)
  then have 1: "dropWhile isSpaceRune (runes (a @ CHR 0x0A # b)) = runes (a @ CHR 0x0A # b)"
    and 2: "dropWhile isSpaceRune (rev (runes (a @ CHR 0x0A # b))) = rev (runes (a @ CHR 0x0A # b))"
    using assms by (auto simp: r hd_append hd_rev last_map rev_map hd_map intro!: dropWhile_id)
  show ?thesis unfolding trimSpace_def 1 2 using concat_map_singleton [of "\<lambda>c. c" "a @ CHR 0x0A # b"] by (simp add: r)
qed

text \<open>What is relied on of the ciphers: unwrapping inverts wrapping and opening inverts sealing.\<close>

definition cryptoLaws :: "('pub, 'priv) crypto \<Rightarrow> 'pub \<Rightarrow> 'priv \<Rightarrow> bool" where
  "cryptoLaws cr pub priv \<longleftrightarrow>
     (\<forall>r key wrapped. cr_wrap cr pub r key = Some wrapped \<longrightarrow> cr_unwrap cr priv wrapped = Some key \<and> length wrapped < 65536)
     \<and> (\<forall>key nonce text aad. cr_open cr key nonce (cr_seal cr key nonce text aad) aad = Some text)"

definition goodRandomness :: "randomness \<Rightarrow> bool" where
  "goodRandomness rnd \<longleftrightarrow> (case rn_nonce rnd of Some n \<Rightarrow> length n = gcmNonceLen | None \<Rightarrow> True)"

lemma header_plain: "plainWord envelopeHeader" "envelopeHeader \<noteq> []"
  by (simp_all add: envelopeHeader_def plainWord_def byte_def)

lemma b64Encode_Nil [simp]: "b64Encode s = [] \<longleftrightarrow> s = []"
  by (cases s rule: b64Encode.cases) auto

lemma uint16_roundtrip: "n < 65536 \<Longrightarrow> byte (char_of (n mod 65536 div 256)) * 256 + byte (char_of (n mod 256)) = n"
  by (simp add: byte_def)

lemma decryptPayload_envelope:
  assumes "cr_unwrap cr priv wrapped = Some key" "length wrapped < 65536" "length nonce = gcmNonceLen" "aesKeySize (length key)"
  shows "decryptPayload cr priv aad (envelopeHeader @ [CHR 0x0A] @ b64Encode (appendUint16 (length wrapped) @ wrapped @ nonce @ ct))
    = (case cr_open cr key nonce ct aad of None \<Rightarrow> Inl (NotAuthentic aad) | Some p \<Rightarrow> Inr p)"
proof -
  let ?raw = "appendUint16 (length wrapped) @ wrapped @ nonce @ ct"
  have ne: "b64Encode ?raw \<noteq> []" by (simp add: appendUint16_def)
  have t: "trimSpace (envelopeHeader @ [CHR 0x0A] @ b64Encode ?raw) = envelopeHeader @ CHR 0x0A # b64Encode ?raw"
    using trimSpace_lines [OF header_plain b64_plain ne] by simp
  have nl: "CHR 0x0A \<notin> set envelopeHeader" by (simp add: envelopeHeader_def)
  have d: "b64Decode (concat (Go_Strings.fields (b64Encode ?raw))) = Some ?raw"
    using fields_plain [OF b64_plain ne] by (simp add: b64Decode_encode)
  have n: "byte (?raw ! 0) * 256 + byte (?raw ! 1) = length wrapped" "length ?raw = 2 + length wrapped + gcmNonceLen + length ct"
    using assms(2,3) uint16_roundtrip [OF assms(2)] by (simp_all add: appendUint16_def)
  have parts: "take (length wrapped) (drop 2 ?raw) = wrapped" "take gcmNonceLen (drop (2 + length wrapped) ?raw) = nonce"
      "drop (2 + length wrapped + gcmNonceLen) ?raw = ct"
    using assms(3) by (simp_all add: appendUint16_def)
  show ?thesis
    unfolding decryptPayload_def t cut_at [OF nl] Let_def prod.case d option.case n parts trimSpace_plain [OF header_plain(1)]
    using assms(1,4) by simp
qed

text \<open>A payload opens under the name it was sealed for and under no other, when the cipher authenticates its additional data.\<close>

definition authenticates :: "('pub, 'priv) crypto \<Rightarrow> bool" where
  "authenticates cr \<longleftrightarrow>
     (\<forall>key nonce text aad aad'. aad' \<noteq> aad \<longrightarrow> cr_open cr key nonce (cr_seal cr key nonce text aad) aad' = None)"

lemma encryptPayload_Inr:
  assumes "encryptPayload cr pub rnd aad plaintext = Inr env" and "goodRandomness rnd" and "cryptoLaws cr pub priv"
  shows "\<exists>key nonce. decryptPayload cr priv aad' env
    = (case cr_open cr key nonce (cr_seal cr key nonce plaintext aad) aad' of None \<Rightarrow> Inl (NotAuthentic aad') | Some p \<Rightarrow> Inr p)"
    and "hasPrefix env envelopeHeader"
proof -
  obtain key nonce wrapped where e: "aesKeySize (length key)" "rn_nonce rnd = Some nonce" "cr_wrap cr pub (rn_oaep rnd) key = Some wrapped"
      "env = envelopeHeader @ [CHR 0x0A] @ b64Encode (appendUint16 (length wrapped) @ wrapped @ nonce @ cr_seal cr key nonce plaintext aad)"
    using assms(1) by (auto simp: encryptPayload_def Let_def split: option.splits if_splits)
  have "cr_unwrap cr priv wrapped = Some key" "length wrapped < 65536" "length nonce = gcmNonceLen"
    using assms(2,3) e(2,3) by (auto simp: cryptoLaws_def goodRandomness_def)
  from decryptPayload_envelope [OF this e(1)] show "\<exists>key nonce. decryptPayload cr priv aad' env
      = (case cr_open cr key nonce (cr_seal cr key nonce plaintext aad) aad' of None \<Rightarrow> Inl (NotAuthentic aad') | Some p \<Rightarrow> Inr p)"
    unfolding e(4) by blast
  show "hasPrefix env envelopeHeader" by (simp add: e(4))
qed

lemma payload_roundtrip:
  assumes "encryptPayload cr pub rnd aad plaintext = Inr env" and "goodRandomness rnd" and "cryptoLaws cr pub priv"
  shows "decryptPayload cr priv aad env = Inr plaintext"
  using encryptPayload_Inr(1) [OF assms, of aad] assms(3) by (auto simp: cryptoLaws_def)

lemma payload_not_blank:
  assumes "encryptPayload cr pub rnd aad plaintext = Inr env"
  shows "trimSpace env \<noteq> []"
proof -
  obtain raw where "env = envelopeHeader @ CHR 0x0A # b64Encode raw" "raw \<noteq> []"
    using assms by (auto simp: encryptPayload_def Let_def appendUint16_def split: option.splits if_splits)
  then show ?thesis using trimSpace_lines [OF header_plain b64_plain, of raw] by simp
qed

text \<open>
  C16. A payload opens with the identity of its recipient under the name it was sealed for, and gives
  back exactly what was sealed; under any other name, as when it was moved to another test case of the
  report, it does not open.
\<close>

theorem payload_opens_only_under_its_name:
  assumes "encryptPayload cr pub rnd aad plaintext = Inr env" and "goodRandomness rnd"
    and "cryptoLaws cr pub priv" and "authenticates cr"
  shows "decryptPayload cr priv aad' env = (if aad' = aad then Inr plaintext else Inl (NotAuthentic aad'))"
  using encryptPayload_Inr(1) [OF assms(1-3), of aad'] payload_roundtrip [OF assms(1-3)] assms(4)
  by (auto simp: authenticates_def)

section \<open>What an export seals, a decryption recovers\<close>

definition secretRows :: "gostring \<Rightarrow> secret \<Rightarrow> anyval list list" where
  "secretRows path data =
     (if isSSLSecret path
      then map (\<lambda>k. [VStr path, VStr k, VStr (stringValue data k)]) (filter (\<lambda>k. stringValue data k \<noteq> []) (sortedKeys data))
      else map (\<lambda>k. [VStr path, VStr k, the (map_of data k)]) (sortedKeys data))"

definition readRows :: "gostring \<Rightarrow> vaultErr + secret \<Rightarrow> anyval list list" where
  "readRows path r = (case r of Inl e \<Rightarrow> [] | Inr data \<Rightarrow> secretRows path data)"

text \<open>
  The JSON codec gives the secret back, and the path of certificates has no colon, since the report
  separates the path from the key by one.
\<close>

definition recoverable :: "reportCodec \<Rightarrow> gostring \<Rightarrow> vaultErr + secret \<Rightarrow> bool" where
  "recoverable rc path r \<longleftrightarrow>
     (case r of Inl e \<Rightarrow> True
      | Inr data \<Rightarrow> if isSSLSecret path then CHR '':'' \<notin> set path
          else (case rc_marshal rc data of None \<Rightarrow> True | Some p \<Rightarrow> rc_unmarshal rc p = Some data))"

text \<open>The rows of a list of cases, without the count.\<close>

definition recovers :: "('pub, 'priv) crypto \<Rightarrow> reportCodec \<Rightarrow> 'priv \<Rightarrow> junitCase list \<Rightarrow> anyval list list \<Rightarrow> bool" where
  "recovers cr rc priv tcs rows \<longleftrightarrow> map_sum id fst (decryptCases cr rc priv tcs) = Inr rows"

lemma recovers_Nil [simp]: "recovers cr rc priv [] rows \<longleftrightarrow> rows = []"
  by (auto simp: recovers_def)

lemma recovers_Cons:
  "decryptCase cr rc priv tc = Inr r \<Longrightarrow> recovers cr rc priv tcs rows
   \<Longrightarrow> recovers cr rc priv (tc # tcs) ((case r of None \<Rightarrow> [] | Some x \<Rightarrow> x) @ rows)"
  by (cases r; cases "decryptCases cr rc priv tcs") (auto simp: recovers_def split: prod.splits)

lemma recovers_append:
  "recovers cr rc priv a x \<Longrightarrow> recovers cr rc priv b y \<Longrightarrow> recovers cr rc priv (a @ b) (x @ y)"
proof (induction a arbitrary: x)
  case (Cons tc a)
  obtain r where r: "decryptCase cr rc priv tc = Inr r"
    using Cons.prems(1) by (cases "decryptCase cr rc priv tc") (auto simp: recovers_def)
  obtain z where z: "recovers cr rc priv a z" "x = (case r of None \<Rightarrow> [] | Some x \<Rightarrow> x) @ z"
    using Cons.prems(1) r by (cases r; cases "decryptCases cr rc priv a") (auto simp: recovers_def)
  show ?case using recovers_Cons [OF r Cons.IH [OF z(1) Cons.prems(2)]] z(2) by simp
qed simp

lemma blank_case: "jc_SystemOut tc = [] \<Longrightarrow> decryptCase cr rc priv tc = Inr None"
  by (simp add: decryptCase_def trimSpace_def)

lemma sealed_ssl_case:
  assumes "encryptPayload cr pub rnd (path @ '':'' @ k) s = Inr env" and "goodRandomness rnd" and "cryptoLaws cr pub priv"
    and "CHR '':'' \<notin> set path"
  shows "decryptCase cr rc priv \<lparr>jc_Classname = classKVSSL, jc_Name = path @ '':'' @ k, jc_Skipped = None, jc_Failure = None, jc_SystemOut = env\<rparr>
    = Inr (Some [[VStr path, VStr k, VStr s]])"
  using payload_roundtrip [OF assms(1-3)] payload_not_blank [OF assms(1)] cut_at [OF assms(4)] by (simp add: decryptCase_def)

lemma sslCases_recovers:
  assumes "sslCases cr pub rnds path data ks i = (Inr tcs, i')" and "\<And>i. goodRandomness (rnds i)" and "cryptoLaws cr pub priv"
    and "CHR '':'' \<notin> set path"
  shows "recovers cr rc priv tcs (map (\<lambda>k. [VStr path, VStr k, VStr (stringValue data k)]) (filter (\<lambda>k. stringValue data k \<noteq> []) ks))"
  using assms(1)
proof (induction ks arbitrary: i tcs)
  case (Cons k ks)
  show ?case
  proof (cases "stringValue data k = []")
    case True
    then obtain rest where rest: "sslCases cr pub rnds path data ks i = (Inr rest, i')"
        "tcs = \<lparr>jc_Classname = classKVSSL, jc_Name = path @ '':'' @ k, jc_Skipped = Some ''empty value'', jc_Failure = None, jc_SystemOut = []\<rparr> # rest"
      using Cons.prems by (auto simp: Let_def apfst_def map_prod_def map_sum_id_Inr split: prod.splits)
    show ?thesis using True recovers_Cons [OF blank_case Cons.IH [OF rest(1)]] rest(2) by simp
  next
    case False
    then obtain env where env: "encryptPayload cr pub (rnds i) (path @ '':'' @ k) (stringValue data k) = Inr env"
      using Cons.prems by (auto simp: Let_def split: sum.splits)
    then obtain rest where rest: "sslCases cr pub rnds path data ks (Suc i) = (Inr rest, i')"
        "tcs = \<lparr>jc_Classname = classKVSSL, jc_Name = path @ '':'' @ k, jc_Skipped = None, jc_Failure = None, jc_SystemOut = env\<rparr> # rest"
      using Cons.prems False by (auto simp: Let_def apfst_def map_prod_def map_sum_id_Inr split: prod.splits)
    show ?thesis
      using False recovers_Cons [OF sealed_ssl_case [OF env assms(2-4)] Cons.IH [OF rest(1)]] rest(2) by simp
  qed
qed simp

lemma exportCases_recovers:
  assumes "exportCases cr rc pub rnds path data i = (Inr tcs, i')" and "\<And>i. goodRandomness (rnds i)" and "cryptoLaws cr pub priv"
    and "recoverable rc path (Inr data)"
  shows "recovers cr rc priv tcs (secretRows path data)"
proof -
  consider "data = []" | "data \<noteq> []" "isSSLSecret path" | "data \<noteq> []" "\<not> isSSLSecret path" by blast
  then show ?thesis
  proof cases
    case 1
    then show ?thesis
      using assms(1) recovers_Cons [OF blank_case, of _ cr rc priv "[]" "[]"]
      by (auto simp: exportCases_def secretRows_def sortedKeys_def)
  next
    case 2
    then show ?thesis
      using assms sslCases_recovers [of cr pub rnds path data "sortedKeys data" i tcs i' priv rc]
      by (simp add: exportCases_def secretRows_def recoverable_def)
  next
    case 3
    then obtain p env where p: "rc_marshal rc data = Some p" "encryptPayload cr pub (rnds i) path p = Inr env"
        "tcs = [\<lparr>jc_Classname = classKV, jc_Name = path, jc_Skipped = None, jc_Failure = None, jc_SystemOut = env\<rparr>]"
      using assms(1) by (auto simp: exportCases_def split: option.splits sum.splits)
    have u: "rc_unmarshal rc p = Some data" using assms(4) 3 p(1) by (simp add: recoverable_def)
    have "decryptCase cr rc priv (hd tcs) = Inr (Some (secretRows path data))"
      using payload_roundtrip [OF p(2) assms(2,3)] payload_not_blank [OF p(2)] p(3) u 3
      by (simp add: decryptCase_def secretRows_def classKV_def classKVSSL_def)
    from recovers_Cons [OF this, of "[]" "[]"] show ?thesis using p(3) by simp
  qed
qed

lemma readCases_recovers:
  assumes "readCases cr rc pub rnds path r i = (Inr tcs, i')" and "\<And>i. goodRandomness (rnds i)" and "cryptoLaws cr pub priv"
    and "recoverable rc path r"
  shows "recovers cr rc priv tcs (readRows path r)"
proof (cases r)
  case (Inl e)
  then show ?thesis
    using assms(1) recovers_Cons [OF blank_case, of _ cr rc priv "[]" "[]"] by (auto simp: readCases_def readRows_def)
next
  case (Inr data)
  then have "exportCases cr rc pub rnds path data i = (Inr tcs, i')" "recoverable rc path (Inr data)"
    using assms by (simp_all add: readCases_def)
  from exportCases_recovers [OF this(1) assms(2,3) this(2)] show ?thesis using Inr by (simp add: readRows_def)
qed

text \<open>What the loop read, path by path.\<close>

definition readBy :: "vaultLib \<Rightarrow> 'v network \<Rightarrow> vaultClient \<Rightarrow> gostring \<Rightarrow> gostring \<Rightarrow> vaultErr + secret \<Rightarrow> bool" where
  "readBy lib net c base rel r \<longleftrightarrow> (\<exists>v. fst (ReadKVDataAt lib net c (KVMount c) (joinPath base rel) 0 v) = r)"

lemma exportAll_recovers:
  assumes "exportAll (exportSecret lib net cr rc c pub rnds (KVMount c)) base rels i w = (Inr tcs, i', w')"
    and "\<And>i. goodRandomness (rnds i)" and "cryptoLaws cr pub priv"
  shows "\<exists>reads. list_all2 (readBy lib net c base) rels reads \<and>
    (list_all2 (\<lambda>rel r. recoverable rc (joinPath base rel) r) rels reads \<longrightarrow>
      recovers cr rc priv tcs (concat (map2 (\<lambda>rel r. readRows (joinPath base rel) r) rels reads)))"
  using assms(1)
proof (induction rels arbitrary: i w tcs)
  case (Cons rel rels)
  let ?path = "joinPath base rel"
  obtain r w1 where r: "ReadKVDataAt lib net c (KVMount c) ?path 0 w = (r, w1)" by fastforce
  obtain cases i1 where cs: "readCases cr rc pub rnds ?path r i = (cases, i1)" by fastforce
  have one: "exportSecret lib net cr rc c pub rnds (KVMount c) ?path i w = (cases, i1, w1)"
    using r cs by (simp add: exportSecret_def)
  then obtain xs where xs: "cases = Inr xs" using Cons.prems by (auto split: option.splits sum.splits)
  then obtain ys where ys: "exportAll (exportSecret lib net cr rc c pub rnds (KVMount c)) base rels i1 w1 = (Inr ys, i', w')" "tcs = xs @ ys"
    using Cons.prems one by (auto simp: apfst_def map_prod_def map_sum_id_Inr split: option.splits prod.splits)
  obtain reads where reads: "list_all2 (readBy lib net c base) rels reads"
      "list_all2 (\<lambda>rel r. recoverable rc (joinPath base rel) r) rels reads \<longrightarrow>
        recovers cr rc priv ys (concat (map2 (\<lambda>rel r. readRows (joinPath base rel) r) rels reads))"
    using Cons.IH [OF ys(1)] by blast
  have "readBy lib net c base rel r" using r by (auto simp: readBy_def intro: exI [of _ w])
  moreover have "recovers cr rc priv xs (readRows ?path r)" if "recoverable rc ?path r"
    using readCases_recovers [of cr rc pub rnds ?path r i xs i1 priv] cs xs assms(2,3) that by simp
  ultimately show ?case
    using reads ys(2) by (intro exI [of _ "r # reads"]) (auto intro: recovers_append)
qed simp


section \<open>What a report gives away\<close>

text \<open>Two secrets of the same keys whose sealed texts have the same lengths.\<close>

definition sameShape :: "reportCodec \<Rightarrow> gostring \<Rightarrow> secret \<Rightarrow> secret \<Rightarrow> bool" where
  "sameShape rc path d d' \<longleftrightarrow> sortedKeys d = sortedKeys d'
     \<and> (if isSSLSecret path then list_all (\<lambda>k. length (stringValue d k) = length (stringValue d' k)) (sortedKeys d)
        else map_option length (rc_marshal rc d) = map_option length (rc_marshal rc d'))"

lemma encryptPayload_shape:
  assumes "\<And>key nonce p p' aad. length p = length p' \<Longrightarrow> cr_seal cr key nonce p aad = cr_seal cr key nonce p' aad"
    and "length p = length p'"
  shows "encryptPayload cr pub rnd name p = encryptPayload cr pub rnd name p'"
  unfolding encryptPayload_def assms(1) [OF assms(2)] ..

lemma sslCases_shape:
  assumes "\<And>key nonce p p' aad. length p = length p' \<Longrightarrow> cr_seal cr key nonce p aad = cr_seal cr key nonce p' aad"
    and "list_all (\<lambda>k. length (stringValue d k) = length (stringValue d' k)) ks"
  shows "sslCases cr pub rnds path d ks i = sslCases cr pub rnds path d' ks i"
  using assms(2)
proof (induction ks arbitrary: i)
  case (Cons k ks)
  then have len: "length (stringValue d k) = length (stringValue d' k)" by simp
  have "encryptPayload cr pub rnd name (stringValue d k) = encryptPayload cr pub rnd name (stringValue d' k)" for rnd name
    using assms(1) len by (rule encryptPayload_shape)
  moreover have "stringValue d k = [] \<longleftrightarrow> stringValue d' k = []" using len by (metis length_0_conv)
  ultimately show ?case using Cons by (simp add: Let_def split: sum.splits)
qed simp

text \<open>
  A report shows no value of a secret: with a cipher whose output depends only on the length of
  the text, the cases of two secrets with the same keys are equal whenever their sealed texts are
  equally long.
\<close>

lemma report_shows_only_lengths:
  assumes "\<And>key nonce p p' aad. length p = length p' \<Longrightarrow> cr_seal cr key nonce p aad = cr_seal cr key nonce p' aad"
    and "sameShape rc path d d'"
  shows "exportCases cr rc pub rnds path d i = exportCases cr rc pub rnds path d' i"
proof -
  have "sortedKeys d = sortedKeys d'" using assms(2) by (simp add: sameShape_def)
  then have emp: "d = [] \<longleftrightarrow> d' = []" using length_sort unfolding sortedKeys_def by (metis length_0_conv length_map)
  have seal: "encryptPayload cr pub rnd name p = encryptPayload cr pub rnd name p'" if "length p = length p'" for rnd name p p'
    using assms(1) that by (rule encryptPayload_shape)
  have ssl: "sslCases cr pub rnds path d (sortedKeys d) i = sslCases cr pub rnds path d' (sortedKeys d') i" if "isSSLSecret path"
    using sslCases_shape [OF assms(1), of d d' "sortedKeys d" pub rnds path i] assms(2) that unfolding sameShape_def by metis
  have whole: "(case rc_marshal rc d of None \<Rightarrow> (Inl (ExportJSON path), i)
          | Some p \<Rightarrow> (case encryptPayload cr pub (rnds i) path p of Inl e \<Rightarrow> (Inl (ExportCrypt path e), Suc i) | Inr x \<Rightarrow> f x))
      = (case rc_marshal rc d' of None \<Rightarrow> (Inl (ExportJSON path), i)
          | Some p \<Rightarrow> (case encryptPayload cr pub (rnds i) path p of Inl e \<Rightarrow> (Inl (ExportCrypt path e), Suc i) | Inr x \<Rightarrow> f x))"
    if "\<not> isSSLSecret path" for f
  proof -
    have len: "map_option length (rc_marshal rc d) = map_option length (rc_marshal rc d')"
      using assms(2) that by (simp add: sameShape_def)
    show ?thesis
    proof (cases "rc_marshal rc d")
      case (Some p)
      with len obtain p' where p': "rc_marshal rc d' = Some p'" "length p = length p'" by (cases "rc_marshal rc d'") auto
      from seal [OF p'(2)] show ?thesis unfolding Some p'(1) option.case by simp
    qed (use len in \<open>cases "rc_marshal rc d'"; simp\<close>)
  qed
  show ?thesis
  proof (cases "isSSLSecret path")
    case False
    show ?thesis unfolding exportCases_def emp if_not_P [OF False] whole [OF False] ..
  qed (simp add: exportCases_def emp ssl)
qed

section \<open>Samples\<close>

text \<open>A cipher that writes the additional data in front of the text, by its length in unary.\<close>

definition tagOf :: "gostring \<Rightarrow> gostring" where
  "tagOf aad = replicate (length aad) (CHR ''x'') @ CHR ''y'' # aad"

definition tagCrypto :: "(unit, unit) crypto" where
  "tagCrypto = \<lparr>cr_seal = (\<lambda>k n p a. tagOf a @ p),
     cr_open = (\<lambda>k n ct a. if hasPrefix ct (tagOf a) then Some (drop (length (tagOf a)) ct) else None),
     cr_wrap = (\<lambda>pub r key. if length key < 65536 then Some key else None), cr_unwrap = (\<lambda>priv w. Some w)\<rparr>"

lemma tag_prefix:
  assumes "tagOf a @ p = tagOf b @ q"
  shows "a = b"
proof -
  have tw: "takeWhile (\<lambda>c. c = CHR ''x'') (tagOf c @ r) = replicate (length c) (CHR ''x'')" for c r
    unfolding tagOf_def append_assoc by (subst takeWhile_append2) auto
  have len: "length a = length b" using arg_cong [OF assms, of "takeWhile (\<lambda>c. c = CHR ''x'')"] unfolding tw
    by (metis length_replicate)
  then show ?thesis using assms by (simp add: tagOf_def)
qed

lemma tagCrypto_laws: "cryptoLaws tagCrypto () ()" "authenticates tagCrypto"
  using tag_prefix by (auto simp: cryptoLaws_def authenticates_def tagCrypto_def hasPrefix_iff)

definition tagRandomness :: randomness where
  "tagRandomness = \<lparr>rn_key = Some (replicate 32 (CHR ''k'')), rn_nonce = Some (replicate 12 (CHR ''n'')), rn_oaep = []\<rparr>"

lemma tagRandomness_good: "goodRandomness tagRandomness"
  by (simp add: goodRandomness_def tagRandomness_def gcmNonceLen_def)

lemma tag_encrypts: "\<exists>env. encryptPayload tagCrypto () tagRandomness aad p = Inr env"
  by (simp add: encryptPayload_def tagRandomness_def aesKeySize_def tagCrypto_def)

lemma payload_opens_only_under_its_name_witness:
  "\<exists>env. encryptPayload tagCrypto () tagRandomness ''a'' ''v'' = Inr env
     \<and> decryptPayload tagCrypto () ''a'' env = Inr ''v'' \<and> decryptPayload tagCrypto () ''b'' env = Inl (NotAuthentic ''b'')"
proof -
  obtain env where env: "encryptPayload tagCrypto () tagRandomness ''a'' ''v'' = Inr env" using tag_encrypts by blast
  from payload_opens_only_under_its_name [OF env tagRandomness_good tagCrypto_laws] env show ?thesis by simp
qed

text \<open>A codec for the one secret of the sample store.\<close>

definition kvCodec :: reportCodec where
  "kvCodec = \<lparr>rc_marshal = (\<lambda>d. Some ''J''), rc_unmarshal = (\<lambda>b. Some [(''f'', VStr ''x'')]), rc_encode = (\<lambda>s. Some ''X''),
     rc_decode = (\<lambda>b. None)\<rparr>"

lemma kv_read: "fst (ReadKVDataAt kvLib kvNet (kvClient ''src'') ''src'' ''/k'' 0 v) = Inr [(''f'', VStr ''x'')]"
  by (cases v) (simp add: ReadKVDataAt_def vaultDo_def kvNet_def vaultRequest_def kvPath_concat kvLib_def Let_def kv_names
      vaultReply_def hasPrefix_def kvSegments_filter)


text \<open>A cipher whose output is as long as the text and tells nothing else.\<close>

definition blindCrypto :: "(unit, unit) crypto" where
  "blindCrypto = tagCrypto\<lparr>cr_seal := (\<lambda>k n p a. replicate (length p) (CHR ''z''))\<rparr>"

lemma report_shows_only_lengths_witness:
  "exportCases blindCrypto kvCodec () (\<lambda>i. tagRandomness) ''ssl_certificates'' [(''a'', VStr ''1'')] 0
   = exportCases blindCrypto kvCodec () (\<lambda>i. tagRandomness) ''ssl_certificates'' [(''a'', VStr ''2'')] 0"
  by (rule report_shows_only_lengths)
    (simp_all add: blindCrypto_def sameShape_def sortedKeys_def stringValue_def isSSLSecret_def sslCertsSecret_def)

section \<open>What a report loses\<close>

text \<open>
  The report separates the path of certificates from the key by a colon, and the decryption splits at
  the first one, so a path with a colon comes back torn; and a value that is not a string is
  reported as empty and is not sealed at all.
\<close>

lemma ssl_name_torn:
  assumes "CHR '':'' \<notin> set a" "trimSpace env \<noteq> []" "decryptPayload cr priv (a @ '':'' @ b @ '':'' @ k) env = Inr s"
  shows "decryptCase cr rc priv \<lparr>jc_Classname = classKVSSL, jc_Name = (a @ '':'' @ b) @ '':'' @ k, jc_Skipped = None,
      jc_Failure = None, jc_SystemOut = env\<rparr> = Inr (Some [[VStr a, VStr (b @ '':'' @ k), VStr s]])"
  using assms cut_at [OF assms(1), of "b @ '':'' @ k"] by (simp add: decryptCase_def)

lemma ssl_value_dropped:
  "exportCases cr rc pub rnds ''ssl_certificates'' [(''serial'', VInt 7)] i
   = (Inr [\<lparr>jc_Classname = classKVSSL, jc_Name = ''ssl_certificates:serial'', jc_Skipped = Some ''empty value'', jc_Failure = None,
        jc_SystemOut = []\<rparr>], i)"
  by (simp add: exportCases_def isSSLSecret_def sslCertsSecret_def sortedKeys_def stringValue_def)

end
