(* ===== verification/Cli_Prefix.thy ===== *)
theory Cli_Prefix
  imports Go_Strings
begin

text \<open>
  \<^verbatim>\<open>src/internal/cli/cmdprefix.go\<close> and \<^verbatim>\<open>flagprefix.go\<close>: expanding abbreviated command names and
  long flags. The command tree is cobra's, as data: a command has a name, aliases, the flags of
  its own flag set, its persistent flags and its subcommands in the order \<^verbatim>\<open>Commands()\<close> lists them.
  A position in the tree is the list of commands from there up to the root. \<^verbatim>\<open>root.Find\<close> is cobra's
  and is an argument of the functions that call it.
\<close>

section \<open>The command tree\<close>

record flag =
  fl_name :: gostring
  fl_short :: gostring
  fl_noOptDefVal :: gostring

datatype command =
  Command (c_name: gostring) (c_aliases: "gostring list") (c_flags: "flag list")
    (c_pflags: "flag list") (c_subs: "command list")

type_synonym cmdPath = "command list"

text \<open>\<^verbatim>\<open>FlagSet.Lookup\<close> and \<^verbatim>\<open>FlagSet.ShorthandLookup\<close>; no flag has the empty shorthand.\<close>

definition lookupFlag :: "gostring \<Rightarrow> flag list \<Rightarrow> flag option" where
  "lookupFlag name fs = find (\<lambda>f. fl_name f = name) fs"

definition shorthandLookup :: "gostring \<Rightarrow> flag list \<Rightarrow> flag option" where
  "shorthandLookup c fs = (if c = [] then None else find (\<lambda>f. fl_short f = c) fs)"

section \<open>Flags of a position\<close>

definition maxCommandWords :: nat where
  "maxCommandWords = 8"

text \<open>\<^verbatim>\<open>flagFinder.find\<close>: the command's own flags, then its persistent ones, then the parent's.\<close>

fun ffFind :: "(flag list \<Rightarrow> flag option) \<Rightarrow> cmdPath \<Rightarrow> flag option" where
  "ffFind pick [] = None"
| "ffFind pick (c # cs) =
     (case pick (c_flags c) of
        Some f \<Rightarrow> Some f
      | None \<Rightarrow> (case pick (c_pflags c) of Some f \<Rightarrow> Some f | None \<Rightarrow> ffFind pick cs))"

definition ffLookup :: "cmdPath \<Rightarrow> gostring \<Rightarrow> flag option" where
  "ffLookup cs name = ffFind (lookupFlag name) cs"

definition ffShorthand :: "cmdPath \<Rightarrow> gostring \<Rightarrow> flag option" where
  "ffShorthand cs sh = ffFind (shorthandLookup sh) cs"

text \<open>
  \<open>soleFlagWithPrefix\<close> ranges over a map, in whatever order Go visits it: the argument lists its keys
  in that order.
\<close>

fun soleFlagLoop :: "gostring \<Rightarrow> gostring \<Rightarrow> gostring list \<Rightarrow> gostring option" where
  "soleFlagLoop pre match [] = (if match \<noteq> [] then Some match else None)"
| "soleFlagLoop pre match (name # names) =
     (if \<not> hasPrefix name pre then soleFlagLoop pre match names
      else if match \<noteq> [] then None
      else soleFlagLoop pre name names)"

definition soleFlagWithPrefix :: "gostring list \<Rightarrow> gostring \<Rightarrow> gostring option" where
  "soleFlagWithPrefix defined pre = soleFlagLoop pre [] defined"

definition ffNames :: "cmdPath \<Rightarrow> gostring list" where
  "ffNames cs = remdups (concat (map (\<lambda>c. map fl_name (c_flags c) @ map fl_name (c_pflags c)) cs))"

definition ffPrefixed :: "cmdPath \<Rightarrow> gostring \<Rightarrow> flag option" where
  "ffPrefixed cs name =
     (case soleFlagWithPrefix (ffNames cs) name of None \<Rightarrow> None | Some full \<Rightarrow> ffLookup cs full)"

definition consumesValue :: "cmdPath \<Rightarrow> gostring \<Rightarrow> nat" where
  "consumesValue cs tok =
     (if hasPrefix tok ''--'' then
        (let (name, _, hasValue) = cut (drop 2 tok) (CHR ''='') in
         if hasValue then 0
         else
           (let f = (case ffLookup cs name of Some f \<Rightarrow> Some f | None \<Rightarrow> ffPrefixed cs name)
            in case f of Some f \<Rightarrow> if fl_noOptDefVal f = [] then 1 else 0 | None \<Rightarrow> 0))
      else
        (case ffShorthand cs [last tok] of
           Some f \<Rightarrow> if fl_noOptDefVal f = [] then 1 else 0
         | None \<Rightarrow> 0))"

text \<open>\<open>commandWordIndex\<close>: \<^const>\<open>None\<close> is the result -1.\<close>

definition isFlagToken :: "gostring \<Rightarrow> bool" where
  "isFlagToken tok \<longleftrightarrow> hasPrefix tok ''-'' \<and> length tok > 1"

function commandWordIndex :: "cmdPath \<Rightarrow> gostring list \<Rightarrow> nat \<Rightarrow> nat option" where
  "commandWordIndex cs args i =
     (if i < length args then
        (if args ! i = ''--'' then None
         else if isFlagToken (args ! i)
         then commandWordIndex cs args (i + consumesValue cs (args ! i) + 1)
         else Some i)
      else None)"
  by pat_completeness auto
termination by (relation "measure (\<lambda>(cs, args, i). length args - i)") auto

declare commandWordIndex.simps [simp del]

section \<open>Command names\<close>

definition exactChild :: "command \<Rightarrow> gostring \<Rightarrow> command option" where
  "exactChild cmd word = find (\<lambda>sub. c_name sub = word \<or> word \<in> set (c_aliases sub)) (c_subs cmd)"

text \<open>
  \<open>soleChildWithPrefix\<close>: the loop keeps the match so far. The test \<^verbatim>\<open>match != sub\<close> compares two
  different elements of \<^verbatim>\<open>Commands()\<close>, so a second hit is always another command.
\<close>

definition prefixHit :: "gostring \<Rightarrow> command \<Rightarrow> bool" where
  "prefixHit word sub \<longleftrightarrow> hasPrefix (c_name sub) word \<or> (\<exists>al \<in> set (c_aliases sub). hasPrefix al word)"

fun soleChildLoop :: "gostring \<Rightarrow> command option \<Rightarrow> command list \<Rightarrow> gostring option" where
  "soleChildLoop word match [] = map_option c_name match"
| "soleChildLoop word match (sub # subs) =
     (if \<not> prefixHit word sub then soleChildLoop word match subs
      else case match of
             Some _ \<Rightarrow> None
           | None \<Rightarrow> soleChildLoop word (Some sub) subs)"

definition soleChildWithPrefix :: "command \<Rightarrow> gostring \<Rightarrow> gostring option" where
  "soleChildWithPrefix cmd word = soleChildLoop word None (c_subs cmd)"

fun expandWords :: "nat \<Rightarrow> cmdPath \<Rightarrow> gostring list \<Rightarrow> nat \<Rightarrow> gostring list" where
  "expandWords 0 cs out from = out"
| "expandWords (Suc n) [] out from = out"
| "expandWords (Suc n) (cur # up) out from =
     (if c_subs cur = [] then out
      else case commandWordIndex (cur # up) out from of
        None \<Rightarrow> out
      | Some i \<Rightarrow>
          (case exactChild cur (out ! i) of
             Some nxt \<Rightarrow> expandWords n (nxt # cur # up) out (i + 1)
           | None \<Rightarrow>
               (case soleChildWithPrefix cur (out ! i) of
                  None \<Rightarrow> out
                | Some full \<Rightarrow>
                    (case exactChild cur full of
                       None \<Rightarrow> out[i := full]
                     | Some nxt \<Rightarrow> expandWords n (nxt # cur # up) (out[i := full]) (i + 1)))))"

definition ExpandCommandPrefixes :: "command \<Rightarrow> gostring list \<Rightarrow> gostring list" where
  "ExpandCommandPrefixes root args =
     (if args = [] then args else expandWords maxCommandWords [root] args 0)"

section \<open>Long flags\<close>

text \<open>The command's own flags and the persistent flags of its ancestors.\<close>

definition definedFlagNames :: "cmdPath \<Rightarrow> gostring list" where
  "definedFlagNames cs =
     (case cs of
        [] \<Rightarrow> []
      | c # up \<Rightarrow> remdups (map fl_name (c_flags c) @ concat (map (\<lambda>p. map fl_name (c_pflags p)) up)))"

fun expandFlags :: "gostring list \<Rightarrow> gostring list \<Rightarrow> gostring list" where
  "expandFlags defined [] = []"
| "expandFlags defined (arg # args) =
     (if arg = ''--'' then arg # args
      else
        (let arg' =
           (if \<not> hasPrefix arg ''--'' \<or> length arg = 2 then arg
            else
              (let (name, value, hasValue) = cut (drop 2 arg) (CHR ''='') in
               if name = [] \<or> name \<in> set defined then arg
               else case soleFlagWithPrefix defined name of
                      None \<Rightarrow> arg
                    | Some full \<Rightarrow>
                        if hasValue then ''--'' @ full @ ''='' @ value else ''--'' @ full))
         in arg' # expandFlags defined args))"

text \<open>\<open>find args\<close> is what \<^verbatim>\<open>root.Find\<close> resolves the arguments to, \<^const>\<open>None\<close> on an error.\<close>

definition ExpandFlagPrefixes :: "(gostring list \<Rightarrow> cmdPath option) \<Rightarrow> command \<Rightarrow> gostring list \<Rightarrow> gostring list" where
  "ExpandFlagPrefixes findCmd root args =
     (if args = [] then args
      else
        (let target = (case findCmd args of Some t \<Rightarrow> t | None \<Rightarrow> [root]);
             defined = definedFlagNames target
         in if defined = [] then args else expandFlags defined args))"

section \<open>The unique match\<close>

text \<open>Flag names as pflag keeps them: distinct, not empty, without an equals sign.\<close>

definition wfNames :: "gostring list \<Rightarrow> bool" where
  "wfNames defined \<longleftrightarrow> distinct defined \<and> list_all (\<lambda>n. n \<noteq> [] \<and> CHR ''='' \<notin> set n) defined"

lemma soleFlagLoop_filter:
  "[] \<notin> set names \<Longrightarrow>
     soleFlagLoop pre match names =
       (case (if match = [] then [] else [match]) @ filter (\<lambda>n. hasPrefix n pre) names of
          [n] \<Rightarrow> Some n | _ \<Rightarrow> None)"
  by (induction pre match names rule: soleFlagLoop.induct) (auto split: list.splits)

lemma soleFlagWithPrefix_filter:
  "[] \<notin> set defined \<Longrightarrow> soleFlagWithPrefix defined pre =
     (case filter (\<lambda>n. hasPrefix n pre) defined of [n] \<Rightarrow> Some n | _ \<Rightarrow> None)"
  by (simp add: soleFlagWithPrefix_def soleFlagLoop_filter)

lemma wfNames_no_empty: "wfNames defined \<Longrightarrow> [] \<notin> set defined"
  by (auto simp: wfNames_def list_all_iff)

lemma soleFlagWithPrefix_iff:
  assumes "wfNames defined"
  shows "soleFlagWithPrefix defined pre = Some n \<longleftrightarrow>
    n \<in> set defined \<and> hasPrefix n pre \<and> (\<forall>m \<in> set defined. hasPrefix m pre \<longrightarrow> m = n)"
proof -
  let ?f = "filter (\<lambda>n. hasPrefix n pre) defined"
  have "soleFlagWithPrefix defined pre = Some n \<longleftrightarrow> ?f = [n]"
    by (simp add: soleFlagWithPrefix_filter [OF wfNames_no_empty [OF assms]] split: list.split)
  also have "\<dots> \<longleftrightarrow> set ?f = {n}"
  proof
    assume "set ?f = {n}"
    moreover have "distinct ?f" using assms by (simp add: wfNames_def)
    ultimately have "length ?f = 1" using distinct_card [of ?f] by simp
    then show "?f = [n]" using \<open>set ?f = {n}\<close> by (cases ?f) auto
  qed simp
  also have "\<dots> \<longleftrightarrow> n \<in> set defined \<and> hasPrefix n pre \<and> (\<forall>m \<in> set defined. hasPrefix m pre \<longrightarrow> m = n)"
    by auto
  finally show ?thesis .
qed

section \<open>Expanding flags\<close>

text \<open>One argument, as the loop rewrites it.\<close>

definition expandFlag :: "gostring list \<Rightarrow> gostring \<Rightarrow> gostring" where
  "expandFlag defined arg =
     (if \<not> hasPrefix arg ''--'' \<or> length arg = 2 then arg
      else
        (let (name, value, hasValue) = cut (drop 2 arg) (CHR ''='') in
         if name = [] \<or> name \<in> set defined then arg
         else case soleFlagWithPrefix defined name of
                None \<Rightarrow> arg
              | Some full \<Rightarrow> if hasValue then ''--'' @ full @ ''='' @ value else ''--'' @ full))"

lemma expandFlags_Cons:
  "expandFlags defined (arg # args) =
     (if arg = ''--'' then arg # args else expandFlag defined arg # expandFlags defined args)"
  by (simp add: expandFlag_def Let_def)

lemma cut_join: "cut s c = (a, b, f) \<Longrightarrow> s = a @ (if f then c # b else []) \<and> c \<notin> set a"
proof -
  assume s: "cut s c = (a, b, f)"
  have split: "takeWhile (\<lambda>x. x \<noteq> c) s @ dropWhile (\<lambda>x. x \<noteq> c) s = s" by simp
  show ?thesis
  proof (cases "c \<in> set s")
    case True
    then obtain t where "dropWhile (\<lambda>x. x \<noteq> c) s = c # t"
      by (metis (mono_tags, lifting) dropWhile_eq_Nil_conv hd_dropWhile list.exhaust_sel)
    then show ?thesis using s True split by (auto simp: cut_def dest: set_takeWhileD)
  next
    case False
    then show ?thesis using s by (auto simp: cut_none)
  qed
qed

lemma expandFlag_known:
  assumes "full \<in> set defined" and "CHR ''='' \<notin> set full"
  shows "expandFlag defined (''--'' @ full) = ''--'' @ full"
    and "expandFlag defined (''--'' @ full @ ''='' @ v) = ''--'' @ full @ ''='' @ v"
  using assms by (simp_all add: expandFlag_def cut_none cut_at)

text \<open>What happens to one argument: nothing, or its name becomes the only flag it abbreviates.\<close>

lemma expandFlag_cases:
  assumes "wfNames defined"
  shows "expandFlag defined arg = arg
    \<or> (\<exists>name rest full. arg = ''--'' @ name @ rest \<and> expandFlag defined arg = ''--'' @ full @ rest
        \<and> name \<notin> set defined \<and> soleFlagWithPrefix defined name = Some full
        \<and> (rest = [] \<or> hasPrefix rest ''=''))"
proof (cases "hasPrefix arg ''--'' \<and> length arg \<noteq> 2")
  case True
  then obtain s where s: "arg = ''--'' @ s" by (auto simp: hasPrefix_iff)
  obtain name val hv where c: "cut s (CHR ''='') = (name, val, hv)" by (metis prod_cases3)
  have j: "s = name @ (if hv then CHR ''='' # val else [])" using cut_join [OF c] by simp
  show ?thesis
  proof (cases "soleFlagWithPrefix defined name")
    case None
    then show ?thesis using s c by (auto simp: expandFlag_def)
  next
    case (Some full)
    show ?thesis
    proof (cases "name = [] \<or> name \<in> set defined")
      case False
      then have "expandFlag defined arg = ''--'' @ full @ (if hv then CHR ''='' # val else [])"
        using True s c Some by (auto simp: expandFlag_def)
      then show ?thesis
        using s j Some False by (intro disjI2 exI [of _ name] exI [of _ "if hv then CHR ''='' # val else []"] exI [of _ full])
          (auto simp: hasPrefix_def)
    qed (use s c in \<open>auto simp: expandFlag_def\<close>)
  qed
qed (auto simp: expandFlag_def)

lemma expandFlag_idem:
  assumes "wfNames defined"
  shows "expandFlag defined (expandFlag defined arg) = expandFlag defined arg"
proof (cases "expandFlag defined arg = arg")
  case False
  then obtain name rest full where e: "expandFlag defined arg = ''--'' @ full @ rest"
    and f: "soleFlagWithPrefix defined name = Some full" and r: "rest = [] \<or> hasPrefix rest ''=''"
    using expandFlag_cases [OF assms, of arg] by blast
  have "full \<in> set defined" "CHR ''='' \<notin> set full"
    using f assms by (auto simp: soleFlagWithPrefix_iff wfNames_def list_all_iff)
  then show ?thesis
    using r expandFlag_known [of full defined] by (auto simp: e hasPrefix_iff)
qed simp

lemma expandFlag_dashes:
  assumes "wfNames defined" and "arg \<noteq> ''--''"
  shows "expandFlag defined arg \<noteq> ''--''"
proof
  assume d: "expandFlag defined arg = ''--''"
  with expandFlag_cases [OF assms(1), of arg] assms(2) obtain name full
    where "soleFlagWithPrefix defined name = Some full" "full = []" by auto
  then show False using assms(1) wfNames_no_empty by (auto simp: soleFlagWithPrefix_iff)
qed

lemma expandFlags_map:
  "expandFlags defined args =
     map (expandFlag defined) (takeWhile (\<lambda>a. a \<noteq> ''--'') args) @ dropWhile (\<lambda>a. a \<noteq> ''--'') args"
  by (induction args) (simp_all add: expandFlags_Cons del: expandFlags.simps(2))

lemma expandFlags_idem:
  assumes "wfNames defined"
  shows "expandFlags defined (expandFlags defined args) = expandFlags defined args"
proof (induction args)
  case (Cons arg args)
  then show ?case
    using expandFlag_idem [OF assms] expandFlag_dashes [OF assms]
    by (simp add: expandFlags_Cons del: expandFlags.simps(2))
qed simp

text \<open>
  C28. Flag expansion only completes abbreviations: before the first \<^verbatim>\<open>--\<close> each argument is left
  alone or its name, which is no defined flag, becomes the only defined flag it is a prefix of,
  with its value untouched; everything from \<^verbatim>\<open>--\<close> on is left alone; and expanding again changes
  nothing.
\<close>

theorem flag_expansion_is_conservative:
  assumes "wfNames defined"
  shows "expandFlags defined args =
      map (expandFlag defined) (takeWhile (\<lambda>a. a \<noteq> ''--'') args) @ dropWhile (\<lambda>a. a \<noteq> ''--'') args
    \<and> expandFlags defined (expandFlags defined args) = expandFlags defined args
    \<and> (expandFlag defined arg = arg
       \<or> (\<exists>name rest full. arg = ''--'' @ name @ rest \<and> expandFlag defined arg = ''--'' @ full @ rest
           \<and> name \<notin> set defined \<and> full \<in> set defined \<and> hasPrefix full name
           \<and> (\<forall>m \<in> set defined. hasPrefix m name \<longrightarrow> m = full)
           \<and> (rest = [] \<or> hasPrefix rest ''='')))"
  using expandFlags_map expandFlags_idem [OF assms] expandFlag_cases [OF assms, of arg]
  unfolding soleFlagWithPrefix_iff [OF assms] by blast

theorem flag_expansion_is_conservative_witness:
  "expandFlags [''all-projects'', ''limit''] (expandFlags [''all-projects'', ''limit''] [''--all'', ''--lim=5'', ''--'', ''--l''])
     = [''--all-projects'', ''--limit=5'', ''--'', ''--l'']"
proof -
  have w: "wfNames [''all-projects'', ''limit'']" by (simp add: wfNames_def)
  have "expandFlags [''all-projects'', ''limit''] [''--all'', ''--lim=5'', ''--'', ''--l'']
      = [''--all-projects'', ''--limit=5'', ''--'', ''--l'']"
    by (simp add: hasPrefix_def cut_def soleFlagWithPrefix_def Let_def)
  then show ?thesis
    using flag_expansion_is_conservative [OF w, of "[''--all'', ''--lim=5'', ''--'', ''--l'']" "[]"] by metis
qed

section \<open>Expanding command names\<close>

text \<open>No command of the tree has a name that looks like a flag.\<close>

fun okTree :: "command \<Rightarrow> bool" where
  "okTree (Command n al fs ps subs) \<longleftrightarrow> (\<forall>s \<in> set subs. \<not> hasPrefix (c_name s) ''-'' \<and> okTree s)"

lemma okTree_sub: "okTree c \<Longrightarrow> s \<in> set (c_subs c) \<Longrightarrow> \<not> hasPrefix (c_name s) ''-'' \<and> okTree s"
  by (cases c) simp

lemma exactChild_sub: "exactChild cmd word = Some s \<Longrightarrow> s \<in> set (c_subs cmd)"
  by (auto simp: exactChild_def find_Some_iff)

lemma soleChildLoop_name:
  "soleChildLoop word match subs = Some full \<Longrightarrow>
     \<exists>s. (match = Some s \<or> s \<in> set subs) \<and> c_name s = full"
  by (induction word match subs rule: soleChildLoop.induct) (auto split: if_splits option.splits)

lemma soleChild_sub: "soleChildWithPrefix cmd word = Some full \<Longrightarrow> \<exists>s \<in> set (c_subs cmd). c_name s = full"
  using soleChildLoop_name by (fastforce simp: soleChildWithPrefix_def)

lemma soleChild_exact: "soleChildWithPrefix cmd word = Some full \<Longrightarrow> exactChild cmd full \<noteq> None"
  using soleChild_sub [of cmd word full] by (auto simp: exactChild_def find_None_iff)

lemma cwi_bounds:
  "commandWordIndex cs args from = Some i \<Longrightarrow>
     from \<le> i \<and> i < length args \<and> \<not> isFlagToken (args ! i) \<and> args ! i \<noteq> ''--''"
proof (induction cs args "from" rule: commandWordIndex.induct)
  case (1 cs args j)
  show ?case
    using 1(2) 1(1) by (subst (asm) commandWordIndex.simps) (force split: if_splits)
qed

lemma cwi_local:
  "commandWordIndex cs args from = Some i \<Longrightarrow> length args' = length args \<Longrightarrow>
     (\<And>j. from \<le> j \<Longrightarrow> j < i \<Longrightarrow> args' ! j = args ! j) \<Longrightarrow>
     \<not> isFlagToken (args' ! i) \<Longrightarrow> args' ! i \<noteq> ''--'' \<Longrightarrow> commandWordIndex cs args' from = Some i"
proof (induction cs args "from" rule: commandWordIndex.induct)
  case (1 cs args j)
  note i = 1(2) and len = 1(3) and same = 1(4) and ok = 1(5,6)
  have b: "j \<le> i" "i < length args" using cwi_bounds [OF i] by simp_all
  show ?case
  proof (cases "isFlagToken (args ! j) \<and> args ! j \<noteq> ''--''")
    case True
    then have "j \<noteq> i" using cwi_bounds [OF i] by auto
    then have sj: "args' ! j = args ! j" using same b by simp
    have next': "commandWordIndex cs args (j + consumesValue cs (args ! j) + 1) = Some i"
      using i b True by (subst (asm) commandWordIndex.simps) simp
    have "commandWordIndex cs args' (j + consumesValue cs (args ! j) + 1) = Some i"
      using 1(1) [OF _ _ _ next' len _ ok] b True same by simp
    then show ?thesis using sj True b len by (subst commandWordIndex.simps) simp
  next
    case False
    then have "i = j" using i b by (subst (asm) commandWordIndex.simps) (auto split: if_splits)
    then show ?thesis using ok b len by (subst commandWordIndex.simps) simp
  qed
qed

lemma expandWords_keeps:
  "length (expandWords n cs out from) = length out
   \<and> (j < from \<longrightarrow> expandWords n cs out from ! j = out ! j)
   \<and> (isFlagToken (out ! j) \<longrightarrow> expandWords n cs out from ! j = out ! j)"
proof (induction n cs out "from" rule: expandWords.induct)
  case (3 n cur up out "from")
  show ?case
  proof (cases "c_subs cur = [] \<or> commandWordIndex (cur # up) out from = None")
    case False
    then obtain i where i: "commandWordIndex (cur # up) out from = Some i" and s: "c_subs cur \<noteq> []" by auto
    have b: "from \<le> i" "i < length out" "\<not> isFlagToken (out ! i)" using cwi_bounds [OF i] by simp_all
    show ?thesis
    proof (cases "exactChild cur (out ! i)")
      case (Some nxt)
      then show ?thesis using 3(2) [OF s i Some] i s b by simp
    next
      case None
      note none = None
      show ?thesis
      proof (cases "soleChildWithPrefix cur (out ! i)")
        case None
        then show ?thesis using i s none by simp
      next
        case (Some full)
        then obtain nxt where nxt: "exactChild cur full = Some nxt" using soleChild_exact by blast
        then show ?thesis
          using 3(1) [OF s i none Some nxt] i s none Some b by (auto simp: nth_list_update)
      qed
    qed
  qed auto
qed simp_all

lemma expandWords_idem:
  "list_all okTree cs \<Longrightarrow> expandWords n cs (expandWords n cs out from) from = expandWords n cs out from"
proof (induction n cs out "from" rule: expandWords.induct)
  case (3 n cur up out "from")
  show ?case
  proof (cases "c_subs cur = [] \<or> commandWordIndex (cur # up) out from = None")
    case False
    then obtain i where i: "commandWordIndex (cur # up) out from = Some i" and s: "c_subs cur \<noteq> []" by auto
    have b: "from \<le> i" "i < length out" "\<not> isFlagToken (out ! i)" "out ! i \<noteq> ''--''"
      using cwi_bounds [OF i] by simp_all
    have again: "expandWords (Suc n) (cur # up) R from = R"
      if R: "R = expandWords n (nxt # cur # up) out' (i + 1)"
        and w: "exactChild cur (out' ! i) = Some nxt" and len: "length out' = length out"
        and same: "\<And>j. j < i \<Longrightarrow> out' ! j = out ! j"
        and ok: "\<not> isFlagToken (out' ! i)" "out' ! i \<noteq> ''--''"
        and IH: "expandWords n (nxt # cur # up) R (i + 1) = R" for R out' nxt
    proof -
      have Rj: "j \<le> i \<Longrightarrow> R ! j = out' ! j" "length R = length out" for j
        using expandWords_keeps [of n "nxt # cur # up" out' "i + 1" j] R len by simp_all
      have "commandWordIndex (cur # up) R from = Some i"
        by (rule cwi_local [OF i]) (use Rj same ok in simp_all)
      then show ?thesis using s w Rj(1) [of i] IH by simp
    qed
    show ?thesis
    proof (cases "exactChild cur (out ! i)")
      case (Some nxt)
      have "okTree nxt" using okTree_sub exactChild_sub [OF Some] 3(3) by auto
      then have "expandWords n (nxt # cur # up) (expandWords n (nxt # cur # up) out (i + 1)) (i + 1)
          = expandWords n (nxt # cur # up) out (i + 1)"
        using 3(2) [OF s i Some] 3(3) by simp
      from again [OF refl Some refl refl b(3,4) this] show ?thesis using i s Some by simp
    next
      case None
      note none = None
      show ?thesis
      proof (cases "soleChildWithPrefix cur (out ! i)")
        case None
        then show ?thesis using i s none by simp
      next
        case (Some full)
        obtain sub where sub: "sub \<in> set (c_subs cur)" "c_name sub = full" using soleChild_sub [OF Some] by blast
        then have full: "\<not> isFlagToken full" "full \<noteq> ''--''"
          using okTree_sub [of cur sub] 3(3) by (auto simp: isFlagToken_def hasPrefix_def)
        obtain nxt where nxt: "exactChild cur full = Some nxt" using soleChild_exact [OF Some] by blast
        have "okTree nxt" using okTree_sub exactChild_sub [OF nxt] 3(3) by auto
        then have "expandWords n (nxt # cur # up) (expandWords n (nxt # cur # up) (out[i := full]) (i + 1)) (i + 1)
            = expandWords n (nxt # cur # up) (out[i := full]) (i + 1)"
          using 3(1) [OF s i none Some nxt] 3(3) by simp
        from again [OF refl _ _ _ _ _ this] show ?thesis using i s none Some nxt b full by simp
      qed
    qed
  qed auto
qed simp_all

text \<open>
  Expanding command names is stable and leaves flags alone: it keeps the number of
  arguments and every flag token as typed, and a command line that has been expanded is not
  changed by expanding it again.
\<close>

lemma command_expansion_is_stable:
  assumes "okTree root"
  shows "ExpandCommandPrefixes root (ExpandCommandPrefixes root args) = ExpandCommandPrefixes root args
    \<and> length (ExpandCommandPrefixes root args) = length args
    \<and> (isFlagToken (args ! j) \<longrightarrow> ExpandCommandPrefixes root args ! j = args ! j)"
proof (cases "args = []")
  case False
  have "length (expandWords maxCommandWords [root] args 0) = length args"
    "isFlagToken (args ! j) \<longrightarrow> expandWords maxCommandWords [root] args 0 ! j = args ! j"
    using expandWords_keeps [of maxCommandWords "[root]" args 0 j] by simp_all
  then show ?thesis
    using False expandWords_idem [of "[root]" maxCommandWords args 0] assms
    by (auto simp: ExpandCommandPrefixes_def)
qed (simp add: ExpandCommandPrefixes_def)

definition sampleTree :: command where
  "sampleTree =
     Command ''koc'' [] []
       [\<lparr>fl_name = ''os-cloud'', fl_short = [], fl_noOptDefVal = []\<rparr>,
        \<lparr>fl_name = ''os-token'', fl_short = [], fl_noOptDefVal = []\<rparr>]
       [Command ''server'' [] [] []
          [Command ''list'' [] [\<lparr>fl_name = ''limit'', fl_short = [], fl_noOptDefVal = []\<rparr>] [] [],
           Command ''show'' [] [] [] []],
        Command ''network'' [''net''] [] [] []]"

lemma command_expansion_is_stable_witness:
  "ExpandCommandPrefixes sampleTree (ExpandCommandPrefixes sampleTree [''--os-clo'', ''ser'', ''ser'', ''li''])
     = ExpandCommandPrefixes sampleTree [''--os-clo'', ''ser'', ''ser'', ''li'']"
  using command_expansion_is_stable [of sampleTree] by (simp add: sampleTree_def hasPrefix_def)

end
