(* ===== verification/Shell_Split.thy ===== *)
theory Shell_Split
  imports Go_Strings
begin

text \<open>
  \<^verbatim>\<open>src/internal/cli/shell/split.go\<close>: how \<^verbatim>\<open>koc shell\<close> splits a line into arguments, and how it
  quotes an argument so that it is read back unchanged. The scanner works on the runes of the
  line; the loop variables of \<^verbatim>\<open>split\<close> are the arguments of \<open>splitGo\<close>.
\<close>

section \<open>The scanner\<close>

datatype splitError = ErrUnterminated | UnsupportedError gostring

definition rSQuote :: rune where "rSQuote = [CHR 0x27]"
definition rDQuote :: rune where "rDQuote = [CHR 0x22]"
definition rBackslash :: rune where "rBackslash = [CHR 0x5C]"
definition rDollar :: rune where "rDollar = [CHR 0x24]"
definition rBacktick :: rune where "rBacktick = [CHR 0x60]"

lemmas rune_consts = rSQuote_def rDQuote_def rBackslash_def rDollar_def rBacktick_def

text \<open>The rune after the current one; \<^term>\<open>[]\<close> stands for the zero rune past the end.\<close>

definition nextRune :: "rune list \<Rightarrow> rune" where
  "nextRune rs = (case rs of [] \<Rightarrow> [] | n # _ \<Rightarrow> n)"

definition unsupported :: "rune \<Rightarrow> rune \<Rightarrow> gostring" where
  "unsupported r nxt =
     (if r = ''|'' then (if nxt = ''|'' then ''command lists (||)'' else ''pipes (|)'')
      else if r = ''>'' \<or> r = ''<'' then ''redirects ('' @ r @ '')''
      else if r = '';'' then ''command lists (;)''
      else if r = ''&'' then (if nxt = ''&'' then ''command lists (&&)'' else ''background jobs (&)'')
      else if r = rDollar
      then (if nxt = ''('' then ''command substitution ($(...))'' else ''variables ($)'')
      else if r = rBacktick then ''command substitution ('' @ rBacktick @ ''...'' @ rBacktick @ '')''
      else if r = ''*'' \<or> r = ''?'' then ''globbing ('' @ r @ '')''
      else if r = ''('' \<or> r = '')'' then ''subshells ('' @ r @ '')''
      else [])"

definition isBlank :: "rune \<Rightarrow> bool" where
  "isBlank r \<longleftrightarrow> r \<in> {[CHR 0x20], [CHR 0x09], [CHR 0x0A], [CHR 0x0D]}"

text \<open>
  \<open>splitGo partial quote cur haveCur args rs\<close>: \<open>quote\<close> is \<^term>\<open>[]\<close> outside quotes. The result is an
  error, or the arguments and whether the line ends inside a word.
\<close>

fun splitGo :: "bool \<Rightarrow> rune \<Rightarrow> gostring \<Rightarrow> bool \<Rightarrow> gostring list \<Rightarrow> rune list
    \<Rightarrow> splitError + (gostring list \<times> bool)" where
  "splitGo partial quote cur haveCur args [] =
     (if quote \<noteq> [] \<and> \<not> partial then Inl ErrUnterminated
      else if haveCur then Inr (args @ [cur], True)
      else Inr (args, False))"
| "splitGo partial quote cur haveCur args (r # rs) =
     (if quote = rSQuote then
        (if r = rSQuote then splitGo partial [] cur haveCur args rs
         else splitGo partial quote (cur @ r) haveCur args rs)
      else if quote = rDQuote then
        (if r = rDQuote then splitGo partial [] cur haveCur args rs
         else if r = rBackslash then
           (if nextRune rs \<in> {rDQuote, rBackslash, rDollar, rBacktick}
            then splitGo partial quote (cur @ nextRune rs) haveCur args (tl rs)
            else splitGo partial quote (cur @ r) haveCur args rs)
         else if r = rDollar \<or> r = rBacktick
         then Inl (UnsupportedError (unsupported r (nextRune rs)))
         else splitGo partial quote (cur @ r) haveCur args rs)
      else if isBlank r then
        (if haveCur then splitGo partial quote [] False (args @ [cur]) rs
         else splitGo partial quote cur haveCur args rs)
      else if r = ''#'' \<and> \<not> haveCur then Inr (args, False)
      else if r = rSQuote \<or> r = rDQuote then splitGo partial r cur True args rs
      else if r = rBackslash then
        (if rs = [] then
           (if partial then splitGo partial quote cur haveCur args rs else Inl ErrUnterminated)
         else splitGo partial quote (cur @ nextRune rs) True args (tl rs))
      else if unsupported r (nextRune rs) \<noteq> []
      then Inl (UnsupportedError (unsupported r (nextRune rs)))
      else splitGo partial quote (cur @ r) True args rs)"

definition split :: "gostring \<Rightarrow> bool \<Rightarrow> splitError + (gostring list \<times> bool)" where
  "split line partial = splitGo partial [] [] False [] (runes line)"

definition splitLine :: "gostring \<Rightarrow> splitError + gostring list" where
  "splitLine line = (case split line False of Inl e \<Rightarrow> Inl e | Inr (args, _) \<Rightarrow> Inr args)"

definition splitPartial :: "gostring \<Rightarrow> splitError + (gostring list \<times> bool)" where
  "splitPartial line = split line True"

section \<open>Quoting\<close>

definition needsQuote :: "rune \<Rightarrow> bool" where
  "needsQuote r \<longleftrightarrow>
     (length r = 1 \<and> byte (hd r) \<le> 0x20)
     \<or> r \<in> {rSQuote, rDQuote, rBackslash, ''#'', ''|'', ''&'', '';'', ''<'', ''>'', ''('', '')'',
             rDollar, rBacktick, ''*'', ''?''}"

definition quoteArg :: "gostring \<Rightarrow> gostring" where
  "quoteArg s =
     (if s \<noteq> [] \<and> list_all (\<lambda>r. \<not> needsQuote r) (runes s) then s
      else rSQuote @ replaceByte s (CHR 0x27) (rSQuote @ rBackslash @ rSQuote @ rSQuote) @ rSQuote)"

definition validUtf8 :: "gostring \<Rightarrow> bool" where
  "validUtf8 s \<longleftrightarrow> concat (runes s) = s"

section \<open>Reading back\<close>

lemma needsQuote_unsupported:
  assumes "\<not> needsQuote r"
  shows "unsupported r n = []"
proof -
  have "r \<noteq> ''|''" "r \<noteq> ''>''" "r \<noteq> ''<''" "r \<noteq> '';''" "r \<noteq> ''&''" "r \<noteq> rDollar" "r \<noteq> rBacktick"
    "r \<noteq> ''*''" "r \<noteq> ''?''" "r \<noteq> ''(''" "r \<noteq> '')''"
    using assms unfolding needsQuote_def by blast+
  then show ?thesis by (simp only: unsupported_def if_False simp_thms)
qed

lemma needsQuote_blank: "isBlank r \<Longrightarrow> needsQuote r"
  unfolding isBlank_def needsQuote_def byte_def by (elim insertE emptyE) simp_all

lemma splitGo_plain:
  assumes "\<not> needsQuote r"
  shows "splitGo p [] cur h args (r # rs) = splitGo p [] (cur @ r) True args rs"
proof -
  have "unsupported r (nextRune rs) = []" using assms by (rule needsQuote_unsupported)
  moreover have "\<not> isBlank r" using assms needsQuote_blank by blast
  moreover have "r \<noteq> ''#''" "r \<noteq> rSQuote" "r \<noteq> rDQuote" "r \<noteq> rBackslash"
    using assms unfolding needsQuote_def by blast+
  moreover have "rSQuote \<noteq> []" "rDQuote \<noteq> []" by (simp_all add: rune_consts)
  ultimately show ?thesis by simp
qed

lemma splitGo_plain_word:
  "list_all (\<lambda>r. \<not> needsQuote r) ws \<Longrightarrow> ws \<noteq> [] \<Longrightarrow>
     splitGo p [] cur h args (ws @ rs) = splitGo p [] (cur @ concat ws) True args rs"
proof (induction ws arbitrary: cur h)
  case (Cons w ws)
  then show ?case by (cases "ws = []") (simp_all add: splitGo_plain del: splitGo.simps)
qed simp

text \<open>The runes of an argument inside single quotes, each quote spelled as close, escaped, open.\<close>

definition quotedRunes :: "rune list \<Rightarrow> rune list" where
  "quotedRunes ws =
     concat (map (\<lambda>w. if w = rSQuote then [rSQuote, rBackslash, rSQuote, rSQuote] else [w]) ws)"

lemma splitGo_quoted:
  "splitGo p rSQuote cur True args (quotedRunes ws @ rSQuote # rs) =
     splitGo p [] (cur @ concat ws) True args rs"
proof (induction ws arbitrary: cur)
  case Nil
  then show ?case by (simp add: quotedRunes_def)
next
  case (Cons w ws)
  show ?case
  proof (cases "w = rSQuote")
    case True
    then show ?thesis
      using Cons [of "cur @ rSQuote"]
      by (simp add: quotedRunes_def isBlank_def nextRune_def rune_consts)
  next
    case False
    then show ?thesis using Cons [of "cur @ w"] by (simp add: quotedRunes_def)
  qed
qed

lemma replaceByte_runes:
  assumes "list_all isRune ws"
  shows "replaceByte (concat ws) (CHR 0x27) (rSQuote @ rBackslash @ rSQuote @ rSQuote)
    = concat (quotedRunes ws)"
  using assms
proof (induction ws)
  case Nil
  then show ?case by (simp add: quotedRunes_def replaceByte_def)
next
  case (Cons w ws)
  have w: "w = rSQuote \<or> CHR 0x27 \<notin> set w"
  proof (cases "\<exists>c. w = [c]")
    case True
    then show ?thesis by (auto simp: rSQuote_def)
  next
    case False
    then have "\<forall>c \<in> set w. runeSelf \<le> byte c" using isRune_bytes [of w] Cons.prems by auto
    then show ?thesis by (auto simp: runeSelf_def byte_def dest: bspec [where x = "CHR 0x27"])
  qed
  have "replaceByte (w @ s) c t = replaceByte w c t @ replaceByte s c t" for w s c t
    by (simp add: replaceByte_def)
  moreover have "CHR 0x27 \<notin> set w \<Longrightarrow> replaceByte w (CHR 0x27) t = w" for t
    by (induction w) (auto simp: replaceByte_def)
  ultimately show ?case
    using Cons w by (auto simp: quotedRunes_def) (simp_all add: replaceByte_def rune_consts)
qed

lemma quotedRunes_isRune: "list_all isRune ws \<Longrightarrow> list_all isRune (quotedRunes ws)"
  by (induction ws)
    (simp_all add: quotedRunes_def rune_consts utf8_simps runeSelf_def byte_def isRune_ascii)

text \<open>What one quoted argument contributes to the runes of a line, and how it is read.\<close>

definition argRunes :: "gostring \<Rightarrow> rune list" where
  "argRunes s =
     (if s \<noteq> [] \<and> list_all (\<lambda>r. \<not> needsQuote r) (runes s) then runes s
      else rSQuote # quotedRunes (runes s) @ [rSQuote])"

lemma argRunes_isRune: "list_all isRune (argRunes s)"
proof -
  have "list_all isRune (runes s)" by (auto simp: list_all_iff dest: runes_isRune)
  moreover have "isRune rSQuote" by (simp add: rSQuote_def isRune_ascii runeSelf_def byte_def)
  ultimately show ?thesis by (simp add: argRunes_def quotedRunes_isRune)
qed

lemma quoteArg_runes: "validUtf8 s \<Longrightarrow> quoteArg s = concat (argRunes s)"
proof -
  assume v: "validUtf8 s"
  have "list_all isRune (runes s)" by (auto simp: list_all_iff dest: runes_isRune)
  from replaceByte_runes [OF this] v show ?thesis
    by (simp add: quoteArg_def argRunes_def validUtf8_def)
qed

lemma splitGo_arg:
  assumes "validUtf8 s"
  shows "splitGo p [] [] False args (argRunes s @ rs) = splitGo p [] s True args rs"
proof (cases "s \<noteq> [] \<and> list_all (\<lambda>r. \<not> needsQuote r) (runes s)")
  case True
  then have "runes s \<noteq> []" using assms by (auto simp: validUtf8_def)
  then show ?thesis
    using True assms splitGo_plain_word [of "runes s" p "[]" False args rs]
    by (simp add: argRunes_def validUtf8_def del: splitGo.simps)
next
  case False
  have "splitGo p [] [] False args (rSQuote # qs) = splitGo p rSQuote [] True args qs" for qs
    by (simp add: isBlank_def rune_consts)
  then show ?thesis
    using assms splitGo_quoted [of p "[]" args "runes s" rs]
    by (simp only: argRunes_def validUtf8_def False if_False append_Cons append_assoc append_Nil)
qed

definition lineRunes :: "gostring list \<Rightarrow> rune list" where
  "lineRunes ss = concat (map (\<lambda>s. argRunes s @ ['' '']) ss)"

lemma splitGo_line:
  "list_all validUtf8 ss \<Longrightarrow>
     splitGo p [] [] False args (lineRunes ss @ rs) = splitGo p [] [] False (args @ ss) rs"
proof (induction ss arbitrary: args)
  case (Cons s ss)
  have blank: "splitGo p [] s True args ('' '' # qs) = splitGo p [] [] False (args @ [s]) qs" for qs
    by (simp add: isBlank_def rune_consts)
  show ?case
    using Cons splitGo_arg [of s p args "'' '' # lineRunes ss @ rs"] blank
    by (simp add: lineRunes_def del: splitGo.simps)
qed (simp add: lineRunes_def)

lemma join_quoted:
  "ss \<noteq> [] \<Longrightarrow> list_all validUtf8 ss \<Longrightarrow>
     joinWith '' '' (map quoteArg ss) = concat (lineRunes (butlast ss) @ argRunes (last ss))"
proof (induction ss rule: induct_list012)
  case (3 s t ts)
  then show ?case by (simp add: lineRunes_def quoteArg_runes)
qed (simp_all add: lineRunes_def quoteArg_runes)

lemma splitLine_joined:
  assumes "list_all validUtf8 ss"
  shows "splitLine (joinWith '' '' (map quoteArg ss)) = Inr ss"
proof (cases "ss = []")
  case True
  then show ?thesis by (simp add: splitLine_def split_def)
next
  case False
  have r: "list_all isRune (lineRunes (butlast ss) @ argRunes (last ss))"
    using argRunes_isRune
    by (simp add: lineRunes_def list_all_iff isRune_ascii runeSelf_def byte_def) blast
  have v: "list_all validUtf8 (butlast ss)" "validUtf8 (last ss)"
    using assms False by (auto simp: list_all_iff dest: in_set_butlastD)
  have "splitGo False [] [] False [] (lineRunes (butlast ss) @ argRunes (last ss) @ [])
      = Inr (butlast ss @ [last ss], True)"
    using splitGo_line [OF v(1), of False "[]" "argRunes (last ss) @ []"]
      splitGo_arg [OF v(2), of False "butlast ss" "[]"] by simp
  then show ?thesis
    using False join_quoted [OF False assms] runes_concat [OF r]
    by (simp add: splitLine_def split_def)
qed



section \<open>Completion sees the same words\<close>

lemma splitGo_partial:
  "splitGo False q cur h args rs = Inr x \<Longrightarrow> splitGo True q cur h args rs = Inr x"
proof (induction "length rs" arbitrary: q cur h args rs rule: less_induct)
  case less
  show ?case
  proof (cases rs)
    case Nil
    then show ?thesis using less.prems by (simp split: if_split_asm)
  next
    case (Cons r rs')
    have IH: "splitGo False q cur h args rs' = Inr x \<Longrightarrow> splitGo True q cur h args rs' = Inr x"
      "splitGo False q cur h args (tl rs') = Inr x \<Longrightarrow> splitGo True q cur h args (tl rs') = Inr x"
      "splitGo False q cur h args [] = Inr x \<Longrightarrow> splitGo True q cur h args [] = Inr x"
      for q cur h args
      using less.hyps [of rs'] less.hyps [of "tl rs'"] less.hyps [of "[]"] Cons
      by (simp_all add: less_Suc_eq_le del: splitGo.simps)
    note prem = less.prems [unfolded Cons splitGo.simps]
    consider (squote) "q = rSQuote" | (dquote) "q \<noteq> rSQuote" "q = rDQuote"
      | (blank) "q \<noteq> rSQuote" "q \<noteq> rDQuote" "isBlank r"
      | (other) "q \<noteq> rSQuote" "q \<noteq> rDQuote" "\<not> isBlank r" by blast
    then show ?thesis
    proof cases
      case squote
      then show ?thesis using prem unfolding Cons splitGo.simps
        by (cases "r = rSQuote") (simp_all only: if_True if_False simp_thms IH)
    next
      case dquote
      then show ?thesis using prem unfolding Cons splitGo.simps
        by (cases "r = rDQuote"; cases "r = rBackslash"; cases "r = rDollar \<or> r = rBacktick";
            cases "nextRune rs' \<in> {rDQuote, rBackslash, rDollar, rBacktick}")
          (simp_all only: if_True if_False simp_thms IH sum.distinct)
    next
      case blank
      then show ?thesis using prem unfolding Cons splitGo.simps
        by (cases h) (simp_all only: if_True if_False simp_thms IH)
    next
      case other
      then show ?thesis using prem unfolding Cons splitGo.simps
        by (cases "r = ''#'' \<and> \<not> h"; cases "r = rSQuote \<or> r = rDQuote"; cases "r = rBackslash";
            cases "rs' = []"; cases "unsupported r (nextRune rs') \<noteq> []")
          (simp_all only: if_True if_False simp_thms IH sum.distinct)
    qed
  qed
qed

text \<open>
  Completion and execution agree on the words of a line: on every line that can be run, the
  splitter used for completion returns exactly the arguments the command would get.
\<close>

lemma splitPartial_agrees:
  assumes "splitLine line = Inr args"
  shows "\<exists>inWord. splitPartial line = Inr (args, inWord)"
  using assms splitGo_partial [of "[]" "[]" False "[]" "runes line"]
  by (auto simp: splitLine_def splitPartial_def split_def split: sum.splits prod.splits)

lemma splitPartial_agrees_witness:
  "\<exists>inWord. splitPartial ''a b'' = Inr ([''a'', ''b''], inWord)"
proof -
  have "splitLine (joinWith '' '' (map quoteArg [''a'', ''b''])) = Inr [''a'', ''b'']"
    by (rule splitLine_joined) (simp add: validUtf8_def runes_ascii byte_def runeSelf_def)
  moreover have "joinWith '' '' (map quoteArg [''a'', ''b'']) = ''a b''"
    by (simp add: quoteArg_def runes_ascii byte_def runeSelf_def needsQuote_def rune_consts)
  ultimately show ?thesis using splitPartial_agrees by metis
qed

end
