(* ===== verification/Shell_Redact.thy ===== *)
theory Shell_Redact
  imports Cli_Prefix Shell_Split Go_Values
begin

text \<open>
  \<^verbatim>\<open>src/internal/cli/shell/redact.go\<close>, with the list of secret names of
  \<^verbatim>\<open>src/internal/auth/debug.go\<close>: which values of a command line are kept out of the shell's
  history and audit log. \<^verbatim>\<open>strings.ToLower\<close> is modelled on ASCII, which flag names are.
\<close>

section \<open>Secret names\<close>

definition secretKeys :: "gostring list" where
  "secretKeys =
     [''password'', ''secret'', ''application_credential_secret'', ''passcode'', ''adminpass'',
      ''admin_pass'', ''private_key'', ''secret_id'', ''role_id'', ''token'', ''blob'',
      ''auth_key'', ''priv_key'']"

definition toLower :: "gostring \<Rightarrow> gostring" where
  "toLower s = map lowerByte s"

function secretTail :: "gostring \<Rightarrow> bool" where
  "secretTail k =
     (if k \<in> set secretKeys then True
      else case indexByte k (CHR ''_'') of
             None \<Rightarrow> False
           | Some i \<Rightarrow> secretTail (drop (i + 1) k))"
  by pat_completeness auto
termination
  by (relation "measure length") (auto dest: indexByte_Some)

declare secretTail.simps [simp del]

definition isSecretKey :: "gostring \<Rightarrow> bool" where
  "isSecretKey k = secretTail (toLower k)"

definition IsSecretName :: "gostring \<Rightarrow> bool" where
  "IsSecretName name =
     (let segs = splitOn (CHR ''_'') (toLower (replaceByte (trimLeftByte name (CHR ''-'')) (CHR ''-'') ''_''))
      in list_ex (\<lambda>i. joinWith ''_'' (drop i segs) \<in> set secretKeys \<or> segs ! i \<in> set secretKeys)
           [0..<length segs])"

section \<open>Redacting arguments\<close>

definition redacted :: gostring where
  "redacted = ''***''"

text \<open>
  The closure \<^verbatim>\<open>lookup\<close> over the command's own flags, the inherited ones and the root's: the first
  argument is the command the line resolves to with its ancestors.
\<close>

definition redactLookup :: "cmdPath \<Rightarrow> command \<Rightarrow> gostring \<Rightarrow> gostring \<Rightarrow> flag option" where
  "redactLookup cs root long short =
     (let pick = (\<lambda>fs. if long \<noteq> [] then lookupFlag long fs else shorthandLookup short fs);
          own = (case cs of [] \<Rightarrow> [] | c # _ \<Rightarrow> c_flags c);
          inherited = concat (map c_pflags (drop 1 cs))
      in case pick own of
           Some f \<Rightarrow> Some f
         | None \<Rightarrow> (case pick inherited of Some f \<Rightarrow> Some f | None \<Rightarrow> pick (c_pflags root)))"

text \<open>The name and shorthand of a flag token, or \<^const>\<open>None\<close> when the loop skips the argument.\<close>

definition flagParts :: "gostring \<Rightarrow> (gostring \<times> gostring) option" where
  "flagParts a =
     (if hasPrefix a ''--'' then Some (drop 2 a, [])
      else if hasPrefix a ''-'' \<and> length a = 2 then Some ([], drop 1 a)
      else None)"

fun redactGo :: "(gostring \<Rightarrow> gostring \<Rightarrow> flag option) \<Rightarrow> gostring list \<Rightarrow> gostring list" where
  "redactGo lookup [] = []"
| "redactGo lookup (a # rest) =
     (if a = ''--'' then a # rest
      else case flagParts a of
        None \<Rightarrow> a # redactGo lookup rest
      | Some (long, short) \<Rightarrow>
          (let (name, _, hasValue) = cut long (CHR ''='');
               f = lookup name short;
               secret = (case f of Some f \<Rightarrow> IsSecretName (fl_name f) | None \<Rightarrow> IsSecretName name)
           in if \<not> secret then
                (if (\<exists>g. f = Some g \<and> fl_noOptDefVal g = []) \<and> \<not> hasValue
                 then (case rest of [] \<Rightarrow> [a] | v # rest' \<Rightarrow> a # v # redactGo lookup rest')
                 else a # redactGo lookup rest)
              else if hasValue
              then (takeWhile (\<lambda>c. c \<noteq> CHR ''='') a @ ''='' @ redacted) # redactGo lookup rest
              else if \<exists>g. f = Some g \<and> fl_noOptDefVal g \<noteq> [] then a # redactGo lookup rest
              else (case rest of [] \<Rightarrow> [a] | v # rest' \<Rightarrow> a # redacted # redactGo lookup rest')))"

text \<open>\<open>find\<close> is what \<^verbatim>\<open>root.Find\<close> resolves the arguments to.\<close>

definition redactArgs :: "(gostring list \<Rightarrow> cmdPath option) \<Rightarrow> command \<Rightarrow> gostring list \<Rightarrow> gostring list" where
  "redactArgs findCmd root args =
     (let cs = (case findCmd args of Some c \<Rightarrow> c | None \<Rightarrow> [root])
      in redactGo (redactLookup cs root) args)"

definition stripPrefix :: "gostring list \<Rightarrow> gostring list" where
  "stripPrefix args =
     (case args of
        [] \<Rightarrow> []
      | a # rest \<Rightarrow> if a = ''koc'' \<or> a = ''openstack'' then rest else args)"

definition redactLine :: "(gostring list \<Rightarrow> cmdPath option) \<Rightarrow> command \<Rightarrow> gostring \<Rightarrow> gostring" where
  "redactLine findCmd root line =
     (case splitLine line of
        Inl _ \<Rightarrow>
          if list_ex (\<lambda>w. hasPrefix w ''-'' \<and> IsSecretName (takeWhile (\<lambda>c. c \<noteq> CHR ''='') w)) (Go_Strings.fields line)
          then fst (cut (trimSpace line) (CHR '' '')) @ '' '' @ redacted
          else line
      | Inr args \<Rightarrow>
          joinWith '' ''
            (map (\<lambda>a. if a = redacted \<or> hasSuffix a (''='' @ redacted) then a else quoteArg a)
               (redactArgs findCmd root (stripPrefix args))))"

section \<open>Secret values do not survive\<close>

text \<open>
  How the loop sees one argument: it is skipped, it stands alone, or it takes the next argument
  with it, which is then kept or replaced.
\<close>

datatype tokenKind = Skipped | Alone | TakesPlain | TakesSecret

definition tokenKind :: "(gostring \<Rightarrow> gostring \<Rightarrow> flag option) \<Rightarrow> gostring \<Rightarrow> tokenKind" where
  "tokenKind lookup a =
     (case flagParts a of
        None \<Rightarrow> Skipped
      | Some (long, short) \<Rightarrow>
          (let (name, _, hasValue) = cut long (CHR ''='');
               f = lookup name short;
               secret = (case f of Some f \<Rightarrow> IsSecretName (fl_name f) | None \<Rightarrow> IsSecretName name);
               bare = (\<exists>g. f = Some g \<and> fl_noOptDefVal g \<noteq> [])
           in if hasValue \<or> bare then Alone
              else if secret then TakesSecret
              else if f = None then Alone else TakesPlain))"

definition redactAlone :: "(gostring \<Rightarrow> gostring \<Rightarrow> flag option) \<Rightarrow> gostring \<Rightarrow> gostring" where
  "redactAlone lookup a = hd (redactGo lookup [a])"

lemma redactGo_skipped:
  "a \<noteq> ''--'' \<Longrightarrow> flagParts a = None \<Longrightarrow> redactGo lookup (a # rest) = a # redactGo lookup rest"
  by simp

lemma redactGo_flag:
  assumes "a \<noteq> ''--''" and "flagParts a = Some (long, short)" and "cut long (CHR ''='') = (name, x, hv)"
    and "secret = (case lookup name short of Some f \<Rightarrow> IsSecretName (fl_name f) | None \<Rightarrow> IsSecretName name)"
    and "bare = (\<exists>g. lookup name short = Some g \<and> fl_noOptDefVal g \<noteq> [])"
  shows "redactGo lookup (a # rest) =
    (if hv \<or> bare
     then (if secret \<and> hv then takeWhile (\<lambda>c. c \<noteq> CHR ''='') a @ ''='' @ redacted else a) # redactGo lookup rest
     else if secret then (case rest of [] \<Rightarrow> [a] | v # rest' \<Rightarrow> a # redacted # redactGo lookup rest')
     else if lookup name short = None then a # redactGo lookup rest
     else (case rest of [] \<Rightarrow> [a] | v # rest' \<Rightarrow> a # v # redactGo lookup rest'))"
proof -
  have "redactGo lookup (a # rest) =
    (if \<not> secret then
       (if (\<exists>g. lookup name short = Some g \<and> fl_noOptDefVal g = []) \<and> \<not> hv
        then (case rest of [] \<Rightarrow> [a] | v # rest' \<Rightarrow> a # v # redactGo lookup rest')
        else a # redactGo lookup rest)
     else if hv then (takeWhile (\<lambda>c. c \<noteq> CHR ''='') a @ ''='' @ redacted) # redactGo lookup rest
     else if bare then a # redactGo lookup rest
     else (case rest of [] \<Rightarrow> [a] | v # rest' \<Rightarrow> a # redacted # redactGo lookup rest'))"
    using assms by (simp only: redactGo.simps option.case prod.case Let_def if_False if_True)
  then show ?thesis using assms(5) by (cases "lookup name short") auto
qed

lemma tokenKind_flag:
  assumes "flagParts a = Some (long, short)" and "cut long (CHR ''='') = (name, x, hv)"
    and "secret = (case lookup name short of Some f \<Rightarrow> IsSecretName (fl_name f) | None \<Rightarrow> IsSecretName name)"
    and "bare = (\<exists>g. lookup name short = Some g \<and> fl_noOptDefVal g \<noteq> [])"
  shows "tokenKind lookup a = (if hv \<or> bare then Alone else if secret then TakesSecret
    else if lookup name short = None then Alone else TakesPlain)"
  using assms by (simp only: tokenKind_def option.case prod.case Let_def)

lemma redactGo_step:
  assumes "a \<noteq> ''--''"
  shows "tokenKind lookup a \<in> {Skipped, Alone} \<Longrightarrow>
      redactGo lookup (a # rest) = redactAlone lookup a # redactGo lookup rest"
    and "tokenKind lookup a = TakesPlain \<Longrightarrow>
      redactGo lookup (a # v # rest) = a # v # redactGo lookup rest"
    and "tokenKind lookup a = TakesSecret \<Longrightarrow>
      redactGo lookup (a # v # rest) = a # redacted # redactGo lookup rest"
proof -
  have "(tokenKind lookup a \<in> {Skipped, Alone} \<longrightarrow>
      redactGo lookup (a # rest) = redactAlone lookup a # redactGo lookup rest)
    \<and> (tokenKind lookup a = TakesPlain \<longrightarrow>
      redactGo lookup (a # v # rest) = a # v # redactGo lookup rest)
    \<and> (tokenKind lookup a = TakesSecret \<longrightarrow>
      redactGo lookup (a # v # rest) = a # redacted # redactGo lookup rest)"
  proof (cases "flagParts a")
    case None
    then have "tokenKind lookup a = Skipped" by (simp add: tokenKind_def)
    then show ?thesis using redactGo_skipped [OF assms None] by (simp add: redactAlone_def del: redactGo.simps(2))
  next
    case (Some ls)
    obtain long short where ls: "flagParts a = Some (long, short)" using Some by (cases ls) auto
    obtain name x hv where c: "cut long (CHR ''='') = (name, x, hv)" by (metis prod_cases3)
    define secret where "secret = (case lookup name short of
      Some f \<Rightarrow> IsSecretName (fl_name f) | None \<Rightarrow> IsSecretName name)"
    define bare where "bare = (\<exists>g. lookup name short = Some g \<and> fl_noOptDefVal g \<noteq> [])"
    note kind = tokenKind_flag [where lookup = lookup, OF ls c secret_def bare_def]
      and go = redactGo_flag [where lookup = lookup, OF assms ls c secret_def bare_def]
    show ?thesis
    proof (cases "hv \<or> bare")
      case True
      then show ?thesis by (simp add: kind go redactAlone_def del: redactGo.simps(2))
    next
      case False
      then show ?thesis
        by (cases secret; cases "lookup name short")
          (simp_all add: kind go redactAlone_def del: redactGo.simps(2))
    qed
  qed
  then show "tokenKind lookup a \<in> {Skipped, Alone} \<Longrightarrow>
      redactGo lookup (a # rest) = redactAlone lookup a # redactGo lookup rest"
    "tokenKind lookup a = TakesPlain \<Longrightarrow>
      redactGo lookup (a # v # rest) = a # v # redactGo lookup rest"
    "tokenKind lookup a = TakesSecret \<Longrightarrow>
      redactGo lookup (a # v # rest) = a # redacted # redactGo lookup rest" by blast+
qed

text \<open>The loop gets through these arguments and stands at the one after them.\<close>

fun scanned :: "(gostring \<Rightarrow> gostring \<Rightarrow> flag option) \<Rightarrow> gostring list \<Rightarrow> bool" where
  "scanned lookup [] = True"
| "scanned lookup (a # rest) =
     (a \<noteq> ''--''
      \<and> (if tokenKind lookup a \<in> {Skipped, Alone} then scanned lookup rest
         else case rest of [] \<Rightarrow> False | v # rest' \<Rightarrow> scanned lookup rest'))"

lemma redactGo_scanned:
  "scanned lookup pre \<Longrightarrow> redactGo lookup (pre @ rest) = redactGo lookup pre @ redactGo lookup rest"
proof (induction lookup pre rule: scanned.induct)
  case (2 lookup a pre)
  note a = 2(3)
  then have ne: "a \<noteq> ''--''" by simp
  show ?case
  proof (cases "tokenKind lookup a \<in> {Skipped, Alone}")
    case True
    then show ?thesis
      using 2(1) [OF True] a redactGo_step(1) [OF ne True] by (simp del: redactGo.simps)
  next
    case False
    then obtain v pre' where p: "pre = v # pre'" "scanned lookup pre'"
      using a by (auto split: list.splits)
    consider "tokenKind lookup a = TakesPlain" | "tokenKind lookup a = TakesSecret"
      using False by (cases "tokenKind lookup a") auto
    then show ?thesis
      using 2(2) [OF False p(1)] p redactGo_step(2,3) [OF ne] by cases (simp_all del: redactGo.simps)
  qed
qed simp

text \<open>A flag token of a secret flag, with the value apart and with the value inline.\<close>

definition secretFlag :: "(gostring \<Rightarrow> gostring \<Rightarrow> flag option) \<Rightarrow> gostring \<Rightarrow> bool" where
  "secretFlag lookup name \<longleftrightarrow>
     name \<noteq> [] \<and> CHR ''='' \<notin> set name
     \<and> (case lookup name [] of
          Some f \<Rightarrow> IsSecretName (fl_name f) \<and> fl_noOptDefVal f = []
        | None \<Rightarrow> IsSecretName name)"

lemma flagParts_long: "flagParts (''--'' @ s) = Some (s, [])"
  by (simp add: flagParts_def hasPrefix_def)

lemma tokenKind_secret:
  assumes "secretFlag lookup name"
  shows "tokenKind lookup (''--'' @ name) = TakesSecret"
    and "tokenKind lookup (''--'' @ name @ ''='' @ v) = Alone"
    and "redactAlone lookup (''--'' @ name @ ''='' @ v) = ''--'' @ name @ ''='' @ redacted"
proof -
  have n: "name \<noteq> []" "CHR ''='' \<notin> set name" using assms by (simp_all add: secretFlag_def)
  have c1: "cut name (CHR ''='') = (name, [], False)" using n by (simp add: cut_none)
  have c2: "cut (name @ ''='' @ v) (CHR ''='') = (name, v, True)" using n by (simp add: cut_at)
  have s: "(case lookup name [] of Some f \<Rightarrow> IsSecretName (fl_name f) | None \<Rightarrow> IsSecretName name)"
    "\<not> (\<exists>g. lookup name [] = Some g \<and> fl_noOptDefVal g \<noteq> [])"
    using assms by (auto simp: secretFlag_def split: option.splits)
  show "tokenKind lookup (''--'' @ name) = TakesSecret"
    using tokenKind_flag [where lookup = lookup, OF flagParts_long c1 refl refl] s by simp
  show "tokenKind lookup (''--'' @ name @ ''='' @ v) = Alone"
    using tokenKind_flag [where lookup = lookup, OF flagParts_long c2 refl refl] s by simp
  have "takeWhile (\<lambda>c. c \<noteq> CHR ''='') (''--'' @ name @ ''='' @ v) = ''--'' @ name"
    using n(2) by (simp add: takeWhile_append)
  moreover have "''--'' @ name @ ''='' @ v \<noteq> ''--''" by simp
  ultimately show "redactAlone lookup (''--'' @ name @ ''='' @ v) = ''--'' @ name @ ''='' @ redacted"
    unfolding redactAlone_def
    using redactGo_flag [where lookup = lookup and rest = "[]", OF _ flagParts_long c2 refl refl] s by simp
qed

text \<open>
  C9. The value of a secret flag does not survive redaction: wherever the loop meets the flag,
  what is recorded has the placeholder in the value's place, whether the value is the next
  argument or inline, and is the same whatever the value was; what comes before and after is
  redacted on its own.
\<close>

theorem redaction_hides_secret_values:
  assumes "scanned lookup pre" and "secretFlag lookup name"
  shows "redactGo lookup (pre @ (''--'' @ name) # v # post)
      = redactGo lookup pre @ (''--'' @ name) # redacted # redactGo lookup post
    \<and> redactGo lookup (pre @ (''--'' @ name @ ''='' @ v) # post)
      = redactGo lookup pre @ (''--'' @ name @ ''='' @ redacted) # redactGo lookup post"
proof -
  have "name \<noteq> []" using assms(2) by (simp add: secretFlag_def)
  then have ne: "''--'' @ name \<noteq> ''--''" "''--'' @ name @ ''='' @ v \<noteq> ''--''" by simp_all
  have "redactGo lookup ((''--'' @ name) # v # post) = (''--'' @ name) # redacted # redactGo lookup post"
    using redactGo_step(3) [OF ne(1) tokenKind_secret(1) [OF assms(2)]] .
  moreover have "redactGo lookup ((''--'' @ name @ ''='' @ v) # post)
      = (''--'' @ name @ ''='' @ redacted) # redactGo lookup post"
    using redactGo_step(1) [OF ne(2), where lookup = lookup and rest = post] tokenKind_secret(2,3) [OF assms(2), of v]
    by (simp only: insert_iff simp_thms)
  ultimately show ?thesis
    using redactGo_scanned [OF assms(1)] by metis
qed

definition sampleLookup :: "gostring \<Rightarrow> gostring \<Rightarrow> flag option" where
  "sampleLookup = redactLookup [sampleTree] sampleTree"

lemma sample_secret: "secretFlag sampleLookup ''os-token''"
  by (simp add: secretFlag_def sampleLookup_def redactLookup_def sampleTree_def lookupFlag_def
      IsSecretName_def trimLeftByte_def replaceByte_def toLower_def lowerByte_def byte_def
      secretKeys_def upt_rec Let_def)

theorem redaction_hides_secret_values_witness:
  "redactGo sampleLookup ([''server''] @ (''--'' @ ''os-token'') # ''hunter2'' # [''list''])
     = [''server'', ''--os-token'', redacted, ''list'']"
proof -
  have "scanned sampleLookup [''server'']" by (simp add: tokenKind_def flagParts_def hasPrefix_def)
  from redaction_hides_secret_values [OF this sample_secret, of "''hunter2''" "[''list'']"]
  show ?thesis by (simp add: flagParts_def hasPrefix_def)
qed

section \<open>Abbreviated flags\<close>

text \<open>
  The history file redacts the line as typed, before abbreviations are expanded. A secret
  flag that is abbreviated so far that neither the lookup nor the list of secret names knows it
  is completed when the line runs and would be redacted then, but in the history its value is
  recorded as typed.
\<close>

lemma abbreviated_secret_is_recorded:
  assumes "wfNames defined" and "name \<noteq> []" and "CHR ''='' \<notin> set name" and "name \<notin> set defined"
    and "soleFlagWithPrefix defined name = Some full" and "secretFlag lookup full"
    and "lookup name [] = None" and "\<not> IsSecretName name" and "\<not> hasPrefix v ''-''"
  shows "expandFlags defined [''--'' @ name, v] = [''--'' @ full, v]
    \<and> redactGo lookup [''--'' @ full, v] = [''--'' @ full, redacted]
    \<and> redactGo lookup [''--'' @ name, v] = [''--'' @ name, v]"
proof -
  have c: "cut name (CHR ''='') = (name, [], False)" using assms(3) by (simp add: cut_none)
  have v: "expandFlag defined v = v" "flagParts v = None" "v \<noteq> ''--''"
    using assms(9) by (cases v; simp add: expandFlag_def flagParts_def hasPrefix_def)+
  have "expandFlag defined (''--'' @ name) = ''--'' @ full"
    using assms(2,4,5) c by (simp add: expandFlag_def hasPrefix_def)
  then have "expandFlags defined [''--'' @ name, v] = [''--'' @ full, v]"
    using v assms(2) by (simp add: expandFlags_Cons del: expandFlags.simps(2))
  moreover have "tokenKind lookup (''--'' @ name) = Alone"
    using tokenKind_flag [where lookup = lookup, OF flagParts_long c refl refl] assms(7,8) by simp
  then have "redactGo lookup [''--'' @ name, v] = redactAlone lookup (''--'' @ name) # [v]"
    using redactGo_step(1) [of "''--'' @ name" lookup "[v]"] redactGo_skipped [OF v(3,2), of lookup "[]"] assms(2)
    by simp
  moreover have "redactAlone lookup (''--'' @ name) = ''--'' @ name"
    unfolding redactAlone_def
    using redactGo_flag [where lookup = lookup and rest = "[]", OF _ flagParts_long c refl refl] assms(2,7,8) by simp
  moreover have "redactGo lookup [''--'' @ full, v] = [''--'' @ full, redacted]"
    using redactGo_step(3) [OF _ tokenKind_secret(1) [OF assms(6)], of v "[]"] assms(6)
    by (simp add: secretFlag_def del: redactGo.simps(2))
  ultimately show ?thesis by simp
qed

lemma abbreviated_secret_is_recorded_witness:
  "redactGo sampleLookup [''--'' @ ''os-tok'', ''hunter2''] = [''--os-tok'', ''hunter2'']"
proof -
  have "soleFlagWithPrefix [''os-cloud'', ''os-token''] ''os-tok'' = Some ''os-token''"
    by (simp add: soleFlagWithPrefix_def hasPrefix_def)
  from abbreviated_secret_is_recorded [OF _ _ _ _ this sample_secret, of "''hunter2''"] show ?thesis
    by (simp add: wfNames_def sampleLookup_def redactLookup_def sampleTree_def lookupFlag_def
        IsSecretName_def trimLeftByte_def replaceByte_def toLower_def lowerByte_def byte_def
        secretKeys_def upt_rec Let_def hasPrefix_def del: redactGo.simps)
qed

end
