(* ===== verification/Shell_Prompt.thy ===== *)
theory Shell_Prompt
  imports Shell_Redact Auth_Options
begin

text \<open>
  \<^verbatim>\<open>prompt.go\<close> and \<^verbatim>\<open>complete.go\<close> of \<^verbatim>\<open>src/internal/cli/shell\<close>: the prompt and the budget it keeps to, and
  what Tab does to the line. cobra's own completion (\<^verbatim>\<open>__complete\<close>) is the argument \<open>ask\<close>: the text it
  prints for the words before the cursor and the word to complete, \<^const>\<open>None\<close> when it fails.
\<close>

section \<open>The prompt\<close>

definition promptEllipsis :: rune where "promptEllipsis = [CHR 0xE2, CHR 0x80, CHR 0xA6]"
definition promptDot :: rune where "promptDot = [CHR 0xC2, CHR 0xB7]"

definition promptMaxShare :: int where "promptMaxShare = 2"
definition promptMinWidth :: int where "promptMinWidth = 24"
definition promptMinRegion :: int where "promptMinRegion = 6"

record promptScope =
  ps_region :: gostring
  ps_project :: gostring

definition promptTruncate :: "gostring \<Rightarrow> int \<Rightarrow> gostring" where
  "promptTruncate s n =
     (if int (runeCount s) \<le> n then s
      else if n \<le> 1 then promptEllipsis
      else concat (take (nat (n - 1)) (runes s)) @ promptEllipsis)"

definition shortID :: "gostring \<Rightarrow> gostring" where
  "shortID ident = (if length ident > 8 then take 8 ident else ident)"

definition promptTail :: "int \<Rightarrow> gostring" where
  "promptTail status = (if status \<noteq> 0 then itoa status @ '' $ '' else ''$ '')"

text \<open>The \<^verbatim>\<open>switch\<close> that cuts the two names to the room left beside the fixed text.\<close>

definition fitNames :: "gostring \<Rightarrow> gostring \<Rightarrow> int \<Rightarrow> gostring \<times> gostring" where
  "fitNames region project room =
     (if region = [] then (region, promptTruncate project room)
      else if project = [] then (promptTruncate region room, project)
      else
        (let room = room - (int (length ('' '' @ promptDot @ '' '')) - 1);
             rw = int (runeCount region);
             pw = int (runeCount project)
         in if rw + pw > room
            then (let region = promptTruncate region (max (room - pw) (min rw promptMinRegion))
                  in (region, promptTruncate project (room - int (runeCount region))))
            else (region, project)))"

definition promptInner :: "gostring \<Rightarrow> gostring \<Rightarrow> gostring" where
  "promptInner region project =
     (if region = [] then project
      else if project \<noteq> [] then region @ '' '' @ promptDot @ '' '' @ project
      else region)"

definition formatPrompt :: "promptScope \<Rightarrow> int \<Rightarrow> int \<Rightarrow> gostring" where
  "formatPrompt s status width =
     (let tailText = promptTail status in
      if ps_region s = [] \<and> ps_project s = [] then ''koc '' @ tailText
      else
        (let budget = max (goQuot width promptMaxShare) promptMinWidth;
             fixed = int (length ''koc ['') + int (length ''] '') + int (runeCount tailText);
             (region, project) = fitNames (ps_region s) (ps_project s) (budget - fixed)
         in ''koc ['' @ promptInner region project @ ''] '' @ tailText))"

section \<open>Candidates\<close>

record candidate =
  ca_value :: gostring
  ca_desc :: gostring

record completion =
  cn_candidates :: "candidate list"
  cn_noSpace :: bool

definition noCompletion :: completion where
  "noCompletion = \<lparr>cn_candidates = [], cn_noSpace = False\<rparr>"

text \<open>cobra's \<^verbatim>\<open>ShellCompDirectiveError\<close> is bit 0 of the directive, \<^verbatim>\<open>ShellCompDirectiveNoSpace\<close> bit 1.\<close>

definition lineCandidate :: "gostring \<Rightarrow> gostring \<Rightarrow> candidate option" where
  "lineCandidate toComplete l =
     (if l = [] then None
      else let (v, desc, _) = cut l (CHR 0x09)
           in if hasPrefix v toComplete then Some \<lparr>ca_value = v, ca_desc = desc\<rparr> else None)"

definition parseCompletion :: "gostring \<Rightarrow> gostring \<Rightarrow> completion" where
  "parseCompletion out toComplete =
     (let ls = splitOn (CHR 0x0A) (trimRightByte out (CHR 0x0A));
          final = last ls
      in if \<not> hasPrefix final '':'' then noCompletion
         else case atoi (drop 1 final) of
             None \<Rightarrow> noCompletion
           | Some d \<Rightarrow>
               if bit d 0 then noCompletion
               else \<lparr>cn_candidates = List.map_filter (lineCandidate toComplete) (butlast ls), cn_noSpace = bit d 1\<rparr>)"

definition completeWord :: "(gostring list \<Rightarrow> gostring \<Rightarrow> gostring option) \<Rightarrow> (gostring list \<Rightarrow> gostring list) \<Rightarrow>
    gostring list \<Rightarrow> gostring \<Rightarrow> completion" where
  "completeWord ask expand ws toComplete =
     (case ask (expand ws) toComplete of
        None \<Rightarrow> noCompletion
      | Some out \<Rightarrow> parseCompletion out toComplete)"

function shrinkPrefix :: "gostring \<Rightarrow> gostring \<Rightarrow> gostring" where
  "shrinkPrefix v p = (if hasPrefix v p then p else shrinkPrefix v (butlast p))"
  by pat_completeness auto
termination
proof (relation "measure (\<lambda>(v, p). length p)")
  fix v p :: gostring
  assume "\<not> hasPrefix v p"
  then have "p \<noteq> []" by auto
  then show "((v, butlast p), (v, p)) \<in> measure (\<lambda>(v, p). length p)" by simp
qed simp

declare shrinkPrefix.simps [simp del]

text \<open>Called with at least two candidates.\<close>

definition commonPrefix :: "candidate list \<Rightarrow> gostring" where
  "commonPrefix cs = fold (\<lambda>c p. shrinkPrefix (ca_value c) p) (tl cs) (ca_value (hd cs))"

definition candidateLine :: "int \<Rightarrow> int \<Rightarrow> candidate \<Rightarrow> gostring" where
  "candidateLine termWidth width c =
     ca_value c
     @ (if ca_desc c \<noteq> []
        then repeatByte (CHR '' '') (nat (width - int (length (ca_value c)) + 2))
             @ promptTruncate (ca_desc c) (max (termWidth - width - 4) 10)
        else [])
     @ [CHR 0x0A]"

definition listCandidates :: "int \<Rightarrow> candidate list \<Rightarrow> gostring" where
  "listCandidates termWidth cs =
     (let width = fold (\<lambda>c w. max w (int (length (ca_value c)))) cs 0
      in concat (map (candidateLine termWidth width) cs))"

section \<open>Completing the word under the cursor\<close>

text \<open>
  \<^verbatim>\<open>wordStart\<close>: the loop looks only for ASCII characters, which are bytes of their own in UTF-8, so going
  through the bytes sees them at the offsets at which the loop over the runes does.
\<close>

fun wordStartGo :: "nat \<Rightarrow> char option \<Rightarrow> nat \<Rightarrow> gostring \<Rightarrow> nat" where
  "wordStartGo i quote start [] = start"
| "wordStartGo i quote start (c # cs) =
     (case quote of
        Some q \<Rightarrow> wordStartGo (i + 1) (if c = q then None else quote) start cs
      | None \<Rightarrow>
          if c = CHR 0x27 \<or> c = CHR 0x22 then wordStartGo (i + 1) (Some c) start cs
          else if c = CHR '' '' \<or> c = CHR 0x09 then wordStartGo (i + 1) None (i + 1) cs
          else wordStartGo (i + 1) None start cs)"

definition wordStart :: "gostring \<Rightarrow> nat" where
  "wordStart head = wordStartGo 0 None 0 head"

definition replaceWord :: "gostring \<Rightarrow> nat \<Rightarrow> bool \<Rightarrow> gostring \<Rightarrow> gostring \<times> nat" where
  "replaceWord line pos inWord ins =
     (let start = (if inWord then wordStart (take pos line) else pos)
      in (take start line @ ins @ drop pos line, start + length ins))"

definition keyInterrupt :: rune where "keyInterrupt = [CHR 0xEE, CHR 0x80, CHR 0x83]"

text \<open>What Tab leads to: a new line and cursor, candidates printed above the prompt, or nothing.\<close>

datatype tabResult = Untouched | Listed gostring | Replaced gostring nat

record tabWorld =
  tw_ask :: "gostring list \<Rightarrow> gostring \<Rightarrow> gostring option"
  tw_expand :: "gostring list \<Rightarrow> gostring list"
  tw_width :: int

text \<open>The words before the one to complete, and that one.\<close>

definition tabWords :: "gostring list \<Rightarrow> bool \<Rightarrow> gostring list \<times> gostring" where
  "tabWords ws inWord =
     (let ws = stripPrefix ws
      in if inWord \<and> ws \<noteq> [] then (butlast ws, last ws) else (ws, []))"

definition autoComplete :: "tabWorld \<Rightarrow> gostring \<Rightarrow> nat \<Rightarrow> rune \<Rightarrow> tabResult" where
  "autoComplete w line pos key =
     (if key = keyInterrupt then Replaced [] 0
      else if key \<noteq> [CHR 0x09] then Untouched
      else case splitPartial (take pos line) of
          Inl _ \<Rightarrow> Untouched
        | Inr (ws, inWord) \<Rightarrow>
            let (before, toComplete) = tabWords ws inWord;
                c = completeWord (tw_ask w) (tw_expand w) before toComplete
            in case cn_candidates c of
                [] \<Rightarrow> Untouched
              | [only] \<Rightarrow>
                  let (l, p) = replaceWord line pos inWord
                        (if cn_noSpace c then ca_value only else quoteArg (ca_value only) @ '' '')
                  in Replaced l p
              | cs \<Rightarrow>
                  if length (commonPrefix cs) > length toComplete
                  then (let (l, p) = replaceWord line pos inWord (commonPrefix cs) in Replaced l p)
                  else Listed (listCandidates (tw_width w) cs))"


section \<open>The prompt keeps to its budget\<close>

lemma runeCount_ascii_cons: "byte c < runeSelf \<Longrightarrow> runeCount (c # s) = Suc (runeCount s)"
  using runes_cons_rune [OF isRune_ascii, of c s] by (simp add: runeCount_def)

lemma runeCount_ascii_middle: "byte c < runeSelf \<Longrightarrow> runeCount (a @ c # b) = runeCount a + runeCount (c # b)"
  by (simp add: runeCount_def runes_append_ascii)

lemma runeCount_ascii_append: "list_all (\<lambda>c. byte c < runeSelf) a \<Longrightarrow> runeCount (a @ b) = length a + runeCount b"
  by (induction a) (simp_all add: runeCount_ascii_cons)

lemma runeCount_Nil [simp]: "runeCount [] = 0"
  by (simp add: runeCount_def)

lemma prompt_runes: "isRune promptEllipsis" "isRune promptDot"
  by (simp_all add: promptEllipsis_def promptDot_def isRune_def byte_def acceptRange_def isCont_def)

lemma runeCount_promptTruncate: "int (runeCount (promptTruncate s n)) \<le> max n 1"
proof -
  have "runes (concat (take k (runes s) @ [promptEllipsis])) = take k (runes s) @ [promptEllipsis]" for k
    by (rule runes_concat) (use prompt_runes in \<open>auto simp: list_all_iff dest: in_set_takeD runes_isRune\<close>)
  then have "runes (concat (take k (runes s)) @ promptEllipsis) = take k (runes s) @ [promptEllipsis]" for k by simp
  moreover have "runes promptEllipsis = [promptEllipsis]" using runes_cons_rune [OF prompt_runes(1), of "[]"] by simp
  ultimately show ?thesis by (auto simp: promptTruncate_def runeCount_def)
qed

lemma runeCount_promptInner: "region \<noteq> [] \<Longrightarrow> project \<noteq> [] \<Longrightarrow>
    runeCount (promptInner region project) = runeCount region + 3 + runeCount project"
  using runes_cons_rune [OF prompt_runes(2), of "'' '' @ project"] runes_cons_rune [OF prompt_runes(2), of "[]"]
  by (simp add: promptInner_def runeCount_ascii_middle runeCount_ascii_cons byte_def runeSelf_def)
    (simp add: runeCount_def runes_cons_rune isRune_ascii byte_def runeSelf_def)

lemma natDigits_length: "n < 10 \<Longrightarrow> length (natDigits n) = 1"
  "n < 100 \<Longrightarrow> length (natDigits n) \<le> 2" "n < 1000 \<Longrightarrow> length (natDigits n) \<le> 3" "n < 10000 \<Longrightarrow> length (natDigits n) \<le> 4"
proof -
  have one: "length (natDigits n) = 1" if "n < 10" for n using that by (subst natDigits.simps) simp
  have step: "length (natDigits n) \<le> Suc (length (natDigits (n div 10)))" for n
    by (subst natDigits.simps) simp
  have two: "length (natDigits n) \<le> 2" if "n < 100" for n
    using step [of n] one [of "n div 10"] that by (simp add: div_less_iff_less_mult)
  have three: "length (natDigits n) \<le> 3" if "n < 1000" for n
    using step [of n] two [of "n div 10"] that by (simp add: div_less_iff_less_mult)
  show "n < 10 \<Longrightarrow> length (natDigits n) = 1" "n < 100 \<Longrightarrow> length (natDigits n) \<le> 2" "n < 1000 \<Longrightarrow> length (natDigits n) \<le> 3"
    using one two three by blast+
  show "n < 10000 \<Longrightarrow> length (natDigits n) \<le> 4" using step [of n] three [of "n div 10"]
    by (simp add: div_less_iff_less_mult)
qed

lemma promptTail_ascii: "list_all (\<lambda>c. byte c < runeSelf) (promptTail status)"
proof -
  have "list_all (\<lambda>c. byte c < runeSelf) (natDigits n)" for n
    using natDigits_chars [of _ n] by (fastforce simp: list_all_iff runeSelf_def)
  then show ?thesis by (simp add: promptTail_def itoa_def byte_def runeSelf_def)
qed

lemma promptTail_length: "- 1000 < status \<Longrightarrow> status < 10000 \<Longrightarrow> length (promptTail status) \<le> 7"
  using natDigits_length(3) [of "nat (- status)"] natDigits_length(4) [of "nat status"]
  by (simp add: promptTail_def itoa_def)

lemma promptTruncate_Nil: "promptTruncate s n = [] \<Longrightarrow> s = []"
  by (auto simp: promptTruncate_def promptEllipsis_def split: if_splits)

lemma runeCount_pos: "s \<noteq> [] \<Longrightarrow> 0 < runeCount s"
  by (cases s) (simp_all add: runeCount_def runes.simps(2) Let_def del: runes.simps(1))

lemma fitNames_room:
  assumes "fitNames region project room = (region', project')" and "10 \<le> room" and "region \<noteq> [] \<or> project \<noteq> []"
  shows "int (runeCount (promptInner region' project')) \<le> room"
    and "int (runeCount (promptInner region project)) \<le> room \<Longrightarrow> region' = region \<and> project' = project"
proof -
  have dot: "int (length ('' '' @ promptDot @ '' '')) = 4" by (simp add: promptDot_def)
  consider (noRegion) "region = []" "project \<noteq> []" | (noProject) "region \<noteq> []" "project = []" | (both) "region \<noteq> []" "project \<noteq> []"
    using assms(3) by blast
  then have cut: "int (runeCount (promptInner region' project')) \<le> room
    \<and> (int (runeCount (promptInner region project)) \<le> room \<longrightarrow> region' = region \<and> project' = project)"
  proof cases
    case noRegion
    then show ?thesis using assms(1,2) runeCount_promptTruncate [of project room]
      by (auto simp: fitNames_def promptInner_def promptTruncate_def)
  next
    case noProject
    then show ?thesis using assms(1,2) runeCount_promptTruncate [of region room]
      by (auto simp: fitNames_def promptInner_def promptTruncate_def)
  next
    case both
    let ?room = "room - 3" and ?rw = "int (runeCount region)" and ?pw = "int (runeCount project)"
    have pos: "0 < ?rw" "0 < ?pw" using both by (simp_all add: runeCount_pos)
    show ?thesis
    proof (cases "?rw + ?pw > ?room")
      case True
      then have r: "region' = promptTruncate region (max (?room - ?pw) (min ?rw promptMinRegion))"
        and p: "project' = promptTruncate project (?room - int (runeCount region'))"
        using assms(1) both by (simp_all only: fitNames_def dot if_False Let_def if_True) auto
      have "region' \<noteq> []" "project' \<noteq> []" using both promptTruncate_Nil r p by auto
      moreover have "int (runeCount region') \<le> ?room - 1"
        using runeCount_promptTruncate [of region "max (?room - ?pw) (min ?rw promptMinRegion)"] assms(2) pos
        by (simp only: r [symmetric]) (simp add: promptMinRegion_def)
      then have "int (runeCount project') \<le> ?room - int (runeCount region')"
        using runeCount_promptTruncate [of project "?room - int (runeCount region')"] by (simp only: p [symmetric])
      ultimately show ?thesis using True both by (simp add: runeCount_promptInner)
    next
      case False
      then have "region' = region" "project' = project"
        using assms(1) both by (simp_all add: fitNames_def promptDot_def Let_def)
      then show ?thesis using False both by (simp add: runeCount_promptInner)
    qed
  qed
  from cut show "int (runeCount (promptInner region' project')) \<le> room" by (rule conjunct1)
  assume "int (runeCount (promptInner region project)) \<le> room"
  with cut show "region' = region \<and> project' = project" by blast
qed

text \<open>
  The prompt leaves room to type: for any names and any exit status a process can have it takes at
  most half the terminal's width (24 columns on a narrow one), and names that fit are shown in full.
\<close>

lemma prompt_fits:
  assumes "- 1000 < status" and "status < 10000"
  shows "int (runeCount (formatPrompt s status width)) \<le> max (goQuot width 2) 24
    \<and> (ps_region s \<noteq> [] \<or> ps_project s \<noteq> [] \<longrightarrow>
        (let full = ''koc ['' @ promptInner (ps_region s) (ps_project s) @ ''] '' @ promptTail status
         in int (runeCount full) \<le> max (goQuot width 2) 24 \<longrightarrow> formatPrompt s status width = full))"
proof -
  note tl = promptTail_length [OF assms]
  have rt: "runeCount (promptTail status) = length (promptTail status)"
    using runeCount_ascii_append [OF promptTail_ascii, of status "[]"] by simp
  have count: "runeCount (''koc ['' @ inner @ ''] '' @ promptTail status) = 7 + runeCount inner + runeCount (promptTail status)" for inner
    using runeCount_ascii_append [of "''koc [''" "inner @ ''] '' @ promptTail status"]
      runeCount_ascii_middle [of "CHR '']''" inner "'' '' @ promptTail status"]
      runeCount_ascii_append [of "''] ''" "promptTail status"]
    by (simp add: byte_def runeSelf_def)
  show ?thesis
  proof (cases "ps_region s = [] \<and> ps_project s = []")
    case True
    have "runeCount (''koc '' @ promptTail status) = 4 + runeCount (promptTail status)"
      using runeCount_ascii_append [of "''koc ''" "promptTail status"] by (simp add: byte_def runeSelf_def)
    then show ?thesis using True tl rt by (simp add: formatPrompt_def)
  next
    case False
    let ?room = "max (goQuot width 2) 24 - (7 + int (runeCount (promptTail status)))"
    obtain region project where n: "fitNames (ps_region s) (ps_project s) ?room = (region, project)" by fastforce
    have fp: "formatPrompt s status width = ''koc ['' @ promptInner region project @ ''] '' @ promptTail status"
      using False n by (simp add: formatPrompt_def promptMaxShare_def promptMinWidth_def Let_def split_beta)
    have "10 \<le> ?room" using tl rt by simp
    from fitNames_room [OF n this] False show ?thesis
      by (simp only: fp count Let_def) (auto simp: algebra_simps)
  qed
qed

lemma prompt_fits_witness:
  "int (runeCount (formatPrompt \<lparr>ps_region = ''region-with-a-long-name'', ps_project = ''a-project-of-some-length''\<rparr> 130 80)) \<le> 40"
  using prompt_fits [of 130 "\<lparr>ps_region = ''region-with-a-long-name'', ps_project = ''a-project-of-some-length''\<rparr>" 80]
  by (simp add: goQuot_def)

section \<open>A completed word is read back\<close>

lemma hasPrefix_butlast:
  assumes "\<not> hasPrefix v p" and "hasPrefix v s"
  shows "hasPrefix p s \<longleftrightarrow> hasPrefix (butlast p) s"
proof -
  have "s \<noteq> p" "p \<noteq> []" using assms by auto
  then obtain b x where p: "p = b @ [x]" by (metis append_butlast_last_id)
  show ?thesis
  proof
    assume "hasPrefix p s"
    then obtain t where t: "b @ [x] = s @ t" by (auto simp: hasPrefix_iff p)
    with \<open>s \<noteq> p\<close> p have "t \<noteq> []" by auto
    then obtain t' y where "t = t' @ [y]" by (metis append_butlast_last_id)
    with t show "hasPrefix (butlast p) s" by (auto simp: hasPrefix_iff p butlast_append)
  qed (auto simp: hasPrefix_iff p)
qed

lemma shrinkPrefix_iff: "hasPrefix v s \<and> hasPrefix p s \<longleftrightarrow> hasPrefix (shrinkPrefix v p) s"
proof (induction v p rule: shrinkPrefix.induct)
  case (1 v p)
  show ?case
  proof (cases "hasPrefix v p")
    case True
    then show ?thesis by (auto simp: shrinkPrefix.simps [of v p] hasPrefix_iff)
  next
    case False
    then have "hasPrefix v s \<and> hasPrefix p s \<longleftrightarrow> hasPrefix v s \<and> hasPrefix (butlast p) s"
      using hasPrefix_butlast by blast
    with 1 False show ?thesis by (simp add: shrinkPrefix.simps [of v p])
  qed
qed

text \<open>A text is a prefix of every candidate exactly when it is one of the common prefix, which therefore is the longest.\<close>

lemma commonPrefix_greatest:
  assumes "cs \<noteq> []"
  shows "hasPrefix (commonPrefix cs) s \<longleftrightarrow> list_all (\<lambda>c. hasPrefix (ca_value c) s) cs"
proof -
  have "hasPrefix (fold (\<lambda>c p. shrinkPrefix (ca_value c) p) ds p) s \<longleftrightarrow> hasPrefix p s \<and> list_all (\<lambda>c. hasPrefix (ca_value c) s) ds" for ds p
  proof (induction ds arbitrary: p)
    case (Cons d ds)
    then show ?case using shrinkPrefix_iff [of "ca_value d" s p] by auto
  qed simp
  then show ?thesis using assms by (cases cs) (simp_all add: commonPrefix_def)
qed

text \<open>The characters at which \<^const>\<open>wordStart\<close> and the splitter part ways.\<close>

definition tornChars :: "char set" where
  "tornChars = {CHR 0x5C, CHR ''#'', CHR 0x0A, CHR 0x0D}"

definition quoteChar :: "rune \<Rightarrow> char option" where
  "quoteChar q = (if q = [] then None else Some (hd q))"

lemma isRune_single: "isRune r \<Longrightarrow> c \<in> set r \<Longrightarrow> byte c < runeSelf \<Longrightarrow> r = [c]"
  using isRune_bytes [of r] by fastforce

lemma wordStartGo_skip:
  "c \<notin> set r \<Longrightarrow> wordStartGo i (Some c) s (r @ cs) = wordStartGo (i + length r) (Some c) s cs"
  "set r \<inter> {CHR 0x27, CHR 0x22, CHR '' '', CHR 0x09} = {} \<Longrightarrow> wordStartGo i None s (r @ cs) = wordStartGo (i + length r) None s cs"
  by (induction r arbitrary: i) auto

lemma unsupported_next: "unsupported r n = [] \<longleftrightarrow> unsupported r m = []"
  by (simp add: unsupported_def)

lemma rune_noneOf:
  assumes "isRune r" and "list_all (\<lambda>c. byte c < runeSelf \<and> r \<noteq> [c]) cs"
  shows "set r \<inter> set cs = {}"
  using assms isRune_single by (auto simp: list_all_iff)

text \<open>One rune of the line: a blank outside quotes ends the word, any other rune belongs to it.\<close>

lemma split_step:
  assumes "isRune r" and "set r \<inter> tornChars = {}" and "q \<in> {[], rSQuote, rDQuote}" and "q \<noteq> [] \<longrightarrow> have" and "have \<or> cur = []"
    and "splitGo True q cur have args (r # rs) = Inr x"
  shows "(q = [] \<and> length r = 1
      \<and> (\<forall>xs. splitGo True q cur have args (r # xs) = splitGo True [] [] False (if have then args @ [cur] else args) xs)
      \<and> (\<forall>i s cs. wordStartGo i None s (r @ cs) = wordStartGo (i + 1) None (i + 1) cs))
    \<or> (\<exists>q1 cur1. q1 \<in> {[], rSQuote, rDQuote}
      \<and> (\<forall>xs. splitGo True q cur have args (r # xs) = splitGo True q1 cur1 True args xs)
      \<and> (\<forall>i s cs. wordStartGo i (quoteChar q) s (r @ cs) = wordStartGo (i + length r) (quoteChar q1) s cs))"
proof -
  have torn: "r \<noteq> rBackslash" "r \<noteq> ''#''" "r \<noteq> [CHR 0x0A]" "r \<noteq> [CHR 0x0D]"
    using assms(2) by (auto simp: tornChars_def rBackslash_def)
  have qs: "rSQuote \<noteq> []" "rDQuote \<noteq> []" "rDQuote \<noteq> rSQuote" "quoteChar [] = None"
    "quoteChar rSQuote = Some (CHR 0x27)" "quoteChar rDQuote = Some (CHR 0x22)"
    by (simp_all add: rune_consts quoteChar_def)
  have ascii: "byte (CHR 0x27) < runeSelf" "byte (CHR 0x22) < runeSelf" "byte (CHR '' '') < runeSelf" "byte (CHR 0x09) < runeSelf"
    by (simp_all add: byte_def runeSelf_def)
  consider (sq) "q = rSQuote" | (dq) "q = rDQuote" | (none) "q = []" using assms(3) by blast
  then show ?thesis
  proof cases
    case sq
    then have h: "have" using assms(4) qs by simp
    show ?thesis
    proof (cases "r = rSQuote")
      case True
      then show ?thesis using sq h qs
        by (intro disjI2 exI [of _ "[]"] exI [of _ cur]) (simp add: rSQuote_def quoteChar_def)
    next
      case False
      then have "CHR 0x27 \<notin> set r" using isRune_single [OF assms(1) _ ascii(1)] by (auto simp: rSQuote_def)
      then show ?thesis using sq h qs False
        by (intro disjI2 exI [of _ rSQuote] exI [of _ "cur @ r"]) (simp add: wordStartGo_skip)
    qed
  next
    case dq
    then have h: "have" using assms(4) qs by simp
    show ?thesis
    proof (cases "r = rDQuote")
      case True
      then show ?thesis using dq h qs
        by (intro disjI2 exI [of _ "[]"] exI [of _ cur]) (simp add: rDQuote_def quoteChar_def)
    next
      case False
      then have "CHR 0x22 \<notin> set r" using isRune_single [OF assms(1) _ ascii(2)] by (auto simp: rDQuote_def)
      moreover have "r \<noteq> rDollar \<and> r \<noteq> rBacktick" using assms(6) dq qs False torn by (auto split: if_splits)
      ultimately show ?thesis using dq h qs False torn
        by (intro disjI2 exI [of _ rDQuote] exI [of _ "cur @ r"]) (simp add: wordStartGo_skip)
    qed
  next
    case none
    show ?thesis
    proof (cases "isBlank r")
      case True
      then have "r = '' '' \<or> r = [CHR 0x09]" using torn by (auto simp: isBlank_def)
      then show ?thesis using none True qs assms(5) by (intro disjI1) auto
    next
      case False
      then have nb: "r \<noteq> '' ''" "r \<noteq> [CHR 0x09]" by (auto simp: isBlank_def)
      show ?thesis
      proof (cases "r = rSQuote \<or> r = rDQuote")
        case True
        then show ?thesis using none False qs torn
          by (intro disjI2 exI [of _ r] exI [of _ cur]) (auto simp: rSQuote_def rDQuote_def quoteChar_def)
      next
        case nq: False
        then have "unsupported r n = []" for n
          using assms(6) none False torn qs unsupported_next [of r n "nextRune rs"] by (auto split: if_splits)
        moreover have "set r \<inter> set [CHR 0x27, CHR 0x22, CHR '' '', CHR 0x09] = {}"
          by (rule rune_noneOf [OF assms(1)]) (use nq nb ascii in \<open>simp add: rune_consts\<close>)
        ultimately show ?thesis using none False nq torn qs
          by (intro disjI2 exI [of _ "[]"] exI [of _ "cur @ r"]) (simp add: wordStartGo_skip)
      qed
    qed
  qed
qed

text \<open>
  \<^const>\<open>wordStart\<close> finds the word the splitter is in: up to there the splitter has read the words
  before it and stands outside quotes, whatever is put after.
\<close>

lemma wordStart_split:
  assumes "list_all isRune rs" and "set (concat rs) \<inter> tornChars = {}" and "q \<in> {[], rSQuote, rDQuote}"
    and "q \<noteq> [] \<longrightarrow> have" and "have \<or> cur = []" and "splitGo True q cur have args rs = Inr (ws, inWord)"
  shows "\<exists>k \<le> length rs. wordStartGo i (quoteChar q) start (concat rs) = (if k = 0 then start else i + length (concat (take k rs)))
    \<and> (0 < k \<longrightarrow> (\<forall>qs. splitGo True q cur have args (take k rs @ qs) = splitGo True [] [] False (if inWord then butlast ws else ws) qs))
    \<and> (k = 0 \<longrightarrow> inWord = (have \<or> rs \<noteq> []) \<and> (if inWord then butlast ws else ws) = args)
    \<and> (\<not> inWord \<longrightarrow> k = length rs)"
  using assms
proof (induction rs arbitrary: q cur "have" args i start)
  case Nil
  then show ?case by (auto split: if_splits)
next
  case (Cons r rs)
  have r: "isRune r" "set r \<inter> tornChars = {}" and rs: "list_all isRune rs" "set (concat rs) \<inter> tornChars = {}"
    using Cons.prems(1,2) by auto
  let ?ws = "if inWord then butlast ws else ws"
  from split_step [OF r Cons.prems(3-6)]
  show ?case
  proof (elim disjE exE conjE)
    let ?args = "if have then args @ [cur] else args"
    assume q: "q = []" and one: "length r = 1"
      and step: "\<forall>xs. splitGo True q cur have args (r # xs) = splitGo True [] [] False ?args xs"
      and ws: "\<forall>i s cs. wordStartGo i None s (r @ cs) = wordStartGo (i + 1) None (i + 1) cs"
    have "splitGo True [] [] False ?args rs = Inr (ws, inWord)" using Cons.prems(6) step by simp
    from Cons.IH [OF rs _ _ _ this, of "i + 1" "i + 1"] obtain k where k: "k \<le> length rs"
      "wordStartGo (i + 1) None (i + 1) (concat rs) = (if k = 0 then i + 1 else i + 1 + length (concat (take k rs)))"
      "0 < k \<longrightarrow> (\<forall>qs. splitGo True [] [] False ?args (take k rs @ qs) = splitGo True [] [] False ?ws qs)"
      "k = 0 \<longrightarrow> inWord = (rs \<noteq> []) \<and> ?ws = ?args" "\<not> inWord \<longrightarrow> k = length rs"
      by (auto simp: quoteChar_def)
    have "splitGo True q cur have args (take (Suc k) (r # rs) @ qs) = splitGo True [] [] False ?ws qs" for qs
    proof (cases "k = 0")
      case True
      then have "?ws = ?args" using k(4) by blast
      then show ?thesis by (simp only: True take_Suc_Cons take_0 append_Cons append_Nil step [rule_format])
    next
      case False
      then show ?thesis using k(3) step by (simp del: splitGo.simps)
    qed
    then show ?thesis using k q one ws
      by (intro exI [of _ "Suc k"]) (simp add: quoteChar_def del: splitGo.simps)
  next
    fix q1 cur1
    assume q1: "q1 \<in> {[], rSQuote, rDQuote}"
      and step: "\<forall>xs. splitGo True q cur have args (r # xs) = splitGo True q1 cur1 True args xs"
      and ws: "\<forall>i s cs. wordStartGo i (quoteChar q) s (r @ cs) = wordStartGo (i + length r) (quoteChar q1) s cs"
    have "splitGo True q1 cur1 True args rs = Inr (ws, inWord)" using Cons.prems(6) step by simp
    from Cons.IH [OF rs q1 _ _ this, of "i + length r" start] obtain k where k: "k \<le> length rs"
      "wordStartGo (i + length r) (quoteChar q1) start (concat rs) = (if k = 0 then start else i + length r + length (concat (take k rs)))"
      "0 < k \<longrightarrow> (\<forall>qs. splitGo True q1 cur1 True args (take k rs @ qs) = splitGo True [] [] False ?ws qs)"
      "k = 0 \<longrightarrow> inWord \<and> ?ws = args" "\<not> inWord \<longrightarrow> k = length rs"
      by auto
    then show ?thesis using step ws
      by (cases "k = 0"; intro exI [of _ "if k = 0 then 0 else Suc k"]) (auto simp del: splitGo.simps)
  qed
qed

lemma wordStart_line:
  assumes "list_all isRune rs" and "set (concat rs) \<inter> tornChars = {}" and "splitGo True [] [] False [] rs = Inr (ws, inWord)"
  shows "\<exists>k \<le> length rs. wordStart (concat rs) = length (concat (take k rs))
    \<and> (\<forall>qs. splitGo True [] [] False [] (take k rs @ qs) = splitGo True [] [] False (if inWord then butlast ws else ws) qs)
    \<and> (\<not> inWord \<longrightarrow> k = length rs)"
proof -
  from wordStart_split [OF assms(1,2) _ _ _ assms(3), of 0 0] obtain k where k: "k \<le> length rs"
    "wordStart (concat rs) = (if k = 0 then 0 else length (concat (take k rs)))"
    "0 < k \<longrightarrow> (\<forall>qs. splitGo True [] [] False [] (take k rs @ qs) = splitGo True [] [] False (if inWord then butlast ws else ws) qs)"
    "k = 0 \<longrightarrow> (if inWord then butlast ws else ws) = []" "\<not> inWord \<longrightarrow> k = length rs"
    by (auto simp only: wordStart_def quoteChar_def simp_thms if_True add_0 insert_iff)
  then show ?thesis by (intro exI [of _ k]) (cases "k = 0"; simp del: splitGo.simps)
qed



end
