(* ===== verification/Shell_Terminal.thy ===== *)
theory Shell_Terminal
  imports Shell_Prompt
begin

text \<open>
  \<^verbatim>\<open>src/internal/cli/shell/terminal.go\<close>: the rewriting of the terminal's bytes before the line editor of
  \<^verbatim>\<open>golang.org/x/term\<close> sees them, and the history with its file. What the terminal sends is a list of
  chunks, one per read; opening and writing files is input.
\<close>

section \<open>Keys\<close>

definition ctrlC :: char where "ctrlC = CHR 0x03"
definition ctrlW :: char where "ctrlW = CHR 0x17"
definition escKey :: char where "escKey = CHR 0x1B"
definition delKey :: char where "delKey = CHR 0x7F"
definition bsKey :: char where "bsKey = CHR 0x08"

definition wordLeft :: gostring where "wordLeft = escKey # ''[1;3D''"
definition wordRight :: gostring where "wordRight = escKey # ''[1;3C''"

text \<open>What \<^verbatim>\<open>appendKeys\<close> appends for the bytes of one chunk.\<close>

fun appendKeys :: "gostring \<Rightarrow> gostring" where
  "appendKeys [] = []"
| "appendKeys (b # rest) =
     (if b = ctrlC then keyInterrupt @ appendKeys rest
      else if b \<noteq> escKey then b # appendKeys rest
      else case rest of
          [] \<Rightarrow> []
        | n # rest' \<Rightarrow>
            if n = CHR ''['' \<or> n = CHR ''O'' then b # appendKeys rest
            else if n = delKey \<or> n = bsKey then ctrlW # appendKeys rest'
            else if n = CHR ''b'' then wordLeft @ appendKeys rest'
            else if n = CHR ''f'' then wordRight @ appendKeys rest'
            else appendKeys rest')"

text \<open>
  \<^verbatim>\<open>interruptFilter.Read\<close> with a buffer of \<open>n\<close> bytes: the bytes handed out with the error, the pending
  bytes and the reads left. \<^const>\<open>None\<close>: the terminal has sent nothing more and the call waits.
\<close>

fun filterRead :: "nat \<Rightarrow> gostring \<Rightarrow> (gostring \<times> gostring option) list \<Rightarrow>
    ((gostring \<times> gostring option) \<times> gostring \<times> (gostring \<times> gostring option) list) option" where
  "filterRead n pending reads =
     (if pending \<noteq> [] then Some ((take n pending, None), drop n pending, reads)
      else case reads of
          [] \<Rightarrow> None
        | (chunk, err) # rest \<Rightarrow>
            if chunk = [] then Some (([], err), [], rest)
            else filterRead n (appendKeys chunk) rest)"

declare filterRead.simps [simp del]

section \<open>Reading lines\<close>

definition defaultWidth :: int where "defaultWidth = 80"

text \<open>\<open>measured\<close> is what measuring the terminal gives, \<^const>\<open>None\<close> without a terminal or when it fails.\<close>

definition consoleWidth :: "(int \<times> int) option \<Rightarrow> int" where
  "consoleWidth measured = (case measured of Some (w, _) \<Rightarrow> if w > 0 then w else defaultWidth | None \<Rightarrow> defaultWidth)"

text \<open>The measurements the line editor is told: one nobody set is not passed on.\<close>

definition editorSize :: "(int \<times> int) option \<Rightarrow> (int \<times> int) option" where
  "editorSize measured = (case measured of Some (w, h) \<Rightarrow> if w > 0 \<and> h > 0 then Some (w, h) else None | None \<Rightarrow> None)"

section \<open>History\<close>

definition historyLimit :: nat where "historyLimit = 1000"

text \<open>\<open>hi_open\<close> says whether the file is open, \<open>hi_disk\<close> is what was appended to it.\<close>

record history =
  hi_entries :: "gostring list"
  hi_open :: bool
  hi_disk :: gostring

definition lastEntries :: "gostring list \<Rightarrow> gostring list" where
  "lastEntries es = (if length es > historyLimit then drop (length es - historyLimit) es else es)"

definition historyLine :: "(gostring \<Rightarrow> gostring) \<Rightarrow> gostring \<Rightarrow> gostring" where
  "historyLine redact entry = replaceByte (redact entry) (CHR 0x0A) '' '' @ [CHR 0x0A]"

text \<open>\<open>wr\<close> is what writing gives: \<^const>\<open>None\<close> when it works, else the number of bytes written before it failed.\<close>

definition historyAdd :: "(gostring \<Rightarrow> gostring) \<Rightarrow> gostring \<times> nat option \<Rightarrow> history \<Rightarrow> history" where
  "historyAdd redact ew h =
     (let (entry, wr) = ew in
      if trimSpace entry = [] then h
      else if hi_entries h \<noteq> [] \<and> last (hi_entries h) = entry then h
      else
        (let h = h\<lparr>hi_entries := lastEntries (hi_entries h @ [entry])\<rparr> in
         if \<not> hi_open h then h
         else case wr of
             None \<Rightarrow> h\<lparr>hi_disk := hi_disk h @ historyLine redact entry\<rparr>
           | Some n \<Rightarrow> h\<lparr>hi_disk := hi_disk h @ take n (historyLine redact entry), hi_open := False\<rparr>))"

definition historyLen :: "history \<Rightarrow> nat" where
  "historyLen h = length (hi_entries h)"

text \<open>\<^const>\<open>None\<close> is the panic of an index out of range.\<close>

definition historyAt :: "history \<Rightarrow> nat \<Rightarrow> gostring option" where
  "historyAt h idx =
     (if idx < length (hi_entries h) then Some (hi_entries h ! (length (hi_entries h) - 1 - idx)) else None)"

definition historyClose :: "history \<Rightarrow> history" where
  "historyClose h = h\<lparr>hi_open := False\<rparr>"

text \<open>
  \<open>path\<close> is the variable's value, \<open>raw\<close> the content of the file when it can be read, \<open>err\<close> why it cannot
  be opened for appending.
\<close>

definition openHistory :: "gostring \<Rightarrow> gostring option \<Rightarrow> gostring option \<Rightarrow> history \<times> gostring option" where
  "openHistory path raw err =
     (let h = \<lparr>hi_entries = [], hi_open = False, hi_disk = []\<rparr> in
      if path = [] then (h, None)
      else
        (let h = (case raw of
              None \<Rightarrow> h
            | Some content \<Rightarrow>
                h\<lparr>hi_entries := lastEntries (filter (\<lambda>l. trimSpace l \<noteq> []) (splitOn (CHR 0x0A) content))\<rparr>)
         in case err of
              Some e \<Rightarrow> (h, Some e)
            | None \<Rightarrow> (h\<lparr>hi_open := True\<rparr>, None)))"

section \<open>What reaches the line editor\<close>

text \<open>No Ctrl-C, and no escape byte but the one that opens a sequence the editor knows how to read.\<close>

fun safeKeys :: "gostring \<Rightarrow> bool" where
  "safeKeys [] = True"
| "safeKeys (c # cs) =
     (c \<noteq> ctrlC \<and> (c = escKey \<longrightarrow> cs \<noteq> [] \<and> hd cs \<in> {CHR ''['', CHR ''O''}) \<and> safeKeys cs)"

lemma safeKeys_append: "safeKeys a \<Longrightarrow> safeKeys b \<Longrightarrow> safeKeys (a @ b)"
  by (induction a) (auto simp: hd_append)

lemmas key_defs = ctrlC_def ctrlW_def escKey_def delKey_def bsKey_def wordLeft_def wordRight_def keyInterrupt_def

lemma appendKeys_safe: "safeKeys (appendKeys s)"
proof (induction s rule: appendKeys.induct)
  case (2 b rest)
  have k: "safeKeys keyInterrupt" "safeKeys wordLeft" "safeKeys wordRight" by (simp_all add: key_defs)
  show ?case
  proof (cases "b = ctrlC \<or> b \<noteq> escKey")
    case True
    then show ?thesis using 2(1,2) k by (auto intro: safeKeys_append)
  next
    case False
    note b = this
    show ?thesis
    proof (cases rest)
      case Nil
      then show ?thesis using b by (simp add: key_defs)
    next
      case (Cons n rest')
      have eq: "appendKeys (b # rest) =
        (if n = CHR ''['' \<or> n = CHR ''O'' then b # n # appendKeys rest'
         else if n = delKey \<or> n = bsKey then ctrlW # appendKeys rest'
         else if n = CHR ''b'' then wordLeft @ appendKeys rest'
         else if n = CHR ''f'' then wordRight @ appendKeys rest'
         else appendKeys rest')"
        using b Cons by (simp add: key_defs)
      have sub: "safeKeys (appendKeys rest')"
      proof (cases "n = CHR ''['' \<or> n = CHR ''O''")
        case True
        then have "appendKeys rest = n # appendKeys rest'" using Cons by (auto simp: key_defs)
        moreover have "safeKeys (appendKeys rest)" using 2(3) b Cons True by blast
        ultimately show ?thesis by (simp only: safeKeys.simps)
      next
        case False
        then show ?thesis using 2(4-7) b Cons by blast
      qed
      then show ?thesis unfolding eq using k b
        by (simp add: safeKeys_append) (simp add: key_defs)
    qed
  qed
qed simp

text \<open>A series of reads, each with its buffer: what was handed out, what is pending, and the reads left.\<close>

fun readMany :: "nat list \<Rightarrow> gostring \<Rightarrow> (gostring \<times> gostring option) list \<Rightarrow>
    gostring \<times> gostring \<times> (gostring \<times> gostring option) list" where
  "readMany [] pending reads = ([], pending, reads)"
| "readMany (n # ns) pending reads =
     (case filterRead n pending reads of
        None \<Rightarrow> ([], [], [])
      | Some ((d, _), pending', rest) \<Rightarrow> (let (ds, p, r) = readMany ns pending' rest in (d @ ds, p, r)))"

definition keyStream :: "(gostring \<times> gostring option) list \<Rightarrow> gostring" where
  "keyStream reads = concat (map (\<lambda>r. appendKeys (fst r)) reads)"

lemma filterRead_eqs:
  "pending \<noteq> [] \<Longrightarrow> filterRead n pending reads = Some ((take n pending, None), drop n pending, reads)"
  "filterRead n [] [] = None"
  "filterRead n [] (([], err) # rest) = Some (([], err), [], rest)"
  "chunk \<noteq> [] \<Longrightarrow> filterRead n [] ((chunk, err) # rest) = filterRead n (appendKeys chunk) rest"
  by (subst filterRead.simps, simp)+

lemma keyStream_Cons: "keyStream ((chunk, err) # reads) = appendKeys chunk @ keyStream reads"
  by (simp add: keyStream_def)

lemma filterRead_stream:
  "case filterRead n pending reads of
     Some ((d, e), pending', rest) \<Rightarrow> d @ pending' @ keyStream rest = pending @ keyStream reads
   | None \<Rightarrow> pending @ keyStream reads = []"
proof (induction reads arbitrary: pending)
  case Nil
  then show ?case by (cases "pending = []") (simp_all add: filterRead_eqs keyStream_def)
next
  case (Cons r reads)
  obtain chunk err where r: "r = (chunk, err)" by fastforce
  show ?case
  proof (cases "pending = []")
    case True
    then show ?thesis
      using Cons.IH [of "appendKeys chunk"] by (cases "chunk = []") (auto simp: r filterRead_eqs keyStream_Cons keyStream_def split: option.splits prod.splits)
  qed (simp add: filterRead_eqs)
qed

lemma keyStream_safe: "safeKeys (keyStream reads)"
  unfolding keyStream_def by (induction reads) (auto intro: safeKeys_append appendKeys_safe)


section \<open>What the history holds\<close>

lemma remdups_adj_snoc: "remdups_adj (xs @ [x]) = (if xs \<noteq> [] \<and> last xs = x then remdups_adj xs else remdups_adj xs @ [x])"
  by (induction xs rule: remdups_adj.induct) auto

lemma lastEntries_snoc: "lastEntries (lastEntries es @ [e]) = lastEntries (es @ [e])"
proof -
  have "1000 < n \<Longrightarrow> Suc (n - 1000) = n - 999" for n :: nat by arith
  then show ?thesis by (auto simp: lastEntries_def historyLimit_def)
qed

lemma lastEntries_last: "es \<noteq> [] \<Longrightarrow> lastEntries es \<noteq> [] \<and> last (lastEntries es) = last es"
  by (auto simp: lastEntries_def historyLimit_def)

lemma last_remdups_adj: "xs \<noteq> [] \<Longrightarrow> last (remdups_adj xs) = last xs"
  by (induction xs rule: remdups_adj.induct) auto

definition typedLines :: "(gostring \<times> nat option) list \<Rightarrow> gostring list" where
  "typedLines adds = remdups_adj (filter (\<lambda>l. trimSpace l \<noteq> []) (map fst adds))"

lemma typedLines_snoc:
  "typedLines (adds @ [(entry, wr)]) =
     (if trimSpace entry = [] \<or> typedLines adds \<noteq> [] \<and> last (typedLines adds) = entry then typedLines adds
      else typedLines adds @ [entry])"
  by (auto simp: typedLines_def remdups_adj_snoc last_remdups_adj)



end
