(* ===== verification/Shell_Embedded.thy ===== *)
theory Shell_Embedded
  imports Auth_Scope Koc_Home
begin

text \<open>
  \<^verbatim>\<open>src/internal/cli/embedded.go\<close>: what the embedded profile refuses of a command line before it runs.
  A command is what cobra resolved a line to: its path, and its flags with their values, defaults and
  whether the line gave them. The environment and the state of the home directory are input, as in
  \<^verbatim>\<open>Koc_Home\<close>.
\<close>

section \<open>Refusals\<close>

datatype refusalReason = RefusedFile | RefusedCredential | RefusedScopeSwitch | RefusedPrompt | RefusedCommand | RefusedPrivateKey

definition reasonText :: "refusalReason \<Rightarrow> gostring" where
  "reasonText r =
     (case r of
        RefusedFile \<Rightarrow> ''file'' | RefusedCredential \<Rightarrow> ''credential'' | RefusedScopeSwitch \<Rightarrow> ''scope''
      | RefusedPrompt \<Rightarrow> ''prompt'' | RefusedCommand \<Rightarrow> ''command'' | RefusedPrivateKey \<Rightarrow> ''private-key'')"

record RefusedError =
  re_Reason :: refusalReason
  re_Msg :: gostring

definition msgFiles :: gostring where
  "msgFiles = ''not available in the console terminal: files stay inside the session''"

record commandRefusal =
  cr_path :: gostring
  cr_reason :: refusalReason
  cr_msg :: gostring

record flagRefusal =
  fr_path :: gostring
  fr_flag :: gostring
  fr_reason :: refusalReason
  fr_msg :: gostring
  fr_allow :: "(gostring \<Rightarrow> bool) option"

definition embeddedCommandRefusals :: "commandRefusal list" where
  "embeddedCommandRefusals =
     [\<lparr>cr_path = ''vault'', cr_reason = RefusedCommand, cr_msg = ''koc vault is not available in the console terminal''\<rparr>,
      \<lparr>cr_path = ''s3'', cr_reason = RefusedCommand, cr_msg = ''koc s3 is not available in the console terminal''\<rparr>,
      \<lparr>cr_path = ''image stage'', cr_reason = RefusedFile, cr_msg = msgFiles\<rparr>,
      \<lparr>cr_path = ''image save'', cr_reason = RefusedFile, cr_msg = msgFiles\<rparr>,
      \<lparr>cr_path = ''zone import create'', cr_reason = RefusedFile, cr_msg = msgFiles\<rparr>]"

definition msgIdentity :: "gostring \<Rightarrow> gostring" where
  "msgIdentity flag = ''--'' @ flag @ '' is not available in the console terminal: you act as yourself, in the scope the console set''"

definition identityFlags :: "gostring list" where
  "identityFlags =
     [''os-token'', ''os-auth-url'', ''os-auth-type'', ''os-cloud'',
      ''os-username'', ''os-user-id'', ''os-password'', ''os-password-stdin'',
      ''os-passcode'', ''os-application-credential-id'', ''os-application-credential-name'', ''os-application-credential-secret'',
      ''os-trust-id'', ''os-endpoint'', ''os-system-scope'', ''os-user-domain-name'',
      ''os-user-domain-id'', ''insecure'', ''keyvrm-endpoint'', ''creds-from-ns'',
      ''creds-from-vault'', ''kube-context'', ''vault-addr'', ''vault-namespace'',
      ''vault-token'', ''vault-role-id'', ''vault-secret-id'', ''vault-approle-path'',
      ''vault-kv-mount'', ''vault-kv-prefix'', ''vault-insecure'', ''insecure-vault'']"

definition scopeSwitchFlags :: "gostring list" where
  "scopeSwitchFlags =
     [''os-project-name'', ''os-tenant-name'', ''os-tenant-id'', ''os-project-domain-name'',
      ''os-project-domain-id'', ''os-domain-name'', ''os-domain-id'']"

definition globalFileFlags :: "gostring list" where
  "globalFileFlags = [''os-cacert'', ''os-cert'', ''os-key'', ''kubeconfig'', ''vault-cacert'']"

definition commandFileFlags :: "(gostring \<times> gostring) list" where
  "commandFileFlags =
     [(''image create'', ''file''), (''server create'', ''user-data''),
      (''server rebuild'', ''user-data''), (''server password show'', ''private-key''),
      (''keypair create'', ''public-key''), (''baremetal introspection data save'', ''file''),
      (''baremetal node inventory save'', ''file''), (''secret store'', ''file''),
      (''secret get'', ''file'')]"

definition documentFlags :: "(gostring \<times> gostring) list" where
  "documentFlags =
     [(''baremetal deploy template create'', ''steps''), (''baremetal deploy template set'', ''steps''),
      (''baremetal runbook create'', ''steps''), (''baremetal runbook set'', ''steps''),
      (''baremetal node clean'', ''clean-steps''), (''baremetal node service'', ''service-steps''),
      (''baremetal inspection rule create'', ''actions''), (''baremetal inspection rule create'', ''conditions''),
      (''baremetal inspection rule set'', ''actions''), (''baremetal inspection rule set'', ''conditions'')]"

definition inlineDocument :: "gostring \<Rightarrow> bool" where
  "inlineDocument val =
     (let v = trimSpace val
      in hasPrefix v ''{'' \<or> hasPrefix v ''['' \<or> hasPrefix v ''- '' \<or> hasPrefix v (''-'' @ [CHR 0x0A]))"

definition inlineJSON :: "gostring \<Rightarrow> bool" where
  "inlineJSON val = (let v = trimSpace val in hasPrefix v ''{'' \<or> hasPrefix v ''['')"

text \<open>The table, in the order in which it is searched.\<close>

definition embeddedFlagRefusals :: "flagRefusal list" where
  "embeddedFlagRefusals =
     map (\<lambda>f. \<lparr>fr_path = [], fr_flag = f, fr_reason = RefusedCredential, fr_msg = msgIdentity f, fr_allow = None\<rparr>) identityFlags
     @ map (\<lambda>f. \<lparr>fr_path = [], fr_flag = f, fr_reason = RefusedScopeSwitch,
          fr_msg = ''--'' @ f @ '' is not available in the console terminal: switch project in the console'', fr_allow = None\<rparr>) scopeSwitchFlags
     @ map (\<lambda>f. \<lparr>fr_path = [], fr_flag = f, fr_reason = RefusedFile, fr_msg = msgFiles, fr_allow = None\<rparr>) globalFileFlags
     @ map (\<lambda>(p, f). \<lparr>fr_path = p, fr_flag = f, fr_reason = RefusedFile, fr_msg = msgFiles, fr_allow = None\<rparr>) commandFileFlags
     @ map (\<lambda>(p, f). \<lparr>fr_path = p, fr_flag = f, fr_reason = RefusedFile,
          fr_msg = msgFiles @ ''; give the document inline'', fr_allow = Some inlineDocument\<rparr>) documentFlags
     @ [\<lparr>fr_path = ''application credential create'', fr_flag = ''access-rules'', fr_reason = RefusedFile,
          fr_msg = msgFiles @ ''; give the rules inline as JSON'', fr_allow = Some inlineJSON\<rparr>,
        \<lparr>fr_path = ''server set'', fr_flag = ''root-password'', fr_reason = RefusedPrompt,
          fr_msg = ''--root-password prompts for the password, which the console terminal cannot do; use --password'', fr_allow = None\<rparr>]
     @ map (\<lambda>p. \<lparr>fr_path = p, fr_flag = ''password-prompt'', fr_reason = RefusedPrompt,
          fr_msg = ''--password-prompt prompts for the password, which the console terminal cannot do; use --password'', fr_allow = None\<rparr>)
         [''user create'', ''user set'']"

definition sessionScopeFlags :: "(gostring \<times> gostring) list" where
  "sessionScopeFlags = [(''os-region-name'', ''region''), (''os-project-id'', ''project'')]"

definition flagPrintPrivateKey :: gostring where "flagPrintPrivateKey = ''print-private-key''"
definition keypairCreatePath :: gostring where "keypairCreatePath = ''keypair create''"

section \<open>The check\<close>

record lineFlag =
  lf_name :: gostring
  lf_changed :: bool
  lf_value :: gostring
  lf_def :: gostring

text \<open>\<open>rc_session\<close>: the annotations of the root in which the shell records the session's own scope.\<close>

record resolvedCmd =
  rc_path :: gostring
  rc_name :: gostring
  rc_flags :: "lineFlag list"
  rc_session :: "(gostring \<times> gostring) list"

definition flagOf :: "resolvedCmd \<Rightarrow> gostring \<Rightarrow> lineFlag option" where
  "flagOf cmd name = List.find (\<lambda>f. lf_name f = name) (rc_flags cmd)"

datatype embeddedErr = HomeRefused homeErr | Refused RefusedError

definition sessionValue :: "resolvedCmd \<Rightarrow> lineFlag \<Rightarrow> gostring" where
  "sessionValue cmd f = (case map_of (rc_session cmd) (lf_name f) of Some v \<Rightarrow> v | None \<Rightarrow> lf_def f)"

text \<open>The loop over the commands, the loop over the flags and the loop over the two scope flags: the first refusal.\<close>

fun refusedCommand :: "gostring \<Rightarrow> commandRefusal list \<Rightarrow> RefusedError option" where
  "refusedCommand path [] = None"
| "refusedCommand path (r # rs) =
     (if path = cr_path r \<or> hasPrefix path (cr_path r @ '' '') then Some \<lparr>re_Reason = cr_reason r, re_Msg = cr_msg r\<rparr>
      else refusedCommand path rs)"

fun refusedFlag :: "resolvedCmd \<Rightarrow> gostring \<Rightarrow> flagRefusal list \<Rightarrow> RefusedError option" where
  "refusedFlag cmd path [] = None"
| "refusedFlag cmd path (r # rs) =
     (if fr_path r \<noteq> [] \<and> fr_path r \<noteq> path then refusedFlag cmd path rs
      else case flagOf cmd (fr_flag r) of
          None \<Rightarrow> refusedFlag cmd path rs
        | Some f \<Rightarrow>
            if \<not> lf_changed f then refusedFlag cmd path rs
            else if (case fr_allow r of Some allow \<Rightarrow> allow (lf_value f) | None \<Rightarrow> False) then refusedFlag cmd path rs
            else Some \<lparr>re_Reason = fr_reason r, re_Msg = fr_msg r\<rparr>)"

fun refusedSwitch :: "resolvedCmd \<Rightarrow> (gostring \<times> gostring) list \<Rightarrow> RefusedError option" where
  "refusedSwitch cmd [] = None"
| "refusedSwitch cmd ((flag, what) # rest) =
     (case flagOf cmd flag of
        None \<Rightarrow> refusedSwitch cmd rest
      | Some f \<Rightarrow>
          if \<not> lf_changed f then refusedSwitch cmd rest
          else if lf_value f \<noteq> sessionValue cmd f
          then Some \<lparr>re_Reason = RefusedScopeSwitch,
            re_Msg = ''--'' @ flag @ '' '' @ lf_value f @ '' is not this session'' @ [CHR 0x27] @ ''s '' @ what @ ''; switch '' @ what @ '' in the console''\<rparr>
          else refusedSwitch cmd rest)"

definition privateKeyWarning :: gostring where
  "privateKeyWarning = ''WARNING: the generated private key is printed below, once. Copy it now: koc keeps no copy and nova cannot show it again.''"

text \<open>\<^verbatim>\<open>checkPrivateKey\<close>: the refusal, or the lines printed on standard error.\<close>

definition checkPrivateKey :: "resolvedCmd \<Rightarrow> gostring \<Rightarrow> RefusedError + gostring list" where
  "checkPrivateKey cmd path =
     (if path \<noteq> keypairCreatePath then Inr []
      else if (case flagOf cmd ''public-key'' of Some pk \<Rightarrow> lf_changed pk | None \<Rightarrow> False) then Inr []
      else if (case flagOf cmd flagPrintPrivateKey of Some f \<Rightarrow> lf_changed f \<and> lf_value f = ''true'' | None \<Rightarrow> False)
      then Inr [privateKeyWarning]
      else Inl \<lparr>re_Reason = RefusedPrivateKey,
        re_Msg = ''keypair create generates a private key, which is printed on the terminal; pass --'' @ flagPrintPrivateKey @ '' to confirm''\<rparr>)"

definition exemptNames :: "gostring list" where
  "exemptNames = [''__complete'', ''__completeNoDesc'', ''help'', ''completion'']"

definition cmdPathOf :: "resolvedCmd \<Rightarrow> gostring" where
  "cmdPathOf cmd = trimSpace (trimPrefix (rc_path cmd) ''koc'')"

definition checkEmbedded :: "environ \<Rightarrow> bool \<Rightarrow> dirInfo option \<Rightarrow> resolvedCmd \<Rightarrow> embeddedErr + gostring list" where
  "checkEmbedded env mkdir lstat cmd =
     (if \<not> Embedded env then Inr []
      else if rc_name cmd \<in> set exemptNames then Inr []
      else case CheckEmbeddedHome env mkdir lstat of
          Some e \<Rightarrow> Inl (HomeRefused e)
        | None \<Rightarrow>
            (case refusedCommand (cmdPathOf cmd) embeddedCommandRefusals of
               Some r \<Rightarrow> Inl (Refused r)
             | None \<Rightarrow>
                 (case refusedFlag cmd (cmdPathOf cmd) embeddedFlagRefusals of
                    Some r \<Rightarrow> Inl (Refused r)
                  | None \<Rightarrow>
                      (case refusedSwitch cmd sessionScopeFlags of
                         Some r \<Rightarrow> Inl (Refused r)
                       | None \<Rightarrow> (case checkPrivateKey cmd (cmdPathOf cmd) of Inl r \<Rightarrow> Inl (Refused r) | Inr out \<Rightarrow> Inr out)))))"

section \<open>What a line that passes cannot have given\<close>

text \<open>The flags the line gave.\<close>

definition givenFlag :: "resolvedCmd \<Rightarrow> gostring \<Rightarrow> lineFlag option" where
  "givenFlag cmd name = (case flagOf cmd name of Some f \<Rightarrow> if lf_changed f then Some f else None | None \<Rightarrow> None)"

lemma refusedCommand_None:
  "refusedCommand path rs = None \<longleftrightarrow> list_all (\<lambda>r. path \<noteq> cr_path r \<and> \<not> hasPrefix path (cr_path r @ '' '')) rs"
  by (induction rs) auto

lemma refusedFlag_None:
  "refusedFlag cmd path rs = None \<longleftrightarrow> list_all (\<lambda>r. fr_path r \<in> {[], path} \<longrightarrow>
     (case givenFlag cmd (fr_flag r) of None \<Rightarrow> True
      | Some f \<Rightarrow> (case fr_allow r of Some allow \<Rightarrow> allow (lf_value f) | None \<Rightarrow> False))) rs"
  by (induction rs) (auto simp: givenFlag_def split: option.splits)

lemma refusedSwitch_None:
  "refusedSwitch cmd rs = None \<longleftrightarrow> list_all (\<lambda>(flag, _). case givenFlag cmd flag of None \<Rightarrow> True
     | Some f \<Rightarrow> lf_value f = sessionValue cmd f) rs"
  by (induction rs) (auto simp: givenFlag_def split: option.splits if_splits)

lemma checkEmbedded_passes:
  assumes "Embedded env" and "rc_name cmd \<notin> set exemptNames" and "checkEmbedded env mkdir lstat cmd = Inr out"
  shows "CheckEmbeddedHome env mkdir lstat = None"
    and "refusedCommand (cmdPathOf cmd) embeddedCommandRefusals = None"
    and "refusedFlag cmd (cmdPathOf cmd) embeddedFlagRefusals = None"
    and "refusedSwitch cmd sessionScopeFlags = None"
    and "checkPrivateKey cmd (cmdPathOf cmd) = Inr out"
  using assms by (auto simp: checkEmbedded_def split: option.splits sum.splits)

lemma passes_globalFlags:
  assumes "refusedFlag cmd path embeddedFlagRefusals = None" and "f \<in> set (identityFlags @ scopeSwitchFlags @ globalFileFlags)"
  shows "givenFlag cmd f = None"
proof -
  have "list_all (\<lambda>f. givenFlag cmd f = None) (identityFlags @ scopeSwitchFlags @ globalFileFlags)"
    using assms(1) unfolding refusedFlag_None embeddedFlagRefusals_def list_all_append list.pred_map comp_def
    by (simp split: option.splits)
  then show ?thesis using assms(2) by (simp only: list_all_iff)
qed

lemma passes_switches:
  assumes "refusedSwitch cmd sessionScopeFlags = None" and "givenFlag cmd f = Some fl" and "f \<in> {''os-region-name'', ''os-project-id''}"
  shows "lf_value fl = sessionValue cmd fl"
  using assms unfolding refusedSwitch_None sessionScopeFlags_def by auto

text \<open>
  What passes, said without the order of the tables: the command is under none of the refused ones, no
  refused flag was given but with an inline document, the two scope flags name the session's own
  scope, and a keypair is generated only when its private key may be printed.
\<close>

definition embeddedAllows :: "resolvedCmd \<Rightarrow> bool" where
  "embeddedAllows cmd \<longleftrightarrow>
     list_all (\<lambda>r. cmdPathOf cmd \<noteq> cr_path r \<and> \<not> hasPrefix (cmdPathOf cmd) (cr_path r @ '' '')) embeddedCommandRefusals
     \<and> list_all (\<lambda>r. fr_path r \<in> {[], cmdPathOf cmd} \<longrightarrow>
          (case givenFlag cmd (fr_flag r) of None \<Rightarrow> True
           | Some f \<Rightarrow> (case fr_allow r of Some allow \<Rightarrow> allow (lf_value f) | None \<Rightarrow> False))) embeddedFlagRefusals
     \<and> list_all (\<lambda>(flag, _). case givenFlag cmd flag of None \<Rightarrow> True | Some f \<Rightarrow> lf_value f = sessionValue cmd f) sessionScopeFlags
     \<and> (cmdPathOf cmd = keypairCreatePath \<longrightarrow> givenFlag cmd ''public-key'' \<noteq> None
          \<or> (\<exists>f. givenFlag cmd flagPrintPrivateKey = Some f \<and> lf_value f = ''true''))"

lemma checkPrivateKey_Inr:
  "(\<exists>out. checkPrivateKey cmd path = Inr out) \<longleftrightarrow>
     (path = keypairCreatePath \<longrightarrow> givenFlag cmd ''public-key'' \<noteq> None
        \<or> (\<exists>f. givenFlag cmd flagPrintPrivateKey = Some f \<and> lf_value f = ''true''))"
  by (auto simp: checkPrivateKey_def givenFlag_def split: option.splits)

lemma checkEmbedded_iff:
  assumes "Embedded env" and "rc_name cmd \<notin> set exemptNames" and "CheckEmbeddedHome env mkdir lstat = None"
  shows "(\<exists>out. checkEmbedded env mkdir lstat cmd = Inr out) \<longleftrightarrow> embeddedAllows cmd"
proof -
  let ?P = "\<exists>out. checkEmbedded env mkdir lstat cmd = Inr out"
  have "?P \<longleftrightarrow> refusedCommand (cmdPathOf cmd) embeddedCommandRefusals = None
      \<and> refusedFlag cmd (cmdPathOf cmd) embeddedFlagRefusals = None
      \<and> refusedSwitch cmd sessionScopeFlags = None \<and> (\<exists>out. checkPrivateKey cmd (cmdPathOf cmd) = Inr out)"
    using assms by (auto simp: checkEmbedded_def split: option.splits sum.splits)
  then show ?thesis
    unfolding refusedCommand_None refusedFlag_None refusedSwitch_None checkPrivateKey_Inr embeddedAllows_def .
qed

section \<open>Assignments by name\<close>

text \<open>
  Assignments that overwrite and commute: the outcome of a list of them depends only on the value each
  name gets last.
\<close>

locale flag_store_laws = flag_store get put known
  for get :: "'f \<Rightarrow> 's \<Rightarrow> 'v" and put :: "'f \<Rightarrow> 'v \<Rightarrow> 's \<Rightarrow> 's" and known :: "'f \<Rightarrow> bool" +
  assumes put_put: "put f v (put f u s) = put f v s"
    and put_commute: "f \<noteq> g \<Longrightarrow> put f v (put g u s) = put g u (put f v s)"
begin

abbreviation puts :: "('f \<times> 'v) list \<Rightarrow> 's \<Rightarrow> 's" where
  "puts \<equiv> fold (\<lambda>fv. put (fst fv) (snd fv))"

lemma put_puts: "f \<notin> fst ` set fvs \<Longrightarrow> put f v (puts fvs s) = puts fvs (put f v s)"
  by (induction fvs arbitrary: s) (auto simp: put_commute)

lemma puts_last:
  "map_of (rev fvs) f = Some v \<Longrightarrow> puts fvs s = put f v (puts (filter (\<lambda>fv. fst fv \<noteq> f) fvs) s)"
proof (induction fvs arbitrary: v rule: rev_induct)
  case (snoc gu fvs)
  obtain g u where gu: "gu = (g, u)" by fastforce
  show ?case
  proof (cases "g = f")
    case True
    then have v: "v = u" using snoc.prems gu by simp
    show ?thesis
    proof (cases "map_of (rev fvs) f")
      case None
      then have "filter (\<lambda>fv. fst fv \<noteq> f) fvs = fvs" by (auto simp: filter_id_conv map_of_eq_None_iff)
      then show ?thesis using True gu v by simp
    next
      case (Some w)
      show ?thesis using snoc.IH [OF Some] True gu v by (simp add: put_put)
    qed
  next
    case False
    then have "map_of (rev fvs) f = Some v" using snoc.prems gu by simp
    from snoc.IH [OF this] show ?thesis using False gu by (simp add: put_commute)
  qed
qed simp

lemma map_of_rev_filter: "map_of (rev (filter (\<lambda>fv. fst fv \<noteq> f) fvs)) = (map_of (rev fvs))(f := None)"
proof
  fix x
  show "map_of (rev (filter (\<lambda>fv. fst fv \<noteq> f) fvs)) x = ((map_of (rev fvs))(f := None)) x"
    by (induction fvs rule: rev_induct) auto
qed

lemma puts_cong: "map_of (rev a) = map_of (rev b) \<Longrightarrow> puts a s = puts b s"
proof (induction "length a" arbitrary: a b rule: less_induct)
  case less
  show ?case
  proof (cases a)
    case Nil
    then have "map_of (rev b) = Map.empty" using less.prems by simp
    then have "b = []" by (metis map_of_eq_empty_iff rev_is_Nil_conv)
    then show ?thesis using Nil by simp
  next
    case (Cons fv a')
    obtain f x where fv: "fv = (f, x)" by fastforce
    have "f \<in> dom (map_of (rev a))" using Cons fv by (simp add: dom_map_of_conv_image_fst)
    then obtain v where v: "map_of (rev a) f = Some v" by blast
    let ?F = "filter (\<lambda>fv. fst fv \<noteq> f)"
    have "length (?F a) < length a" using Cons fv by (simp add: le_imp_less_Suc)
    moreover have "map_of (rev (?F a)) = map_of (rev (?F b))" unfolding map_of_rev_filter less.prems ..
    ultimately have "puts (?F a) s = puts (?F b) s" by (rule less.hyps)
    then show ?thesis using puts_last [OF v] puts_last [OF v [unfolded less.prems]] by simp
  qed
qed

end

text \<open>The options that no string flag sets; with the string flags they are all there is.\<close>

definition otherOptions :: "Options \<Rightarrow> (bool list \<times> gostring list) \<times> (gostring \<times> gostring) list \<times> duration \<times> gostring list option \<times> gostring list" where
  "otherOptions opts =
     (([op_PasswordStdin opts, op_Insecure opts, op_VaultInsecure opts, op_Debug opts, op_Timing opts],
       [op_authKind opts, op_ClientCertPEM opts, op_ClientKeyPEM opts, op_DebugFormat opts]),
      op_endpointOverrides opts, op_Timeout opts, op_fs opts, op_forced opts)"

lemma stringFlags_others: "list_all (\<lambda>fd. \<forall>v opts. otherOptions (of_set fd v opts) = otherOptions opts) stringFlags"
  by (simp add: stringFlags_def flagField_def otherOptions_def)

lemma options_determined:
  assumes "list_all (\<lambda>fd. of_get fd a = of_get fd b) stringFlags" and "otherOptions a = otherOptions b"
  shows "a = (b :: Options)"
  using assms unfolding stringFlags_def list.pred_inject flagField_def optField.simps otherOptions_def prod.inject list.inject
  by (elim conjE) (rule Options.equality; assumption?; simp)

lemma setField_others [simp]: "otherOptions (setField f v opts) = otherOptions opts"
  using stringFlags_others by (auto simp: setField_def list_all_iff split: option.split dest: lookupField_Some)

lemma options_ext:
  assumes "\<And>f. knownFlag f \<Longrightarrow> getField f a = getField f b" and "otherOptions a = otherOptions b"
  shows "a = b"
proof (rule options_determined [OF _ assms(2)], unfold list_all_iff, rule ballI)
  fix fd assume fd: "fd \<in> set stringFlags"
  then have k: "knownFlag (of_flag fd)" by (auto simp: knownFlag_def)
  then obtain fd' where l: "lookupField (of_flag fd) = Some fd'" by (auto simp: knownFlag_lookup)
  then have "fd' = fd"
    using lookupField_Some [OF l] fd stringFlags_distinct by (metis distinct_map inj_on_def)
  with assms(1) [OF k] l show "of_get fd a = of_get fd b" by (simp add: getField_def)
qed

interpretation optSets: flag_store_laws getField setField knownFlag
proof
  show "setField f v (setField f u s) = setField f v s" for f v u s
    by (rule options_ext) (simp_all add: opts.get_put)
  show "setField f v (setField g u s) = setField g u (setField f v s)" if "f \<noteq> g" for f g v u s
    by (rule options_ext) (use that in \<open>auto simp: opts.get_put\<close>)
qed

section \<open>The session on an embedded line\<close>

lemma setField_fs: "setField f v (opts\<lparr>op_fs := x\<rparr>) = (setField f v opts)\<lparr>op_fs := x\<rparr>"
proof (rule options_ext)
  show "getField g (setField f v (opts\<lparr>op_fs := x\<rparr>)) = getField g ((setField f v opts)\<lparr>op_fs := x\<rparr>)" if "knownFlag g" for g
    using opts.get_put [OF that] by simp
  have oth: "otherOptions (o1\<lparr>op_fs := x\<rparr>) = otherOptions (o2\<lparr>op_fs := x\<rparr>)" if "otherOptions o1 = otherOptions o2" for o1 o2 :: Options
    using that by (simp add: otherOptions_def)
  show "otherOptions (setField f v (opts\<lparr>op_fs := x\<rparr>)) = otherOptions ((setField f v opts)\<lparr>op_fs := x\<rparr>)"
    unfolding setField_others by (rule oth) simp
qed

lemma setFields_fs: "optSets.puts fvs (opts\<lparr>op_fs := x\<rparr>) = (optSets.puts fvs opts)\<lparr>op_fs := x\<rparr>"
  by (induction fvs arbitrary: opts) (simp_all add: setField_fs)

lemma setFields_frame [simp]: "op_fs (optSets.puts fvs opts) = op_fs opts"
  by (induction fvs arbitrary: opts) simp_all

lemma typeFlags_puts:
  "fold typeFlag typed opts = (optSets.puts typed opts)\<lparr>op_fs := map_option ((@) (rev (map fst typed))) (op_fs opts)\<rparr>"
proof (induction typed rule: rev_induct)
  case Nil
  then show ?case by (cases "op_fs opts") simp_all
next
  case (snoc fv typed)
  then show ?case by (simp add: typeFlag_def setField_fs option.map_comp comp_def)
qed

text \<open>Typed flags that the scope file does not set, or that repeat what it sets, can be typed first.\<close>

lemma typed_before_scope:
  assumes "\<And>f v w. map_of (rev typed) f = Some v \<Longrightarrow> map_of (FlagValues sf) f = Some w \<Longrightarrow> v = w"
  shows "fold typeFlag typed (applyScope sf opts) = applyScope sf (fold typeFlag typed opts)"
proof -
  have "map_of (rev (FlagValues sf @ typed)) = map_of (rev (typed @ FlagValues sf))"
    using assms by (auto simp: fun_eq_iff map_add_def map_of_rev_distinct [OF FlagValues_distinct] split: option.split)
  then have "optSets.puts typed (optSets.puts (FlagValues sf) opts) = optSets.puts (FlagValues sf) (optSets.puts typed opts)"
    using optSets.puts_cong [of "FlagValues sf @ typed" "typed @ FlagValues sf" opts] by simp
  then show ?thesis by (simp add: typeFlags_puts applyScope_def setFields_fs setField_frame)
qed

text \<open>The line gave exactly these flags, with the value each got last.\<close>

definition lineGives :: "resolvedCmd \<Rightarrow> (gostring \<times> gostring) list \<Rightarrow> bool" where
  "lineGives cmd typed \<longleftrightarrow>
     list_all (\<lambda>f. map_option lf_value (givenFlag cmd f) = map_of (rev typed) f) (map fst typed)"

lemma givenFlag_name: "givenFlag cmd f = Some fl \<Longrightarrow> lf_name fl = f"
  by (auto simp: givenFlag_def flagOf_def find_Some_iff split: option.splits if_splits)

lemma cleared_are_refused:
  "list_all (\<lambda>f. f \<in> {''os-region-name'', ''os-project-id''} \<or> f \<in> set (identityFlags @ scopeSwitchFlags @ globalFileFlags))
     (map fst (FlagValues sf))"
  by (simp add: FlagValues_def scopeClearedFlags_def identityFlags_def scopeSwitchFlags_def globalFileFlags_def)



end
