(* ===== verification/Cli_Run.thy ===== *)
theory Cli_Run
  imports Output_Columns Watch_Loop
begin

text \<open>
  How an invocation ends and what the assembly of the command tree adds to the commands:
  \<^verbatim>\<open>run.go\<close> (exit statuses), \<^verbatim>\<open>groups.go\<close> (groups reject unknown verbs), \<^verbatim>\<open>mutation.go\<close> (a write that fails
  only while rendering says so) and \<^verbatim>\<open>watch.go\<close> (the \<^verbatim>\<open>--watch\<close> flags) of \<^verbatim>\<open>src/internal/cli\<close>. What a command's
  own \<^verbatim>\<open>RunE\<close> does is input; \<^verbatim>\<open>time.ParseDuration\<close> is the argument \<open>parse\<close>.
\<close>

section \<open>Errors and exit statuses\<close>

text \<open>An error as \<^verbatim>\<open>errors.Is\<close> and \<^verbatim>\<open>errors.As\<close> see it.\<close>

record runErr =
  ru_text :: gostring
  ru_canceled :: bool
  ru_watchStopped :: bool
  ru_unknown :: bool
  ru_refusal :: "gostring option"
  ru_column :: "columnError option"

definition plainErr :: "gostring \<Rightarrow> runErr" where
  "plainErr t = \<lparr>ru_text = t, ru_canceled = False, ru_watchStopped = False, ru_unknown = False, ru_refusal = None, ru_column = None\<rparr>"

definition ExitOK :: int where "ExitOK = 0"
definition ExitFailure :: int where "ExitFailure = 1"
definition ExitUsage :: int where "ExitUsage = 2"
definition ExitInterrupted :: int where "ExitInterrupted = 130"

definition interruptMessage :: "runErr \<Rightarrow> gostring" where
  "interruptMessage e =
     (if ru_watchStopped e then ''koc: interrupted''
      else ''koc: interrupted (the server-side operation may still be running)'')"

text \<open>The command is given by its \<^verbatim>\<open>SilenceUsage\<close>, \<^const>\<open>None\<close> when there is none.\<close>

definition isUsageError :: "bool option \<Rightarrow> runErr \<Rightarrow> bool" where
  "isUsageError cmd e \<longleftrightarrow> cmd = Some False \<or> ru_unknown e"

definition ExitStatus :: "bool option \<Rightarrow> runErr option \<Rightarrow> int \<times> gostring" where
  "ExitStatus cmd err =
     (case err of
        None \<Rightarrow> (ExitOK, [])
      | Some e \<Rightarrow>
          if ru_canceled e then (ExitInterrupted, interruptMessage e)
          else if isUsageError cmd e then (ExitUsage, ''koc: '' @ ru_text e)
          else (ExitFailure, ''koc: '' @ ru_text e))"

section \<open>The command tree\<close>

datatype runKind = NoRun | OwnRun | GroupRun

datatype cmdNode =
  CmdNode (cd_name: gostring) (cd_hidden: bool) (cd_run: runKind) (cd_group: bool) (cd_watch: bool) (cd_guarded: bool)
    (cd_subs: "cmdNode list")

fun requireSubcommands :: "cmdNode \<Rightarrow> cmdNode" where
  "requireSubcommands (CmdNode name hidden run grp w g subs) =
     (let subs' = map requireSubcommands subs in
      if run \<noteq> NoRun \<or> subs = [] then CmdNode name hidden run grp w g subs'
      else CmdNode name hidden GroupRun True w g subs')"

definition watchableVerbs :: "gostring list" where "watchableVerbs = [''list'', ''show'']"

definition watchDenied :: "gostring list" where
  "watchDenied = [''koc console url show'', ''koc server console url show'', ''koc server password show'']"

definition watchable :: "gostring \<Rightarrow> cmdNode \<Rightarrow> bool" where
  "watchable path cmd \<longleftrightarrow>
     cd_run cmd \<noteq> NoRun \<and> \<not> cd_hidden cmd \<and> \<not> cd_group cmd
     \<and> cd_name cmd \<in> set watchableVerbs \<and> path \<notin> set watchDenied"

text \<open>The first argument is the command's path.\<close>

fun enableWatch :: "gostring \<Rightarrow> cmdNode \<Rightarrow> cmdNode" where
  "enableWatch path (CmdNode name hidden run grp w g subs) =
     (let subs' = map (\<lambda>s. enableWatch (path @ '' '' @ cd_name s) s) subs in
      CmdNode name hidden run grp (w \<or> watchable path (CmdNode name hidden run grp w g subs')) g subs')"

definition readVerbs :: "gostring list" where
  "readVerbs =
     [''list'', ''show'', ''get'', ''du'', ''info'', ''status'', ''showfile'', ''download'', ''export'', ''decrypt'',
      ''presign'', ''validate'', ''markers'']"

fun guardRenderErrors :: "cmdNode \<Rightarrow> cmdNode" where
  "guardRenderErrors (CmdNode name hidden run grp w g subs) =
     (let subs' = map guardRenderErrors subs in
      CmdNode name hidden run grp w (g \<or> (run \<noteq> NoRun \<and> subs = [] \<and> name \<notin> set readVerbs)) subs')"

text \<open>The passes \<^verbatim>\<open>NewRootCommand\<close> ends with.\<close>

definition assembleTree :: "cmdNode \<Rightarrow> cmdNode" where
  "assembleTree root = guardRenderErrors (enableWatch (cd_name root) (requireSubcommands root))"

text \<open>\<^verbatim>\<open>%q\<close>; runes that are not ASCII are taken to be printable.\<close>

definition hexDigit :: "nat \<Rightarrow> char" where
  "hexDigit d = (if d < 10 then char_of (48 + d) else char_of (87 + d))"

definition quoteChars :: "char \<Rightarrow> gostring" where
  "quoteChars c =
     (if c = CHR 0x22 \<or> c = CHR 0x5C then [CHR 0x5C, c]
      else case map_of [(CHR 0x07, CHR ''a''), (CHR 0x08, CHR ''b''), (CHR 0x0C, CHR ''f''), (CHR 0x0A, CHR ''n''),
                (CHR 0x0D, CHR ''r''), (CHR 0x09, CHR ''t''), (CHR 0x0B, CHR ''v'')] c of
          Some e \<Rightarrow> [CHR 0x5C, e]
        | None \<Rightarrow>
            if byte c < 32 \<or> byte c = 127 then CHR 0x5C # ''x'' @ [hexDigit (byte c div 16), hexDigit (byte c mod 16)]
            else [c])"

definition quoteQ :: "gostring \<Rightarrow> gostring" where
  "quoteQ s = [CHR 0x22] @ concat (map quoteChars s) @ [CHR 0x22]"

definition unknownCommand :: "gostring \<Rightarrow> gostring \<Rightarrow> runErr" where
  "unknownCommand path verb =
     (plainErr (''unknown command '' @ quoteQ verb @ '' for '' @ quoteQ path @ [CHR 0x0A]
        @ ''Run '' @ [CHR 0x27] @ path @ '' --help'' @ [CHR 0x27] @ '' for the available commands''))\<lparr>ru_unknown := True\<rparr>"

definition explainRenderError :: "gostring \<Rightarrow> runErr option \<Rightarrow> runErr option" where
  "explainRenderError path err =
     (case err of
        None \<Rightarrow> None
      | Some e \<Rightarrow>
          (case ru_column e of
             None \<Rightarrow> Some e
           | Some ce \<Rightarrow>
               if \<not> ce_Rendering ce then Some e
               else if ce_ID ce \<noteq> []
               then Some (e\<lparr>ru_text := path @ '' succeeded (id '' @ ce_ID ce
                 @ ''), but its output could not be rendered; do not re-run it: '' @ ru_text e\<rparr>)
               else Some (e\<lparr>ru_text := path @ '' succeeded, but its output could not be rendered; do not re-run it: '' @ ru_text e\<rparr>)))"

datatype runResult = Helped | Ended "runErr option"

text \<open>What cobra runs for a command it resolved: without a \<^verbatim>\<open>RunE\<close> it prints help. \<open>own\<close> is the command's own \<^verbatim>\<open>RunE\<close>.\<close>

definition invokeNode :: "(gostring list \<Rightarrow> runErr option) \<Rightarrow> gostring \<Rightarrow> cmdNode \<Rightarrow> gostring list \<Rightarrow> runResult" where
  "invokeNode own path cmd args =
     (let guarded = (\<lambda>e. if cd_guarded cmd then explainRenderError path e else e) in
      case cd_run cmd of
        NoRun \<Rightarrow> Helped
      | OwnRun \<Rightarrow> Ended (guarded (own args))
      | GroupRun \<Rightarrow> (case args of [] \<Rightarrow> Helped | verb # _ \<Rightarrow> Ended (guarded (Some (unknownCommand path verb)))))"

section \<open>The flags of a watched command\<close>

record watchFlags =
  wf_given :: "gostring list"
  wf_interval :: gostring
  wf_diff :: bool
  wf_count :: int
  wf_errors :: gostring
  wf_untilChange :: bool
  wf_plain :: bool
  wf_noTitle :: bool
  wf_compact :: bool

definition flagWatch :: gostring where "flagWatch = ''watch''"
definition flagWatchDiff :: gostring where "flagWatchDiff = ''watch-diff''"
definition flagWatchCount :: gostring where "flagWatchCount = ''watch-count''"
definition flagWatchErrors :: gostring where "flagWatchErrors = ''watch-errors''"
definition flagWatchPlain :: gostring where "flagWatchPlain = ''watch-plain''"

definition watchEnabled :: "watchFlags \<Rightarrow> bool" where
  "watchEnabled wfl \<longleftrightarrow> flagWatch \<in> set (wf_given wfl)"

datatype watchErr = BadInterval gostring | ShortInterval duration | BadErrorMode gostring | NegativeCount int | DumpingFlags "gostring list"

definition resolveInterval :: "(gostring \<Rightarrow> duration option) \<Rightarrow> watchFlags \<Rightarrow> watchErr + duration" where
  "resolveInterval parse wfl =
     (case parse (wf_interval wfl) of
        None \<Rightarrow> Inl (BadInterval (wf_interval wfl))
      | Some d \<Rightarrow> if d < MinInterval then Inl (ShortInterval d) else Inr d)"

definition resolveDiff :: "gostring \<Rightarrow> watchFlags \<Rightarrow> bool \<Rightarrow> bool" where
  "resolveDiff noColor wfl plain =
     (if flagWatchDiff \<in> set (wf_given wfl) then wf_diff wfl \<and> \<not> plain else \<not> plain \<and> noColor = [])"

definition rejectDumpingFlags :: "bool \<Rightarrow> bool \<Rightarrow> bool \<Rightarrow> watchErr option" where
  "rejectDumpingFlags debug tim plain =
     (if plain then None
      else let named = (if debug then [''--debug''] else []) @ (if tim then [''--timing''] else [])
           in if named = [] then None else Some (DumpingFlags named))"

text \<open>A flag a command has: its name, whether it was given, its value, whether it is a boolean.\<close>

record cmdFlag =
  cf_name :: gostring
  cf_given :: bool
  cf_value :: gostring
  cf_bool :: bool

definition watchTitle :: "gostring \<Rightarrow> gostring list \<Rightarrow> cmdFlag list \<Rightarrow> gostring" where
  "watchTitle path inherited fs =
     joinWith '' '' (path # map (\<lambda>f. if cf_bool f then ''--'' @ cf_name f else ''--'' @ cf_name f @ '' '' @ cf_value f)
       (filter (\<lambda>f. cf_given f \<and> cf_name f \<notin> set inherited \<and> \<not> hasPrefix (cf_name f) flagWatch) fs))"

text \<open>What \<^verbatim>\<open>resolve\<close> sees of the terminal, the environment, the global options and the command.\<close>

record watchSetting =
  ws_outTerminal :: bool
  ws_inTerminal :: bool
  ws_noColor :: gostring
  ws_debug :: bool
  ws_timing :: bool
  ws_format :: gostring
  ws_path :: gostring
  ws_inherited :: "gostring list"
  ws_flags :: "cmdFlag list"

definition watchResolve :: "(gostring \<Rightarrow> duration option) \<Rightarrow> watchSetting \<Rightarrow> watchFlags \<Rightarrow> watchErr + wopts \<times> bool" where
  "watchResolve parse s wfl =
     (case resolveInterval parse wfl of
        Inl e \<Rightarrow> Inl e
      | Inr interval \<Rightarrow>
          if wf_errors wfl \<noteq> ErrorsTolerate \<and> wf_errors wfl \<noteq> ErrorsExit then Inl (BadErrorMode (wf_errors wfl))
          else if wf_count wfl < 0 then Inl (NegativeCount (wf_count wfl))
          else
            (let plain = wf_plain wfl \<or> \<not> ws_outTerminal s in
             case rejectDumpingFlags (ws_debug s) (ws_timing s) plain of
               Some e \<Rightarrow> Inl e
             | None \<Rightarrow>
                 Inr (\<lparr>o_Interval = interval, o_Diff = resolveDiff (ws_noColor s) wfl plain, o_Count = wf_count wfl,
                       o_ErrorMode = wf_errors wfl, o_UntilChange = wf_untilChange wfl, o_Plain = plain, o_NoTitle = wf_noTitle wfl,
                       o_Keys = (\<not> plain \<and> ws_inTerminal s), o_Title = watchTitle (ws_path s) (ws_inherited s) (ws_flags s),
                       o_CSVHeaderOnce = (ws_format s = FormatCSV), o_keysOpen = False\<rparr>,
                      wf_compact wfl)))"

text \<open>The layout state the watch borrows from the output layer: is a highlighter set, the display width, compact rows.\<close>

record layoutState =
  ly_highlighter :: bool
  ly_width :: int
  ly_compact :: bool

definition watchStopped :: runErr where
  "watchStopped = (plainErr ''watch interrupted: context canceled'')\<lparr>ru_canceled := True, ru_watchStopped := True\<rparr>"

text \<open>
  The wrapped \<^verbatim>\<open>RunE\<close>: the error and the layout state left. \<open>once\<close> is the command run once, \<open>loop\<close> what the watch
  loop returns for the options; it starts with the highlighter in place. The resolver memo is turned on
  before the loop (\<^verbatim>\<open>resolve.Enable\<close>), which is the last component.
\<close>

definition watchedRunE :: "(watchErr \<Rightarrow> runErr) \<Rightarrow> (watchErr + wopts \<times> bool) \<Rightarrow> runErr option \<Rightarrow> (wopts \<Rightarrow> layoutState \<Rightarrow> runErr option) \<Rightarrow>
    watchFlags \<Rightarrow> layoutState \<Rightarrow> runErr option \<times> layoutState \<times> bool" where
  "watchedRunE errOf resolved once loop wfl ly =
     (if \<not> watchEnabled wfl then (once, ly, False)
      else case resolved of
          Inl e \<Rightarrow> (Some (errOf e), ly, False)
        | Inr (wo, compact) \<Rightarrow>
            let err = (case loop wo (ly\<lparr>ly_highlighter := True\<rparr>) of
                  None \<Rightarrow> None
                | Some e \<Rightarrow> if ru_canceled e then Some watchStopped else Some e)
            in (err, \<lparr>ly_highlighter = False, ly_width = 0, ly_compact = False\<rparr>, True))"

text \<open>One frame: the width is measured each time.\<close>

definition frameLayout :: "bool \<Rightarrow> int \<Rightarrow> layoutState \<Rightarrow> layoutState" where
  "frameLayout compact width ly = ly\<lparr>ly_width := width, ly_compact := compact\<rparr>"

text \<open>\<^verbatim>\<open>wrapArgs\<close>: \<open>prev\<close> is what the command's own validation says.\<close>

definition wrapArgs :: "(gostring \<Rightarrow> duration option) \<Rightarrow> watchFlags \<Rightarrow> (gostring list \<Rightarrow> gostring option) \<Rightarrow> gostring list \<Rightarrow> gostring option" where
  "wrapArgs parse wfl prev args =
     (case prev args of
        None \<Rightarrow> None
      | Some err \<Rightarrow>
          if \<not> watchEnabled wfl \<or> args = [] then Some err
          else case parse (last args) of
              None \<Rightarrow> Some err
            | Some _ \<Rightarrow>
                Some (err @ [CHR 0x0A, CHR 0x0A] @ ''did you mean --'' @ flagWatch @ ''='' @ last args @ ''? the interval attaches with ''
                  @ [CHR 0x27] @ ''='' @ [CHR 0x27] @ '', so that --'' @ flagWatch @ '' on its own still means every '' @ durationString DefaultInterval))"

section \<open>What the passes leave behind\<close>

text \<open>The nodes of a tree with their paths.\<close>

fun nodesAt :: "gostring \<Rightarrow> cmdNode \<Rightarrow> (gostring \<times> cmdNode) list" where
  "nodesAt path (CmdNode name hidden run grp w g subs) =
     (path, CmdNode name hidden run grp w g subs) # concat (map (\<lambda>s. nodesAt (path @ '' '' @ cd_name s) s) subs)"

lemma passes_name [simp]:
  "cd_name (requireSubcommands n) = cd_name n" "cd_name (enableWatch path n) = cd_name n" "cd_name (guardRenderErrors n) = cd_name n"
  by (cases n; simp add: Let_def)+

text \<open>A tree as the services build it: nothing is marked yet and no group runs.\<close>

fun freshTree :: "cmdNode \<Rightarrow> bool" where
  "freshTree (CmdNode name hidden run grp w g subs) \<longleftrightarrow>
     run \<noteq> GroupRun \<and> \<not> grp \<and> \<not> w \<and> \<not> g \<and> list_all freshTree subs"

text \<open>What the three passes make of one node of a fresh tree.\<close>

definition assembled :: "gostring \<Rightarrow> cmdNode \<Rightarrow> cmdNode" where
  "assembled path n = guardRenderErrors (enableWatch path (requireSubcommands n))"

lemma assembled_node:
  "assembled path (CmdNode name hidden run grp w g subs) =
     (let subs' = map (\<lambda>s. assembled (path @ '' '' @ cd_name s) s) subs;
          isGroup = (run = NoRun \<and> subs \<noteq> []);
          run' = (if isGroup then GroupRun else run);
          grp' = (grp \<or> isGroup)
      in CmdNode name hidden run' grp'
           (w \<or> run' \<noteq> NoRun \<and> \<not> hidden \<and> \<not> grp' \<and> name \<in> set watchableVerbs \<and> path \<notin> set watchDenied)
           (g \<or> (run' \<noteq> NoRun \<and> subs = [] \<and> name \<notin> set readVerbs)) subs')"
  by (auto simp: assembled_def Let_def comp_def watchable_def)

lemma assembled_nodes:
  "(p, n) \<in> set (nodesAt path (assembled path t)) \<Longrightarrow> freshTree t \<Longrightarrow>
     \<exists>n0. (p, n0) \<in> set (nodesAt path t) \<and> freshTree n0 \<and> n = assembled p n0"
proof (induction path t arbitrary: p n rule: nodesAt.induct)
  case (1 path name hidden run grp w g subs)
  let ?t = "CmdNode name hidden run grp w g subs"
  let ?a = "\<lambda>s. assembled (path @ '' '' @ cd_name s) s"
  have nodes: "nodesAt path (assembled path ?t) = (path, assembled path ?t) # concat (map (\<lambda>s. nodesAt (path @ '' '' @ cd_name s) (?a s)) subs)"
  proof -
    obtain name' h' r' gr' w' g' where "assembled path ?t = CmdNode name' h' r' gr' w' g' (map ?a subs)"
      by (simp add: assembled_node Let_def)
    then show ?thesis by (simp add: comp_def assembled_def)
  qed
  from 1(2) consider (here) "p = path" "n = assembled path ?t"
    | (below) s where "s \<in> set subs" "(p, n) \<in> set (nodesAt (path @ '' '' @ cd_name s) (?a s))"
    unfolding nodes by auto
  then show ?case
  proof cases
    case here
    then show ?thesis using 1(3) by (intro exI [of _ ?t]) (simp del: freshTree.simps)
  next
    case below
    moreover have "freshTree s" using 1(3) below(1) by (simp add: list_all_iff)
    ultimately show ?thesis using 1(1) by fastforce
  qed
qed

text \<open>
  C40. What the assembly of the command tree adds, for every command of it: a group without a \<^verbatim>\<open>RunE\<close>
  rejects an unknown verb with exit status 2 instead of printing help; only a visible \<^verbatim>\<open>list\<close> or \<^verbatim>\<open>show\<close> that
  runs and is not denied takes \<^verbatim>\<open>--watch\<close>, so what is refreshed is never guarded as a write; and a write
  that failed only while rendering its result exits 1 saying that it succeeded and must not be run again.
\<close>

theorem assembled_commands:
  assumes "freshTree root" and "(path, n) \<in> set (nodesAt (cd_name root) (assembleTree root))"
  shows "(cd_subs n \<noteq> [] \<and> cd_run n \<noteq> OwnRun \<and> args \<noteq> [] \<longrightarrow>
      (\<exists>e. invokeNode own path n args = Ended (Some e) \<and> ExitStatus (Some True) (Some e) = (ExitUsage, ''koc: '' @ ru_text e)))
    \<and> (cd_watch n \<longrightarrow> cd_run n = OwnRun \<and> cd_name n \<in> {''list'', ''show''} \<and> \<not> cd_hidden n \<and> path \<notin> set watchDenied \<and> \<not> cd_guarded n)
    \<and> (cd_run n = OwnRun \<and> cd_subs n = [] \<and> cd_name n \<notin> set readVerbs \<and> own args = Some e \<and> \<not> ru_canceled e \<and> \<not> ru_unknown e
        \<and> ru_column e = Some ce \<and> ce_Rendering ce \<longrightarrow>
        (\<exists>e'. invokeNode own path n args = Ended (Some e') \<and> fst (ExitStatus (Some True) (Some e')) = ExitFailure
          \<and> hasPrefix (snd (ExitStatus (Some True) (Some e'))) (''koc: '' @ path @ '' succeeded'')))"
proof -
  obtain n0 where n0: "freshTree n0" "n = assembled path n0"
    using assembled_nodes [of path n "cd_name root" root] assms by (auto simp: assembleTree_def assembled_def)
  obtain name hidden run grp w g subs where f: "n0 = CmdNode name hidden run grp w g subs" by (cases n0)
  have fresh: "run \<noteq> GroupRun" "\<not> grp" "\<not> w" "\<not> g" using n0(1) by (simp_all add: f)
  have verbs: "name \<in> set watchableVerbs \<Longrightarrow> name \<in> {''list'', ''show''} \<and> name \<in> set readVerbs"
    by (auto simp: watchableVerbs_def readVerbs_def)
  note node = n0(2) [unfolded f assembled_node Let_def] and exits = ExitStatus_def ExitUsage_def ExitFailure_def isUsageError_def
  show ?thesis
  proof (intro conjI impI)
    assume a: "cd_subs n \<noteq> [] \<and> cd_run n \<noteq> OwnRun \<and> args \<noteq> []"
    then have "cd_run n = GroupRun" "\<not> cd_guarded n" using fresh by (cases run; auto simp: node)+
    then show "\<exists>e. invokeNode own path n args = Ended (Some e) \<and> ExitStatus (Some True) (Some e) = (ExitUsage, ''koc: '' @ ru_text e)"
      using a by (cases args) (simp_all add: invokeNode_def exits unknownCommand_def plainErr_def)
  next
    assume w: "cd_watch n"
    show "cd_run n = OwnRun" "cd_name n \<in> {''list'', ''show''}" "\<not> cd_hidden n" "path \<notin> set watchDenied" "\<not> cd_guarded n"
      using w fresh verbs by (cases run; auto simp: node)+
  next
    assume b: "cd_run n = OwnRun \<and> cd_subs n = [] \<and> cd_name n \<notin> set readVerbs \<and> own args = Some e \<and> \<not> ru_canceled e \<and> \<not> ru_unknown e
        \<and> ru_column e = Some ce \<and> ce_Rendering ce"
    then have g: "cd_guarded n" by (simp add: node split: if_splits)
    show "\<exists>e'. invokeNode own path n args = Ended (Some e') \<and> fst (ExitStatus (Some True) (Some e')) = ExitFailure
          \<and> hasPrefix (snd (ExitStatus (Some True) (Some e'))) (''koc: '' @ path @ '' succeeded'')"
      using b g by (auto simp: invokeNode_def explainRenderError_def exits hasPrefix_iff)
  qed
qed

definition sampleCmdTree :: cmdNode where
  "sampleCmdTree = CmdNode ''koc'' False NoRun False False False
     [CmdNode ''server'' False NoRun False False False
        [CmdNode ''create'' False OwnRun False False False [], CmdNode ''list'' False OwnRun False False False []]]"

theorem assembled_commands_witness:
  "\<exists>n e. (''koc server'', n) \<in> set (nodesAt ''koc'' (assembleTree sampleCmdTree))
     \<and> invokeNode (\<lambda>_. None) ''koc server'' n [''lst''] = Ended (Some e) \<and> fst (ExitStatus (Some True) (Some e)) = 2"
proof -
  let ?n = "assembled ''koc server'' (hd (cd_subs sampleCmdTree))"
  have m: "(''koc server'', ?n) \<in> set (nodesAt (cd_name sampleCmdTree) (assembleTree sampleCmdTree))"
    by (simp add: sampleCmdTree_def assembleTree_def assembled_def watchable_def)
  have f: "freshTree sampleCmdTree" by (simp add: sampleCmdTree_def)
  have g: "cd_subs ?n \<noteq> [] \<and> cd_run ?n \<noteq> OwnRun" by (simp add: sampleCmdTree_def assembled_node Let_def)
  show ?thesis
    using assembled_commands [OF f m, of "[''lst'']" "\<lambda>_. None" "plainErr []" "ColumnError [] [] False False []"] g m
    by (auto simp: ExitUsage_def sampleCmdTree_def)
qed

section \<open>A watch started from the command line\<close>

text \<open>
  What the flags resolve to is what the loop relies on: an interval no shorter than the floor, a count
  that is not negative, a known error mode; keys only on two terminals; and nothing of an inherited
  flag in the title.
\<close>

lemma watchResolve_valid:
  assumes "watchResolve parse s wfl = Inr (wo, compact)"
  shows "MinInterval \<le> o_Interval wo \<and> 0 \<le> o_Count wo \<and> o_ErrorMode wo \<in> {ErrorsTolerate, ErrorsExit}
    \<and> (o_Keys wo \<longrightarrow> ws_outTerminal s \<and> ws_inTerminal s \<and> \<not> o_Plain wo) \<and> (o_Diff wo \<longrightarrow> \<not> o_Plain wo)
    \<and> (\<not> o_Plain wo \<longrightarrow> \<not> ws_debug s \<and> \<not> ws_timing s)"
  using assms
  by (auto simp: watchResolve_def resolveInterval_def rejectDumpingFlags_def resolveDiff_def Let_def split: sum.splits option.splits if_splits)

lemma watchTitle_local:
  assumes "filter (\<lambda>f. cf_name f \<notin> set inherited) fs = filter (\<lambda>f. cf_name f \<notin> set inherited) fs'"
  shows "watchTitle path inherited fs = watchTitle path inherited fs'"
proof -
  have local: "filter (\<lambda>f. cf_given f \<and> cf_name f \<notin> set inherited \<and> \<not> hasPrefix (cf_name f) flagWatch) gs
    = filter (\<lambda>f. cf_given f \<and> \<not> hasPrefix (cf_name f) flagWatch) (filter (\<lambda>f. cf_name f \<notin> set inherited) gs)" for gs
    by (auto simp: conj_commute intro: filter_cong)
  show ?thesis unfolding watchTitle_def local assms ..
qed

end
