(* ===== verification/Auth_Debug.thy ===== *)
theory Auth_Debug
  imports Shell_Redact Vault_KV
begin

text \<open>
  What \<^verbatim>\<open>--debug\<close> and \<^verbatim>\<open>--timing\<close> print (\<^verbatim>\<open>src/internal/auth/debug.go\<close>, \<^verbatim>\<open>debug_curl.go\<close>) and the policy of the HTTP
  clients (\<^verbatim>\<open>transport.go\<close>). A JSON document is a tree whose objects list their entries with distinct
  names; the JSON codec is an argument, and so is what \<^verbatim>\<open>httputil\<close> writes of a message. The fallback for
  a body that is no JSON is the regular expression's matcher, written out.
\<close>

section \<open>Redacting JSON\<close>

datatype json = JNull | JBool bool | JNum gostring | JStr gostring | JArr "json list" | JObj "(gostring \<times> json) list"

definition redactedValue :: gostring where "redactedValue = ''<redacted>''"

fun isScalar :: "json \<Rightarrow> bool" where
  "isScalar (JObj m) = False"
| "isScalar (JArr xs) = False"
| "isScalar _ = True"

definition lastPathSegment :: "gostring \<Rightarrow> gostring" where
  "lastPathSegment p = last (splitOn (CHR ''/'') p)"

text \<open>The operation of a JSON patch that writes a credential.\<close>

definition secretPatch :: "(gostring \<times> json) list \<Rightarrow> bool" where
  "secretPatch m \<longleftrightarrow>
     (case map_of m ''path'' of
        Some (JStr path) \<Rightarrow> map_of m ''op'' \<noteq> None \<and> isSecretKey (lastPathSegment path)
      | _ \<Rightarrow> False)"

definition setEntry :: "gostring \<Rightarrow> json \<Rightarrow> (gostring \<times> json) list \<Rightarrow> (gostring \<times> json) list" where
  "setEntry k v m = map (\<lambda>(k', w). (k', if k' = k then v else w)) m"

definition redactPatchValue :: "(gostring \<times> json) list \<Rightarrow> (gostring \<times> json) list" where
  "redactPatchValue m =
     (case map_of m ''value'' of
        Some v \<Rightarrow> if secretPatch m \<and> isScalar v \<and> v \<noteq> JNull then setEntry ''value'' (JStr redactedValue) m else m
      | None \<Rightarrow> m)"

text \<open>
  The identifier of a token object is the token: \<open>tok\<close> says that the object is found under that name,
  where \<^verbatim>\<open>redactJSON\<close> replaces it before it walks the object.
\<close>

lemma size_json_entry: "(k, v) \<in> set m \<Longrightarrow> size v \<le> size_list (size_prod (\<lambda>x. 0) size) m"
  by (induction m) auto

function redactWalk :: "bool \<Rightarrow> json \<Rightarrow> json" where
  "redactWalk tok (JObj m) =
     JObj (redactPatchValue
       (map (\<lambda>(k, v).
          (k, if isSecretKey k \<and> isScalar v \<or> tok \<and> k = ''id'' \<and> isScalar v \<and> v \<noteq> JNull then JStr redactedValue
              else redactWalk (equalFold k ''token'') v)) m))"
| "redactWalk tok (JArr xs) = JArr (map (redactWalk False) xs)"
| "redactWalk tok JNull = JNull"
| "redactWalk tok (JBool b) = JBool b"
| "redactWalk tok (JNum n) = JNum n"
| "redactWalk tok (JStr s) = JStr s"
  by pat_completeness auto
termination
  by (relation "measure (size \<circ> snd)") (auto simp: less_Suc_eq_le dest: size_json_entry size_list_estimation')

definition redactJSON :: "json \<Rightarrow> json" where
  "redactJSON v = redactWalk False v"

section \<open>Redacting a body\<close>

text \<open>
  The fallback: a quoted key that ends in a name of the list after any number of underscore-terminated
  words, then a colon and a quoted string, whose escapes are skipped. Case folding is that of the
  regular expression. The result is what follows the match, with the key and what is before the colon.
\<close>

definition keyWordChar :: "rune \<Rightarrow> bool" where
  "keyWordChar r \<longleftrightarrow> (case foldRune r of [c] \<Rightarrow> 97 \<le> byte c \<and> byte c \<le> 122 \<or> 48 \<le> byte c \<and> byte c \<le> 57 | _ \<Rightarrow> False)"

fun secretWord :: "rune list \<Rightarrow> rune list list \<Rightarrow> bool" where
  "secretWord key [] = (concat (map foldRune key) \<in> set secretKeys)"
| "secretWord key (w # ws) =
     (concat (map foldRune key) \<in> set secretKeys
      \<or> w \<noteq> [] \<and> list_all keyWordChar w \<and> secretWord (drop (Suc (length w)) key) ws)"

fun splitRunes :: "rune list \<Rightarrow> rune list list" where
  "splitRunes [] = [[]]"
| "splitRunes (r # rs) = (if r = ''_'' then [] # splitRunes rs else (r # hd (splitRunes rs)) # tl (splitRunes rs))"

definition secretKeyText :: "rune list \<Rightarrow> bool" where
  "secretKeyText key = secretWord key (butlast (splitRunes key))"

definition regexSpace :: "rune \<Rightarrow> bool" where
  "regexSpace r \<longleftrightarrow> r \<in> {[CHR 0x09], [CHR 0x0A], [CHR 0x0C], [CHR 0x0D], [CHR 0x20]}"

text \<open>What follows the closing quote of a string.\<close>

fun stringTail :: "rune list \<Rightarrow> rune list option" where
  "stringTail [] = None"
| "stringTail (r # rs) =
     (if r = [CHR 0x22] then Some rs
      else if r = [CHR 0x5C] then (case rs of [] \<Rightarrow> None | x # xs \<Rightarrow> if x = [CHR 0x0A] then None else stringTail xs)
      else stringTail rs)"

text \<open>A match at the front: the text before the colon, and what follows the whole.\<close>

definition secretMatch :: "rune list \<Rightarrow> (rune list \<times> rune list) option" where
  "secretMatch s =
     (case s of
        q # rest \<Rightarrow>
          if q \<noteq> [CHR 0x22] then None
          else
            let key = takeWhile (\<lambda>r. r \<noteq> [CHR 0x22]) rest; after = drop (Suc (length key)) rest;
                blanks = takeWhile regexSpace after; colon = drop (length blanks) after
            in if length key = length rest \<or> \<not> secretKeyText key then None
               else (case colon of
                   c # val \<Rightarrow>
                     if c \<noteq> '':'' then None
                     else (case dropWhile regexSpace val of
                         v # str \<Rightarrow> if v \<noteq> [CHR 0x22] then None
                           else map_option (Pair (q # key @ [q] @ blanks)) (stringTail str)
                       | [] \<Rightarrow> None)
                 | [] \<Rightarrow> None)
      | [] \<Rightarrow> None)"

function redactRunes :: "rune list \<Rightarrow> gostring" where
  "redactRunes s =
     (case s of
        [] \<Rightarrow> []
      | r # rs \<Rightarrow>
          (case secretMatch s of
             Some (before, rest) \<Rightarrow>
               if length rest < length s
               then concat before @ '': '' @ [CHR 0x22] @ redactedValue @ [CHR 0x22] @ redactRunes rest
               else r @ redactRunes rs
           | None \<Rightarrow> r @ redactRunes rs))"
  by pat_completeness auto
termination
  by (relation "measure length") auto

text \<open>The bytes of each rune, also of one that is not valid.\<close>

function runeChunks :: "gostring \<Rightarrow> rune list" where
  "runeChunks s = (if s = [] then [] else take (decodeRuneSize s) s # runeChunks (drop (decodeRuneSize s) s))"
  by pat_completeness auto
termination
  by (relation "measure length") (auto simp: neq_Nil_conv simp del: decodeRuneSize.simps)

definition redactSecretValues :: "gostring \<Rightarrow> gostring" where
  "redactSecretValues s = redactRunes (runeChunks s)"

record jsonCodec =
  jd_decode :: "gostring \<Rightarrow> json option"
  jd_encode :: "json \<Rightarrow> gostring option"

definition redactBody :: "jsonCodec \<Rightarrow> gostring \<Rightarrow> gostring" where
  "redactBody jc body =
     (let trimmed = trimSpace body in
      if trimmed \<noteq> [] \<and> (hd trimmed = CHR ''{'' \<or> hd trimmed = CHR ''['')
      then (case Option.bind (jd_decode jc trimmed) (\<lambda>v. jd_encode jc (redactJSON v)) of
              Some out \<Rightarrow> out
            | None \<Rightarrow> redactSecretValues body)
      else redactSecretValues body)"

section \<open>Redacting a message\<close>

definition secretHeaders :: "gostring list" where
  "secretHeaders =
     [''X-Auth-Token'', ''X-Subject-Token'', ''X-Service-Token'', ''X-Vault-Token'', ''Authorization'',
      ''Proxy-Authorization'', ''Cookie'', ''Set-Cookie'']"

text \<open>\<^verbatim>\<open>tokenHeaderRe\<close>: the line starts with one of the names, in any case, and a colon.\<close>

definition tokenHeaderLine :: "gostring \<Rightarrow> bool" where
  "tokenHeaderLine line \<longleftrightarrow>
     (let (name, _, ok) = cut line (CHR '':'') in ok \<and> list_ex (\<lambda>h. equalFold name h) secretHeaders)"

definition redactHeaderLine :: "gostring \<Rightarrow> gostring" where
  "redactHeaderLine line =
     (if tokenHeaderLine line
      then fst (cut line (CHR '':'')) @ '': '' @ redactedValue @ (if hasSuffix line [CHR 0x0D] then [CHR 0x0D] else [])
      else line)"

definition redactHeaders :: "gostring \<Rightarrow> gostring" where
  "redactHeaders head = joinWith [CHR 0x0A] (map redactHeaderLine (splitOn (CHR 0x0A) head))"

fun cutAt :: "gostring \<Rightarrow> gostring \<Rightarrow> (gostring \<times> gostring) option" where
  "cutAt sep [] = (if sep = [] then Some ([], []) else None)"
| "cutAt sep (c # s) =
     (if hasPrefix (c # s) sep then Some ([], drop (length sep) (c # s)) else map_option (apfst (Cons c)) (cutAt sep s))"

definition crlf2 :: gostring where "crlf2 = [CHR 0x0D, CHR 0x0A, CHR 0x0D, CHR 0x0A]"
definition lf2 :: gostring where "lf2 = [CHR 0x0A, CHR 0x0A]"

definition splitMessage :: "gostring \<Rightarrow> gostring \<times> gostring \<times> gostring" where
  "splitMessage s =
     (case cutAt crlf2 s of
        Some (head, body) \<Rightarrow> (head, crlf2, body)
      | None \<Rightarrow> (case cutAt lf2 s of Some (head, body) \<Rightarrow> (head, lf2, body) | None \<Rightarrow> (s, [], [])))"

definition redactMessage :: "jsonCodec \<Rightarrow> gostring \<Rightarrow> gostring" where
  "redactMessage jc s =
     (let (head, sep, body) = splitMessage s in
      if sep = [] then redactHeaders head else redactHeaders head @ sep @ redactBody jc body)"

section \<open>The dump\<close>

text \<open>Headers by canonical name, each with its values. \<open>sscan\<close> is \<^verbatim>\<open>fmt.Sscan\<close> into an \<^verbatim>\<open>int64\<close>.\<close>

type_synonym headerMap = "(gostring \<times> gostring list) list"

definition headerGet :: "gostring \<Rightarrow> headerMap \<Rightarrow> gostring" where
  "headerGet k h = (case map_of h k of Some (v # vs) \<Rightarrow> v | _ \<Rightarrow> [])"

definition maxDumpBody :: int where "maxDumpBody = 2 ^ 20"

definition dumpBody :: "(gostring \<Rightarrow> int option) \<Rightarrow> headerMap \<Rightarrow> bool" where
  "dumpBody sscan h =
     (let ct = headerGet ''Content-Type'' h; cl = headerGet ''Content-Length'' h in
      if ct \<noteq> [] \<and> \<not> containsStr ct ''json'' \<and> \<not> hasPrefix ct ''text/'' then False
      else if cl \<noteq> [] then (case sscan cl of Some n \<Rightarrow> n \<le> maxDumpBody | None \<Rightarrow> True)
      else True)"

text \<open>
  One exchange under the \<^verbatim>\<open>http\<close> layout: what \<^verbatim>\<open>httputil\<close> dumps of the request and of the response, \<^const>\<open>None\<close>
  when it cannot, and whether the round trip succeeded. The result is what is printed.
\<close>

definition roundTripDump :: "jsonCodec \<Rightarrow> gostring option \<Rightarrow> (gostring option) option \<Rightarrow> gostring" where
  "roundTripDump jc reqDump resp =
     (case reqDump of Some d \<Rightarrow> ''> '' @ redactMessage jc d @ [CHR 0x0A] | None \<Rightarrow> [])
     @ (case resp of
          Some (Some d) \<Rightarrow> ''< '' @ redactMessage jc d @ [CHR 0x0A]
        | _ \<Rightarrow> [])"

text \<open>The body of a message as the transport sees it; \<open>BodyFails\<close> is one that cannot be read.\<close>

datatype bodySource = NoBody | BodyFails | Body gostring

record httpMessage =
  hm_method :: gostring
  hm_url :: gostring
  hm_status :: int
  hm_header :: headerMap
  hm_length :: int
  hm_body :: bodySource

definition shellQuote :: "gostring \<Rightarrow> gostring" where
  "shellQuote s = [CHR 0x27] @ replaceByte s (CHR 0x27) [CHR 0x27, CHR 0x5C, CHR 0x27, CHR 0x27] @ [CHR 0x27]"

definition bodyUnreadable :: gostring where "bodyUnreadable = ''<body unreadable>''"

definition omittedBody :: "headerMap \<Rightarrow> int \<Rightarrow> gostring" where
  "omittedBody h n =
     (let ct0 = headerGet ''Content-Type'' h; ct = (if ct0 = [] then ''unset'' else ct0) in
      if n \<ge> 0 then ''<omitted: '' @ itoa n @ '' bytes, Content-Type '' @ ct @ ''>''
      else ''<omitted: Content-Type '' @ ct @ ''>'')"

definition headerLines :: "headerMap \<Rightarrow> gostring list" where
  "headerLines h =
     concat (map (\<lambda>k. map (\<lambda>v. redactHeaders (k @ '': '' @ v)) (the (map_of h k))) (sort (map fst h)))"

definition requestBody :: "jsonCodec \<Rightarrow> (gostring \<Rightarrow> int option) \<Rightarrow> httpMessage \<Rightarrow> gostring option" where
  "requestBody jc sscan req =
     (case hm_body req of
        NoBody \<Rightarrow> None
      | b \<Rightarrow>
          if \<not> dumpBody sscan (hm_header req) then Some (omittedBody (hm_header req) (hm_length req))
          else (case b of Body raw \<Rightarrow> Some (redactBody jc raw) | _ \<Rightarrow> Some bodyUnreadable))"

definition responseBody :: "jsonCodec \<Rightarrow> (gostring \<Rightarrow> int option) \<Rightarrow> httpMessage \<Rightarrow> gostring" where
  "responseBody jc sscan resp =
     (if \<not> dumpBody sscan (hm_header resp) then omittedBody (hm_header resp) (hm_length resp)
      else (case hm_body resp of NoBody \<Rightarrow> [] | BodyFails \<Rightarrow> bodyUnreadable | Body raw \<Rightarrow> redactBody jc raw))"

text \<open>\<open>hm_url\<close> is the URL as \<^verbatim>\<open>Redacted\<close> renders it, without a password.\<close>

definition curlRequest :: "jsonCodec \<Rightarrow> (gostring \<Rightarrow> int option) \<Rightarrow> gostring list \<Rightarrow> httpMessage \<Rightarrow> gostring" where
  "curlRequest jc sscan tlsArgs req =
     ''REQ: curl -g -i'' @ concat (map (\<lambda>a. '' '' @ a) tlsArgs)
     @ '' -X '' @ hm_method req @ '' '' @ shellQuote (hm_url req)
     @ concat (map (\<lambda>l. '' -H '' @ shellQuote l) (headerLines (hm_header req)))
     @ (case requestBody jc sscan req of Some b \<Rightarrow> '' -d '' @ shellQuote b | None \<Rightarrow> [])"

definition curlResponse :: "jsonCodec \<Rightarrow> (gostring \<Rightarrow> int option) \<Rightarrow> httpMessage \<Rightarrow> gostring" where
  "curlResponse jc sscan resp =
     ''RESP: ['' @ itoa (hm_status resp) @ '']'' @ concat (map (\<lambda>l. '' '' @ l) (headerLines (hm_header resp)))
     @ [CHR 0x0A] @ ''RESP BODY: '' @ responseBody jc sscan resp"

definition roundTripCurl :: "jsonCodec \<Rightarrow> (gostring \<Rightarrow> int option) \<Rightarrow> gostring list \<Rightarrow> httpMessage \<Rightarrow> httpMessage option \<Rightarrow> gostring" where
  "roundTripCurl jc sscan tlsArgs req resp =
     curlRequest jc sscan tlsArgs req @ [CHR 0x0A]
     @ (case resp of Some r \<Rightarrow> curlResponse jc sscan r @ [CHR 0x0A] | None \<Rightarrow> [])"

definition curlTLSArgs :: "Options \<Rightarrow> bool \<Rightarrow> gostring list" where
  "curlTLSArgs opts insecure =
     (if insecure then [''--insecure''] else [])
     @ (if op_CACert opts \<noteq> [] then [''--cacert'', shellQuote (op_CACert opts)] else [])
     @ (if op_ClientCert opts \<noteq> [] \<and> op_ClientKey opts \<noteq> []
        then [''--cert'', shellQuote (op_ClientCert opts), ''--key'', shellQuote (op_ClientKey opts)] else [])"

section \<open>Timing\<close>

record timing =
  tm_calls :: int
  tm_total :: duration

text \<open>One round trip: the elapsed time and the status, \<^const>\<open>None\<close> without a response; the line it prints.\<close>

definition timedRoundTrip :: "gostring \<Rightarrow> gostring \<Rightarrow> duration \<Rightarrow> int option \<Rightarrow> timing \<Rightarrow> gostring \<times> timing" where
  "timedRoundTrip m target elapsed status t =
     (''timing: '' @ m @ replicate (6 - runeCount m) (CHR '' '') @ '' '' @ target @ '' ''
        @ (case status of Some s \<Rightarrow> itoa s | None \<Rightarrow> ''error'') @ '' in '' @ durationString (roundDuration elapsed millisecond) @ [CHR 0x0A],
      t\<lparr>tm_calls := tm_calls t + 1, tm_total := tm_total t + elapsed\<rparr>)"

definition timingReport :: "timing \<Rightarrow> gostring" where
  "timingReport t =
     (if tm_calls t = 0 then []
      else ''timing: total '' @ itoa (tm_calls t) @ '' request(s) in '' @ durationString (roundDuration (tm_total t) millisecond) @ [CHR 0x0A])"

text \<open>\<^verbatim>\<open>ReportTiming\<close> takes the transport back, so a second report prints nothing.\<close>

definition ReportTiming :: "timing option \<Rightarrow> gostring \<times> timing option" where
  "ReportTiming active = (case active of Some t \<Rightarrow> timingReport t | None \<Rightarrow> [], None)"

section \<open>The clients' policy\<close>

definition authCredentialHeaders :: "gostring list" where
  "authCredentialHeaders =
     [''Authorization'', ''Proxy-Authorization'', ''Cookie'', ''X-Auth-Token'', ''X-Subject-Token'', ''X-Vault-Token'']"

definition authSameHostRedirect :: "hop \<Rightarrow> hop list \<Rightarrow> gostring + hop" where
  "authSameHostRedirect req via =
     (if length via \<ge> 5 then Inl ''stopped after 5 redirects''
      else
        let origin = hd via in
        if hp_host req = hp_host origin \<and> hp_scheme req = hp_scheme origin then Inr req
        else Inr (req\<lparr>hp_headers := filter (\<lambda>(h, v). h \<notin> set authCredentialHeaders) (hp_headers req)\<rparr>))"

text \<open>\<open>parse\<close> is \<^verbatim>\<open>url.Parse\<close> with \<^verbatim>\<open>Hostname\<close>: the scheme and the host name.\<close>

definition isCleartextURL :: "(gostring \<Rightarrow> (gostring \<times> gostring) option) \<Rightarrow> gostring \<Rightarrow> bool" where
  "isCleartextURL parse rawURL =
     (case parse rawURL of
        None \<Rightarrow> False
      | Some (scheme, host) \<Rightarrow> scheme = ''http'' \<and> host \<notin> {''localhost'', ''127.0.0.1'', ''::1''})"

definition authWarnCleartext :: "(gostring \<Rightarrow> (gostring \<times> gostring) option) \<Rightarrow> gostring \<Rightarrow> gostring \<Rightarrow> gostring list" where
  "authWarnCleartext parse target rawURL =
     (if isCleartextURL parse rawURL
      then [''WARNING: '' @ target @ '' is plain HTTP ('' @ rawURL @ ''); credentials and tokens are sent unencrypted'' @ [CHR 0x0A]]
      else [])"

text \<open>The transports a request passes through, outermost first, and the client around them.\<close>

datatype instrument = TimingMeter | DebugDump bool "gostring list"

definition instruments :: "Options \<Rightarrow> bool \<Rightarrow> instrument list" where
  "instruments opts insecure =
     (if op_Timing opts then [TimingMeter] else [])
     @ (if op_Debug opts then [DebugDump (op_DebugFormat opts = DebugFormatCurl) (curlTLSArgs opts insecure)] else [])"

section \<open>No credential is printed\<close>

text \<open>
  Two documents that differ only in what must not be printed: the scalars under secret names, the
  identifiers of token objects, and the values of patch operations whose path ends in a secret name.
\<close>

definition hiddenEntry :: "bool \<Rightarrow> gostring \<Rightarrow> json \<Rightarrow> bool" where
  "hiddenEntry tok k v \<longleftrightarrow> isSecretKey k \<and> isScalar v \<or> tok \<and> k = ''id'' \<and> isScalar v \<and> v \<noteq> JNull"

definition hiddenPatch :: "(gostring \<times> json) list \<Rightarrow> gostring \<Rightarrow> json \<Rightarrow> bool" where
  "hiddenPatch m k v \<longleftrightarrow> k = ''value'' \<and> secretPatch m \<and> isScalar v \<and> v \<noteq> JNull"

function agreeJSON :: "bool \<Rightarrow> json \<Rightarrow> json \<Rightarrow> bool" where
  "agreeJSON tok (JObj m) v' =
     (case v' of
        JObj m' \<Rightarrow> distinct (map fst m) \<and> map fst m' = map fst m \<and>
          list_all (\<lambda>((k, v), (k', w)). agreeJSON (equalFold k ''token'') v w
              \<or> hiddenEntry tok k v \<and> hiddenEntry tok k w \<or> hiddenPatch m k v \<and> hiddenPatch m' k w) (zip m m')
      | _ \<Rightarrow> False)"
| "agreeJSON tok (JArr xs) v' = (case v' of JArr ys \<Rightarrow> length xs = length ys \<and> list_all (\<lambda>(v, w). agreeJSON False v w) (zip xs ys) | _ \<Rightarrow> False)"
| "agreeJSON tok JNull v' = (v' = JNull)"
| "agreeJSON tok (JBool b) v' = (v' = JBool b)"
| "agreeJSON tok (JNum n) v' = (v' = JNum n)"
| "agreeJSON tok (JStr s) v' = (v' = JStr s)"
  by pat_completeness auto
termination
  by (relation "measure (\<lambda>(tok, v, w). size v)")
    (auto simp: less_Suc_eq_le dest: set_zip_leftD size_json_entry size_list_estimation')

lemma agree_scalar: "agreeJSON tok v w \<Longrightarrow> isScalar v = isScalar w \<and> (isScalar v \<longrightarrow> v = w)"
  by (cases v) (auto split: json.splits)

definition walkEntry :: "bool \<Rightarrow> gostring \<Rightarrow> json \<Rightarrow> json" where
  "walkEntry tok k v = (if hiddenEntry tok k v then JStr redactedValue else redactWalk (equalFold k ''token'') v)"

lemma redactWalk_obj: "redactWalk tok (JObj m) = JObj (redactPatchValue (map (\<lambda>(k, v). (k, walkEntry tok k v)) m))"
  by (simp add: walkEntry_def hiddenEntry_def case_prod_unfold)

lemma map_of_entries: "map_of (map (\<lambda>(k, v). (k, g k v)) m) k = map_option (g k) (map_of m k)"
  by (induction m) auto

lemma secretKey_names: "\<not> isSecretKey ''path''" "\<not> isSecretKey ''value''" "\<not> isSecretKey ''op''"
  by (simp_all add: isSecretKey_def secretTail.simps toLower_def lowerByte_def byte_def secretKeys_def char_of_def bit_0 bit_Suc)

lemma walkEntry_plain: "k = ''path'' \<or> k = ''value'' \<Longrightarrow> isScalar v \<Longrightarrow> walkEntry tok k v = v"
  using secretKey_names by (cases v) (auto simp: walkEntry_def hiddenEntry_def)

lemma walkEntry_string: "walkEntry tok ''path'' v = JStr s \<longleftrightarrow> v = JStr s"
  using secretKey_names by (cases v) (auto simp: walkEntry_def hiddenEntry_def)

lemma secretPatch_iff:
  "secretPatch m \<longleftrightarrow> (\<exists>p. map_of m ''path'' = Some (JStr p) \<and> map_of m ''op'' \<noteq> None \<and> isSecretKey (lastPathSegment p))"
  by (auto simp: secretPatch_def split: option.splits json.splits)

lemma secretPatch_walk [simp]: "secretPatch (map (\<lambda>(k, v). (k, walkEntry tok k v)) m) = secretPatch m"
  using walkEntry_string by (simp add: secretPatch_iff map_of_entries)

lemma hiddenPatch_redacts:
  assumes "map_of m ''value'' = Some v" "hiddenPatch m ''value'' v"
  shows "redactPatchValue (map (\<lambda>(k, v). (k, walkEntry tok k v)) m)
    = setEntry ''value'' (JStr redactedValue) (map (\<lambda>(k, v). (k, walkEntry tok k v)) m)"
  using assms walkEntry_plain [of "''value''" v tok] by (simp add: redactPatchValue_def map_of_entries hiddenPatch_def)

lemma entries_nth: "i < length m \<Longrightarrow> map (\<lambda>(k, v). (k, g k v)) m ! i = (fst (m ! i), g (fst (m ! i)) (snd (m ! i)))"
  by (simp add: case_prod_unfold)

lemma setEntry_eqI:
  assumes "map fst m' = map fst m"
    and "\<And>i. i < length m \<Longrightarrow> fst (m ! i) \<noteq> k \<Longrightarrow> snd (m ! i) = snd (m' ! i)"
  shows "setEntry k x m = setEntry k x m'"
proof (rule nth_equalityI)
  show len: "length (setEntry k x m) = length (setEntry k x m')"
    using arg_cong [OF assms(1), of length] by (simp add: setEntry_def)
  fix i assume "i < length (setEntry k x m)"
  then have i: "i < length m" "i < length m'" using len by (simp_all add: setEntry_def)
  have "fst (m' ! i) = fst (m ! i)" using arg_cong [OF assms(1), of "\<lambda>l. l ! i"] i by simp
  then show "setEntry k x m ! i = setEntry k x m' ! i"
    using assms(2) [OF i(1)] i by (simp add: setEntry_def case_prod_unfold)
qed

text \<open>Two objects whose walked entries agree except for the value of a secret patch.\<close>

lemma walked_objects_eq:
  assumes dist: "distinct (map fst m)" and keys: "map fst m' = map fst m"
    and all: "\<And>i. i < length m \<Longrightarrow> walkEntry tok (fst (m ! i)) (snd (m ! i)) = walkEntry tok (fst (m ! i)) (snd (m' ! i))
        \<or> hiddenPatch m (fst (m ! i)) (snd (m ! i)) \<and> hiddenPatch m' (fst (m ! i)) (snd (m' ! i))"
  shows "redactWalk tok (JObj m) = redactWalk tok (JObj m')"
proof -
  let ?M = "map (\<lambda>(k, v). (k, walkEntry tok k v)) m" and ?M' = "map (\<lambda>(k, v). (k, walkEntry tok k v)) m'"
  have len: "length m' = length m" using arg_cong [OF keys, of length] by simp
  have fsts: "fst (m' ! i) = fst (m ! i)" if "i < length m" for i
    using arg_cong [OF keys, of "\<lambda>l. l ! i"] that len by simp
  show ?thesis
  proof (cases "\<exists>i < length m. hiddenPatch m (fst (m ! i)) (snd (m ! i)) \<and> hiddenPatch m' (fst (m ! i)) (snd (m' ! i))")
    case True
    then obtain i where i: "i < length m" "hiddenPatch m (fst (m ! i)) (snd (m ! i))" "hiddenPatch m' (fst (m ! i)) (snd (m' ! i))"
      by blast
    then have k: "fst (m ! i) = ''value''" by (simp add: hiddenPatch_def)
    have "(fst (m ! i), snd (m ! i)) \<in> set m" "(fst (m ! i), snd (m' ! i)) \<in> set m'"
      using i(1) len fsts [OF i(1)] by (metis nth_mem prod.collapse)+
    then have "map_of m ''value'' = Some (snd (m ! i))" "map_of m' ''value'' = Some (snd (m' ! i))"
      using dist keys k by (simp_all add: map_of_eq_Some_iff)
    then have r: "redactPatchValue ?M = setEntry ''value'' (JStr redactedValue) ?M"
        "redactPatchValue ?M' = setEntry ''value'' (JStr redactedValue) ?M'"
      using i(2,3) k by (simp_all add: hiddenPatch_redacts)
    have "setEntry ''value'' (JStr redactedValue) ?M = setEntry ''value'' (JStr redactedValue) ?M'"
    proof (rule setEntry_eqI)
      show "map fst ?M' = map fst ?M" using keys by (simp add: case_prod_unfold comp_def)
      fix j assume j: "j < length ?M" "fst (?M ! j) \<noteq> ''value''"
      then have "\<not> hiddenPatch m (fst (m ! j)) (snd (m ! j))" by (auto simp: hiddenPatch_def case_prod_unfold)
      then show "snd (?M ! j) = snd (?M' ! j)" using all [of j] j(1) fsts [of j] len by (simp add: case_prod_unfold)
    qed
    then show ?thesis unfolding redactWalk_obj r by simp
  next
    case False
    have "?M = ?M'"
    proof (rule nth_equalityI)
      fix j assume "j < length ?M"
      then have j: "j < length m" by simp
      with all [OF j] False have "walkEntry tok (fst (m ! j)) (snd (m ! j)) = walkEntry tok (fst (m ! j)) (snd (m' ! j))" by blast
      then show "?M ! j = ?M' ! j" using j fsts [OF j] len by (simp add: case_prod_unfold)
    qed (simp add: len)
    then show ?thesis unfolding redactWalk_obj by simp
  qed
qed

lemma walkEntry_eqI:
  assumes "hiddenEntry tok k v \<and> hiddenEntry tok k w \<or> isScalar v = isScalar w \<and> (isScalar v \<longrightarrow> v = w)
      \<and> redactWalk (equalFold k ''token'') v = redactWalk (equalFold k ''token'') w"
  shows "walkEntry tok k v = walkEntry tok k w"
  using assms by (auto simp: walkEntry_def hiddenEntry_def)

lemma agree_redacts: "agreeJSON tok v w \<Longrightarrow> redactWalk tok v = redactWalk tok w"
proof (induction tok v w rule: agreeJSON.induct)
  case (1 tok m v')
  then obtain m' where v': "v' = JObj m'" by (auto split: json.splits)
  with 1(2) have dist: "distinct (map fst m)" and keys: "map fst m' = map fst m"
    and all: "list_all (\<lambda>((k, v), (k', w)). agreeJSON (equalFold k ''token'') v w
              \<or> hiddenEntry tok k v \<and> hiddenEntry tok k w \<or> hiddenPatch m k v \<and> hiddenPatch m' k w) (zip m m')"
    by simp_all
  have len: "length m' = length m" using arg_cong [OF keys, of length] by simp
  show ?case unfolding v'
  proof (rule walked_objects_eq [OF dist keys])
    fix i assume i: "i < length m"
    then have z: "((fst (m ! i), snd (m ! i)), (fst (m' ! i), snd (m' ! i))) \<in> set (zip m m')"
      using len by (auto simp: set_zip)
    have ih: "redactWalk (equalFold (fst (m ! i)) ''token'') (snd (m ! i)) = redactWalk (equalFold (fst (m ! i)) ''token'') (snd (m' ! i))"
      if "agreeJSON (equalFold (fst (m ! i)) ''token'') (snd (m ! i)) (snd (m' ! i))"
      using 1(1) [OF v' z refl refl that] .
    show "walkEntry tok (fst (m ! i)) (snd (m ! i)) = walkEntry tok (fst (m ! i)) (snd (m' ! i))
        \<or> hiddenPatch m (fst (m ! i)) (snd (m ! i)) \<and> hiddenPatch m' (fst (m ! i)) (snd (m' ! i))"
    proof -
      from bspec [OF all [unfolded list_all_iff] z] consider
          "agreeJSON (equalFold (fst (m ! i)) ''token'') (snd (m ! i)) (snd (m' ! i))"
        | "hiddenEntry tok (fst (m ! i)) (snd (m ! i)) \<and> hiddenEntry tok (fst (m ! i)) (snd (m' ! i))"
        | "hiddenPatch m (fst (m ! i)) (snd (m ! i)) \<and> hiddenPatch m' (fst (m ! i)) (snd (m' ! i))"
        by auto
      then show ?thesis
      proof cases
        case 1
        from ih [OF 1] agree_scalar [OF 1] have "walkEntry tok (fst (m ! i)) (snd (m ! i)) = walkEntry tok (fst (m ! i)) (snd (m' ! i))"
          by (intro walkEntry_eqI) blast
        then show ?thesis ..
      qed (blast intro: walkEntry_eqI)+
    qed
  qed
next
  case (2 tok xs v')
  then obtain ys where ys: "v' = JArr ys" "length xs = length ys" "list_all (\<lambda>(v, w). agreeJSON False v w) (zip xs ys)"
    by (auto split: json.splits)
  have "map (redactWalk False) xs = map (redactWalk False) ys"
  proof (rule nth_equalityI)
    fix i assume "i < length (map (redactWalk False) xs)"
    then have i: "i < length xs" "i < length ys" using ys(2) by simp_all
    then have z: "(xs ! i, ys ! i) \<in> set (zip xs ys)" using ys(2) by (auto simp: set_zip)
    then have "agreeJSON False (xs ! i) (ys ! i)" using ys(3) by (auto simp: list_all_iff)
    from 2(1) [OF ys(1) z refl this] show "map (redactWalk False) xs ! i = map (redactWalk False) ys ! i" using i by simp
  qed (simp add: ys(2))
  then show ?case by (simp add: ys(1))
qed auto

text \<open>Two header lines that are equal, or carry the same credential header with any values.\<close>

definition agreeLine :: "gostring \<Rightarrow> gostring \<Rightarrow> bool" where
  "agreeLine a b \<longleftrightarrow>
     a = b \<or> tokenHeaderLine a \<and> tokenHeaderLine b \<and> fst (cut a (CHR '':'')) = fst (cut b (CHR '':''))
       \<and> hasSuffix a [CHR 0x0D] = hasSuffix b [CHR 0x0D]"

definition agreeHead :: "gostring \<Rightarrow> gostring \<Rightarrow> bool" where
  "agreeHead h h' \<longleftrightarrow> list_all2 agreeLine (splitOn (CHR 0x0A) h) (splitOn (CHR 0x0A) h')"

lemma agree_head_redacts: "agreeHead h h' \<Longrightarrow> redactHeaders h = redactHeaders h'"
proof -
  have line: "agreeLine a b \<Longrightarrow> redactHeaderLine a = redactHeaderLine b" for a b
    by (auto simp: agreeLine_def redactHeaderLine_def)
  assume "agreeHead h h'"
  then have "map redactHeaderLine (splitOn (CHR 0x0A) h) = map redactHeaderLine (splitOn (CHR 0x0A) h')"
    unfolding agreeHead_def by (induction rule: list_all2_induct) (simp_all add: line)
  then show ?thesis by (simp add: redactHeaders_def)
qed

text \<open>Two bodies that are equal, or are JSON documents that agree and can be encoded again.\<close>

definition isDocument :: "gostring \<Rightarrow> bool" where
  "isDocument body \<longleftrightarrow> trimSpace body \<noteq> [] \<and> (hd (trimSpace body) = CHR ''{'' \<or> hd (trimSpace body) = CHR ''['')"

definition agreeBody :: "jsonCodec \<Rightarrow> gostring \<Rightarrow> gostring \<Rightarrow> bool" where
  "agreeBody jc b b' \<longleftrightarrow>
     b = b' \<or> isDocument b \<and> isDocument b'
       \<and> (case (jd_decode jc (trimSpace b), jd_decode jc (trimSpace b')) of
            (Some v, Some w) \<Rightarrow> agreeJSON False v w \<and> jd_encode jc (redactJSON v) \<noteq> None
          | _ \<Rightarrow> False)"

lemma agree_body_redacts:
  assumes "agreeBody jc b b'"
  shows "redactBody jc b = redactBody jc b'"
proof (cases "b = b'")
  case False
  with assms obtain v w where "isDocument b" "isDocument b'" "jd_decode jc (trimSpace b) = Some v" "jd_decode jc (trimSpace b') = Some w"
      "agreeJSON False v w" "jd_encode jc (redactJSON v) \<noteq> None"
    by (auto simp: agreeBody_def split: option.splits)
  moreover from agree_redacts [OF this(5)] have "redactJSON v = redactJSON w" by (simp add: redactJSON_def)
  ultimately show ?thesis by (auto simp: redactBody_def isDocument_def Let_def)
qed simp

text \<open>
  C33. What \<^verbatim>\<open>--debug\<close> prints of a message does not depend on its credentials: two messages that differ only
  in the values of credential headers and, in a JSON body, in the scalars under secret names, the
  identifiers of token objects and the values of patch operations on secret fields, are printed the
  same.
\<close>

theorem debug_dump_hides_credentials:
  assumes "splitMessage s = (head, sep, body)" and "splitMessage s' = (head', sep, body')"
    and "agreeHead head head'" and "agreeBody jc body body'"
  shows "redactMessage jc s = redactMessage jc s'"
  using assms agree_head_redacts [OF assms(3)] agree_body_redacts [OF assms(4)] by (simp add: redactMessage_def)

section \<open>The curl line can be pasted\<close>

text \<open>How a POSIX shell reads a word of quoted and escaped pieces; \<^const>\<open>None\<close> when it ends inside one.\<close>

fun shellWord :: "bool \<Rightarrow> gostring \<Rightarrow> gostring option" where
  "shellWord False [] = Some []"
| "shellWord False (c # s) =
     (if c = CHR 0x27 then shellWord True s
      else if c = CHR 0x5C then (case s of [] \<Rightarrow> None | x # xs \<Rightarrow> map_option (Cons x) (shellWord False xs))
      else map_option (Cons c) (shellWord False s))"
| "shellWord True [] = None"
| "shellWord True (c # s) = (if c = CHR 0x27 then shellWord False s else map_option (Cons c) (shellWord True s))"

lemma shellQuote_word: "shellWord False (shellQuote s) = Some s"
proof -
  have "shellWord True (replaceByte s (CHR 0x27) [CHR 0x27, CHR 0x5C, CHR 0x27, CHR 0x27] @ [CHR 0x27]) = Some s"
    by (induction s) (auto simp: replaceByte_def)
  then show ?thesis by (simp add: shellQuote_def)
qed

section \<open>A sample\<close>

definition sampleJSON :: jsonCodec where
  "sampleJSON = \<lparr>jd_decode = (\<lambda>s. Some (JObj [(''password'', JStr s)])), jd_encode = (\<lambda>v. Some ''J'')\<rparr>"

definition sampleDump :: "gostring \<Rightarrow> gostring \<Rightarrow> gostring" where
  "sampleDump tok pw = ''Cookie: '' @ tok @ crlf2 @ ''{'' @ pw @ ''}''"

lemma debug_dump_hides_credentials_witness:
  "redactMessage sampleJSON (sampleDump ''a'' ''p'') = redactMessage sampleJSON (sampleDump ''b'' ''q'')"
proof -
  have fold: "equalFold ''Cookie'' ''Cookie''" by (simp add: equalFold_def)
  have sp: "isDocument ''{p}''" "isDocument ''{q}''"
    by (simp_all add: isDocument_def trimSpace_def runes_ascii byte_def runeSelf_def isSpaceRune_def)
  have key: "isSecretKey ''password''"
    by (simp add: isSecretKey_def secretTail.simps toLower_def lowerByte_def byte_def secretKeys_def char_of_def bit_0 bit_Suc)
  have ct: "cut ''Cookie: a'' (CHR '':'') = (''Cookie'', '' a'', True)" "cut ''Cookie: b'' (CHR '':'') = (''Cookie'', '' b'', True)"
    by (simp_all add: cut_def)
  have head: "agreeHead ''Cookie: a'' ''Cookie: b''"
    by (simp add: agreeHead_def agreeLine_def tokenHeaderLine_def ct secretHeaders_def fold hasSuffix_def hasPrefix_def)
  show ?thesis
    by (rule debug_dump_hides_credentials [where head = "''Cookie: a''" and head' = "''Cookie: b''" and sep = crlf2
          and body = "''{p}''" and body' = "''{q}''"])
      (use head sp key in \<open>simp_all add: sampleDump_def splitMessage_def crlf2_def hasPrefix_def agreeBody_def sampleJSON_def
          hiddenEntry_def split: json.splits\<close>)
qed

end
