(* ===== verification/Shell_Session.thy ===== *)
theory Shell_Session
  imports Shell_Terminal Shell_Embedded Cli_Run Resolve Auth_Debug
begin

text \<open>
  \<^verbatim>\<open>shell.go\<close> and \<^verbatim>\<open>audit.go\<close> of \<^verbatim>\<open>src/internal/cli/shell\<close> with \<^verbatim>\<open>Run\<close> of \<^verbatim>\<open>src/internal/cli/run.go\<close>: a session
  reads lines, runs each on a fresh command tree in the scope of the moment, and records each in the
  audit log. What a koc command does, the clock, the scope file's states and the success of writes are
  input, given line by line.
\<close>

section \<open>The scope\<close>

record scopeInfo =
  sn_authURL :: gostring
  sn_region :: gostring
  sn_projectID :: gostring
  sn_projectName :: gostring
  sn_userName :: gostring
  sn_cloud :: gostring
  sn_expiresAt :: "int option"

definition emptyScopeInfo :: scopeInfo where
  "emptyScopeInfo = \<lparr>sn_authURL = [], sn_region = [], sn_projectID = [], sn_projectName = [], sn_userName = [], sn_cloud = [], sn_expiresAt = None\<rparr>"

fun firstEnv :: "environ \<Rightarrow> gostring list \<Rightarrow> gostring" where
  "firstEnv env [] = []"
| "firstEnv env (k # ks) = (if Getenv env k \<noteq> [] then Getenv env k else firstEnv env ks)"

definition envScope :: "environ \<Rightarrow> scopeInfo" where
  "envScope env =
     \<lparr>sn_authURL = Getenv env ''OS_AUTH_URL'', sn_region = Getenv env ''OS_REGION_NAME'',
      sn_projectID = firstEnv env [''OS_PROJECT_ID'', ''OS_TENANT_ID''],
      sn_projectName = firstEnv env [''OS_PROJECT_NAME'', ''OS_TENANT_NAME''],
      sn_userName = firstEnv env [''OS_USERNAME'', ''OS_USER_ID''], sn_cloud = Getenv env ''OS_CLOUD'', sn_expiresAt = None\<rparr>"

definition trackerInfo :: "scopeTracker \<Rightarrow> scopeInfo" where
  "trackerInfo f =
     (case st_current f of
        None \<Rightarrow> emptyScopeInfo
      | Some sf \<Rightarrow>
          \<lparr>sn_authURL = sf_AuthURL sf, sn_region = sf_Region sf, sn_projectID = sf_ProjectID sf, sn_projectName = sf_ProjectName sf,
           sn_userName = sf_UserName sf, sn_cloud = [], sn_expiresAt = sf_ExpiresAt sf\<rparr>)"

definition scopePrompt :: "scopeInfo \<Rightarrow> promptScope" where
  "scopePrompt si =
     (let project = (if sn_projectName si = [] then shortID (sn_projectID si) else sn_projectName si)
      in \<lparr>ps_region = sn_region si,
          ps_project = (if sn_region si = [] \<and> project = [] then sn_cloud si else project)\<rparr>)"

text \<open>
  The rows of the \<^verbatim>\<open>scope\<close> built-in; \<open>hostOf\<close> is the host \<^verbatim>\<open>url.Parse\<close> finds, \<open>expiryText\<close> renders an expiry.
\<close>

definition scopeRows :: "(gostring \<Rightarrow> gostring option) \<Rightarrow> (int \<Rightarrow> gostring) \<Rightarrow> scopeInfo \<Rightarrow> (gostring \<times> gostring) list" where
  "scopeRows hostOf expiryText si =
     (let host = (case hostOf (sn_authURL si) of Some h \<Rightarrow> if h \<noteq> [] then h else sn_authURL si | None \<Rightarrow> sn_authURL si);
          project = (if sn_projectName si \<noteq> [] \<and> sn_projectID si \<noteq> []
                     then sn_projectName si @ '' ('' @ sn_projectID si @ '')''
                     else if sn_projectName si = [] then sn_projectID si else sn_projectName si);
          expiry = (case sn_expiresAt si of None \<Rightarrow> ''unknown'' | Some t \<Rightarrow> expiryText t)
      in [(''auth host'', host), (''cloud'', sn_cloud si), (''region'', sn_region si), (''project'', project),
          (''user'', sn_userName si), (''token expires'', expiry)])"

text \<open>\<^verbatim>\<open>%-14s\<close> pads on the right; the labels are ASCII.\<close>

definition scopeLine :: "gostring \<times> gostring \<Rightarrow> gostring" where
  "scopeLine r =
     (if snd r = [] \<and> fst r = ''cloud'' then []
      else (let label = fst r @ '':'' in
            label @ repeatByte (CHR '' '') (14 - length label) @ '' '' @ (if snd r = [] then ''-'' else snd r) @ [CHR 0x0A]))"

definition printScope :: "(gostring \<Rightarrow> gostring option) \<Rightarrow> (int \<Rightarrow> gostring) \<Rightarrow> scopeInfo \<Rightarrow> gostring" where
  "printScope hostOf expiryText si = concat (map scopeLine (scopeRows hostOf expiryText si))"

section \<open>The audit log\<close>

record auditEvent =
  ae_TS :: int
  ae_Argv :: "gostring list"
  ae_Command :: gostring
  ae_Region :: gostring
  ae_ProjectID :: gostring
  ae_ExitCode :: int
  ae_DurationMS :: int
  ae_Refused :: gostring

record auditLog =
  al_open :: bool
  al_events :: "auditEvent list"

text \<open>\<^verbatim>\<open>strconv.ParseUint(v, 10, 31)\<close>.\<close>

definition parseFD :: "gostring \<Rightarrow> nat option" where
  "parseFD v =
     (if v = [] \<or> \<not> list_all (\<lambda>c. 48 \<le> byte c \<and> byte c \<le> 57) v \<or> digitsVal v \<ge> 2 ^ 31 then None
      else Some (digitsVal v))"

definition auditWarning :: "gostring \<Rightarrow> gostring" where
  "auditWarning e = ''koc shell: warning: audit log: '' @ e @ ''; continuing without it''"

text \<open>\<open>openErr\<close> says why the file of \<^verbatim>\<open>KOC_AUDIT_FILE\<close> cannot be opened. The log, or none, and the lines printed.\<close>

definition openAudit :: "environ \<Rightarrow> gostring option \<Rightarrow> auditLog option \<times> gostring list" where
  "openAudit env openErr =
     (let v = trimSpace (Getenv env ''KOC_AUDIT_FD'') in
      if v \<noteq> [] then
        (case parseFD v of
           Some fd \<Rightarrow>
             if fd \<ge> 3 then (Some \<lparr>al_open = True, al_events = []\<rparr>, [])
             else (None, [auditWarning (''KOC_AUDIT_FD='' @ quoteQ v @ '' is not a file descriptor above 2'')])
         | None \<Rightarrow> (None, [auditWarning (''KOC_AUDIT_FD='' @ quoteQ v @ '' is not a file descriptor above 2'')]))
      else if Getenv env ''KOC_AUDIT_FILE'' \<noteq> [] then
        (case openErr of
           None \<Rightarrow> (Some \<lparr>al_open = True, al_events = []\<rparr>, [])
         | Some e \<Rightarrow> (None, [auditWarning e]))
      else (None, []))"

text \<open>\<open>err\<close> is why the event could not be written.\<close>

definition auditWrite :: "gostring option \<Rightarrow> auditEvent \<Rightarrow> auditLog option \<Rightarrow> auditLog option \<times> gostring list" where
  "auditWrite err ev log =
     (case log of
        None \<Rightarrow> (None, [])
      | Some a \<Rightarrow>
          if \<not> al_open a then (Some a, [])
          else case err of
              None \<Rightarrow> (Some (a\<lparr>al_events := al_events a @ [ev]\<rparr>), [])
            | Some e \<Rightarrow> (Some (a\<lparr>al_open := False\<rparr>), [auditWarning e]))"

definition auditClose :: "auditLog option \<Rightarrow> auditLog option" where
  "auditClose log = map_option (\<lambda>a. a\<lparr>al_open := False\<rparr>) log"

record lineRecord =
  lr_start :: int
  lr_argv :: "gostring list"
  lr_command :: gostring
  lr_region :: gostring
  lr_projectID :: gostring
  lr_refused :: gostring

section \<open>One invocation\<close>

text \<open>
  \<^verbatim>\<open>cli.Run\<close>: the resolver memo is emptied before and after, the arguments are expanded against the fresh
  tree, and the timing summary is handed out once, after the command. \<open>execute\<close> is the command itself, which
  may use both.
\<close>

definition RunCommand :: "(gostring list \<Rightarrow> gostring list) \<Rightarrow> (gostring list \<Rightarrow> cache option \<times> timing option \<Rightarrow> 'r \<times> cache option \<times> timing option) \<Rightarrow>
    gostring list \<Rightarrow> cache option \<times> timing option \<Rightarrow> 'r \<times> gostring \<times> cache option \<times> timing option" where
  "RunCommand expand execute args s =
     (let (memo, tim) = s;
          (r, memo, tim) = execute (expand args) (Reset memo, tim);
          (summary, tim) = ReportTiming tim
      in (r, summary, Reset memo, tim))"

text \<open>
  What running a line gives: the arguments expanded against its tree, the command cobra resolved (its path
  and whether usage is silenced), the error, and the region and project the root's flags have then
  (\<^const>\<open>None\<close>: no such flag).
\<close>

record runOutcome =
  oc_expanded :: "gostring list"
  oc_cmd :: "(gostring \<times> bool) option"
  oc_atRoot :: bool
  oc_err :: "runErr option"
  oc_region :: "gostring option"
  oc_project :: "gostring option"

text \<open>The root of a line as \<^verbatim>\<open>prepare\<close> leaves it: the options and the session's scope in its annotations.\<close>

record preparedRoot =
  pr_options :: Options
  pr_session :: "(gostring \<times> gostring) list"

definition setSession :: "gostring \<Rightarrow> gostring \<Rightarrow> preparedRoot \<Rightarrow> preparedRoot" where
  "setSession region projectID r =
     r\<lparr>pr_session := [(''os-region-name'', region), (''os-project-id'', projectID)]\<rparr>"

section \<open>The shell\<close>

record shellState =
  sh_status :: int
  sh_envScope :: scopeInfo
  sh_scopeFile :: "scopeTracker option"
  sh_outer :: "(gostring \<times> gostring) list"
  sh_audit :: "auditLog option"
  sh_sigterm :: bool
  sh_out :: "gostring list"
  sh_errOut :: "gostring list"

text \<open>What the world answers while a line runs.\<close>

record lineWorld =
  lw_sha :: "gostring \<Rightarrow> gostring"
  lw_decode :: "gostring \<Rightarrow> ScopeFile option"
  lw_before :: "(int \<times> int) option \<times> gostring option"
  lw_during :: "(int \<times> int) option \<times> gostring option"
  lw_start :: int
  lw_check :: int
  lw_end :: int
  lw_fresh :: Options
  lw_run :: "preparedRoot \<Rightarrow> gostring list \<Rightarrow> runOutcome"
  lw_scopeErrText :: "scopeErr \<Rightarrow> gostring"
  lw_timeText :: "int \<Rightarrow> gostring"
  lw_hostOf :: "gostring \<Rightarrow> gostring option"
  lw_expiryText :: "int \<Rightarrow> gostring"
  lw_auditErr :: "gostring option"
  lw_sigterm :: bool

text \<open>The command tree, the resolution of arguments in it and their expansion.\<close>

record treeWorld =
  tr_root :: command
  tr_find :: "gostring list \<Rightarrow> cmdPath option"
  tr_expand :: "gostring list \<Rightarrow> gostring list"
  tr_pathOf :: "gostring list \<Rightarrow> gostring option"

definition shPrintln :: "gostring \<Rightarrow> shellState \<Rightarrow> shellState" where
  "shPrintln msg s = s\<lparr>sh_errOut := sh_errOut s @ [msg]\<rparr>"

definition shErrorf :: "gostring \<Rightarrow> shellState \<Rightarrow> shellState" where
  "shErrorf msg s = shPrintln (''koc shell: '' @ msg) s"

definition shScope :: "shellState \<Rightarrow> scopeInfo" where
  "shScope s = (case sh_scopeFile s of Some f \<Rightarrow> trackerInfo f | None \<Rightarrow> sh_envScope s)"

definition splitErrText :: "splitError \<Rightarrow> gostring" where
  "splitErrText e =
     (case e of
        ErrUnterminated \<Rightarrow> ''unterminated quote or trailing backslash''
      | UnsupportedError feature \<Rightarrow> feature @ '' are not supported; quote the character to pass it literally'')"

definition scopeDot :: gostring where "scopeDot = '' '' @ promptDot @ '' ''"

definition refreshScope :: "lineWorld \<Rightarrow> (int \<times> int) option \<times> gostring option \<Rightarrow> shellState \<Rightarrow> shellState" where
  "refreshScope w look s =
     (case sh_scopeFile s of
        None \<Rightarrow> s
      | Some f \<Rightarrow>
          let (chg, f') = scopeRefresh (lw_sha w) (lw_decode w) (fst look) (snd look) f;
              s = s\<lparr>sh_scopeFile := Some f'\<rparr>
          in if chg
             then (let p = scopePrompt (shScope s)
                   in shPrintln (''scope: '' @ (if ps_region p \<noteq> [] then ps_region p @ scopeDot @ ps_project p else ps_project p)) s)
             else s)"

definition prepareLine :: "lineWorld \<Rightarrow> shellState \<Rightarrow> preparedRoot" where
  "prepareLine w s =
     (let root = \<lparr>pr_options = lw_fresh w, pr_session = []\<rparr>;
          root = (case sh_scopeFile s of
              Some f \<Rightarrow>
                (case st_current f of
                   None \<Rightarrow> root
                 | Some sf \<Rightarrow> setSession (sf_Region sf) (sf_ProjectID sf) (root\<lparr>pr_options := scopeApply f (pr_options root)\<rparr>))
            | None \<Rightarrow> setSession (sn_region (sh_envScope s)) (sn_projectID (sh_envScope s)) root)
      in root\<lparr>pr_options := fold typeFlag (sh_outer s) (pr_options root)\<rparr>)"

definition describeLine :: "runOutcome \<Rightarrow> bool \<Rightarrow> lineRecord \<Rightarrow> lineRecord" where
  "describeLine oc inScope rec =
     (let rec = (case oc_cmd oc of
            Some (path, _) \<Rightarrow> if oc_atRoot oc then rec else rec\<lparr>lr_command := trimSpace (trimPrefix path ''koc'')\<rparr>
          | None \<Rightarrow> rec)
      in if \<not> inScope then rec
         else (let rec = (case oc_region oc of Some r \<Rightarrow> if r \<noteq> [] then rec\<lparr>lr_region := r\<rparr> else rec | None \<Rightarrow> rec)
               in case oc_project oc of Some p \<Rightarrow> if p \<noteq> [] then rec\<lparr>lr_projectID := p\<rparr> else rec | None \<Rightarrow> rec))"

text \<open>\<^verbatim>\<open>run\<close>: the code, the record and the shell.\<close>

definition shRun :: "treeWorld \<Rightarrow> lineWorld \<Rightarrow> gostring list \<Rightarrow> lineRecord \<Rightarrow> shellState \<Rightarrow> int \<times> lineRecord \<times> shellState" where
  "shRun tw w args rec s =
     (let oc = lw_run w (prepareLine w s) args;
          rec = rec\<lparr>lr_argv := redactArgs (tr_find tw) (tr_root tw) (oc_expanded oc)\<rparr>;
          refusal = Option.bind (oc_err oc) ru_refusal;
          rec = (case refusal of Some r \<Rightarrow> rec\<lparr>lr_refused := r\<rparr> | None \<Rightarrow> rec);
          rec = describeLine oc (refusal = None) rec;
          (code, msg) = ExitStatus (map_option snd (oc_cmd oc)) (oc_err oc)
      in (code, rec, if msg \<noteq> [] then shPrintln msg s else s))"

definition preview :: "treeWorld \<Rightarrow> gostring list \<Rightarrow> gostring list \<times> gostring" where
  "preview tw args =
     (let args = tr_expand tw args
      in (redactArgs (tr_find tw) (tr_root tw) args,
          case tr_pathOf tw args of Some p \<Rightarrow> trimSpace (trimPrefix p ''koc'') | None \<Rightarrow> hd args))"

definition refusedSyntax :: gostring where "refusedSyntax = ''syntax''"
definition refusedExpired :: gostring where "refusedExpired = ''expired''"
definition refusedScope :: gostring where "refusedScope = ''scope''"
definition refusedNested :: gostring where "refusedNested = ''nested''"

definition verdictNow :: "lineWorld \<Rightarrow> shellState \<Rightarrow> lineVerdict" where
  "verdictNow w s = (case sh_scopeFile s of None \<Rightarrow> LineRuns | Some f \<Rightarrow> checkLine f (lw_check w))"

text \<open>The text of the expiry error needs the moment of expiry, which \<^const>\<open>RefusedExpired\<close> stands for.\<close>

definition verdictText :: "lineWorld \<Rightarrow> shellState \<Rightarrow> lineVerdict \<Rightarrow> (gostring \<times> gostring) option" where
  "verdictText w s v =
     (case v of
        LineRuns \<Rightarrow> None
      | RefusedScope e \<Rightarrow> Some (refusedScope, lw_scopeErrText w e)
      | RefusedExpired \<Rightarrow>
          Some (refusedExpired,
            ''the session expired at '' @ (case sn_expiresAt (shScope s) of Some t \<Rightarrow> lw_timeText w t | None \<Rightarrow> [])
            @ ''; the console will renew it''))"

definition shExec :: "treeWorld \<Rightarrow> lineWorld \<Rightarrow> gostring list \<Rightarrow> lineRecord \<Rightarrow> shellState \<Rightarrow> int \<times> lineRecord \<times> shellState" where
  "shExec tw w args rec s =
     (let s = refreshScope w (lw_during w) s;
          sc = shScope s;
          rec = rec\<lparr>lr_region := sn_region sc, lr_projectID := sn_projectID sc\<rparr>
      in case verdictText w s (verdictNow w s) of
          Some (reason, msg) \<Rightarrow>
            let (argv, command) = preview tw args
            in (1, rec\<lparr>lr_argv := argv, lr_command := command, lr_refused := reason\<rparr>, shErrorf msg s)
        | None \<Rightarrow> shRun tw w args rec s)"

text \<open>The built-ins: \<^const>\<open>None\<close> for a koc command, else whether the shell ends, the record and the shell.\<close>

definition clearSeq :: gostring where "clearSeq = escKey # ''[H'' @ escKey # ''[2J''"

definition shBuiltin :: "treeWorld \<Rightarrow> lineWorld \<Rightarrow> gostring list \<Rightarrow> lineRecord \<Rightarrow> shellState \<Rightarrow> (bool \<times> lineRecord \<times> shellState) option" where
  "shBuiltin tw w args rec s =
     (if hd args = ''exit'' \<or> hd args = ''quit'' then Some (True, rec, s\<lparr>sh_status := 0\<rparr>)
      else if hd args = ''clear'' then Some (False, rec, s\<lparr>sh_out := sh_out s @ [clearSeq], sh_status := 0\<rparr>)
      else if hd args = ''scope''
      then Some (False, rec, s\<lparr>sh_out := sh_out s @ [printScope (lw_hostOf w) (lw_expiryText w) (shScope s)], sh_status := 0\<rparr>)
      else if hd args = ''help''
      then (let (code, rec, s) = shRun tw w args rec s in Some (False, rec, s\<lparr>sh_status := code\<rparr>))
      else if hd args = ''shell''
      then Some (False, rec\<lparr>lr_refused := refusedNested\<rparr>, shErrorf ''already in koc shell'' (s\<lparr>sh_status := 2\<rparr>))
      else None)"

definition lineEvent :: "lineWorld \<Rightarrow> lineRecord \<Rightarrow> shellState \<Rightarrow> auditEvent" where
  "lineEvent w rec s =
     \<lparr>ae_TS = lr_start rec, ae_Argv = lr_argv rec, ae_Command = lr_command rec, ae_Region = lr_region rec,
      ae_ProjectID = lr_projectID rec, ae_ExitCode = sh_status s, ae_DurationMS = goQuot (lw_end w - lr_start rec) millisecond,
      ae_Refused = lr_refused rec\<rparr>"

definition shRecord :: "lineWorld \<Rightarrow> lineRecord \<Rightarrow> shellState \<Rightarrow> shellState" where
  "shRecord w rec s =
     (let (log, warnings) = auditWrite (lw_auditErr w) (lineEvent w rec s) (sh_audit s)
      in s\<lparr>sh_audit := log, sh_errOut := sh_errOut s @ warnings\<rparr>)"

definition runLine :: "treeWorld \<Rightarrow> lineWorld \<Rightarrow> gostring \<Rightarrow> shellState \<Rightarrow> bool \<times> shellState" where
  "runLine tw w line s =
     (let sc = shScope s;
          rec = \<lparr>lr_start = lw_start w, lr_argv = [], lr_command = [], lr_region = sn_region sc, lr_projectID = sn_projectID sc, lr_refused = []\<rparr>
      in case splitLine line of
          Inl e \<Rightarrow>
            let s = shErrorf (splitErrText e) (s\<lparr>sh_status := 2\<rparr>)
            in (False, shRecord w (rec\<lparr>lr_argv := redactArgs (tr_find tw) (tr_root tw) (Go_Strings.fields line), lr_refused := refusedSyntax\<rparr>) s)
        | Inr args0 \<Rightarrow>
            let args = stripPrefix args0 in
            if args = [] then (False, s)
            else
              (let rec = rec\<lparr>lr_argv := redactArgs (tr_find tw) (tr_root tw) args, lr_command := hd args\<rparr>
               in case shBuiltin tw w args rec s of
                   Some (ends, rec, s) \<Rightarrow> (ends, shRecord w rec s)
                 | None \<Rightarrow>
                     let (code, rec, s) = shExec tw w args rec s
                     in (False, shRecord w rec (s\<lparr>sh_status := code\<rparr>))))"

text \<open>
  The loop over the lines typed, each with its world; it ends at \<^verbatim>\<open>exit\<close>, at the end of the input or after
  the line during which a \<^verbatim>\<open>SIGTERM\<close> came. The prompt shown before each line comes with the line.
\<close>

definition shPrompt :: "int \<Rightarrow> shellState \<Rightarrow> gostring" where
  "shPrompt width s = formatPrompt (scopePrompt (shScope s)) (sh_status s) width"

fun shLoop :: "treeWorld \<Rightarrow> (lineWorld \<times> gostring) list \<Rightarrow> shellState \<Rightarrow> shellState" where
  "shLoop tw [] s = s\<lparr>sh_audit := auditClose (sh_audit s)\<rparr>"
| "shLoop tw ((w, line) # rest) s =
     (let s = refreshScope w (lw_before w) s;
          (ends, s) = runLine tw w line s;
          s = s\<lparr>sh_sigterm := sh_sigterm s \<or> lw_sigterm w\<rparr>
      in if ends \<or> sh_sigterm s then s\<lparr>sh_audit := auditClose (sh_audit s)\<rparr> else shLoop tw rest s)"

definition newShell :: "environ \<Rightarrow> gostring option \<Rightarrow> (gostring \<times> gostring) list \<Rightarrow> gostring option \<Rightarrow> shellState" where
  "newShell env auditErr outer historyErr =
     (let (log, warnings) = openAudit env auditErr
      in \<lparr>sh_status = 0, sh_envScope = envScope env,
          sh_scopeFile = (if Getenv env ''KOC_SCOPE_FILE'' = [] then None else Some newScopeFile),
          sh_outer = outer, sh_audit = log, sh_sigterm = False, sh_out = [],
          sh_errOut = (case historyErr of Some e \<Rightarrow> [''koc shell: warning: history: '' @ e @ ''; keeping it in memory only''] | None \<Rightarrow> [])
            @ warnings\<rparr>)"

section \<open>Every line is recorded\<close>

definition recordedLine :: "gostring \<Rightarrow> bool" where
  "recordedLine line = (case splitLine line of Inl _ \<Rightarrow> True | Inr args \<Rightarrow> stripPrefix args \<noteq> [])"

text \<open>An event for a line: when it began, arguments that went through the redaction, no refusal with status 0.\<close>

definition auditedAs :: "treeWorld \<Rightarrow> lineWorld \<Rightarrow> gostring \<Rightarrow> auditEvent \<Rightarrow> bool" where
  "auditedAs tw w line ev \<longleftrightarrow>
     ae_TS ev = lw_start w
     \<and> (\<exists>args. ae_Argv ev = redactArgs (tr_find tw) (tr_root tw) args)
     \<and> (ae_Refused ev \<noteq> [] \<longrightarrow> ae_ExitCode ev \<noteq> 0)
     \<and> ((\<exists>e. splitLine line = Inl e) \<longrightarrow> ae_Refused ev = refusedSyntax \<and> ae_ExitCode ev = 2)"

text \<open>What a step keeps: the log and the beginning of the line; and what it promises of the record.\<close>

definition lineDone :: "treeWorld \<Rightarrow> lineRecord \<Rightarrow> shellState \<Rightarrow> int \<Rightarrow> lineRecord \<Rightarrow> shellState \<Rightarrow> bool" where
  "lineDone tw rec s code rec' s' \<longleftrightarrow>
     sh_audit s' = sh_audit s \<and> lr_start rec' = lr_start rec
     \<and> (\<exists>args. lr_argv rec' = redactArgs (tr_find tw) (tr_root tw) args) \<and> (lr_refused rec' \<noteq> [] \<longrightarrow> code \<noteq> 0)"

lemma ExitStatus_error: "fst (ExitStatus cmd (Some e)) \<noteq> 0"
  by (simp add: ExitStatus_def ExitInterrupted_def ExitUsage_def ExitFailure_def)

lemma describeLine_keeps [simp]:
  "lr_start (describeLine oc b rec) = lr_start rec" "lr_argv (describeLine oc b rec) = lr_argv rec"
  "lr_refused (describeLine oc b rec) = lr_refused rec"
  by (simp_all add: describeLine_def Let_def split: option.split)

lemma shPrintln_audit [simp]: "sh_audit (shPrintln m s) = sh_audit s" "sh_audit (shErrorf m s) = sh_audit s"
  by (simp_all add: shPrintln_def shErrorf_def)

lemma shRun_done:
  assumes "lr_refused rec = []" and "shRun tw w args rec s = (code, rec', s')"
  shows "lineDone tw rec s code rec' s'"
proof (cases "oc_err (lw_run w (prepareLine w s) args)")
  case None
  then show ?thesis using assms by (auto simp: shRun_def lineDone_def Let_def split: prod.splits if_splits)
next
  case (Some e)
  then show ?thesis using assms ExitStatus_error [of "map_option snd (oc_cmd (lw_run w (prepareLine w s) args))" e]
    by (auto simp: shRun_def lineDone_def Let_def split: prod.splits if_splits option.splits)
qed

lemma refreshScope_audit [simp]: "sh_audit (refreshScope w look s) = sh_audit s"
  by (simp add: refreshScope_def Let_def split: option.split prod.split)

lemma verdictText_cases: "verdictText w s v = Some (reason, msg) \<Longrightarrow> reason \<noteq> []"
  by (auto simp: verdictText_def refusedScope_def refusedExpired_def split: lineVerdict.splits)

lemma shExec_done:
  assumes "lr_refused rec = []" and "shExec tw w args rec s = (code, rec', s')"
  shows "lineDone tw rec s code rec' s'"
proof -
  let ?s = "refreshScope w (lw_during w) s"
  let ?rec = "rec\<lparr>lr_region := sn_region (shScope ?s), lr_projectID := sn_projectID (shScope ?s)\<rparr>"
  show ?thesis
  proof (cases "verdictText w ?s (verdictNow w ?s)")
    case None
    then have "shRun tw w args ?rec ?s = (code, rec', s')" using assms(2) by (simp add: shExec_def Let_def)
    from shRun_done [OF _ this] assms(1) show ?thesis by (simp add: lineDone_def)
  next
    case (Some rm)
    then show ?thesis using assms by (cases rm) (auto simp: shExec_def lineDone_def preview_def Let_def)
  qed
qed

lemma shBuiltin_done:
  assumes "lr_refused rec = []" and "lr_argv rec = redactArgs (tr_find tw) (tr_root tw) args"
    and "shBuiltin tw w args rec s = Some (ends, rec', s')"
  shows "lineDone tw rec s (sh_status s') rec' s'"
proof (cases "hd args = ''help''")
  case True
  obtain code rec1 s1 where r: "shRun tw w args rec s = (code, rec1, s1)" by (metis prod_cases3)
  then show ?thesis using assms(3) True shRun_done [OF assms(1) r] by (auto simp: shBuiltin_def lineDone_def)
next
  case False
  then show ?thesis using assms by (auto simp: shBuiltin_def lineDone_def refusedNested_def shErrorf_def shPrintln_def split: if_splits)
qed

text \<open>One line while the log can be written.\<close>

lemma runLine_audit:
  assumes "sh_audit s = Some log" and "al_open log" and "lw_auditErr w = None" and "runLine tw w line s = (ends, s')"
  shows "if recordedLine line
    then \<exists>ev. auditedAs tw w line ev \<and> sh_audit s' = Some (log\<lparr>al_events := al_events log @ [ev]\<rparr>)
    else sh_audit s' = Some log \<and> \<not> ends"
proof -
  have rec: "\<exists>ev. ae_TS ev = lr_start rec \<and> ae_Argv ev = lr_argv rec \<and> ae_Refused ev = lr_refused rec \<and> ae_ExitCode ev = sh_status sx
      \<and> sh_audit (shRecord w rec sx) = Some (log\<lparr>al_events := al_events log @ [ev]\<rparr>)"
    if "sh_audit sx = Some log" for rec sx
    using that assms(2,3) by (intro exI [of _ "lineEvent w rec sx"]) (simp add: shRecord_def auditWrite_def lineEvent_def)
  show ?thesis
  proof (cases "splitLine line")
    case (Inl e)
    let ?rec = "\<lparr>lr_start = lw_start w, lr_argv = redactArgs (tr_find tw) (tr_root tw) (Go_Strings.fields line), lr_command = [],
      lr_region = sn_region (shScope s), lr_projectID = sn_projectID (shScope s), lr_refused = refusedSyntax\<rparr>"
    let ?s = "shErrorf (splitErrText e) (s\<lparr>sh_status := 2\<rparr>)"
    have "s' = shRecord w ?rec ?s" using assms(4) Inl by (simp add: runLine_def Let_def)
    moreover have "sh_audit ?s = Some log" using assms(1) by simp
    moreover have "sh_status ?s = 2" by (simp add: shErrorf_def shPrintln_def)
    ultimately show ?thesis using rec [of ?s ?rec] Inl
      by (fastforce simp: recordedLine_def auditedAs_def refusedSyntax_def)
  next
    case (Inr args0)
    let ?args = "stripPrefix args0"
    show ?thesis
    proof (cases "?args = []")
      case True
      then show ?thesis using assms(1,4) Inr by (simp add: runLine_def recordedLine_def Let_def)
    next
      case False
      let ?rec = "\<lparr>lr_start = lw_start w, lr_argv = redactArgs (tr_find tw) (tr_root tw) ?args, lr_command = hd ?args,
        lr_region = sn_region (shScope s), lr_projectID = sn_projectID (shScope s), lr_refused = []\<rparr>"
      have ev: "auditedAs tw w line ev" if "lineDone tw ?rec s (ae_ExitCode ev) rec' sx" "ae_TS ev = lr_start rec'"
        "ae_Argv ev = lr_argv rec'" "ae_Refused ev = lr_refused rec'" for ev rec' sx
        using that Inr by (simp add: auditedAs_def lineDone_def)
      show ?thesis
      proof (cases "shBuiltin tw w ?args ?rec s")
        case None
        obtain code rec1 s1 where x: "shExec tw w ?args ?rec s = (code, rec1, s1)" by (metis prod_cases3)
        have d: "lineDone tw ?rec s code rec1 s1" by (rule shExec_done [OF _ x]) simp
        then have "sh_audit (s1\<lparr>sh_status := code\<rparr>) = Some log" using assms(1) by (simp add: lineDone_def)
        from rec [OF this] obtain e where e: "ae_TS e = lr_start rec1" "ae_Argv e = lr_argv rec1" "ae_Refused e = lr_refused rec1"
          "ae_ExitCode e = code" "sh_audit (shRecord w rec1 (s1\<lparr>sh_status := code\<rparr>)) = Some (log\<lparr>al_events := al_events log @ [e]\<rparr>)"
          by auto
        have "auditedAs tw w line e" by (rule ev [where rec' = rec1 and sx = s1]) (use d e in simp_all)
        moreover have "s' = shRecord w rec1 (s1\<lparr>sh_status := code\<rparr>)" using assms(4) Inr False None x by (simp add: runLine_def Let_def)
        ultimately show ?thesis using e False Inr by (auto simp: recordedLine_def)
      next
        case (Some b)
        obtain e1 rec1 s1 where b: "b = (e1, rec1, s1)" by (metis prod_cases3)
        have d: "lineDone tw ?rec s (sh_status s1) rec1 s1" by (rule shBuiltin_done [OF _ _ Some [unfolded b]]) simp_all
        then have "sh_audit s1 = Some log" using assms(1) by (simp add: lineDone_def)
        from rec [OF this] obtain e where e: "ae_TS e = lr_start rec1" "ae_Argv e = lr_argv rec1" "ae_Refused e = lr_refused rec1"
          "ae_ExitCode e = sh_status s1" "sh_audit (shRecord w rec1 s1) = Some (log\<lparr>al_events := al_events log @ [e]\<rparr>)"
          by auto
        have "auditedAs tw w line e" by (rule ev [where rec' = rec1 and sx = s1]) (use d e in simp_all)
        moreover have "s' = shRecord w rec1 s1" using assms(4) Inr False Some b by (simp add: runLine_def Let_def)
        ultimately show ?thesis using e False Inr by (auto simp: recordedLine_def)
      qed
    qed
  qed
qed

lemma shLoop_audit:
  assumes "sh_audit s = Some log" and "al_open log" and "list_all (\<lambda>(w, _). lw_auditErr w = None) lines"
  shows "\<exists>k evs. k \<le> length lines
    \<and> sh_audit (shLoop tw lines s) = Some (log\<lparr>al_open := False, al_events := al_events log @ evs\<rparr>)
    \<and> list_all2 (\<lambda>(w, line) ev. auditedAs tw w line ev) (filter (\<lambda>(_, line). recordedLine line) (take k lines)) evs
    \<and> (k < length lines \<longrightarrow> sh_sigterm (shLoop tw lines s)
        \<or> k > 0 \<and> (\<exists>args. splitLine (snd (lines ! (k - 1))) = Inr args \<and> hd (stripPrefix args) \<in> {''exit'', ''quit''}))"
  using assms
proof (induction tw lines s arbitrary: log rule: shLoop.induct)
  case (1 tw s)
  then show ?case by (intro exI [of _ 0] exI [of _ "[]"]) (simp add: auditClose_def)
next
  case (2 tw w line rest s)
  let ?s0 = "refreshScope w (lw_before w) s"
  obtain ends s1 where r: "runLine tw w line ?s0 = (ends, s1)" by fastforce
  let ?s2 = "s1\<lparr>sh_sigterm := sh_sigterm s1 \<or> lw_sigterm w\<rparr>"
  have ok: "lw_auditErr w = None" "list_all (\<lambda>(w, _). lw_auditErr w = None) rest" using 2(4) by simp_all
  define evs0 where "evs0 = (\<lambda>ev. if recordedLine line then [ev] else [] :: auditEvent list)"
  obtain ev where ev: "sh_audit s1 = Some (log\<lparr>al_events := al_events log @ evs0 ev\<rparr>)"
    "recordedLine line \<Longrightarrow> auditedAs tw w line ev" "\<not> recordedLine line \<Longrightarrow> \<not> ends"
    using runLine_audit [OF _ 2(3) ok(1) r] 2(2) by (auto simp: evs0_def split: if_splits)
  have one: "list_all2 (\<lambda>(w, line) ev. auditedAs tw w line ev) (filter (\<lambda>(_, line). recordedLine line) [(w, line)]) (evs0 ev)"
    using ev(2) by (simp add: evs0_def)
  have exits: "\<exists>args. splitLine line = Inr args \<and> hd (stripPrefix args) \<in> {''exit'', ''quit''}" if "ends"
    using r that by (auto simp: runLine_def shBuiltin_def Let_def split: sum.splits if_splits prod.splits)
  show ?case
  proof (cases "ends \<or> sh_sigterm ?s2")
    case True
    then have l: "shLoop tw ((w, line) # rest) s = ?s2\<lparr>sh_audit := auditClose (sh_audit ?s2)\<rparr>" using r by (simp add: Let_def)
    show ?thesis
      unfolding l using ev(1) one True exits
      by (intro exI [of _ 1] exI [of _ "evs0 ev"]) (auto simp: auditClose_def)
  next
    case False
    then have l: "shLoop tw ((w, line) # rest) s = shLoop tw rest ?s2"
      by (simp only: shLoop.simps(2) Let_def r prod.case if_False)
    let ?log = "log\<lparr>al_events := al_events log @ evs0 ev\<rparr>"
    have "sh_audit ?s2 = Some ?log" "al_open ?log" using ev(1) 2(3) by simp_all
    from 2(1) [OF refl r [symmetric] refl refl False this(1) this(2) ok(2)] obtain k evs where k: "k \<le> length rest"
      "sh_audit (shLoop tw rest ?s2) = Some (?log\<lparr>al_open := False, al_events := al_events ?log @ evs\<rparr>)"
      "list_all2 (\<lambda>(w, line) ev. auditedAs tw w line ev) (filter (\<lambda>(_, line). recordedLine line) (take k rest)) evs"
      "k < length rest \<longrightarrow> sh_sigterm (shLoop tw rest ?s2)
        \<or> k > 0 \<and> (\<exists>args. splitLine (snd (rest ! (k - 1))) = Inr args \<and> hd (stripPrefix args) \<in> {''exit'', ''quit''})"
      by blast
    have "list_all2 (\<lambda>(w, line) ev. auditedAs tw w line ev) (filter (\<lambda>(_, line). recordedLine line) (take (Suc k) ((w, line) # rest))) (evs0 ev @ evs)"
      using list_all2_appendI [OF one k(3)] by (simp add: evs0_def split: if_splits)
    then show ?thesis unfolding l using k(1,2,4)
      by (intro exI [of _ "Suc k"] exI [of _ "evs0 ev @ evs"]) (auto simp: nth_Cons')
  qed
qed


lemma shPrintln_sigterm [simp]: "sh_sigterm (shPrintln m s) = sh_sigterm s" "sh_sigterm (shErrorf m s) = sh_sigterm s"
  by (simp_all add: shPrintln_def shErrorf_def)

lemma refreshScope_sigterm [simp]: "sh_sigterm (refreshScope w look s) = sh_sigterm s"
  by (simp add: refreshScope_def Let_def split: option.split prod.split)

lemma shRun_sigterm: "shRun tw w args rec s = (code, rec', s') \<Longrightarrow> sh_sigterm s' = sh_sigterm s"
  by (auto simp: shRun_def Let_def split: prod.splits if_splits)

lemma shExec_sigterm: "shExec tw w args rec s = (code, rec', s') \<Longrightarrow> sh_sigterm s' = sh_sigterm s"
  by (auto simp: shExec_def preview_def Let_def split: option.splits prod.splits dest: shRun_sigterm)

lemma shBuiltin_sigterm: "shBuiltin tw w args rec s = Some (ends, rec', s') \<Longrightarrow> sh_sigterm s' = sh_sigterm s"
  by (auto simp: shBuiltin_def Let_def split: if_splits prod.splits dest: shRun_sigterm)

lemma runLine_sigterm: "runLine tw w line s = (ends, s') \<Longrightarrow> sh_sigterm s' = sh_sigterm s"
  by (auto simp: runLine_def shRecord_def Let_def split: sum.splits if_splits option.splits prod.splits
      dest: shBuiltin_sigterm shExec_sigterm)

section \<open>A refused line does not run\<close>

definition builtinNames :: "gostring list" where
  "builtinNames = [''exit'', ''quit'', ''clear'', ''scope'', ''help'', ''shell'']"

lemma world_run [simp]:
  "refreshScope (w\<lparr>lw_run := r\<rparr>) look s = refreshScope w look s"
  "verdictNow (w\<lparr>lw_run := r\<rparr>) s = verdictNow w s"
  "verdictText (w\<lparr>lw_run := r\<rparr>) s v = verdictText w s v"
  "shRecord (w\<lparr>lw_run := r\<rparr>) rec s = shRecord w rec s"
  by (simp_all add: refreshScope_def verdictNow_def verdictText_def shRecord_def lineEvent_def split: option.split lineVerdict.split)

lemma builtin_none: "hd args \<notin> set builtinNames \<Longrightarrow> shBuiltin tw w args rec s = None"
  by (simp add: shBuiltin_def builtinNames_def)

lemma refused_does_not_run:
  assumes "verdictNow w (refreshScope w (lw_during w) s) \<noteq> LineRuns"
  shows "shExec tw (w\<lparr>lw_run := run1\<rparr>) args rec s = shExec tw (w\<lparr>lw_run := run2\<rparr>) args rec s"
proof -
  have "verdictText w (refreshScope w (lw_during w) s) (verdictNow w (refreshScope w (lw_during w) s)) \<noteq> None"
    using assms by (simp add: verdictText_def split: lineVerdict.split)
  then show ?thesis by (auto simp: shExec_def Let_def)
qed

lemma refreshScope_file:
  "sh_scopeFile s = Some f \<Longrightarrow>
     sh_scopeFile (refreshScope w look s) = Some (snd (scopeRefresh (lw_sha w) (lw_decode w) (fst look) (snd look) f))"
  by (auto simp: refreshScope_def shPrintln_def Let_def split: prod.splits)


section \<open>Witnesses\<close>

definition sampleOutcome :: runOutcome where
  "sampleOutcome = \<lparr>oc_expanded = [''list''], oc_cmd = Some (''koc list'', True), oc_atRoot = False, oc_err = None, oc_region = None, oc_project = None\<rparr>"

definition sampleLineWorld :: lineWorld where
  "sampleLineWorld = \<lparr>lw_sha = (\<lambda>s. s), lw_decode = sampleDecode, lw_before = (Some (1, 3), Some ''doc''), lw_during = (Some (1, 3), Some ''doc''),
     lw_start = 10, lw_check = 50, lw_end = 60, lw_fresh = sampleOptions, lw_run = (\<lambda>_ _. sampleOutcome), lw_scopeErrText = (\<lambda>_. []),
     lw_timeText = (\<lambda>_. []), lw_hostOf = (\<lambda>_. None), lw_expiryText = (\<lambda>_. []), lw_auditErr = None, lw_sigterm = False\<rparr>"

definition sampleTreeWorld :: treeWorld where
  "sampleTreeWorld = \<lparr>tr_root = Command ''koc'' [] [] [] [], tr_find = (\<lambda>_. None), tr_expand = id, tr_pathOf = (\<lambda>_. None)\<rparr>"

definition sampleShell :: shellState where
  "sampleShell = \<lparr>sh_status = 0, sh_envScope = emptyScopeInfo, sh_scopeFile = Some newScopeFile, sh_outer = [],
     sh_audit = Some \<lparr>al_open = True, al_events = []\<rparr>, sh_sigterm = False, sh_out = [], sh_errOut = []\<rparr>"

lemma sampleLine: "splitLine ''list'' = Inr [''list'']"
proof -
  have "runes ''list'' = map (\<lambda>c. [c]) ''list''" by (rule runes_ascii, simp add: byte_def runeSelf_def)
  then show ?thesis by (simp add: splitLine_def split_def rune_consts isBlank_def unsupported_def)
qed



end
