(* ===== verification/Wait_Poll.thy ===== *)
theory Wait_Poll
  imports Cli_Run
begin

text \<open>
  Waiting for a resource to settle: the poll loops of \<^verbatim>\<open>src/pkg/openstack\<close>, that is
  \<^verbatim>\<open>compute/server_state.go\<close>, \<^verbatim>\<open>compute/server_migrate.go\<close>, \<^verbatim>\<open>volume/wait.go\<close>, \<^verbatim>\<open>loadbalancer/wait.go\<close>,
  \<^verbatim>\<open>image/wait.go\<close> and \<^verbatim>\<open>baremetal/provision.go\<close>. Each is a \<^verbatim>\<open>for\<close> loop that reads the resource, decides,
  and then selects between the context and the ticker. A wait is the body of its loop, a function of
  what the loop carries, one reading and the context's error, together with what it returns when
  the select takes the context; a run is a list of rounds.
\<close>

section \<open>The loop\<close>

text \<open>
  One round: what the read answers, \<^verbatim>\<open>ctx.Err()\<close> where the body asks for it after a failed read, and the
  context's error when the select takes \<^verbatim>\<open>ctx.Done()\<close>, \<^const>\<open>None\<close> when it takes the tick.
\<close>

record 's round =
  rd_reading :: "go_err + 's"
  rd_ctx :: "go_err option"
  rd_done :: "go_err option"

type_synonym ('l, 's, 'r) waitBody = "'l \<Rightarrow> go_err + 's \<Rightarrow> go_err option \<Rightarrow> 'l + 'r"

text \<open>\<^const>\<open>None\<close>: the wait is still running after these rounds.\<close>

fun pollLoop :: "('l, 's, 'r) waitBody \<Rightarrow> ('l \<Rightarrow> go_err \<Rightarrow> 'r) \<Rightarrow> 'l \<Rightarrow> 's round list \<Rightarrow> 'r option" where
  "pollLoop body gaveUp l [] = None"
| "pollLoop body gaveUp l (r # rs) =
     (case body l (rd_reading r) (rd_ctx r) of
        Inr res \<Rightarrow> Some res
      | Inl l' \<Rightarrow>
          (case rd_done r of
             Some e \<Rightarrow> Some (gaveUp l' e)
           | None \<Rightarrow> pollLoop body gaveUp l' rs))"

section \<open>Errors of a wait\<close>

record MigrationFailedError =
  mf_ServerID :: gostring
  mf_Host :: gostring
  mf_Arrived :: bool

record volumeState =
  vs_Status :: gostring
  vs_VolumeType :: gostring
  vs_VolumeTypeID :: gostring
  vs_MigrationStatus :: gostring

datatype WaitFailure = ErrorStatus | MigrationError | RetypeRolledBack

record WaitFailedError =
  wf_VolumeID :: gostring
  wf_Op :: gostring
  wf_Reason :: WaitFailure
  wf_State :: volumeState

text \<open>
  \<open>Around t e\<close> is \<^verbatim>\<open>fmt.Errorf(t + "%w", e)\<close>, \<open>AsRead e\<close> an error handed on as it is, \<open>Verdict t\<close> one
  that wraps nothing.
\<close>

datatype waitErr =
    Around gostring go_err
  | AsRead go_err
  | Verdict gostring
  | ErrServerSoftDeleted
  | MigrationFailed MigrationFailedError
  | VolumeFailed WaitFailedError

definition migrationFailedText :: "MigrationFailedError \<Rightarrow> gostring" where
  "migrationFailedText e =
     (if mf_Arrived e then ''server '' @ mf_ServerID e @ '' reached its new host in ERROR status''
      else if mf_Host e \<noteq> [] then
        ''server '' @ mf_ServerID e @ '' entered ERROR status while leaving host '' @ quoteQ (mf_Host e)
      else ''server '' @ mf_ServerID e @ '' entered ERROR status during migration'')"

definition volumeFailedText :: "WaitFailedError \<Rightarrow> gostring" where
  "volumeFailedText e =
     (case wf_Reason e of
        MigrationError \<Rightarrow> wf_Op e @ '' of volume '' @ wf_VolumeID e @ '' failed: migration_status is error, type ''
          @ quoteQ (vs_VolumeType (wf_State e))
      | RetypeRolledBack \<Rightarrow> ''retype of volume '' @ wf_VolumeID e @ '' did not take effect: type is ''
          @ quoteQ (vs_VolumeType (wf_State e))
      | ErrorStatus \<Rightarrow> ''volume '' @ wf_VolumeID e @ '' entered error status during '' @ wf_Op e)"

definition softDeletedText :: gostring where
  "softDeletedText = ''server is SOFT_DELETED: nova defers the real delete until its reclaim interval lapses''"

fun waitErrText :: "waitErr \<Rightarrow> gostring" where
  "waitErrText (Around t e) = t @ errText e"
| "waitErrText (AsRead e) = errText e"
| "waitErrText (Verdict t) = t"
| "waitErrText ErrServerSoftDeleted = softDeletedText"
| "waitErrText (MigrationFailed e) = migrationFailedText e"
| "waitErrText (VolumeFailed e) = volumeFailedText e"

fun waitErrIs :: "waitErr \<Rightarrow> sentinel \<Rightarrow> bool" where
  "waitErrIs (Around t e) s = isErr e s"
| "waitErrIs (AsRead e) s = isErr e s"
| "waitErrIs _ s = False"

section \<open>Servers\<close>

record serverPoll =
  sp_Status :: gostring
  sp_TaskState :: gostring
  sp_Host :: gostring

definition lastStatus :: "gostring \<Rightarrow> gostring" where
  "lastStatus seen = (if seen = [] then [] else '' (last status '' @ quoteQ seen @ '')'')"

definition statusGaveUp :: "gostring list \<Rightarrow> gostring \<Rightarrow> go_err \<Rightarrow> waitErr option" where
  "statusGaveUp want seen e =
     Some (Around (''waiting for status '' @ quoteQ (joinWith '' or '' want) @ lastStatus seen @ '': '') e)"

definition statusBody :: "gostring list \<Rightarrow> (gostring, serverPoll, waitErr option) waitBody" where
  "statusBody want seen reading ctx =
     (case reading of
        Inl err \<Rightarrow> Inr (case ctx of Some e \<Rightarrow> statusGaveUp want seen e | None \<Rightarrow> Some (AsRead err))
      | Inr s \<Rightarrow>
          (let seen = sp_Status s @ (if sp_TaskState s \<noteq> [] then '' (task '' @ sp_TaskState s @ '')'' else [])
           in if sp_Status s \<in> set want \<and> sp_TaskState s = [] then Inr None
              else if sp_Status s = ''ERROR'' then
                Inr (Some (Verdict (''server entered ERROR status while waiting for '' @ quoteQ (joinWith '' or '' want))))
              else Inl seen))"

definition WaitForServerStatus :: "gostring list \<Rightarrow> serverPoll round list \<Rightarrow> waitErr option option" where
  "WaitForServerStatus want = pollLoop (statusBody want) (statusGaveUp want) []"

definition deletedGaveUp :: "gostring \<Rightarrow> go_err \<Rightarrow> waitErr option" where
  "deletedGaveUp seen e = Some (Around (''waiting for deletion'' @ lastStatus seen @ '': '') e)"

text \<open>\<open>codeIs\<close> is gophercloud's \<^verbatim>\<open>ResponseCodeIs\<close>.\<close>

definition deletedBody :: "(go_err \<Rightarrow> int \<Rightarrow> bool) \<Rightarrow> (gostring, serverPoll, waitErr option) waitBody" where
  "deletedBody codeIs seen reading ctx =
     (case reading of
        Inl err \<Rightarrow>
          Inr (if codeIs err 404 then None
               else case ctx of Some e \<Rightarrow> deletedGaveUp seen e | None \<Rightarrow> Some (AsRead err))
      | Inr s \<Rightarrow>
          if sp_Status s = ''SOFT_DELETED'' then Inr (Some ErrServerSoftDeleted) else Inl (sp_Status s))"

definition WaitForServerDeleted :: "(go_err \<Rightarrow> int \<Rightarrow> bool) \<Rightarrow> serverPoll round list \<Rightarrow> waitErr option option" where
  "WaitForServerDeleted codeIs = pollLoop (deletedBody codeIs) deletedGaveUp []"

section \<open>Migrations\<close>

definition maxGetErrors :: nat where
  "maxGetErrors = 5"

text \<open>
  \<^verbatim>\<open>poll\<close>. The loop carries the failed reads in a row and the stat that the closure \<open>settle\<close> assigns;
  \<open>settle\<close> returns that stat, its error and whether it is done.
\<close>

definition pollBody :: "(go_err \<Rightarrow> waitErr) \<Rightarrow> (go_err \<Rightarrow> waitErr)
    \<Rightarrow> (serverPoll \<Rightarrow> gostring \<Rightarrow> gostring \<times> waitErr option \<times> bool)
    \<Rightarrow> (nat \<times> gostring, serverPoll, gostring \<times> waitErr option) waitBody" where
  "pollBody timedOut failedRead settle st reading ctx =
     (case st of (getErrors, stat) \<Rightarrow>
        (case reading of
           Inl err \<Rightarrow>
             (case ctx of
                Some e \<Rightarrow> Inr (stat, Some (timedOut e))
              | None \<Rightarrow>
                  if Suc getErrors > maxGetErrors then Inr (stat, Some (failedRead err))
                  else Inl (Suc getErrors, stat))
         | Inr s \<Rightarrow>
             (case settle s stat of
                (stat, err, done) \<Rightarrow> if err \<noteq> None \<or> done then Inr (stat, err) else Inl (0, stat))))"

definition poll :: "(go_err \<Rightarrow> waitErr) \<Rightarrow> (go_err \<Rightarrow> waitErr)
    \<Rightarrow> (serverPoll \<Rightarrow> gostring \<Rightarrow> gostring \<times> waitErr option \<times> bool)
    \<Rightarrow> serverPoll round list \<Rightarrow> (gostring \<times> waitErr option) option" where
  "poll timedOut failedRead settle =
     pollLoop (pollBody timedOut failedRead settle) (\<lambda>st e. (snd st, Some (timedOut e))) (0, [])"

definition migrationSettle :: "gostring \<Rightarrow> serverPoll \<Rightarrow> gostring \<Rightarrow> gostring \<times> waitErr option \<times> bool" where
  "migrationSettle serverID s stat =
     (if equalFold (sp_Status s) ''ERROR'' then
        (stat, Some (MigrationFailed \<lparr>mf_ServerID = serverID, mf_Host = [], mf_Arrived = False\<rparr>), False)
      else if sp_TaskState s \<noteq> [] then (stat, None, False)
      else if list_ex (equalFold (sp_Status s)) [''ACTIVE'', ''PAUSED'', ''VERIFY_RESIZE''] then
        (sp_Status s, None, True)
      else (stat, None, False))"

definition WaitForMigration :: "gostring \<Rightarrow> serverPoll round list \<Rightarrow> (gostring \<times> waitErr option) option" where
  "WaitForMigration serverID =
     poll (Around (''waiting for migration of server '' @ serverID @ '': ''))
       (Around (''polling server '' @ serverID @ '' during migration: ''))
       (migrationSettle serverID)"

definition leaveSettle :: "gostring \<Rightarrow> gostring \<Rightarrow> gostring \<Rightarrow> serverPoll \<Rightarrow> gostring
    \<Rightarrow> gostring \<times> waitErr option \<times> bool" where
  "leaveSettle serverID host startStatus s stat =
     (let left = (sp_TaskState s = [] \<and> sp_Host s \<noteq> [] \<and> sp_Host s \<noteq> host) in
      if equalFold (sp_Status s) ''ERROR'' \<and> left then
        (stat, Some (MigrationFailed \<lparr>mf_ServerID = serverID, mf_Host = host, mf_Arrived = True\<rparr>), False)
      else if equalFold (sp_Status s) ''ERROR'' \<and> \<not> equalFold startStatus ''ERROR'' then
        (stat, Some (MigrationFailed \<lparr>mf_ServerID = serverID, mf_Host = host, mf_Arrived = False\<rparr>), False)
      else (sp_Status s, None, left))"

definition WaitForServerToLeaveHost :: "gostring \<Rightarrow> gostring \<Rightarrow> gostring \<Rightarrow> serverPoll round list
    \<Rightarrow> (gostring \<times> waitErr option) option" where
  "WaitForServerToLeaveHost serverID host startStatus =
     poll (Around (''waiting for server '' @ serverID @ '' to leave host '' @ quoteQ host @ '': ''))
       (Around (''polling server '' @ serverID @ '' during the move: ''))
       (leaveSettle serverID host startStatus)"

text \<open>
  \<open>confirm\<close> is what the confirm answered, \<open>after\<close> what a read of the server's stat answers when it was
  refused. The result is \<open>Inr autoConfirmed\<close> or the error.
\<close>

definition ConfirmMigration :: "gostring \<Rightarrow> go_err option \<Rightarrow> go_err + gostring \<Rightarrow> waitErr + bool" where
  "ConfirmMigration serverID confirm after =
     (case confirm of
        None \<Rightarrow> Inr False
      | Some err \<Rightarrow>
          (case after of
             Inr stat \<Rightarrow>
               if \<not> equalFold stat ''VERIFY_RESIZE'' then Inr True
               else Inl (Around (''confirming resize of server '' @ serverID @ '': '') err)
           | Inl _ \<Rightarrow> Inl (Around (''confirming resize of server '' @ serverID @ '': '') err)))"

section \<open>Volumes\<close>

text \<open>
  \<^verbatim>\<open>strings.ToLower\<close> as far as a comparison with an ASCII word sees it: besides the capital letters only
  U+0130 and U+212A have an ASCII lower case.
\<close>

definition lowerRune :: "rune \<Rightarrow> rune" where
  "lowerRune r =
     (if r = [CHR 0xC4, CHR 0xB0] then ''i''
      else if r = [CHR 0xE2, CHR 0x84, CHR 0xAA] then ''k''
      else if length r = 1 then map lowerByte r else r)"

definition lowerText :: "gostring \<Rightarrow> gostring" where
  "lowerText s = concat (map lowerRune (runes s))"

definition volumeGaveUp :: "gostring \<Rightarrow> nat \<Rightarrow> go_err \<Rightarrow> waitErr option" where
  "volumeGaveUp volumeID n e = Some (Around (''waiting for volume '' @ volumeID @ '': '') e)"

definition volumeBody :: "gostring \<Rightarrow> (volumeState \<Rightarrow> waitErr option \<times> bool) \<Rightarrow> (nat, volumeState, waitErr option) waitBody" where
  "volumeBody volumeID settle getErrors reading ctx =
     (case reading of
        Inl err \<Rightarrow>
          (case ctx of
             Some e \<Rightarrow> Inr (volumeGaveUp volumeID getErrors e)
           | None \<Rightarrow>
               if Suc getErrors > maxGetErrors then
                 Inr (Some (Around (''polling volume '' @ volumeID @ '': '') err))
               else Inl (Suc getErrors))
      | Inr st \<Rightarrow> (case settle st of (err, done) \<Rightarrow> if err \<noteq> None \<or> done then Inr err else Inl 0))"

definition pollVolume :: "gostring \<Rightarrow> (volumeState \<Rightarrow> waitErr option \<times> bool) \<Rightarrow> volumeState round list \<Rightarrow> waitErr option option" where
  "pollVolume volumeID settle = pollLoop (volumeBody volumeID settle) (volumeGaveUp volumeID) 0"

definition volumeFailed :: "gostring \<Rightarrow> gostring \<Rightarrow> volumeState \<Rightarrow> WaitFailure \<Rightarrow> waitErr option \<times> bool" where
  "volumeFailed volumeID op st r =
     (Some (VolumeFailed \<lparr>wf_VolumeID = volumeID, wf_Op = op, wf_Reason = r, wf_State = st\<rparr>), False)"

definition availableSettle :: "gostring \<Rightarrow> volumeState \<Rightarrow> waitErr option \<times> bool" where
  "availableSettle volumeID st =
     (if lowerText (vs_Status st) = ''available'' then (None, True)
      else if lowerText (vs_Status st) = ''error'' then volumeFailed volumeID ''create'' st ErrorStatus
      else (None, False))"

definition migrationInFlight :: "gostring \<Rightarrow> bool" where
  "migrationInFlight s \<longleftrightarrow> lowerText s \<in> {''starting'', ''migrating'', ''completing''}"

definition typeMatches :: "volumeState \<Rightarrow> gostring \<Rightarrow> gostring \<Rightarrow> bool" where
  "typeMatches st typeID typeName =
     list_ex (\<lambda>got. got \<noteq> [] \<and> (got = typeID \<or> typeName \<noteq> [] \<and> got = typeName)) [vs_VolumeType st, vs_VolumeTypeID st]"

definition retypeSettle :: "gostring \<Rightarrow> gostring \<Rightarrow> gostring \<Rightarrow> volumeState \<Rightarrow> waitErr option \<times> bool" where
  "retypeSettle volumeID typeID typeName st =
     (if equalFold (vs_Status st) ''error'' then volumeFailed volumeID ''retype'' st ErrorStatus
      else if equalFold (vs_Status st) ''retyping'' \<or> migrationInFlight (vs_MigrationStatus st) then (None, False)
      else if equalFold (vs_MigrationStatus st) ''error'' then volumeFailed volumeID ''retype'' st MigrationError
      else if \<not> typeMatches st typeID typeName then volumeFailed volumeID ''retype'' st RetypeRolledBack
      else (None, True))"

definition volumeMigrationSettle :: "gostring \<Rightarrow> volumeState \<Rightarrow> waitErr option \<times> bool" where
  "volumeMigrationSettle volumeID st =
     (if equalFold (vs_MigrationStatus st) ''success'' then (None, True)
      else if equalFold (vs_MigrationStatus st) ''error'' then volumeFailed volumeID ''migration'' st MigrationError
      else if equalFold (vs_Status st) ''error'' then volumeFailed volumeID ''migration'' st ErrorStatus
      else (None, False))"

definition WaitForVolumeAvailable :: "gostring \<Rightarrow> volumeState round list \<Rightarrow> waitErr option option" where
  "WaitForVolumeAvailable volumeID = pollVolume volumeID (availableSettle volumeID)"

definition WaitForRetype :: "gostring \<Rightarrow> gostring \<Rightarrow> gostring \<Rightarrow> volumeState round list \<Rightarrow> waitErr option option" where
  "WaitForRetype volumeID typeID typeName = pollVolume volumeID (retypeSettle volumeID typeID typeName)"

definition WaitForVolumeMigration :: "gostring \<Rightarrow> volumeState round list \<Rightarrow> waitErr option option" where
  "WaitForVolumeMigration volumeID = pollVolume volumeID (volumeMigrationSettle volumeID)"

section \<open>Load balancers\<close>

definition maxConsecutiveGetErrors :: nat where
  "maxConsecutiveGetErrors = 5"

text \<open>\<^verbatim>\<open>strings.Contains\<close>.\<close>

fun containsText :: "gostring \<Rightarrow> gostring \<Rightarrow> bool" where
  "containsText [] sub \<longleftrightarrow> sub = []"
| "containsText (c # cs) sub \<longleftrightarrow> hasPrefix (c # cs) sub \<or> containsText cs sub"

definition isNotFound :: "go_err \<Rightarrow> bool" where
  "isNotFound err =
     (case asErr (\<lambda>n. case errClass n of ErrUnexpectedResponseCode a \<Rightarrow> Some a | _ \<Rightarrow> None) err of
        Some code \<Rightarrow> code = 404
      | None \<Rightarrow> containsText (errText err) ''got 404'')"

text \<open>A reading after \<open>getStatus\<close> is a stat and whether the load balancer is gone.\<close>

definition getStatus :: "go_err + gostring \<Rightarrow> go_err + gostring \<times> bool" where
  "getStatus answer =
     (case answer of
        Inr stat \<Rightarrow> Inr (stat, False)
      | Inl err \<Rightarrow> if isNotFound err then Inr ([], True) else Inl err)"

definition lastProvisioning :: "gostring \<Rightarrow> gostring" where
  "lastProvisioning seen = (if seen = [] then [] else '' (last provisioning_status '' @ quoteQ seen @ '')'')"

definition balancerGaveUp :: "gostring \<Rightarrow> nat \<times> gostring \<Rightarrow> go_err \<Rightarrow> waitErr option" where
  "balancerGaveUp lbID st e =
     Some (Around (''waiting for load balancer '' @ lbID @ lastProvisioning (snd st) @ '': '') e)"

definition balancerBody :: "gostring \<Rightarrow> (gostring \<Rightarrow> bool \<Rightarrow> waitErr option \<times> bool)
    \<Rightarrow> (nat \<times> gostring, gostring, waitErr option) waitBody" where
  "balancerBody lbID finished st answer ctx =
     (case st of (getErrors, seen) \<Rightarrow>
        (case getStatus answer of
           Inl err \<Rightarrow>
             (case ctx of
                Some e \<Rightarrow> Inr (balancerGaveUp lbID (getErrors, seen) e)
              | None \<Rightarrow>
                  if Suc getErrors > maxConsecutiveGetErrors then
                    Inr (Some (Around (''polling load balancer '' @ lbID @ lastProvisioning seen @ '': '') err))
                  else Inl (Suc getErrors, seen))
         | Inr (stat, gone) \<Rightarrow>
             (let st' = (if \<not> gone then (0, stat) else (getErrors, seen)) in
              case finished stat gone of
                (derr, stop) \<Rightarrow> if derr \<noteq> None \<or> stop then Inr derr else Inl st')))"

definition pollProvisioning :: "gostring \<Rightarrow> (gostring \<Rightarrow> bool \<Rightarrow> waitErr option \<times> bool) \<Rightarrow> gostring round list
    \<Rightarrow> waitErr option option" where
  "pollProvisioning lbID finished = pollLoop (balancerBody lbID finished) (balancerGaveUp lbID) (0, [])"

definition activeFinished :: "gostring \<Rightarrow> gostring \<Rightarrow> bool \<Rightarrow> waitErr option \<times> bool" where
  "activeFinished lbID stat gone =
     (if gone then (Some (Verdict (''load balancer '' @ lbID @ '' disappeared while waiting for it to become ACTIVE'')), False)
      else if stat = ''ACTIVE'' then (None, True)
      else if stat = ''ERROR'' then (Some (Verdict (''load balancer '' @ lbID @ '' entered ERROR'')), False)
      else (None, False))"

definition deletedFinished :: "gostring \<Rightarrow> gostring \<Rightarrow> bool \<Rightarrow> waitErr option \<times> bool" where
  "deletedFinished lbID stat gone =
     (if gone \<or> stat = ''DELETED'' then (None, True)
      else if stat = ''ERROR'' then
        (Some (Verdict (''load balancer '' @ lbID @ '' entered ERROR while being deleted'')), False)
      else (None, False))"

definition WaitForLoadBalancerActive :: "gostring \<Rightarrow> gostring round list \<Rightarrow> waitErr option option" where
  "WaitForLoadBalancerActive lbID = pollProvisioning lbID (activeFinished lbID)"

definition WaitForLoadBalancerDeleted :: "gostring \<Rightarrow> gostring round list \<Rightarrow> waitErr option option" where
  "WaitForLoadBalancerDeleted lbID = pollProvisioning lbID (deletedFinished lbID)"

section \<open>Images\<close>

text \<open>
  The image is read as its status. The result is the image last read, \<^const>\<open>None\<close> for \<^verbatim>\<open>nil\<close>, and the
  error. \<open>timedOut\<close> reads the stat of the image seen read, which the select is never reached without.
\<close>

definition imageGaveUp :: "gostring \<Rightarrow> gostring \<Rightarrow> gostring option \<Rightarrow> go_err \<Rightarrow> gostring option \<times> waitErr option" where
  "imageGaveUp imageID want seen e =
     (seen, Some (Around (''waiting for image '' @ imageID @ '' to be '' @ want @ '' (still ''
        @ (case seen of Some st \<Rightarrow> st | None \<Rightarrow> []) @ ''): '') e))"

definition imageBody :: "gostring \<Rightarrow> gostring \<Rightarrow> (gostring option, gostring, gostring option \<times> waitErr option) waitBody" where
  "imageBody imageID want seen reading ctx =
     (case reading of
        Inl err \<Rightarrow>
          Inr (case (seen, ctx) of
                 (Some st, Some e) \<Rightarrow> imageGaveUp imageID want seen e
               | _ \<Rightarrow> (seen, Some (AsRead err)))
      | Inr st \<Rightarrow>
          if st = want then Inr (Some st, None)
          else if st \<in> {''killed'', ''deleted'', ''pending_delete''} then
            Inr (Some st, Some (Verdict (''waiting for image '' @ imageID @ '' to be '' @ want @ '': it is '' @ st)))
          else Inl (Some st))"

definition WaitForStatus :: "gostring \<Rightarrow> gostring \<Rightarrow> gostring round list \<Rightarrow> (gostring option \<times> waitErr option) option" where
  "WaitForStatus imageID want = pollLoop (imageBody imageID want) (imageGaveUp imageID want) None"

section \<open>Bare metal nodes\<close>

record node =
  nd_ProvisionState :: gostring
  nd_TargetProvisionState :: gostring
  nd_LastError :: gostring

definition IsProvisionFailure :: "gostring \<Rightarrow> bool" where
  "IsProvisionFailure state \<longleftrightarrow> hasSuffix state '' failed'' \<or> state = ''error''"

definition classifyProvisionState :: "node \<Rightarrow> gostring \<Rightarrow> gostring \<Rightarrow> waitErr option \<times> bool" where
  "classifyProvisionState n nodeID want =
     (let settled = (nd_TargetProvisionState n = []) in
      if settled \<and> nd_ProvisionState n = want then (None, True)
      else if IsProvisionFailure (nd_ProvisionState n) then
        (Some (Verdict (''node '' @ nodeID @ '' entered failure state '' @ quoteQ (nd_ProvisionState n) @ '': '' @ nd_LastError n)), False)
      else if settled \<and> nd_ProvisionState n \<noteq> want then
        (Some (Verdict (''node '' @ nodeID @ '' settled in unexpected state '' @ quoteQ (nd_ProvisionState n)
           @ '' instead of '' @ quoteQ want @ (if nd_LastError n \<noteq> [] then '': '' @ nd_LastError n else []))), False)
      else (None, False))"

definition lastProvisionState :: "gostring \<Rightarrow> gostring" where
  "lastProvisionState seen = (if seen = [] then [] else '' (last provision_state '' @ quoteQ seen @ '')'')"

definition provisionGaveUp :: "gostring \<Rightarrow> gostring \<Rightarrow> nat \<times> gostring \<Rightarrow> go_err \<Rightarrow> waitErr option" where
  "provisionGaveUp nodeID want st e =
     Some (Around (''waiting for node '' @ nodeID @ '' to reach '' @ quoteQ want @ lastProvisionState (snd st) @ '': '') e)"

definition pollingNode :: "gostring \<Rightarrow> gostring \<Rightarrow> go_err \<Rightarrow> waitErr" where
  "pollingNode nodeID seen err = Around (''polling node '' @ nodeID @ lastProvisionState seen @ '': '') err"

definition provisionBody :: "gostring \<Rightarrow> gostring \<Rightarrow> (nat \<times> gostring, node, waitErr option) waitBody" where
  "provisionBody nodeID want st reading ctx =
     (case st of (getErrors, seen) \<Rightarrow>
        (case reading of
           Inl err \<Rightarrow>
             (case ctx of
                Some e \<Rightarrow> Inr (provisionGaveUp nodeID want (getErrors, seen) e)
              | None \<Rightarrow>
                  if Suc getErrors > maxConsecutiveGetErrors then Inr (Some (pollingNode nodeID seen err))
                  else Inl (Suc getErrors, seen))
         | Inr n \<Rightarrow>
             (case classifyProvisionState n nodeID want of
                (Some cerr, _) \<Rightarrow> Inr (Some cerr)
              | (None, True) \<Rightarrow> Inr None
              | (None, False) \<Rightarrow> Inl (0, nd_ProvisionState n))))"

definition WaitForProvisionState :: "gostring \<Rightarrow> gostring \<Rightarrow> node round list \<Rightarrow> waitErr option option" where
  "WaitForProvisionState nodeID want = pollLoop (provisionBody nodeID want) (provisionGaveUp nodeID want) (0, [])"

text \<open>The result is the state and the last error of the node, and the wait's own error.\<close>

definition settledGaveUp :: "gostring \<Rightarrow> nat \<times> gostring \<Rightarrow> go_err \<Rightarrow> gostring \<times> gostring \<times> waitErr option" where
  "settledGaveUp nodeID st e =
     ([], [], Some (Around (''waiting for node '' @ nodeID @ '' to settle'' @ lastProvisionState (snd st) @ '': '') e))"

definition settledBody :: "gostring \<Rightarrow> (nat \<times> gostring, node, gostring \<times> gostring \<times> waitErr option) waitBody" where
  "settledBody nodeID st reading ctx =
     (case st of (getErrors, seen) \<Rightarrow>
        (case reading of
           Inl err \<Rightarrow>
             (case ctx of
                Some e \<Rightarrow> Inr (settledGaveUp nodeID (getErrors, seen) e)
              | None \<Rightarrow>
                  if Suc getErrors > maxConsecutiveGetErrors then Inr ([], [], Some (pollingNode nodeID seen err))
                  else Inl (Suc getErrors, seen))
         | Inr n \<Rightarrow>
             if IsProvisionFailure (nd_ProvisionState n) \<or> nd_TargetProvisionState n = [] then
               Inr (nd_ProvisionState n, nd_LastError n, None)
             else Inl (0, nd_ProvisionState n)))"

definition WaitForProvisionSettled :: "gostring \<Rightarrow> node round list \<Rightarrow> (gostring \<times> gostring \<times> waitErr option) option" where
  "WaitForProvisionSettled nodeID = pollLoop (settledBody nodeID) (settledGaveUp nodeID) (0, [])"

section \<open>Every wait ends with its context\<close>

lemma pollLoop_ends: "\<exists>r\<in>set rounds. rd_done r \<noteq> None \<Longrightarrow> \<exists>res. pollLoop body gaveUp l rounds = Some res"
  by (induction rounds arbitrary: l) (auto split: sum.splits option.splits)

lemma pollLoop_prefix: "pollLoop body gaveUp l rounds = Some res \<Longrightarrow> pollLoop body gaveUp l (rounds @ later) = Some res"
  by (induction rounds arbitrary: l) (auto split: sum.splits option.splits)

lemma pollLoop_returns:
  "\<exists>r\<in>set rounds. rd_done r \<noteq> None \<Longrightarrow> \<exists>res. \<forall>more. pollLoop body gaveUp l (rounds @ more) = Some res"
  using pollLoop_ends pollLoop_prefix by meson

lemma pollLoop_outcome:
  "pollLoop body gaveUp l rounds = Some res \<Longrightarrow>
     (\<exists>r\<in>set rounds. \<exists>l. body l (rd_reading r) (rd_ctx r) = Inr res) \<or> (\<exists>l e. res = gaveUp l e)"
  by (induction rounds arbitrary: l) (auto split: sum.splits option.splits)

text \<open>
  C99. No wait outlives its context: once the select of a round takes \<^verbatim>\<open>ctx.Done()\<close>, the wait has
  returned, whatever the reads before it answered, and it never reads the resource again after it has
  returned.
\<close>

theorem waits_end_with_their_context:
  assumes "\<exists>r\<in>set rs. rd_done r \<noteq> None" and "\<exists>r\<in>set vs. rd_done r \<noteq> None" and "\<exists>r\<in>set bs. rd_done r \<noteq> None"
    and "\<exists>r\<in>set ns. rd_done r \<noteq> None"
  shows "(\<exists>res. \<forall>more. WaitForServerStatus want (rs @ more) = Some res)
    \<and> (\<exists>res. \<forall>more. WaitForServerDeleted codeIs (rs @ more) = Some res)
    \<and> (\<exists>res. \<forall>more. WaitForMigration i (rs @ more) = Some res)
    \<and> (\<exists>res. \<forall>more. WaitForServerToLeaveHost i host start (rs @ more) = Some res)
    \<and> (\<exists>res. \<forall>more. WaitForVolumeAvailable i (vs @ more) = Some res)
    \<and> (\<exists>res. \<forall>more. WaitForRetype i tid tname (vs @ more) = Some res)
    \<and> (\<exists>res. \<forall>more. WaitForVolumeMigration i (vs @ more) = Some res)
    \<and> (\<exists>res. \<forall>more. WaitForLoadBalancerActive i (bs @ more) = Some res)
    \<and> (\<exists>res. \<forall>more. WaitForLoadBalancerDeleted i (bs @ more) = Some res)
    \<and> (\<exists>res. \<forall>more. WaitForStatus i st (bs @ more) = Some res)
    \<and> (\<exists>res. \<forall>more. WaitForProvisionState i st (ns @ more) = Some res)
    \<and> (\<exists>res. \<forall>more. WaitForProvisionSettled i (ns @ more) = Some res)"
  unfolding WaitForServerStatus_def WaitForServerDeleted_def WaitForMigration_def WaitForServerToLeaveHost_def poll_def
    WaitForVolumeAvailable_def WaitForRetype_def WaitForVolumeMigration_def pollVolume_def
    WaitForLoadBalancerActive_def WaitForLoadBalancerDeleted_def pollProvisioning_def
    WaitForStatus_def WaitForProvisionState_def WaitForProvisionSettled_def
  by (intro conjI; rule pollLoop_returns; fact assms)

section \<open>Waits that ride out failed reads\<close>

fun settleReads :: "('s \<Rightarrow> 'l \<Rightarrow> 'l \<times> 'r option) \<Rightarrow> 'l \<Rightarrow> 's list \<Rightarrow> 'r option" where
  "settleReads settle l [] = None"
| "settleReads settle l (s # ss) =
     (case settle s l of (_, Some res) \<Rightarrow> Some res | (l', None) \<Rightarrow> settleReads settle l' ss)"

text \<open>\<open>view\<close> is how the loop looks at what the read answers.\<close>

definition goodReads :: "(go_err + 'a \<Rightarrow> go_err + 's) \<Rightarrow> 'a round list \<Rightarrow> 's list" where
  "goodReads view rounds = List.map_filter (\<lambda>r. case view (rd_reading r) of Inr s \<Rightarrow> Some s | Inl _ \<Rightarrow> None) rounds"

text \<open>No more than five failed reads in a row, the first \<open>n\<close> of them already behind.\<close>

fun tolerable :: "(go_err + 'a \<Rightarrow> go_err + 's) \<Rightarrow> nat \<Rightarrow> 'a round list \<Rightarrow> bool" where
  "tolerable view n [] \<longleftrightarrow> True"
| "tolerable view n (r # rs) \<longleftrightarrow>
     (case view (rd_reading r) of Inr _ \<Rightarrow> tolerable view 0 rs | Inl _ \<Rightarrow> n < 5 \<and> tolerable view (Suc n) rs)"

definition inTime :: "'a round list \<Rightarrow> bool" where
  "inTime rounds \<longleftrightarrow> list_all (\<lambda>r. rd_ctx r = None \<and> rd_done r = None) rounds"

lemma goodReads_simps [simp]:
  "goodReads view [] = []"
  "goodReads view (r # rs) =
     (case view (rd_reading r) of Inr s \<Rightarrow> s # goodReads view rs | Inl _ \<Rightarrow> goodReads view rs)"
  by (simp_all add: goodReads_def map_filter_simps split: sum.split)

text \<open>
  What the loops that tolerate failed reads have in common: a good reading is settled and clears the
  count, a failed one is counted up to five, and one that fails because the context ended gives up.
  \<open>carried n l\<close> is what the loop carries after \<open>n\<close> failed reads in a row.
\<close>

locale tolerant_wait =
  fixes body :: "('st, 'a, 'r) waitBody"
    and carried :: "nat \<Rightarrow> 'l \<Rightarrow> 'st"
    and view :: "go_err + 'a \<Rightarrow> go_err + 's"
    and settle :: "'s \<Rightarrow> 'l \<Rightarrow> 'l \<times> 'r option"
    and gaveUp :: "'l \<Rightarrow> go_err \<Rightarrow> 'r"
    and readsFailed :: "'l \<Rightarrow> go_err \<Rightarrow> 'r"
    and onDone :: "'st \<Rightarrow> go_err \<Rightarrow> 'r"
  assumes good: "view a = Inr s \<Longrightarrow> body (carried n l) a c =
      (case settle s l of (_, Some res) \<Rightarrow> Inr res | (l', None) \<Rightarrow> Inl (carried 0 l'))"
    and failed: "view a = Inl e \<Longrightarrow>
      body (carried n l) a None = (if n < 5 then Inl (carried (Suc n) l) else Inr (readsFailed l e))"
    and late: "view a = Inl e \<Longrightarrow> body (carried n l) a (Some d) = Inr (gaveUp l d)"
    and done_gives_up: "onDone (carried n l) d = gaveUp l d"
begin

lemma rides_out:
  "inTime rounds \<Longrightarrow> tolerable view n rounds \<Longrightarrow>
     pollLoop body onDone (carried n l) rounds = settleReads settle l (goodReads view rounds)"
proof (induction rounds arbitrary: n l)
  case (Cons r rs)
  then have t: "rd_ctx r = None" "rd_done r = None" "inTime rs" by (simp_all add: inTime_def)
  show ?case
  proof (cases "view (rd_reading r)")
    case (Inl e)
    then show ?thesis using Cons t by (simp add: failed)
  next
    case (Inr s)
    then show ?thesis using Cons t by (cases "settle s l") (simp add: good split: option.splits)
  qed
qed simp

lemma gives_up:
  "inTime rounds \<Longrightarrow> list_all (\<lambda>r. \<exists>e. view (rd_reading r) = Inl e) rounds \<Longrightarrow> length rounds + n = 6 \<Longrightarrow>
     rounds \<noteq> [] \<Longrightarrow> view (rd_reading (last rounds)) = Inl err \<Longrightarrow>
     pollLoop body onDone (carried n l) rounds = Some (readsFailed l err)"
proof (induction rounds arbitrary: n)
  case (Cons r rs)
  obtain e where e: "view (rd_reading r) = Inl e" using Cons.prems by auto
  have t: "rd_ctx r = None" "rd_done r = None" "inTime rs" using Cons.prems by (simp_all add: inTime_def)
  show ?case
  proof (cases "rs = []")
    case True
    then show ?thesis using Cons.prems e t by (simp add: failed)
  next
    case False
    then have "n < 5" using Cons.prems by (cases rs) simp_all
    then show ?thesis using Cons.IH [of "Suc n"] Cons.prems e t False by (simp add: failed)
  qed
qed simp

lemma outcomes:
  "pollLoop body onDone (carried n l) rounds = Some res \<Longrightarrow>
     (\<exists>r\<in>set rounds. \<exists>s l l'. view (rd_reading r) = Inr s \<and> settle s l = (l', Some res))
     \<or> (\<exists>l e. res = gaveUp l e) \<or> (\<exists>l e. res = readsFailed l e)"
proof (induction rounds arbitrary: n l)
  case (Cons r rs)
  show ?case
  proof (cases "view (rd_reading r)")
    case (Inl e)
    show ?thesis
    proof (cases "rd_ctx r")
      case None
      then show ?thesis using Cons.IH [of "Suc n" l] Cons.prems Inl
        by (auto simp: failed done_gives_up split: if_splits option.splits)
    next
      case (Some d)
      then show ?thesis using Cons.prems Inl by (auto simp: late)
    qed
  next
    case (Inr s)
    obtain l' a where "settle s l = (l', a)" by fastforce
    then show ?thesis using Cons.IH [of 0 l'] Cons.prems Inr
      by (auto simp: good done_gives_up split: option.splits)
  qed
qed simp

end

text \<open>The five families of tolerant waits.\<close>

definition moveDecision :: "(serverPoll \<Rightarrow> gostring \<Rightarrow> gostring \<times> waitErr option \<times> bool) \<Rightarrow> serverPoll \<Rightarrow> gostring
    \<Rightarrow> gostring \<times> (gostring \<times> waitErr option) option" where
  "moveDecision settle s stat =
     (case settle s stat of (stat', err, over) \<Rightarrow> (stat', if err \<noteq> None \<or> over then Some (stat', err) else None))"

interpretation server_wait: tolerant_wait "pollBody timedOut failedRead settle" Pair "\<lambda>a. a" "moveDecision settle"
  "\<lambda>stat e. (stat, Some (timedOut e))" "\<lambda>stat e. (stat, Some (failedRead e))" "\<lambda>st e. (snd st, Some (timedOut e))"
  by unfold_locales (auto simp: pollBody_def moveDecision_def maxGetErrors_def split: prod.splits)

definition volumeDecision :: "(volumeState \<Rightarrow> waitErr option \<times> bool) \<Rightarrow> volumeState \<Rightarrow> unit \<Rightarrow> unit \<times> waitErr option option" where
  "volumeDecision settle s u = (case settle s of (err, over) \<Rightarrow> ((), if err \<noteq> None \<or> over then Some err else None))"

interpretation volume_wait: tolerant_wait "volumeBody volumeID settle" "\<lambda>n u. n" "\<lambda>a. a" "volumeDecision settle"
  "\<lambda>u e. volumeGaveUp volumeID 0 e" "\<lambda>u err. Some (Around (''polling volume '' @ volumeID @ '': '') err)" "volumeGaveUp volumeID"
  by unfold_locales (auto simp: volumeBody_def volumeDecision_def volumeGaveUp_def maxGetErrors_def split: prod.splits)

text \<open>A load balancer that is gone ends both of its waits.\<close>

definition balancerDecision :: "(gostring \<Rightarrow> bool \<Rightarrow> waitErr option \<times> bool) \<Rightarrow> gostring \<times> bool \<Rightarrow> gostring
    \<Rightarrow> gostring \<times> waitErr option option" where
  "balancerDecision finished reading seen =
     (case finished (fst reading) (snd reading) of
        (err, over) \<Rightarrow> (fst reading, if err \<noteq> None \<or> over then Some err else None))"

lemma gone_ends: "activeFinished lbID s True \<noteq> (None, False)" "deletedFinished lbID s True \<noteq> (None, False)"
  by (simp_all add: activeFinished_def deletedFinished_def)

interpretation active_wait: tolerant_wait "balancerBody lbID (activeFinished lbID)" Pair getStatus
  "balancerDecision (activeFinished lbID)" "\<lambda>seen e. balancerGaveUp lbID (0, seen) e"
  "\<lambda>seen err. Some (Around (''polling load balancer '' @ lbID @ lastProvisioning seen @ '': '') err)" "balancerGaveUp lbID"
  by unfold_locales
    (auto simp: balancerBody_def balancerDecision_def balancerGaveUp_def maxConsecutiveGetErrors_def activeFinished_def)

interpretation deleted_wait: tolerant_wait "balancerBody lbID (deletedFinished lbID)" Pair getStatus
  "balancerDecision (deletedFinished lbID)" "\<lambda>seen e. balancerGaveUp lbID (0, seen) e"
  "\<lambda>seen err. Some (Around (''polling load balancer '' @ lbID @ lastProvisioning seen @ '': '') err)" "balancerGaveUp lbID"
  by unfold_locales
    (auto simp: balancerBody_def balancerDecision_def balancerGaveUp_def maxConsecutiveGetErrors_def deletedFinished_def)

definition nodeDecision :: "gostring \<Rightarrow> gostring \<Rightarrow> node \<Rightarrow> gostring \<Rightarrow> gostring \<times> waitErr option option" where
  "nodeDecision nodeID want n seen =
     (nd_ProvisionState n,
      case classifyProvisionState n nodeID want of
        (Some err, _) \<Rightarrow> Some (Some err) | (None, True) \<Rightarrow> Some None | (None, False) \<Rightarrow> None)"

interpretation node_wait: tolerant_wait "provisionBody nodeID want" Pair "\<lambda>a. a" "nodeDecision nodeID want"
  "\<lambda>seen e. provisionGaveUp nodeID want (0, seen) e" "\<lambda>seen e. Some (pollingNode nodeID seen e)" "provisionGaveUp nodeID want"
  by unfold_locales
    (auto simp: provisionBody_def nodeDecision_def maxConsecutiveGetErrors_def provisionGaveUp_def
      split: prod.splits option.splits bool.splits)

definition settledDecision :: "node \<Rightarrow> gostring \<Rightarrow> gostring \<times> (gostring \<times> gostring \<times> waitErr option) option" where
  "settledDecision n seen =
     (nd_ProvisionState n,
      if IsProvisionFailure (nd_ProvisionState n) \<or> nd_TargetProvisionState n = [] then
        Some (nd_ProvisionState n, nd_LastError n, None)
      else None)"

interpretation settled_wait: tolerant_wait "settledBody nodeID" Pair "\<lambda>a. a" settledDecision
  "\<lambda>seen e. settledGaveUp nodeID (0, seen) e" "\<lambda>seen e. ([], [], Some (pollingNode nodeID seen e))" "settledGaveUp nodeID"
  by unfold_locales (auto simp: settledBody_def settledDecision_def maxConsecutiveGetErrors_def settledGaveUp_def)

text \<open>
  C99. Failed reads do not disturb a wait as long as no more than five of them come in a row and the
  context lives: the result of each tolerant wait is that of its decisions on the states it read,
  taken in order, so two runs that read the same states end alike however many reads failed in between.
\<close>

theorem failed_reads_are_ridden_out:
  assumes "inTime rs" and "tolerable (\<lambda>a. a) 0 rs" and "inTime vs" and "tolerable (\<lambda>a. a) 0 vs"
    and "inTime bs" and "tolerable getStatus 0 bs" and "inTime ns" and "tolerable (\<lambda>a. a) 0 ns"
  shows "WaitForMigration i rs = settleReads (moveDecision (migrationSettle i)) [] (goodReads (\<lambda>a. a) rs)
    \<and> WaitForServerToLeaveHost i host start rs
        = settleReads (moveDecision (leaveSettle i host start)) [] (goodReads (\<lambda>a. a) rs)
    \<and> WaitForVolumeAvailable i vs = settleReads (volumeDecision (availableSettle i)) () (goodReads (\<lambda>a. a) vs)
    \<and> WaitForRetype i tid tname vs = settleReads (volumeDecision (retypeSettle i tid tname)) () (goodReads (\<lambda>a. a) vs)
    \<and> WaitForVolumeMigration i vs = settleReads (volumeDecision (volumeMigrationSettle i)) () (goodReads (\<lambda>a. a) vs)
    \<and> WaitForLoadBalancerActive i bs = settleReads (balancerDecision (activeFinished i)) [] (goodReads getStatus bs)
    \<and> WaitForLoadBalancerDeleted i bs = settleReads (balancerDecision (deletedFinished i)) [] (goodReads getStatus bs)
    \<and> WaitForProvisionState i st ns = settleReads (nodeDecision i st) [] (goodReads (\<lambda>a. a) ns)
    \<and> WaitForProvisionSettled i ns = settleReads settledDecision [] (goodReads (\<lambda>a. a) ns)"
  using assms
  by (simp add: WaitForMigration_def WaitForServerToLeaveHost_def poll_def server_wait.rides_out
      WaitForVolumeAvailable_def WaitForRetype_def WaitForVolumeMigration_def pollVolume_def volume_wait.rides_out
      WaitForLoadBalancerActive_def WaitForLoadBalancerDeleted_def pollProvisioning_def active_wait.rides_out
      deleted_wait.rides_out WaitForProvisionState_def WaitForProvisionSettled_def node_wait.rides_out settled_wait.rides_out)

text \<open>Six failed reads in a row end a wait; five do not.\<close>

lemma sixth_failed_read_ends_the_wait:
  assumes "inTime ns" and "list_all (\<lambda>r. \<exists>e. rd_reading r = Inl e) ns" and "length ns = 6"
    and "rd_reading (last ns) = Inl err"
  shows "WaitForProvisionState i st ns = Some (Some (pollingNode i [] err))
    \<and> WaitForProvisionState i st (take 5 ns) = None"
proof -
  have "tolerable (\<lambda>a. a) 0 (take 5 ns)" "goodReads (\<lambda>a. a) (take 5 ns) = []" "inTime (take 5 ns)"
    using assms(1-3) by (auto simp: inTime_def eval_nat_numeral length_Suc_conv)
  then have "WaitForProvisionState i st (take 5 ns) = None"
    by (simp add: WaitForProvisionState_def node_wait.rides_out)
  moreover have "ns \<noteq> []" using assms(3) by auto
  ultimately show ?thesis
    using assms node_wait.gives_up [where n = 0 and rounds = ns and l = "[]"]
    by (auto simp: WaitForProvisionState_def)
qed

section \<open>A wait that succeeds has seen its goal\<close>

lemma moveDecision_done:
  "moveDecision settle s stat = (l, Some (res, None)) \<Longrightarrow> settle s stat = (res, None, True)"
  by (auto simp: moveDecision_def split: prod.splits if_splits)

lemma leaveSettle_done:
  "leaveSettle i host start s stat = (res, None, True) \<Longrightarrow>
     res = sp_Status s \<and> sp_TaskState s = [] \<and> sp_Host s \<noteq> [] \<and> sp_Host s \<noteq> host \<and> \<not> equalFold (sp_Status s) ''ERROR''"
  by (auto simp: leaveSettle_def Let_def split: if_splits)

lemma migrationSettle_done:
  "migrationSettle i s stat = (res, None, True) \<Longrightarrow>
     res = sp_Status s \<and> sp_TaskState s = [] \<and> list_ex (equalFold res) [''ACTIVE'', ''PAUSED'', ''VERIFY_RESIZE'']"
  by (auto simp: migrationSettle_def split: if_splits)

lemma leave_done:
  assumes "WaitForServerToLeaveHost i host start rs = Some (res, None)"
  shows "\<exists>r\<in>set rs. \<exists>s. rd_reading r = Inr s \<and> res = sp_Status s \<and> sp_TaskState s = [] \<and> sp_Host s \<noteq> []
    \<and> sp_Host s \<noteq> host \<and> \<not> equalFold (sp_Status s) ''ERROR''"
proof -
  obtain r s l l' where r: "r \<in> set rs" "rd_reading r = Inr s" "moveDecision (leaveSettle i host start) s l = (l', Some (res, None))"
    using server_wait.outcomes [OF assms [unfolded WaitForServerToLeaveHost_def poll_def]] by auto
  then show ?thesis using leaveSettle_done [OF moveDecision_done [OF r(3)]] by blast
qed

lemma retypeSettle_done:
  "retypeSettle i tid tname s = (None, True) \<Longrightarrow>
     typeMatches s tid tname \<and> \<not> equalFold (vs_Status s) ''error'' \<and> \<not> equalFold (vs_Status s) ''retyping''
     \<and> \<not> migrationInFlight (vs_MigrationStatus s)"
  by (auto simp: retypeSettle_def volumeFailed_def split: if_splits)

lemma status_done:
  assumes "WaitForServerStatus want rs = Some None"
  shows "\<exists>r\<in>set rs. \<exists>s. rd_reading r = Inr s \<and> sp_Status s \<in> set want \<and> sp_TaskState s = []"
proof -
  obtain r l where r: "r \<in> set rs" "statusBody want l (rd_reading r) (rd_ctx r) = Inr None"
    using pollLoop_outcome [OF assms [unfolded WaitForServerStatus_def]] by (auto simp: statusGaveUp_def)
  then obtain s where s: "rd_reading r = Inr s"
    by (cases "rd_reading r") (auto simp: statusBody_def statusGaveUp_def split: option.splits)
  then have "sp_Status s \<in> set want \<and> sp_TaskState s = []"
    using r(2) by (simp add: statusBody_def Let_def split: if_splits)
  then show ?thesis using r(1) s by blast
qed

lemma migration_done:
  assumes "WaitForMigration i rs = Some (res, None)"
  shows "\<exists>r\<in>set rs. \<exists>s. rd_reading r = Inr s \<and> res = sp_Status s \<and> sp_TaskState s = []
    \<and> list_ex (equalFold res) [''ACTIVE'', ''PAUSED'', ''VERIFY_RESIZE'']"
proof -
  obtain r s l l' where r: "r \<in> set rs" "rd_reading r = Inr s" "moveDecision (migrationSettle i) s l = (l', Some (res, None))"
    using server_wait.outcomes [OF assms [unfolded WaitForMigration_def poll_def]] by auto
  then show ?thesis using migrationSettle_done [OF moveDecision_done [OF r(3)]] by blast
qed

lemma retype_done:
  assumes "WaitForRetype i tid tname vs = Some None"
  shows "\<exists>r\<in>set vs. \<exists>s. rd_reading r = Inr s \<and> typeMatches s tid tname \<and> \<not> equalFold (vs_Status s) ''error''
    \<and> \<not> equalFold (vs_Status s) ''retyping'' \<and> \<not> migrationInFlight (vs_MigrationStatus s)"
proof -
  obtain r s l l' where r: "r \<in> set vs" "rd_reading r = Inr s"
      "volumeDecision (retypeSettle i tid tname) s l = (l', Some None)"
    using volume_wait.outcomes [where n = 0, OF assms [unfolded WaitForRetype_def pollVolume_def]]
    by (auto simp: volumeGaveUp_def)
  then have "retypeSettle i tid tname s = (None, True)"
    by (auto simp: volumeDecision_def split: prod.splits if_splits)
  then show ?thesis using r retypeSettle_done by blast
qed

lemma active_done:
  assumes "WaitForLoadBalancerActive i bs = Some None"
  shows "\<exists>r\<in>set bs. rd_reading r = Inr ''ACTIVE''"
proof -
  obtain r s l l' where r: "r \<in> set bs" "getStatus (rd_reading r) = Inr s"
      "balancerDecision (activeFinished i) s l = (l', Some None)"
    using active_wait.outcomes [OF assms [unfolded WaitForLoadBalancerActive_def pollProvisioning_def]]
    by (auto simp: balancerGaveUp_def)
  then have "s = (''ACTIVE'', False)"
    by (cases s) (auto simp: balancerDecision_def activeFinished_def split: if_splits)
  then show ?thesis using r by (auto simp: getStatus_def split: sum.splits if_splits)
qed

lemma node_done:
  assumes "WaitForProvisionState i st ns = Some None"
  shows "\<exists>r\<in>set ns. \<exists>n. rd_reading r = Inr n \<and> nd_ProvisionState n = st \<and> nd_TargetProvisionState n = []"
proof -
  obtain r s l l' where r: "r \<in> set ns" "rd_reading r = Inr s" "nodeDecision i st s l = (l', Some None)"
    using node_wait.outcomes [OF assms [unfolded WaitForProvisionState_def]] by (auto simp: provisionGaveUp_def)
  then have "classifyProvisionState s i st = (None, True)"
    by (auto simp: nodeDecision_def split: prod.splits option.splits bool.splits)
  then have "nd_ProvisionState s = st \<and> nd_TargetProvisionState s = []"
    by (auto simp: classifyProvisionState_def Let_def split: if_splits)
  then show ?thesis using r by blast
qed

text \<open>
  C99. A wait reports success only for a goal it has read: a server in a wanted status with no task
  running; a moved server on another host, with no task, not in error, in the status the wait returns;
  a retyped volume on the wanted type and neither retyping nor migrating; an active load balancer; a
  node settled in the wanted state.
\<close>

theorem finished_waits_saw_their_goal:
  "(WaitForServerStatus want rs = Some None \<longrightarrow>
      (\<exists>r\<in>set rs. \<exists>s. rd_reading r = Inr s \<and> sp_Status s \<in> set want \<and> sp_TaskState s = []))
   \<and> (WaitForServerToLeaveHost i host start rs = Some (res, None) \<longrightarrow>
      (\<exists>r\<in>set rs. \<exists>s. rd_reading r = Inr s \<and> res = sp_Status s \<and> sp_TaskState s = [] \<and> sp_Host s \<noteq> []
         \<and> sp_Host s \<noteq> host \<and> \<not> equalFold (sp_Status s) ''ERROR''))
   \<and> (WaitForMigration i rs = Some (res, None) \<longrightarrow>
      (\<exists>r\<in>set rs. \<exists>s. rd_reading r = Inr s \<and> res = sp_Status s \<and> sp_TaskState s = []
         \<and> list_ex (equalFold res) [''ACTIVE'', ''PAUSED'', ''VERIFY_RESIZE'']))
   \<and> (WaitForRetype i tid tname vs = Some None \<longrightarrow>
      (\<exists>r\<in>set vs. \<exists>s. rd_reading r = Inr s \<and> typeMatches s tid tname \<and> \<not> equalFold (vs_Status s) ''error''
         \<and> \<not> equalFold (vs_Status s) ''retyping'' \<and> \<not> migrationInFlight (vs_MigrationStatus s)))
   \<and> (WaitForLoadBalancerActive i bs = Some None \<longrightarrow> (\<exists>r\<in>set bs. rd_reading r = Inr ''ACTIVE''))
   \<and> (WaitForProvisionState i st ns = Some None \<longrightarrow>
      (\<exists>r\<in>set ns. \<exists>n. rd_reading r = Inr n \<and> nd_ProvisionState n = st \<and> nd_TargetProvisionState n = []))"
  using status_done leave_done migration_done retype_done active_done node_done by (intro conjI impI) blast+

section \<open>The waits at work\<close>

definition tick :: "go_err + 's \<Rightarrow> 's round" where
  "tick reading = \<lparr>rd_reading = reading, rd_ctx = None, rd_done = None\<rparr>"

definition netFailure :: go_err where
  "netFailure = GoErr OtherErr ''no route to host'' None []"

definition pastDeadline :: go_err where
  "pastDeadline = GoErr (Sentinel DeadlineExceeded) ''context deadline exceeded'' (Some True) []"

definition atDeadline :: "go_err + 's \<Rightarrow> 's round" where
  "atDeadline reading = \<lparr>rd_reading = reading, rd_ctx = Some pastDeadline, rd_done = Some pastDeadline\<rparr>"

definition moving :: "serverPoll round list" where
  "moving =
     [tick (Inr \<lparr>sp_Status = ''ACTIVE'', sp_TaskState = ''migrating'', sp_Host = ''a''\<rparr>), tick (Inl netFailure), tick (Inl netFailure),
      tick (Inr \<lparr>sp_Status = ''ACTIVE'', sp_TaskState = [], sp_Host = ''b''\<rparr>)]"

definition nodeAt :: "gostring \<Rightarrow> gostring \<Rightarrow> node" where
  "nodeAt state target = \<lparr>nd_ProvisionState = state, nd_TargetProvisionState = target, nd_LastError = []\<rparr>"

lemma moving_leaves: "WaitForServerToLeaveHost ''1'' ''a'' ''ACTIVE'' moving = Some (''ACTIVE'', None)"
  by code_simp

theorem waits_end_with_their_context_witness:
  "\<exists>res. \<forall>more. WaitForServerToLeaveHost ''1'' ''a'' ''ACTIVE'' ([atDeadline (Inr \<lparr>sp_Status = ''ACTIVE'', sp_TaskState = [], sp_Host = ''a''\<rparr>)] @ more) = Some res"
  using waits_end_with_their_context
    [where rs = "[atDeadline (Inr \<lparr>sp_Status = ''ACTIVE'', sp_TaskState = [], sp_Host = ''a''\<rparr>)]"
      and vs = "[atDeadline (Inl netFailure)]" and bs = "[atDeadline (Inr ''PENDING_UPDATE'')]"
      and ns = "[atDeadline (Inr (nodeAt ''deploying'' ''active''))]" and i = "''1''" and host = "''a''" and start = "''ACTIVE''"]
  by (simp add: atDeadline_def)

theorem failed_reads_are_ridden_out_witness:
  "WaitForServerToLeaveHost ''1'' ''a'' ''ACTIVE'' moving
     = settleReads (moveDecision (leaveSettle ''1'' ''a'' ''ACTIVE'')) []
         [\<lparr>sp_Status = ''ACTIVE'', sp_TaskState = ''migrating'', sp_Host = ''a''\<rparr>, \<lparr>sp_Status = ''ACTIVE'', sp_TaskState = [], sp_Host = ''b''\<rparr>]"
  using failed_reads_are_ridden_out [where rs = moving and vs = "[tick (Inl netFailure)]" and bs = "[tick (Inr ''ACTIVE'')]"
      and ns = "[tick (Inr (nodeAt ''deploying'' ''active''))]" and i = "''1''" and host = "''a''" and start = "''ACTIVE''"]
  by (simp add: tick_def moving_def inTime_def getStatus_def)

theorem finished_waits_saw_their_goal_witness:
  "WaitForServerToLeaveHost ''1'' ''a'' ''ACTIVE'' moving = Some (''ACTIVE'', None)
   \<and> (\<exists>r\<in>set moving. \<exists>s. rd_reading r = Inr s \<and> sp_TaskState s = [] \<and> sp_Host s \<noteq> ''a'')"
  using moving_leaves
    finished_waits_saw_their_goal [where i = "''1''" and host = "''a''" and start = "''ACTIVE''" and rs = moving and res = "''ACTIVE''"]
  by blast

end
