(* ===== verification/Spec2Isabelle.thy ===== *)
theory Spec2Isabelle
  imports Watch_Paint Output_Sort S3_Sync Resolve Vault_Export Shell_Session Wait_Poll
begin

text \<open>
  \<^bold>\<open>A verification library for koc\<close>, a command line client for OpenStack clouds and S3 stores.

  \<^bold>\<open>The program.\<close> A command (\<^verbatim>\<open>internal/cli\<close>) expands abbreviated command and flag names, turns the
  names its user typed into IDs (\<^verbatim>\<open>internal/cli/resolve\<close> over \<^verbatim>\<open>pkg/openstack/resolve\<close>), calls a service
  through a thin client (\<^verbatim>\<open>pkg/openstack/*\<close> over gophercloud, or \<^verbatim>\<open>internal/s3\<close>, which is its own S3
  client), and hands rows of values to the output layer (\<^verbatim>\<open>internal/output\<close>), which renders them as a
  table or as one of five machine formats. The \<^verbatim>\<open>koc s3\<close> commands (\<^verbatim>\<open>internal/cli/s3\<close>) plan bulk
  deletes, copies, moves, downloads and syncs over the listings of that client and run them on a pool
  of workers. With \<^verbatim>\<open>--watch\<close> the command runs again and again under the
  loop of \<^verbatim>\<open>internal/watch\<close>, which paints frames on the terminal, highlights changes and obeys keys. In
  \<^verbatim>\<open>koc shell\<close> (\<^verbatim>\<open>internal/cli/shell\<close>) the lines typed are split, redacted and recorded. Before any of
  this \<^verbatim>\<open>internal/auth\<close> settles whom the session runs as and in which project: flags, the environment, a
  scope file, \<^verbatim>\<open>clouds.yaml\<close> or an openrc read from Vault.

  \<^bold>\<open>The theories\<close>, from the base up:

  \<^item> \<open>Go_Base\<close>, \<open>Go_Strings\<close>, \<open>Go_Values\<close>: the parts of Go the code rests on. Strings are byte strings,
    \<open>runes\<close> decodes UTF-8 as a \<^verbatim>\<open>for range\<close> loop does, slices return \<^const>\<open>None\<close> where Go panics, and
    \<^verbatim>\<open>strings\<close>, \<^verbatim>\<open>strconv\<close>, \<^verbatim>\<open>time.Duration\<close> and \<^verbatim>\<open>fmt\<close> are modelled as far as they are used.
  \<^item> \<open>Watch_Keycode\<close> (\<^verbatim>\<open>keycode.go\<close>), \<open>Watch_Viewport\<close> (\<^verbatim>\<open>viewport.go\<close>), \<open>Watch_Diff\<close> (\<^verbatim>\<open>diff.go\<close>),
    \<open>Watch_Errors\<close> (\<^verbatim>\<open>errors.go\<close>), \<open>Watch_Screen\<close> (\<^verbatim>\<open>screen.go\<close>), \<open>Watch_Runner\<close> (\<^verbatim>\<open>status.go\<close>, \<^verbatim>\<open>help.go\<close>,
    \<^verbatim>\<open>keys.go\<close>), \<open>Watch_Loop\<close> and \<open>Watch_Paint\<close> (\<^verbatim>\<open>watch.go\<close>): the watch package. The runner is a record,
    each handler a function on it; what a handler reads of the terminal is its environment, and
    each \<^verbatim>\<open>select\<close> is a list of the events it receives, so every interleaving is some input. Shown:
    decoding does not depend on how reads split the input and inverts what terminals send; the
    loop's interval, request count and termination; that a failed refresh keeps the last good
    frame; that keys pressed during a refresh do not disturb it; that the terminal is given back;
    that painting never scrolls; that highlighting compares what it should.
  \<^item> \<open>Shell_Split\<close> (\<^verbatim>\<open>split.go\<close>), \<open>Shell_Redact\<close> (\<^verbatim>\<open>redact.go\<close>, \<^verbatim>\<open>auth/debug.go\<close>), \<open>Cli_Prefix\<close>
    (\<^verbatim>\<open>cmdprefix.go\<close>, \<^verbatim>\<open>flagprefix.go\<close>): lines, secrets and abbreviations. Quoting and splitting are
    inverse, secret values do not survive redaction (and where they do), expansion only completes
    what is unambiguous and is stable. Which command cobra resolves is input.
  \<^item> \<open>Output_Text\<close>, \<open>Output_Table\<close>, \<open>Output_Columns\<close> (\<^verbatim>\<open>output.go\<close>): cells, tables, columns. No cell
    carries control characters, TSV can be read back, a fitted table is a rectangle no wider than
    the display, a column selection is rendered exactly as asked. The JSON, YAML and CSV encoders
    and the sort are input.
  \<^item> \<open>S3_Sign\<close> (\<^verbatim>\<open>sign.go\<close>, \<^verbatim>\<open>presign.go\<close>), \<open>S3_Client\<close> (\<^verbatim>\<open>retry.go\<close>, the engine of \<^verbatim>\<open>s3.go\<close>), \<open>S3_Calls\<close>
    (the calls of \<^verbatim>\<open>s3.go\<close>, \<^verbatim>\<open>copy.go\<close>, \<^verbatim>\<open>delete.go\<close>, \<^verbatim>\<open>versioning.go\<close>, the redirect policy), \<open>S3_List\<close>
    (listings) and \<open>S3_Multipart\<close> (\<^verbatim>\<open>multipart.go\<close>): the S3 client. The request line carries what was
    signed and a SigV4 server computes the same signature; retries are bounded and resend the
    signed bytes; listings are the capped concatenation of their pages; a multipart upload, whose
    loop, workers and context are a step relation, sends the whole source in order, never
    deadlocks and always ends. SHA-256, HMAC, MD5 and the XML codec are arguments; what each
    attempt meets on the wire is a list.
  \<^item> \<open>Go_Path\<close> (\<^verbatim>\<open>path\<close> and \<^verbatim>\<open>path/filepath\<close> on slash-separated systems), \<open>S3_Filter\<close> (\<^verbatim>\<open>filter.go\<close> and the
    references of \<^verbatim>\<open>s3.go\<close>), \<open>S3_Delete\<close> (\<^verbatim>\<open>object_delete.go\<close>, \<^verbatim>\<open>internal/cli/batchdelete\<close>), \<open>S3_Pool\<close> (\<^verbatim>\<open>pool.go\<close>),
    \<open>S3_Copy\<close> (\<^verbatim>\<open>copy.go\<close>), \<open>S3_Download\<close> (\<^verbatim>\<open>download.go\<close>), \<open>S3_Sync\<close> (\<^verbatim>\<open>sync.go\<close>): the bulk commands. A
    wildcard selects exactly the keys it means although the server only filters by prefix; a
    recursive delete is exact; a move deletes only what the store confirmed as copied; a download
    stays inside its directory and leaves a whole file or none; a sync deletes only what the source
    lacks, after everything was transferred. Which tasks of a pool ran, and with what outcome, is
    input, restricted to what a pool that stops at the first failure can produce; the local file
    system is a map from clean paths to contents.
  \<^item> \<open>Resolve\<close>: names to IDs. Every answer is the service's own or one it gave within the cache's time
    to live, and keys do not influence each other.

  \<^item> \<open>Auth_Env\<close> (\<^verbatim>\<open>env.go\<close>), \<open>Koc_Home\<close> (\<^verbatim>\<open>internal/kochome\<close>), \<open>Auth_Options\<close> (\<^verbatim>\<open>options.go\<close>), \<open>Auth_Clouds\<close>
    (\<^verbatim>\<open>clouds.go\<close>), \<open>Auth_Resolve\<close> (\<^verbatim>\<open>provider.go\<close>, \<^verbatim>\<open>password.go\<close> and gophercloud's checks of the token
    request), \<open>Auth_Precedence\<close> (the theorems on them), \<open>Auth_Scope\<close> (\<^verbatim>\<open>scope.go\<close>) and \<open>Auth_Creds\<close>
    (\<^verbatim>\<open>vault.go\<close>, discovery, TLS, \<^verbatim>\<open>Authenticate\<close>): the session. A typed flag beats the environment and the
    openrc, a toggle nobody can parse fails the command, the request carries the method that was
    settled, a scope file decides the project of every line, and a confined configuration is read
    from nowhere else. YAML, the file system and the environment are input.

  \<^bold>\<open>Interfaces.\<close> The locales state what one part relies on of another, and each is interpreted on the
  model: \<open>incremental_decoder\<close> (the key decoder), \<open>transaction\<close> (frames of the differ),
  \<open>wait_invariant\<close> and \<open>loop_invariant\<close> (what every handler of the loop keeps), \<open>paged_walk\<close> (both
  listings), \<open>callback_walk\<close> (what a callback sees of a listing, for objects and for versions),
  \<open>keyed_memo\<close> (the resolvers' cache) and \<open>flag_store\<close> (the fields a command line flag writes and reads).

  \<^bold>\<open>Choices.\<close> Durations and instants are integers of nanoseconds; no code modelled here lets them
  overflow. \<^verbatim>\<open>strings.ToLower\<close> and \<^verbatim>\<open>EqualFold\<close> fold ASCII letters (and the two non-ASCII letters that fold
  to ASCII where that matters), which is exact for the words compared. A Go map is an association
  list or a map; where the order of a loop over it could show, the theorems hold for every order.
  Loops that end by themselves are recursive functions; loops that wait for input consume a list of
  what they meet and are unfinished (\<^const>\<open>None\<close>) when it ends, and the theorems on them say how long a
  list is enough: \<^verbatim>\<open>MaxRetries\<close> + 1 answered attempts for a request, the remaining rounds for a counted
  watch; a multipart upload has a measure that every step decreases.

  \<^bold>\<open>Not modelled.\<close> Terminal, file and network I/O, TLS and proxies; authentication
  (\<^verbatim>\<open>internal/auth\<close> beyond the secret names), Vault and Kubernetes credentials; the line editor, completion
  and audit log of the shell; the service packages of \<^verbatim>\<open>pkg/openstack\<close> and the command files of
  \<^verbatim>\<open>internal/cli\<close>, most of which build one request from flags and print its fields. Next in line are the
  credential precedence of \<^verbatim>\<open>internal/auth\<close>, the uploads of \<^verbatim>\<open>internal/cli/s3\<close>, the sort of \<^verbatim>\<open>output.go\<close>
  and the state machines of \<^verbatim>\<open>internal/cli/baremetal\<close> and \<^verbatim>\<open>internal/cli/server\<close>.
\<close>

end
